(* ===== verification/Gw_Prelude.thy ===== *)
theory Gw_Prelude
  imports Main "HOL-Library.Word" "HOL-Library.Monad_Syntax" "HOL-Library.Signed_Division"
begin

section \<open>Prelude: flags, pointers and linked chains\<close>

text \<open>
  What every component of the development shares: C pointers, the flag macros of
  \<^verbatim>\<open>event_private.h\<close>, the checked 64-bit arithmetic of C, and the generic facts about
  singly linked chains of heap objects.

  A C function is a HOL function into \<open>'a option\<close>. \<open>None\<close> means that the call has no
  defined result: a null or freed object was dereferenced, a signed addition overflowed,
  an object was freed twice, or a loop never ends (loops over pointers are
  \<^theory_text>\<open>partial_function (option)\<close>). \<open>Some\<close> carries the returned value and the new state.
\<close>

unbundle bit_operations_syntax

named_theorems flag_simps \<open>flag tests and updates read bit by bit\<close>
named_theorems frame_simps \<open>what an operation leaves unchanged\<close>

subsection \<open>Pointers and function pointers\<close>

type_synonym addr = nat

text \<open>\<open>None\<close> is the null pointer.\<close>

type_synonym ptr = "addr option"

text \<open>
  Function pointers: the three callbacks the library installs itself, and the user's
  functions, numbered.
\<close>

datatype fnptr =
    Fn_gwrl_wake_activity
  | Fn_gwpr_src_activity
  | Fn_io_activity
  | Fn_user nat

subsection \<open>Flag bits\<close>

type_synonym flags8 = "8 word"

definition flset :: "'a::len word \<Rightarrow> 'a word \<Rightarrow> 'a word" where
  "flset i flag = i OR flag"

definition flclr :: "'a::len word \<Rightarrow> 'a word \<Rightarrow> 'a word" where
  "flclr i flag = i AND NOT flag"

definition flisset :: "'a::len word \<Rightarrow> 'a word \<Rightarrow> bool" where
  "flisset i flag \<longleftrightarrow> i AND flag \<noteq> 0"

lemma bit_flset [flag_simps]: "bit (flset i f) n \<longleftrightarrow> bit i n \<or> bit f n"
  by (simp add: flset_def bit_or_iff)

lemma bit_flclr [flag_simps]:
  "bit (flclr (i :: 'a::len word) f) n \<longleftrightarrow> bit i n \<and> \<not> bit f n"
  using bit_imp_le_length [of i n] by (auto simp: flclr_def bit_and_iff bit_not_iff)

lemma flisset_iff_bit:
  "flisset (i :: 'a::len word) f \<longleftrightarrow> (\<exists>n. bit i n \<and> bit f n)"
  by (auto simp: flisset_def bit_eq_iff bit_and_iff dest: bit_imp_le_length)

lemma bit_flag_of_exp:
  "f = (2 :: 'a::len word) ^ k \<Longrightarrow> bit f n \<longleftrightarrow> n = k \<and> n < LENGTH('a)"
  by (auto simp: bit_simps)

lemma flisset_exp:
  "f = (2 :: 'a::len word) ^ k \<Longrightarrow> flisset i f \<longleftrightarrow> bit i k"
  by (auto simp: flisset_iff_bit bit_flag_of_exp dest: bit_imp_le_length)

subsection \<open>C arithmetic on 64-bit signed integers\<close>

text \<open>Signed overflow is undefined behaviour: a result outside the type is \<open>None\<close>.\<close>

definition chk64 :: "int \<Rightarrow> int option" where
  "chk64 x = (if - (2 ^ 63) \<le> x \<and> x < 2 ^ 63 then Some x else None)"

definition int64_range :: "int \<Rightarrow> bool" where
  "int64_range x \<longleftrightarrow> - (2 ^ 63) \<le> x \<and> x < 2 ^ 63"

lemma chk64_Some [simp]: "chk64 x = Some y \<longleftrightarrow> y = x \<and> int64_range x"
  by (auto simp: chk64_def int64_range_def)

lemma chk64_in_range [simp]: "int64_range x \<Longrightarrow> chk64 x = Some x"
  by simp

text \<open>C's division truncates towards zero.\<close>

lemma sdiv_pos_nonneg: "0 \<le> (x::int) \<Longrightarrow> 0 < c \<Longrightarrow> x sdiv c = x div c"
  by (cases "x = 0") (simp_all add: signed_divide_int_def)

lemma sdiv_pos_neg: "(x::int) < 0 \<Longrightarrow> 0 < c \<Longrightarrow> x sdiv c = - ((- x) div c)"
  by (simp add: signed_divide_int_def)

lemma smod_pos_nonneg: "0 \<le> (x::int) \<Longrightarrow> 0 < c \<Longrightarrow> x smod c = x mod c"
  by (cases "x = 0") (simp_all add: signed_modulo_int_def)

lemma smod_pos_neg: "(x::int) < 0 \<Longrightarrow> 0 < c \<Longrightarrow> x smod c = - ((- x) mod c)"
  by (simp add: signed_modulo_int_def)

lemmas c_division = sdiv_pos_nonneg sdiv_pos_neg smod_pos_nonneg smod_pos_neg

subsection \<open>Segments and chains of linked objects\<close>

text \<open>
  \<open>nx a\<close> is the \<^verbatim>\<open>next\<close> field of the object at \<open>a\<close> (\<open>None\<close>: no object there).
  \<open>seg nx p xs q\<close>: from \<open>p\<close>, following \<^verbatim>\<open>next\<close>, the objects \<open>xs\<close> are met in this order
  before the pointer \<open>q\<close>. A chain ends in the null pointer.
\<close>

primrec seg :: "(addr \<Rightarrow> ptr option) \<Rightarrow> ptr \<Rightarrow> addr list \<Rightarrow> ptr \<Rightarrow> bool" where
  "seg nx p [] q \<longleftrightarrow> p = q"
| "seg nx p (x # xs) q \<longleftrightarrow>
     p = Some x \<and> (case nx x of None \<Rightarrow> False | Some r \<Rightarrow> seg nx r xs q)"

abbreviation chain :: "(addr \<Rightarrow> ptr option) \<Rightarrow> ptr \<Rightarrow> addr list \<Rightarrow> bool" where
  "chain nx p xs \<equiv> seg nx p xs None"

lemma seg_Cons_conv:
  "seg nx p (x # xs) q \<longleftrightarrow> p = Some x \<and> (\<exists>r. nx x = Some r \<and> seg nx r xs q)"
  by (auto split: option.splits)

declare seg.simps(2) [simp del]
declare seg_Cons_conv [simp]

lemma seg_append:
  "seg nx p (xs @ ys) q \<longleftrightarrow> (\<exists>r. seg nx p xs r \<and> seg nx r ys q)"
  by (induction xs arbitrary: p) auto

lemma seg_cong:
  "(\<And>x. x \<in> set xs \<Longrightarrow> nx x = nx' x) \<Longrightarrow> seg nx p xs q = seg nx' p xs q"
  by (induction xs arbitrary: p) auto

lemma seg_upd_off [simp]: "a \<notin> set xs \<Longrightarrow> seg (nx(a := v)) p xs q = seg nx p xs q"
  by (rule seg_cong) auto

lemma chain_None [simp]: "chain nx None xs \<longleftrightarrow> xs = []"
  by (cases xs) auto

lemma chain_Some:
  "chain nx (Some a) xs \<longleftrightarrow> (\<exists>r ys. xs = a # ys \<and> nx a = Some r \<and> chain nx r ys)"
  by (cases xs) auto

lemma chain_unique: "chain nx p xs \<Longrightarrow> chain nx p ys \<Longrightarrow> xs = ys"
proof (induction xs arbitrary: p ys)
  case Nil
  then show ?case by simp
next
  case (Cons x xs)
  then show ?case by (cases ys) auto
qed

lemma seg_alloc: "seg nx p xs q \<Longrightarrow> x \<in> set xs \<Longrightarrow> \<exists>r. nx x = Some r"
  by (induction xs arbitrary: p) auto

lemma chain_tail_notin: "chain nx p (x # xs) \<Longrightarrow> x \<notin> set xs"
proof
  assume c: "chain nx p (x # xs)" and m: "x \<in> set xs"
  from m obtain ys zs where xs: "xs = ys @ x # zs" by (auto simp: in_set_conv_decomp)
  from c obtain r where "nx x = Some r" "chain nx r xs" by auto
  with xs have "chain nx (Some x) (x # zs)"
    by (auto simp: seg_append)
  moreover from c have "chain nx (Some x) (x # xs)" by auto
  ultimately have "x # zs = x # xs" by (rule chain_unique)
  with xs show False by simp
qed

lemma chain_distinct: "chain nx p xs \<Longrightarrow> distinct xs"
proof (induction xs arbitrary: p)
  case Nil
  then show ?case by simp
next
  case (Cons x xs)
  then have "x \<notin> set xs" by (blast dest: chain_tail_notin)
  with Cons show ?case by auto
qed

lemma chain_push: "chain nx p xs \<Longrightarrow> a \<notin> set xs \<Longrightarrow> chain (nx(a \<mapsto> p)) (Some a) (a # xs)"
  by simp

lemma seg_set_last:
  assumes "seg nx p (xs @ [x]) q" and "x \<notin> set xs"
  shows "seg (nx(x \<mapsto> q')) p (xs @ [x]) q'"
  using assms by (auto simp: seg_append)

lemma chain_unlink:
  assumes "chain nx p (xs @ x # y # ys)" and "nx y = Some r"
  shows "chain (nx(x \<mapsto> r)) p (xs @ x # ys)"
proof -
  from assms have "distinct (xs @ x # y # ys)" by (blast dest: chain_distinct)
  with assms show ?thesis by (auto simp: seg_append)
qed

subsection \<open>Lists\<close>

lemma remove1_split: "x \<notin> set ys \<Longrightarrow> remove1 x (ys @ x # zs) = ys @ zs"
  by (simp add: remove1_append)

lemma last_of_snoc_conv: "xs \<noteq> [] \<Longrightarrow> last xs = x \<Longrightarrow> \<exists>ys. xs = ys @ [x]"
  by (metis append_butlast_last_id)

lemma last_notin_tail: "distinct (xs @ zs) \<Longrightarrow> xs \<noteq> [] \<Longrightarrow> last xs \<notin> set zs"
  using last_in_set [of xs] by (simp only: distinct_append) blast

end
