(* ===== verification/Gw_Time.thy ===== *)
theory Gw_Time
  imports Gw_Prelude
begin

section \<open>Time values (\<^verbatim>\<open>src/gwrl/time.c\<close>)\<close>

text \<open>
  The conversions between milliseconds, \<^verbatim>\<open>struct timeval\<close> and \<^verbatim>\<open>struct timespec\<close>, and the
  arithmetic the timers use. The fields are 64-bit signed integers (\<^verbatim>\<open>long\<close>, \<^verbatim>\<open>int64_t\<close>);
  each addition, subtraction and multiplication the C code performs is checked by \<open>chk64\<close>,
  division and remainder truncate towards zero. A result \<open>None\<close> is a signed overflow.
  The lemmas give the exact value of every operation in nanoseconds (\<open>ts_ns\<close>), the
  normal form it keeps (\<open>ts_normal\<close>), and the order that \<^verbatim>\<open>gwtm_timespec_cmp\<close> and
  \<^verbatim>\<open>gwtm_timespec_is_expired\<close> decide.
\<close>

record timeval =
  tv_sec :: int
  tv_usec :: int

record timespec =
  ts_sec :: int
  ts_nsec :: int

definition MICROSECONDS_WC :: int where
  "MICROSECONDS_WC = 1000000"

definition NANOSECONDS_WC :: int where
  "NANOSECONDS_WC = 1000000000"

lemmas time_units = MICROSECONDS_WC_def NANOSECONDS_WC_def

subsection \<open>The operations\<close>

definition gwtm_ms_to_timeval :: "int \<Rightarrow> timeval option" where
  "gwtm_ms_to_timeval ms = do {
     sec \<leftarrow> chk64 (ms sdiv 1000);
     usec \<leftarrow> chk64 (1000 * (ms smod 1000));
     if usec \<ge> MICROSECONDS_WC
     then do { sec \<leftarrow> chk64 (sec + 1); Some \<lparr>tv_sec = sec, tv_usec = usec - MICROSECONDS_WC\<rparr> }
     else Some \<lparr>tv_sec = sec, tv_usec = usec\<rparr> }"

definition gwtm_ms_to_timespec :: "int \<Rightarrow> timespec option" where
  "gwtm_ms_to_timespec ms = do {
     sec \<leftarrow> chk64 (ms sdiv 1000);
     nsec \<leftarrow> chk64 (1000000 * (ms smod 1000));
     if nsec \<ge> NANOSECONDS_WC
     then do { sec \<leftarrow> chk64 (sec + 1); Some \<lparr>ts_sec = sec, ts_nsec = nsec - NANOSECONDS_WC\<rparr> }
     else Some \<lparr>ts_sec = sec, ts_nsec = nsec\<rparr> }"

definition gwtm_timeval_to_ms :: "timeval \<Rightarrow> int option" where
  "gwtm_timeval_to_ms tv =
     (if tv_sec tv = 0 \<and> tv_usec tv = 0 then Some 0
      else do { ms \<leftarrow> chk64 (tv_sec tv * 1000); chk64 (ms + tv_usec tv sdiv 1000) })"

definition gwtm_timespec_to_ms :: "timespec \<Rightarrow> int option" where
  "gwtm_timespec_to_ms ts =
     (if ts_sec ts = 0 \<and> ts_nsec ts = 0 then Some 0
      else do { ms \<leftarrow> chk64 (ts_sec ts * 1000); chk64 (ms + ts_nsec ts sdiv 1000000) })"

text \<open>The carry loop \<^verbatim>\<open>while(sub >= units) { sec += 1; sub -= units; }\<close>.\<close>

function carry_up :: "int \<Rightarrow> int \<Rightarrow> int \<Rightarrow> (int \<times> int) option" where
  "carry_up units sec sub =
     (if sub \<ge> units \<and> 0 < units
      then do { sec \<leftarrow> chk64 (sec + 1); carry_up units sec (sub - units) }
      else Some (sec, sub))"
  by pat_completeness auto
termination
  by (relation "measure (\<lambda>(units, sec, sub). nat (sub - units + 1))") auto

text \<open>The borrow loop \<^verbatim>\<open>while(sub < 0) { sec -= 1; sub += units; }\<close>.\<close>

function borrow_down :: "int \<Rightarrow> int \<Rightarrow> int \<Rightarrow> (int \<times> int) option" where
  "borrow_down units sec sub =
     (if sub < 0 \<and> 0 < units
      then do { sec \<leftarrow> chk64 (sec - 1); borrow_down units sec (sub + units) }
      else Some (sec, sub))"
  by pat_completeness auto
termination
  by (relation "measure (\<lambda>(units, sec, sub). nat (- sub))") auto

declare carry_up.simps [simp del] borrow_down.simps [simp del]

definition gwtm_add_ms_to_timeval :: "int \<Rightarrow> timeval \<Rightarrow> timeval option" where
  "gwtm_add_ms_to_timeval ms tv =
     (if ms = 0 then Some tv
      else do {
        sec \<leftarrow> chk64 (tv_sec tv + ms sdiv 1000);
        usec \<leftarrow> chk64 (tv_usec tv + 1000 * (ms smod 1000));
        (sec, usec) \<leftarrow> carry_up MICROSECONDS_WC sec usec;
        Some \<lparr>tv_sec = sec, tv_usec = usec\<rparr> })"

definition gwtm_add_ms_to_timespec :: "int \<Rightarrow> timespec \<Rightarrow> timespec option" where
  "gwtm_add_ms_to_timespec ms ts =
     (if ms = 0 then Some ts
      else do {
        sec \<leftarrow> chk64 (ts_sec ts + ms sdiv 1000);
        nsec \<leftarrow> chk64 (ts_nsec ts + 1000000 * (ms smod 1000));
        (sec, nsec) \<leftarrow> carry_up NANOSECONDS_WC sec nsec;
        Some \<lparr>ts_sec = sec, ts_nsec = nsec\<rparr> })"

text \<open>
  \<^verbatim>\<open>gwtm_timespec_cmp\<close> returns one of its two arguments, or the null pointer when they are
  equal (\<open>None\<close>).
\<close>

datatype ts_choice = Is_ts1 | Is_ts2

definition gwtm_timespec_cmp :: "timespec \<Rightarrow> timespec \<Rightarrow> ts_choice option" where
  "gwtm_timespec_cmp ts1 ts2 =
     (if ts_sec ts1 < ts_sec ts2 then Some Is_ts1
      else if ts_sec ts1 = ts_sec ts2 \<and> ts_nsec ts1 < ts_nsec ts2 then Some Is_ts1
      else if ts_sec ts1 = ts_sec ts2 \<and> ts_nsec ts1 = ts_nsec ts2 then None
      else Some Is_ts2)"

text \<open>The returned flag, and the new value of \<^verbatim>\<open>*update\<close>.\<close>

definition gwtm_timespec_copy_if_smaller :: "timespec \<Rightarrow> timespec \<Rightarrow> bool \<times> timespec" where
  "gwtm_timespec_copy_if_smaller source update =
     (if gwtm_timespec_cmp source update = Some Is_ts1 then (True, source)
      else (False, update))"

definition gwtm_timespec_sub_into :: "timespec \<Rightarrow> timespec \<Rightarrow> timespec option" where
  "gwtm_timespec_sub_into ts1 ts2 = do {
     sec \<leftarrow> chk64 (ts_sec ts1 - ts_sec ts2);
     nsec \<leftarrow> chk64 (ts_nsec ts1 - ts_nsec ts2);
     (sec, nsec) \<leftarrow> borrow_down NANOSECONDS_WC sec nsec;
     Some \<lparr>ts_sec = sec, ts_nsec = nsec\<rparr> }"

definition gwtm_timespec_is_expired :: "timespec \<Rightarrow> bool" where
  "gwtm_timespec_is_expired ts1 \<longleftrightarrow>
     ts_sec ts1 < 0 \<or> (ts_sec ts1 \<le> 0 \<and> ts_nsec ts1 \<le> 0)"

definition gwtm_timeval_to_timespec :: "timeval \<Rightarrow> timespec option" where
  "gwtm_timeval_to_timespec tv = do {
     nsec \<leftarrow> chk64 (tv_usec tv * 1000);
     Some \<lparr>ts_sec = tv_sec tv, ts_nsec = nsec\<rparr> }"

definition gwtm_timespec_to_timeval :: "timespec \<Rightarrow> timeval" where
  "gwtm_timespec_to_timeval ts = \<lparr>tv_sec = ts_sec ts, tv_usec = ts_nsec ts sdiv 1000\<rparr>"

subsection \<open>Values in nanoseconds, normal forms and ranges\<close>

definition ts_ns :: "timespec \<Rightarrow> int" where
  "ts_ns ts = ts_sec ts * 1000000000 + ts_nsec ts"

definition ts_normal :: "timespec \<Rightarrow> bool" where
  "ts_normal ts \<longleftrightarrow> 0 \<le> ts_nsec ts \<and> ts_nsec ts < 1000000000"

definition tv_us :: "timeval \<Rightarrow> int" where
  "tv_us tv = tv_sec tv * 1000000 + tv_usec tv"

definition tv_normal :: "timeval \<Rightarrow> bool" where
  "tv_normal tv \<longleftrightarrow> 0 \<le> tv_usec tv \<and> tv_usec tv < 1000000"

text \<open>
  Times of day and timeouts that keep clear of overflow: \<open>2 ^ 61\<close> seconds either way
  (about seventy thousand million years).
\<close>

definition ts_modest :: "timespec \<Rightarrow> bool" where
  "ts_modest ts \<longleftrightarrow> \<bar>ts_sec ts\<bar> \<le> 2 ^ 61"

lemmas ts_defs = ts_ns_def ts_normal_def

subsection \<open>The carry loops\<close>

lemma carry_up_exact:
  "carry_up units sec sub = Some (sec', sub') \<Longrightarrow> sec' * units + sub' = sec * units + sub"
proof (induction units sec sub rule: carry_up.induct)
  case (1 units sec sub)
  show ?case
  proof (cases "sub \<ge> units \<and> 0 < units")
    case True
    with "1.prems" have "int64_range (sec + 1)"
      and c: "carry_up units (sec + 1) (sub - units) = Some (sec', sub')"
      by (simp_all add: carry_up.simps [of units sec sub] bind_eq_Some_conv)
    with True have "sec' * units + sub' = (sec + 1) * units + (sub - units)"
      by (intro "1.IH") auto
    then show ?thesis by (simp add: algebra_simps)
  next
    case False
    with "1.prems" show ?thesis by (auto simp: carry_up.simps [of units sec sub])
  qed
qed

lemma carry_up_once:
  assumes "0 \<le> sub" "sub < 2 * units" "int64_range (sec + 1)"
  shows "carry_up units sec sub =
    (if sub \<ge> units then Some (sec + 1, sub - units) else Some (sec, sub))"
  using assms by (simp add: carry_up.simps [of units sec sub] carry_up.simps [of units "sec + 1"])

lemma borrow_down_once:
  assumes "- units \<le> sub" "sub < units" "int64_range (sec - 1)"
  shows "borrow_down units sec sub =
    (if sub < 0 then Some (sec - 1, sub + units) else Some (sec, sub))"
  using assms
  by (simp add: borrow_down.simps [of units sec sub] borrow_down.simps [of units "sec - 1"])

subsection \<open>Arithmetic of the operations\<close>

lemma sdiv_smod_1000: "(ms::int) sdiv 1000 * 1000 + ms smod 1000 = ms"
proof (cases "0 \<le> ms")
  case False
  then have "ms sdiv 1000 = - ((- ms) div 1000)" "ms smod 1000 = - ((- ms) mod 1000)"
    by (simp_all add: c_division)
  then show ?thesis using div_mult_mod_eq [of "- ms" 1000] by linarith
qed (simp add: c_division)

lemma smod_1000_abs: "\<bar>(ms::int) smod 1000\<bar> < 1000"
  by (cases "0 \<le> ms") (simp_all add: c_division)

lemma smod_1000_nonneg: "0 \<le> (ms::int) \<Longrightarrow> 0 \<le> ms smod 1000"
  by (simp add: c_division)

subsection \<open>Conversions\<close>

lemma ms_to_timespec_value:
  assumes "int64_range ms"
  shows "gwtm_ms_to_timespec ms =
    Some \<lparr>ts_sec = ms sdiv 1000, ts_nsec = 1000000 * (ms smod 1000)\<rparr>"
proof -
  have "int64_range (ms sdiv 1000)" and "int64_range (1000000 * (ms smod 1000))"
    and "\<not> NANOSECONDS_WC \<le> 1000000 * (ms smod 1000)"
    using assms sdiv_smod_1000 [of ms] smod_1000_abs [of ms]
    by (auto simp: int64_range_def time_units)
  then show ?thesis by (simp add: gwtm_ms_to_timespec_def)
qed

lemma ms_to_timeval_value:
  assumes "int64_range ms"
  shows "gwtm_ms_to_timeval ms =
    Some \<lparr>tv_sec = ms sdiv 1000, tv_usec = 1000 * (ms smod 1000)\<rparr>"
proof -
  have "int64_range (ms sdiv 1000)" and "int64_range (1000 * (ms smod 1000))"
    and "\<not> MICROSECONDS_WC \<le> 1000 * (ms smod 1000)"
    using assms sdiv_smod_1000 [of ms] smod_1000_abs [of ms]
    by (auto simp: int64_range_def time_units)
  then show ?thesis by (simp add: gwtm_ms_to_timeval_def)
qed

lemma sdiv_mult_cancel: "0 < c \<Longrightarrow> (c * (r::int)) sdiv c = r"
  by (cases "r = 0") (auto simp: signed_divide_int_def sgn_mult abs_mult abs_mult_sgn mult.commute)

lemma timespec_ms_back:
  assumes "int64_range ms"
  shows "gwtm_timespec_to_ms \<lparr>ts_sec = ms sdiv 1000, ts_nsec = 1000000 * (ms smod 1000)\<rparr> = Some ms"
proof -
  have r: "int64_range (ms sdiv 1000 * 1000)"
    using assms sdiv_smod_1000 [of ms] smod_1000_abs [of ms]
    by (cases "0 \<le> ms") (auto simp: int64_range_def c_division)
  with assms sdiv_smod_1000 [of ms] show ?thesis
    by (auto simp: gwtm_timespec_to_ms_def sdiv_mult_cancel)
qed

lemma timeval_ms_back:
  assumes "int64_range ms"
  shows "gwtm_timeval_to_ms \<lparr>tv_sec = ms sdiv 1000, tv_usec = 1000 * (ms smod 1000)\<rparr> = Some ms"
proof -
  have r: "int64_range (ms sdiv 1000 * 1000)"
    using assms sdiv_smod_1000 [of ms] smod_1000_abs [of ms]
    by (cases "0 \<le> ms") (auto simp: int64_range_def c_division)
  with assms sdiv_smod_1000 [of ms] show ?thesis
    by (auto simp: gwtm_timeval_to_ms_def sdiv_mult_cancel)
qed

lemma add_ms_to_timespec_value:
  assumes "0 \<le> ms" "int64_range ms" "ts_normal ts" "ts_modest ts" "ms \<le> 2 ^ 61"
  obtains t' where "gwtm_add_ms_to_timespec ms ts = Some t'"
    and "ts_normal t'" and "ts_ns t' = ts_ns ts + ms * 1000000"
    and "ts_sec ts \<le> ts_sec t'" and "ts_sec t' \<le> ts_sec ts + ms + 1"
proof -
  define a where "a = ms sdiv 1000"
  define b where "b = ms smod 1000"
  have ab: "a * 1000 + b = ms" "0 \<le> b" "b < 1000"
    using sdiv_smod_1000 [of ms] smod_1000_abs [of ms] smod_1000_nonneg [OF assms(1)]
    by (simp_all add: a_def b_def)
  have r: "int64_range (ts_sec ts + a)" "int64_range (ts_nsec ts + 1000000 * b)"
    "int64_range (ts_sec ts + a + 1)"
    using assms ab by (auto simp: int64_range_def ts_modest_def ts_normal_def)
  have c: "carry_up NANOSECONDS_WC (ts_sec ts + a) (ts_nsec ts + 1000000 * b) =
    (if ts_nsec ts + 1000000 * b \<ge> 1000000000
     then Some (ts_sec ts + a + 1, ts_nsec ts + 1000000 * b - 1000000000)
     else Some (ts_sec ts + a, ts_nsec ts + 1000000 * b))"
    using carry_up_once [of "ts_nsec ts + 1000000 * b" NANOSECONDS_WC "ts_sec ts + a"] assms ab r
    by (auto simp: time_units ts_normal_def)
  show ?thesis
  proof (cases "ms = 0")
    case True
    with assms that [of ts] show ?thesis by (simp add: gwtm_add_ms_to_timespec_def)
  next
    case False
    define t' where "t' =
      (if ts_nsec ts + 1000000 * b \<ge> 1000000000
       then \<lparr>ts_sec = ts_sec ts + a + 1, ts_nsec = ts_nsec ts + 1000000 * b - 1000000000\<rparr>
       else \<lparr>ts_sec = ts_sec ts + a, ts_nsec = ts_nsec ts + 1000000 * b\<rparr>)"
    from False r c have "gwtm_add_ms_to_timespec ms ts = Some t'"
      by (simp add: gwtm_add_ms_to_timespec_def t'_def flip: a_def b_def)
    moreover have "ts_normal t'" "ts_ns t' = ts_ns ts + ms * 1000000"
      "ts_sec ts \<le> ts_sec t'" "ts_sec t' \<le> ts_sec ts + ms + 1"
      using assms ab by (auto simp: t'_def ts_defs)
    ultimately show ?thesis by (rule that)
  qed
qed

lemma sub_into_value:
  assumes "ts_normal t1" "ts_normal t2" "ts_modest t1" "ts_modest t2"
  obtains d where "gwtm_timespec_sub_into t1 t2 = Some d"
    and "ts_normal d" and "ts_ns d = ts_ns t1 - ts_ns t2"
proof -
  let ?s = "ts_sec t1 - ts_sec t2" and ?n = "ts_nsec t1 - ts_nsec t2"
  have r: "int64_range ?s" "int64_range ?n" "int64_range (?s - 1)"
    using assms by (auto simp: int64_range_def ts_modest_def ts_normal_def)
  have "borrow_down NANOSECONDS_WC ?s ?n =
      (if ?n < 0 then Some (?s - 1, ?n + 1000000000) else Some (?s, ?n))"
    using borrow_down_once [of NANOSECONDS_WC ?n ?s] assms r
    by (auto simp: time_units ts_normal_def)
  with r that show ?thesis
    using assms
    by (cases "?n < 0") (auto simp: gwtm_timespec_sub_into_def ts_defs)
qed

lemma is_expired_normal: "ts_normal d \<Longrightarrow> gwtm_timespec_is_expired d \<longleftrightarrow> ts_ns d \<le> 0"
  by (auto simp: gwtm_timespec_is_expired_def ts_defs)

lemma cmp_normal:
  assumes "ts_normal t1" "ts_normal t2"
  shows "gwtm_timespec_cmp t1 t2 =
    (if ts_ns t1 < ts_ns t2 then Some Is_ts1
     else if ts_ns t1 = ts_ns t2 then None else Some Is_ts2)"
proof -
  have "ts_sec t1 < ts_sec t2 \<Longrightarrow> ts_ns t1 < ts_ns t2" "ts_sec t2 < ts_sec t1 \<Longrightarrow> ts_ns t2 < ts_ns t1"
    using assms by (auto simp: ts_defs)
  then show ?thesis
    using assms by (cases "ts_sec t1" "ts_sec t2" rule: linorder_cases)
      (auto simp: gwtm_timespec_cmp_def ts_ns_def)
qed

lemma copy_if_smaller_normal:
  assumes "ts_normal t1" "ts_normal t2"
  shows "gwtm_timespec_copy_if_smaller t1 t2 = (ts_ns t1 < ts_ns t2, if ts_ns t1 < ts_ns t2 then t1 else t2)"
  using assms by (auto simp: gwtm_timespec_copy_if_smaller_def cmp_normal)

subsection \<open>Properties\<close>

text \<open>
  C35: every duration in milliseconds that fits 64 bits survives the round trip through
  \<^verbatim>\<open>struct timespec\<close> and through \<^verbatim>\<open>struct timeval\<close>, negative ones included.
\<close>
theorem ms_time_roundtrip:
  assumes "int64_range ms"
  shows "(gwtm_ms_to_timespec ms \<bind> gwtm_timespec_to_ms) = Some ms \<and>
    (gwtm_ms_to_timeval ms \<bind> gwtm_timeval_to_ms) = Some ms"
  using assms
  by (simp add: ms_to_timespec_value ms_to_timeval_value timespec_ms_back timeval_ms_back)

theorem ms_time_roundtrip_witness:
  "(gwtm_ms_to_timespec (-1500) \<bind> gwtm_timespec_to_ms) = Some (-1500) \<and>
    (gwtm_ms_to_timeval (-1500) \<bind> gwtm_timeval_to_ms) = Some (-1500)"
  by (rule ms_time_roundtrip) (simp add: int64_range_def)

text \<open>
  a timer's deadline is exact. Adding a non-negative number of milliseconds to a normal
  time and subtracting a normal current time give normal values whose difference is exact
  to the nanosecond, and \<^verbatim>\<open>gwtm_timespec_is_expired\<close> answers yes exactly when the
  current time has reached the deadline.
\<close>
theorem deadline_exact:
  assumes "0 \<le> ms" "ms \<le> 2 ^ 59" "ts_normal start" "\<bar>ts_sec start\<bar> \<le> 2 ^ 60"
    and "ts_normal now" "ts_modest now"
  shows "\<exists>deadline left. gwtm_add_ms_to_timespec ms start = Some deadline \<and> ts_normal deadline \<and>
    ts_ns deadline = ts_ns start + ms * 1000000 \<and>
    gwtm_timespec_sub_into deadline now = Some left \<and> ts_normal left \<and>
    ts_ns left = ts_ns deadline - ts_ns now \<and>
    (gwtm_timespec_is_expired left \<longleftrightarrow> ts_ns deadline \<le> ts_ns now)"
proof -
  obtain d where d: "gwtm_add_ms_to_timespec ms start = Some d" "ts_normal d"
    "ts_ns d = ts_ns start + ms * 1000000" "ts_sec start \<le> ts_sec d" "ts_sec d \<le> ts_sec start + ms + 1"
    by (rule add_ms_to_timespec_value [of ms start])
       (use assms in \<open>auto simp: int64_range_def ts_modest_def\<close>)
  have "ts_modest d" using d assms by (auto simp: ts_modest_def)
  then obtain l where "gwtm_timespec_sub_into d now = Some l" "ts_normal l" "ts_ns l = ts_ns d - ts_ns now"
    using sub_into_value [OF d(2) assms(5) _ assms(6)] by blast
  with d is_expired_normal [of l] show ?thesis by (intro exI [of _ d] exI [of _ l]) simp
qed

theorem deadline_exact_witness:
  "\<exists>deadline left. gwtm_add_ms_to_timespec 1500 \<lparr>ts_sec = 10, ts_nsec = 800000000\<rparr> = Some deadline \<and>
    ts_normal deadline \<and> ts_ns deadline = 12300000000 \<and>
    gwtm_timespec_sub_into deadline \<lparr>ts_sec = 12, ts_nsec = 300000000\<rparr> = Some left \<and> ts_ns left = 0 \<and>
    gwtm_timespec_is_expired left"
  using deadline_exact [of 1500 "\<lparr>ts_sec = 10, ts_nsec = 800000000\<rparr>" "\<lparr>ts_sec = 12, ts_nsec = 300000000\<rparr>"]
  by (auto simp: ts_defs ts_modest_def)

text \<open>
  On normal times \<^verbatim>\<open>gwtm_timespec_cmp\<close> decides the order in nanoseconds, null standing
  for equality, and \<^verbatim>\<open>gwtm_timespec_copy_if_smaller\<close> leaves the minimum in \<^verbatim>\<open>*update\<close>.
\<close>
theorem cmp_decides_order:
  assumes "ts_normal t1" "ts_normal t2"
  shows "(gwtm_timespec_cmp t1 t2 = Some Is_ts1 \<longleftrightarrow> ts_ns t1 < ts_ns t2) \<and>
    (gwtm_timespec_cmp t1 t2 = None \<longleftrightarrow> t1 = t2) \<and>
    (gwtm_timespec_cmp t1 t2 = Some Is_ts2 \<longleftrightarrow> ts_ns t2 < ts_ns t1) \<and>
    ts_ns (snd (gwtm_timespec_copy_if_smaller t1 t2)) = min (ts_ns t1) (ts_ns t2)"
proof -
  have "t1 = t2" if "ts_ns t1 = ts_ns t2"
  proof -
    have "gwtm_timespec_cmp t1 t2 = None" using assms that by (simp add: cmp_normal)
    then show ?thesis
      by (intro timespec.equality) (auto simp: gwtm_timespec_cmp_def split: if_splits)
  qed
  then show ?thesis using assms by (auto simp: cmp_normal copy_if_smaller_normal min_def)
qed

theorem cmp_decides_order_witness:
  "gwtm_timespec_cmp \<lparr>ts_sec = 1, ts_nsec = 999999999\<rparr> \<lparr>ts_sec = 2, ts_nsec = 0\<rparr> = Some Is_ts1 \<and>
   ts_ns (snd (gwtm_timespec_copy_if_smaller \<lparr>ts_sec = 1, ts_nsec = 999999999\<rparr>
     \<lparr>ts_sec = 2, ts_nsec = 0\<rparr>)) = 1999999999"
  using cmp_decides_order [of "\<lparr>ts_sec = 1, ts_nsec = 999999999\<rparr>" "\<lparr>ts_sec = 2, ts_nsec = 0\<rparr>"]
  by (simp add: ts_defs)

end
