(* ===== verification/Gw_State.thy ===== *)
theory Gw_State
  imports Gw_Time
begin

section \<open>The reactor's data and its memory (\<^verbatim>\<open>src/gwrl/event.h\<close>, \<^verbatim>\<open>event_private.h\<close>)\<close>

text \<open>
  The structures of the reactor as records with the source's fields, the flag constants,
  and the memory they live in: one partial map from addresses to objects per structure
  type, a bump allocator whose \<^verbatim>\<open>calloc\<close> may fail, and \<^verbatim>\<open>free\<close>. Reading, writing or
  freeing an object that is not allocated has no result. The clock and the outcome of
  \<^verbatim>\<open>calloc\<close> come from outside: \<open>tod n\<close> is the \<open>n\<close>-th reading of \<^verbatim>\<open>gettimeofday\<close>,
  \<open>oom\<close> says which of the next calls of \<^verbatim>\<open>calloc\<close> fail.
\<close>

subsection \<open>Constants\<close>

definition GWRL_REDISPATCH_MAX :: nat where "GWRL_REDISPATCH_MAX = 5"
definition GWRL_SRC_TYPE_FILE :: nat where "GWRL_SRC_TYPE_FILE = 0"
definition GWRL_SRC_TYPE_TIME :: nat where "GWRL_SRC_TYPE_TIME = 1"
definition GWRL_SRC_TYPES_COUNT :: nat where "GWRL_SRC_TYPES_COUNT = 2"

lemmas src_type_defs = GWRL_SRC_TYPE_FILE_def GWRL_SRC_TYPE_TIME_def GWRL_SRC_TYPES_COUNT_def

text \<open>Interest flags of sources and events.\<close>

definition GWRL_RD :: flags8 where "GWRL_RD = 2 ^ 0"
definition GWRL_WR :: flags8 where "GWRL_WR = 2 ^ 1"

text \<open>Flags of the run loop.\<close>

definition GWRL_STOP :: flags8 where "GWRL_STOP = 2 ^ 0"
definition GWRL_SLEEPING :: flags8 where "GWRL_SLEEPING = 2 ^ 1"
definition GWRL_NOSLEEP :: flags8 where "GWRL_NOSLEEP = 2 ^ 2"

text \<open>Flags of sources.\<close>

definition GWRL_ENABLED :: flags8 where "GWRL_ENABLED = 2 ^ 3"
definition GWRL_REPEAT :: flags8 where "GWRL_REPEAT = 2 ^ 4"
definition GWRL_WHENCE_ABS :: flags8 where "GWRL_WHENCE_ABS = 2 ^ 5"
definition GWRL_PERSIST :: flags8 where "GWRL_PERSIST = 2 ^ 6"

text \<open>Flags of events that report a synchronous write.\<close>

definition GWRL_SYNC_WRITE :: flags8 where "GWRL_SYNC_WRITE = 2 ^ 3"
definition GWRL_SYNC_CLOSE :: flags8 where "GWRL_SYNC_CLOSE = 2 ^ 4"
definition GWRL_SYNC_ERROR :: flags8 where "GWRL_SYNC_ERROR = 2 ^ 5"

lemmas flag_defs = GWRL_RD_def GWRL_WR_def GWRL_STOP_def GWRL_SLEEPING_def GWRL_NOSLEEP_def
  GWRL_ENABLED_def GWRL_REPEAT_def GWRL_WHENCE_ABS_def GWRL_PERSIST_def
  GWRL_SYNC_WRITE_def GWRL_SYNC_CLOSE_def GWRL_SYNC_ERROR_def

lemmas flisset_bits [flag_simps] =
  flisset_exp [OF GWRL_RD_def] flisset_exp [OF GWRL_WR_def]
  flisset_exp [OF GWRL_STOP_def] flisset_exp [OF GWRL_SLEEPING_def]
  flisset_exp [OF GWRL_NOSLEEP_def] flisset_exp [OF GWRL_ENABLED_def]
  flisset_exp [OF GWRL_REPEAT_def] flisset_exp [OF GWRL_WHENCE_ABS_def]
  flisset_exp [OF GWRL_PERSIST_def] flisset_exp [OF GWRL_SYNC_WRITE_def]
  flisset_exp [OF GWRL_SYNC_CLOSE_def] flisset_exp [OF GWRL_SYNC_ERROR_def]

lemmas bit_flags [flag_simps] =
  bit_flag_of_exp [OF GWRL_RD_def] bit_flag_of_exp [OF GWRL_WR_def]
  bit_flag_of_exp [OF GWRL_STOP_def] bit_flag_of_exp [OF GWRL_SLEEPING_def]
  bit_flag_of_exp [OF GWRL_NOSLEEP_def] bit_flag_of_exp [OF GWRL_ENABLED_def]
  bit_flag_of_exp [OF GWRL_REPEAT_def] bit_flag_of_exp [OF GWRL_WHENCE_ABS_def]
  bit_flag_of_exp [OF GWRL_PERSIST_def] bit_flag_of_exp [OF GWRL_SYNC_WRITE_def]
  bit_flag_of_exp [OF GWRL_SYNC_CLOSE_def] bit_flag_of_exp [OF GWRL_SYNC_ERROR_def]

text \<open>The pair \<^verbatim>\<open>sec_min\<close>, \<^verbatim>\<open>nsec_min\<close>: "no time set".\<close>

definition no_time :: timespec where
  "no_time = \<lparr>ts_sec = -1, ts_nsec = -1\<rparr>"

subsection \<open>Structures\<close>

record gwrl_options =
  gwrl_event_cache_max :: int
  gwrl_gather_funcs_max :: int
  gwrl_kqueue_kevent_count :: int
  gwrl_epoll_event_count :: int
  gwrl_pollfd_count :: int

record gwrlevt =
  evt_flags :: flags8
  evt_fd :: int
  evt_userdata :: ptr
  evt_callback :: "fnptr option"
  evt_src :: ptr
  evt_next :: ptr

text \<open>
  A source is the base structure \<^verbatim>\<open>gwrlsrc\<close> and the part of its kind. \<^verbatim>\<open>pfd\<close> points into
  the poll backend's array (the array's address and an index).
\<close>

record gwrlsrc_file =
  file_fd :: int
  file_pfd :: "(addr \<times> nat) option"
  file_pdata :: ptr

record gwrlsrc_time =
  time_ms :: int
  time_when :: timespec

datatype src_part = File_part gwrlsrc_file | Time_part gwrlsrc_time

record gwrlsrc =
  src_type :: nat
  src_tag :: nat
  src_flags :: flags8
  src_userdata :: ptr
  src_callback :: "fnptr option"
  src_next :: ptr
  src_part :: src_part

text \<open>
  The reactor. \<open>timeout\<close> is the base structure of every backend (\<^verbatim>\<open>struct gwrlbkd\<close>),
  \<open>backend\<close> the rest of it, whose type is a parameter. \<open>gatherfncs\<close> is the array of user
  gather functions (\<open>None\<close>: no array).
\<close>

record 'b gwrl =
  rl_flags :: flags8
  ncevents :: "16 word"
  fds :: "int \<times> int"
  sources :: "ptr list"
  events :: ptr
  cevents :: ptr
  timeout :: timespec
  backend :: 'b
  options :: gwrl_options
  qsrc :: ptr
  qevt :: ptr
  gatherfncs :: "fnptr option list option"
  rl_pr :: ptr

text \<open>
  System calls other than memory and clock. A call is recorded, newest first, with what it
  was given; the \<open>n\<close>-th call of a run gets the answer \<open>answers n\<close>, which is arbitrary: a
  result, the \<^verbatim>\<open>errno\<close> of a failure, the bytes received, and what is reported ready (the
  descriptor sets of \<^verbatim>\<open>select\<close>, the \<^verbatim>\<open>revents\<close> of \<^verbatim>\<open>poll\<close>, the events of \<^verbatim>\<open>epoll\<close> and \<^verbatim>\<open>kqueue\<close>),
  the addresses of \<^verbatim>\<open>getaddrinfo\<close>, which is treated like a system call, and for a completion port
  the number of bytes and the \<^verbatim>\<open>OVERLAPPED\<close> structure of the operation that ended. As in C, \<^verbatim>\<open>errno\<close> keeps its value when a call succeeds.
\<close>

type_synonym byte = "8 word"

type_synonym fd_sets = "(int \<Rightarrow> bool) \<times> (int \<Rightarrow> bool) \<times> (int \<Rightarrow> bool)"

type_synonym flags16 = "16 word"

type_synonym flags32 = "32 word"

text \<open>The commands of \<^verbatim>\<open>epoll_ctl\<close> and the structure of \<^verbatim>\<open>kevent\<close>.\<close>

datatype epoll_op = EPOLL_CTL_ADD | EPOLL_CTL_DEL | EPOLL_CTL_MOD

record kevent =
  ke_ident :: int
  ke_filter :: int
  ke_flags :: flags16
  ke_udata :: ptr

text \<open>
  The structure \<^verbatim>\<open>addrinfo\<close>, for hints and for results. An address is its initial bytes; what follows
  them is zero.
\<close>

record addrinfo =
  ai_flags :: int
  ai_family :: int
  ai_socktype :: int
  ai_protocol :: int
  ai_addr :: "byte list"
  ai_next :: ptr

text \<open>
  Calls of Windows, for completion ports. An operation that is started gets the address of its
  \<^verbatim>\<open>OVERLAPPED\<close> structure; \<open>Win_get_status\<close> waits for one that has ended.
\<close>

datatype wincall =
    Win_startup
  | Win_socket
  | Win_closesocket int
  | Win_create_port
  | Win_associate int int
  | Win_load_AcceptEx int
  | Win_load_ConnectEx int
  | Win_get_status int "32 word"
  | Win_post_status int ptr
  | Win_ReadFile int "32 word" ptr
  | Win_WSARecv int "32 word" ptr
  | Win_WSARecvFrom int "32 word" ptr
  | Win_WriteFile int "byte list" ptr
  | Win_WSASend int "byte list" ptr
  | Win_WSASendTo int "byte list" "byte list" ptr
  | Win_AcceptEx int int ptr
  | Win_ConnectEx int "byte list" ptr
  | Win_CancelIoEx int ptr
  | Win_overlapped_result int ptr
  | Win_wsa_overlapped_result int ptr
  | Win_getpeername int

datatype syscall =
    Sys_write int "byte list"
  | Sys_send int "byte list"
  | Sys_sendto int "byte list" "byte list"
  | Sys_read int nat
  | Sys_recv int nat
  | Sys_recvfrom int nat
  | Sys_accept int
  | Sys_getpeername int
  | Sys_connect int "byte list"
  | Sys_pipe
  | Sys_close int
  | Sys_getfl int
  | Sys_nonblock int
  | Sys_select int fd_sets "timeval option"
  | Sys_poll "(int \<times> flags16 option) list" int
  | Sys_epoll_create
  | Sys_epoll_ctl int epoll_op int flags32 ptr
  | Sys_epoll_wait int nat int
  | Sys_kqueue
  | Sys_kevent_change int kevent
  | Sys_kevent_wait int int "timespec option"
  | Sys_socket int int int
  | Sys_reuseaddr int int
  | Sys_bind int "byte list"
  | Sys_listen int int
  | Sys_getaddrinfo "string option" "string option" addrinfo
  | Sys_win wincall

record answer =
  ans_ret :: int
  ans_errno :: int
  ans_data :: "byte list"
  ans_peer :: "byte list"
  ans_ready :: fd_sets
  ans_fds :: "int \<times> int"
  ans_revents :: "flags16 list"
  ans_epoll :: "(flags32 \<times> ptr) list"
  ans_kevents :: "kevent list"
  ans_addrs :: "addrinfo list"
  ans_bytes :: nat
  ans_ovlp :: ptr

definition no_fds :: fd_sets where
  "no_fds = (\<lambda>_. False, \<lambda>_. False, \<lambda>_. False)"

definition ok_answer :: "int \<Rightarrow> answer" where
  "ok_answer r = \<lparr>ans_ret = r, ans_errno = 0, ans_data = [], ans_peer = [], ans_ready = no_fds,
     ans_fds = (0, 0), ans_revents = [], ans_epoll = [], ans_kevents = [], ans_addrs = [],
     ans_bytes = 0, ans_ovlp = None\<rparr>"

definition fail_answer :: "int \<Rightarrow> answer" where
  "fail_answer e = \<lparr>ans_ret = -1, ans_errno = e, ans_data = [], ans_peer = [], ans_ready = no_fds,
     ans_fds = (0, 0), ans_revents = [], ans_epoll = [], ans_kevents = [], ans_addrs = [],
     ans_bytes = 0, ans_ovlp = None\<rparr>"

definition EINTR :: int where "EINTR = 4"
definition EBADF :: int where "EBADF = 9"
definition EAGAIN :: int where "EAGAIN = 11"
definition EWOULDBLOCK :: int where "EWOULDBLOCK = 11"
definition EINVAL :: int where "EINVAL = 22"
definition EPIPE :: int where "EPIPE = 32"
definition ECONNRESET :: int where "ECONNRESET = 104"

lemmas errno_defs = EINTR_def EBADF_def EAGAIN_def EWOULDBLOCK_def EINVAL_def EPIPE_def ECONNRESET_def

record 'b world =
  rl :: "'b gwrl"
  evts :: "addr \<rightharpoonup> gwrlevt"
  srcs :: "addr \<rightharpoonup> gwrlsrc"
  brk :: addr
  oom :: "bool list"
  tod :: "nat \<Rightarrow> timeval"
  nclk :: nat
  errs :: "string list"
  answers :: "nat \<Rightarrow> answer"
  calls :: "syscall list"
  errno :: int

text \<open>
  A zeroed reactor with the default options (\<^verbatim>\<open>GWRL_DEFAULT_OPTIONS\<close>, with the values the
  build configuration sets), and a memory that holds nothing else.
\<close>

definition GWRL_DEFAULT_OPTIONS :: gwrl_options where
  "GWRL_DEFAULT_OPTIONS = \<lparr>gwrl_event_cache_max = 128, gwrl_gather_funcs_max = 0,
     gwrl_kqueue_kevent_count = 512, gwrl_epoll_event_count = 64, gwrl_pollfd_count = 64\<rparr>"

definition zero_gwrl :: "'b \<Rightarrow> 'b gwrl" where
  "zero_gwrl b = \<lparr>rl_flags = 0, ncevents = 0, fds = (0, 0), sources = [None, None],
     events = None, cevents = None, timeout = \<lparr>ts_sec = 0, ts_nsec = 0\<rparr>, backend = b,
     options = GWRL_DEFAULT_OPTIONS, qsrc = None, qevt = None, gatherfncs = None, rl_pr = None\<rparr>"

definition blank_world :: "'b \<Rightarrow> 'b world" where
  "blank_world b = \<lparr>rl = zero_gwrl b, evts = Map.empty, srcs = Map.empty, brk = 1, oom = [],
     tod = (\<lambda>n. \<lparr>tv_sec = int (min n 1000000), tv_usec = 0\<rparr>), nclk = 0, errs = [],
     answers = (\<lambda>n. ok_answer 0), calls = [], errno = 0\<rparr>"

subsection \<open>Memory\<close>

text \<open>\<^verbatim>\<open>gwerr\<close> and \<^verbatim>\<open>gwprintsyserr\<close>: the code of the message is recorded, newest first.\<close>

definition gwerr :: "string \<Rightarrow> ('b, 'z) world_scheme \<Rightarrow> ('b, 'z) world_scheme" where
  "gwerr m s = s\<lparr>errs := m # errs s\<rparr>"

definition calloc :: "('b, 'z) world_scheme \<Rightarrow> ptr \<times> ('b, 'z) world_scheme" where
  "calloc s =
     (case oom s of
        True # r \<Rightarrow> (None, s\<lparr>oom := r\<rparr>)
      | False # r \<Rightarrow> (Some (brk s), s\<lparr>oom := r, brk := Suc (brk s)\<rparr>)
      | [] \<Rightarrow> (Some (brk s), s\<lparr>brk := Suc (brk s)\<rparr>))"

definition get_evt :: "ptr \<Rightarrow> ('b, 'z) world_scheme \<Rightarrow> gwrlevt option" where
  "get_evt p s = Option.bind p (evts s)"

definition upd_evt :: "(gwrlevt \<Rightarrow> gwrlevt) \<Rightarrow> ptr \<Rightarrow> ('b, 'z) world_scheme
    \<Rightarrow> ('b, 'z) world_scheme option" where
  "upd_evt f p s = do { a \<leftarrow> p; e \<leftarrow> evts s a; Some (s\<lparr>evts := (evts s)(a \<mapsto> f e)\<rparr>) }"

definition free_evt :: "ptr \<Rightarrow> ('b, 'z) world_scheme \<Rightarrow> ('b, 'z) world_scheme option" where
  "free_evt p s =
     (case p of None \<Rightarrow> Some s
      | Some a \<Rightarrow> do { e \<leftarrow> evts s a; Some (s\<lparr>evts := (evts s)(a := None)\<rparr>) })"

definition get_src :: "ptr \<Rightarrow> ('b, 'z) world_scheme \<Rightarrow> gwrlsrc option" where
  "get_src p s = Option.bind p (srcs s)"

definition upd_src :: "(gwrlsrc \<Rightarrow> gwrlsrc) \<Rightarrow> ptr \<Rightarrow> ('b, 'z) world_scheme
    \<Rightarrow> ('b, 'z) world_scheme option" where
  "upd_src f p s = do { a \<leftarrow> p; e \<leftarrow> srcs s a; Some (s\<lparr>srcs := (srcs s)(a \<mapsto> f e)\<rparr>) }"

definition free_src :: "ptr \<Rightarrow> ('b, 'z) world_scheme \<Rightarrow> ('b, 'z) world_scheme option" where
  "free_src p s =
     (case p of None \<Rightarrow> Some s
      | Some a \<Rightarrow> do { e \<leftarrow> srcs s a; Some (s\<lparr>srcs := (srcs s)(a := None)\<rparr>) })"

definition zero_evt :: gwrlevt where
  "zero_evt = \<lparr>evt_flags = 0, evt_fd = 0, evt_userdata = None, evt_callback = None,
     evt_src = None, evt_next = None\<rparr>"

text \<open>The casts \<^verbatim>\<open>_gwrlsrcf\<close> and \<^verbatim>\<open>_gwrlsrct\<close>: reading a part the source does not have is undefined.\<close>

definition as_file :: "gwrlsrc \<Rightarrow> gwrlsrc_file option" where
  "as_file o1 = (case src_part o1 of File_part f \<Rightarrow> Some f | Time_part _ \<Rightarrow> None)"

definition as_time :: "gwrlsrc \<Rightarrow> gwrlsrc_time option" where
  "as_time o1 = (case src_part o1 of Time_part t \<Rightarrow> Some t | File_part _ \<Rightarrow> None)"

definition set_when :: "timespec \<Rightarrow> gwrlsrc \<Rightarrow> gwrlsrc" where
  "set_when w o1 = (case src_part o1 of
     Time_part t \<Rightarrow> o1\<lparr>src_part := Time_part (t\<lparr>time_when := w\<rparr>)\<rparr>
   | File_part _ \<Rightarrow> o1)"

text \<open>The \<^verbatim>\<open>next\<close> fields, for the chain predicates.\<close>

definition evt_nx :: "('b, 'z) world_scheme \<Rightarrow> addr \<Rightarrow> ptr option" where
  "evt_nx s a = map_option evt_next (evts s a)"

definition src_nx :: "('b, 'z) world_scheme \<Rightarrow> addr \<Rightarrow> ptr option" where
  "src_nx s a = map_option src_next (srcs s a)"

text \<open>Array access: out of range is undefined.\<close>

definition nth_opt :: "'a list \<Rightarrow> nat \<Rightarrow> 'a option" where
  "nth_opt xs i = (if i < length xs then Some (xs ! i) else None)"

subsection \<open>System calls\<close>

definition syscall :: "syscall \<Rightarrow> ('b, 'z) world_scheme \<Rightarrow> answer \<times> ('b, 'z) world_scheme" where
  "syscall c s =
     (let a = answers s (length (calls s))
      in (a, s\<lparr>calls := c # calls s, errno := (if ans_ret a < 0 then ans_errno a else errno s)\<rparr>))"

subsection \<open>The clock\<close>

definition gettimeofday :: "('b, 'z) world_scheme \<Rightarrow> timeval \<times> ('b, 'z) world_scheme" where
  "gettimeofday s = (tod s (nclk s), s\<lparr>nclk := Suc (nclk s)\<rparr>)"

definition gwtm_gettimeofday_timespec ::
    "('b, 'z) world_scheme \<Rightarrow> (timespec \<times> ('b, 'z) world_scheme) option" where
  "gwtm_gettimeofday_timespec s =
     (case gettimeofday s of (tv, s) \<Rightarrow>
        do { ts \<leftarrow> gwtm_timeval_to_timespec tv; Some (ts, s) })"

text \<open>What the system promises of \<^verbatim>\<open>gettimeofday\<close>: microseconds below a million, a plausible date.\<close>

definition clock_ok :: "('b, 'z) world_scheme \<Rightarrow> bool" where
  "clock_ok s \<longleftrightarrow> (\<forall>n. tv_normal (tod s n) \<and> 0 \<le> tv_sec (tod s n) \<and> tv_sec (tod s n) \<le> 2 ^ 60)"

definition tod_ts :: "('b, 'z) world_scheme \<Rightarrow> nat \<Rightarrow> timespec" where
  "tod_ts s n = \<lparr>ts_sec = tv_sec (tod s n), ts_nsec = tv_usec (tod s n) * 1000\<rparr>"

lemma gettimeofday_timespec_value:
  assumes "clock_ok s"
  shows "gwtm_gettimeofday_timespec s = Some (tod_ts s (nclk s), s\<lparr>nclk := Suc (nclk s)\<rparr>)"
proof -
  from assms have "tv_normal (tod s (nclk s))" by (simp add: clock_ok_def)
  then have "int64_range (tv_usec (tod s (nclk s)) * 1000)"
    by (auto simp: tv_normal_def int64_range_def)
  then show ?thesis
    by (simp add: gwtm_gettimeofday_timespec_def gettimeofday_def gwtm_timeval_to_timespec_def
        tod_ts_def)
qed

lemma clock_ok_blank [simp]: "clock_ok (blank_world b)"
  by (simp add: clock_ok_def blank_world_def tv_normal_def min_def)

lemma tod_ts_normal: "clock_ok s \<Longrightarrow> ts_normal (tod_ts s n)"
  by (auto simp: clock_ok_def tv_normal_def tod_ts_def ts_normal_def)

lemma tod_ts_sec:
  "clock_ok s \<Longrightarrow> 0 \<le> ts_sec (tod_ts s n)" "clock_ok s \<Longrightarrow> ts_sec (tod_ts s n) \<le> 2 ^ 60"
  by (simp_all add: clock_ok_def tod_ts_def)

lemma tod_ts_modest: "clock_ok s \<Longrightarrow> ts_modest (tod_ts s n)"
  using tod_ts_sec(1) [of s n] tod_ts_sec(2) [of s n] by (simp add: ts_modest_def)

subsection \<open>Reading and writing objects\<close>

lemma get_evt_Some [simp]: "get_evt (Some a) s = evts s a"
  by (simp add: get_evt_def)

lemma get_evt_None [simp]: "get_evt None s = None"
  by (simp add: get_evt_def)

lemma get_src_Some [simp]: "get_src (Some a) s = srcs s a"
  by (simp add: get_src_def)

lemma get_src_None [simp]: "get_src None s = None"
  by (simp add: get_src_def)

lemma upd_evt_alloc [simp]:
  "evts s a = Some e \<Longrightarrow> upd_evt f (Some a) s = Some (s\<lparr>evts := (evts s)(a \<mapsto> f e)\<rparr>)"
  by (simp add: upd_evt_def)

lemma upd_src_alloc [simp]:
  "srcs s a = Some e \<Longrightarrow> upd_src f (Some a) s = Some (s\<lparr>srcs := (srcs s)(a \<mapsto> f e)\<rparr>)"
  by (simp add: upd_src_def)

lemma free_evt_alloc [simp]:
  "evts s a = Some e \<Longrightarrow> free_evt (Some a) s = Some (s\<lparr>evts := (evts s)(a := None)\<rparr>)"
  by (simp add: free_evt_def)

lemma free_src_alloc [simp]:
  "srcs s a = Some e \<Longrightarrow> free_src (Some a) s = Some (s\<lparr>srcs := (srcs s)(a := None)\<rparr>)"
  by (simp add: free_src_def)

lemma evt_nx_iff: "evt_nx s a = Some r \<longleftrightarrow> (\<exists>e. evts s a = Some e \<and> evt_next e = r)"
  by (auto simp: evt_nx_def)

lemma src_nx_iff: "src_nx s a = Some r \<longleftrightarrow> (\<exists>e. srcs s a = Some e \<and> src_next e = r)"
  by (auto simp: src_nx_def)

text \<open>How updates of the memory show in the \<^verbatim>\<open>next\<close> fields.\<close>

lemma evt_nx_evts: "evt_nx s = map_option evt_next \<circ> evts s"
  by (auto simp: evt_nx_def fun_eq_iff)

lemma src_nx_srcs: "src_nx s = map_option src_next \<circ> srcs s"
  by (auto simp: src_nx_def fun_eq_iff)

lemma nx_upd [simp]:
  "map_option f \<circ> m(a \<mapsto> x) = (map_option f \<circ> m)(a \<mapsto> f x)"
  "map_option f \<circ> m(a := None) = (map_option f \<circ> m)(a := None)"
  by (auto simp: fun_eq_iff)

lemma nx_same [simp]: "m a = Some e \<Longrightarrow> (map_option f \<circ> m)(a \<mapsto> f e) = map_option f \<circ> m"
  by (auto simp: fun_eq_iff)

text \<open>What an operation that makes no system call leaves alone: the clock, the answers to come, the calls made.\<close>

definition kernel_view ::
    "('b, 'z) world_scheme \<Rightarrow> (nat \<Rightarrow> timeval) \<times> (nat \<Rightarrow> answer) \<times> syscall list" where
  "kernel_view s = (tod s, answers s, calls s)"

lemma kernel_viewD:
  assumes "kernel_view s' = kernel_view s"
  shows "tod s' = tod s" "answers s' = answers s" "calls s' = calls s"
  using assms by (simp_all add: kernel_view_def)

lemma kernel_view_sel [simp]:
  "kernel_view (s\<lparr>nclk := n\<rparr>) = kernel_view s" "kernel_view (s\<lparr>rl := r\<rparr>) = kernel_view s"
  "kernel_view (s\<lparr>srcs := m\<rparr>) = kernel_view s" "kernel_view (s\<lparr>evts := v\<rparr>) = kernel_view s"
  by (simp_all add: kernel_view_def)

text \<open>Addresses at and above \<open>brk\<close> hold nothing.\<close>

definition fresh_ok :: "('b, 'z) world_scheme \<Rightarrow> bool" where
  "fresh_ok s \<longleftrightarrow> (\<forall>a. brk s \<le> a \<longrightarrow> evts s a = None \<and> srcs s a = None)"

lemma fresh_okD: "fresh_ok s \<Longrightarrow> evts s a = Some e \<Longrightarrow> a < brk s"
  "fresh_ok s \<Longrightarrow> srcs s a = Some o1 \<Longrightarrow> a < brk s"
  by (auto simp: fresh_ok_def not_le [symmetric])

subsection \<open>Trying until memory is there\<close>

text \<open>
  \<^verbatim>\<open>p = create(...); while(!p) p = create(...);\<close> is \<open>create\<close> followed by \<open>retry_until create\<close>.
  A creation that begins with one \<^verbatim>\<open>calloc\<close> succeeds at the first call that does.
\<close>

partial_function (option) retry_until ::
    "('s \<Rightarrow> (ptr \<times> 's) option) \<Rightarrow> ptr \<Rightarrow> 's \<Rightarrow> (ptr \<times> 's) option" where
  [code]: "retry_until create p s =
     (if p \<noteq> None then Some (p, s)
      else do { (p, s) \<leftarrow> create s; retry_until create p s })"

definition create_retry :: "('s \<Rightarrow> (ptr \<times> 's) option) \<Rightarrow> 's \<Rightarrow> (ptr \<times> 's) option" where
  "create_retry create s = do { (p, s) \<leftarrow> create s; retry_until create p s }"

lemma retry_calloc:
  assumes "\<And>s. create s = (case calloc s of (None, t) \<Rightarrow> Some (None, gwerr m t)
     | (Some a, t) \<Rightarrow> Some (Some a, init a t))"
  shows "\<exists>om er. create_retry create s =
    Some (Some (brk s), init (brk s) (s\<lparr>brk := Suc (brk s), oom := om, errs := er\<rparr>))"
proof (induction "oom s" arbitrary: s)
  case Nil
  have e: "s\<lparr>brk := Suc (brk s), oom := oom s, errs := errs s\<rparr> = s\<lparr>brk := Suc (brk s)\<rparr>" by simp
  from Nil have "create_retry create s =
      Some (Some (brk s), init (brk s) (s\<lparr>brk := Suc (brk s), oom := oom s, errs := errs s\<rparr>))"
    unfolding e by (simp add: create_retry_def assms calloc_def retry_until.simps flip: Nil)
  then show ?case by blast
next
  case (Cons b om)
  show ?case
  proof (cases b)
    case False
    have e: "s\<lparr>brk := Suc (brk s), oom := om, errs := errs s\<rparr> = s\<lparr>oom := om, brk := Suc (brk s)\<rparr>"
      by simp
    from Cons.hyps(2) False have "create_retry create s =
        Some (Some (brk s), init (brk s) (s\<lparr>brk := Suc (brk s), oom := om, errs := errs s\<rparr>))"
      unfolding e
      by (simp add: create_retry_def assms calloc_def retry_until.simps flip: Cons.hyps(2))
    then show ?thesis by blast
  next
    case True
    let ?t = "gwerr m (s\<lparr>oom := om\<rparr>)"
    from True Cons.hyps(2) [symmetric] have "create_retry create s = create_retry create ?t"
      by (simp add: create_retry_def assms [of s] calloc_def retry_until.simps [of create None])
    moreover have "om = oom ?t" by (simp add: gwerr_def)
    note Cons.hyps(1) [OF this]
    ultimately show ?thesis by (simp add: gwerr_def)
  qed
qed

text \<open>\<^verbatim>\<open>while(!p) { gwerr(m); p = calloc(...); }\<close>.\<close>

partial_function (option) calloc_msg ::
    "string \<Rightarrow> ('b, 'z) world_scheme \<Rightarrow> (addr \<times> ('b, 'z) world_scheme) option" where
  [code]: "calloc_msg m s = (case calloc s of (None, s) \<Rightarrow> calloc_msg m (gwerr m s) | (Some a, s) \<Rightarrow> Some (a, s))"

lemma calloc_msg_ok:
  obtains om er where "calloc_msg m s = Some (brk s, s\<lparr>brk := Suc (brk s), oom := om, errs := er\<rparr>)"
proof -
  have "\<exists>om er. calloc_msg m s = Some (brk s, s\<lparr>brk := Suc (brk s), oom := om, errs := er\<rparr>)"
  proof (induction "oom s" arbitrary: s)
    case Nil
    then show ?case
      by (intro exI [of _ "oom s"] exI [of _ "errs s"]) (simp add: calloc_msg.simps calloc_def flip: Nil)
  next
    case (Cons b om)
    show ?case
    proof (cases b)
      case True
      have "om = oom (gwerr m (s\<lparr>oom := om\<rparr>))" by (simp add: gwerr_def)
      from Cons.hyps(1) [OF this] True Cons.hyps(2) [symmetric] show ?thesis
        by (simp add: calloc_msg.simps [of m s] calloc_def gwerr_def)
    next
      case False
      have "s\<lparr>oom := om, brk := Suc (brk s)\<rparr> = s\<lparr>brk := Suc (brk s), oom := om, errs := errs s\<rparr>" by simp
      with False Cons.hyps(2) [symmetric] show ?thesis
        by (intro exI [of _ om] exI [of _ "errs s"]) (simp add: calloc_msg.simps [of m s] calloc_def)
    qed
  qed
  with that show ?thesis by blast
qed

end
