(* ===== verification/Gw_Events.thy ===== *)
theory Gw_Events
  imports Gw_State
begin

section \<open>Events and their cache (\<^verbatim>\<open>src/gwrl/event.c\<close>)\<close>

text \<open>
  Creation, posting and freeing of event objects. Freed events are kept in the singly
  linked list \<^verbatim>\<open>rl->cevents\<close>, whose length is counted in the 16-bit field
  \<^verbatim>\<open>rl->ncevents\<close>, up to the option \<^verbatim>\<open>gwrl_event_cache_max\<close>; posted events are the list
  \<^verbatim>\<open>rl->events\<close>, newest first. The invariant \<open>evts_inv\<close> says that both are chains of
  allocated, distinct objects and that the counter is the cache's length.
\<close>

subsection \<open>The operations\<close>

definition calloc_evt :: "('b, 'z) world_scheme \<Rightarrow> ptr \<times> ('b, 'z) world_scheme" where
  "calloc_evt s =
     (case calloc s of
        (None, s) \<Rightarrow> (None, s)
      | (Some a, s) \<Rightarrow> (Some a, s\<lparr>evts := (evts s)(a \<mapsto> zero_evt)\<rparr>))"

definition gwrl_evt_create ::
    "ptr \<Rightarrow> fnptr option \<Rightarrow> ptr \<Rightarrow> int \<Rightarrow> flags8 \<Rightarrow> ('b, 'z) world_scheme
     \<Rightarrow> (ptr \<times> ('b, 'z) world_scheme) option" where
  "gwrl_evt_create src callback userdata fd flags s = do {
     (evt, s) \<leftarrow>
       (if cevents (rl s) \<noteq> None
        then do {
          let evt = cevents (rl s);
          e \<leftarrow> get_evt evt s;
          let s = s\<lparr>rl := (rl s)\<lparr>cevents := evt_next e, ncevents := ncevents (rl s) - 1\<rparr>\<rparr>;
          s \<leftarrow> upd_evt (\<lambda>e. e\<lparr>evt_next := None\<rparr>) evt s;
          Some (evt, s) }
        else (case calloc_evt s of
            (None, s) \<Rightarrow> Some (None, gwerr ''8FxlC'' s)
          | (Some a, s) \<Rightarrow> Some (Some a, s)));
     if evt = None then Some (None, s)
     else do {
       s \<leftarrow> upd_evt (\<lambda>e. e\<lparr>evt_callback := callback, evt_userdata := userdata,
                            evt_src := src, evt_fd := fd, evt_flags := flags\<rparr>) evt s;
       Some (evt, s) } }"

text \<open>
  The retry loops \<^verbatim>\<open>while(!evt) evt = gwrl_evt_create(...)\<close>; \<open>pre\<close> is what the body does
  before it tries again.
\<close>

partial_function (option) evt_create_retry ::
    "(('b, 'z) world_scheme \<Rightarrow> ('b, 'z) world_scheme) \<Rightarrow> ptr
     \<Rightarrow> ptr \<Rightarrow> fnptr option \<Rightarrow> ptr \<Rightarrow> int \<Rightarrow> flags8 \<Rightarrow> ('b, 'z) world_scheme
     \<Rightarrow> (ptr \<times> ('b, 'z) world_scheme) option" where
  [code]: "evt_create_retry pre evt src callback userdata fd flags s =
     (if evt \<noteq> None then Some (evt, s)
      else do {
        (evt, s) \<leftarrow> gwrl_evt_create src callback userdata fd flags (pre s);
        evt_create_retry pre evt src callback userdata fd flags s })"

definition gwrl_evt_createp ::
    "ptr \<Rightarrow> fnptr option \<Rightarrow> ptr \<Rightarrow> int \<Rightarrow> flags8 \<Rightarrow> ('b, 'z) world_scheme
     \<Rightarrow> (ptr \<times> ('b, 'z) world_scheme) option" where
  "gwrl_evt_createp src callback userdata fd flags s = do {
     (evt, s) \<leftarrow> gwrl_evt_create src callback userdata fd flags s;
     evt_create_retry (gwerr ''4LOP0'') evt src callback userdata fd flags s }"

definition gwrl_post_evt :: "ptr \<Rightarrow> ('b, 'z) world_scheme \<Rightarrow> ('b, 'z) world_scheme option" where
  "gwrl_post_evt evt s = do {
     s \<leftarrow> (if events (rl s) \<noteq> None
          then upd_evt (\<lambda>e. e\<lparr>evt_next := events (rl s)\<rparr>) evt s else Some s);
     Some (s\<lparr>rl := (rl s)\<lparr>events := evt\<rparr>\<rparr>) }"

text \<open>Create an event, trying until memory is there, and post it.\<close>

definition create_and_post ::
    "ptr \<Rightarrow> fnptr option \<Rightarrow> ptr \<Rightarrow> int \<Rightarrow> flags8 \<Rightarrow> ('b, 'z) world_scheme
     \<Rightarrow> ('b, 'z) world_scheme option" where
  "create_and_post src callback userdata fd flags s = do {
     (evt, s) \<leftarrow> gwrl_evt_create src callback userdata fd flags s;
     (evt, s) \<leftarrow> evt_create_retry id evt src callback userdata fd flags s;
     gwrl_post_evt evt s }"

definition gwrl_post_function ::
    "fnptr option \<Rightarrow> ptr \<Rightarrow> ('b, 'z) world_scheme \<Rightarrow> ('b, 'z) world_scheme option" where
  "gwrl_post_function cb userdata s = create_and_post None cb userdata 0 0 s"

definition gwrl_evt_free :: "ptr \<Rightarrow> ('b, 'z) world_scheme \<Rightarrow> ('b, 'z) world_scheme option" where
  "gwrl_evt_free evt s =
     (if uint (ncevents (rl s)) \<ge> gwrl_event_cache_max (options (rl s))
      then free_evt evt s
      else do {
        s \<leftarrow> upd_evt (\<lambda>_. zero_evt) evt s;
        s \<leftarrow> (if cevents (rl s) \<noteq> None
             then upd_evt (\<lambda>e. e\<lparr>evt_next := cevents (rl s)\<rparr>) evt s else Some s);
        Some (s\<lparr>rl := (rl s)\<lparr>cevents := evt, ncevents := ncevents (rl s) + 1\<rparr>\<rparr>) })"

partial_function (option) gwrl_evt_free_list ::
    "ptr \<Rightarrow> ('b, 'z) world_scheme \<Rightarrow> ('b, 'z) world_scheme option" where
  [code]: "gwrl_evt_free_list evt s =
     (if evt = None then Some s
      else do {
        e \<leftarrow> get_evt evt s;
        s \<leftarrow> gwrl_evt_free evt s;
        gwrl_evt_free_list (evt_next e) s })"

subsection \<open>Invariants\<close>

definition cache_ok :: "('b, 'z) world_scheme \<Rightarrow> addr list \<Rightarrow> bool" where
  "cache_ok s C \<longleftrightarrow>
     chain (evt_nx s) (cevents (rl s)) C \<and> length C = unat (ncevents (rl s))"

definition evts_inv :: "('b, 'z) world_scheme \<Rightarrow> addr list \<Rightarrow> addr list \<Rightarrow> bool" where
  "evts_inv s E C \<longleftrightarrow>
     chain (evt_nx s) (events (rl s)) E \<and> cache_ok s C \<and> set E \<inter> set C = {} \<and> fresh_ok s"

text \<open>The only parts of the state an operation on events may change.\<close>

definition evt_frame :: "('b, 'z) world_scheme \<Rightarrow> ('b, 'z) world_scheme \<Rightarrow> bool" where
  "evt_frame s s' \<longleftrightarrow>
     s' = s\<lparr>evts := evts s', brk := brk s', oom := oom s', errs := errs s',
           rl := (rl s)\<lparr>cevents := cevents (rl s'), ncevents := ncevents (rl s'),
                       events := events (rl s')\<rparr>\<rparr>"

definition new_evt :: "ptr \<Rightarrow> fnptr option \<Rightarrow> ptr \<Rightarrow> int \<Rightarrow> flags8 \<Rightarrow> ptr \<Rightarrow> gwrlevt" where
  "new_evt src callback userdata fd flags nxt =
     \<lparr>evt_flags = flags, evt_fd = fd, evt_userdata = userdata, evt_callback = callback,
      evt_src = src, evt_next = nxt\<rparr>"

lemma new_evt_next [simp]: "evt_next (new_evt src cb ud fd fl n) = n"
  and new_evt_set_next [simp]: "new_evt src cb ud fd fl n\<lparr>evt_next := m\<rparr> = new_evt src cb ud fd fl m"
  by (simp_all add: new_evt_def)

lemma evt_frame_refl [simp]: "evt_frame s s"
  by (simp add: evt_frame_def)

lemma evt_frame_trans:
  assumes "evt_frame s t" "evt_frame t u"
  shows "evt_frame s u"
proof -
  have "u = t\<lparr>evts := evts u, brk := brk u, oom := oom u, errs := errs u,
        rl := (rl t)\<lparr>cevents := cevents (rl u), ncevents := ncevents (rl u), events := events (rl u)\<rparr>\<rparr>"
    using assms(2) unfolding evt_frame_def .
  also have "\<dots> = s\<lparr>evts := evts u, brk := brk u, oom := oom u, errs := errs u,
        rl := (rl s)\<lparr>cevents := cevents (rl u), ncevents := ncevents (rl u), events := events (rl u)\<rparr>\<rparr>"
    by (subst assms(1) [unfolded evt_frame_def], subst (2) assms(1) [unfolded evt_frame_def]) simp
  finally show ?thesis unfolding evt_frame_def .
qed

lemma evt_frameD:
  assumes "evt_frame s s'"
  shows "srcs s' = srcs s" "tod s' = tod s" "nclk s' = nclk s"
    "rl_flags (rl s') = rl_flags (rl s)" "fds (rl s') = fds (rl s)"
    "sources (rl s') = sources (rl s)" "timeout (rl s') = timeout (rl s)"
    "backend (rl s') = backend (rl s)" "options (rl s') = options (rl s)"
    "qsrc (rl s') = qsrc (rl s)" "qevt (rl s') = qevt (rl s)"
    "gatherfncs (rl s') = gatherfncs (rl s)" "rl_pr (rl s') = rl_pr (rl s)"
    "world.more s' = world.more s" "src_nx s' = src_nx s" "kernel_view s' = kernel_view s"
  by (subst assms [unfolded evt_frame_def], simp add: src_nx_srcs kernel_view_def)+

subsection \<open>Creation\<close>

lemma evt_create_cached:
  assumes "cevents (rl s) = Some c" "evts s c = Some e"
  shows "gwrl_evt_create src cb ud fd fl s =
    Some (Some c, s\<lparr>rl := (rl s)\<lparr>cevents := evt_next e, ncevents := ncevents (rl s) - 1\<rparr>,
                    evts := (evts s)(c \<mapsto> new_evt src cb ud fd fl None)\<rparr>)"
  using assms by (cases e) (simp add: gwrl_evt_create_def new_evt_def)

lemma evt_create_fresh:
  assumes "cevents (rl s) = None"
  shows "gwrl_evt_create src cb ud fd fl s =
    (case calloc s of
       (None, s) \<Rightarrow> Some (None, gwerr ''8FxlC'' s)
     | (Some a, s) \<Rightarrow> Some (Some a, s\<lparr>evts := (evts s)(a \<mapsto> new_evt src cb ud fd fl None)\<rparr>))"
  using assms
  by (auto simp: gwrl_evt_create_def calloc_evt_def zero_evt_def new_evt_def split: prod.splits option.splits)

text \<open>With an empty cache the retry loop ends at the first \<^verbatim>\<open>calloc\<close> that succeeds.\<close>

definition errs_only :: "(('b, 'z) world_scheme \<Rightarrow> ('b, 'z) world_scheme) \<Rightarrow> bool" where
  "errs_only pre \<longleftrightarrow> (\<forall>s. \<exists>er. pre s = s\<lparr>errs := er\<rparr>)"

lemma errs_only_id [simp]: "errs_only id"
  unfolding errs_only_def
proof
  fix s :: "('a, 'b) world_scheme"
  have "id s = s\<lparr>errs := errs s\<rparr>" by simp
  then show "\<exists>er. id s = s\<lparr>errs := er\<rparr>" ..
qed

lemma errs_only_gwerr [simp]: "errs_only (gwerr m)"
  by (auto simp: errs_only_def gwerr_def)

lemma evt_create_retry_fresh:
  assumes "cevents (rl s) = None" "errs_only pre"
  shows "\<exists>om er. (gwrl_evt_create src cb ud fd fl s \<bind>
      (\<lambda>(e, s). evt_create_retry pre e src cb ud fd fl s)) =
    Some (Some (brk s), s\<lparr>evts := (evts s)(brk s \<mapsto> new_evt src cb ud fd fl None),
      brk := Suc (brk s), oom := om, errs := er\<rparr>)"
  using assms
proof (induction "oom s" arbitrary: s)
  case Nil
  then show ?case
    by (intro exI [of _ "oom s"] exI [of _ "errs s"])
       (auto intro!: world.equality simp: evt_create_fresh calloc_def evt_create_retry.simps
          simp flip: Nil.hyps)
next
  case (Cons b om)
  show ?case
  proof (cases b)
    case False
    with Cons.hyps(2) Cons.prems show ?thesis
      by (intro exI [of _ om] exI [of _ "errs s"])
         (simp add: evt_create_fresh calloc_def evt_create_retry.simps flip: Cons.hyps(2))
  next
    case True
    let ?u = "gwerr ''8FxlC'' (s\<lparr>oom := om\<rparr>)"
    from Cons.prems(2) obtain er where "pre ?u = ?u\<lparr>errs := er\<rparr>"
      unfolding errs_only_def by blast
    then have er: "pre ?u = s\<lparr>oom := om, errs := er\<rparr>" by (simp add: gwerr_def)
    let ?t = "s\<lparr>oom := om, errs := er\<rparr>"
    have "\<exists>om' er'. (gwrl_evt_create src cb ud fd fl ?t \<bind>
          (\<lambda>(e, s). evt_create_retry pre e src cb ud fd fl s)) =
        Some (Some (brk ?t), ?t\<lparr>evts := (evts ?t)(brk ?t \<mapsto> new_evt src cb ud fd fl None),
          brk := Suc (brk ?t), oom := om', errs := er'\<rparr>)"
      using Cons.prems by (intro Cons.hyps(1)) auto
    moreover have "(gwrl_evt_create src cb ud fd fl s \<bind>
          (\<lambda>(e, s). evt_create_retry pre e src cb ud fd fl s)) =
        (gwrl_evt_create src cb ud fd fl ?t \<bind>
          (\<lambda>(e, s). evt_create_retry pre e src cb ud fd fl s))"
      using True Cons.hyps(2) [symmetric] Cons.prems er
      by (simp add: evt_create_fresh [of s] calloc_def evt_create_retry.simps [of pre None])
    ultimately show ?thesis by simp
  qed
qed

lemma evt_create_any:
  assumes inv: "evts_inv s E C" and pre: "errs_only pre"
  obtains a s' where
    "(gwrl_evt_create src cb ud fd fl s \<bind>
        (\<lambda>(e, s). evt_create_retry pre e src cb ud fd fl s)) = Some (Some a, s')"
    "evts s' = (evts s)(a \<mapsto> new_evt src cb ud fd fl None)"
    "a = (case C of [] \<Rightarrow> brk s | c # _ \<Rightarrow> c)" "a \<notin> set E" "a \<notin> set (tl C)"
    "evts_inv s' E (tl C)" "events (rl s') = events (rl s)" "evt_frame s s'" "brk s \<le> brk s'"
proof (cases C)
  case Nil
  with inv have c: "cevents (rl s) = None" by (simp add: evts_inv_def cache_ok_def)
  define n where "n = new_evt src cb ud fd fl None"
  obtain om er where r: "(gwrl_evt_create src cb ud fd fl s \<bind>
      (\<lambda>(e, s). evt_create_retry pre e src cb ud fd fl s)) =
    Some (Some (brk s), s\<lparr>evts := (evts s)(brk s \<mapsto> n), brk := Suc (brk s), oom := om, errs := er\<rparr>)"
    using evt_create_retry_fresh [OF c pre] unfolding n_def by blast
  have f: "brk s \<notin> set E"
    using inv by (auto simp: evts_inv_def fresh_ok_def evt_nx_def dest!: seg_alloc [of _ _ _ _ "brk s"])
  show ?thesis
    by (rule that [OF r])
      (use inv Nil f in \<open>auto simp: evts_inv_def cache_ok_def fresh_ok_def evt_frame_def evt_nx_evts n_def\<close>)
next
  case (Cons c C')
  define n where "n = new_evt src cb ud fd fl None"
  from inv Cons obtain e where c: "cevents (rl s) = Some c" and e: "evts s c = Some e"
    and ch: "chain (evt_nx s) (evt_next e) C'"
    by (auto simp: evts_inv_def cache_ok_def evt_nx_iff)
  have d: "c \<notin> set C'" "c \<notin> set E"
    using inv Cons chain_distinct [of "evt_nx s" _ "c # C'"] by (auto simp: evts_inv_def cache_ok_def)
  let ?s' = "s\<lparr>rl := (rl s)\<lparr>cevents := evt_next e, ncevents := ncevents (rl s) - 1\<rparr>,
      evts := (evts s)(c \<mapsto> n)\<rparr>"
  have r: "(gwrl_evt_create src cb ud fd fl s \<bind>
      (\<lambda>(e, s). evt_create_retry pre e src cb ud fd fl s)) = Some (Some c, ?s')"
    by (simp add: evt_create_cached [OF c e] evt_create_retry.simps n_def)
  have l: "unat (ncevents (rl s) - 1) = length C'"
    using inv Cons by (simp add: evts_inv_def cache_ok_def unat_sub_if_size)
       (metis One_nat_def diff_Suc_1 unat_1 unat_minus_one unat_0 nat.distinct(1))
  show ?thesis
    by (rule that [OF r])
      (use inv Cons d ch l fresh_okD(1) [of s c e] e in
        \<open>auto simp: evts_inv_def cache_ok_def fresh_ok_def evt_frame_def evt_nx_evts n_def\<close>)
qed

subsection \<open>Posting\<close>

lemma post_new:
  assumes inv: "evts_inv s E C" and pre: "errs_only pre"
  obtains a s' where
    "((gwrl_evt_create src cb ud fd fl s \<bind>
        (\<lambda>(e, s). evt_create_retry pre e src cb ud fd fl s)) \<bind>
        (\<lambda>(e, s). gwrl_post_evt e s)) = Some s'"
    "evts s' = (evts s)(a \<mapsto> new_evt src cb ud fd fl (events (rl s)))"
    "a = (case C of [] \<Rightarrow> brk s | c # _ \<Rightarrow> c)" "a \<notin> set E" "a \<notin> set (tl C)"
    "evts_inv s' (a # E) (tl C)" "events (rl s') = Some a" "evt_frame s s'" "brk s \<le> brk s'"
proof -
  obtain a t where c:
    "(gwrl_evt_create src cb ud fd fl s \<bind>
        (\<lambda>(e, s). evt_create_retry pre e src cb ud fd fl s)) = Some (Some a, t)"
    "evts t = (evts s)(a \<mapsto> new_evt src cb ud fd fl None)"
    "a = (case C of [] \<Rightarrow> brk s | c # _ \<Rightarrow> c)" "a \<notin> set E" "a \<notin> set (tl C)"
    "evts_inv t E (tl C)" "events (rl t) = events (rl s)" "evt_frame s t" "brk s \<le> brk t"
    by (rule evt_create_any [OF inv pre, of src cb ud fd fl])
  let ?s' = "t\<lparr>evts := (evts t)(a \<mapsto> new_evt src cb ud fd fl (events (rl s))),
      rl := (rl t)\<lparr>events := Some a\<rparr>\<rparr>"
  have p: "gwrl_post_evt (Some a) t = Some ?s'"
    using c by (auto simp: gwrl_post_evt_def intro!: world.equality)
  have f: "evt_frame t ?s'" by (simp add: evt_frame_def)
  have lt: "a < brk t" using c(2,6) by (auto simp: evts_inv_def intro: fresh_okD)
  show ?thesis
  proof (rule that)
    show "((gwrl_evt_create src cb ud fd fl s \<bind>
        (\<lambda>(e, s). evt_create_retry pre e src cb ud fd fl s)) \<bind>
        (\<lambda>(e, s). gwrl_post_evt e s)) = Some ?s'" by (simp add: c(1) p)
    show "evts ?s' = (evts s)(a \<mapsto> new_evt src cb ud fd fl (events (rl s)))" by (simp add: c(2))
    show "evts_inv ?s' (a # E) (tl C)"
      using c lt by (auto simp: evts_inv_def cache_ok_def fresh_ok_def evt_nx_evts)
    show "evt_frame s ?s'" by (rule evt_frame_trans [OF c(8) f])
  qed (use c in simp_all)
qed

lemma create_and_post_ok:
  assumes "evts_inv s E C"
  obtains a s' where
    "create_and_post src cb ud fd fl s = Some s'"
    "evts s' = (evts s)(a \<mapsto> new_evt src cb ud fd fl (events (rl s)))"
    "a = (case C of [] \<Rightarrow> brk s | c # _ \<Rightarrow> c)" "a \<notin> set E" "a \<notin> set (tl C)"
    "evts_inv s' (a # E) (tl C)" "events (rl s') = Some a" "evt_frame s s'" "brk s \<le> brk s'"
  by (rule post_new [OF assms errs_only_id, of src cb ud fd fl])
     (simp add: create_and_post_def split_def)

subsection \<open>Freeing\<close>

lemma evt_free_full:
  assumes "gwrl_event_cache_max (options (rl s)) \<le> uint (ncevents (rl s))" "evts s a = Some e"
  shows "gwrl_evt_free (Some a) s = Some (s\<lparr>evts := (evts s)(a := None)\<rparr>)"
  using assms by (simp add: gwrl_evt_free_def)

lemma evt_free_room:
  assumes "uint (ncevents (rl s)) < gwrl_event_cache_max (options (rl s))" "evts s a = Some e"
  shows "gwrl_evt_free (Some a) s =
    Some (s\<lparr>evts := (evts s)(a \<mapsto> zero_evt\<lparr>evt_next := cevents (rl s)\<rparr>),
            rl := (rl s)\<lparr>cevents := Some a, ncevents := ncevents (rl s) + 1\<rparr>\<rparr>)"
  using assms by (auto simp: gwrl_evt_free_def zero_evt_def intro!: world.equality)

lemma unat_Suc16: "unat (w :: 16 word) < 65535 \<Longrightarrow> unat (w + 1) = Suc (unat w)"
  by (subst unat_word_ariths) simp

lemma evt_free_list_exact:
  assumes "chain (evt_nx s) p L" "cache_ok s C" "set L \<inter> set C = {}"
    and "gwrl_event_cache_max (options (rl s)) \<le> 65535"
    and "k = nat (gwrl_event_cache_max (options (rl s))) - length C"
  shows "\<exists>s'. gwrl_evt_free_list p s = Some s' \<and> cache_ok s' (rev (take k L) @ C) \<and>
    (\<forall>a. a \<in> set (drop k L) \<longrightarrow> evts s' a = None) \<and>
    (\<forall>a. a \<notin> set L \<longrightarrow> evts s' a = evts s a) \<and> evt_frame s s' \<and>
    events (rl s') = events (rl s) \<and> brk s' = brk s"
  using assms
proof (induction L arbitrary: p s C k)
  case Nil
  then show ?case by (simp add: gwrl_evt_free_list.simps)
next
  case (Cons a L)
  from Cons.prems(1) obtain e where p: "p = Some a" and e: "evts s a = Some e"
    and ch: "chain (evt_nx s) (evt_next e) L"
    by (auto simp: evt_nx_iff)
  have d: "a \<notin> set L" using Cons.prems(1) by (rule chain_tail_notin)
  have aC: "a \<notin> set C" using Cons.prems(3) by simp
  let ?m = "gwrl_event_cache_max (options (rl s))"
  have lC: "length C = unat (ncevents (rl s))" using Cons.prems(2) by (simp add: cache_ok_def)
  then have uC: "uint (ncevents (rl s)) = int (length C)" by simp
  show ?case
  proof (cases "?m \<le> uint (ncevents (rl s))")
    case True
    define t where "t = s\<lparr>evts := (evts s)(a := None)\<rparr>"
    have k: "k = 0" using True uC Cons.prems(5) by simp
    have f: "gwrl_evt_free (Some a) s = Some t" unfolding t_def by (rule evt_free_full [OF True e])
    have "chain (evt_nx t) (evt_next e) L" "cache_ok t C"
      using ch d Cons.prems(2) aC by (simp_all add: t_def cache_ok_def evt_nx_evts)
    then obtain s' where s': "gwrl_evt_free_list (evt_next e) t = Some s'" "cache_ok s' (rev (take k L) @ C)"
      "\<forall>a. a \<in> set (drop k L) \<longrightarrow> evts s' a = None" "\<forall>a. a \<notin> set L \<longrightarrow> evts s' a = evts t a"
      "evt_frame t s'" "events (rl s') = events (rl t)" "brk s' = brk t"
      using Cons.IH [of t "evt_next e" C k] Cons.prems by (auto simp: t_def)
    have "evt_frame s t" by (simp add: t_def evt_frame_def)
    with s' have "evt_frame s s'" by (blast intro: evt_frame_trans)
    with s' f p e k d show ?thesis
      by (auto simp: gwrl_evt_free_list.simps [of "Some a"] t_def)
  next
    case False
    define t where "t = s\<lparr>evts := (evts s)(a \<mapsto> zero_evt\<lparr>evt_next := cevents (rl s)\<rparr>),
            rl := (rl s)\<lparr>cevents := Some a, ncevents := ncevents (rl s) + 1\<rparr>\<rparr>"
    have f: "gwrl_evt_free (Some a) s = Some t"
      unfolding t_def using False e by (intro evt_free_room) simp_all
    define k' where "k' = nat ?m - length (a # C)"
    have "length C < nat ?m" using False uC by linarith
    then have k: "k = Suc k'" "k' = nat ?m - length (a # C)"
      using Cons.prems(5) by (simp_all add: k'_def)
    have "unat (ncevents (rl s)) < 65535" using False uC lC Cons.prems(4) by linarith
    then have "unat (ncevents (rl s) + 1) = Suc (length C)" by (simp only: unat_Suc16 lC)
    then have "chain (evt_nx t) (evt_next e) L" "cache_ok t (a # C)"
      using ch d Cons.prems(2) aC by (simp_all add: t_def cache_ok_def evt_nx_evts zero_evt_def)
    moreover have "set L \<inter> set (a # C) = {}" using d Cons.prems(3) by auto
    ultimately obtain s' where s': "gwrl_evt_free_list (evt_next e) t = Some s'"
      "cache_ok s' (rev (take k' L) @ a # C)"
      "\<forall>a. a \<in> set (drop k' L) \<longrightarrow> evts s' a = None" "\<forall>a. a \<notin> set L \<longrightarrow> evts s' a = evts t a"
      "evt_frame t s'" "events (rl s') = events (rl t)" "brk s' = brk t"
      using Cons.IH [of t "evt_next e" "a # C" k'] Cons.prems(4) k(2) by (auto simp: t_def)
    have "evt_frame s t" by (simp add: t_def evt_frame_def)
    with s' have "evt_frame s s'" by (blast intro: evt_frame_trans)
    with s' f p e k d show ?thesis
      by (auto simp: gwrl_evt_free_list.simps [of "Some a"] t_def)
  qed
qed

lemma evt_free_list_inv:
  assumes "evts_inv s E C" "chain (evt_nx s) p L" "set L \<inter> (set E \<union> set C) = {}"
    and "gwrl_event_cache_max (options (rl s)) \<le> 65535"
  shows "\<exists>s' room. gwrl_evt_free_list p s = Some s' \<and>
    room = nat (gwrl_event_cache_max (options (rl s))) - length C \<and>
    evts_inv s' E (rev (take room L) @ C) \<and>
    (\<forall>a. a \<in> set (drop room L) \<longrightarrow> evts s' a = None) \<and>
    (\<forall>a. a \<notin> set L \<longrightarrow> evts s' a = evts s a) \<and> evt_frame s s' \<and> events (rl s') = events (rl s)"
proof -
  define room where "room = nat (gwrl_event_cache_max (options (rl s))) - length C"
  obtain s' where s': "gwrl_evt_free_list p s = Some s'" "cache_ok s' (rev (take room L) @ C)"
    "\<forall>a. a \<in> set (drop room L) \<longrightarrow> evts s' a = None" "\<forall>a. a \<notin> set L \<longrightarrow> evts s' a = evts s a"
    "evt_frame s s'" "events (rl s') = events (rl s)" "brk s' = brk s"
    using evt_free_list_exact [OF assms(2) _ _ assms(4) room_def] assms(1,3)
    by (auto simp: evts_inv_def)
  have "evts_inv s' E (rev (take room L) @ C)"
    unfolding evts_inv_def
  proof (intro conjI)
    have "seg (evt_nx s') (events (rl s)) E None = seg (evt_nx s) (events (rl s)) E None"
      by (rule seg_cong) (use assms(3) s'(4) in \<open>auto simp: evt_nx_def\<close>)
    then show "chain (evt_nx s') (events (rl s')) E" using assms(1) s'(6) by (simp add: evts_inv_def)
    show "set E \<inter> set (rev (take room L) @ C) = {}"
      using assms(1,3) set_take_subset [of room L] by (auto simp: evts_inv_def)
    have "a < brk s" if "a \<in> set L" for a
      using assms(1,2) that by (auto simp: evts_inv_def evt_nx_iff dest!: seg_alloc intro: fresh_okD)
    then have "brk s \<le> a \<Longrightarrow> evts s' a = evts s a" for a
      using s'(4) by (meson not_le)
    moreover have "fresh_ok s" using assms(1) by (simp add: evts_inv_def)
    ultimately show "fresh_ok s'"
      by (simp add: fresh_ok_def s'(7) evt_frameD(1) [OF s'(5)])
  qed (rule s'(2))
  then show ?thesis
    using s'(1,3,4,5,6) room_def by (intro exI [of _ s'] exI [of _ room]) simp
qed

subsection \<open>Properties\<close>

lemma evts_inv_blank [simp]: "evts_inv (blank_world b) [] []"
  by (simp add: evts_inv_def cache_ok_def fresh_ok_def blank_world_def zero_gwrl_def)

text \<open>
  \<^verbatim>\<open>gwrl_post_function\<close> always returns, however often \<^verbatim>\<open>calloc\<close> fails first, and puts one
  new event, with the caller's function and data, in front of the posted events. The event
  is the first cached one when there is one and a new object otherwise, no other event
  object changes, and the cache and its counter stay consistent.
\<close>
theorem post_function_pushes:
  assumes "evts_inv s E C"
  shows "\<exists>a s'. gwrl_post_function cb ud s = Some s' \<and> evts_inv s' (a # E) (tl C) \<and>
    a = (case C of [] \<Rightarrow> brk s | c # _ \<Rightarrow> c) \<and>
    evts s' = (evts s)(a \<mapsto> new_evt None cb ud 0 0 (events (rl s))) \<and> evt_frame s s'"
  by (rule create_and_post_ok [OF assms, of None cb ud 0 0]) (auto simp: gwrl_post_function_def)

text \<open>A memory with three linked events and room for two in the cache, where \<^verbatim>\<open>calloc\<close> fails twice.\<close>

definition three_events :: "unit world" where
  "three_events = (blank_world ())\<lparr>
     evts := [1 \<mapsto> zero_evt\<lparr>evt_next := Some 2\<rparr>, 2 \<mapsto> zero_evt\<lparr>evt_next := Some 3\<rparr>, 3 \<mapsto> zero_evt],
     brk := 4, oom := [True, True],
     rl := (zero_gwrl ())\<lparr>options := GWRL_DEFAULT_OPTIONS\<lparr>gwrl_event_cache_max := 2\<rparr>\<rparr>\<rparr>"

lemma three_events_cache_max: "gwrl_event_cache_max (options (rl three_events)) = 2"
  by (simp add: three_events_def)

lemma three_events_inv: "evts_inv three_events [] []"
  by (auto simp: evts_inv_def cache_ok_def fresh_ok_def three_events_def blank_world_def zero_gwrl_def)

lemma three_events_chain: "chain (evt_nx three_events) (Some 1) [1, 2, 3]"
  by (simp add: three_events_def evt_nx_def zero_evt_def)

theorem post_function_pushes_witness:
  "\<exists>a s'. gwrl_post_function (Some (Fn_user 7)) None three_events = Some s' \<and>
    evts_inv s' [a] [] \<and> a = 4 \<and> evts s' = (evts three_events)
      (a \<mapsto> new_evt None (Some (Fn_user 7)) None 0 0 (events (rl three_events))) \<and>
    evt_frame three_events s'"
  using post_function_pushes [OF three_events_inv, of "Some (Fn_user 7)" None]
  by (simp add: three_events_def)

text \<open>
  C17: when \<^verbatim>\<open>gwrl_event_cache_max\<close> is at most 65535, so that it fits the 16 bits of the cache's
  counter (beyond that the counter wraps and the limit is not enforced), \<^verbatim>\<open>gwrl_evt_free_list\<close> ends and recycles: of a chain \<open>L\<close> of
  events that are neither posted nor cached, the first ones go to the cache, as many as \<^verbatim>\<open>gwrl_event_cache_max\<close> leaves room for, in reverse order in front
  of what was cached; the others are released. The cache never outgrows its limit, its
  counter stays exact, and no event outside \<open>L\<close> changes.
\<close>
theorem evt_free_list_recycles:
  assumes "evts_inv s E C" "chain (evt_nx s) p L" "set L \<inter> (set E \<union> set C) = {}"
    and "gwrl_event_cache_max (options (rl s)) \<le> 65535"
  shows "\<exists>s' room. gwrl_evt_free_list p s = Some s' \<and>
    room = nat (gwrl_event_cache_max (options (rl s))) - length C \<and>
    evts_inv s' E (rev (take room L) @ C) \<and>
    (\<forall>a. a \<in> set (drop room L) \<longrightarrow> evts s' a = None) \<and>
    (\<forall>a. a \<notin> set L \<longrightarrow> evts s' a = evts s a) \<and> evt_frame s s'"
  using evt_free_list_inv [OF assms] by blast

theorem evt_free_list_recycles_witness:
  "\<exists>s' room. gwrl_evt_free_list (Some 1) three_events = Some s' \<and> room = 2 \<and>
    evts_inv s' [] [2, 1] \<and> evts s' 3 = None \<and> evt_frame three_events s'"
  using evt_free_list_recycles [OF three_events_inv three_events_chain]
  by (auto simp: three_events_cache_max)

text \<open>
  The cache counter is 16 bits wide while the option that bounds it is an \<^verbatim>\<open>int\<close>: with a
  larger limit, freeing an event into a cache that counts 65535 resets the counter to 0
  while the cache grows, so from there on it no longer counts the cache and the limit is
  never enforced.
\<close>
theorem evt_free_counter_wraps:
  assumes "ncevents (rl s) = 65535" "65535 < gwrl_event_cache_max (options (rl s))" "evts s a = Some e"
  shows "\<exists>s'. gwrl_evt_free (Some a) s = Some s' \<and> ncevents (rl s') = 0 \<and>
    cevents (rl s') = Some a \<and> evt_nx s' a = Some (cevents (rl s))"
  using assms by (simp add: evt_free_room evt_nx_def)

theorem evt_free_counter_wraps_witness:
  "\<exists>s'. gwrl_evt_free (Some 3) (three_events\<lparr>rl := (rl three_events)\<lparr>ncevents := 65535,
        options := GWRL_DEFAULT_OPTIONS\<lparr>gwrl_event_cache_max := 70000\<rparr>\<rparr>\<rparr>) = Some s' \<and>
    ncevents (rl s') = 0 \<and> cevents (rl s') = Some 3 \<and> evt_nx s' 3 = Some None"
  using evt_free_counter_wraps [of "three_events\<lparr>rl := (rl three_events)\<lparr>ncevents := 65535,
        options := GWRL_DEFAULT_OPTIONS\<lparr>gwrl_event_cache_max := 70000\<rparr>\<rparr>\<rparr>" 3 zero_evt]
  by (simp add: three_events_def zero_gwrl_def blank_world_def)

end
