(* ===== verification/Gw_Sources.thy ===== *)
theory Gw_Sources
  imports Gw_Events
begin

section \<open>Input sources (\<^verbatim>\<open>src/gwrl/event.c\<close>)\<close>

text \<open>
  Creation, registration, removal, enabling and disabling of file and time sources.
  Registered sources are one singly linked list per type, \<^verbatim>\<open>rl->sources[type]\<close>. What the
  backend does when a file source comes, goes or changes is an argument of these
  operations (\<open>src_ops\<close>); the locale \<open>source_backend\<close> states what the reactor relies on there,
  \<open>reactor_backend\<close> adds the change of flags that the proactor uses, and each backend's theory
  interprets one of them with its own operations.
\<close>

subsection \<open>The backend's operations\<close>

record 's src_ops =
  op_src_add :: "ptr \<Rightarrow> 's \<Rightarrow> 's option"
  op_del_src :: "ptr \<Rightarrow> 's \<Rightarrow> 's option"
  op_enable_src :: "ptr \<Rightarrow> 's \<Rightarrow> 's option"
  op_disable_src :: "ptr \<Rightarrow> 's \<Rightarrow> 's option"
  op_update_flags :: "ptr \<Rightarrow> flags8 \<Rightarrow> 's \<Rightarrow> 's option"

subsection \<open>Creation\<close>

definition GWRL_NOW :: int where "GWRL_NOW = 0"
definition GWRL_ABS :: int where "GWRL_ABS = 1"

definition zero_src :: "src_part \<Rightarrow> gwrlsrc" where
  "zero_src p = \<lparr>src_type = 0, src_tag = 0, src_flags = 0, src_userdata = None,
     src_callback = None, src_next = None, src_part = p\<rparr>"

definition zero_time_part :: src_part where
  "zero_time_part = Time_part \<lparr>time_ms = 0, time_when = \<lparr>ts_sec = 0, ts_nsec = 0\<rparr>\<rparr>"

definition zero_file_part :: src_part where
  "zero_file_part = File_part \<lparr>file_fd = 0, file_pfd = None, file_pdata = None\<rparr>"

definition calloc_src :: "src_part \<Rightarrow> ('b, 'z) world_scheme \<Rightarrow> ptr \<times> ('b, 'z) world_scheme" where
  "calloc_src p s =
     (case calloc s of
        (None, s) \<Rightarrow> (None, s)
      | (Some a, s) \<Rightarrow> (Some a, s\<lparr>srcs := (srcs s)(a \<mapsto> zero_src p)\<rparr>))"

text \<open>Assignments to a field of the part a source has.\<close>

definition set_time_ms :: "int \<Rightarrow> gwrlsrc \<Rightarrow> gwrlsrc" where
  "set_time_ms ms o1 = (case src_part o1 of
     Time_part t \<Rightarrow> o1\<lparr>src_part := Time_part (t\<lparr>time_ms := ms\<rparr>)\<rparr> | File_part _ \<Rightarrow> o1)"

definition set_file_fd :: "int \<Rightarrow> gwrlsrc \<Rightarrow> gwrlsrc" where
  "set_file_fd fd o1 = (case src_part o1 of
     File_part f \<Rightarrow> o1\<lparr>src_part := File_part (f\<lparr>file_fd := fd\<rparr>)\<rparr> | Time_part _ \<Rightarrow> o1)"

definition src_flset :: "flags8 \<Rightarrow> gwrlsrc \<Rightarrow> gwrlsrc" where
  "src_flset f o1 = o1\<lparr>src_flags := flset (src_flags o1) f\<rparr>"

definition src_flclr :: "flags8 \<Rightarrow> gwrlsrc \<Rightarrow> gwrlsrc" where
  "src_flclr f o1 = o1\<lparr>src_flags := flclr (src_flags o1) f\<rparr>"

definition gwrl_src_time_create ::
    "int \<Rightarrow> bool \<Rightarrow> int \<Rightarrow> bool \<Rightarrow> fnptr option \<Rightarrow> ptr \<Rightarrow> ('b, 'z) world_scheme
     \<Rightarrow> (ptr \<times> ('b, 'z) world_scheme) option" where
  "gwrl_src_time_create ms repeat whence persist callback userdata s =
     (case calloc_src zero_time_part s of
        (None, s) \<Rightarrow> Some (None, gwerr ''5Gn3K'' s)
      | (src, s) \<Rightarrow> do {
          s \<leftarrow> upd_src (\<lambda>o1. set_time_ms ms (o1\<lparr>src_type := GWRL_SRC_TYPE_TIME,
                 src_userdata := userdata, src_callback := callback\<rparr>)) src s;
          s \<leftarrow> (if persist then upd_src (src_flset GWRL_PERSIST) src s else Some s);
          s \<leftarrow> (if repeat \<and> whence \<noteq> GWRL_ABS then upd_src (src_flset GWRL_REPEAT) src s else Some s);
          s \<leftarrow> upd_src (src_flset GWRL_ENABLED) src s;
          s \<leftarrow> (if whence = GWRL_NOW then upd_src (set_when no_time) src s
               else if whence = GWRL_ABS then do {
                 s \<leftarrow> upd_src (src_flset GWRL_WHENCE_ABS) src s;
                 w \<leftarrow> gwtm_ms_to_timespec ms;
                 upd_src (set_when w) src s }
               else Some s);
          Some (src, s) })"

definition gwrl_src_file_create ::
    "int \<Rightarrow> flags8 \<Rightarrow> fnptr option \<Rightarrow> ptr \<Rightarrow> ('b, 'z) world_scheme
     \<Rightarrow> (ptr \<times> ('b, 'z) world_scheme) option" where
  "gwrl_src_file_create fd flags callback userdata s =
     (case calloc_src zero_file_part s of
        (None, s) \<Rightarrow> Some (None, gwerr ''25FnG'' s)
      | (src, s) \<Rightarrow> do {
          s \<leftarrow> upd_src (\<lambda>o1. o1\<lparr>src_flags := flags, src_type := GWRL_SRC_TYPE_FILE,
                 src_userdata := userdata, src_callback := callback\<rparr>) src s;
          s \<leftarrow> upd_src (src_flset GWRL_ENABLED) src s;
          s \<leftarrow> upd_src (set_file_fd fd) src s;
          Some (src, s) })"

subsection \<open>Registration and removal\<close>

definition set_sources :: "nat \<Rightarrow> ptr \<Rightarrow> ('b, 'z) world_scheme \<Rightarrow> ('b, 'z) world_scheme option" where
  "set_sources ty p s =
     (if ty < length (sources (rl s))
      then Some (s\<lparr>rl := (rl s)\<lparr>sources := (sources (rl s))[ty := p]\<rparr>\<rparr>) else None)"

definition gwrl_src_add ::
    "('b, 'z) world_scheme src_ops \<Rightarrow> ptr \<Rightarrow> ('b, 'z) world_scheme \<Rightarrow> ('b, 'z) world_scheme option" where
  "gwrl_src_add ops src s = do {
     o1 \<leftarrow> get_src src s;
     head \<leftarrow> nth_opt (sources (rl s)) (src_type o1);
     s \<leftarrow> (if head \<noteq> None then upd_src (\<lambda>o1. o1\<lparr>src_next := head\<rparr>) src s else Some s);
     s \<leftarrow> set_sources (src_type o1) src s;
     if src_type o1 = GWRL_SRC_TYPE_FILE then op_src_add ops src s else Some s }"

text \<open>
  The search of \<^verbatim>\<open>gwrl_src_del\<close> walks with a pointer to a pointer: first to the local
  variable \<^verbatim>\<open>head\<close>, then to the \<^verbatim>\<open>next\<close> field of the object passed. Writing to the local
  variable changes nothing in memory.
\<close>

datatype search_lval = Local_head | Next_of addr

partial_function (option) src_del_search ::
    "ptr \<Rightarrow> search_lval \<Rightarrow> ptr \<Rightarrow> ('b, 'z) world_scheme \<Rightarrow> ('b, 'z) world_scheme option" where
  [code]: "src_del_search head search src s = do {
     p \<leftarrow> (case search of Local_head \<Rightarrow> Some head | Next_of b \<Rightarrow> map_option src_next (srcs s b));
     (case p of
        None \<Rightarrow> Some s
      | Some a \<Rightarrow>
          (if p = src then do {
             o1 \<leftarrow> srcs s a;
             s \<leftarrow> (case search of Local_head \<Rightarrow> Some s
                  | Next_of b \<Rightarrow> upd_src (\<lambda>o2. o2\<lparr>src_next := src_next o1\<rparr>) (Some b) s);
             upd_src (\<lambda>o2. o2\<lparr>src_next := None\<rparr>) src s }
           else src_del_search head (Next_of a) src s)) }"

definition src_unlink :: "ptr \<Rightarrow> ptr \<Rightarrow> ('b, 'z) world_scheme \<Rightarrow> ('b, 'z) world_scheme option" where
  "src_unlink src prev s = do {
     o1 \<leftarrow> get_src src s;
     head \<leftarrow> nth_opt (sources (rl s)) (src_type o1);
     if prev \<noteq> None then do {
       s \<leftarrow> upd_src (\<lambda>o2. o2\<lparr>src_next := src_next o1\<rparr>) prev s;
       upd_src (\<lambda>o2. o2\<lparr>src_next := None\<rparr>) src s }
     else if src = head then do {
       s \<leftarrow> set_sources (src_type o1) (src_next o1) s;
       upd_src (\<lambda>o2. o2\<lparr>src_next := None\<rparr>) src s }
     else src_del_search head Local_head src s }"

definition gwrl_src_del ::
    "('b, 'z) world_scheme src_ops \<Rightarrow> ptr \<Rightarrow> ptr \<Rightarrow> bool \<Rightarrow> ('b, 'z) world_scheme
     \<Rightarrow> ('b, 'z) world_scheme option" where
  "gwrl_src_del ops src prev freesrc s = do {
     s \<leftarrow> src_unlink src prev s;
     o1 \<leftarrow> get_src src s;
     s \<leftarrow> (if src_type o1 = GWRL_SRC_TYPE_FILE then op_del_src ops src s else Some s);
     if freesrc then free_src src s else Some s }"

definition gwrl_src_remove ::
    "('b, 'z) world_scheme src_ops \<Rightarrow> ptr \<Rightarrow> ('b, 'z) world_scheme \<Rightarrow> ('b, 'z) world_scheme option" where
  "gwrl_src_remove ops src s = gwrl_src_del ops src None False s"

text \<open>The shortcuts that create a source, trying until memory is there, and register it.\<close>

definition set_time_src ::
    "('b, 'z) world_scheme src_ops \<Rightarrow> int \<Rightarrow> bool \<Rightarrow> int \<Rightarrow> bool \<Rightarrow> fnptr option \<Rightarrow> ptr
     \<Rightarrow> ('b, 'z) world_scheme \<Rightarrow> (ptr \<times> ('b, 'z) world_scheme) option" where
  "set_time_src ops ms repeat whence persist callback userdata s = do {
     (tsrc, s) \<leftarrow> create_retry (gwrl_src_time_create ms repeat whence persist callback userdata) s;
     s \<leftarrow> gwrl_src_add ops tsrc s;
     Some (tsrc, s) }"

definition gwrl_set_timeout ::
    "('b, 'z) world_scheme src_ops \<Rightarrow> int \<Rightarrow> bool \<Rightarrow> fnptr option \<Rightarrow> ptr \<Rightarrow> ('b, 'z) world_scheme
     \<Rightarrow> (ptr \<times> ('b, 'z) world_scheme) option" where
  "gwrl_set_timeout ops ms persist callback userdata s =
     set_time_src ops ms False GWRL_NOW persist callback userdata s"

definition gwrl_set_interval ::
    "('b, 'z) world_scheme src_ops \<Rightarrow> int \<Rightarrow> fnptr option \<Rightarrow> ptr \<Rightarrow> ('b, 'z) world_scheme
     \<Rightarrow> (ptr \<times> ('b, 'z) world_scheme) option" where
  "gwrl_set_interval ops ms callback userdata s =
     set_time_src ops ms True GWRL_NOW False callback userdata s"

definition gwrl_set_date_timeout ::
    "('b, 'z) world_scheme src_ops \<Rightarrow> int \<Rightarrow> fnptr option \<Rightarrow> ptr \<Rightarrow> ('b, 'z) world_scheme
     \<Rightarrow> (ptr \<times> ('b, 'z) world_scheme) option" where
  "gwrl_set_date_timeout ops ms callback userdata s =
     set_time_src ops ms False GWRL_ABS False callback userdata s"

definition gwrl_set_fd ::
    "('b, 'z) world_scheme src_ops \<Rightarrow> int \<Rightarrow> flags8 \<Rightarrow> fnptr option \<Rightarrow> ptr \<Rightarrow> ('b, 'z) world_scheme
     \<Rightarrow> (ptr \<times> ('b, 'z) world_scheme) option" where
  "gwrl_set_fd ops fd flags callback userdata s = do {
     (fsrc, s) \<leftarrow> create_retry (gwrl_src_file_create fd flags callback userdata) s;
     s \<leftarrow> gwrl_src_add ops fsrc s;
     Some (fsrc, s) }"

subsection \<open>Enabling and disabling\<close>

definition gwrl_src_enable ::
    "('b, 'z) world_scheme src_ops \<Rightarrow> ptr \<Rightarrow> ('b, 'z) world_scheme \<Rightarrow> ('b, 'z) world_scheme option" where
  "gwrl_src_enable ops src s = do {
     s \<leftarrow> upd_src (src_flset GWRL_ENABLED) src s;
     o1 \<leftarrow> get_src src s;
     if src_type o1 = GWRL_SRC_TYPE_TIME then
       (if \<not> flisset (src_flags o1) GWRL_WHENCE_ABS then do {
          t \<leftarrow> as_time o1;
          (now, s) \<leftarrow> gwtm_gettimeofday_timespec s;
          w \<leftarrow> gwtm_add_ms_to_timespec (time_ms t) now;
          upd_src (set_when w) src s }
        else Some s)
     else if src_type o1 = GWRL_SRC_TYPE_FILE then op_enable_src ops src s
     else Some s }"

definition gwrl_src_disable ::
    "('b, 'z) world_scheme src_ops \<Rightarrow> ptr \<Rightarrow> ('b, 'z) world_scheme \<Rightarrow> ('b, 'z) world_scheme option" where
  "gwrl_src_disable ops src s = do {
     s \<leftarrow> upd_src (src_flclr GWRL_ENABLED) src s;
     o1 \<leftarrow> get_src src s;
     if src_type o1 = GWRL_SRC_TYPE_FILE then op_disable_src ops src s else Some s }"

text \<open>Deletion of the expired persistent timeouts: the loop that unlinks, and the one that frees.\<close>

partial_function (option) del_persistent_unlink ::
    "ptr \<Rightarrow> ptr \<Rightarrow> ptr \<Rightarrow> ptr \<Rightarrow> ('b, 'z) world_scheme
     \<Rightarrow> (ptr \<times> ptr \<times> ('b, 'z) world_scheme) option" where
  [code]: "del_persistent_unlink src shead phead psrc s =
     (if src = None then Some (shead, phead, s)
      else do {
        o1 \<leftarrow> get_src src s;
        expired \<leftarrow>
          (if flisset (src_flags o1) GWRL_PERSIST \<and> \<not> flisset (src_flags o1) GWRL_ENABLED
           then map_option (\<lambda>t. time_when t = no_time) (as_time o1) else Some False);
        (shead, phead, s) \<leftarrow>
          (if expired then do {
             shead \<leftarrow> (if src = shead then map_option src_next (get_src shead s) else Some shead);
             s \<leftarrow> (if psrc \<noteq> None then upd_src (\<lambda>o2. o2\<lparr>src_next := src_next o1\<rparr>) psrc s else Some s);
             s \<leftarrow> (if phead = None then Some s else upd_src (\<lambda>o2. o2\<lparr>src_next := src\<rparr>) phead s);
             Some (shead, src, s) }
           else Some (shead, phead, s));
        o1 \<leftarrow> get_src src s;
        del_persistent_unlink (src_next o1) shead phead src s })"

partial_function (option) free_src_list :: "ptr \<Rightarrow> ('b, 'z) world_scheme \<Rightarrow> ('b, 'z) world_scheme option" where
  [code]: "free_src_list p s =
     (if p = None then Some s
      else do {
        o1 \<leftarrow> get_src p s;
        s \<leftarrow> free_src p s;
        free_src_list (src_next o1) s })"

definition gwrl_del_persistent_timeouts :: "('b, 'z) world_scheme \<Rightarrow> ('b, 'z) world_scheme option" where
  "gwrl_del_persistent_timeouts s = do {
     src \<leftarrow> nth_opt (sources (rl s)) GWRL_SRC_TYPE_TIME;
     s \<leftarrow> set_sources GWRL_SRC_TYPE_TIME None s;
     (shead, phead, s) \<leftarrow> del_persistent_unlink src src None None s;
     s \<leftarrow> free_src_list phead s;
     set_sources GWRL_SRC_TYPE_TIME shead s }"

subsection \<open>Registered sources\<close>

definition file_src :: "('b, 'z) world_scheme \<Rightarrow> addr \<Rightarrow> bool" where
  "file_src s a = (case srcs s a of None \<Rightarrow> False
     | Some o1 \<Rightarrow> src_type o1 = GWRL_SRC_TYPE_FILE \<and> as_file o1 \<noteq> None)"

definition time_src :: "('b, 'z) world_scheme \<Rightarrow> addr \<Rightarrow> bool" where
  "time_src s a = (case srcs s a of None \<Rightarrow> False
     | Some o1 \<Rightarrow> src_type o1 = GWRL_SRC_TYPE_TIME \<and> as_time o1 \<noteq> None)"

definition srcs_inv :: "('b, 'z) world_scheme \<Rightarrow> addr list \<Rightarrow> addr list \<Rightarrow> bool" where
  "srcs_inv s Fs Ts \<longleftrightarrow>
     length (sources (rl s)) = GWRL_SRC_TYPES_COUNT \<and>
     chain (src_nx s) (sources (rl s) ! GWRL_SRC_TYPE_FILE) Fs \<and> list_all (file_src s) Fs \<and>
     chain (src_nx s) (sources (rl s) ! GWRL_SRC_TYPE_TIME) Ts \<and> list_all (time_src s) Ts \<and>
     fresh_ok s"

lemma file_src_iff:
  "file_src s a \<longleftrightarrow> (\<exists>o1 f. srcs s a = Some o1 \<and> src_type o1 = 0 \<and> src_part o1 = File_part f)"
  by (auto simp: file_src_def as_file_def src_type_defs split: option.splits src_part.splits)

lemma time_src_iff:
  "time_src s a \<longleftrightarrow> (\<exists>o1 t. srcs s a = Some o1 \<and> src_type o1 = 1 \<and> src_part o1 = Time_part t)"
  by (auto simp: time_src_def as_time_def src_type_defs split: option.splits src_part.splits)

lemma file_time_disjoint: "file_src s a \<Longrightarrow> \<not> time_src s a"
  by (auto simp: file_src_iff time_src_iff)

lemma srcs_inv_disjoint: "srcs_inv s Fs Ts \<Longrightarrow> set Fs \<inter> set Ts = {}"
  using file_time_disjoint by (auto simp: srcs_inv_def list_all_iff)

lemma srcs_inv_distinct: "srcs_inv s Fs Ts \<Longrightarrow> distinct Fs" "srcs_inv s Fs Ts \<Longrightarrow> distinct Ts"
  by (auto simp: srcs_inv_def dest: chain_distinct)

text \<open>Only the links and the list heads differ.\<close>

definition src_core :: "gwrlsrc \<Rightarrow> gwrlsrc" where
  "src_core o1 = o1\<lparr>src_next := None\<rparr>"

definition links_only :: "('b, 'z) world_scheme \<Rightarrow> ('b, 'z) world_scheme \<Rightarrow> bool" where
  "links_only s s' \<longleftrightarrow>
     s' = s\<lparr>srcs := srcs s', rl := (rl s)\<lparr>sources := sources (rl s')\<rparr>\<rparr> \<and>
     length (sources (rl s')) = length (sources (rl s)) \<and>
     (\<forall>a. map_option src_core (srcs s' a) = map_option src_core (srcs s a))"

lemma src_core_fields:
  "src_core o1 = src_core o2 \<Longrightarrow> src_type o1 = src_type o2"
  "src_core o1 = src_core o2 \<Longrightarrow> src_part o1 = src_part o2"
  "src_core o1 = src_core o2 \<Longrightarrow> src_flags o1 = src_flags o2"
  unfolding src_core_def by (metis gwrlsrc.select_convs gwrlsrc.update_convs(6) gwrlsrc.surjective)+

lemma src_core_next [simp]: "src_core (o1\<lparr>src_next := p\<rparr>) = src_core o1"
  by (simp add: src_core_def)

lemma links_only_kind:
  assumes "links_only s s'"
  shows "file_src s' a \<longleftrightarrow> file_src s a" "time_src s' a \<longleftrightarrow> time_src s a"
proof -
  have "map_option src_core (srcs s' a) = map_option src_core (srcs s a)"
    using assms by (simp add: links_only_def)
  then show "file_src s' a \<longleftrightarrow> file_src s a" "time_src s' a \<longleftrightarrow> time_src s a"
    by (cases "srcs s a"; cases "srcs s' a"; auto simp: file_src_iff time_src_iff dest: src_core_fields)+
qed

lemma links_only_fresh:
  assumes "links_only s s'" "fresh_ok s"
  shows "fresh_ok s'"
proof -
  have "evts s' = evts s" "brk s' = brk s"
    by (subst assms(1) [unfolded links_only_def, THEN conjunct1], simp)+
  moreover have "srcs s' a = None \<longleftrightarrow> srcs s a = None" for a
    using assms(1) unfolding links_only_def by (metis map_option_is_None)
  ultimately show ?thesis using assms(2) by (simp add: fresh_ok_def)
qed

subsection \<open>Linking and unlinking\<close>

definition set_next :: "ptr \<Rightarrow> addr \<Rightarrow> (addr \<rightharpoonup> gwrlsrc) \<Rightarrow> (addr \<rightharpoonup> gwrlsrc)" where
  "set_next p a m = m(a := map_option (\<lambda>o1. o1\<lparr>src_next := p\<rparr>) (m a))"

lemma set_next_nx [simp]:
  "map_option src_next \<circ> set_next p a m =
     (map_option src_next \<circ> m)(a := map_option (\<lambda>_. p) (m a))"
  by (auto simp: set_next_def fun_eq_iff option.map_comp o_def)

lemma set_next_core: "map_option src_core (set_next p a m b) = map_option src_core (m b)"
  by (simp add: set_next_def option.map_comp o_def)

lemma set_next_other [simp]: "b \<noteq> a \<Longrightarrow> set_next p a m b = m b"
  by (simp add: set_next_def)

lemma set_next_same [simp]: "m a = Some o1 \<Longrightarrow> set_next p a m a = Some (o1\<lparr>src_next := p\<rparr>)"
  by (simp add: set_next_def)

lemma src_del_search_cut:
  assumes "srcs s b = Some ob" "chain (src_nx s) (src_next ob) (zs @ a # ys)"
    and "distinct (b # zs @ a # ys)" "srcs s a = Some oa"
  shows "src_del_search h (Next_of b) (Some a) s =
    Some (s\<lparr>srcs := set_next None a (set_next (src_next oa) (last (b # zs)) (srcs s))\<rparr>)"
  using assms
proof (induction zs arbitrary: b ob)
  case Nil
  then show ?case
    by (auto simp: src_del_search.simps [of _ "Next_of b"] set_next_def fun_eq_iff
        intro!: world.equality)
next
  case (Cons z zs)
  from Cons.prems(2) obtain oz where oz: "src_next ob = Some z" "srcs s z = Some oz"
    "chain (src_nx s) (src_next oz) (zs @ a # ys)"
    by (auto simp: src_nx_iff)
  from Cons.prems(3) have "z \<noteq> a" "distinct (z # zs @ a # ys)" by auto
  with Cons.IH [OF oz(2,3)] Cons.prems oz show ?case
    by (simp add: src_del_search.simps [of _ "Next_of b"])
qed

text \<open>The list heads and links after \<open>a\<close>, which followed \<open>xs\<close>, has been taken out.\<close>

definition unlinked :: "nat \<Rightarrow> addr list \<Rightarrow> addr \<Rightarrow> ptr \<Rightarrow> ('b, 'z) world_scheme \<Rightarrow> ('b, 'z) world_scheme" where
  "unlinked ty xs a nxt s =
     (if xs = []
      then s\<lparr>srcs := set_next None a (srcs s), rl := (rl s)\<lparr>sources := (sources (rl s))[ty := nxt]\<rparr>\<rparr>
      else s\<lparr>srcs := set_next None a (set_next nxt (last xs) (srcs s))\<rparr>)"

lemma src_unlink_cut:
  assumes "ty < length (sources (rl s))" "chain (src_nx s) (sources (rl s) ! ty) (xs @ a # ys)"
    and "srcs s a = Some oa" "src_type oa = ty" "prev = None \<or> xs \<noteq> [] \<and> prev = Some (last xs)"
  shows "src_unlink (Some a) prev s = Some (unlinked ty xs a (src_next oa) s)"
proof (cases xs)
  case Nil
  with assms show ?thesis
    by (simp add: src_unlink_def nth_opt_def set_sources_def unlinked_def set_next_def)
next
  case (Cons x zs)
  have d: "distinct (xs @ a # ys)" by (rule chain_distinct [OF assms(2)])
  from assms(2) Cons obtain ox where ox: "sources (rl s) ! ty = Some x" "srcs s x = Some ox"
    "chain (src_nx s) (src_next ox) (zs @ a # ys)"
    by (auto simp: src_nx_iff)
  have ne: "last xs \<noteq> a" "x \<noteq> a" using d Cons by auto
  have "last xs \<in> set (xs @ a # ys)" using Cons by simp
  from seg_alloc [OF assms(2) this] obtain ol where ol: "srcs s (last xs) = Some ol"
    unfolding src_nx_iff by blast
  show ?thesis
  proof (cases prev)
    case None
    then show ?thesis
      using assms(1,3,4) ox ne d Cons src_del_search_cut [OF ox(2,3) _ assms(3), of "Some x"]
      by (simp add: src_unlink_def nth_opt_def unlinked_def src_del_search.simps [of _ Local_head])
  next
    case (Some b)
    with assms Cons have "b = last xs" by auto
    then show ?thesis
      using Some assms(1,3,4) ol ne Cons
      by (simp add: src_unlink_def nth_opt_def unlinked_def set_next_def fun_upd_twist)
  qed
qed

lemma unlinked_links_only:
  assumes "ty < length (sources (rl s))"
  shows "links_only s (unlinked ty xs a nxt s)"
  using assms by (auto simp: links_only_def unlinked_def set_next_core)

lemma unlinked_chain:
  assumes "ty < length (sources (rl s))" "chain (src_nx s) (sources (rl s) ! ty) (xs @ a # ys)"
    and "srcs s a = Some oa"
  shows "chain (src_nx (unlinked ty xs a (src_next oa) s))
     (sources (rl (unlinked ty xs a (src_next oa) s)) ! ty) (xs @ ys)"
proof (cases xs rule: rev_cases)
  case Nil
  with assms chain_tail_notin [of "src_nx s" _ a ys] show ?thesis
    by (simp add: unlinked_def src_nx_srcs)
next
  case (snoc zs x)
  have d: "distinct (zs @ x # a # ys)" using chain_distinct [OF assms(2)] snoc by simp
  from assms(2) snoc obtain r where r: "seg (src_nx s) (sources (rl s) ! ty) zs (Some x)"
    "src_nx s x = Some (Some a)" "chain (src_nx s) (src_next oa) ys"
    by (auto simp: seg_append src_nx_iff assms(3))
  with d snoc show ?thesis
    by (auto simp: unlinked_def src_nx_srcs seg_append intro!: exI [of _ "Some x"])
qed

lemma unlinked_other_chain:
  assumes "chain (src_nx s) (sources (rl s) ! ty') L" "ty' \<noteq> ty" "a \<notin> set L"
    and "xs \<noteq> [] \<longrightarrow> last xs \<notin> set L"
  shows "chain (src_nx (unlinked ty xs a nxt s)) (sources (rl (unlinked ty xs a nxt s)) ! ty') L"
  using assms by (simp add: unlinked_def src_nx_srcs)

lemma unlinked_self: "srcs s a = Some oa \<Longrightarrow> xs = [] \<or> last xs \<noteq> a \<Longrightarrow>
    srcs (unlinked ty xs a nxt s) a = Some (oa\<lparr>src_next := None\<rparr>)"
  by (auto simp: unlinked_def)

lemma unlinked_other: "b \<noteq> a \<Longrightarrow> xs = [] \<or> last xs \<noteq> b \<Longrightarrow> srcs (unlinked ty xs a nxt s) b = srcs s b"
  by (auto simp: unlinked_def)

lemma srcs_invD:
  assumes "srcs_inv s Fs Ts"
  shows "length (sources (rl s)) = 2" "chain (src_nx s) (sources (rl s) ! 0) Fs"
    "chain (src_nx s) (sources (rl s) ! 1) Ts" "fresh_ok s"
    "\<And>a. a \<in> set Fs \<Longrightarrow> file_src s a" "\<And>a. a \<in> set Ts \<Longrightarrow> time_src s a"
  using assms by (simp_all add: srcs_inv_def src_type_defs list_all_iff)

lemma srcs_invI:
  assumes "length (sources (rl s)) = 2" "chain (src_nx s) (sources (rl s) ! 0) Fs"
    "chain (src_nx s) (sources (rl s) ! 1) Ts" "fresh_ok s"
    "\<And>a. a \<in> set Fs \<Longrightarrow> file_src s a" "\<And>a. a \<in> set Ts \<Longrightarrow> time_src s a"
  shows "srcs_inv s Fs Ts"
  using assms by (simp add: srcs_inv_def src_type_defs list_all_iff)

lemma srcs_inv_links:
  assumes "srcs_inv s Fs Ts" "links_only s s'"
    and "chain (src_nx s') (sources (rl s') ! 0) Fs'" "chain (src_nx s') (sources (rl s') ! 1) Ts'"
    and "\<And>a. a \<in> set Fs' \<Longrightarrow> file_src s a" "\<And>a. a \<in> set Ts' \<Longrightarrow> time_src s a"
  shows "srcs_inv s' Fs' Ts'"
proof -
  have "length (sources (rl s')) = length (sources (rl s))"
    using assms(2) by (simp add: links_only_def)
  with assms show ?thesis
    by (intro srcs_invI) (simp_all add: links_only_kind links_only_fresh srcs_invD)
qed

lemma srcs_inv_unlink_file:
  assumes "srcs_inv s (xs @ a # ys) Ts" "srcs s a = Some oa"
  shows "srcs_inv (unlinked 0 xs a (src_next oa) s) (xs @ ys) Ts"
proof (rule srcs_inv_links [OF assms(1)])
  note i = srcs_invD [OF assms(1)]
  have d: "set (xs @ a # ys) \<inter> set Ts = {}" by (rule srcs_inv_disjoint [OF assms(1)])
  show "links_only s (unlinked 0 xs a (src_next oa) s)"
    by (rule unlinked_links_only) (simp add: i(1))
  show "chain (src_nx (unlinked 0 xs a (src_next oa) s))
      (sources (rl (unlinked 0 xs a (src_next oa) s)) ! 0) (xs @ ys)"
    by (rule unlinked_chain [OF _ _ assms(2)]) (simp_all add: i)
  show "chain (src_nx (unlinked 0 xs a (src_next oa) s))
      (sources (rl (unlinked 0 xs a (src_next oa) s)) ! 1) Ts"
    by (rule unlinked_other_chain [OF i(3)]) (use d in \<open>auto dest: last_in_set\<close>)
  show "file_src s b" if "b \<in> set (xs @ ys)" for b using i(5) that by simp
  show "time_src s b" if "b \<in> set Ts" for b using i(6) that by simp
qed

lemma srcs_inv_unlink_time:
  assumes "srcs_inv s Fs (xs @ a # ys)" "srcs s a = Some oa"
  shows "srcs_inv (unlinked 1 xs a (src_next oa) s) Fs (xs @ ys)"
proof (rule srcs_inv_links [OF assms(1)])
  note i = srcs_invD [OF assms(1)]
  have d: "set Fs \<inter> set (xs @ a # ys) = {}" by (rule srcs_inv_disjoint [OF assms(1)])
  show "links_only s (unlinked 1 xs a (src_next oa) s)"
    by (rule unlinked_links_only) (simp add: i(1))
  show "chain (src_nx (unlinked 1 xs a (src_next oa) s))
      (sources (rl (unlinked 1 xs a (src_next oa) s)) ! 1) (xs @ ys)"
    by (rule unlinked_chain [OF _ _ assms(2)]) (use i(1,3) in simp_all)
  show "chain (src_nx (unlinked 1 xs a (src_next oa) s))
      (sources (rl (unlinked 1 xs a (src_next oa) s)) ! 0) Fs"
    by (rule unlinked_other_chain [OF i(2)]) (use d in \<open>auto dest: last_in_set\<close>)
  show "file_src s b" if "b \<in> set Fs" for b using i(5) that by simp
  show "time_src s b" if "b \<in> set (xs @ ys)" for b using i(6) that by simp
qed

text \<open>A source put in front of its list.\<close>

definition pushed :: "nat \<Rightarrow> addr \<Rightarrow> ('b, 'z) world_scheme \<Rightarrow> ('b, 'z) world_scheme" where
  "pushed ty a s = s\<lparr>srcs := set_next (sources (rl s) ! ty) a (srcs s),
     rl := (rl s)\<lparr>sources := (sources (rl s))[ty := Some a]\<rparr>\<rparr>"

lemma src_add_pushed:
  assumes "srcs s a = Some oa" "src_type oa < length (sources (rl s))"
    and "sources (rl s) ! src_type oa = None \<longrightarrow> src_next oa = None"
  shows "gwrl_src_add ops (Some a) s =
    (if src_type oa = GWRL_SRC_TYPE_FILE then op_src_add ops (Some a) (pushed (src_type oa) a s)
     else Some (pushed (src_type oa) a s))"
proof (cases "sources (rl s) ! src_type oa")
  case None
  with assms have "set_next None a (srcs s) = srcs s"
    by (auto simp: set_next_def fun_eq_iff)
  with None assms show ?thesis
    by (auto simp: gwrl_src_add_def nth_opt_def set_sources_def pushed_def)
next
  case (Some h)
  with assms show ?thesis
    by (auto simp: gwrl_src_add_def nth_opt_def set_sources_def pushed_def set_next_def)
qed

lemma pushed_links_only: "ty < length (sources (rl s)) \<Longrightarrow> links_only s (pushed ty a s)"
  by (auto simp: links_only_def pushed_def set_next_core)

lemma srcs_inv_push_time:
  assumes "srcs_inv s Fs Ts" "time_src s a" "a \<notin> set Ts"
  shows "srcs_inv (pushed 1 a s) Fs (a # Ts)"
proof (rule srcs_inv_links [OF assms(1)])
  note i = srcs_invD [OF assms(1)]
  have n: "a \<notin> set Fs" using i(5) assms(2) file_time_disjoint by blast
  show "links_only s (pushed 1 a s)" by (rule pushed_links_only) (simp add: i(1))
  show "chain (src_nx (pushed 1 a s)) (sources (rl (pushed 1 a s)) ! 0) (Fs)"
    "chain (src_nx (pushed 1 a s)) (sources (rl (pushed 1 a s)) ! 1) (a # Ts)"
    using i(1-3) n assms(2,3) by (auto simp: pushed_def src_nx_srcs time_src_iff)
  show "file_src s b" if "b \<in> set (Fs)" for b using i(5) assms(2) that by auto
  show "time_src s b" if "b \<in> set (a # Ts)" for b using i(6) assms(2) that by auto
qed

lemma srcs_inv_push_file:
  assumes "srcs_inv s Fs Ts" "file_src s a" "a \<notin> set Fs"
  shows "srcs_inv (pushed 0 a s) (a # Fs) Ts"
proof (rule srcs_inv_links [OF assms(1)])
  note i = srcs_invD [OF assms(1)]
  have n: "a \<notin> set Ts" using i(6) assms(2) file_time_disjoint by blast
  show "links_only s (pushed 0 a s)" by (rule pushed_links_only) (simp add: i(1))
  show "chain (src_nx (pushed 0 a s)) (sources (rl (pushed 0 a s)) ! 0) (a # Fs)"
    "chain (src_nx (pushed 0 a s)) (sources (rl (pushed 0 a s)) ! 1) (Ts)"
    using i(1-3) n assms(2,3) by (auto simp: pushed_def src_nx_srcs file_src_iff)
  show "file_src s b" if "b \<in> set (a # Fs)" for b using i(5) assms(2) that by auto
  show "time_src s b" if "b \<in> set (Ts)" for b using i(6) assms(2) that by auto
qed

subsection \<open>The contract of a backend\<close>

text \<open>What a backend leaves alone: everything but its own part of the reactor and \<^verbatim>\<open>pfd\<close>.\<close>

definition src_nopfd :: "gwrlsrc \<Rightarrow> gwrlsrc" where
  "src_nopfd o1 = (case src_part o1 of
     File_part f \<Rightarrow> o1\<lparr>src_part := File_part (f\<lparr>file_pfd := None\<rparr>)\<rparr> | Time_part _ \<Rightarrow> o1)"

definition bkd_frame :: "('b, 'z) world_scheme \<Rightarrow> ('b, 'z) world_scheme \<Rightarrow> bool" where
  "bkd_frame s s' \<longleftrightarrow>
     s' = s\<lparr>srcs := srcs s', brk := brk s', oom := oom s', errs := errs s', calls := calls s',
            errno := errno s', rl := (rl s)\<lparr>backend := backend (rl s')\<rparr>\<rparr> \<and>
     brk s \<le> brk s' \<and> (\<forall>a. map_option src_nopfd (srcs s' a) = map_option src_nopfd (srcs s a))"

definition src_fd :: "('b, 'z) world_scheme \<Rightarrow> addr \<Rightarrow> int" where
  "src_fd s a = (case Option.bind (srcs s a) as_file of None \<Rightarrow> 0 | Some f \<Rightarrow> file_fd f)"

definition src_fl :: "('b, 'z) world_scheme \<Rightarrow> addr \<Rightarrow> flags8" where
  "src_fl s a = (case srcs s a of None \<Rightarrow> 0 | Some o1 \<Rightarrow> src_flags o1)"

definition mod_src :: "(gwrlsrc \<Rightarrow> gwrlsrc) \<Rightarrow> addr \<Rightarrow> ('b, 'z) world_scheme \<Rightarrow> ('b, 'z) world_scheme" where
  "mod_src f a s = s\<lparr>srcs := (srcs s)(a := map_option f (srcs s a))\<rparr>"

lemma src_nopfd_fields:
  assumes "src_nopfd o1 = src_nopfd o2"
  shows "src_type o1 = src_type o2" "src_next o1 = src_next o2" "src_flags o1 = src_flags o2"
    "src_callback o1 = src_callback o2" "src_userdata o1 = src_userdata o2"
    "(\<exists>f. src_part o1 = File_part f) \<longleftrightarrow> (\<exists>f. src_part o2 = File_part f)"
    "(\<exists>t. src_part o1 = Time_part t) \<longleftrightarrow> (\<exists>t. src_part o2 = Time_part t)"
  using assms
  by (cases o1; cases o2; auto simp: src_nopfd_def split: src_part.splits)+

lemma bkd_frame_kind:
  assumes "bkd_frame s s'"
  shows "file_src s' a \<longleftrightarrow> file_src s a" "time_src s' a \<longleftrightarrow> time_src s a" "src_nx s' a = src_nx s a"
proof -
  have "map_option src_nopfd (srcs s' a) = map_option src_nopfd (srcs s a)"
    using assms by (simp add: bkd_frame_def)
  then show "file_src s' a \<longleftrightarrow> file_src s a" "time_src s' a \<longleftrightarrow> time_src s a" "src_nx s' a = src_nx s a"
    by (cases "srcs s a"; cases "srcs s' a"; auto simp: file_src_iff time_src_iff src_nx_def
        dest: src_nopfd_fields)+
qed

lemma src_nopfd_fd:
  assumes "src_nopfd o1 = src_nopfd o2"
  shows "map_option file_fd (as_file o1) = map_option file_fd (as_file o2)"
proof -
  have k: "f = g \<Longrightarrow> file_fd f = file_fd g" for f g :: gwrlsrc_file by simp
  have "src_part (src_nopfd o1) = src_part (src_nopfd o2)" using assms by simp
  then show ?thesis
    by (cases "src_part o1"; cases "src_part o2")
       (auto simp: src_nopfd_def as_file_def dest: k)
qed

lemma bkd_frame_flags:
  assumes "bkd_frame s s'"
  shows "src_fl s' a = src_fl s a" "src_fd s' a = src_fd s a"
proof -
  have n: "map_option src_nopfd (srcs s' a) = map_option src_nopfd (srcs s a)"
    using assms by (simp add: bkd_frame_def)
  have "src_fl s' a = src_fl s a \<and> src_fd s' a = src_fd s a"
  proof (cases "srcs s a")
    case None
    with n show ?thesis by (simp add: src_fl_def src_fd_def)
  next
    case (Some o1)
    with n obtain o2 where o2: "srcs s' a = Some o2" "src_nopfd o2 = src_nopfd o1" by auto
    have "src_flags o2 = src_flags o1" by (rule src_nopfd_fields(3) [OF o2(2)])
    moreover have "(case as_file o2 of None \<Rightarrow> 0 | Some f \<Rightarrow> file_fd f) = (case as_file o1 of None \<Rightarrow> 0 | Some f \<Rightarrow> file_fd f)"
      using src_nopfd_fd [OF o2(2)] by (cases "as_file o1"; cases "as_file o2") simp_all
    ultimately show ?thesis using Some o2(1) by (simp add: src_fl_def src_fd_def)
  qed
  then show "src_fl s' a = src_fl s a" "src_fd s' a = src_fd s a" by simp_all
qed

lemma bkd_frameD:
  assumes "bkd_frame s s'"
  shows "evts s' = evts s" "sources (rl s') = sources (rl s)" "events (rl s') = events (rl s)"
    "cevents (rl s') = cevents (rl s)" "ncevents (rl s') = ncevents (rl s)"
    "options (rl s') = options (rl s)" "rl_flags (rl s') = rl_flags (rl s)"
    "timeout (rl s') = timeout (rl s)" "brk s \<le> brk s'" "evt_nx s' = evt_nx s"
proof -
  note e = assms [unfolded bkd_frame_def, THEN conjunct1]
  show "evts s' = evts s" "sources (rl s') = sources (rl s)" "events (rl s') = events (rl s)"
    "cevents (rl s') = cevents (rl s)" "ncevents (rl s') = ncevents (rl s)"
    "options (rl s') = options (rl s)" "rl_flags (rl s') = rl_flags (rl s)"
    "timeout (rl s') = timeout (rl s)"
    by (subst e, simp)+
  then show "evt_nx s' = evt_nx s" by (simp add: evt_nx_evts)
  show "brk s \<le> brk s'" using assms by (simp add: bkd_frame_def)
qed

lemma bkd_frame_trans:
  assumes "bkd_frame s t" "bkd_frame t u"
  shows "bkd_frame s u"
proof -
  have "u = t\<lparr>srcs := srcs u, brk := brk u, oom := oom u, errs := errs u, calls := calls u,
      errno := errno u, rl := (rl t)\<lparr>backend := backend (rl u)\<rparr>\<rparr>"
    using assms(2) unfolding bkd_frame_def by blast
  also have "\<dots> = s\<lparr>srcs := srcs u, brk := brk u, oom := oom u, errs := errs u, calls := calls u,
      errno := errno u, rl := (rl s)\<lparr>backend := backend (rl u)\<rparr>\<rparr>"
    by (subst assms(1) [unfolded bkd_frame_def, THEN conjunct1],
        subst (2) assms(1) [unfolded bkd_frame_def, THEN conjunct1]) simp
  finally show ?thesis using assms by (simp add: bkd_frame_def)
qed

lemma bkd_frame_fresh:
  assumes "bkd_frame s s'" "fresh_ok s"
  shows "fresh_ok s'"
proof -
  have "srcs s' a = None \<longleftrightarrow> srcs s a = None" for a
    using assms(1) unfolding bkd_frame_def by (metis map_option_is_None)
  with assms bkd_frameD(1,9) [OF assms(1)] show ?thesis
    by (simp add: fresh_ok_def)
qed

lemma bkd_frame_srcs_inv:
  assumes "bkd_frame s s'" "srcs_inv s Fs Ts"
  shows "srcs_inv s' Fs Ts"
proof -
  have "src_nx s' = src_nx s" using bkd_frame_kind(3) [OF assms(1)] by blast
  with assms show ?thesis
    by (intro srcs_invI) (simp_all only: bkd_frameD(2) bkd_frame_kind bkd_frame_fresh srcs_invD)
qed

lemma free_unlisted:
  assumes "srcs_inv s Fs Ts" "a \<notin> set Fs" "a \<notin> set Ts"
  shows "srcs_inv (s\<lparr>srcs := (srcs s)(a := None)\<rparr>) Fs Ts"
proof -
  have "file_src (s\<lparr>srcs := (srcs s)(a := None)\<rparr>) b \<longleftrightarrow> file_src s b \<and> b \<noteq> a"
    "time_src (s\<lparr>srcs := (srcs s)(a := None)\<rparr>) b \<longleftrightarrow> time_src s b \<and> b \<noteq> a" for b
    by (auto simp: file_src_iff time_src_iff)
  with srcs_invD [OF assms(1)] assms(2,3) show ?thesis
    by (intro srcs_invI) (auto simp: src_nx_srcs fresh_ok_def)
qed

lemma mod_src_frame:
  assumes "\<And>o1. src_type (f o1) = src_type o1" "\<And>o1. src_part (f o1) = src_part o1"
    and "\<And>o1. src_next (f o1) = src_next o1" "srcs_inv s Fs Ts"
  shows "srcs_inv (mod_src f a s) Fs Ts"
proof -
  have k: "file_src (mod_src f a s) b \<longleftrightarrow> file_src s b" "time_src (mod_src f a s) b \<longleftrightarrow> time_src s b" for b
    using assms(1,2) by (auto simp: mod_src_def file_src_iff time_src_iff)
  have "src_nx (mod_src f a s) = src_nx s"
    using assms(3) by (auto simp: mod_src_def src_nx_def fun_eq_iff option.map_comp o_def)
  moreover have "fresh_ok (mod_src f a s)"
    using srcs_invD(4) [OF assms(4)] by (simp add: fresh_ok_def mod_src_def)
  ultimately show ?thesis
    using srcs_invD [OF assms(4)] by (intro srcs_invI) (simp_all add: k, simp_all add: mod_src_def)
qed

lemma mod_src_same [simp]: "mod_src (\<lambda>o1. o1\<lparr>src_flags := src_fl s a\<rparr>) a s = s"
  by (cases "srcs s a") (simp_all add: mod_src_def src_fl_def fun_upd_idem)

locale source_backend =
  fixes ops :: "('b, 'z) world_scheme src_ops"
    and fd_ok :: "int \<Rightarrow> bool"
    and tracks :: "('b, 'z) world_scheme \<Rightarrow> addr set \<Rightarrow> bool"
  assumes tracks_cong: "backend (rl s') = backend (rl s) \<Longrightarrow> calls s' = calls s \<Longrightarrow>
      \<forall>a \<in> A. map_option src_core (srcs s' a) = map_option src_core (srcs s a) \<Longrightarrow>
      tracks s A \<Longrightarrow> tracks s' A"
    and add_law: "srcs_inv s (a # Fs) Ts \<Longrightarrow> tracks s (set Fs) \<Longrightarrow> fd_ok (src_fd s a) \<Longrightarrow>
      src_fd s a \<notin> src_fd s ` set Fs \<Longrightarrow>
      \<exists>s'. op_src_add ops (Some a) s = Some s' \<and> bkd_frame s s' \<and> tracks s' (set (a # Fs))"
    and del_law: "srcs_inv s Fs Ts \<Longrightarrow> file_src s a \<Longrightarrow> a \<notin> set Fs \<Longrightarrow> tracks s (insert a (set Fs)) \<Longrightarrow>
      \<exists>s' fl. op_del_src ops (Some a) s = Some s' \<and>
        bkd_frame (mod_src (\<lambda>o1. o1\<lparr>src_flags := fl\<rparr>) a s) s' \<and> tracks s' (set Fs)"
    and enable_law: "srcs_inv s Fs Ts \<Longrightarrow> a \<in> set Fs \<Longrightarrow> tracks s (set Fs) \<Longrightarrow>
      t = mod_src (src_flset GWRL_ENABLED) a s \<Longrightarrow>
      \<exists>s'. op_enable_src ops (Some a) t = Some s' \<and> bkd_frame t s' \<and> tracks s' (set Fs)"
    and disable_law: "srcs_inv s Fs Ts \<Longrightarrow> a \<in> set Fs \<Longrightarrow> tracks s (set Fs) \<Longrightarrow>
      t = mod_src (src_flclr GWRL_ENABLED) a s \<Longrightarrow>
      \<exists>s'. op_disable_src ops (Some a) t = Some s' \<and> bkd_frame t s' \<and> tracks s' (set Fs)"
begin

lemma links_law:
  assumes "links_only s s'" "tracks s A"
  shows "tracks s' A"
proof (rule tracks_cong [OF _ _ _ assms(2)])
  show "backend (rl s') = backend (rl s)" "calls s' = calls s"
    by (subst assms(1) [unfolded links_only_def, THEN conjunct1], simp)+
  show "\<forall>a \<in> A. map_option src_core (srcs s' a) = map_option src_core (srcs s a)"
    using assms(1) by (simp add: links_only_def)
qed

lemma add_file:
  assumes "srcs_inv s Fs Ts" "tracks s (set Fs)" "file_src s a" "a \<notin> set Fs"
    and "\<exists>oa. srcs s a = Some oa \<and> src_next oa = None"
    and "fd_ok (src_fd s a)" "src_fd s a \<notin> src_fd s ` set Fs"
  shows "\<exists>s'. gwrl_src_add ops (Some a) s = Some s' \<and> bkd_frame (pushed 0 a s) s' \<and>
    srcs_inv s' (a # Fs) Ts \<and> tracks s' (set (a # Fs))"
proof -
  from assms(3,5) obtain oa where oa: "srcs s a = Some oa" "src_type oa = 0" "src_next oa = None"
    by (auto simp: file_src_iff)
  let ?t = "pushed 0 a s"
  have lo: "links_only s ?t" using srcs_invD(1) [OF assms(1)] by (intro pushed_links_only) simp
  have fd: "src_fd ?t b = src_fd s b" for b
    using oa(1) by (simp add: src_fd_def pushed_def set_next_def as_file_def)
  have i: "srcs_inv ?t (a # Fs) Ts" by (rule srcs_inv_push_file [OF assms(1,3,4)])
  have "gwrl_src_add ops (Some a) s = op_src_add ops (Some a) ?t"
    using src_add_pushed [OF oa(1), of ops] oa srcs_invD(1) [OF assms(1)] by (simp add: src_type_defs)
  moreover obtain s' where "op_src_add ops (Some a) ?t = Some s'" "bkd_frame ?t s'"
    "tracks s' (set (a # Fs))"
    using add_law [OF i links_law [OF lo assms(2)]] assms(6,7) fd by (auto simp: image_iff)
  ultimately show ?thesis
    using bkd_frame_srcs_inv [OF _ i] by (intro exI [of _ s']) simp
qed

lemma del_file:
  assumes "srcs_inv s (xs @ a # ys) Ts" "tracks s (set (xs @ a # ys))"
    and "prev = None \<or> xs \<noteq> [] \<and> prev = Some (last xs)"
  shows "\<exists>s'. gwrl_src_del ops (Some a) prev freesrc s = Some s' \<and>
    srcs_inv s' (xs @ ys) Ts \<and> tracks s' (set (xs @ ys)) \<and> (srcs s' a = None \<longleftrightarrow> freesrc) \<and>
    evts s' = evts s \<and> world.more s' = world.more s"
proof -
  note i = srcs_invD [OF assms(1)]
  have "file_src s a" by (rule i(5)) simp
  then obtain oa where oa: "srcs s a = Some oa" "src_type oa = 0" by (auto simp: file_src_iff)
  let ?u = "unlinked 0 xs a (src_next oa) s"
  have u: "src_unlink (Some a) prev s = Some ?u"
    by (rule src_unlink_cut) (use i assms(3) oa in simp_all)
  have lo: "links_only s ?u" using i(1) by (intro unlinked_links_only) simp
  have iu: "srcs_inv ?u (xs @ ys) Ts" by (rule srcs_inv_unlink_file [OF assms(1) oa(1)])
  have d: "distinct (xs @ a # ys)" by (rule srcs_inv_distinct(1) [OF assms(1)])
  have "xs \<noteq> [] \<longrightarrow> last xs \<in> set xs" by simp
  with d have ne: "xs = [] \<or> last xs \<noteq> a" by auto
  have "tracks ?u (insert a (set (xs @ ys)))" using links_law [OF lo assms(2)] by (simp add: insert_commute)
  then obtain t fl where t0: "op_del_src ops (Some a) ?u = Some t"
    "bkd_frame (mod_src (\<lambda>o1. o1\<lparr>src_flags := fl\<rparr>) a ?u) t" "tracks t (set (xs @ ys))"
    using del_law [OF iu, of a] d \<open>file_src s a\<close> links_only_kind(1) [OF lo] by auto
  let ?m = "mod_src (\<lambda>o1. o1\<lparr>src_flags := fl\<rparr>) a ?u"
  have t: "op_del_src ops (Some a) ?u = Some t" "bkd_frame ?m t" "tracks t (set (xs @ ys))"
    by (rule t0)+
  have im: "srcs_inv ?m (xs @ ys) Ts" by (rule mod_src_frame [OF _ _ _ iu]) simp_all
  have au: "srcs ?u a = Some (oa\<lparr>src_next := None\<rparr>)" by (rule unlinked_self [OF oa(1) ne])
  have "file_src ?m a" using au oa \<open>file_src s a\<close> by (simp add: mod_src_def file_src_iff)
  then have "file_src t a" using bkd_frame_kind(1) [OF t(2)] by simp
  then obtain ot where "srcs t a = Some ot" by (auto simp: file_src_iff)
  with u t au oa have r: "gwrl_src_del ops (Some a) prev freesrc s =
      Some (if freesrc then t\<lparr>srcs := (srcs t)(a := None)\<rparr> else t)"
    by (simp add: gwrl_src_del_def src_type_defs)
  have it: "srcs_inv t (xs @ ys) Ts" by (rule bkd_frame_srcs_inv [OF t(2) im])
  have na: "a \<notin> set (xs @ ys)" "a \<notin> set Ts"
    using d srcs_inv_disjoint [OF assms(1)] by auto
  have fr: "evts t = evts s" "world.more t = world.more s"
    by (subst t(2) [unfolded bkd_frame_def, THEN conjunct1], simp add: mod_src_def unlinked_def)+
  show ?thesis
  proof (cases freesrc)
    case True
    let ?f = "t\<lparr>srcs := (srcs t)(a := None)\<rparr>"
    have "tracks ?f (set (xs @ ys))" by (rule tracks_cong [OF _ _ _ t(3)]) (use na in auto)
    with r True free_unlisted [OF it na] fr show ?thesis by simp
  next
    case False
    with r it t(3) fr \<open>srcs t a = Some ot\<close> show ?thesis by simp
  qed
qed

lemma enable_file:
  assumes "srcs_inv s Fs Ts" "tracks s (set Fs)" "a \<in> set Fs"
  shows "\<exists>s'. gwrl_src_enable ops (Some a) s = Some s' \<and>
    bkd_frame (mod_src (src_flset GWRL_ENABLED) a s) s' \<and> srcs_inv s' Fs Ts \<and> tracks s' (set Fs)"
proof -
  let ?t = "mod_src (src_flset GWRL_ENABLED) a s"
  from srcs_invD(5) [OF assms(1,3)] obtain oa where oa: "srcs s a = Some oa" "src_type oa = 0"
    by (auto simp: file_src_iff)
  have "srcs_inv ?t Fs Ts" by (rule mod_src_frame [OF _ _ _ assms(1)]) (simp_all add: src_flset_def)
  moreover obtain s' where "op_enable_src ops (Some a) ?t = Some s'" "bkd_frame ?t s'" "tracks s' (set Fs)"
    using enable_law [OF assms(1,3,2) refl] by blast
  moreover have "gwrl_src_enable ops (Some a) s = op_enable_src ops (Some a) ?t"
    using oa by (simp add: gwrl_src_enable_def mod_src_def src_flset_def src_type_defs)
  ultimately show ?thesis using bkd_frame_srcs_inv by auto
qed

lemma disable_file:
  assumes "srcs_inv s Fs Ts" "tracks s (set Fs)" "a \<in> set Fs"
  shows "\<exists>s'. gwrl_src_disable ops (Some a) s = Some s' \<and>
    bkd_frame (mod_src (src_flclr GWRL_ENABLED) a s) s' \<and> srcs_inv s' Fs Ts \<and> tracks s' (set Fs)"
proof -
  let ?t = "mod_src (src_flclr GWRL_ENABLED) a s"
  from srcs_invD(5) [OF assms(1,3)] obtain oa where oa: "srcs s a = Some oa" "src_type oa = 0"
    by (auto simp: file_src_iff)
  have "srcs_inv ?t Fs Ts" by (rule mod_src_frame [OF _ _ _ assms(1)]) (simp_all add: src_flclr_def)
  moreover obtain s' where "op_disable_src ops (Some a) ?t = Some s'" "bkd_frame ?t s'" "tracks s' (set Fs)"
    using disable_law [OF assms(1,3,2) refl] by blast
  moreover have "gwrl_src_disable ops (Some a) s = op_disable_src ops (Some a) ?t"
    using oa by (simp add: gwrl_src_disable_def mod_src_def src_flclr_def src_type_defs)
  ultimately show ?thesis using bkd_frame_srcs_inv by auto
qed

end

text \<open>A backend that also changes the flags of a registered source without losing track of it.\<close>

locale reactor_backend = source_backend +
  assumes update_law: "srcs_inv s Fs Ts \<Longrightarrow> a \<in> set Fs \<Longrightarrow> tracks s (set Fs) \<Longrightarrow>
      flisset fl GWRL_ENABLED = flisset (src_fl s a) GWRL_ENABLED \<Longrightarrow>
      t = mod_src (\<lambda>o1. o1\<lparr>src_flags := fl\<rparr>) a s \<Longrightarrow>
      \<exists>s'. op_update_flags ops (Some a) fl s = Some s' \<and> bkd_frame t s' \<and> tracks s' (set Fs)"
begin

lemma update_file:
  assumes "srcs_inv s Fs Ts" "tracks s (set Fs)" "a \<in> set Fs"
    and "flisset fl GWRL_ENABLED = flisset (src_fl s a) GWRL_ENABLED"
  shows "\<exists>s'. op_update_flags ops (Some a) fl s = Some s' \<and> src_fl s' a = fl \<and>
    bkd_frame (mod_src (\<lambda>o1. o1\<lparr>src_flags := fl\<rparr>) a s) s' \<and> srcs_inv s' Fs Ts \<and> tracks s' (set Fs)"
proof -
  let ?t = "mod_src (\<lambda>o1. o1\<lparr>src_flags := fl\<rparr>) a s"
  have "srcs_inv ?t Fs Ts" by (rule mod_src_frame [OF _ _ _ assms(1)]) simp_all
  moreover obtain s' where s': "op_update_flags ops (Some a) fl s = Some s'" "bkd_frame ?t s'" "tracks s' (set Fs)"
    using update_law [OF assms(1,3,2,4) refl] by blast
  moreover obtain oa where "srcs s a = Some oa" using srcs_invD(5) [OF assms(1,3)] by (auto simp: file_src_iff)
  then have "src_fl ?t a = fl" by (simp add: mod_src_def src_fl_def)
  then have "src_fl s' a = fl" using bkd_frame_flags [OF s'(2)] by simp
  ultimately show ?thesis using bkd_frame_srcs_inv by auto
qed

end

subsection \<open>Timers\<close>

definition timer_flags :: "bool \<Rightarrow> bool \<Rightarrow> bool \<Rightarrow> flags8" where
  "timer_flags persist repeat absolute =
     (if persist then GWRL_PERSIST else 0) OR (if repeat then GWRL_REPEAT else 0) OR GWRL_ENABLED
       OR (if absolute then GWRL_WHENCE_ABS else 0)"

definition timer_src ::
    "int \<Rightarrow> flags8 \<Rightarrow> timespec \<Rightarrow> fnptr option \<Rightarrow> ptr \<Rightarrow> ptr \<Rightarrow> gwrlsrc" where
  "timer_src ms fl w callback userdata nxt =
     \<lparr>src_type = GWRL_SRC_TYPE_TIME, src_tag = 0, src_flags = fl, src_userdata = userdata,
      src_callback = callback, src_next = nxt, src_part = Time_part \<lparr>time_ms = ms, time_when = w\<rparr>\<rparr>"

text \<open>The deadline a new timer starts with: none yet, or the absolute date.\<close>

definition first_when :: "int \<Rightarrow> int \<Rightarrow> timespec" where
  "first_when whence ms =
     (if whence = GWRL_ABS then \<lparr>ts_sec = ms sdiv 1000, ts_nsec = 1000000 * (ms smod 1000)\<rparr> else no_time)"

lemma time_create_calloc:
  assumes "int64_range ms" "whence = GWRL_NOW \<or> whence = GWRL_ABS"
  shows "gwrl_src_time_create ms repeat whence persist cb ud s =
    (case calloc s of
       (None, t) \<Rightarrow> Some (None, gwerr ''5Gn3K'' t)
     | (Some a, t) \<Rightarrow> Some (Some a, t\<lparr>srcs := (srcs t)(a \<mapsto>
         timer_src ms (timer_flags persist (repeat \<and> whence \<noteq> GWRL_ABS) (whence = GWRL_ABS))
           (first_when whence ms) cb ud None)\<rparr>))"
proof -
  have "GWRL_NOW \<noteq> GWRL_ABS" by (simp add: GWRL_NOW_def GWRL_ABS_def)
  with assms show ?thesis
    by (auto simp: gwrl_src_time_create_def calloc_src_def zero_src_def zero_time_part_def
        set_time_ms_def src_flset_def set_when_def timer_src_def timer_flags_def first_when_def
        flset_def ms_to_timespec_value or.assoc split: prod.splits option.splits)
qed

lemma srcs_inv_brk: "srcs_inv s Fs Ts \<Longrightarrow> brk s \<notin> set Fs" "srcs_inv s Fs Ts \<Longrightarrow> brk s \<notin> set Ts"
  using srcs_invD(4-6) by (fastforce simp: fresh_ok_def file_src_iff time_src_iff)+

lemma srcs_inv_alloc:
  assumes "srcs_inv s Fs Ts"
  shows "srcs_inv (s\<lparr>brk := Suc (brk s), oom := om, errs := er, srcs := (srcs s)(brk s \<mapsto> o1)\<rparr>) Fs Ts"
proof -
  let ?t = "s\<lparr>brk := Suc (brk s), oom := om, errs := er, srcs := (srcs s)(brk s \<mapsto> o1)\<rparr>"
  have k: "b \<noteq> brk s \<Longrightarrow> file_src ?t b \<longleftrightarrow> file_src s b" "b \<noteq> brk s \<Longrightarrow> time_src ?t b \<longleftrightarrow> time_src s b" for b
    by (auto simp: file_src_iff time_src_iff)
  note n = srcs_inv_brk [OF assms]
  have c: "chain (src_nx ?t) p L \<longleftrightarrow> chain (src_nx s) p L" if "brk s \<notin> set L" for p L
    using that by (simp add: src_nx_srcs)
  have "fresh_ok ?t" using srcs_invD(4) [OF assms] by (simp add: fresh_ok_def)
  moreover have "file_src ?t b" if "b \<in> set Fs" for b
    using k(1) [of b] srcs_invD(5) [OF assms that] that n(1) by blast
  moreover have "time_src ?t b" if "b \<in> set Ts" for b
    using k(2) [of b] srcs_invD(6) [OF assms that] that n(2) by blast
  ultimately show ?thesis
    using srcs_invD(1-3) [OF assms] by (intro srcs_invI) (simp_all only: c [OF n(1)] c [OF n(2)], simp_all)
qed

text \<open>One timer more, in front of the list; nothing else in the reactor differs.\<close>

definition timer_added :: "int \<Rightarrow> flags8 \<Rightarrow> timespec \<Rightarrow> fnptr option \<Rightarrow> ptr \<Rightarrow> addr list \<Rightarrow> addr list
    \<Rightarrow> ('b, 'z) world_scheme \<Rightarrow> ('b, 'z) world_scheme \<Rightarrow> bool" where
  "timer_added ms fl w cb ud Fs Ts s s' \<longleftrightarrow>
     srcs_inv s' Fs (brk s # Ts) \<and>
     srcs s' = (srcs s)(brk s \<mapsto> timer_src ms fl w cb ud (sources (rl s) ! GWRL_SRC_TYPE_TIME)) \<and>
     evts s' = evts s \<and> rl s' = (rl s)\<lparr>sources := sources (rl s')\<rparr>"

lemma set_time_src_ok:
  assumes inv: "srcs_inv s Fs Ts" and "int64_range ms" "whence = GWRL_NOW \<or> whence = GWRL_ABS"
  shows "\<exists>s'. set_time_src ops ms repeat whence persist cb ud s = Some (Some (brk s), s') \<and>
    timer_added ms (timer_flags persist (repeat \<and> whence \<noteq> GWRL_ABS) (whence = GWRL_ABS))
      (first_when whence ms) cb ud Fs Ts s s'"
proof -
  define o1 where "o1 = timer_src ms (timer_flags persist (repeat \<and> whence \<noteq> GWRL_ABS) (whence = GWRL_ABS))
      (first_when whence ms) cb ud None"
  obtain om er where r: "create_retry (gwrl_src_time_create ms repeat whence persist cb ud) s =
      Some (Some (brk s), s\<lparr>brk := Suc (brk s), oom := om, errs := er,
        srcs := (srcs s)(brk s \<mapsto> o1)\<rparr>)"
    using retry_calloc [where s = s and init = "\<lambda>a t. t\<lparr>srcs := (srcs t)(a \<mapsto> o1)\<rparr>",
        OF time_create_calloc [OF assms(2,3), of repeat persist cb ud, folded o1_def]] by auto
  let ?t = "s\<lparr>brk := Suc (brk s), oom := om, errs := er, srcs := (srcs s)(brk s \<mapsto> o1)\<rparr>"
  have i: "srcs_inv ?t Fs Ts" by (rule srcs_inv_alloc [OF inv])
  have "time_src ?t (brk s)"
    by (simp add: time_src_iff o1_def timer_src_def src_type_defs)
  then have j: "srcs_inv (pushed 1 (brk s) ?t) Fs (brk s # Ts)"
    by (rule srcs_inv_push_time [OF i _ srcs_inv_brk(2) [OF inv]])
  have "gwrl_src_add ops (Some (brk s)) ?t = Some (pushed 1 (brk s) ?t)"
    using src_add_pushed [of ?t "brk s" o1 ops] srcs_invD(1) [OF inv]
    by (simp add: o1_def timer_src_def src_type_defs)
  with r j show ?thesis
    by (intro exI [of _ "pushed 1 (brk s) ?t"])
       (simp add: set_time_src_def timer_added_def, simp add: pushed_def set_next_def o1_def timer_src_def src_type_defs)
qed

text \<open>The reads of the loop of \<^verbatim>\<open>gwrl_del_persistent_timeouts\<close>.\<close>

definition expired_persistent :: "gwrlsrc \<Rightarrow> bool" where
  "expired_persistent o1 \<longleftrightarrow> flisset (src_flags o1) GWRL_PERSIST \<and> \<not> flisset (src_flags o1) GWRL_ENABLED
     \<and> map_option time_when (as_time o1) = Some no_time"

definition has_expired :: "('b, 'z) world_scheme \<Rightarrow> addr \<Rightarrow> bool" where
  "has_expired s a \<longleftrightarrow> (case srcs s a of None \<Rightarrow> False | Some o1 \<Rightarrow> expired_persistent o1)"

lemma unlink_skip:
  assumes "seg (src_nx s) p L q" "\<And>a. a \<in> set L \<Longrightarrow> time_src s a \<and> \<not> has_expired s a"
  shows "del_persistent_unlink p sh ph ps s =
    del_persistent_unlink q sh ph (if L = [] then ps else Some (last L)) s"
  using assms
proof (induction L arbitrary: p ps)
  case Nil
  then show ?case by simp
next
  case (Cons a L)
  from Cons.prems(1) obtain oa where oa: "p = Some a" "srcs s a = Some oa"
    "seg (src_nx s) (src_next oa) L q"
    by (auto simp: src_nx_iff)
  have ts: "time_src s a" "\<not> has_expired s a" using Cons.prems(2) by simp_all
  then obtain t where "src_part oa = Time_part t" using oa(2) by (auto simp: time_src_iff)
  with ts oa have "del_persistent_unlink p sh ph ps s = del_persistent_unlink (src_next oa) sh ph (Some a) s"
    by (subst del_persistent_unlink.simps) (auto simp: has_expired_def expired_persistent_def as_time_def)
  also have "\<dots> = del_persistent_unlink q sh ph (if L = [] then Some a else Some (last L)) s"
    using Cons.IH [OF oa(3), of "Some a"] Cons.prems(2) by simp
  finally show ?case by simp
qed

lemma free_src_list_chain:
  assumes "chain (src_nx s) p L"
  shows "\<exists>s'. free_src_list p s = Some s' \<and> s' = s\<lparr>srcs := srcs s'\<rparr> \<and>
    (\<forall>b. srcs s' b = (if b \<in> set L then None else srcs s b))"
  using assms
proof (induction L arbitrary: p s)
  case Nil
  then show ?case by (simp add: free_src_list.simps)
next
  case (Cons a L)
  from Cons.prems obtain oa where oa: "p = Some a" "srcs s a = Some oa" "chain (src_nx s) (src_next oa) L"
    by (auto simp: src_nx_iff)
  let ?t = "s\<lparr>srcs := (srcs s)(a := None)\<rparr>"
  have "a \<notin> set L" by (rule chain_tail_notin [OF Cons.prems])
  with oa(3) have "chain (src_nx ?t) (src_next oa) L" by (simp add: src_nx_srcs)
  from Cons.IH [OF this] obtain s' where s': "free_src_list (src_next oa) ?t = Some s'"
    "s' = ?t\<lparr>srcs := srcs s'\<rparr>" "\<forall>b. srcs s' b = (if b \<in> set L then None else srcs ?t b)"
    by blast
  show ?case
  proof (intro exI conjI)
    show "free_src_list p s = Some s'" using oa s'(1) by (simp add: free_src_list.simps [of "Some a"])
    from s'(2) show "s' = s\<lparr>srcs := srcs s'\<rparr>" by (rule trans) simp
    show "\<forall>b. srcs s' b = (if b \<in> set (a # L) then None else srcs s b)" using s'(3) by simp
  qed
qed

lemma unlink_expired:
  assumes "chain (src_nx s) p (xs @ a # ys)" "\<And>b. b \<in> set (xs @ a # ys) \<Longrightarrow> time_src s b"
    and "has_expired s a" "\<And>b. b \<in> set (xs @ ys) \<Longrightarrow> \<not> has_expired s b" "srcs s a = Some oa"
  shows "\<exists>s'. del_persistent_unlink p p None None s =
      Some (if xs = [] then src_next oa else p, Some a, s') \<and>
    s' = s\<lparr>srcs := (if xs = [] then srcs s else set_next (src_next oa) (last xs) (srcs s))\<rparr>"
proof -
  have d: "distinct (xs @ a # ys)" by (rule chain_distinct [OF assms(1)])
  have ch: "seg (src_nx s) p xs (Some a)" "chain (src_nx s) (src_next oa) ys"
    using assms(1,5) by (auto simp: seg_append src_nx_iff)
  have skip: "del_persistent_unlink p p None None s =
      del_persistent_unlink (Some a) p None (if xs = [] then None else Some (last xs)) s"
    by (rule unlink_skip [OF ch(1)]) (use assms(2,4) in simp)
  have ex: "flisset (src_flags oa) GWRL_PERSIST" "\<not> flisset (src_flags oa) GWRL_ENABLED"
    "map_option time_when (as_time oa) = Some no_time"
    using assms(3,5) by (simp_all add: has_expired_def expired_persistent_def)
  let ?s' = "s\<lparr>srcs := (if xs = [] then srcs s else set_next (src_next oa) (last xs) (srcs s))\<rparr>"
  have lo: "links_only s ?s'" by (auto simp: links_only_def set_next_core)
  have ph: "p = Some a \<longleftrightarrow> xs = []" using ch(1) d by (cases xs) auto
  have "\<exists>ol. srcs s (last xs) = Some ol" if "xs \<noteq> []"
  proof -
    have "last xs \<in> set (xs @ a # ys)" using that by simp
    from seg_alloc [OF assms(1) this] show ?thesis unfolding src_nx_iff by blast
  qed
  moreover have ne: "xs \<noteq> [] \<Longrightarrow> last xs \<noteq> a" "xs \<noteq> [] \<Longrightarrow> last xs \<notin> set ys"
    using last_notin_tail [OF d] by auto
  ultimately have step: "del_persistent_unlink (Some a) p None (if xs = [] then None else Some (last xs)) s =
      del_persistent_unlink (src_next oa) (if xs = [] then src_next oa else p) (Some a) (Some a) ?s'"
    using ex assms(5) ph
    by (subst del_persistent_unlink.simps) (auto simp: set_next_def)
  have "srcs ?s' b = srcs s b" if "b \<in> set ys" for b
    using that ne(2) by (cases "b = last xs") auto
  then have "has_expired ?s' b \<longleftrightarrow> has_expired s b" "time_src ?s' b \<longleftrightarrow> time_src s b" if "b \<in> set ys" for b
    using that by (simp_all only: has_expired_def time_src_iff)
  moreover have "chain (src_nx ?s') (src_next oa) ys"
    using ch(2) ne by (auto simp: src_nx_srcs)
  ultimately have "del_persistent_unlink (src_next oa) (if xs = [] then src_next oa else p) (Some a) (Some a) ?s' =
      Some (if xs = [] then src_next oa else p, Some a, ?s')"
    using assms(2,4)
    by (subst unlink_skip [where L = ys and q = None]) (simp_all add: del_persistent_unlink.simps [of None])
  with skip step show ?thesis by auto
qed

lemma timer_del_ok:
  assumes "srcs_inv s Fs (xs @ a # ys)" "prev = None \<or> xs \<noteq> [] \<and> prev = Some (last xs)"
  shows "\<exists>s'. gwrl_src_del ops (Some a) prev freesrc s = Some s' \<and> srcs_inv s' Fs (xs @ ys) \<and>
    (if freesrc then srcs s' a = None else src_nx s' a = Some None) \<and>
    (\<forall>b. b \<noteq> a \<longrightarrow> map_option src_core (srcs s' b) = map_option src_core (srcs s b)) \<and>
    evts s' = evts s \<and> rl s' = (rl s)\<lparr>sources := sources (rl s')\<rparr> \<and>
    kernel_view s' = kernel_view s \<and> nclk s' = nclk s \<and> world.more s' = world.more s"
proof -
  note i = srcs_invD [OF assms(1)]
  have "time_src s a" by (rule i(6)) simp
  then obtain oa where oa: "srcs s a = Some oa" "src_type oa = 1" by (auto simp: time_src_iff)
  let ?u = "unlinked 1 xs a (src_next oa) s"
  have u: "src_unlink (Some a) prev s = Some ?u"
    by (rule src_unlink_cut) (use i(1,3) assms(2) oa in simp_all)
  have iu: "srcs_inv ?u Fs (xs @ ys)" by (rule srcs_inv_unlink_time [OF assms(1) oa(1)])
  have lo: "links_only s ?u" using i(1) by (intro unlinked_links_only) simp
  have d: "distinct (xs @ a # ys)" by (rule srcs_inv_distinct(2) [OF assms(1)])
  then have ne: "xs = [] \<or> last xs \<noteq> a" using last_in_set [of xs] by auto
  have au: "srcs ?u a = Some (oa\<lparr>src_next := None\<rparr>)" by (rule unlinked_self [OF oa(1) ne])
  have na: "a \<notin> set (xs @ ys)" "a \<notin> set Fs" using d srcs_inv_disjoint [OF assms(1)] by auto
  have r: "gwrl_src_del ops (Some a) prev freesrc s =
      Some (if freesrc then ?u\<lparr>srcs := (srcs ?u)(a := None)\<rparr> else ?u)"
    using u au oa(2) by (simp add: gwrl_src_del_def src_type_defs)
  have core: "map_option src_core (srcs ?u b) = map_option src_core (srcs s b)" for b
    using lo by (simp add: links_only_def)
  have fr: "evts ?u = evts s" "rl ?u = (rl s)\<lparr>sources := sources (rl ?u)\<rparr>"
    "kernel_view ?u = kernel_view s" "nclk ?u = nclk s" "world.more ?u = world.more s" by (simp_all add: unlinked_def)
  show ?thesis
  proof (cases freesrc)
    case True
    with r core fr free_unlisted [OF iu na(2,1)] show ?thesis by simp
  next
    case False
    with r core fr iu au show ?thesis by (simp add: src_nx_def)
  qed
qed

subsection \<open>Properties\<close>

text \<open>
  C30: \<^verbatim>\<open>gwrl_set_timeout\<close>, \<^verbatim>\<open>gwrl_set_interval\<close> and \<^verbatim>\<open>gwrl_set_date_timeout\<close> always return,
  however often \<^verbatim>\<open>calloc\<close> fails first, and register one new, enabled timer in front of the
  time sources: not repeating and without a deadline yet, repeating and without a
  deadline yet, or due at the absolute date. No other object, list or field of the reactor
  changes.
\<close>
theorem timers_registered:
  assumes "srcs_inv s Fs Ts" "int64_range ms"
  shows "(\<exists>s'. gwrl_set_timeout ops ms persist cb ud s = Some (Some (brk s), s') \<and>
      timer_added ms (timer_flags persist False False) no_time cb ud Fs Ts s s') \<and>
    (\<exists>s'. gwrl_set_interval ops ms cb ud s = Some (Some (brk s), s') \<and>
      timer_added ms (timer_flags False True False) no_time cb ud Fs Ts s s') \<and>
    (\<exists>s'. gwrl_set_date_timeout ops ms cb ud s = Some (Some (brk s), s') \<and>
      timer_added ms (timer_flags False False True)
        \<lparr>ts_sec = ms sdiv 1000, ts_nsec = 1000000 * (ms smod 1000)\<rparr> cb ud Fs Ts s s')"
proof -
  note ok = set_time_src_ok [OF assms, of _ ops _ _ cb ud]
  have ne: "GWRL_NOW \<noteq> GWRL_ABS" by (simp add: GWRL_NOW_def GWRL_ABS_def)
  from ok [of GWRL_NOW False persist] ok [of GWRL_NOW True False] ok [of GWRL_ABS False False] ne
  show ?thesis
    by (simp add: gwrl_set_timeout_def gwrl_set_interval_def gwrl_set_date_timeout_def first_when_def)
qed

text \<open>
  C16: \<^verbatim>\<open>gwrl_src_del\<close> on a registered timer, whether it is given the right predecessor or
  \<^verbatim>\<open>NULL\<close> and so searches for it, removes exactly that timer from the list, keeps the order
  of the others, releases the object when asked to and else clears its \<^verbatim>\<open>next\<close>, and changes
  no field but \<^verbatim>\<open>next\<close> of any other source.
\<close>
theorem timer_del_unlinks:
  assumes "srcs_inv s Fs (xs @ a # ys)" "prev = None \<or> xs \<noteq> [] \<and> prev = Some (last xs)"
  shows "\<exists>s'. gwrl_src_del ops (Some a) prev freesrc s = Some s' \<and> srcs_inv s' Fs (xs @ ys) \<and>
    (if freesrc then srcs s' a = None else src_nx s' a = Some None) \<and>
    (\<forall>b. b \<noteq> a \<longrightarrow> map_option src_core (srcs s' b) = map_option src_core (srcs s b)) \<and>
    evts s' = evts s \<and> rl s' = (rl s)\<lparr>sources := sources (rl s')\<rparr>"
  using timer_del_ok [OF assms] by blast

text \<open>
  what \<^verbatim>\<open>gwrl_del_persistent_timeouts\<close> does when one expired persistent timer \<open>a\<close> is
  registered: it takes \<open>a\<close> out of the list but frees \<open>a\<close> and every timer behind it, so
  the timers \<open>ys\<close>, which are live, are freed and the list still points at the first of
  them. Only when \<open>a\<close> is the last timer (\<open>ys = []\<close>) is the result the list without \<open>a\<close>.
\<close>
theorem del_persistent_frees_live:
  assumes "srcs_inv s Fs (xs @ a # ys)" "has_expired s a"
    and "\<forall>b \<in> set (xs @ ys). \<not> has_expired s b"
  shows "\<exists>s'. gwrl_del_persistent_timeouts s = Some s' \<and>
    (\<forall>b \<in> set (a # ys). srcs s' b = None) \<and>
    seg (src_nx s') (sources (rl s') ! GWRL_SRC_TYPE_TIME) xs (case ys of [] \<Rightarrow> None | y # _ \<Rightarrow> Some y) \<and>
    (\<forall>b. b \<notin> set (a # ys) \<longrightarrow> map_option src_core (srcs s' b) = map_option src_core (srcs s b))"
proof -
  note i = srcs_invD [OF assms(1)]
  define p where "p = sources (rl s) ! 1"
  have "time_src s a" by (rule i(6)) simp
  then obtain oa where oa: "srcs s a = Some oa" by (auto simp: time_src_iff)
  let ?t = "s\<lparr>rl := (rl s)\<lparr>sources := (sources (rl s))[1 := None]\<rparr>\<rparr>"
  have ch: "chain (src_nx s) p (xs @ a # ys)" using i(3) by (simp add: p_def)
  have nx: "src_nx ?t = src_nx s" by (simp add: src_nx_srcs)
  have k: "time_src ?t b \<longleftrightarrow> time_src s b" "has_expired ?t b \<longleftrightarrow> has_expired s b" for b
    by (simp_all add: time_src_iff has_expired_def)
  obtain u where u: "del_persistent_unlink p p None None ?t = Some (if xs = [] then src_next oa else p, Some a, u)"
    "u = ?t\<lparr>srcs := (if xs = [] then srcs ?t else set_next (src_next oa) (last xs) (srcs ?t))\<rparr>"
    using unlink_expired [of ?t p xs a ys oa] ch i(6) assms(2,3) oa unfolding nx k by auto
  have d: "distinct (xs @ a # ys)" by (rule chain_distinct [OF ch])
  have nl: "xs \<noteq> [] \<Longrightarrow> last xs \<notin> set (a # ys)" by (rule last_notin_tail [OF d])
  have chu: "chain (src_nx u) (Some a) (a # ys)"
    using ch nl oa by (auto simp: u(2) src_nx_srcs seg_append)
  obtain v where v: "free_src_list (Some a) u = Some v" "v = u\<lparr>srcs := srcs v\<rparr>"
    "\<forall>b. srcs v b = (if b \<in> set (a # ys) then None else srcs u b)"
    using free_src_list_chain [OF chu] by blast
  let ?s' = "v\<lparr>rl := (rl v)\<lparr>sources := (sources (rl v))[1 := if xs = [] then src_next oa else p]\<rparr>\<rparr>"
  have "sources (rl v) = (sources (rl s))[1 := None]" by (subst v(2)) (simp add: u(2))
  moreover from this have "gwrl_del_persistent_timeouts s = Some ?s'"
    using u(1) v(1) i(1)
    by (simp add: gwrl_del_persistent_timeouts_def nth_opt_def set_sources_def src_type_defs p_def)
  moreover have "seg (src_nx ?s') (if xs = [] then src_next oa else p) xs (src_next oa)"
  proof (cases xs rule: rev_cases)
    case (snoc zs x)
    have "seg (src_nx u) p xs (src_next oa)"
      using ch d snoc oa
      by (auto simp: u(2) src_nx_srcs seg_append intro!: exI [of _ "Some x"])
    moreover have "src_nx ?s' b = src_nx u b" if "b \<in> set xs" for b
      using v(3) d that by (auto simp: src_nx_def)
    ultimately show ?thesis using snoc seg_cong [of xs "src_nx ?s'" "src_nx u"] by simp
  qed simp
  moreover have "src_next oa = (case ys of [] \<Rightarrow> None | y # _ \<Rightarrow> Some y)"
    using ch oa by (cases ys) (auto simp: seg_append src_nx_iff)
  ultimately show ?thesis
    using v(3) i(1) by (intro exI [of _ ?s']) (simp add: src_type_defs u(2) set_next_core)
qed

text \<open>
  enabling a relative timer makes it due exactly \<^verbatim>\<open>ms\<close> milliseconds after the time read,
  a timer with an absolute date keeps its date, and in both cases only that source
  changes; disabling a timer clears its flag and keeps its deadline.
\<close>
theorem timer_enable_disable:
  assumes "srcs s a = Some (timer_src ms fl w cb ud nxt)" "0 \<le> ms" "ms \<le> 2 ^ 60" "clock_ok s"
  shows "(\<exists>w' s'. gwrl_src_enable ops (Some a) s = Some s' \<and>
      srcs s' = (srcs s)(a \<mapsto> timer_src ms (fl OR GWRL_ENABLED) w' cb ud nxt) \<and>
      (if flisset fl GWRL_WHENCE_ABS then w' = w
       else ts_normal w' \<and> ts_ns w' = ts_ns (tod_ts s (nclk s)) + ms * 1000000) \<and>
      rl s' = rl s \<and> evts s' = evts s) \<and>
    gwrl_src_disable ops (Some a) s =
      Some (s\<lparr>srcs := (srcs s)(a \<mapsto> timer_src ms (fl AND NOT GWRL_ENABLED) w cb ud nxt)\<rparr>)"
proof -
  have fl: "flisset (fl OR GWRL_ENABLED) GWRL_WHENCE_ABS \<longleftrightarrow> flisset fl GWRL_WHENCE_ABS"
    by (simp add: flag_simps bit_or_iff)
  let ?now = "tod_ts s (nclk s)"
  let ?t = "s\<lparr>srcs := (srcs s)(a \<mapsto> timer_src ms (fl OR GWRL_ENABLED) w cb ud nxt)\<rparr>"
  have now: "gwtm_gettimeofday_timespec ?t = Some (?now, ?t\<lparr>nclk := Suc (nclk s)\<rparr>)"
    using gettimeofday_timespec_value [of ?t] assms(4) by (simp add: clock_ok_def tod_ts_def)
  obtain w' where w': "gwtm_add_ms_to_timespec ms ?now = Some w'" "ts_normal w'"
    "ts_ns w' = ts_ns ?now + ms * 1000000"
    by (rule add_ms_to_timespec_value [of ms ?now])
       (use assms(2-4) in \<open>simp_all add: int64_range_def tod_ts_normal tod_ts_modest\<close>)
  have dis: "gwrl_src_disable ops (Some a) s =
      Some (s\<lparr>srcs := (srcs s)(a \<mapsto> timer_src ms (fl AND NOT GWRL_ENABLED) w cb ud nxt)\<rparr>)"
    using assms(1)
    by (simp add: gwrl_src_disable_def src_flclr_def flclr_def timer_src_def src_type_defs)
  show ?thesis
  proof (cases "flisset fl GWRL_WHENCE_ABS")
    case True
    with assms(1) fl dis show ?thesis
      by (intro conjI exI [of _ w] exI [of _ ?t])
         (simp_all add: gwrl_src_enable_def src_flset_def flset_def timer_src_def src_type_defs)
  next
    case False
    let ?s' = "s\<lparr>srcs := (srcs s)(a \<mapsto> timer_src ms (fl OR GWRL_ENABLED) w' cb ud nxt), nclk := Suc (nclk s)\<rparr>"
    have "gwrl_src_enable ops (Some a) s = Some ?s'"
      using False assms(1) fl now w'(1)
      by (auto simp: gwrl_src_enable_def src_flset_def flset_def timer_src_def src_type_defs as_time_def
          set_when_def intro!: world.equality)
    with False w' dis show ?thesis by (intro conjI exI [of _ w'] exI [of _ ?s']) simp_all
  qed
qed

subsection \<open>Instances\<close>

text \<open>
  Three timers: one repeating every 100 ms, one persistent and expired, one due at second 5;
  the next two calls of \<^verbatim>\<open>calloc\<close> fail.
\<close>

definition three_timers :: "unit world" where
  "three_timers = (blank_world ())\<lparr>
     srcs := [1 \<mapsto> timer_src 100 (timer_flags False True False) no_time (Some (Fn_user 1)) None (Some 2),
              2 \<mapsto> timer_src 20 GWRL_PERSIST no_time (Some (Fn_user 2)) None (Some 3),
              3 \<mapsto> timer_src 5000 (timer_flags False False True) \<lparr>ts_sec = 5, ts_nsec = 0\<rparr>
                   (Some (Fn_user 3)) None None],
     brk := 4, oom := [True, True],
     rl := (zero_gwrl ())\<lparr>sources := [None, Some 1]\<rparr>\<rparr>"

lemma three_timers_inv: "srcs_inv three_timers [] [1, 2, 3]"
  by (auto simp: srcs_inv_def three_timers_def blank_world_def zero_gwrl_def src_type_defs src_nx_def
      timer_src_def time_src_iff fresh_ok_def)

lemma three_timers_expired:
  "has_expired three_timers 2" "\<not> has_expired three_timers 1" "\<not> has_expired three_timers 3"
  by (simp_all add: has_expired_def expired_persistent_def three_timers_def timer_src_def
      timer_flags_def flag_simps bit_or_iff as_time_def no_time_def)

lemma three_timers_clock: "clock_ok three_timers"
  using clock_ok_blank by (simp add: clock_ok_def three_timers_def)

theorem timers_registered_witness:
  "\<forall>ops. \<exists>s'. gwrl_set_timeout ops 250 True (Some (Fn_user 4)) None three_timers = Some (Some 4, s') \<and>
    timer_added 250 (timer_flags True False False) no_time (Some (Fn_user 4)) None [] [1, 2, 3] three_timers s'"
  using timers_registered [OF three_timers_inv, of 250 _ True "Some (Fn_user 4)" None]
  by (simp add: int64_range_def three_timers_def)

theorem timer_del_unlinks_witness:
  "\<forall>ops. \<exists>s'. gwrl_src_del ops (Some 2) None True three_timers = Some s' \<and>
    srcs_inv s' [] [1, 3] \<and> srcs s' 2 = None"
  using timer_del_unlinks [of three_timers "[]" "[1]" 2 "[3]" None _ True] three_timers_inv
  by simp metis

theorem del_persistent_frees_live_witness:
  "\<exists>s'. gwrl_del_persistent_timeouts three_timers = Some s' \<and> srcs s' 2 = None \<and> srcs s' 3 = None \<and>
    src_nx s' 1 = Some (Some 3)"
  using del_persistent_frees_live [of three_timers "[]" "[1]" 2 "[3]"] three_timers_inv three_timers_expired
  by auto

theorem timer_enable_disable_witness:
  "\<forall>ops. \<exists>w' s'. gwrl_src_enable ops (Some 2) three_timers = Some s' \<and>
    srcs s' 2 = Some (timer_src 20 (GWRL_PERSIST OR GWRL_ENABLED) w' (Some (Fn_user 2)) None (Some 3)) \<and>
    ts_ns w' = 20000000"
proof
  fix ops
  have "srcs three_timers 2 = Some (timer_src 20 GWRL_PERSIST no_time (Some (Fn_user 2)) None (Some 3))"
    by (simp add: three_timers_def)
  from timer_enable_disable [OF this _ _ three_timers_clock, of ops]
  show "\<exists>w' s'. gwrl_src_enable ops (Some 2) three_timers = Some s' \<and>
    srcs s' 2 = Some (timer_src 20 (GWRL_PERSIST OR GWRL_ENABLED) w' (Some (Fn_user 2)) None (Some 3)) \<and>
    ts_ns w' = 20000000"
    by (auto simp: flag_simps tod_ts_def ts_ns_def three_timers_def blank_world_def)
qed

end
