(* ===== verification/Gw_Timers.thy ===== *)
theory Gw_Timers
  imports Gw_Sources
begin

section \<open>Timers (\<^verbatim>\<open>gwrl_time_gather\<close> in \<^verbatim>\<open>src/gwrl/event.c\<close>)\<close>

text \<open>
  The pass over the time sources: it sets the deadline of timers that have none, posts an
  event for each timer that is due, re-arms, disables or deletes it, and computes how long
  the backend may sleep. The specification \<open>gather_spec\<close> says the same over a list of
  abstract timers with deadlines in nanoseconds; the refinement lemma shows that the
  pointer program implements it, whatever the clock reads.
\<close>

subsection \<open>The operation\<close>

definition note_timeout :: "timespec \<Rightarrow> ('b, 'z) world_scheme \<Rightarrow> ('b, 'z) world_scheme" where
  "note_timeout timediff s =
     s\<lparr>rl := (rl s)\<lparr>timeout :=
       (if timeout (rl s) = no_time then timediff
        else snd (gwtm_timespec_copy_if_smaller timediff (timeout (rl s))))\<rparr>\<rparr>"

text \<open>
  One round of the loop for the source at \<open>a\<close>: the new values of \<^verbatim>\<open>tsrc_prev\<close>, \<^verbatim>\<open>tsrc\<close> and
  \<^verbatim>\<open>posted_event\<close>.
\<close>

definition gather_advance ::
    "addr \<Rightarrow> bool \<Rightarrow> ('b, 'z) world_scheme \<Rightarrow> (ptr \<times> ptr \<times> bool \<times> ('b, 'z) world_scheme) option" where
  "gather_advance a posted s = do { o1 \<leftarrow> srcs s a; Some (Some a, src_next o1, posted, s) }"

text \<open>Read the clock, and set the deadline of a relative timer that has none.\<close>

definition time_gather_due ::
    "addr \<Rightarrow> gwrlsrc \<Rightarrow> ('b, 'z) world_scheme \<Rightarrow> (timespec \<times> timespec \<times> ('b, 'z) world_scheme) option" where
  "time_gather_due a o1 s = do {
     (current, s) \<leftarrow> gwtm_gettimeofday_timespec s;
     t \<leftarrow> as_time o1;
     if \<not> flisset (src_flags o1) GWRL_WHENCE_ABS \<and> time_when t = no_time
     then do {
       (w, s) \<leftarrow> gwtm_gettimeofday_timespec s;
       w \<leftarrow> gwtm_add_ms_to_timespec (time_ms t) w;
       s \<leftarrow> upd_src (set_when w) (Some a) s;
       Some (current, w, s) }
     else Some (current, time_when t, s) }"

text \<open>The timer is due: post its event, then re-arm, disable or delete it.\<close>

definition time_gather_fire ::
    "('b, 'z) world_scheme src_ops \<Rightarrow> ptr \<Rightarrow> addr \<Rightarrow> gwrlsrc \<Rightarrow> timespec \<Rightarrow> timespec
     \<Rightarrow> ('b, 'z) world_scheme \<Rightarrow> (ptr \<times> ptr \<times> bool \<times> ('b, 'z) world_scheme) option" where
  "time_gather_fire ops tsrc_prev a o1 current w s = do {
     s \<leftarrow> create_and_post (Some a) (src_callback o1) (src_userdata o1) 0 0 s;
     if flisset (src_flags o1) GWRL_REPEAT then do {
       t \<leftarrow> as_time o1;
       w \<leftarrow> gwtm_add_ms_to_timespec (time_ms t) w;
       s \<leftarrow> upd_src (set_when w) (Some a) s;
       timediff \<leftarrow> gwtm_timespec_sub_into w current;
       gather_advance a True (note_timeout timediff s) }
     else if flisset (src_flags o1) GWRL_PERSIST then do {
       s \<leftarrow> gwrl_src_disable ops (Some a) s;
       s \<leftarrow> upd_src (set_when no_time) (Some a) s;
       gather_advance a True s }
     else do {
       o1 \<leftarrow> srcs s a;
       s \<leftarrow> gwrl_src_del ops (Some a) tsrc_prev True s;
       Some (None, src_next o1, True, s) } }"

definition time_gather_step ::
    "('b, 'z) world_scheme src_ops \<Rightarrow> ptr \<Rightarrow> addr \<Rightarrow> bool \<Rightarrow> ('b, 'z) world_scheme
     \<Rightarrow> (ptr \<times> ptr \<times> bool \<times> ('b, 'z) world_scheme) option" where
  "time_gather_step ops tsrc_prev a posted s = do {
     o1 \<leftarrow> srcs s a;
     if \<not> flisset (src_flags o1) GWRL_ENABLED then gather_advance a posted s
     else do {
       (current, w, s) \<leftarrow> time_gather_due a o1 s;
       timediff \<leftarrow> gwtm_timespec_sub_into w current;
       if gwtm_timespec_is_expired timediff then time_gather_fire ops tsrc_prev a o1 current w s
       else gather_advance a posted (note_timeout timediff s) } }"

partial_function (option) time_gather_loop ::
    "('b, 'z) world_scheme src_ops \<Rightarrow> ptr \<Rightarrow> ptr \<Rightarrow> bool \<Rightarrow> ('b, 'z) world_scheme
     \<Rightarrow> (bool \<times> ('b, 'z) world_scheme) option" where
  [code]: "time_gather_loop ops tsrc_prev tsrc posted s =
     (case tsrc of
        None \<Rightarrow> Some (posted, s)
      | Some a \<Rightarrow> do {
          (tsrc_prev, tsrc, posted, s) \<leftarrow> time_gather_step ops tsrc_prev a posted s;
          time_gather_loop ops tsrc_prev tsrc posted s })"

definition gwrl_time_gather ::
    "('b, 'z) world_scheme src_ops \<Rightarrow> ('b, 'z) world_scheme \<Rightarrow> ('b, 'z) world_scheme option" where
  "gwrl_time_gather ops s = do {
     tsrc \<leftarrow> nth_opt (sources (rl s)) GWRL_SRC_TYPE_TIME;
     (posted, s) \<leftarrow> time_gather_loop ops None tsrc False s;
     Some (if posted then s\<lparr>rl := (rl s)\<lparr>timeout := \<lparr>ts_sec = 0, ts_nsec = 0\<rparr>\<rparr>\<rparr> else s) }"

subsection \<open>The specification\<close>

text \<open>A timer seen from outside; its deadline in nanoseconds, if it has one.\<close>

record atimer =
  at_id :: addr
  at_ms :: int
  at_due :: "int option"
  at_on :: bool
  at_rep :: bool
  at_pers :: bool
  at_abs :: bool
  at_cb :: "fnptr option"
  at_ud :: ptr

text \<open>
  What one timer does when the clock is read from reading \<open>n\<close> on: what stays registered,
  whether it fires, how long until it is due (if it still is), and the next reading.
\<close>

definition gather_one :: "(nat \<Rightarrow> int) \<Rightarrow> nat \<Rightarrow> atimer \<Rightarrow> atimer option \<times> bool \<times> int option \<times> nat" where
  "gather_one T n t =
     (if \<not> at_on t then (Some t, False, None, n)
      else
        let fresh = \<not> at_abs t \<and> at_due t = None;
            due = (case at_due t of Some d \<Rightarrow> d | None \<Rightarrow> T (Suc n) + at_ms t * 1000000);
            n' = (if fresh then Suc (Suc n) else Suc n)
        in if due \<le> T n
           then (if at_rep t
                 then (Some (t\<lparr>at_due := Some (due + at_ms t * 1000000)\<rparr>), True,
                       Some (due + at_ms t * 1000000 - T n), n')
                 else if at_pers t then (Some (t\<lparr>at_on := False, at_due := None\<rparr>), True, None, n')
                 else (None, True, None, n'))
           else (Some (t\<lparr>at_due := Some due\<rparr>), False, Some (due - T n), n'))"

definition min_opt :: "int option \<Rightarrow> int option \<Rightarrow> int option" where
  "min_opt x y = (case x of None \<Rightarrow> y | Some a \<Rightarrow> (case y of None \<Rightarrow> x | Some b \<Rightarrow> Some (min a b)))"

text \<open>The timers kept, the timers fired (in order), the shortest wait, the next reading.\<close>

fun gather_spec :: "(nat \<Rightarrow> int) \<Rightarrow> nat \<Rightarrow> int option \<Rightarrow> atimer list
    \<Rightarrow> atimer list \<times> atimer list \<times> int option \<times> nat" where
  "gather_spec T n wait [] = ([], [], wait, n)"
| "gather_spec T n wait (t # ts) =
     (let (kept, fires, w, n') = gather_one T n t;
          (ks, fs, wait', m) = gather_spec T n' (min_opt wait w) ts
      in (case kept of None \<Rightarrow> ks | Some k \<Rightarrow> k # ks, if fires then t # fs else fs, wait', m))"

subsection \<open>From the memory to abstract timers\<close>

definition due_of :: "timespec \<Rightarrow> int option" where
  "due_of w = (if w = no_time then None else Some (ts_ns w))"

definition timer_of :: "addr \<Rightarrow> gwrlsrc \<Rightarrow> atimer" where
  "timer_of a o1 =
     (case src_part o1 of
        Time_part t \<Rightarrow> \<lparr>at_id = a, at_ms = time_ms t, at_due = due_of (time_when t),
          at_on = flisset (src_flags o1) GWRL_ENABLED, at_rep = flisset (src_flags o1) GWRL_REPEAT,
          at_pers = flisset (src_flags o1) GWRL_PERSIST, at_abs = flisset (src_flags o1) GWRL_WHENCE_ABS,
          at_cb = src_callback o1, at_ud = src_userdata o1\<rparr>
      | File_part _ \<Rightarrow> \<lparr>at_id = a, at_ms = 0, at_due = None, at_on = False, at_rep = False,
          at_pers = False, at_abs = False, at_cb = src_callback o1, at_ud = src_userdata o1\<rparr>)"

definition timer_at :: "('b, 'z) world_scheme \<Rightarrow> addr \<Rightarrow> atimer" where
  "timer_at s a = timer_of a (the (srcs s a))"

text \<open>Intervals up to \<open>2 ^ 59\<close> milliseconds, and deadlines such a timer can reach.\<close>

definition when_ok :: "timespec \<Rightarrow> bool" where
  "when_ok w \<longleftrightarrow> ts_normal w \<and> - (2 ^ 60) \<le> ts_sec w \<and> ts_sec w \<le> 2 ^ 60 + 2 ^ 59 + 1"

definition timer_wf :: "gwrlsrc \<Rightarrow> bool" where
  "timer_wf o1 = (case src_part o1 of
     Time_part t \<Rightarrow> src_type o1 = GWRL_SRC_TYPE_TIME \<and> 0 \<le> time_ms t \<and> time_ms t \<le> 2 ^ 59 \<and>
       (when_ok (time_when t) \<or> time_when t = no_time \<and>
          \<not> (flisset (src_flags o1) GWRL_ENABLED \<and> flisset (src_flags o1) GWRL_WHENCE_ABS))
   | File_part _ \<Rightarrow> False)"

definition timers_wf :: "('b, 'z) world_scheme \<Rightarrow> addr list \<Rightarrow> bool" where
  "timers_wf s Ts \<longleftrightarrow> list_all (\<lambda>a. case srcs s a of None \<Rightarrow> False | Some o1 \<Rightarrow> timer_wf o1) Ts"

text \<open>The wait the backend is told: none, or a normal difference.\<close>

definition wait_of :: "('b, 'z) world_scheme \<Rightarrow> int option" where
  "wait_of s = due_of (timeout (rl s))"

definition wait_ok :: "('b, 'z) world_scheme \<Rightarrow> bool" where
  "wait_ok s \<longleftrightarrow> timeout (rl s) = no_time \<or> ts_normal (timeout (rl s))"

definition ns_clock :: "('b, 'z) world_scheme \<Rightarrow> nat \<Rightarrow> int" where
  "ns_clock s n = ts_ns (tod_ts s n)"

text \<open>What a posted event tells: which source, and whom to call with what.\<close>

definition evt_view :: "('b, 'z) world_scheme \<Rightarrow> addr \<Rightarrow> ptr \<times> fnptr option \<times> ptr" where
  "evt_view s e = (case evts s e of None \<Rightarrow> (None, None, None)
     | Some v \<Rightarrow> (evt_src v, evt_callback v, evt_userdata v))"

definition fire_view :: "atimer \<Rightarrow> ptr \<times> fnptr option \<times> ptr" where
  "fire_view t = (Some (at_id t), at_cb t, at_ud t)"

subsection \<open>What the steps keep\<close>

lemma upd_src_mod: "srcs s a = Some o1 \<Longrightarrow> upd_src f (Some a) s = Some (mod_src f a s)"
  by (simp add: mod_src_def)

lemma mod_src_sel [simp]:
  "srcs (mod_src f a s) = (srcs s)(a := map_option f (srcs s a))"
  "evts (mod_src f a s) = evts s" "rl (mod_src f a s) = rl s" "brk (mod_src f a s) = brk s"
  "tod (mod_src f a s) = tod s" "kernel_view (mod_src f a s) = kernel_view s" "nclk (mod_src f a s) = nclk s" "oom (mod_src f a s) = oom s"
  by (simp_all add: mod_src_def)

lemma note_timeout_sel [simp]:
  "srcs (note_timeout d s) = srcs s" "evts (note_timeout d s) = evts s" "brk (note_timeout d s) = brk s"
  "tod (note_timeout d s) = tod s" "kernel_view (note_timeout d s) = kernel_view s" "nclk (note_timeout d s) = nclk s"
  "sources (rl (note_timeout d s)) = sources (rl s)" "events (rl (note_timeout d s)) = events (rl s)"
  "cevents (rl (note_timeout d s)) = cevents (rl s)" "ncevents (rl (note_timeout d s)) = ncevents (rl s)"
  by (simp_all add: note_timeout_def)

lemma evts_inv_cong:
  assumes "evts s' = evts s" "events (rl s') = events (rl s)" "cevents (rl s') = cevents (rl s)"
    "ncevents (rl s') = ncevents (rl s)" "fresh_ok s'" "evts_inv s E C"
  shows "evts_inv s' E C"
  using assms by (simp add: evts_inv_def cache_ok_def evt_nx_evts)

lemma srcs_inv_cong:
  assumes "srcs s' = srcs s" "sources (rl s') = sources (rl s)" "fresh_ok s'" "srcs_inv s Fs Ts"
  shows "srcs_inv s' Fs Ts"
proof -
  have "file_src s' b \<longleftrightarrow> file_src s b" "time_src s' b \<longleftrightarrow> time_src s b" for b
    using assms(1) by (simp_all add: file_src_iff time_src_iff)
  with assms(1-3) srcs_invD [OF assms(4)] show ?thesis
    by (intro srcs_invI) (simp_all add: src_nx_srcs)
qed

lemma fresh_cong: "evts s' = evts s \<Longrightarrow> dom (srcs s') \<subseteq> dom (srcs s) \<Longrightarrow> brk s' = brk s \<Longrightarrow> fresh_ok s \<Longrightarrow> fresh_ok s'"
  by (auto simp: fresh_ok_def)

lemma evt_frame_srcs_inv:
  assumes "evt_frame s s'" "evts_inv s' E C" "srcs_inv s Fs Ts"
  shows "srcs_inv s' Fs Ts"
  by (rule srcs_inv_cong [OF _ _ _ assms(3)])
     (use assms evt_frameD [OF assms(1)] in \<open>simp_all add: evts_inv_def\<close>)

lemma set_when_fields [simp]:
  "src_type (set_when w o1) = src_type o1" "src_next (set_when w o1) = src_next o1"
  "src_flags (set_when w o1) = src_flags o1" "src_callback (set_when w o1) = src_callback o1"
  "src_userdata (set_when w o1) = src_userdata o1"
  "src_part (set_when w o1) = File_part f \<longleftrightarrow> src_part o1 = File_part f"
  "(\<exists>t. src_part (set_when w o1) = Time_part t) \<longleftrightarrow> (\<exists>t. src_part o1 = Time_part t)"
  by (auto simp: set_when_def split: src_part.splits)

lemma mod_when_srcs_inv:
  assumes "srcs_inv s Fs Ts"
  shows "srcs_inv (mod_src (set_when w) a s) Fs Ts"
proof -
  let ?t = "mod_src (set_when w) a s"
  have k: "file_src ?t b \<longleftrightarrow> file_src s b" "time_src ?t b \<longleftrightarrow> time_src s b" for b
    by (cases "srcs s a"; cases "b = a"; simp add: file_src_iff time_src_iff)+
  have "src_nx ?t = src_nx s"
    by (simp add: src_nx_def fun_eq_iff option.map_comp o_def)
  moreover have "fresh_ok ?t" by (rule fresh_cong [OF _ _ _ srcs_invD(4) [OF assms]]) auto
  ultimately show ?thesis
    using srcs_invD [OF assms] by (intro srcs_invI) (simp_all add: k)
qed

lemma mod_src_evts_inv: "evts_inv s E C \<Longrightarrow> evts_inv (mod_src f a s) E C"
  by (rule evts_inv_cong [of _ s]) (auto simp: evts_inv_def fresh_ok_def)

lemma set_when_core: "srcs s a = Some oa \<Longrightarrow> src_part oa = Time_part t \<Longrightarrow>
   set_when (time_when t) oa = oa"
  by (simp add: set_when_def)

lemma hd_ptr:
  assumes "srcs_inv s Fs (P @ a # R)" "srcs s a = Some oa"
  shows "src_next oa = (case R of [] \<Rightarrow> None | b # _ \<Rightarrow> Some b)"
proof -
  have "chain (src_nx s) (src_next oa) R"
    using srcs_invD(3) [OF assms(1)] assms(2) by (auto simp: seg_append src_nx_iff)
  then show ?thesis by (cases R) auto
qed

subsection \<open>One round\<close>

lemma when_ok_ns: "when_ok w \<Longrightarrow> w \<noteq> no_time \<and> due_of w = Some (ts_ns w)"
  by (auto simp: when_ok_def ts_normal_def no_time_def due_of_def)

lemma add_ms_when:
  assumes "0 \<le> ms" "ms \<le> 2 ^ 59" "ts_normal w" "- (2 ^ 60) \<le> ts_sec w" "ts_sec w \<le> 2 ^ 60"
  obtains w' where "gwtm_add_ms_to_timespec ms w = Some w'" "when_ok w'"
    "ts_ns w' = ts_ns w + ms * 1000000"
  by (rule add_ms_to_timespec_value [of ms w])
     (use assms in \<open>auto simp: when_ok_def int64_range_def ts_modest_def\<close>)

lemma time_gather_due_ok:
  assumes "srcs s a = Some oa" "timer_wf oa" "flisset (src_flags oa) GWRL_ENABLED" "clock_ok s"
    and "t = timer_of a oa"
  obtains w u where "time_gather_due a oa s = Some (tod_ts s (nclk s), w, u)" "when_ok w"
    "u = (mod_src (set_when w) a s)\<lparr>nclk :=
       (if \<not> at_abs t \<and> at_due t = None then Suc (Suc (nclk s)) else Suc (nclk s))\<rparr>"
    "ts_ns w = (case at_due t of Some d \<Rightarrow> d | None \<Rightarrow> ns_clock s (Suc (nclk s)) + at_ms t * 1000000)"
proof -
  from assms(2) obtain p where p: "src_part oa = Time_part p" "0 \<le> time_ms p" "time_ms p \<le> 2 ^ 59"
    "when_ok (time_when p) \<or> time_when p = no_time \<and> \<not> flisset (src_flags oa) GWRL_WHENCE_ABS"
    using assms(3) by (auto simp: timer_wf_def split: src_part.splits)
  have t: "at_due t = due_of (time_when p)" "at_ms t = time_ms p"
    "at_abs t = flisset (src_flags oa) GWRL_WHENCE_ABS"
    using assms(5) p(1) by (simp_all add: timer_of_def)
  have g: "gwtm_gettimeofday_timespec s = Some (tod_ts s (nclk s), s\<lparr>nclk := Suc (nclk s)\<rparr>)"
    by (rule gettimeofday_timespec_value [OF assms(4)])
  show ?thesis
  proof (cases "time_when p = no_time")
    case True
    then have na: "\<not> flisset (src_flags oa) GWRL_WHENCE_ABS" using p(4) when_ok_ns by metis
    let ?s1 = "s\<lparr>nclk := Suc (nclk s)\<rparr>"
    have c1: "clock_ok ?s1" using assms(4) by (simp add: clock_ok_def)
    have g1: "gwtm_gettimeofday_timespec ?s1 =
        Some (tod_ts s (Suc (nclk s)), s\<lparr>nclk := Suc (Suc (nclk s))\<rparr>)"
      using gettimeofday_timespec_value [OF c1] by (simp add: tod_ts_def)
    have lo: "- (2 ^ 60) \<le> ts_sec (tod_ts s (Suc (nclk s)))"
      using tod_ts_sec(1) [OF assms(4), of "Suc (nclk s)"] by simp
    obtain w where w: "gwtm_add_ms_to_timespec (time_ms p) (tod_ts s (Suc (nclk s))) = Some w" "when_ok w"
      "ts_ns w = ts_ns (tod_ts s (Suc (nclk s))) + time_ms p * 1000000"
      by (rule add_ms_when [OF p(2,3) tod_ts_normal [OF assms(4)] lo tod_ts_sec(2) [OF assms(4)]])
    show ?thesis
      by (rule that [of w "(mod_src (set_when w) a s)\<lparr>nclk := Suc (Suc (nclk s))\<rparr>"])
         (use True na w g g1 p(1) t assms(1) in
           \<open>auto simp: time_gather_due_def as_time_def due_of_def ns_clock_def mod_src_def
              intro!: world.equality\<close>)
  next
    case False
    then have w: "when_ok (time_when p)" using p(4) by blast
    have "mod_src (set_when (time_when p)) a s = s"
      using assms(1) set_when_core [OF assms(1) p(1)] by (auto simp: mod_src_def intro!: world.equality)
    then show ?thesis
      by (intro that [of "time_when p" "s\<lparr>nclk := Suc (nclk s)\<rparr>"])
         (use False w g p(1) t assms(1) when_ok_ns [OF w] in \<open>auto simp: time_gather_due_def as_time_def\<close>)
  qed
qed

lemma note_timeout_wait:
  assumes "wait_ok s" "ts_normal d"
  shows "wait_of (note_timeout d s) = min_opt (wait_of s) (Some (ts_ns d))" "wait_ok (note_timeout d s)"
proof -
  have d: "d \<noteq> no_time" using assms(2) by (auto simp: ts_normal_def no_time_def)
  show "wait_of (note_timeout d s) = min_opt (wait_of s) (Some (ts_ns d))"
    using assms d copy_if_smaller_normal [OF assms(2), of "timeout (rl s)"]
    by (auto simp: note_timeout_def wait_of_def wait_ok_def due_of_def min_opt_def split: if_splits)
  show "wait_ok (note_timeout d s)"
    using assms copy_if_smaller_normal [OF assms(2), of "timeout (rl s)"]
    by (auto simp: note_timeout_def wait_ok_def split: if_splits)
qed

text \<open>
  The state after one round for the timer at \<open>a\<close>, seen as \<open>t\<close>, between the timers \<open>P\<close>
  already visited and \<open>R\<close> still to come, with the outcome of \<open>gather_one\<close>.
\<close>

definition round_post :: "addr list \<Rightarrow> addr list \<Rightarrow> addr \<Rightarrow> addr list \<Rightarrow> addr list \<Rightarrow> atimer
    \<Rightarrow> atimer option \<times> bool \<times> int option \<times> nat \<Rightarrow> ptr \<Rightarrow> addr list \<Rightarrow> addr list
    \<Rightarrow> ('b, 'z) world_scheme \<Rightarrow> ('b, 'z) world_scheme \<Rightarrow> bool" where
  "round_post Fs P a R Ev t out prev' Ev' C' s s1 \<longleftrightarrow>
     (case out of (kept, fires, w, n') \<Rightarrow>
       srcs_inv s1 Fs (P @ (if kept = None then [] else [a]) @ R) \<and>
       (prev' = None \<or> kept \<noteq> None \<and> prev' = Some a) \<and>
       (\<forall>k. kept = Some k \<longrightarrow> (\<exists>o1. srcs s1 a = Some o1 \<and> timer_of a o1 = k \<and> timer_wf o1)) \<and>
       (\<forall>b. b \<noteq> a \<longrightarrow> map_option src_core (srcs s1 b) = map_option src_core (srcs s b)) \<and>
       evts_inv s1 (Ev' @ Ev) C' \<and>
       map (evt_view s1) Ev' = (if fires then [fire_view t] else []) \<and>
       (\<forall>x \<in> set Ev. evt_view s1 x = evt_view s x) \<and>
       nclk s1 = n' \<and> wait_of s1 = min_opt (wait_of s) w \<and> wait_ok s1 \<and> kernel_view s1 = kernel_view s \<and>
       rl s1 = (rl s)\<lparr>sources := sources (rl s1), events := events (rl s1), cevents := cevents (rl s1),
         ncevents := ncevents (rl s1), timeout := timeout (rl s1)\<rparr>)"

lemma timer_of_set_when:
  assumes "src_part oa = Time_part p"
  shows "timer_of a (set_when w oa) = (timer_of a oa)\<lparr>at_due := due_of w\<rparr>"
  using assms by (simp add: timer_of_def set_when_def)

lemma timer_wf_set_when:
  assumes "timer_wf oa" "when_ok w"
  shows "timer_wf (set_when w oa)"
  using assms by (auto simp: timer_wf_def set_when_def split: src_part.splits)

lemma timer_wf_src: "timer_wf oa \<Longrightarrow> srcs s a = Some oa \<Longrightarrow> time_src s a"
  by (auto simp: timer_wf_def time_src_iff src_type_defs split: src_part.splits)

text \<open>Nothing due: the deadline stands, and the wait is noted.\<close>

lemma round_quiet:
  assumes "srcs_inv s Fs (P @ a # R)" "evts_inv s Ev C" "srcs s a = Some oa" "timer_wf oa" "wait_ok s"
    and "when_ok w" "ts_normal d" "u = (mod_src (set_when w) a s)\<lparr>nclk := n'\<rparr>"
  shows "gather_advance a posted (note_timeout d u) =
      Some (Some a, (case R of [] \<Rightarrow> None | b # _ \<Rightarrow> Some b), posted, note_timeout d u) \<and>
    round_post Fs P a R Ev (timer_of a oa)
      (Some ((timer_of a oa)\<lparr>at_due := Some (ts_ns w)\<rparr>), False, Some (ts_ns d), n')
      (Some a) [] C s (note_timeout d u)"
proof -
  obtain p where p: "src_part oa = Time_part p" using assms(4) by (auto simp: timer_wf_def split: src_part.splits)
  have w: "due_of w = Some (ts_ns w)" using when_ok_ns [OF assms(6)] by simp
  have i: "srcs_inv (mod_src (set_when w) a s) Fs (P @ a # R)" by (rule mod_when_srcs_inv [OF assms(1)])
  have fr: "fresh_ok (note_timeout d u)"
    by (rule fresh_cong [OF _ _ _ srcs_invD(4) [OF i]]) (auto simp: assms(8))
  have "srcs_inv (note_timeout d u) Fs (P @ a # R)"
    by (rule srcs_inv_cong [OF _ _ fr i]) (simp_all add: assms(8))
  moreover have "evts_inv (note_timeout d u) Ev C"
    by (rule evts_inv_cong [OF _ _ _ _ fr assms(2)]) (simp_all add: assms(8))
  moreover have "wait_ok u" "wait_of u = wait_of s"
    using assms(5) by (simp_all add: assms(8) wait_ok_def wait_of_def)
  moreover have "rl (note_timeout d u) = (rl s)\<lparr>timeout := timeout (rl (note_timeout d u))\<rparr>"
    by (simp add: note_timeout_def assms(8))
  moreover have "evt_view (note_timeout d u) = evt_view s"
    by (simp add: evt_view_def fun_eq_iff assms(8))
  moreover have "kernel_view (note_timeout d u) = kernel_view s" "nclk (note_timeout d u) = n'"
    by (simp_all add: assms(8))
  ultimately show ?thesis
    using hd_ptr [OF assms(1,3)] assms(3) timer_of_set_when [OF p, of a w] w
      timer_wf_set_when [OF assms(4,6)] note_timeout_wait [of u d] assms(7)
    by (simp add: gather_advance_def round_post_def) (simp add: assms(8))
qed

text \<open>The event of a timer that is due has been posted.\<close>

lemma round_post_event:
  assumes "srcs_inv s Fs (P @ a # R)" "evts_inv s Ev C" "srcs s a = Some oa" "timer_wf oa" "wait_ok s"
    and "u = (mod_src (set_when w) a s)\<lparr>nclk := n'\<rparr>"
  obtains e t where
    "create_and_post (Some a) (src_callback oa) (src_userdata oa) 0 0 u = Some t"
    "srcs_inv t Fs (P @ a # R)" "evts_inv t (e # Ev) (tl C)" "srcs t = (srcs s)(a \<mapsto> set_when w oa)"
    "evt_view t e = fire_view (timer_of a oa)" "\<forall>x \<in> set Ev. evt_view t x = evt_view s x"
    "wait_of t = wait_of s" "wait_ok t" "kernel_view t = kernel_view s" "nclk t = n'"
    "rl t = (rl s)\<lparr>events := events (rl t), cevents := cevents (rl t), ncevents := ncevents (rl t)\<rparr>"
proof -
  obtain p where p: "src_part oa = Time_part p" using assms(4) by (auto simp: timer_wf_def split: src_part.splits)
  have i: "srcs_inv (mod_src (set_when w) a s) Fs (P @ a # R)" by (rule mod_when_srcs_inv [OF assms(1)])
  have fr: "fresh_ok u" by (rule fresh_cong [OF _ _ _ srcs_invD(4) [OF i]]) (auto simp: assms(6))
  have iu: "srcs_inv u Fs (P @ a # R)"
    by (rule srcs_inv_cong [OF _ _ fr i]) (simp_all add: assms(6))
  have eu: "evts_inv u Ev C"
    by (rule evts_inv_cong [OF _ _ _ _ fr assms(2)]) (simp_all add: assms(6))
  obtain e t where t:
    "create_and_post (Some a) (src_callback oa) (src_userdata oa) 0 0 u = Some t"
    "evts t = (evts u)(e \<mapsto> new_evt (Some a) (src_callback oa) (src_userdata oa) 0 0 (events (rl u)))"
    "e \<notin> set Ev" "evts_inv t (e # Ev) (tl C)" "evt_frame u t"
    by (rule create_and_post_ok [OF eu, of "Some a" "src_callback oa" "src_userdata oa" 0 0])
  note f = evt_frameD [OF t(5)]
  show ?thesis
  proof (rule that [OF t(1) _ t(4)])
    show "srcs_inv t Fs (P @ a # R)" by (rule evt_frame_srcs_inv [OF t(5,4) iu])
    show "srcs t = (srcs s)(a \<mapsto> set_when w oa)" using f(1) assms(3,6) by simp
    show "evt_view t e = fire_view (timer_of a oa)"
      using t(2) p by (simp add: evt_view_def fire_view_def timer_of_def new_evt_def)
    show "\<forall>x \<in> set Ev. evt_view t x = evt_view s x"
      using t(2,3) by (auto simp: evt_view_def assms(6))
    show "wait_of t = wait_of s" "wait_ok t" "kernel_view t = kernel_view s" "nclk t = n'"
      using f assms(5,6) by (simp_all add: wait_of_def wait_ok_def)
    have "rl t = (rl u)\<lparr>events := events (rl t), cevents := cevents (rl t), ncevents := ncevents (rl t)\<rparr>"
      by (subst t(5) [unfolded evt_frame_def]) simp
    then show "rl t = (rl s)\<lparr>events := events (rl t), cevents := cevents (rl t), ncevents := ncevents (rl t)\<rparr>"
      by (simp add: assms(6))
  qed
qed

lemma round_fired:
  assumes "round_post Fs P a R (e # Ev) tm' (kept, False, w, n') prev' [] C' t s1"
    and "srcs t = (srcs s)(a \<mapsto> oa)" "evt_view t e = fire_view tm"
    "\<forall>x \<in> set Ev. evt_view t x = evt_view s x" "wait_of t = wait_of s" "kernel_view t = kernel_view s"
    "rl t = (rl s)\<lparr>events := events (rl t), cevents := cevents (rl t), ncevents := ncevents (rl t)\<rparr>"
  shows "round_post Fs P a R Ev tm (kept, True, w, n') prev' [e] C' s s1"
proof -
  have "rl s1 = (rl t)\<lparr>sources := sources (rl s1), events := events (rl s1), cevents := cevents (rl s1),
         ncevents := ncevents (rl s1), timeout := timeout (rl s1)\<rparr>"
    using assms(1) by (simp add: round_post_def)
  also have "\<dots> = (rl s)\<lparr>sources := sources (rl s1), events := events (rl s1), cevents := cevents (rl s1),
         ncevents := ncevents (rl s1), timeout := timeout (rl s1)\<rparr>"
    by (subst assms(7)) simp
  finally have "rl s1 = (rl s)\<lparr>sources := sources (rl s1), events := events (rl s1), cevents := cevents (rl s1),
         ncevents := ncevents (rl s1), timeout := timeout (rl s1)\<rparr>" .
  with assms(1-6) show ?thesis by (simp add: round_post_def)
qed

lemma round_persist:
  assumes "srcs_inv t Fs (P @ a # R)" "evts_inv t Ev C" "srcs t a = Some oa" "timer_wf oa" "wait_ok t"
  obtains s1 where
    "(gwrl_src_disable ops (Some a) t \<bind> (\<lambda>s. upd_src (set_when no_time) (Some a) s \<bind> gather_advance a posted)) =
      Some (Some a, (case R of [] \<Rightarrow> None | b # _ \<Rightarrow> Some b), posted, s1)"
    "round_post Fs P a R Ev tm
      (Some ((timer_of a oa)\<lparr>at_on := False, at_due := None\<rparr>), False, None, nclk t) (Some a) [] C t s1"
proof -
  obtain p where p: "src_part oa = Time_part p" "src_type oa = 1" "0 \<le> time_ms p" "time_ms p \<le> 2 ^ 59"
    using assms(4) by (auto simp: timer_wf_def src_type_defs split: src_part.splits)
  let ?d = "mod_src (src_flclr GWRL_ENABLED) a t"
  let ?s1 = "mod_src (set_when no_time) a ?d"
  have d: "gwrl_src_disable ops (Some a) t = Some ?d"
    using assms(3) p(2) by (simp add: gwrl_src_disable_def mod_src_def src_flclr_def src_type_defs)
  have "upd_src (set_when no_time) (Some a) ?d = Some ?s1"
    using assms(3) by (simp add: mod_src_def)
  with d hd_ptr [OF assms(1,3)] have run:
    "(gwrl_src_disable ops (Some a) t \<bind> (\<lambda>s. upd_src (set_when no_time) (Some a) s \<bind> gather_advance a posted)) =
      Some (Some a, (case R of [] \<Rightarrow> None | b # _ \<Rightarrow> Some b), posted, ?s1)"
    using assms(3) by (simp add: gather_advance_def src_flclr_def)
  have "srcs_inv ?d Fs (P @ a # R)"
    by (rule mod_src_frame [OF _ _ _ assms(1)]) (simp_all add: src_flclr_def)
  then have i: "srcs_inv ?s1 Fs (P @ a # R)" by (rule mod_when_srcs_inv)
  have "evts_inv ?s1 Ev C" by (intro mod_src_evts_inv assms(2))
  moreover have "timer_of a (set_when no_time (src_flclr GWRL_ENABLED oa)) =
      (timer_of a oa)\<lparr>at_on := False, at_due := None\<rparr>"
    using p(1) by (simp add: timer_of_def set_when_def src_flclr_def due_of_def flag_simps)
  moreover have "timer_wf (set_when no_time (src_flclr GWRL_ENABLED oa))"
    using p by (simp add: timer_wf_def set_when_def src_flclr_def flag_simps src_type_defs)
  moreover have "evt_view ?s1 = evt_view t" by (simp add: evt_view_def fun_eq_iff)
  ultimately show ?thesis
    using run i assms(3,5)
    by (intro that [of ?s1]) (simp_all add: round_post_def wait_of_def wait_ok_def min_opt_def split: option.split)
qed

lemma round_delete:
  assumes "srcs_inv t Fs (P @ a # R)" "evts_inv t Ev C" "srcs t a = Some oa" "wait_ok t"
    and "prev = None \<or> P \<noteq> [] \<and> prev = Some (last P)"
  obtains s1 where
    "gwrl_src_del ops (Some a) prev True t = Some s1"
    "src_next oa = (case R of [] \<Rightarrow> None | b # _ \<Rightarrow> Some b)"
    "round_post Fs P a R Ev tm (None, False, None, nclk t) None [] C t s1"
proof -
  obtain s1 where s1: "gwrl_src_del ops (Some a) prev True t = Some s1" "srcs_inv s1 Fs (P @ R)"
    "\<forall>b. b \<noteq> a \<longrightarrow> map_option src_core (srcs s1 b) = map_option src_core (srcs t b)"
    "evts s1 = evts t" "rl s1 = (rl t)\<lparr>sources := sources (rl s1)\<rparr>" "kernel_view s1 = kernel_view t" "nclk s1 = nclk t"
    using timer_del_ok [OF assms(1,5), of ops True] by auto
  have r: "events (rl s1) = events (rl t)" "cevents (rl s1) = cevents (rl t)"
    "ncevents (rl s1) = ncevents (rl t)" "timeout (rl s1) = timeout (rl t)"
    by (subst s1(5), simp)+
  have "evts_inv s1 Ev C"
    by (rule evts_inv_cong [OF s1(4) r(1-3) srcs_invD(4) [OF s1(2)] assms(2)])
  moreover have "evt_view s1 = evt_view t" by (simp add: evt_view_def fun_eq_iff s1(4))
  moreover have "rl s1 = (rl t)\<lparr>sources := sources (rl s1), events := events (rl s1),
      cevents := cevents (rl s1), ncevents := ncevents (rl s1), timeout := timeout (rl s1)\<rparr>"
    by (rule trans [OF s1(5)]) (simp add: r)
  ultimately show ?thesis
    using s1 r(4) assms(4) hd_ptr [OF assms(1,3)]
    by (intro that [of s1]) (simp_all add: round_post_def wait_of_def wait_ok_def min_opt_def split: option.split)
qed

lemma when_ok_sub:
  assumes "when_ok w" "clock_ok s"
  obtains d where "gwtm_timespec_sub_into w (tod_ts s n) = Some d" "ts_normal d"
    "ts_ns d = ts_ns w - ns_clock s n" "gwtm_timespec_is_expired d \<longleftrightarrow> ts_ns w \<le> ns_clock s n"
proof -
  have "ts_normal w" "ts_modest w" using assms(1) by (auto simp: when_ok_def ts_modest_def)
  then obtain d where "gwtm_timespec_sub_into w (tod_ts s n) = Some d" "ts_normal d"
    "ts_ns d = ts_ns w - ts_ns (tod_ts s n)"
    using sub_into_value tod_ts_normal [OF assms(2)] tod_ts_modest [OF assms(2)] by metis
  with that [of d] is_expired_normal [of d] show ?thesis by (auto simp: ns_clock_def)
qed

lemma due_sec:
  assumes "when_ok w" "clock_ok s" "ts_ns w \<le> ns_clock s n"
  shows "ts_sec w \<le> 2 ^ 60"
  using assms(1,3) tod_ts_sec(2) [OF assms(2), of n] tod_ts_normal [OF assms(2), of n]
  by (auto simp: when_ok_def ns_clock_def ts_defs)

lemma round_repeat:
  assumes "srcs_inv t Fs (P @ a # R)" "evts_inv t Ev C" "srcs t a = Some (set_when w oa)" "timer_wf oa"
    and "wait_ok t" "when_ok w" "clock_ok t" "ts_ns w \<le> ns_clock t n" "src_part oa = Time_part p"
  obtains s1 where
    "do { w \<leftarrow> gwtm_add_ms_to_timespec (time_ms p) w;
          s \<leftarrow> upd_src (set_when w) (Some a) t;
          timediff \<leftarrow> gwtm_timespec_sub_into w (tod_ts t n);
          gather_advance a posted (note_timeout timediff s) } =
      Some (Some a, (case R of [] \<Rightarrow> None | b # _ \<Rightarrow> Some b), posted, s1)"
    "round_post Fs P a R Ev (timer_of a (set_when w oa))
      (Some ((timer_of a oa)\<lparr>at_due := Some (ts_ns w + time_ms p * 1000000)\<rparr>), False,
       Some (ts_ns w + time_ms p * 1000000 - ns_clock t n), nclk t) (Some a) [] C t s1"
proof -
  have ms: "0 \<le> time_ms p" "time_ms p \<le> 2 ^ 59" using assms(4,9) by (simp_all add: timer_wf_def)
  have wn: "ts_normal w" "- (2 ^ 60) \<le> ts_sec w" using assms(6) by (simp_all add: when_ok_def)
  obtain w' where w': "gwtm_add_ms_to_timespec (time_ms p) w = Some w'" "when_ok w'"
    "ts_ns w' = ts_ns w + time_ms p * 1000000"
    by (rule add_ms_when [OF ms wn due_sec [OF assms(6,7,8)]])
  obtain d where d: "gwtm_timespec_sub_into w' (tod_ts t n) = Some d" "ts_normal d"
    "ts_ns d = ts_ns w' - ns_clock t n"
    by (rule when_ok_sub [OF w'(2) assms(7)])
  let ?u = "mod_src (set_when w') a t"
  have u: "?u = (mod_src (set_when w') a t)\<lparr>nclk := nclk t\<rparr>" by (simp add: mod_src_def)
  have wf: "timer_wf (set_when w oa)" by (rule timer_wf_set_when [OF assms(4,6)])
  note q = round_quiet [OF assms(1-3) wf assms(5) w'(2) d(2) u, of posted]
  have "timer_of a (set_when w oa) = (timer_of a oa)\<lparr>at_due := due_of w\<rparr>"
    by (rule timer_of_set_when [OF assms(9)])
  with q d w' show ?thesis
    by (intro that [of "note_timeout d ?u"]) (simp_all add: upd_src_mod [OF assms(3)])
qed

lemma gather_one_on:
  assumes "at_on t" "due = (case at_due t of Some d \<Rightarrow> d | None \<Rightarrow> T (Suc n) + at_ms t * 1000000)"
    and "n' = (if \<not> at_abs t \<and> at_due t = None then Suc (Suc n) else Suc n)"
  shows "gather_one T n t =
    (if due \<le> T n
     then (if at_rep t
           then (Some (t\<lparr>at_due := Some (due + at_ms t * 1000000)\<rparr>), True,
                 Some (due + at_ms t * 1000000 - T n), n')
           else if at_pers t then (Some (t\<lparr>at_on := False, at_due := None\<rparr>), True, None, n')
           else (None, True, None, n'))
     else (Some (t\<lparr>at_due := Some due\<rparr>), False, Some (due - T n), n'))"
  unfolding gather_one_def Let_def assms(2,3) [symmetric] using assms(1) by simp

lemma time_gather_step_ok:
  assumes "srcs_inv s Fs (P @ a # R)" "evts_inv s Ev C" "srcs s a = Some oa" "timer_wf oa" "wait_ok s"
    and "clock_ok s" "prev = None \<or> P \<noteq> [] \<and> prev = Some (last P)"
    and out: "out = gather_one (ns_clock s) (nclk s) (timer_of a oa)"
  shows "\<exists>prev' Ev' C' s1.
    time_gather_step ops prev a posted s =
      Some (prev', (case R of [] \<Rightarrow> None | b # _ \<Rightarrow> Some b), posted \<or> fst (snd out), s1) \<and>
    round_post Fs P a R Ev (timer_of a oa) out prev' Ev' C' s s1"
proof -
  obtain p where p: "src_part oa = Time_part p" using assms(4) by (auto simp: timer_wf_def split: src_part.splits)
  define tm where "tm = timer_of a oa"
  have tm: "at_on tm = flisset (src_flags oa) GWRL_ENABLED" "at_rep tm = flisset (src_flags oa) GWRL_REPEAT"
    "at_pers tm = flisset (src_flags oa) GWRL_PERSIST" "at_ms tm = time_ms p"
    using p by (simp_all add: tm_def timer_of_def)
  show ?thesis
  proof (cases "at_on tm")
    case False
    with assms hd_ptr [OF assms(1,3)] tm show ?thesis
      by (intro exI [of _ "Some a"] exI [of _ "[]"] exI [of _ C] exI [of _ s])
         (simp add: time_gather_step_def gather_advance_def gather_one_def round_post_def min_opt_def
            tm_def split: option.split)
  next
    case True
    then have on: "flisset (src_flags oa) GWRL_ENABLED" using tm by simp
    define n' where "n' = (if \<not> at_abs tm \<and> at_due tm = None then Suc (Suc (nclk s)) else Suc (nclk s))"
    obtain w u where w: "time_gather_due a oa s = Some (tod_ts s (nclk s), w, u)" "when_ok w"
      "u = (mod_src (set_when w) a s)\<lparr>nclk := n'\<rparr>"
      "ts_ns w = (case at_due tm of Some d \<Rightarrow> d | None \<Rightarrow> ns_clock s (Suc (nclk s)) + at_ms tm * 1000000)"
      by (rule time_gather_due_ok [OF assms(3,4) on assms(6) tm_def]) (simp add: n'_def)
    obtain d where d: "gwtm_timespec_sub_into w (tod_ts s (nclk s)) = Some d" "ts_normal d"
      "ts_ns d = ts_ns w - ns_clock s (nclk s)"
      "gwtm_timespec_is_expired d \<longleftrightarrow> ts_ns w \<le> ns_clock s (nclk s)"
      by (rule when_ok_sub [OF w(2) assms(6)])
    note one = gather_one_on [where T = "ns_clock s" and n = "nclk s", OF True w(4) n'_def, folded out [folded tm_def]]
    show ?thesis
    proof (cases "ts_ns w \<le> ns_clock s (nclk s)")
      case False
      note q = round_quiet [OF assms(1-5) w(2) d(2) w(3), of posted]
      have "out = (Some (tm\<lparr>at_due := Some (ts_ns w)\<rparr>), False, Some (ts_ns d), n')"
        using False d(3) by (simp add: one)
      with q False d on w(1) assms(3) show ?thesis
        by (intro exI [of _ "Some a"] exI [of _ "[]"] exI [of _ C] exI [of _ "note_timeout d u"])
           (simp add: time_gather_step_def tm_def)
    next
      case due: True
      obtain e t where t:
        "create_and_post (Some a) (src_callback oa) (src_userdata oa) 0 0 u = Some t"
        "srcs_inv t Fs (P @ a # R)" "evts_inv t (e # Ev) (tl C)" "srcs t = (srcs s)(a \<mapsto> set_when w oa)"
        "evt_view t e = fire_view tm" "\<forall>x \<in> set Ev. evt_view t x = evt_view s x"
        "wait_of t = wait_of s" "wait_ok t" "kernel_view t = kernel_view s" "nclk t = n'"
        "rl t = (rl s)\<lparr>events := events (rl t), cevents := cevents (rl t), ncevents := ncevents (rl t)\<rparr>"
        unfolding tm_def by (rule round_post_event [OF assms(1-5) w(3)])
      have st: "srcs t a = Some (set_when w oa)" using t(4) by simp
      have ck: "clock_ok t" "tod_ts t = tod_ts s" "ns_clock t = ns_clock s"
        using assms(6) kernel_viewD(1) [OF t(9)] by (simp_all add: clock_ok_def tod_ts_def ns_clock_def fun_eq_iff)
      have step: "time_gather_step ops prev a posted s = time_gather_fire ops prev a oa (tod_ts s (nclk s)) w u"
        using on due d w(1) assms(3) by (simp add: time_gather_step_def)
      note fired = round_fired [OF _ t(4-7,9,11)]
      consider (rep) "at_rep tm" | (pers) "\<not> at_rep tm" "at_pers tm" | (once) "\<not> at_rep tm" "\<not> at_pers tm"
        by blast
      then show ?thesis
      proof cases
        case rep
        have due': "ts_ns w \<le> ns_clock t (nclk s)" using due ck(3) by simp
        let ?n = "nclk s"
        obtain s1 where s1: "do { w \<leftarrow> gwtm_add_ms_to_timespec (time_ms p) w;
            s \<leftarrow> upd_src (set_when w) (Some a) t;
            timediff \<leftarrow> gwtm_timespec_sub_into w (tod_ts t ?n);
            gather_advance a True (note_timeout timediff s) } =
          Some (Some a, (case R of [] \<Rightarrow> None | b # _ \<Rightarrow> Some b), True, s1)"
          "round_post Fs P a R (e # Ev) (timer_of a (set_when w oa))
            (Some ((timer_of a oa)\<lparr>at_due := Some (ts_ns w + time_ms p * 1000000)\<rparr>), False,
             Some (ts_ns w + time_ms p * 1000000 - ns_clock t (nclk s)), nclk t) (Some a) [] (tl C) t s1"
          by (rule round_repeat [OF t(2,3) st assms(4) t(8) w(2) ck(1) due' p])
        have "out = (Some (tm\<lparr>at_due := Some (ts_ns w + time_ms p * 1000000)\<rparr>), True,
             Some (ts_ns w + time_ms p * 1000000 - ns_clock t (nclk s)), nclk t)"
          using due rep tm(4) t(10) ck(3) by (simp add: one)
        with fired [OF s1(2) [folded tm_def]] s1(1) step t(1) p rep tm(2) ck(2) show ?thesis
          by (intro exI [of _ "Some a"] exI [of _ "[e]"] exI [of _ "tl C"] exI [of _ s1])
             (simp add: time_gather_fire_def as_time_def flip: tm_def)
      next
        case pers
        obtain s1 where s1: "(gwrl_src_disable ops (Some a) t \<bind>
            (\<lambda>s. upd_src (set_when no_time) (Some a) s \<bind> gather_advance a True)) =
            Some (Some a, (case R of [] \<Rightarrow> None | b # _ \<Rightarrow> Some b), True, s1)"
          "round_post Fs P a R (e # Ev) tm
            (Some ((timer_of a (set_when w oa))\<lparr>at_on := False, at_due := None\<rparr>), False, None, nclk t)
            (Some a) [] (tl C) t s1"
          by (rule round_persist [OF t(2,3) st timer_wf_set_when [OF assms(4) w(2)] t(8)])
        have "(timer_of a (set_when w oa))\<lparr>at_on := False, at_due := None\<rparr> = tm\<lparr>at_on := False, at_due := None\<rparr>"
          by (simp add: timer_of_set_when [OF p] tm_def)
        moreover have "out = (Some (tm\<lparr>at_on := False, at_due := None\<rparr>), True, None, nclk t)"
          using due pers t(10) by (simp add: one)
        ultimately show ?thesis
          using fired [OF s1(2)] s1(1) step t(1) pers tm(2,3)
          by (intro exI [of _ "Some a"] exI [of _ "[e]"] exI [of _ "tl C"] exI [of _ s1])
             (simp add: time_gather_fire_def flip: tm_def)
      next
        case once
        obtain s1 where s1: "gwrl_src_del ops (Some a) prev True t = Some s1"
          "src_next (set_when w oa) = (case R of [] \<Rightarrow> None | b # _ \<Rightarrow> Some b)"
          "round_post Fs P a R (e # Ev) tm (None, False, None, nclk t) None [] (tl C) t s1"
          by (rule round_delete [OF t(2,3) st t(8) assms(7)])
        have "out = (None, True, None, nclk t)"
          using due once t(10) by (simp add: one)
        with fired [OF s1(3)] s1(1,2) step t(1) once tm(2,3) st show ?thesis
          by (intro exI [of _ None] exI [of _ "[e]"] exI [of _ "tl C"] exI [of _ s1])
             (simp add: time_gather_fire_def flip: tm_def)
      qed
    qed
  qed
qed

subsection \<open>The whole pass\<close>

lemma src_core_call:
  "src_core o1 = src_core o2 \<Longrightarrow> src_callback o1 = src_callback o2"
  "src_core o1 = src_core o2 \<Longrightarrow> src_userdata o1 = src_userdata o2"
  unfolding src_core_def by (metis gwrlsrc.select_convs gwrlsrc.update_convs(6) gwrlsrc.surjective)+

lemma timer_of_id [simp]: "at_id (timer_of a o1) = a"
  by (simp add: timer_of_def split: src_part.split)

lemma core_timer:
  assumes "map_option src_core (srcs s' b) = map_option src_core (srcs s b)"
  shows "timer_at s' b = timer_at s b" "timers_wf s' [b] \<longleftrightarrow> timers_wf s [b]"
proof -
  have "timer_at s' b = timer_at s b \<and> (timers_wf s' [b] \<longleftrightarrow> timers_wf s [b])"
  proof (cases "srcs s b")
    case None
    with assms show ?thesis by (simp add: timer_at_def timers_wf_def)
  next
    case (Some o2)
    with assms obtain o1 where o1: "srcs s' b = Some o1" "src_core o1 = src_core o2" by auto
    with Some src_core_fields [OF o1(2)] src_core_call [OF o1(2)] show ?thesis
      by (cases "src_part o2") (simp_all add: timer_at_def timers_wf_def timer_of_def timer_wf_def)
  qed
  then show "timer_at s' b = timer_at s b" "timers_wf s' [b] \<longleftrightarrow> timers_wf s [b]" by simp_all
qed

lemma timers_wf_Cons: "timers_wf s (a # R) \<longleftrightarrow> timers_wf s [a] \<and> timers_wf s R"
  by (simp add: timers_wf_def)

lemma timers_wf_core:
  assumes "\<And>b. b \<in> set R \<Longrightarrow> map_option src_core (srcs s' b) = map_option src_core (srcs s b)"
  shows "timers_wf s' R \<longleftrightarrow> timers_wf s R" "map (timer_at s') R = map (timer_at s) R"
  using assms
proof (induction R)
  case Nil
  { case 1 then show ?case by (simp add: timers_wf_def) next case 2 then show ?case by simp }
next
  case (Cons b R)
  { case 1 then show ?case
      using Cons.IH(1) core_timer(2) [of s' b s] by (simp add: timers_wf_Cons [of _ b R])
  next case 2 then show ?case using Cons.IH(2) core_timer(1) [of s' b s] by simp }
qed

definition pass_post :: "addr list \<Rightarrow> addr list \<Rightarrow> addr list \<Rightarrow> addr list \<Rightarrow> atimer list \<Rightarrow> atimer list
    \<Rightarrow> int option \<Rightarrow> nat \<Rightarrow> ('b, 'z) world_scheme \<Rightarrow> ('b, 'z) world_scheme \<Rightarrow> bool" where
  "pass_post Fs P R Ev ks fs wait m s s' \<longleftrightarrow>
     srcs_inv s' Fs (P @ map at_id ks) \<and> map (timer_at s') (map at_id ks) = ks \<and>
     timers_wf s' (map at_id ks) \<and>
     (\<forall>b. b \<notin> set R \<longrightarrow> map_option src_core (srcs s' b) = map_option src_core (srcs s b)) \<and>
     (\<exists>Ev' C'. evts_inv s' (Ev' @ Ev) C' \<and> map (evt_view s') Ev' = map fire_view (rev fs)) \<and>
     (\<forall>x \<in> set Ev. evt_view s' x = evt_view s x) \<and>
     wait_of s' = wait \<and> wait_ok s' \<and> nclk s' = m \<and> kernel_view s' = kernel_view s \<and>
     rl s' = (rl s)\<lparr>sources := sources (rl s'), events := events (rl s'), cevents := cevents (rl s'),
       ncevents := ncevents (rl s'), timeout := timeout (rl s')\<rparr>"

lemma time_gather_loop_ok:
  assumes "srcs_inv s Fs (P @ R)" "evts_inv s Ev C" "timers_wf s R" "wait_ok s" "clock_ok s"
    and "prev = None \<or> P \<noteq> [] \<and> prev = Some (last P)"
    and "gather_spec (ns_clock s) (nclk s) (wait_of s) (map (timer_at s) R) = (ks, fs, wait, m)"
  shows "\<exists>s'. time_gather_loop ops prev (case R of [] \<Rightarrow> None | b # _ \<Rightarrow> Some b) posted s =
      Some (posted \<or> fs \<noteq> [], s') \<and> pass_post Fs P R Ev ks fs wait m s s'"
  using assms
proof (induction R arbitrary: s P Ev C prev posted ks fs)
  case Nil
  then show ?case
    by (intro exI [of _ s])
       (auto simp: time_gather_loop.simps pass_post_def timers_wf_def intro!: exI [of _ "[]"] exI [of _ C])
next
  case (Cons a R)
  from Cons.prems(3) obtain oa where oa: "srcs s a = Some oa" "timer_wf oa"
    by (auto simp: timers_wf_def split: option.splits)
  have ta: "timer_at s a = timer_of a oa" using oa(1) by (simp add: timer_at_def)
  obtain kept fires w n' where out: "gather_one (ns_clock s) (nclk s) (timer_of a oa) = (kept, fires, w, n')"
    by (cases "gather_one (ns_clock s) (nclk s) (timer_of a oa)") auto
  obtain prev' Ev1 C1 s1 where st: "time_gather_step ops prev a posted s =
      Some (prev', (case R of [] \<Rightarrow> None | b # _ \<Rightarrow> Some b), posted \<or> fires, s1)"
    "round_post Fs P a R Ev (timer_of a oa) (kept, fires, w, n') prev' Ev1 C1 s s1"
    using time_gather_step_ok [OF Cons.prems(1,2) oa Cons.prems(4-6) out [symmetric], of ops posted] by auto
  define K where "K = (if kept = None then [] else [a])"
  note r = st(2) [unfolded round_post_def prod.case, folded K_def]
  from r have i1: "srcs_inv s1 Fs ((P @ K) @ R)" and e1: "evts_inv s1 (Ev1 @ Ev) C1"
    and core: "\<And>b. b \<noteq> a \<Longrightarrow> map_option src_core (srcs s1 b) = map_option src_core (srcs s b)"
    and kv: "kernel_view s1 = kernel_view s" and v1: "map (evt_view s1) Ev1 = (if fires then [fire_view (timer_of a oa)] else [])"
      "\<forall>x \<in> set Ev. evt_view s1 x = evt_view s x"
    and w1: "wait_ok s1" "wait_of s1 = min_opt (wait_of s) w" "nclk s1 = n'"
    and k1: "\<forall>k. kept = Some k \<longrightarrow> (\<exists>o1. srcs s1 a = Some o1 \<and> timer_of a o1 = k \<and> timer_wf o1)"
    and rl1: "rl s1 = (rl s)\<lparr>sources := sources (rl s1), events := events (rl s1), cevents := cevents (rl s1),
         ncevents := ncevents (rl s1), timeout := timeout (rl s1)\<rparr>"
    by auto
  have aR: "a \<notin> set R" using srcs_inv_distinct(2) [OF Cons.prems(1)] by simp
  have wfR: "timers_wf s1 R" and tR: "map (timer_at s1) R = map (timer_at s) R"
    using timers_wf_core [of R s1 s] core aR Cons.prems(3) timers_wf_Cons by (metis, metis)
  have ck: "clock_ok s1" "ns_clock s1 = ns_clock s"
    using Cons.prems(5) kernel_viewD(1) [OF kv] by (simp_all add: clock_ok_def ns_clock_def tod_ts_def fun_eq_iff)
  have p1: "prev' = None \<or> P @ K \<noteq> [] \<and> prev' = Some (last (P @ K))"
    using r by (auto simp: K_def)
  obtain ks' fs' where sp: "gather_spec (ns_clock s1) (nclk s1) (wait_of s1) (map (timer_at s1) R) = (ks', fs', wait, m)"
    "ks = (case kept of None \<Rightarrow> ks' | Some k \<Rightarrow> k # ks')" "fs = (if fires then timer_of a oa # fs' else fs')"
    using Cons.prems(7) by (simp add: ta out w1 tR ck(2) split: prod.splits)
  obtain s' where s': "time_gather_loop ops prev' (case R of [] \<Rightarrow> None | b # _ \<Rightarrow> Some b) (posted \<or> fires) s1 =
      Some ((posted \<or> fires) \<or> fs' \<noteq> [], s')" "pass_post Fs (P @ K) R (Ev1 @ Ev) ks' fs' wait m s1 s'"
    using Cons.IH [OF i1 e1 wfR w1(1) ck(1) p1 sp(1)] by blast
  note q = s'(2) [unfolded pass_post_def]
  from q obtain Ev2 C2 where e2: "evts_inv s' (Ev2 @ Ev1 @ Ev) C2" "map (evt_view s') Ev2 = map fire_view (rev fs')"
    by blast
  have "map_option src_core (srcs s' a) = map_option src_core (srcs s1 a)" using q aR by blast
  note ca = core_timer [OF this]
  have kk: "map at_id ks = K @ map at_id ks'" "timers_wf s' (map at_id ks)" "map (timer_at s') (map at_id ks) = ks"
  proof -
    have "at_id k = a \<and> timer_at s' a = k \<and> timers_wf s' [a]" if k: "kept = Some k" for k
    proof -
      obtain o1 where "srcs s1 a = Some o1" "timer_of a o1 = k" "timer_wf o1" using k1 k by blast
      then have "timer_at s1 a = k" "timers_wf s1 [a]" "at_id k = a" by (auto simp: timer_at_def timers_wf_def)
      with ca show ?thesis by simp
    qed
    with q show "map at_id ks = K @ map at_id ks'" "timers_wf s' (map at_id ks)" "map (timer_at s') (map at_id ks) = ks"
      using timers_wf_Cons [of s' a "map at_id ks'"] by (cases kept; simp add: sp(2) K_def)+
  qed
  have "map (evt_view s') Ev1 = map (evt_view s1) Ev1" "\<forall>x \<in> set Ev. evt_view s' x = evt_view s1 x"
    using q by auto
  then have v2: "map (evt_view s') (Ev2 @ Ev1) = map fire_view (rev fs)"
    "\<forall>x \<in> set Ev. evt_view s' x = evt_view s x"
    using e2(2) v1 by (simp_all add: sp(3))
  have "rl s' = (rl s1)\<lparr>sources := sources (rl s'), events := events (rl s'), cevents := cevents (rl s'),
         ncevents := ncevents (rl s'), timeout := timeout (rl s')\<rparr>"
    using q by blast
  then have "rl s' = (rl s)\<lparr>sources := sources (rl s'), events := events (rl s'), cevents := cevents (rl s'),
         ncevents := ncevents (rl s'), timeout := timeout (rl s')\<rparr>"
    by (rule trans) (subst rl1, simp)
  moreover have "\<exists>Ev' C'. evts_inv s' (Ev' @ Ev) C' \<and> map (evt_view s') Ev' = map fire_view (rev fs)"
    using e2(1) v2(1) by (intro exI [of _ "Ev2 @ Ev1"] exI [of _ C2]) simp
  moreover have "\<forall>b. b \<notin> set (a # R) \<longrightarrow> map_option src_core (srcs s' b) = map_option src_core (srcs s b)"
    using q core by simp
  moreover have "srcs_inv s' Fs (P @ map at_id ks)" using q by (simp only: kk(1) append_assoc)
  ultimately have "pass_post Fs P (a # R) Ev ks fs wait m s s'"
    unfolding pass_post_def using q kk(2,3) v2(2) kv by simp
  moreover have "time_gather_loop ops prev (case a # R of [] \<Rightarrow> None | b # _ \<Rightarrow> Some b) posted s =
      Some (posted \<or> fs \<noteq> [], s')"
    using st(1) s'(1) by (simp add: time_gather_loop.simps [of ops prev "Some a"] sp(3))
  ultimately show ?case by blast
qed

lemma gather_spec_wait_le:
  "gather_spec T n wait ts = (ks, fs, wait', m) \<Longrightarrow> wait = Some v \<Longrightarrow> \<exists>w. wait' = Some w \<and> w \<le> v"
proof (induction T n wait ts arbitrary: ks fs wait' m v rule: gather_spec.induct)
  case (1 T n wait)
  then show ?case by auto
next
  case (2 T n wait t ts)
  obtain kept fires w n' where o: "gather_one T n t = (kept, fires, w, n')"
    by (cases "gather_one T n t") auto
  obtain ks1 fs1 w1 m1 where g: "gather_spec T n' (min_opt wait w) ts = (ks1, fs1, w1, m1)"
    by (cases "gather_spec T n' (min_opt wait w) ts") auto
  have "\<exists>u. min_opt wait w = Some u \<and> u \<le> v"
    using "2.prems"(2) by (auto simp: min_opt_def split: option.split)
  then obtain u where "min_opt wait w = Some u" "u \<le> v" by blast
  from "2.IH" [OF o [symmetric] refl refl refl g this(1)] this(2) "2.prems"(1)
  show ?case by (auto simp: o g)
qed

lemma gather_spec_wait:
  assumes "mono T" "gather_spec T n wait ts = (ks, fs, wait', m)" "fs = []" "k \<in> set ks" "at_on k"
  shows "\<exists>d w. at_due k = Some d \<and> wait' = Some w \<and> T n + w \<le> d"
  using assms
proof (induction T n wait ts arbitrary: ks fs wait' m rule: gather_spec.induct)
  case (1 T n wait)
  then show ?case by simp
next
  case (2 T n wait t ts)
  obtain kept fires w n' where o: "gather_one T n t = (kept, fires, w, n')"
    by (cases "gather_one T n t") auto
  obtain ks1 fs1 w1 m1 where g: "gather_spec T n' (min_opt wait w) ts = (ks1, fs1, w1, m1)"
    by (cases "gather_spec T n' (min_opt wait w) ts") auto
  from "2.prems"(2,3) o g have r: "\<not> fires" "fs1 = []" "wait' = w1"
    "ks = (case kept of None \<Rightarrow> ks1 | Some k1 \<Rightarrow> k1 # ks1)"
    by (auto split: if_splits)
  have n: "T n \<le> T n'" if "at_on t"
    using o that by (intro monoD [OF "2.prems"(1)]) (auto simp: gather_one_def Let_def split: if_splits)
  consider "kept = Some k" | "k \<in> set ks1" using r(4) "2.prems"(4) by (cases kept) auto
  then show ?case
  proof cases
    case 1
    with o r(1) "2.prems"(5) obtain d where d: "at_due k = Some d" "w = Some (d - T n)" "at_on t"
      by (auto simp: gather_one_def Let_def split: if_splits)
    have "\<exists>u. min_opt wait w = Some u \<and> u \<le> d - T n"
      by (cases wait) (simp_all add: min_opt_def d(2))
    then obtain u where "min_opt wait w = Some u" "u \<le> d - T n" by blast
    with gather_spec_wait_le [OF g] d(1) r(3) show ?thesis by fastforce
  next
    case 2
    have "T n \<le> T n'"
      using o by (intro monoD [OF "2.prems"(1)]) (auto simp: gather_one_def Let_def split: if_splits)
    with "2.IH" [OF o [symmetric] refl refl refl "2.prems"(1) g r(2) 2 "2.prems"(5)] r(3)
    show ?thesis by fastforce
  qed
qed

lemma gather_ok:
  assumes "srcs_inv s Fs Ts" "evts_inv s Ev C" "timers_wf s Ts" "timeout (rl s) = no_time" "clock_ok s"
    and "gather_spec (ns_clock s) (nclk s) None (map (timer_at s) Ts) = (ks, fs, wait, m)"
  obtains s1 where "pass_post Fs [] Ts Ev ks fs wait m s s1"
    "gwrl_time_gather ops s = Some (if fs = [] then s1 else
       s1\<lparr>rl := (rl s1)\<lparr>timeout := \<lparr>ts_sec = 0, ts_nsec = 0\<rparr>\<rparr>\<rparr>)"
proof -
  have w: "wait_ok s" "wait_of s = None" using assms(4) by (simp_all add: wait_ok_def wait_of_def due_of_def)
  have h: "sources (rl s) ! 1 = (case Ts of [] \<Rightarrow> None | b # _ \<Rightarrow> Some b)"
    using srcs_invD(3) [OF assms(1)] by (cases Ts) auto
  obtain s1 where s1: "time_gather_loop ops None (case Ts of [] \<Rightarrow> None | b # _ \<Rightarrow> Some b) False s =
      Some (False \<or> fs \<noteq> [], s1)" "pass_post Fs [] Ts Ev ks fs wait m s s1"
    using time_gather_loop_ok [of s Fs "[]" Ts Ev C None ks fs wait m ops False] assms w by auto
  have "gwrl_time_gather ops s = Some (if fs = [] then s1 else
       s1\<lparr>rl := (rl s1)\<lparr>timeout := \<lparr>ts_sec = 0, ts_nsec = 0\<rparr>\<rparr>\<rparr>)"
    using s1(1) h srcs_invD(1) [OF assms(1)]
    by (simp add: gwrl_time_gather_def nth_opt_def src_type_defs)
  with s1(2) that show ?thesis by blast
qed

subsection \<open>Properties\<close>

text \<open>
  C1: \<^verbatim>\<open>gwrl_time_gather\<close> implements the timer specification, whatever the clock reads: it
  ends, it keeps exactly the timers the specification keeps, in their order and with their
  new deadlines and flags, it posts exactly one event per timer that is due, newest first
  in front of the events already posted, each with its source, callback and user data,
  and the wait it leaves for the backend is zero when a timer fired and the shortest time
  to a deadline otherwise. File sources are not touched.
\<close>
theorem time_gather_refines:
  assumes "srcs_inv s Fs Ts" "evts_inv s Ev C" "timers_wf s Ts" "timeout (rl s) = no_time" "clock_ok s"
    and "gather_spec (ns_clock s) (nclk s) None (map (timer_at s) Ts) = (ks, fs, wait, m)"
  shows "\<exists>s' Ev' C'. gwrl_time_gather ops s = Some s' \<and>
    srcs_inv s' Fs (map at_id ks) \<and> map (timer_at s') (map at_id ks) = ks \<and> timers_wf s' (map at_id ks) \<and>
    evts_inv s' (Ev' @ Ev) C' \<and> map (evt_view s') Ev' = map fire_view (rev fs) \<and>
    (\<forall>x \<in> set Ev. evt_view s' x = evt_view s x) \<and>
    wait_of s' = (if fs = [] then wait else Some 0) \<and>
    (\<forall>b. b \<notin> set Ts \<longrightarrow> map_option src_core (srcs s' b) = map_option src_core (srcs s b))"
proof -
  obtain s1 where s1: "pass_post Fs [] Ts Ev ks fs wait m s s1"
    "gwrl_time_gather ops s = Some (if fs = [] then s1 else
       s1\<lparr>rl := (rl s1)\<lparr>timeout := \<lparr>ts_sec = 0, ts_nsec = 0\<rparr>\<rparr>\<rparr>)"
    by (rule gather_ok [OF assms])
  define s' where "s' = (if fs = [] then s1 else s1\<lparr>rl := (rl s1)\<lparr>timeout := \<lparr>ts_sec = 0, ts_nsec = 0\<rparr>\<rparr>\<rparr>)"
  have same: "srcs s' = srcs s1" "evts s' = evts s1" "sources (rl s') = sources (rl s1)" "brk s' = brk s1"
    "events (rl s') = events (rl s1)" "cevents (rl s') = cevents (rl s1)" "ncevents (rl s') = ncevents (rl s1)"
    by (simp_all add: s'_def)
  note q = s1(1) [unfolded pass_post_def]
  have fr: "fresh_ok s'" using q same by (auto simp: fresh_ok_def srcs_inv_def)
  from q obtain Ev' C' where e: "evts_inv s1 (Ev' @ Ev) C'" "map (evt_view s1) Ev' = map fire_view (rev fs)"
    by blast
  have "srcs_inv s' Fs (map at_id ks)" using srcs_inv_cong [OF same(1,3) fr] q by simp
  moreover have "evts_inv s' (Ev' @ Ev) C'" by (rule evts_inv_cong [OF same(2,5-7) fr e(1)])
  moreover have "evt_view s' = evt_view s1" "timer_at s' = timer_at s1" "timers_wf s' = timers_wf s1"
    by (simp_all add: evt_view_def timer_at_def timers_wf_def fun_eq_iff same)
  moreover have "wait_of s' = (if fs = [] then wait else Some 0)"
  proof (cases "fs = []")
    case True
    with q show ?thesis by (simp add: s'_def)
  next
    case False
    then show ?thesis by (simp add: s'_def wait_of_def due_of_def no_time_def ts_ns_def)
  qed
  moreover have "gwrl_time_gather ops s = Some s'" using s1(2) by (simp add: s'_def)
  ultimately show ?thesis
    using q e same(1) by (intro exI [of _ s'] exI [of _ Ev'] exI [of _ C']) simp
qed

text \<open>
  C29: the reactor never sleeps past a deadline. If the clock does not run backwards and no
  timer fired, then for every enabled timer left, the wait handed to the backend, counted
  from the first reading of the clock, ends no later than that timer's deadline.
\<close>
theorem time_gather_no_oversleep:
  assumes "srcs_inv s Fs Ts" "evts_inv s Ev C" "timers_wf s Ts" "timeout (rl s) = no_time" "clock_ok s"
    and "mono (ns_clock s)"
  shows "\<exists>s' Ts'. gwrl_time_gather ops s = Some s' \<and> srcs_inv s' Fs Ts' \<and>
    (wait_of s' = Some 0 \<or>
     (\<forall>a \<in> set Ts'. at_on (timer_at s' a) \<longrightarrow>
        (\<exists>d w. at_due (timer_at s' a) = Some d \<and> wait_of s' = Some w \<and> ns_clock s (nclk s) + w \<le> d)))"
proof -
  obtain ks fs wait m where g: "gather_spec (ns_clock s) (nclk s) None (map (timer_at s) Ts) = (ks, fs, wait, m)"
    by (cases "gather_spec (ns_clock s) (nclk s) None (map (timer_at s) Ts)") auto
  obtain s1 where s1: "pass_post Fs [] Ts Ev ks fs wait m s s1"
    "gwrl_time_gather ops s = Some (if fs = [] then s1 else
       s1\<lparr>rl := (rl s1)\<lparr>timeout := \<lparr>ts_sec = 0, ts_nsec = 0\<rparr>\<rparr>\<rparr>)"
    by (rule gather_ok [OF assms(1-5) g])
  note q = s1(1) [unfolded pass_post_def]
  show ?thesis
  proof (cases "fs = []")
    case True
    have b: "\<exists>d w. at_due (timer_at s1 a) = Some d \<and> wait_of s1 = Some w \<and> ns_clock s (nclk s) + w \<le> d"
      if a: "a \<in> set (map at_id ks)" and on: "at_on (timer_at s1 a)" for a
    proof -
      from a obtain k where k: "k \<in> set ks" "a = at_id k" by auto
      have "map (timer_at s1 \<circ> at_id) ks = map id ks" using q by simp
      then have "timer_at s1 a = k" using k by (simp only: map_eq_conv) simp
      with gather_spec_wait [OF assms(6) g True k(1)] on q show ?thesis by simp
    qed
    with s1(2) True q show ?thesis by (intro exI [of _ s1] exI [of _ "map at_id ks"]) simp
  next
    case False
    let ?s' = "s1\<lparr>rl := (rl s1)\<lparr>timeout := \<lparr>ts_sec = 0, ts_nsec = 0\<rparr>\<rparr>\<rparr>"
    have "fresh_ok ?s'" using q by (auto simp: fresh_ok_def srcs_inv_def)
    then have "srcs_inv ?s' Fs (map at_id ks)"
      using srcs_inv_cong [of ?s' s1] q by simp
    with s1(2) False show ?thesis
      by (intro exI [of _ ?s'] exI [of _ "map at_id ks"]) (simp add: wait_of_def due_of_def no_time_def ts_ns_def)
  qed
qed

text \<open>Three timers with room in the event cache; the clock stands at second 5.\<close>

definition due_timers :: "unit world" where
  "due_timers = three_timers\<lparr>nclk := 5, tod := (\<lambda>n. \<lparr>tv_sec = 5, tv_usec = 0\<rparr>),
     rl := (rl three_timers)\<lparr>timeout := no_time\<rparr>\<rparr>"

lemma due_timers_facts:
  "srcs_inv due_timers [] [1, 2, 3]" "evts_inv due_timers [] []" "timers_wf due_timers [1, 2, 3]"
  "timeout (rl due_timers) = no_time" "clock_ok due_timers" "mono (ns_clock due_timers)"
proof -
  have fr: "fresh_ok due_timers"
    using srcs_invD(4) [OF three_timers_inv] by (simp add: due_timers_def fresh_ok_def)
  show "srcs_inv due_timers [] [1, 2, 3]"
    by (rule srcs_inv_cong [OF _ _ fr three_timers_inv]) (simp_all add: due_timers_def)
  show "evts_inv due_timers [] []"
    using fr by (simp add: evts_inv_def cache_ok_def due_timers_def three_timers_def zero_gwrl_def)
  show "timers_wf due_timers [1, 2, 3]"
    by (simp add: timers_wf_def due_timers_def three_timers_def timer_wf_def timer_src_def when_ok_def
        ts_normal_def timer_flags_def flag_simps bit_or_iff)
  show "timeout (rl due_timers) = no_time" by (simp add: due_timers_def)
  show "clock_ok due_timers" by (simp add: due_timers_def clock_ok_def tv_normal_def)
  show "mono (ns_clock due_timers)" by (simp add: mono_def ns_clock_def tod_ts_def due_timers_def)
qed

lemma due_timers_spec:
  "\<exists>k1 k2 f3 m. gather_spec (ns_clock due_timers) (nclk due_timers) None (map (timer_at due_timers) [1, 2, 3]) =
     ([k1, k2], [f3], Some 100000000, m) \<and> at_id k1 = 1 \<and> at_due k1 = Some 5100000000 \<and> at_id k2 = 2 \<and>
     fire_view f3 = (Some 3, Some (Fn_user 3), None)"
  by (simp add: ns_clock_def tod_ts_def due_timers_def timer_at_def three_timers_def timer_of_def timer_src_def
      timer_flags_def flag_simps bit_or_iff gather_one_def Let_def due_of_def no_time_def ts_ns_def min_opt_def
      fire_view_def)

theorem time_gather_refines_witness:
  "\<forall>ops. \<exists>s' e C'. gwrl_time_gather ops due_timers = Some s' \<and> srcs_inv s' [] [1, 2] \<and>
    at_due (timer_at s' 1) = Some 5100000000 \<and> evts_inv s' [e] C' \<and>
    evt_view s' e = (Some 3, Some (Fn_user 3), None) \<and> wait_of s' = Some 0"
proof
  fix ops
  obtain k1 k2 f3 m where g: "gather_spec (ns_clock due_timers) (nclk due_timers) None
      (map (timer_at due_timers) [1, 2, 3]) = ([k1, k2], [f3], Some 100000000, m)"
    "at_id k1 = 1" "at_due k1 = Some 5100000000" "at_id k2 = 2" "fire_view f3 = (Some 3, Some (Fn_user 3), None)"
    using due_timers_spec by blast
  obtain s' Ev' C' where "gwrl_time_gather ops due_timers = Some s'" "srcs_inv s' [] (map at_id [k1, k2])"
    "map (timer_at s') (map at_id [k1, k2]) = [k1, k2]" "evts_inv s' (Ev' @ []) C'"
    "map (evt_view s') Ev' = map fire_view (rev [f3])" "wait_of s' = (if [f3] = [] then Some 100000000 else Some 0)"
    using time_gather_refines [OF due_timers_facts(1-5) g(1), of ops]
    by (elim exE conjE) (rule that)
  with g show "\<exists>s' e C'. gwrl_time_gather ops due_timers = Some s' \<and> srcs_inv s' [] [1, 2] \<and>
    at_due (timer_at s' 1) = Some 5100000000 \<and> evts_inv s' [e] C' \<and>
    evt_view s' e = (Some 3, Some (Fn_user 3), None) \<and> wait_of s' = Some 0"
    by auto
qed

theorem time_gather_no_oversleep_witness:
  "\<forall>ops. \<exists>s' Ts'. gwrl_time_gather ops due_timers = Some s' \<and> srcs_inv s' [] Ts' \<and>
    (wait_of s' = Some 0 \<or> (\<forall>a \<in> set Ts'. at_on (timer_at s' a) \<longrightarrow> (\<exists>d w. at_due (timer_at s' a) = Some d \<and>
       wait_of s' = Some w \<and> 5000000000 + w \<le> d)))"
  using time_gather_no_oversleep [OF due_timers_facts]
  by (simp add: ns_clock_def tod_ts_def ts_ns_def due_timers_def)

end
