(* ===== verification/Gw_Wake.thy ===== *)
theory Gw_Wake
  imports Gw_Sources
begin

section \<open>Waking the reactor (\<^verbatim>\<open>src/gwrl/event_wake_pipe.c\<close>)\<close>

text \<open>
  The self pipe: \<^verbatim>\<open>gwrl_wake\<close> writes to it when the reactor sleeps in the backend, a file
  source on its read end wakes the backend, and \<^verbatim>\<open>gwrl_wake_activity\<close>, the callback of that
  source, empties it and rebuilds it when the read fails.
\<close>

subsection \<open>The operations\<close>

definition wake_bytes :: "byte list" where
  "wake_bytes = [0x77, 0x61, 0x6b, 0x65]"

partial_function (option) wake_write_loop :: "('b, 'z) world_scheme \<Rightarrow> ('b, 'z) world_scheme option" where
  [code]: "wake_write_loop s =
     (case syscall (Sys_write (snd (fds (rl s))) wake_bytes) s of
        (a, s) \<Rightarrow> if ans_ret a < 0 \<and> errno s = EINTR then wake_write_loop s else Some s)"

definition gwrl_wake :: "('b, 'z) world_scheme \<Rightarrow> ('b, 'z) world_scheme option" where
  "gwrl_wake s = (if flisset (rl_flags (rl s)) GWRL_SLEEPING then wake_write_loop s else Some s)"

text \<open>\<^verbatim>\<open>pipe(rl->fds)\<close> stores the two descriptors only when it succeeds.\<close>

definition sys_pipe :: "('b, 'z) world_scheme \<Rightarrow> int \<times> ('b, 'z) world_scheme" where
  "sys_pipe s =
     (case syscall Sys_pipe s of
        (a, s) \<Rightarrow> (ans_ret a, if ans_ret a < 0 then s else s\<lparr>rl := (rl s)\<lparr>fds := ans_fds a\<rparr>\<rparr>))"

text \<open>\<^verbatim>\<open>while(res < 0) { pipe(rl->fds); gwprintsyserr(...); }\<close>: \<^verbatim>\<open>res\<close> is not assigned in the loop.\<close>

partial_function (option) pipe_retry :: "int \<Rightarrow> ('b, 'z) world_scheme \<Rightarrow> ('b, 'z) world_scheme option" where
  [code]: "pipe_retry res s =
     (if res < 0 then pipe_retry res (gwerr ''3FG9D'' (snd (sys_pipe s))) else Some s)"

definition gwrl_wake_init ::
    "('b, 'z) world_scheme src_ops \<Rightarrow> ('b, 'z) world_scheme \<Rightarrow> ('b, 'z) world_scheme option" where
  "gwrl_wake_init ops s =
     (case sys_pipe s of
        (res, s) \<Rightarrow> do {
          s \<leftarrow> pipe_retry res s;
          let s = snd (syscall (Sys_nonblock (fst (fds (rl s)))) s);
          let s = snd (syscall (Sys_nonblock (snd (fds (rl s)))) s);
          (fsrc, s) \<leftarrow> gwrl_src_file_create (fst (fds (rl s))) GWRL_RD (Some Fn_gwrl_wake_activity) None s;
          if fsrc = None then Some (gwerr ''3FDli'' s) else gwrl_src_add ops fsrc s })"

definition gwrl_wake_free :: "('b, 'z) world_scheme \<Rightarrow> ('b, 'z) world_scheme" where
  "gwrl_wake_free s =
     (let s = snd (syscall (Sys_close (fst (fds (rl s)))) s)
      in snd (syscall (Sys_close (snd (fds (rl s)))) s))"

text \<open>The reading loop; the result is \<^verbatim>\<open>reinit\<close>.\<close>

partial_function (option) wake_read_loop ::
    "int \<Rightarrow> ('b, 'z) world_scheme \<Rightarrow> (bool \<times> ('b, 'z) world_scheme) option" where
  [code]: "wake_read_loop fd s =
     (case syscall (Sys_read fd 4) s of
        (a, s) \<Rightarrow>
          if ans_ret a > 0 then wake_read_loop fd s
          else Some (ans_ret a \<le> 0 \<and> errno s \<noteq> EAGAIN \<and> errno s \<noteq> EWOULDBLOCK, s))"

definition gwrl_wake_activity ::
    "('b, 'z) world_scheme src_ops \<Rightarrow> ptr \<Rightarrow> ('b, 'z) world_scheme \<Rightarrow> ('b, 'z) world_scheme option" where
  "gwrl_wake_activity ops evt s = do {
     e \<leftarrow> get_evt evt s;
     if flisset (evt_flags e) GWRL_RD then do {
       (reinit, s) \<leftarrow> wake_read_loop (evt_fd e) s;
       if reinit then do {
         let s = gwrl_wake_free s;
         s \<leftarrow> gwrl_src_del ops (evt_src e) None True s;
         gwrl_wake_init ops s }
       else Some s }
     else Some s }"

subsection \<open>Lemmas\<close>

text \<open>System calls change only the record of calls and \<^verbatim>\<open>errno\<close>.\<close>

definition sys_frame :: "('b, 'z) world_scheme \<Rightarrow> ('b, 'z) world_scheme \<Rightarrow> bool" where
  "sys_frame s s' \<longleftrightarrow> s' = s\<lparr>calls := calls s', errno := errno s'\<rparr>"

lemma sys_frame_refl [simp]: "sys_frame s s"
  by (simp add: sys_frame_def)

lemma sys_frame_trans:
  assumes "sys_frame s t" "sys_frame t u"
  shows "sys_frame s u"
proof -
  have "u = t\<lparr>calls := calls u, errno := errno u\<rparr>" using assms(2) unfolding sys_frame_def .
  also have "\<dots> = s\<lparr>calls := calls u, errno := errno u\<rparr>"
    by (subst assms(1) [unfolded sys_frame_def]) simp
  finally show ?thesis unfolding sys_frame_def .
qed

lemma sys_frame_syscall [simp]: "sys_frame s (snd (syscall c s))"
  by (simp add: sys_frame_def syscall_def Let_def)

lemma syscall_result:
  assumes "syscall c s = (r, u)"
  shows "sys_frame s u" "calls u = c # calls s"
proof -
  show "sys_frame s u" using sys_frame_syscall [of s c] by (simp add: assms)
  have "calls (snd (syscall c s)) = c # calls s" by (simp add: syscall_def Let_def)
  then show "calls u = c # calls s" by (simp add: assms)
qed

lemma sys_frameD:
  assumes "sys_frame s s'"
  shows "evts s' = evts s" "srcs s' = srcs s" "rl s' = rl s" "brk s' = brk s" "answers s' = answers s"
    "tod s' = tod s" "nclk s' = nclk s" "oom s' = oom s"
  by (subst assms [unfolded sys_frame_def], simp)+

text \<open>The \<open>k\<close>-th answer from here on.\<close>

definition answer_at :: "('b, 'z) world_scheme \<Rightarrow> nat \<Rightarrow> answer" where
  "answer_at s k = answers s (length (calls s) + k)"

text \<open>However often the write is interrupted, a wake that returns has only written to the pipe.\<close>

lemma wake_returned:
  assumes "gwrl_wake s = Some s'"
  shows "sys_frame s s' \<and> (\<exists>k. calls s' = replicate k (Sys_write (snd (fds (rl s))) wake_bytes) @ calls s)"
proof -
  let ?P = "\<lambda>s s'. sys_frame s s' \<and>
    (\<exists>k. calls s' = replicate k (Sys_write (snd (fds (rl s))) wake_bytes) @ calls s)"
  have loop: "?P t t'" if "wake_write_loop t = Some t'" for t t' :: "('a, 'b) world_scheme"
  proof (rule wake_write_loop.raw_induct [OF _ that])
    fix loop :: "('a, 'b) world_scheme \<Rightarrow> ('a, 'b) world_scheme option" and s s'
    assume ih: "\<And>s s'. loop s = Some s' \<Longrightarrow> ?P s s'"
      and eq: "(case syscall (Sys_write (snd (fds (rl s))) wake_bytes) s of
        (a, s) \<Rightarrow> if ans_ret a < 0 \<and> errno s = EINTR then loop s else Some s) = Some s'"
    obtain r u where w: "syscall (Sys_write (snd (fds (rl s))) wake_bytes) s = (r, u)"
      by (cases "syscall (Sys_write (snd (fds (rl s))) wake_bytes) s")
    have t: "sys_frame s u" "calls u = Sys_write (snd (fds (rl s))) wake_bytes # calls s"
      by (rule syscall_result [OF w])+
    have e: "(if ans_ret r < 0 \<and> errno u = EINTR then loop u else Some u) = Some s'"
      using eq unfolding w by simp
    show "?P s s'"
    proof (cases "ans_ret r < 0 \<and> errno u = EINTR")
      case True
      then have "loop u = Some s'" using e by (simp only: if_True simp_thms)
      then obtain k where k: "sys_frame u s'"
        "calls s' = replicate k (Sys_write (snd (fds (rl s))) wake_bytes) @ calls u"
        using ih [of u s'] sys_frameD(3) [OF t(1)] by auto
      have "calls s' = replicate (Suc k) (Sys_write (snd (fds (rl s))) wake_bytes) @ calls s"
        using k(2) t(2) by (simp add: replicate_app_Cons_same)
      with sys_frame_trans [OF t(1) k(1)] show ?thesis by blast
    next
      case False
      then have "s' = u" using e by (simp only: if_False option.inject)
      with t show ?thesis by (intro conjI exI [of _ 1]) simp_all
    qed
  qed
  show ?thesis
  proof (cases "flisset (rl_flags (rl s)) GWRL_SLEEPING")
    case True
    with assms loop show ?thesis by (simp add: gwrl_wake_def)
  next
    case False
    with assms have "s' = s" by (simp add: gwrl_wake_def)
    then show ?thesis by (intro conjI exI [of _ 0]) simp_all
  qed
qed

lemma wake_write_loop_eintr:
  assumes "\<And>i. i < k \<Longrightarrow> ans_ret (answer_at s i) < 0 \<and> ans_errno (answer_at s i) = EINTR"
    and "\<not> (ans_ret (answer_at s k) < 0 \<and> ans_errno (answer_at s k) = EINTR)"
  shows "\<exists>s'. wake_write_loop s = Some s' \<and> sys_frame s s' \<and>
    calls s' = replicate (Suc k) (Sys_write (snd (fds (rl s))) wake_bytes) @ calls s"
  using assms
proof (induction k arbitrary: s)
  case 0
  then show ?case
    by (auto simp: wake_write_loop.simps [of s] syscall_def Let_def answer_at_def sys_frame_def)
next
  case (Suc k)
  let ?t = "snd (syscall (Sys_write (snd (fds (rl s))) wake_bytes) s)"
  have sh: "answer_at ?t i = answer_at s (Suc i)" for i
    by (simp add: answer_at_def syscall_def Let_def)
  have "wake_write_loop s = wake_write_loop ?t"
    using Suc.prems(1) [of 0]
    by (simp add: wake_write_loop.simps [of s] syscall_def Let_def answer_at_def)
  moreover obtain s' where s': "wake_write_loop ?t = Some s'" "sys_frame ?t s'"
    "calls s' = replicate (Suc k) (Sys_write (snd (fds (rl ?t))) wake_bytes) @ calls ?t"
    using Suc.IH [of ?t] Suc.prems unfolding sh by (metis Suc_less_eq)
  moreover have "sys_frame s s'" by (rule sys_frame_trans [OF sys_frame_syscall s'(2)])
  moreover have "calls s' = replicate (Suc (Suc k)) (Sys_write (snd (fds (rl s))) wake_bytes) @ calls s"
    using s'(3) by (simp add: syscall_def Let_def replicate_append_same flip: replicate_append_same)
  ultimately show ?case by auto
qed

lemma wake_ok:
  assumes "\<forall>i < k. ans_ret (answer_at s i) < 0 \<and> ans_errno (answer_at s i) = EINTR"
    and "\<not> (ans_ret (answer_at s k) < 0 \<and> ans_errno (answer_at s k) = EINTR)"
  shows "\<exists>s'. gwrl_wake s = Some s' \<and> sys_frame s s' \<and>
    calls s' = (if flisset (rl_flags (rl s)) GWRL_SLEEPING
                then replicate (Suc k) (Sys_write (snd (fds (rl s))) wake_bytes) else []) @ calls s"
  using wake_write_loop_eintr [of k s] assms by (auto simp: gwrl_wake_def)

lemma wake_write_loop_frame:
  assumes "wake_write_loop s = Some s'"
  shows "sys_frame s s'"
proof (rule wake_write_loop.raw_induct [OF _ assms])
  fix w :: "('a, 'b) world_scheme \<Rightarrow> ('a, 'b) world_scheme option" and s s'
  assume ih: "\<And>s s'. w s = Some s' \<Longrightarrow> sys_frame s s'"
    and eq: "(case syscall (Sys_write (snd (fds (rl s))) wake_bytes) s of
        (a, s) \<Rightarrow> if ans_ret a < 0 \<and> errno s = EINTR then w s else Some s) = Some s'"
  let ?c = "Sys_write (snd (fds (rl s))) wake_bytes"
  have f: "sys_frame s (snd (syscall ?c s))" by simp
  from eq have "w (snd (syscall ?c s)) = Some s' \<or> snd (syscall ?c s) = s'"
    by (auto split: prod.splits if_splits)
  then show "sys_frame s s'" using f ih sys_frame_trans by blast
qed

lemma wake_frame: "gwrl_wake s = Some s' \<Longrightarrow> sys_frame s s'"
  by (auto simp: gwrl_wake_def dest: wake_write_loop_frame split: if_splits)

lemma wake_read_loop_drain:
  assumes "\<And>i. i < k \<Longrightarrow> 0 < ans_ret (answer_at s i)" "\<not> 0 < ans_ret (answer_at s k)"
    and "er = (if ans_ret (answer_at s k) < 0 then ans_errno (answer_at s k) else errno s)"
  shows "\<exists>s'. wake_read_loop fd s = Some (er \<noteq> EAGAIN \<and> er \<noteq> EWOULDBLOCK, s') \<and> sys_frame s s' \<and>
    calls s' = replicate (Suc k) (Sys_read fd 4) @ calls s"
  using assms
proof (induction k arbitrary: s)
  case 0
  then show ?case
    by (auto simp: wake_read_loop.simps [of fd s] syscall_def Let_def answer_at_def sys_frame_def)
next
  case (Suc k)
  let ?t = "snd (syscall (Sys_read fd 4) s)"
  have sh: "answer_at ?t i = answer_at s (Suc i)" for i
    by (simp add: answer_at_def syscall_def Let_def)
  have e: "errno ?t = errno s"
    using Suc.prems(1) [of 0] by (simp add: answer_at_def syscall_def Let_def)
  have "wake_read_loop fd s = wake_read_loop fd ?t"
    using Suc.prems(1) [of 0] by (simp add: wake_read_loop.simps [of fd s] syscall_def Let_def answer_at_def)
  moreover obtain s' where s': "wake_read_loop fd ?t = Some (er \<noteq> EAGAIN \<and> er \<noteq> EWOULDBLOCK, s')"
    "sys_frame ?t s'" "calls s' = replicate (Suc k) (Sys_read fd 4) @ calls ?t"
    using Suc.IH [of ?t] Suc.prems unfolding sh e by (metis Suc_less_eq)
  moreover have "sys_frame s s'" by (rule sys_frame_trans [OF sys_frame_syscall s'(2)])
  moreover have "calls s' = replicate (Suc (Suc k)) (Sys_read fd 4) @ calls s"
    using s'(3) by (simp add: syscall_def Let_def replicate_append_same flip: replicate_append_same)
  ultimately show ?case by auto
qed

text \<open>A loop that never changes its condition never ends.\<close>

lemma pipe_retry_fails: "pipe_retry res s = Some s' \<Longrightarrow> \<not> res < 0"
  by (erule pipe_retry.raw_induct [where P = "\<lambda>res _ _. \<not> res < 0", rotated]) (auto split: if_splits)

subsection \<open>Properties\<close>

text \<open>
  \<^verbatim>\<open>gwrl_wake\<close> on a sleeping reactor writes \<^verbatim>\<open>"wake"\<close> to the pipe, again as long as the
  write is interrupted, then returns; on a reactor that is not sleeping it makes no system
  call. Nothing else changes.
\<close>
theorem wake_writes_when_sleeping:
  assumes "\<forall>i < k. ans_ret (answer_at s i) < 0 \<and> ans_errno (answer_at s i) = EINTR"
    and "\<not> (ans_ret (answer_at s k) < 0 \<and> ans_errno (answer_at s k) = EINTR)"
  shows "\<exists>s'. gwrl_wake s = Some s' \<and> sys_frame s s' \<and>
    calls s' = (if flisset (rl_flags (rl s)) GWRL_SLEEPING
                then replicate (Suc k) (Sys_write (snd (fds (rl s))) wake_bytes) else []) @ calls s"
  by (rule wake_ok [OF assms])

text \<open>
  the callback of the wake source reads four bytes at a time until a read returns none;
  when that read failed with \<^verbatim>\<open>EAGAIN\<close> it is done and has changed nothing, so the pipe is
  empty again and stays registered.
\<close>
theorem wake_activity_drains:
  assumes "evts s a = Some e" "flisset (evt_flags e) GWRL_RD"
    and "\<forall>i < k. 0 < ans_ret (answer_at s i)"
    and "ans_ret (answer_at s k) < 0" "ans_errno (answer_at s k) = EAGAIN"
  shows "\<exists>s'. gwrl_wake_activity ops (Some a) s = Some s' \<and> sys_frame s s' \<and>
    calls s' = replicate (Suc k) (Sys_read (evt_fd e) 4) @ calls s"
  using wake_read_loop_drain [of k s EAGAIN "evt_fd e"] assms
  by (auto simp: gwrl_wake_activity_def)

text \<open>
  When the first \<^verbatim>\<open>pipe\<close> call fails, \<^verbatim>\<open>gwrl_wake_init\<close> never returns, whatever the later
  calls answer: the retry loop tests the result of the first call only.
\<close>
theorem wake_init_never_returns:
  assumes "ans_ret (answer_at s 0) < 0"
  shows "gwrl_wake_init ops s = None"
proof -
  obtain t where "sys_pipe s = (ans_ret (answer_at s 0), t)"
    using assms by (simp add: sys_pipe_def syscall_def Let_def answer_at_def)
  moreover have "pipe_retry (ans_ret (answer_at s 0)) t = None"
    using pipe_retry_fails assms by (cases "pipe_retry (ans_ret (answer_at s 0)) t") auto
  ultimately show ?thesis by (simp add: gwrl_wake_init_def)
qed

text \<open>
  A sleeping reactor: the first system call is interrupted, the next two succeed, the fourth
  finds nothing more to read.
\<close>

definition sleeping_world :: "unit world" where
  "sleeping_world = (blank_world ())\<lparr>
     rl := (zero_gwrl ())\<lparr>rl_flags := GWRL_SLEEPING, fds := (3, 4)\<rparr>,
     evts := [1 \<mapsto> zero_evt\<lparr>evt_flags := GWRL_RD, evt_fd := 3\<rparr>], brk := 2,
     answers := (\<lambda>n. if n = 0 then fail_answer EINTR else if n < 3 then ok_answer 4
                     else fail_answer EAGAIN)\<rparr>"

theorem wake_writes_when_sleeping_witness:
  "\<exists>s'. gwrl_wake sleeping_world = Some s' \<and>
    calls s' = [Sys_write 4 wake_bytes, Sys_write 4 wake_bytes]"
proof -
  have "\<forall>i < 1. ans_ret (answer_at sleeping_world i) < 0 \<and> ans_errno (answer_at sleeping_world i) = EINTR"
    "\<not> (ans_ret (answer_at sleeping_world 1) < 0 \<and> ans_errno (answer_at sleeping_world 1) = EINTR)"
    by (simp_all add: answer_at_def sleeping_world_def blank_world_def fail_answer_def ok_answer_def)
  from wake_writes_when_sleeping [OF this] show ?thesis
    by (auto simp: sleeping_world_def blank_world_def zero_gwrl_def flag_simps numeral_2_eq_2)
qed

theorem wake_activity_drains_witness:
  "\<forall>ops. \<exists>s'. gwrl_wake_activity ops (Some 1) (sleeping_world\<lparr>calls := [Sys_pipe]\<rparr>) = Some s' \<and>
    calls s' = replicate 3 (Sys_read 3 4) @ [Sys_pipe] \<and> rl s' = rl sleeping_world"
proof
  fix ops
  let ?s = "sleeping_world\<lparr>calls := [Sys_pipe]\<rparr>"
  have "evts ?s 1 = Some (zero_evt\<lparr>evt_flags := GWRL_RD, evt_fd := 3\<rparr>)"
    "flisset (evt_flags (zero_evt\<lparr>evt_flags := GWRL_RD, evt_fd := 3\<rparr>)) GWRL_RD"
    "\<forall>i < 2. 0 < ans_ret (answer_at ?s i)"
    "ans_ret (answer_at ?s 2) < 0" "ans_errno (answer_at ?s 2) = EAGAIN"
    by (simp_all add: answer_at_def sleeping_world_def blank_world_def fail_answer_def ok_answer_def flag_simps)
  from wake_activity_drains [OF this, of ops] sys_frameD(3) [of ?s]
  show "\<exists>s'. gwrl_wake_activity ops (Some 1) ?s = Some s' \<and>
    calls s' = replicate 3 (Sys_read 3 4) @ [Sys_pipe] \<and> rl s' = rl sleeping_world"
    by (auto simp: numeral_3_eq_3 numeral_2_eq_2)
qed

theorem wake_init_never_returns_witness:
  "\<forall>ops. gwrl_wake_init ops sleeping_world = None"
  using wake_init_never_returns [of sleeping_world]
  by (simp add: answer_at_def sleeping_world_def blank_world_def fail_answer_def)

end
