(* ===== verification/Gw_Queues.thy ===== *)
theory Gw_Queues
  imports Gw_Timers Gw_Wake
begin

section \<open>The thread safe queues (\<^verbatim>\<open>src/gwrl/event.c\<close>)\<close>

text \<open>
  Other threads add sources and post events through two queues, \<^verbatim>\<open>_qsrc\<close> and \<^verbatim>\<open>_qevt\<close>,
  which the run loop empties. A critical section is one step: the functions below are
  sequential, and the run loop's read of the queue, which happens before it takes the lock,
  is separated from the rest of \<^verbatim>\<open>gwrl_install_queued_events\<close> so that another thread's
  step can come between.
\<close>

subsection \<open>The operations\<close>

definition gwrl_src_add_safely :: "ptr \<Rightarrow> ('b, 'z) world_scheme \<Rightarrow> ('b, 'z) world_scheme option" where
  "gwrl_src_add_safely src s = do {
     let head = qsrc (rl s);
     s \<leftarrow> upd_src (\<lambda>o1. o1\<lparr>src_next := (if head \<noteq> None then head else None)\<rparr>) src s;
     gwrl_wake (s\<lparr>rl := (rl s)\<lparr>qsrc := src\<rparr>\<rparr>) }"

definition gwrl_post_evt_safely :: "ptr \<Rightarrow> ('b, 'z) world_scheme \<Rightarrow> ('b, 'z) world_scheme option" where
  "gwrl_post_evt_safely evt s = do {
     let head = qevt (rl s);
     s \<leftarrow> upd_evt (\<lambda>e. e\<lparr>evt_next := (if head \<noteq> None then head else None)\<rparr>) evt s;
     gwrl_wake (s\<lparr>rl := (rl s)\<lparr>qevt := evt\<rparr>\<rparr>) }"

definition gwrl_post_function_safely ::
    "fnptr option \<Rightarrow> ptr \<Rightarrow> ('b, 'z) world_scheme \<Rightarrow> ('b, 'z) world_scheme option" where
  "gwrl_post_function_safely cb userdata s = do {
     (evt, s) \<leftarrow> gwrl_evt_create None cb userdata 0 0 s;
     (evt, s) \<leftarrow> evt_create_retry id evt None cb userdata 0 0 s;
     gwrl_post_evt_safely evt s }"

partial_function (option) install_sources_loop ::
    "('b, 'z) world_scheme src_ops \<Rightarrow> ptr \<Rightarrow> ('b, 'z) world_scheme \<Rightarrow> ('b, 'z) world_scheme option" where
  [code]: "install_sources_loop ops src s =
     (if src = None then Some s
      else do {
        o1 \<leftarrow> get_src src s;
        s \<leftarrow> gwrl_src_add ops src s;
        install_sources_loop ops (src_next o1) s })"

text \<open>Everything after the unlocked read of the queue's head.\<close>

definition install_sources_from ::
    "('b, 'z) world_scheme src_ops \<Rightarrow> ptr \<Rightarrow> ('b, 'z) world_scheme \<Rightarrow> ('b, 'z) world_scheme option" where
  "install_sources_from ops src s = install_sources_loop ops src (s\<lparr>rl := (rl s)\<lparr>qsrc := None\<rparr>\<rparr>)"

definition gwrl_install_queued_sources ::
    "('b, 'z) world_scheme src_ops \<Rightarrow> ('b, 'z) world_scheme \<Rightarrow> ('b, 'z) world_scheme option" where
  "gwrl_install_queued_sources ops s = install_sources_from ops (qsrc (rl s)) s"

partial_function (option) install_events_loop ::
    "ptr \<Rightarrow> ('b, 'z) world_scheme \<Rightarrow> ('b, 'z) world_scheme option" where
  [code]: "install_events_loop evt s =
     (if evt = None then Some s
      else do {
        e \<leftarrow> get_evt evt s;
        s \<leftarrow> gwrl_post_evt evt s;
        install_events_loop (evt_next e) s })"

definition install_events_from :: "ptr \<Rightarrow> ('b, 'z) world_scheme \<Rightarrow> ('b, 'z) world_scheme option" where
  "install_events_from evt s = install_events_loop evt (s\<lparr>rl := (rl s)\<lparr>qevt := None\<rparr>\<rparr>)"

definition gwrl_install_queued_events :: "('b, 'z) world_scheme \<Rightarrow> ('b, 'z) world_scheme option" where
  "gwrl_install_queued_events s = install_events_from (qevt (rl s)) s"

subsection \<open>Queued events\<close>

definition evt_core :: "gwrlevt \<Rightarrow> gwrlevt" where
  "evt_core e = e\<lparr>evt_next := None\<rparr>"

lemma evt_core_next [simp]: "evt_core (e\<lparr>evt_next := p\<rparr>) = evt_core e"
  by (simp add: evt_core_def)

text \<open>Events that other threads have queued, beside those posted and cached.\<close>

definition queue_inv :: "('b, 'z) world_scheme \<Rightarrow> addr list \<Rightarrow> addr list \<Rightarrow> addr list \<Rightarrow> bool" where
  "queue_inv s Q E C \<longleftrightarrow>
     chain (evt_nx s) (qevt (rl s)) Q \<and> evts_inv s E C \<and> set Q \<inter> (set E \<union> set C) = {}"

lemma post_evt_eq:
  assumes "evts s a = Some e" "events (rl s) = None \<longrightarrow> evt_next e = None"
  shows "gwrl_post_evt (Some a) s = Some (s\<lparr>evts := (evts s)(a \<mapsto> e\<lparr>evt_next := events (rl s)\<rparr>),
    rl := (rl s)\<lparr>events := Some a\<rparr>\<rparr>)"
proof (cases "events (rl s)")
  case None
  with assms have "e\<lparr>evt_next := events (rl s)\<rparr> = e" by simp
  with None assms(1) show ?thesis by (auto simp: gwrl_post_evt_def intro!: world.equality)
qed (use assms in \<open>auto simp: gwrl_post_evt_def intro!: world.equality\<close>)

text \<open>The posting of one more event in front.\<close>

definition evt_posted :: "addr \<Rightarrow> ('b, 'z) world_scheme \<Rightarrow> ('b, 'z) world_scheme" where
  "evt_posted a s = s\<lparr>evts := (evts s)(a := map_option (\<lambda>e. e\<lparr>evt_next := events (rl s)\<rparr>) (evts s a)),
     rl := (rl s)\<lparr>events := Some a\<rparr>\<rparr>"

lemma evt_posted_inv:
  assumes "evts_inv s E C" "evts s a = Some e" "a \<notin> set E" "a \<notin> set C"
  shows "evts_inv (evt_posted a s) (a # E) C" "evt_frame s (evt_posted a s)"
    "map_option evt_core (evts (evt_posted a s) b) = map_option evt_core (evts s b)"
proof -
  have "a < brk s" using assms(1,2) by (auto simp: evts_inv_def intro: fresh_okD)
  then have "fresh_ok (evt_posted a s)"
    using assms(1) by (auto simp: evts_inv_def fresh_ok_def evt_posted_def)
  with assms show "evts_inv (evt_posted a s) (a # E) C"
    by (simp add: evts_inv_def cache_ok_def evt_posted_def evt_nx_evts)
  show "evt_frame s (evt_posted a s)" by (simp add: evt_frame_def evt_posted_def)
  show "map_option evt_core (evts (evt_posted a s) b) = map_option evt_core (evts s b)"
    using assms(2) by (simp add: evt_posted_def)
qed

lemma install_events_loop_ok:
  assumes "chain (evt_nx s) p Q" "evts_inv s E C" "set Q \<inter> (set E \<union> set C) = {}"
    and "E \<noteq> [] \<or> length Q \<le> 1"
  shows "\<exists>s'. install_events_loop p s = Some s' \<and> evts_inv s' (rev Q @ E) C \<and> evt_frame s s' \<and>
    (\<forall>b. map_option evt_core (evts s' b) = map_option evt_core (evts s b)) \<and>
    s' = s\<lparr>evts := evts s', rl := (rl s)\<lparr>events := events (rl s')\<rparr>\<rparr>"
  using assms
proof (induction Q arbitrary: p s E)
  case Nil
  then show ?case by (auto simp: install_events_loop.simps)
next
  case (Cons a Q)
  from Cons.prems(1) obtain e where e: "p = Some a" "evts s a = Some e" "chain (evt_nx s) (evt_next e) Q"
    by (auto simp: evt_nx_iff)
  have aQ: "a \<notin> set Q" by (rule chain_tail_notin [OF Cons.prems(1)])
  have "events (rl s) = None \<longrightarrow> evt_next e = None"
    using Cons.prems(2,4) e(3) by (cases E) (auto simp: evts_inv_def)
  then have post: "gwrl_post_evt (Some a) s = Some (evt_posted a s)"
    using post_evt_eq [OF e(2)] e(2) by (simp add: evt_posted_def)
  have a: "a \<notin> set E" "a \<notin> set C" using Cons.prems(3) by auto
  note pi = evt_posted_inv [OF Cons.prems(2) e(2) a]
  have "chain (evt_nx (evt_posted a s)) (evt_next e) Q"
    using e(3) aQ by (simp add: evt_posted_def evt_nx_evts e(2))
  then obtain s' where s': "install_events_loop (evt_next e) (evt_posted a s) = Some s'"
    "evts_inv s' (rev Q @ a # E) C" "evt_frame (evt_posted a s) s'"
    "\<forall>b. map_option evt_core (evts s' b) = map_option evt_core (evts (evt_posted a s) b)"
    "s' = (evt_posted a s)\<lparr>evts := evts s', rl := (rl (evt_posted a s))\<lparr>events := events (rl s')\<rparr>\<rparr>"
    using Cons.IH [of "evt_posted a s" "evt_next e" "a # E"] pi(1) Cons.prems(3) aQ by auto
  have "s' = s\<lparr>evts := evts s', rl := (rl s)\<lparr>events := events (rl s')\<rparr>\<rparr>"
    by (rule trans [OF s'(5)]) (simp add: evt_posted_def)
  with s'(1-4) pi show ?case
    using e(1,2) post
    by (intro exI [of _ s']) (auto simp: install_events_loop.simps [of "Some a"] intro: evt_frame_trans)
qed

text \<open>With nothing posted, the second event of the queue closes a cycle with the first.\<close>

lemma two_cycle_no_chain:
  assumes "nx a = Some (Some b)" "nx b = Some (Some a)"
  shows "\<not> chain nx (Some a) L \<and> \<not> chain nx (Some b) L"
  using assms by (induction L) auto

lemma seg_chain_suffix: "seg nx p xs q \<Longrightarrow> chain nx p L \<Longrightarrow> \<exists>L'. chain nx q L'"
proof (induction xs arbitrary: p L)
  case Nil
  then show ?case by auto
next
  case (Cons x xs)
  then show ?case by (cases L) auto
qed

text \<open>The posted list leads into a cycle of \<open>a\<close> and \<open>b\<close>.\<close>

definition evt_cycle :: "addr \<Rightarrow> addr \<Rightarrow> addr list \<Rightarrow> ('b, 'z) world_scheme \<Rightarrow> bool" where
  "evt_cycle a b X s \<longleftrightarrow> seg (evt_nx s) (events (rl s)) X (Some b) \<and> events (rl s) \<noteq> None \<and>
     evt_nx s b = Some (Some a) \<and> evt_nx s a = Some (Some b)"

lemma install_events_loop_cycle:
  assumes "evt_cycle a b X s" "chain (evt_nx s) p Q" "set Q \<inter> set X = {}" "a \<notin> set Q" "b \<notin> set Q"
  shows "\<exists>s'. install_events_loop p s = Some s' \<and> evt_cycle a b (rev Q @ X) s' \<and> evt_frame s s' \<and>
    (\<forall>c. map_option evt_core (evts s' c) = map_option evt_core (evts s c))"
  using assms
proof (induction Q arbitrary: p s X)
  case Nil
  then show ?case by (auto simp: install_events_loop.simps)
next
  case (Cons c Q)
  from Cons.prems(2) obtain e where e: "p = Some c" "evts s c = Some e" "chain (evt_nx s) (evt_next e) Q"
    by (auto simp: evt_nx_iff)
  have cQ: "c \<notin> set Q" by (rule chain_tail_notin [OF Cons.prems(2)])
  have post: "gwrl_post_evt (Some c) s = Some (evt_posted c s)"
    using post_evt_eq [OF e(2)] e(2) Cons.prems(1) by (auto simp: evt_posted_def evt_cycle_def)
  have "evt_cycle a b (c # X) (evt_posted c s)"
    using Cons.prems e(2) by (auto simp: evt_cycle_def evt_posted_def evt_nx_evts)
  moreover have "chain (evt_nx (evt_posted c s)) (evt_next e) Q"
    using e(3) cQ by (simp add: evt_posted_def evt_nx_evts e(2))
  ultimately obtain s' where s': "install_events_loop (evt_next e) (evt_posted c s) = Some s'"
    "evt_cycle a b (rev Q @ c # X) s'" "evt_frame (evt_posted c s) s'"
    "\<forall>d. map_option evt_core (evts s' d) = map_option evt_core (evts (evt_posted c s) d)"
    using Cons.IH [of "c # X" "evt_posted c s" "evt_next e"] Cons.prems(3-5) cQ by auto
  have "evt_frame s (evt_posted c s)" by (simp add: evt_frame_def evt_posted_def)
  then have "evt_frame s s'" using s'(3) by (rule evt_frame_trans)
  moreover have "map_option evt_core (evts (evt_posted c s) d) = map_option evt_core (evts s d)" for d
    using e(2) by (simp add: evt_posted_def)
  ultimately show ?case
    using e(1,2) post s' by (intro exI [of _ s']) (simp add: install_events_loop.simps [of "Some c"])
qed

lemma install_events_cycle:
  assumes "chain (evt_nx s) p (a # b # Q)" "events (rl s) = None"
  shows "\<exists>s'. install_events_loop p s = Some s' \<and> evt_cycle a b (rev Q) s' \<and> evt_frame s s' \<and>
    (\<forall>c. map_option evt_core (evts s' c) = map_option evt_core (evts s c))"
proof -
  from assms(1) obtain ea eb where e: "p = Some a" "evts s a = Some ea" "evt_next ea = Some b"
    "evts s b = Some eb" "chain (evt_nx s) (evt_next eb) Q"
    by (auto simp: evt_nx_iff)
  have d: "distinct (a # b # Q)" by (rule chain_distinct [OF assms(1)])
  let ?s1 = "s\<lparr>rl := (rl s)\<lparr>events := Some a\<rparr>\<rparr>"
  have p1: "gwrl_post_evt (Some a) s = Some ?s1"
    using assms(2) by (simp add: gwrl_post_evt_def)
  have p2: "gwrl_post_evt (Some b) ?s1 = Some (evt_posted b ?s1)"
    using post_evt_eq [of ?s1 b eb] e(4) by (simp add: evt_posted_def)
  have c: "evt_cycle a b [] (evt_posted b ?s1)"
    using d e by (auto simp: evt_cycle_def evt_posted_def evt_nx_evts)
  have ch: "chain (evt_nx (evt_posted b ?s1)) (evt_next eb) Q"
    using d e(4,5) by (simp add: evt_posted_def evt_nx_evts)
  obtain s' where s': "install_events_loop (evt_next eb) (evt_posted b ?s1) = Some s'"
    "evt_cycle a b (rev Q @ []) s'" "evt_frame (evt_posted b ?s1) s'"
    "\<forall>d. map_option evt_core (evts s' d) = map_option evt_core (evts (evt_posted b ?s1) d)"
    using install_events_loop_cycle [OF c ch] d by auto
  have "evt_frame s (evt_posted b ?s1)" by (simp add: evt_frame_def evt_posted_def)
  then have "evt_frame s s'" using s'(3) by (rule evt_frame_trans)
  moreover have "map_option evt_core (evts (evt_posted b ?s1) d) = map_option evt_core (evts s d)" for d
    using e(4) by (simp add: evt_posted_def)
  ultimately show ?thesis
    using e p1 p2 s'
    by (intro exI [of _ s']) (simp add: install_events_loop.simps [of "Some a"] install_events_loop.simps [of "Some b"])
qed

lemma evt_cycle_no_chain: "evt_cycle a b X s \<Longrightarrow> \<not> (\<exists>L. chain (evt_nx s) (events (rl s)) L)"
  using seg_chain_suffix two_cycle_no_chain [of "evt_nx s" a b] by (metis evt_cycle_def)

subsection \<open>Queued timers\<close>

text \<open>The sources queued are time sources, apart from the registered ones.\<close>

definition src_queue :: "('b, 'z) world_scheme \<Rightarrow> addr list \<Rightarrow> addr list \<Rightarrow> addr list \<Rightarrow> bool" where
  "src_queue s Q Fs Ts \<longleftrightarrow> chain (src_nx s) (qsrc (rl s)) Q \<and> list_all (time_src s) Q \<and>
     srcs_inv s Fs Ts \<and> set Q \<inter> set Ts = {}"

lemma install_timers_ok:
  assumes "chain (src_nx s) p Q" "\<And>a. a \<in> set Q \<Longrightarrow> time_src s a" "srcs_inv s Fs Ts" "set Q \<inter> set Ts = {}"
    and "Ts \<noteq> [] \<or> length Q \<le> 1"
  shows "\<exists>s'. install_sources_loop ops p s = Some s' \<and> srcs_inv s' Fs (rev Q @ Ts) \<and> links_only s s'"
  using assms
proof (induction Q arbitrary: p s Ts)
  case Nil
  then show ?case by (auto simp: install_sources_loop.simps links_only_def)
next
  case (Cons a Q)
  from Cons.prems(1) obtain oa where oa: "p = Some a" "srcs s a = Some oa" "chain (src_nx s) (src_next oa) Q"
    by (auto simp: src_nx_iff)
  note i = srcs_invD [OF Cons.prems(3)]
  have aQ: "a \<notin> set Q" by (rule chain_tail_notin [OF Cons.prems(1)])
  have ta: "time_src s a" using Cons.prems(2) by simp
  then have ty: "src_type oa = 1" using oa(2) by (auto simp: time_src_iff)
  have "sources (rl s) ! 1 = None \<longrightarrow> src_next oa = None"
    using Cons.prems(5) i(3) oa(3) by (cases Ts) auto
  then have add: "gwrl_src_add ops (Some a) s = Some (pushed 1 a s)"
    using src_add_pushed [OF oa(2), of ops] i(1) ty by (simp add: src_type_defs)
  have lo: "links_only s (pushed 1 a s)" by (rule pushed_links_only) (simp add: i(1))
  have inv: "srcs_inv (pushed 1 a s) Fs (a # Ts)"
    by (rule srcs_inv_push_time [OF Cons.prems(3) ta]) (use Cons.prems(4) in auto)
  have "chain (src_nx (pushed 1 a s)) (src_next oa) Q"
    using oa(2,3) aQ by (simp add: pushed_def src_nx_srcs)
  then obtain s' where s': "install_sources_loop ops (src_next oa) (pushed 1 a s) = Some s'"
    "srcs_inv s' Fs (rev Q @ a # Ts)" "links_only (pushed 1 a s) s'"
    using Cons.IH [of "pushed 1 a s" "src_next oa" "a # Ts"] inv Cons.prems(2,4) aQ links_only_kind(2) [OF lo]
    by auto
  have "links_only s s'"
  proof -
    have "s' = (pushed 1 a s)\<lparr>srcs := srcs s', rl := (rl (pushed 1 a s))\<lparr>sources := sources (rl s')\<rparr>\<rparr>"
      using s'(3) by (simp add: links_only_def)
    then have "s' = s\<lparr>srcs := srcs s', rl := (rl s)\<lparr>sources := sources (rl s')\<rparr>\<rparr>"
      by (rule trans) (simp add: pushed_def)
    with s'(3) lo show ?thesis by (simp add: links_only_def)
  qed
  with s' add oa(1,2) show ?case
    by (intro exI [of _ s']) (simp add: install_sources_loop.simps [of ops "Some a"])
qed

lemma install_timers_cycle:
  assumes "chain (src_nx s) p [a, b]" "time_src s a" "time_src s b" "length (sources (rl s)) = 2"
    "sources (rl s) ! 1 = None"
  shows "\<exists>s'. install_sources_loop ops p s = Some s' \<and> sources (rl s') ! 1 = Some b \<and>
    src_nx s' b = Some (Some a) \<and> src_nx s' a = Some (Some b)"
proof -
  from assms(1) obtain oa ob where o: "p = Some a" "srcs s a = Some oa" "src_next oa = Some b"
    "srcs s b = Some ob" "src_next ob = None"
    by (auto simp: src_nx_iff)
  have ne: "a \<noteq> b" using chain_distinct [OF assms(1)] by simp
  have ty: "src_type oa = 1" "src_type ob = 1" using assms(2,3) o by (auto simp: time_src_iff)
  let ?s1 = "s\<lparr>rl := (rl s)\<lparr>sources := (sources (rl s))[1 := Some a]\<rparr>\<rparr>"
  have a1: "gwrl_src_add ops (Some a) s = Some ?s1"
    using o ty assms(4,5) by (simp add: gwrl_src_add_def nth_opt_def set_sources_def src_type_defs)
  have a2: "gwrl_src_add ops (Some b) ?s1 = Some (pushed 1 b ?s1)"
    using src_add_pushed [of ?s1 b ob ops] o ty assms(4) by (simp add: src_type_defs)
  have "install_sources_loop ops p s = Some (pushed 1 b ?s1)"
    using o a1 a2
    by (simp add: install_sources_loop.simps [of ops "Some a"] install_sources_loop.simps [of ops "Some b"]
        install_sources_loop.simps [of ops None])
  then show ?thesis
    using o ne assms(4) by (simp add: pushed_def src_nx_def)
qed

text \<open>
  \<^verbatim>\<open>gwrl_post_function_safely\<close> up to its wake: one more event in front of the queue, and
  beside that only what an operation on events changes.
\<close>

lemma post_safely_wakes:
  assumes "queue_inv s Q E C"
  obtains a u where "gwrl_post_function_safely cb ud s = gwrl_wake u" "queue_inv u (a # Q) E (tl C)"
    "evts u = (evts s)(a \<mapsto> new_evt None cb ud 0 0 (qevt (rl s)))" "kernel_view u = kernel_view s"
    "evt_frame s (u\<lparr>rl := (rl u)\<lparr>qevt := qevt (rl s)\<rparr>\<rparr>)"
proof -
  from assms(1) have q: "chain (evt_nx s) (qevt (rl s)) Q" "evts_inv s E C" "set Q \<inter> (set E \<union> set C) = {}"
    by (simp_all add: queue_inv_def)
  obtain a t where t:
    "(gwrl_evt_create None cb ud 0 0 s \<bind> (\<lambda>(e, s). evt_create_retry id e None cb ud 0 0 s)) = Some (Some a, t)"
    "evts t = (evts s)(a \<mapsto> new_evt None cb ud 0 0 None)" "a = (case C of [] \<Rightarrow> brk s | c # _ \<Rightarrow> c)"
    "a \<notin> set E" "a \<notin> set (tl C)" "evts_inv t E (tl C)" "evt_frame s t" "brk s \<le> brk t"
    by (rule evt_create_any [OF q(2) errs_only_id, of None cb ud 0 0])
  note f = evt_frameD [OF t(7)]
  have aQ: "a \<notin> set Q"
  proof
    assume m: "a \<in> set Q"
    then obtain e where "evts s a = Some e" using seg_alloc [OF q(1)] by (auto simp: evt_nx_iff)
    then have "a < brk s" using q(2) by (auto simp: evts_inv_def intro: fresh_okD)
    with m t(3) q(3) show False by (cases C) auto
  qed
  let ?u = "t\<lparr>evts := (evts t)(a \<mapsto> new_evt None cb ud 0 0 (qevt (rl s))), rl := (rl t)\<lparr>qevt := Some a\<rparr>\<rparr>"
  have "a < brk t" using t(2,6) by (auto simp: evts_inv_def intro: fresh_okD)
  then have "fresh_ok ?u" using t(6) by (auto simp: evts_inv_def fresh_ok_def)
  then have "evts_inv ?u E (tl C)"
    using t(2,4-6) by (simp add: evts_inv_def cache_ok_def evt_nx_evts)
  moreover have "chain (evt_nx ?u) (qevt (rl ?u)) (a # Q)"
    using q(1) aQ by (simp add: evt_nx_evts t(2) f)
  moreover have "set (a # Q) \<inter> (set E \<union> set (tl C)) = {}"
    using t(4,5) q(3) by (cases C) auto
  moreover have "gwrl_post_function_safely cb ud s =
      (gwrl_evt_create None cb ud 0 0 s \<bind> (\<lambda>(e, s). evt_create_retry id e None cb ud 0 0 s)) \<bind>
        (\<lambda>(e, s). gwrl_post_evt_safely e s)"
    by (simp add: gwrl_post_function_safely_def split_def)
  moreover have "gwrl_post_evt_safely (Some a) t = gwrl_wake ?u"
    using t(2) f(11) by (cases "qevt (rl s)") (simp_all add: gwrl_post_evt_safely_def)
  moreover have "evt_frame s (?u\<lparr>rl := (rl ?u)\<lparr>qevt := qevt (rl s)\<rparr>\<rparr>)"
  proof -
    let ?m = "(evts t)(a \<mapsto> new_evt None cb ud 0 0 (qevt (rl s)))"
    have "?u\<lparr>rl := (rl ?u)\<lparr>qevt := qevt (rl s)\<rparr>\<rparr> = t\<lparr>evts := ?m\<rparr>"
      by (intro world.equality gwrl.equality) (simp_all add: f)
    moreover have "evt_frame s (t\<lparr>evts := ?m\<rparr>)"
      using arg_cong [where f = "evts_update (\<lambda>_. ?m)", OF t(7) [unfolded evt_frame_def]]
      by (simp add: evt_frame_def)
    ultimately show ?thesis by simp
  qed
  ultimately show ?thesis
    using t(1,2) f by (intro that [of ?u a]) (simp_all add: queue_inv_def)
qed

lemma queue_inv_sys:
  assumes "sys_frame s s'" "queue_inv s Q E C"
  shows "queue_inv s' Q E C"
proof -
  note g = sys_frameD [OF assms(1)]
  have i: "evts_inv s E C" using assms(2) by (simp add: queue_inv_def)
  have "evts_inv s' E C"
    by (rule evts_inv_cong [OF _ _ _ _ _ i]) (use g i in \<open>simp_all add: evts_inv_def fresh_ok_def\<close>)
  with assms(2) show ?thesis by (simp add: queue_inv_def evt_nx_evts g)
qed

text \<open>What a call that returned has done.\<close>

lemma post_safely_queued:
  assumes "gwrl_post_function_safely cb ud s = Some s'" "queue_inv s Q E C"
  obtains a where "queue_inv s' (a # Q) E (tl C)" "qsrc (rl s') = qsrc (rl s)"
    "evts s' = (evts s)(a \<mapsto> new_evt None cb ud 0 0 (qevt (rl s)))" "options (rl s') = options (rl s)"
proof -
  obtain a u where u: "gwrl_post_function_safely cb ud s = gwrl_wake u" "queue_inv u (a # Q) E (tl C)"
    "evts u = (evts s)(a \<mapsto> new_evt None cb ud 0 0 (qevt (rl s)))" "kernel_view u = kernel_view s"
    "evt_frame s (u\<lparr>rl := (rl u)\<lparr>qevt := qevt (rl s)\<rparr>\<rparr>)"
    by (rule post_safely_wakes [OF assms(2)])
  have f: "sys_frame u s'" by (rule wake_frame) (use u(1) assms(1) in simp)
  note g = sys_frameD [OF f]
  have "rl (u\<lparr>rl := (rl u)\<lparr>qevt := qevt (rl s)\<rparr>\<rparr>) =
      (rl s)\<lparr>cevents := cevents (rl u), ncevents := ncevents (rl u), events := events (rl u)\<rparr>"
    by (subst u(5) [unfolded evt_frame_def]) simp
  from arg_cong [OF this, of qsrc] arg_cong [OF this, of options]
  have r: "qsrc (rl u) = qsrc (rl s)" "options (rl u) = options (rl s)" by simp_all
  show ?thesis by (rule that [OF queue_inv_sys [OF f u(2)]]) (use u(3) r g in simp_all)
qed

subsection \<open>Properties\<close>

text \<open>
  \<^verbatim>\<open>gwrl_post_function_safely\<close> queues one new event, with the caller's function and data,
  in front of the events other threads have queued, leaves the posted events and the
  cache consistent, and wakes the reactor (provided the write to the pipe is not
  interrupted for ever).
\<close>
theorem post_function_safely_queues:
  assumes "queue_inv s Q E C"
    and "\<forall>i < k. ans_ret (answer_at s i) < 0 \<and> ans_errno (answer_at s i) = EINTR"
    and "\<not> (ans_ret (answer_at s k) < 0 \<and> ans_errno (answer_at s k) = EINTR)"
  shows "\<exists>a s'. gwrl_post_function_safely cb ud s = Some s' \<and> queue_inv s' (a # Q) E (tl C) \<and>
    evts s' = (evts s)(a \<mapsto> new_evt None cb ud 0 0 (qevt (rl s))) \<and>
    calls s' = (if flisset (rl_flags (rl s)) GWRL_SLEEPING
                then replicate (Suc k) (Sys_write (snd (fds (rl s))) wake_bytes) else []) @ calls s"
proof -
  obtain a u where u: "gwrl_post_function_safely cb ud s = gwrl_wake u" "queue_inv u (a # Q) E (tl C)"
    "evts u = (evts s)(a \<mapsto> new_evt None cb ud 0 0 (qevt (rl s)))" "kernel_view u = kernel_view s"
    "evt_frame s (u\<lparr>rl := (rl u)\<lparr>qevt := qevt (rl s)\<rparr>\<rparr>)"
    by (rule post_safely_wakes [OF assms(1)])
  have f: "rl_flags (rl u) = rl_flags (rl s)" "fds (rl u) = fds (rl s)"
    using evt_frameD(4,5) [OF u(5)] by simp_all
  have at: "answer_at u = answer_at s"
    using kernel_viewD(2,3) [OF u(4)] by (simp add: answer_at_def fun_eq_iff)
  obtain s' where s': "gwrl_wake u = Some s'" "sys_frame u s'"
    "calls s' = (if flisset (rl_flags (rl s)) GWRL_SLEEPING
                then replicate (Suc k) (Sys_write (snd (fds (rl s))) wake_bytes) else []) @ calls s"
    using wake_ok [of k u] assms(2,3) f kernel_viewD(3) [OF u(4)] unfolding at by auto
  from queue_inv_sys [OF s'(2) u(2)] u(1,3) s' sys_frameD(1) [OF s'(2)] show ?thesis
    by (intro exI [of _ a] exI [of _ s']) simp
qed

text \<open>
  C34: \<^verbatim>\<open>gwrl_install_queued_events\<close> moves the queue, oldest first, in front of the posted
  events and empties it, when something was posted already or at most one event is queued.
  Nothing but the links of events, the list of posted events and the head of the queue is changed: the
  contents of every event, the cache, the sources and their queue, the flags and all the rest of the reactor stay.
\<close>
theorem queued_events_installed:
  assumes "queue_inv s Q E C" "E \<noteq> [] \<or> length Q \<le> 1"
  shows "\<exists>s'. gwrl_install_queued_events s = Some s' \<and> queue_inv s' [] (rev Q @ E) C \<and>
    (\<forall>b. map_option evt_core (evts s' b) = map_option evt_core (evts s b)) \<and>
    s' = s\<lparr>evts := evts s', rl := (rl s)\<lparr>events := events (rl s'), qevt := None\<rparr>\<rparr>"
proof -
  let ?t = "s\<lparr>rl := (rl s)\<lparr>qevt := None\<rparr>\<rparr>"
  from assms(1) have q: "chain (evt_nx ?t) (qevt (rl s)) Q" "evts_inv s E C" "set Q \<inter> (set E \<union> set C) = {}"
    by (simp_all add: queue_inv_def evt_nx_evts)
  have "evts_inv ?t E C"
    by (rule evts_inv_cong [OF _ _ _ _ _ q(2)]) (use q(2) in \<open>simp_all add: evts_inv_def fresh_ok_def\<close>)
  then obtain s' where s': "install_events_loop (qevt (rl s)) ?t = Some s'" "evts_inv s' (rev Q @ E) C"
    "evt_frame ?t s'" "\<forall>b. map_option evt_core (evts s' b) = map_option evt_core (evts ?t b)"
    "s' = ?t\<lparr>evts := evts s', rl := (rl ?t)\<lparr>events := events (rl s')\<rparr>\<rparr>"
    using install_events_loop_ok [OF q(1) _ q(3) assms(2)] by blast
  have "s' = s\<lparr>evts := evts s', rl := (rl s)\<lparr>events := events (rl s'), qevt := None\<rparr>\<rparr>"
    by (rule trans [OF s'(5)]) (intro world.equality gwrl.equality; simp)
  with s'(1-4) evt_frameD [OF s'(3)] show ?thesis
    by (intro exI [of _ s']) (simp add: gwrl_install_queued_events_def install_events_from_def queue_inv_def)
qed

text \<open>
  With two or more events queued and nothing posted, \<^verbatim>\<open>gwrl_install_queued_events\<close> builds a
  cyclic list: the first event keeps its link to the second, which is then linked back to
  the first, so the list of posted events never reaches its end.
\<close>
theorem queued_events_cycle:
  assumes "chain (evt_nx s) (qevt (rl s)) (a # b # Q)" "events (rl s) = None"
  shows "\<exists>s'. gwrl_install_queued_events s = Some s' \<and>
    evt_nx s' a = Some (Some b) \<and> evt_nx s' b = Some (Some a) \<and>
    \<not> (\<exists>L. chain (evt_nx s') (events (rl s')) L)"
proof -
  let ?t = "s\<lparr>rl := (rl s)\<lparr>qevt := None\<rparr>\<rparr>"
  have "chain (evt_nx ?t) (qevt (rl s)) (a # b # Q)" "events (rl ?t) = None"
    using assms by (simp_all add: evt_nx_evts)
  then obtain s' where s': "install_events_loop (qevt (rl s)) ?t = Some s'" "evt_cycle a b (rev Q) s'"
    using install_events_cycle by blast
  from s'(2) evt_cycle_no_chain [OF s'(2)] s'(1) show ?thesis
    by (intro exI [of _ s'])
       (simp add: gwrl_install_queued_events_def install_events_from_def evt_cycle_def)
qed

text \<open>
  \<^verbatim>\<open>gwrl_install_queued_sources\<close> moves the queued timers, oldest first, in front of the
  registered ones, when a timer is registered already or at most one is queued.
\<close>
theorem queued_timers_installed:
  assumes "src_queue s Q Fs Ts" "Ts \<noteq> [] \<or> length Q \<le> 1"
  shows "\<exists>s'. gwrl_install_queued_sources ops s = Some s' \<and> src_queue s' [] Fs (rev Q @ Ts) \<and>
    (\<forall>b. map_option src_core (srcs s' b) = map_option src_core (srcs s b)) \<and> evts s' = evts s"
proof -
  let ?t = "s\<lparr>rl := (rl s)\<lparr>qsrc := None\<rparr>\<rparr>"
  from assms(1) have q: "chain (src_nx ?t) (qsrc (rl s)) Q" "\<And>a. a \<in> set Q \<Longrightarrow> time_src ?t a"
    "srcs_inv s Fs Ts" "set Q \<inter> set Ts = {}"
    by (simp_all add: src_queue_def src_nx_srcs list_all_iff time_src_iff)
  have "srcs_inv ?t Fs Ts"
    by (rule srcs_inv_cong [OF _ _ _ q(3)]) (use srcs_invD(4) [OF q(3)] in \<open>simp_all add: fresh_ok_def\<close>)
  then obtain s' where s': "install_sources_loop ops (qsrc (rl s)) ?t = Some s'"
    "srcs_inv s' Fs (rev Q @ Ts)" "links_only ?t s'"
    using install_timers_ok [OF q(1,2) _ q(4) assms(2), of Fs ops] by blast
  have fr: "qsrc (rl s') = None" "evts s' = evts s"
    by (subst s'(3) [unfolded links_only_def, THEN conjunct1], simp)+
  have "map_option src_core (srcs s' b) = map_option src_core (srcs s b)" for b
    using s'(3) by (simp add: links_only_def)
  with s' fr show ?thesis
    by (intro exI [of _ s'])
       (simp add: gwrl_install_queued_sources_def install_sources_from_def src_queue_def)
qed

text \<open>
  two timers queued while none is registered become a cyclic list of time sources: no
  finite list of timers is registered any more.
\<close>
theorem queued_timers_cycle:
  assumes "src_queue s [a, b] Fs []"
  shows "\<exists>s'. gwrl_install_queued_sources ops s = Some s' \<and>
    \<not> (\<exists>L. chain (src_nx s') (sources (rl s') ! GWRL_SRC_TYPE_TIME) L)"
proof -
  let ?t = "s\<lparr>rl := (rl s)\<lparr>qsrc := None\<rparr>\<rparr>"
  note i = assms [unfolded src_queue_def]
  have "chain (src_nx ?t) (qsrc (rl s)) [a, b]" "time_src ?t a" "time_src ?t b"
    using i by (simp_all add: src_nx_srcs time_src_iff)
  moreover have "length (sources (rl ?t)) = 2" "sources (rl ?t) ! 1 = None"
    using i srcs_invD(1,3) by fastforce+
  ultimately obtain s' where s': "install_sources_loop ops (qsrc (rl s)) ?t = Some s'"
    "sources (rl s') ! 1 = Some b" "src_nx s' b = Some (Some a)" "src_nx s' a = Some (Some b)"
    using install_timers_cycle [of ?t "qsrc (rl s)" a b ops] by blast
  with two_cycle_no_chain [of "src_nx s'" a b] show ?thesis
    by (intro exI [of _ s'])
       (simp add: gwrl_install_queued_sources_def install_sources_from_def src_type_defs)
qed

text \<open>
  the run loop reads the head of the queue before it takes the lock. An event that
  another thread posts in between is lost: it is neither queued nor posted afterwards.
\<close>
theorem unlocked_read_loses_event:
  assumes "queue_inv s Q E C" "E \<noteq> [] \<or> length Q \<le> 1" "evts s a = Some e"
    and "a \<notin> set Q \<union> set E \<union> set C" "gwrl_post_evt_safely (Some a) s = Some s1"
  shows "\<exists>s'. install_events_from (qevt (rl s)) s1 = Some s' \<and> queue_inv s' [] (rev Q @ E) C \<and>
    a \<notin> set (rev Q @ E) \<and> evts s' a \<noteq> None"
proof -
  let ?u = "s\<lparr>evts := (evts s)(a \<mapsto> e\<lparr>evt_next := qevt (rl s)\<rparr>), rl := (rl s)\<lparr>qevt := Some a\<rparr>\<rparr>"
  have "gwrl_post_evt_safely (Some a) s = gwrl_wake ?u"
    using assms(3) by (cases "qevt (rl s)") (simp_all add: gwrl_post_evt_safely_def)
  with assms(5) have w: "gwrl_wake ?u = Some s1" by simp
  note g = sys_frameD [OF wake_frame [OF w]]
  let ?t = "s1\<lparr>rl := (rl s1)\<lparr>qevt := None\<rparr>\<rparr>"
  from assms(1,4) have q: "chain (evt_nx ?t) (qevt (rl s)) Q" "evts_inv s E C" "set Q \<inter> (set E \<union> set C) = {}"
    by (simp_all add: queue_inv_def evt_nx_evts g)
  have "a < brk s" using assms(3) q(2) by (auto simp: evts_inv_def intro: fresh_okD)
  then have "fresh_ok ?t" using q(2) g by (auto simp: evts_inv_def fresh_ok_def)
  then have "evts_inv ?t E C"
    using q(2) assms(3,4) g by (simp add: evts_inv_def cache_ok_def evt_nx_evts)
  then obtain s' where s': "install_events_loop (qevt (rl s)) ?t = Some s'" "evts_inv s' (rev Q @ E) C"
    "evt_frame ?t s'" "\<forall>b. map_option evt_core (evts s' b) = map_option evt_core (evts ?t b)"
    using install_events_loop_ok [OF q(1) _ q(3) assms(2)] by blast
  have "map_option evt_core (evts s' a) \<noteq> None" using s'(4) g by simp
  then have "evts s' a \<noteq> None" by auto
  with s' evt_frameD [OF s'(3)] assms(4) show ?thesis
    by (intro exI [of _ s']) (simp add: install_events_from_def queue_inv_def)
qed

subsection \<open>Instances\<close>

text \<open>Events 2 and 1 queued, 3 posted, 4 neither; timers 2 and 1 queued, 3 registered.\<close>

definition queued_world :: "unit world" where
  "queued_world = (blank_world ())\<lparr>
     evts := [1 \<mapsto> zero_evt, 2 \<mapsto> zero_evt\<lparr>evt_next := Some 1\<rparr>, 3 \<mapsto> zero_evt, 4 \<mapsto> zero_evt],
     srcs := [1 \<mapsto> timer_src 10 GWRL_ENABLED no_time None None None,
              2 \<mapsto> timer_src 20 GWRL_ENABLED no_time None None (Some 1),
              3 \<mapsto> timer_src 30 GWRL_ENABLED no_time None None None],
     brk := 5,
     rl := (zero_gwrl ())\<lparr>events := Some 3, qevt := Some 2, qsrc := Some 2, sources := [None, Some 3]\<rparr>\<rparr>"

definition idle_world :: "unit world" where
  "idle_world = queued_world\<lparr>rl := (rl queued_world)\<lparr>events := None, sources := [None, None]\<rparr>\<rparr>"

lemma queued_world_inv:
  "queue_inv queued_world [2, 1] [3] []" "src_queue queued_world [2, 1] [] [3]"
  "src_queue idle_world [2, 1] [] []"
  by (auto simp: queue_inv_def evts_inv_def cache_ok_def fresh_ok_def src_queue_def srcs_inv_def
      src_type_defs queued_world_def idle_world_def blank_world_def zero_gwrl_def zero_evt_def evt_nx_def
      src_nx_def timer_src_def time_src_iff)

theorem post_function_safely_queues_witness:
  "\<exists>a s'. gwrl_post_function_safely (Some (Fn_user 1)) None queued_world = Some s' \<and>
    queue_inv s' [a, 2, 1] [3] [] \<and> calls s' = []"
proof -
  have "\<not> (ans_ret (answer_at queued_world 0) < 0 \<and> ans_errno (answer_at queued_world 0) = EINTR)"
    by (simp add: answer_at_def queued_world_def blank_world_def ok_answer_def)
  from post_function_safely_queues [OF queued_world_inv(1) _ this, of "Some (Fn_user 1)" None]
  show ?thesis by (auto simp: queued_world_def blank_world_def zero_gwrl_def flag_simps)
qed

theorem queued_events_installed_witness:
  "\<exists>s'. gwrl_install_queued_events queued_world = Some s' \<and> queue_inv s' [] [1, 2, 3] []"
  using queued_events_installed [OF queued_world_inv(1)] by auto

theorem queued_events_cycle_witness:
  "\<exists>s'. gwrl_install_queued_events idle_world = Some s' \<and>
    evt_nx s' 2 = Some (Some 1) \<and> evt_nx s' 1 = Some (Some 2) \<and>
    \<not> (\<exists>L. chain (evt_nx s') (events (rl s')) L)"
  by (rule queued_events_cycle [where Q = "[]"])
     (simp_all add: idle_world_def queued_world_def evt_nx_def zero_evt_def)

theorem queued_timers_installed_witness:
  "\<forall>ops. \<exists>s'. gwrl_install_queued_sources ops queued_world = Some s' \<and> src_queue s' [] [] [1, 2, 3]"
  using queued_timers_installed [OF queued_world_inv(2)] by simp metis

theorem queued_timers_cycle_witness:
  "\<forall>ops. \<exists>s'. gwrl_install_queued_sources ops idle_world = Some s' \<and>
    \<not> (\<exists>L. chain (src_nx s') (sources (rl s') ! GWRL_SRC_TYPE_TIME) L)"
  using queued_timers_cycle [OF queued_world_inv(3)] by blast

theorem unlocked_read_loses_event_witness:
  "\<exists>s1 s'. gwrl_post_evt_safely (Some 4) queued_world = Some s1 \<and>
    install_events_from (qevt (rl queued_world)) s1 = Some s' \<and> queue_inv s' [] [1, 2, 3] []"
proof -
  have e: "evts queued_world 4 = Some zero_evt" by (simp add: queued_world_def)
  obtain s1 where s1: "gwrl_post_evt_safely (Some 4) queued_world = Some s1"
    using e by (simp add: gwrl_post_evt_safely_def gwrl_wake_def queued_world_def blank_world_def
        zero_gwrl_def flag_simps Let_def)
  with unlocked_read_loses_event [OF queued_world_inv(1) _ e _ s1] show ?thesis by auto
qed

end
