(* ===== verification/Gw_Loop.thy ===== *)
theory Gw_Loop
  imports Gw_Queues
begin

section \<open>Dispatch and the run loop (\<^verbatim>\<open>src/gwrl/event.c\<close>)\<close>

text \<open>
  \<^verbatim>\<open>gwrl_dispatch\<close> calls the callbacks of the posted events and recycles the events; what the
  callbacks post is dispatched in further rounds, at most \<^verbatim>\<open>GWRL_REDISPATCH_MAX\<close>. The meaning
  of a function pointer as a callback is an argument, \<open>cb f evt s\<close>; the locale
  \<open>event_callbacks\<close> says what dispatch relies on. \<open>dispatch_spec\<close> is the specification:
  a round is the list of events posted when it begins, in order.
\<close>

type_synonym ('b, 'z) callbacks =
  "fnptr \<Rightarrow> ptr \<Rightarrow> ('b, 'z) world_scheme \<Rightarrow> ('b, 'z) world_scheme option"

subsection \<open>The operations\<close>

definition call_back :: "('b, 'z) callbacks \<Rightarrow> ptr \<Rightarrow> ('b, 'z) world_scheme \<Rightarrow> ('b, 'z) world_scheme option" where
  "call_back cb evt s = do {
     e \<leftarrow> get_evt evt s;
     (case evt_callback e of None \<Rightarrow> Some s | Some f \<Rightarrow> cb f evt s) }"

partial_function (option) dispatch_loop ::
    "('b, 'z) callbacks \<Rightarrow> nat \<Rightarrow> ptr \<Rightarrow> ptr \<Rightarrow> ('b, 'z) world_scheme \<Rightarrow> ('b, 'z) world_scheme option" where
  [code]: "dispatch_loop cb repost_count evt del s =
     (if evt = None then (if del \<noteq> None then gwrl_evt_free_list del s else Some s)
      else do {
        s \<leftarrow> call_back cb evt s;
        e \<leftarrow> get_evt evt s;
        if evt_next e = None \<and> events (rl s) \<noteq> None \<and> repost_count < GWRL_REDISPATCH_MAX
        then do {
          s \<leftarrow> gwrl_evt_free_list del s;
          dispatch_loop cb (Suc repost_count) (events (rl s)) (events (rl s))
            (s\<lparr>rl := (rl s)\<lparr>events := None\<rparr>\<rparr>) }
        else dispatch_loop cb repost_count (evt_next e) del s })"

definition gwrl_dispatch :: "('b, 'z) callbacks \<Rightarrow> ('b, 'z) world_scheme \<Rightarrow> ('b, 'z) world_scheme option" where
  "gwrl_dispatch cb s =
     dispatch_loop cb 0 (events (rl s)) (events (rl s)) (s\<lparr>rl := (rl s)\<lparr>events := None\<rparr>\<rparr>)"

definition gwrl_stop :: "('b, 'z) world_scheme \<Rightarrow> ('b, 'z) world_scheme" where
  "gwrl_stop s = s\<lparr>rl := (rl s)\<lparr>rl_flags := flset (rl_flags (rl s)) GWRL_STOP\<rparr>\<rparr>"

definition gwrl_allow_poll_sleep :: "int \<Rightarrow> ('b, 'z) world_scheme \<Rightarrow> ('b, 'z) world_scheme" where
  "gwrl_allow_poll_sleep onoff s =
     (if onoff \<noteq> 0 then s\<lparr>rl := (rl s)\<lparr>rl_flags := flclr (rl_flags (rl s)) GWRL_NOSLEEP\<rparr>\<rparr>
      else s\<lparr>rl := (rl s)\<lparr>rl_flags := flset (rl_flags (rl s)) GWRL_NOSLEEP\<rparr>\<rparr>)"

text \<open>
  What the run loop needs from outside: the backend's operations on sources, its gathering,
  the callbacks, and the user's gather functions.
\<close>

record ('b, 'z) loop_env =
  env_ops :: "('b, 'z) world_scheme src_ops"
  env_gather :: "('b, 'z) world_scheme \<Rightarrow> ('b, 'z) world_scheme option"
  env_cb :: "('b, 'z) callbacks"
  env_user_gather :: "fnptr \<Rightarrow> ('b, 'z) world_scheme \<Rightarrow> ('b, 'z) world_scheme option"

text \<open>The loop over the user's gather functions.\<close>

partial_function (option) user_gather_loop ::
    "('b, 'z) loop_env \<Rightarrow> nat \<Rightarrow> ('b, 'z) world_scheme \<Rightarrow> ('b, 'z) world_scheme option" where
  [code]: "user_gather_loop env i s =
     (if int i < gwrl_gather_funcs_max (options (rl s)) then do {
        fs \<leftarrow> gatherfncs (rl s);
        f \<leftarrow> nth_opt fs i;
        (case f of None \<Rightarrow> Some s
         | Some g \<Rightarrow> do { s \<leftarrow> env_user_gather env g s; user_gather_loop env (Suc i) s }) }
      else Some s)"

text \<open>
  The body shared by \<^verbatim>\<open>gwrl_run_once\<close> and \<^verbatim>\<open>gwrl_run\<close>; the flag tells that the stop flag was
  set, and has been cleared.
\<close>

definition run_round :: "('b, 'z) loop_env \<Rightarrow> ('b, 'z) world_scheme \<Rightarrow> (bool \<times> ('b, 'z) world_scheme) option" where
  "run_round env s = do {
     s \<leftarrow> (if qsrc (rl s) \<noteq> None then gwrl_install_queued_sources (env_ops env) s else Some s);
     s \<leftarrow> (if qevt (rl s) \<noteq> None then gwrl_install_queued_events s else Some s);
     s \<leftarrow> gwrl_dispatch (env_cb env) s;
     if flisset (rl_flags (rl s)) GWRL_STOP
     then Some (True, s\<lparr>rl := (rl s)\<lparr>rl_flags := flclr (rl_flags (rl s)) GWRL_STOP\<rparr>\<rparr>)
     else do {
       let s = s\<lparr>rl := (rl s)\<lparr>timeout := no_time\<rparr>\<rparr>;
       tsrc \<leftarrow> nth_opt (sources (rl s)) GWRL_SRC_TYPE_TIME;
       s \<leftarrow> (if tsrc \<noteq> None then gwrl_time_gather (env_ops env) s else Some s);
       s \<leftarrow> env_gather env s;
       s \<leftarrow> user_gather_loop env 0 s;
       Some (False, s) } }"

definition gwrl_run_once :: "('b, 'z) loop_env \<Rightarrow> ('b, 'z) world_scheme \<Rightarrow> ('b, 'z) world_scheme option" where
  "gwrl_run_once env s = map_option snd (run_round env s)"

partial_function (option) run_loop ::
    "('b, 'z) loop_env \<Rightarrow> ('b, 'z) world_scheme \<Rightarrow> ('b, 'z) world_scheme option" where
  [code]: "run_loop env s = do {
     (stopped, s) \<leftarrow> run_round env s;
     if stopped then Some s else run_loop env s }"

definition gwrl_run :: "('b, 'z) loop_env \<Rightarrow> ('b, 'z) world_scheme \<Rightarrow> ('b, 'z) world_scheme option" where
  "gwrl_run env s =
     run_loop env (s\<lparr>rl := (rl s)\<lparr>rl_flags := flclr (rl_flags (rl s)) GWRL_STOP\<rparr>\<rparr>)"

subsection \<open>The specification of dispatch\<close>

text \<open>The list of events from a pointer on.\<close>

partial_function (option) evt_list :: "('b, 'z) world_scheme \<Rightarrow> ptr \<Rightarrow> addr list option" where
  [code]: "evt_list s p = (case p of None \<Rightarrow> Some []
     | Some a \<Rightarrow> do { e \<leftarrow> evts s a; as \<leftarrow> evt_list s (evt_next e); Some (a # as) })"

fun run_callbacks :: "('b, 'z) callbacks \<Rightarrow> addr list \<Rightarrow> ('b, 'z) world_scheme \<Rightarrow> ('b, 'z) world_scheme option" where
  "run_callbacks cb [] s = Some s"
| "run_callbacks cb (a # as) s = do { s \<leftarrow> call_back cb (Some a) s; run_callbacks cb as s }"

text \<open>One round, then as many more as \<open>k\<close> while callbacks post events.\<close>

fun dispatch_rounds :: "('b, 'z) callbacks \<Rightarrow> nat \<Rightarrow> ('b, 'z) world_scheme \<Rightarrow> ('b, 'z) world_scheme option" where
  "dispatch_rounds cb k s = do {
     batch \<leftarrow> evt_list s (events (rl s));
     let first = events (rl s);
     s \<leftarrow> run_callbacks cb batch (s\<lparr>rl := (rl s)\<lparr>events := None\<rparr>\<rparr>);
     s \<leftarrow> gwrl_evt_free_list first s;
     (case k of 0 \<Rightarrow> Some s
      | Suc k \<Rightarrow> if events (rl s) \<noteq> None then dispatch_rounds cb k s else Some s) }"

declare dispatch_rounds.simps [simp del]

definition dispatch_spec :: "('b, 'z) callbacks \<Rightarrow> ('b, 'z) world_scheme \<Rightarrow> ('b, 'z) world_scheme option" where
  "dispatch_spec cb s = (if events (rl s) = None then Some s else dispatch_rounds cb GWRL_REDISPATCH_MAX s)"

lemma evt_list_chain: "chain (evt_nx s) p L \<Longrightarrow> evt_list s p = Some L"
proof (induction L arbitrary: p)
  case Nil
  then show ?case by (simp add: evt_list.simps)
next
  case (Cons a L)
  then obtain e where "p = Some a" "evts s a = Some e" "chain (evt_nx s) (evt_next e) L"
    by (auto simp: evt_nx_iff)
  with Cons.IH show ?case by (simp add: evt_list.simps [of s "Some a"])
qed

subsection \<open>The contract of callbacks\<close>

text \<open>
  While the events \<open>L\<close> are being dispatched: they are allocated, apart from the posted
  events \<open>E\<close> and the cache \<open>C\<close>, and the cache limit fits its counter.
\<close>

definition flight_inv :: "('b, 'z) world_scheme \<Rightarrow> addr list \<Rightarrow> addr list \<Rightarrow> addr list \<Rightarrow> bool" where
  "flight_inv s L E C \<longleftrightarrow>
     (\<forall>a \<in> set L. evts s a \<noteq> None) \<and> evts_inv s E C \<and> set L \<inter> (set E \<union> set C) = {} \<and>
     gwrl_event_cache_max (options (rl s)) \<le> 65535"

text \<open>
  A callback returns, leaves the events in flight as they are, keeps the other events
  consistent and keeps \<open>good\<close>, whatever it needs of the rest of the state.
\<close>

lemma chain_evts_cong:
  assumes "\<forall>x \<in> set L. evts t x = evts s x" "set as \<subseteq> set L" "chain (evt_nx s) p as"
  shows "chain (evt_nx t) p as"
proof -
  have "evt_nx t x = evt_nx s x" if "x \<in> set as" for x
    using assms(1,2) that by (auto simp: evt_nx_def)
  from seg_cong [OF this] assms(3) show ?thesis by simp
qed

locale event_callbacks =
  fixes cb :: "('b, 'z) callbacks"
    and good :: "('b, 'z) world_scheme \<Rightarrow> bool"
  assumes call_law: "flight_inv s L E C \<Longrightarrow> good s \<Longrightarrow> a \<in> set L \<Longrightarrow> evts s a = Some e \<Longrightarrow>
      evt_callback e = Some f \<Longrightarrow>
      \<exists>s' E' C'. cb f (Some a) s = Some s' \<and> flight_inv s' L E' C' \<and> good s' \<and>
        (\<forall>x \<in> set L. evts s' x = evts s x)"
    and good_evts: "evt_frame s s' \<Longrightarrow> good s \<Longrightarrow> good s'"
begin

lemma call_ok:
  assumes "flight_inv s L E C" "good s" "a \<in> set L"
  shows "\<exists>s' E' C'. call_back cb (Some a) s = Some s' \<and> flight_inv s' L E' C' \<and> good s' \<and>
      (\<forall>x \<in> set L. evts s' x = evts s x)"
proof -
  obtain e where e: "evts s a = Some e" using assms by (auto simp: flight_inv_def)
  show ?thesis
  proof (cases "evt_callback e")
    case None
    with e assms show ?thesis by (auto simp: call_back_def)
  next
    case (Some f)
    with e call_law [OF assms e Some] show ?thesis by (simp add: call_back_def)
  qed
qed

lemma run_ok:
  assumes "flight_inv s L E C" "good s" "set as \<subseteq> set L"
  shows "\<exists>s' E' C'. run_callbacks cb as s = Some s' \<and> flight_inv s' L E' C' \<and> good s' \<and>
      (\<forall>x \<in> set L. evts s' x = evts s x)"
  using assms
proof (induction as arbitrary: s E C)
  case Nil
  then show ?case by auto
next
  case (Cons a as)
  then obtain t E1 C1 where t: "call_back cb (Some a) s = Some t" "flight_inv t L E1 C1" "good t"
    "\<forall>x \<in> set L. evts t x = evts s x"
    using call_ok [OF Cons.prems(1,2), of a] by auto
  from Cons.IH [OF t(2,3)] Cons.prems(3) t(1,4) show ?case by auto
qed

text \<open>Freeing the events of a round, once all callbacks have run.\<close>

lemma free_round:
  assumes "flight_inv s L E C" "chain (evt_nx s) del L" "good s"
  shows "\<exists>s' C'. gwrl_evt_free_list del s = Some s' \<and> evts_inv s' E C' \<and> good s' \<and>
    events (rl s') = events (rl s) \<and> gwrl_event_cache_max (options (rl s')) \<le> 65535 \<and>
    rl_flags (rl s') = rl_flags (rl s)"
proof -
  obtain s' where s': "gwrl_evt_free_list del s = Some s'" "evt_frame s s'" "events (rl s') = events (rl s)"
    "\<exists>C'. evts_inv s' E C'"
    using evt_free_list_inv [of s E C del L] assms by (auto simp: flight_inv_def)
  with good_evts assms evt_frameD(4,9) [OF s'(2)] show ?thesis by (auto simp: flight_inv_def)
qed

lemma loop_round:
  assumes "flight_inv s L E C" "good s" "chain (evt_nx s) del L"
    and "as \<noteq> []" "set as \<subseteq> set L" "chain (evt_nx s) p as"
  shows "dispatch_loop cb n p del s =
    run_callbacks cb as s \<bind> (\<lambda>s. gwrl_evt_free_list del s \<bind>
      (\<lambda>s. if events (rl s) \<noteq> None \<and> n < GWRL_REDISPATCH_MAX
           then dispatch_loop cb (Suc n) (events (rl s)) (events (rl s)) (s\<lparr>rl := (rl s)\<lparr>events := None\<rparr>\<rparr>)
           else Some s))"
  using assms
proof (induction as arbitrary: s E C p)
  case Nil
  then show ?case by simp
next
  case (Cons a as)
  from Cons.prems(6) obtain e where e: "p = Some a" "evts s a = Some e" "chain (evt_nx s) (evt_next e) as"
    by (auto simp: evt_nx_iff)
  have aL: "a \<in> set L" using Cons.prems(5) by simp
  obtain t E1 C1 where t: "call_back cb (Some a) s = Some t" "flight_inv t L E1 C1" "good t"
    "\<forall>x \<in> set L. evts t x = evts s x"
    using call_ok [OF Cons.prems(1,2) aL] by blast
  have ct: "chain (evt_nx t) del L"
    by (rule chain_evts_cong [OF t(4) subset_refl Cons.prems(3)])
  have ea: "evts t a = Some e" using t(4) aL e(2) by simp
  show ?case
  proof (cases as)
    case Nil
    then have nx: "evt_next e = None" using e(3) by simp
    obtain u C2 where u: "gwrl_evt_free_list del t = Some u" "events (rl u) = events (rl t)"
      using free_round [OF t(2) ct t(3)] by blast
    have "del \<noteq> None" using aL ct by (cases L) auto
    with Nil nx e(1) t(1) ea u show ?thesis
      by (simp add: dispatch_loop.simps [of cb n "Some a"] dispatch_loop.simps [of cb n None])
  next
    case (Cons b bs)
    then have nx: "evt_next e = Some b" using e(3) by auto
    have "chain (evt_nx t) (evt_next e) as"
      by (rule chain_evts_cong [OF t(4) _ e(3)]) (use Cons.prems(5) in simp)
    from Cons.IH [OF t(2,3) ct _ _ this] Cons.prems(5) Cons nx e(1) t(1) ea show ?thesis
      by (simp add: dispatch_loop.simps [of cb n "Some a"])
  qed
qed

lemma round_ok:
  assumes "evts_inv s E C" "E \<noteq> []" "gwrl_event_cache_max (options (rl s)) \<le> 65535" "good s"
  shows "\<exists>t u E' C'. run_callbacks cb E (s\<lparr>rl := (rl s)\<lparr>events := None\<rparr>\<rparr>) = Some t \<and>
    gwrl_evt_free_list (events (rl s)) t = Some u \<and>
    dispatch_loop cb n (events (rl s)) (events (rl s)) (s\<lparr>rl := (rl s)\<lparr>events := None\<rparr>\<rparr>) =
      (if events (rl u) \<noteq> None \<and> n < GWRL_REDISPATCH_MAX
       then dispatch_loop cb (Suc n) (events (rl u)) (events (rl u)) (u\<lparr>rl := (rl u)\<lparr>events := None\<rparr>\<rparr>)
       else Some u) \<and>
    evts_inv u E' C' \<and> gwrl_event_cache_max (options (rl u)) \<le> 65535 \<and> good u \<and>
    rl_flags (rl u) = rl_flags (rl t)"
proof -
  let ?s = "s\<lparr>rl := (rl s)\<lparr>events := None\<rparr>\<rparr>"
  have ch: "chain (evt_nx ?s) (events (rl s)) E"
    using assms(1) by (simp add: evts_inv_def evt_nx_evts)
  have "\<forall>a \<in> set E. evts s a \<noteq> None"
    using seg_alloc [OF ch] by (auto simp: evt_nx_iff)
  then have fl: "flight_inv ?s E [] C"
    using assms(1,3) by (auto simp: flight_inv_def evts_inv_def cache_ok_def evt_nx_evts fresh_ok_def)
  have gs: "good ?s" by (rule good_evts [OF _ assms(4)]) (simp add: evt_frame_def)
  obtain t E1 C1 where t: "run_callbacks cb E ?s = Some t" "flight_inv t E E1 C1" "good t"
    "\<forall>x \<in> set E. evts t x = evts ?s x"
    using run_ok [OF fl gs subset_refl] by blast
  have ct: "chain (evt_nx t) (events (rl s)) E"
    by (rule chain_evts_cong [OF t(4) subset_refl ch])
  obtain u C2 where u: "gwrl_evt_free_list (events (rl s)) t = Some u" "evts_inv u E1 C2" "good u"
    "gwrl_event_cache_max (options (rl u)) \<le> 65535" "rl_flags (rl u) = rl_flags (rl t)"
    using free_round [OF t(2) ct t(3)] by blast
  have "dispatch_loop cb n (events (rl s)) (events (rl s)) ?s =
      (if events (rl u) \<noteq> None \<and> n < GWRL_REDISPATCH_MAX
       then dispatch_loop cb (Suc n) (events (rl u)) (events (rl u)) (u\<lparr>rl := (rl u)\<lparr>events := None\<rparr>\<rparr>)
       else Some u)"
    using loop_round [OF fl gs ch assms(2) subset_refl ch, of n] t(1) u(1) by simp
  with t(1) u show ?thesis by blast
qed

lemma dispatch_rounds_ok:
  assumes "evts_inv s E C" "E \<noteq> []" "gwrl_event_cache_max (options (rl s)) \<le> 65535" "good s"
    and "n + k = GWRL_REDISPATCH_MAX"
  shows "\<exists>s' E' C'.
    dispatch_loop cb n (events (rl s)) (events (rl s)) (s\<lparr>rl := (rl s)\<lparr>events := None\<rparr>\<rparr>) = Some s' \<and>
    dispatch_rounds cb k s = Some s' \<and> evts_inv s' E' C' \<and> good s' \<and>
    gwrl_event_cache_max (options (rl s')) \<le> 65535"
  using assms
proof (induction k arbitrary: s E C n)
  case 0
  have l: "evt_list s (events (rl s)) = Some E"
    using "0.prems"(1) by (intro evt_list_chain) (simp add: evts_inv_def)
  obtain t u E' C' where u: "run_callbacks cb E (s\<lparr>rl := (rl s)\<lparr>events := None\<rparr>\<rparr>) = Some t"
    "gwrl_evt_free_list (events (rl s)) t = Some u"
    "dispatch_loop cb n (events (rl s)) (events (rl s)) (s\<lparr>rl := (rl s)\<lparr>events := None\<rparr>\<rparr>) =
      (if events (rl u) \<noteq> None \<and> n < GWRL_REDISPATCH_MAX
       then dispatch_loop cb (Suc n) (events (rl u)) (events (rl u)) (u\<lparr>rl := (rl u)\<lparr>events := None\<rparr>\<rparr>)
       else Some u)"
    "evts_inv u E' C'" "gwrl_event_cache_max (options (rl u)) \<le> 65535" "good u"
    using round_ok [OF "0.prems"(1-4)] by blast
  with l "0.prems"(5) show ?case by (auto simp: dispatch_rounds.simps [of cb 0])
next
  case (Suc k)
  have l: "evt_list s (events (rl s)) = Some E"
    using Suc.prems(1) by (intro evt_list_chain) (simp add: evts_inv_def)
  obtain t u E' C' where u: "run_callbacks cb E (s\<lparr>rl := (rl s)\<lparr>events := None\<rparr>\<rparr>) = Some t"
    "gwrl_evt_free_list (events (rl s)) t = Some u"
    "dispatch_loop cb n (events (rl s)) (events (rl s)) (s\<lparr>rl := (rl s)\<lparr>events := None\<rparr>\<rparr>) =
      (if events (rl u) \<noteq> None \<and> n < GWRL_REDISPATCH_MAX
       then dispatch_loop cb (Suc n) (events (rl u)) (events (rl u)) (u\<lparr>rl := (rl u)\<lparr>events := None\<rparr>\<rparr>)
       else Some u)"
    "evts_inv u E' C'" "gwrl_event_cache_max (options (rl u)) \<le> 65535" "good u"
    using round_ok [OF Suc.prems(1-4)] by blast
  show ?case
  proof (cases "events (rl u)")
    case None
    with u l show ?thesis by (auto simp: dispatch_rounds.simps [of cb "Suc k"])
  next
    case (Some p)
    then have "E' \<noteq> []" using u(4) by (auto simp: evts_inv_def)
    with Suc.IH [OF u(4) _ u(5,6), of "Suc n"] Suc.prems(5) Some u l show ?thesis
      by (simp add: dispatch_rounds.simps [of cb "Suc k"])
  qed
qed

lemma dispatch_ok:
  assumes "evts_inv s E C" "gwrl_event_cache_max (options (rl s)) \<le> 65535" "good s"
  shows "\<exists>s' E' C'. gwrl_dispatch cb s = Some s' \<and> dispatch_spec cb s = Some s' \<and>
    evts_inv s' E' C' \<and> good s' \<and> gwrl_event_cache_max (options (rl s')) \<le> 65535"
proof (cases E)
  case Nil
  then have n: "events (rl s) = None" using assms(1) by (simp add: evts_inv_def)
  then have e: "s\<lparr>rl := (rl s)\<lparr>events := None\<rparr>\<rparr> = s" by (intro world.equality gwrl.equality) simp_all
  have "gwrl_dispatch cb s = Some s" "dispatch_spec cb s = Some s"
    unfolding gwrl_dispatch_def dispatch_spec_def e n by (simp_all add: dispatch_loop.simps)
  with assms show ?thesis by blast
next
  case (Cons a L)
  then have "events (rl s) = Some a" using assms(1) by (auto simp: evts_inv_def)
  with dispatch_rounds_ok [OF assms(1) _ assms(2,3), of 0 GWRL_REDISPATCH_MAX] Cons show ?thesis
    by (simp add: gwrl_dispatch_def dispatch_spec_def)
qed

end

subsection \<open>The library's own callbacks\<close>

text \<open>
  Without a proactor the only callback the library installs is \<^verbatim>\<open>gwrl_wake_activity\<close>
  (\<^verbatim>\<open>gwpr_src_activity\<close> returns at once for a source without proactor data, \<^verbatim>\<open>io_activity\<close> is
  empty). User functions are an argument; \<open>countdown\<close> is one that posts the next function,
  \<open>n\<close> times, and then stops the reactor.
\<close>

definition reactor_callbacks ::
    "('b, 'z) world_scheme src_ops \<Rightarrow> (nat \<Rightarrow> ptr \<Rightarrow> ('b, 'z) world_scheme \<Rightarrow> ('b, 'z) world_scheme option)
     \<Rightarrow> ('b, 'z) callbacks" where
  "reactor_callbacks ops user f evt s =
     (case f of
        Fn_gwrl_wake_activity \<Rightarrow> gwrl_wake_activity ops evt s
      | Fn_gwpr_src_activity \<Rightarrow> Some s
      | Fn_io_activity \<Rightarrow> Some s
      | Fn_user n \<Rightarrow> user n evt s)"

definition countdown :: "nat \<Rightarrow> ptr \<Rightarrow> ('b, 'z) world_scheme \<Rightarrow> ('b, 'z) world_scheme option" where
  "countdown n evt s =
     (case n of 0 \<Rightarrow> Some (gwrl_stop s) | Suc m \<Rightarrow> gwrl_post_function (Some (Fn_user m)) None s)"

text \<open>The read end of the pipe always ends with \<^verbatim>\<open>EAGAIN\<close>.\<close>

definition pipe_reads_ok :: "('b, 'z) world_scheme \<Rightarrow> bool" where
  "pipe_reads_ok s \<longleftrightarrow>
     (\<forall>n. 0 < ans_ret (answers s n) \<or> ans_ret (answers s n) < 0 \<and> ans_errno (answers s n) = EAGAIN) \<and>
     (\<forall>n. \<exists>m \<ge> n. ans_ret (answers s m) < 0)"

lemma pipe_reads_ok_answers: "answers s' = answers s \<Longrightarrow> pipe_reads_ok s \<Longrightarrow> pipe_reads_ok s'"
  by (simp add: pipe_reads_ok_def)

lemma flight_inv_cong:
  assumes "evts s' = evts s" "srcs s' = srcs s" "brk s' = brk s" "options (rl s') = options (rl s)"
    "events (rl s') = events (rl s)" "cevents (rl s') = cevents (rl s)" "ncevents (rl s') = ncevents (rl s)"
    "flight_inv s L E C"
  shows "flight_inv s' L E C"
proof -
  have "evts_inv s' E C"
    by (rule evts_inv_cong [of s' s]) (use assms in \<open>simp_all add: flight_inv_def evts_inv_def fresh_ok_def\<close>)
  with assms show ?thesis by (simp add: flight_inv_def)
qed

lemma wake_activity_flight:
  assumes "flight_inv s L E C" "pipe_reads_ok s" "evts s a = Some e"
  shows "\<exists>s'. gwrl_wake_activity ops (Some a) s = Some s' \<and> flight_inv s' L E C \<and> pipe_reads_ok s' \<and>
    evts s' = evts s \<and> sys_frame s s'"
proof (cases "flisset (evt_flags e) GWRL_RD")
  case False
  with assms show ?thesis by (auto simp: gwrl_wake_activity_def)
next
  case True
  let ?P = "\<lambda>k. \<not> 0 < ans_ret (answer_at s k)"
  obtain m where "length (calls s) \<le> m" "ans_ret (answers s m) < 0"
    using assms(2) by (auto simp: pipe_reads_ok_def)
  then have ex: "\<exists>k. ?P k" by (intro exI [of _ "m - length (calls s)"]) (simp add: answer_at_def)
  define k where "k = (LEAST k. ?P k)"
  have k: "?P k" and lt: "\<And>i. i < k \<Longrightarrow> 0 < ans_ret (answer_at s i)"
    using LeastI_ex [OF ex] not_less_Least [of _ ?P] unfolding k_def by blast+
  then have er: "ans_ret (answer_at s k) < 0" "ans_errno (answer_at s k) = EAGAIN"
    using assms(2) by (auto simp: pipe_reads_ok_def answer_at_def)
  obtain s' where s': "wake_read_loop (evt_fd e) s = Some (False, s')" "sys_frame s s'"
    using wake_read_loop_drain [OF lt k, of EAGAIN "evt_fd e"] er by auto
  note g = sys_frameD [OF s'(2)]
  have "flight_inv s' L E C" by (rule flight_inv_cong [OF _ _ _ _ _ _ _ assms(1)]) (simp_all add: g)
  with s' True assms show ?thesis
    by (intro exI [of _ s']) (simp add: gwrl_wake_activity_def g pipe_reads_ok_def)
qed

lemma post_function_flight:
  assumes "flight_inv s L E C"
  shows "\<exists>s' E' C'. gwrl_post_function cb ud s = Some s' \<and> flight_inv s' L E' C' \<and>
    (\<forall>x \<in> set L. evts s' x = evts s x) \<and> evt_frame s s'"
proof -
  have i: "evts_inv s E C" using assms by (simp add: flight_inv_def)
  obtain a s' where s': "create_and_post None cb ud 0 0 s = Some s'"
    "evts s' = (evts s)(a \<mapsto> new_evt None cb ud 0 0 (events (rl s)))"
    "a = (case C of [] \<Rightarrow> brk s | c # _ \<Rightarrow> c)" "evts_inv s' (a # E) (tl C)" "evt_frame s s'"
    by (rule create_and_post_ok [OF i, of None cb ud 0 0])
  have aL: "a \<notin> set L"
  proof
    assume m: "a \<in> set L"
    then obtain e where "evts s a = Some e" using assms by (auto simp: flight_inv_def)
    then have "a < brk s" using i by (auto simp: evts_inv_def intro: fresh_okD)
    with m s'(3) assms show False by (cases C) (auto simp: flight_inv_def)
  qed
  have "set (tl C) \<subseteq> set C" by (cases C) auto
  with aL assms s' evt_frameD(9) [OF s'(5)] have "flight_inv s' L (a # E) (tl C)"
    by (auto simp: flight_inv_def)
  with s' aL show ?thesis
    by (intro exI [of _ s'] exI [of _ "a # E"] exI [of _ "tl C"]) (auto simp: gwrl_post_function_def)
qed

text \<open>
  Every callback of a reactor whose user functions are \<open>countdown\<close> returns, and either made
  system calls only, or worked on events only, or stopped the reactor.
\<close>

lemma countdown_call:
  assumes "flight_inv s L E C" "pipe_reads_ok s" "a \<in> set L" "evts s a = Some e"
  shows "\<exists>s' E' C'. reactor_callbacks ops countdown f (Some a) s = Some s' \<and> flight_inv s' L E' C' \<and>
    (\<forall>x \<in> set L. evts s' x = evts s x) \<and> (sys_frame s s' \<or> evt_frame s s' \<or> s' = gwrl_stop s)"
proof (cases f)
  case Fn_gwrl_wake_activity
  moreover obtain s' where "gwrl_wake_activity ops (Some a) s = Some s'" "flight_inv s' L E C"
    "evts s' = evts s" "sys_frame s s'"
    using wake_activity_flight [OF assms(1,2,4), of ops] by blast
  ultimately show ?thesis
    by (intro exI [of _ s'] exI [of _ E] exI [of _ C]) (simp add: reactor_callbacks_def)
next
  case (Fn_user n)
  show ?thesis
  proof (cases n)
    case 0
    have "flight_inv (gwrl_stop s) L E C"
      by (rule flight_inv_cong [OF _ _ _ _ _ _ _ assms(1)]) (simp_all add: gwrl_stop_def)
    then show ?thesis
      using Fn_user 0 by (auto simp: reactor_callbacks_def countdown_def gwrl_stop_def)
  next
    case (Suc m)
    obtain s' E' C' where "gwrl_post_function (Some (Fn_user m)) None s = Some s'" "flight_inv s' L E' C'"
      "\<forall>x \<in> set L. evts s' x = evts s x" "evt_frame s s'"
      using post_function_flight [OF assms(1)] by blast
    with Fn_user Suc show ?thesis by (auto simp: reactor_callbacks_def countdown_def)
  qed
qed (use assms(1) in \<open>auto simp: reactor_callbacks_def\<close>)

interpretation countdown: event_callbacks "reactor_callbacks ops countdown" pipe_reads_ok for ops
proof
  fix s :: "('a, 'b) world_scheme" and L E C a e f
  assume fl: "flight_inv s L E C" and g: "pipe_reads_ok s" and a: "a \<in> set L" "evts s a = Some e"
  obtain s' E' C' where s': "reactor_callbacks ops countdown f (Some a) s = Some s'" "flight_inv s' L E' C'"
    "\<forall>x \<in> set L. evts s' x = evts s x" "sys_frame s s' \<or> evt_frame s s' \<or> s' = gwrl_stop s"
    using countdown_call [OF fl g a] by blast
  have "answers s' = answers s"
    using s'(4) sys_frameD(5) kernel_viewD(2) [OF evt_frameD(16)] by (auto simp: gwrl_stop_def)
  from pipe_reads_ok_answers [OF this g] s'
  show "\<exists>s' E' C'. reactor_callbacks ops countdown f (Some a) s = Some s' \<and> flight_inv s' L E' C' \<and>
      pipe_reads_ok s' \<and> (\<forall>x \<in> set L. evts s' x = evts s x)"
    by blast
next
  show "evt_frame s s' \<Longrightarrow> pipe_reads_ok s \<Longrightarrow> pipe_reads_ok s'" for s s' :: "('a, 'b) world_scheme"
    by (rule pipe_reads_ok_answers [OF kernel_viewD(2) [OF evt_frameD(16)]])
qed

subsection \<open>Stopping\<close>

text \<open>A callback that may set the stop flag but never clears it, and a function that sets it.\<close>

definition keeps_stop :: "('b, 'z) callbacks \<Rightarrow> fnptr \<Rightarrow> bool" where
  "keeps_stop cb f0 \<longleftrightarrow>
     (\<forall>f evt s s'. cb f evt s = Some s' \<longrightarrow> flisset (rl_flags (rl s)) GWRL_STOP \<or> f = f0 \<longrightarrow>
        flisset (rl_flags (rl s')) GWRL_STOP)"

lemma call_back_stop:
  assumes "keeps_stop cb f0" "call_back cb (Some a) s = Some s'"
    and "flisset (rl_flags (rl s)) GWRL_STOP \<or> (\<exists>e. evts s a = Some e \<and> evt_callback e = Some f0)"
  shows "flisset (rl_flags (rl s')) GWRL_STOP"
proof -
  from assms(2) obtain e where e: "evts s a = Some e"
    "(case evt_callback e of None \<Rightarrow> Some s | Some f \<Rightarrow> cb f (Some a) s) = Some s'"
    by (auto simp: call_back_def bind_eq_Some_conv)
  show ?thesis
  proof (cases "evt_callback e")
    case None
    with e assms(3) show ?thesis by simp
  next
    case (Some f)
    then have c: "cb f (Some a) s = Some s'" using e(2) by simp
    have "flisset (rl_flags (rl s)) GWRL_STOP \<or> f = f0" using assms(3) e(1) Some by auto
    with c assms(1) show ?thesis unfolding keeps_stop_def by blast
  qed
qed

lemma run_callbacks_stop:
  assumes "keeps_stop cb f0" "run_callbacks cb as s = Some s'" "flisset (rl_flags (rl s)) GWRL_STOP"
  shows "flisset (rl_flags (rl s')) GWRL_STOP"
  using assms(2,3)
  by (induction as arbitrary: s) (auto simp: bind_eq_Some_conv dest: call_back_stop [OF assms(1)])

context event_callbacks
begin

lemma run_sets_stop:
  assumes "keeps_stop cb f0" "flight_inv s L E C" "good s" "set as \<subseteq> set L"
    and "a \<in> set as" "evts s a = Some e" "evt_callback e = Some f0" "run_callbacks cb as s = Some s'"
  shows "flisset (rl_flags (rl s')) GWRL_STOP"
  using assms(2-8)
proof (induction as arbitrary: s E C)
  case Nil
  then show ?case by simp
next
  case (Cons b as)
  obtain t E1 C1 where t: "call_back cb (Some b) s = Some t" "flight_inv t L E1 C1" "good t"
    "\<forall>x \<in> set L. evts t x = evts s x"
    using call_ok [OF Cons.prems(1,2), of b] Cons.prems(3) by auto
  have r: "run_callbacks cb as t = Some s'" using Cons.prems(7) t(1) by simp
  show ?case
  proof (cases "a = b")
    case True
    then have "flisset (rl_flags (rl t)) GWRL_STOP"
      using call_back_stop [OF assms(1) t(1)] Cons.prems(5,6) by blast
    then show ?thesis by (rule run_callbacks_stop [OF assms(1) r])
  next
    case False
    then have "a \<in> set as" "evts t a = Some e" using Cons.prems(3-5) t(4) by auto
    then show ?thesis using Cons.IH [OF t(2,3)] Cons.prems(3,6) r by auto
  qed
qed

lemma flight_start:
  assumes "evts_inv s E C" "gwrl_event_cache_max (options (rl s)) \<le> 65535" "good s"
  shows "flight_inv (s\<lparr>rl := (rl s)\<lparr>events := None\<rparr>\<rparr>) E [] C" "good (s\<lparr>rl := (rl s)\<lparr>events := None\<rparr>\<rparr>)"
proof -
  have "chain (evt_nx s) (events (rl s)) E" using assms(1) by (simp add: evts_inv_def)
  from seg_alloc [OF this] have "\<forall>a \<in> set E. evts s a \<noteq> None" by (auto simp: evt_nx_iff)
  then show "flight_inv (s\<lparr>rl := (rl s)\<lparr>events := None\<rparr>\<rparr>) E [] C"
    using assms(1,2) by (auto simp: flight_inv_def evts_inv_def cache_ok_def evt_nx_evts fresh_ok_def)
  show "good (s\<lparr>rl := (rl s)\<lparr>events := None\<rparr>\<rparr>)"
    by (rule good_evts [OF _ assms(3)]) (simp add: evt_frame_def)
qed

lemma round_stop:
  assumes "keeps_stop cb f0" "evts_inv s E C" "E \<noteq> []" "gwrl_event_cache_max (options (rl s)) \<le> 65535" "good s"
    and "flisset (rl_flags (rl s)) GWRL_STOP \<or> (\<exists>a \<in> set E. \<exists>e. evts s a = Some e \<and> evt_callback e = Some f0)"
    and "run_callbacks cb E (s\<lparr>rl := (rl s)\<lparr>events := None\<rparr>\<rparr>) = Some t"
  shows "flisset (rl_flags (rl t)) GWRL_STOP"
  using assms(6)
proof
  assume "flisset (rl_flags (rl s)) GWRL_STOP"
  then show ?thesis by (intro run_callbacks_stop [OF assms(1,7)]) simp
next
  assume "\<exists>a \<in> set E. \<exists>e. evts s a = Some e \<and> evt_callback e = Some f0"
  then obtain a e where "a \<in> set E" "evts s a = Some e" "evt_callback e = Some f0" by blast
  then show ?thesis
    using run_sets_stop [OF assms(1) flight_start [OF assms(2,4,5)] subset_refl _ _ _ assms(7)] by simp
qed

lemma rounds_stop:
  assumes "keeps_stop cb f0" "evts_inv s E C" "E \<noteq> []" "gwrl_event_cache_max (options (rl s)) \<le> 65535" "good s"
    and "flisset (rl_flags (rl s)) GWRL_STOP \<or> (\<exists>a \<in> set E. \<exists>e. evts s a = Some e \<and> evt_callback e = Some f0)"
    and "dispatch_rounds cb k s = Some s'"
  shows "flisset (rl_flags (rl s')) GWRL_STOP"
  using assms(2-7)
proof (induction k arbitrary: s E C)
  case (0 s E C)
  let ?s = "s\<lparr>rl := (rl s)\<lparr>events := None\<rparr>\<rparr>"
  have l: "evt_list s (events (rl s)) = Some E"
    using 0(1) by (intro evt_list_chain) (simp add: evts_inv_def)
  obtain t u where u: "run_callbacks cb E ?s = Some t" "gwrl_evt_free_list (events (rl s)) t = Some u"
    "rl_flags (rl u) = rl_flags (rl t)"
    using round_ok [OF 0(1-4), of 0] by blast
  have "flisset (rl_flags (rl t)) GWRL_STOP" by (rule round_stop [OF assms(1) 0(1-5) u(1)])
  with u l 0(6) show ?case by (simp add: dispatch_rounds.simps [of cb 0])
next
  case (Suc k s E C)
  let ?s = "s\<lparr>rl := (rl s)\<lparr>events := None\<rparr>\<rparr>"
  have l: "evt_list s (events (rl s)) = Some E"
    using Suc(2) by (intro evt_list_chain) (simp add: evts_inv_def)
  obtain t u E' C' where u: "run_callbacks cb E ?s = Some t" "gwrl_evt_free_list (events (rl s)) t = Some u"
    "rl_flags (rl u) = rl_flags (rl t)" "evts_inv u E' C'"
    "gwrl_event_cache_max (options (rl u)) \<le> 65535" "good u"
    using round_ok [OF Suc(2-5), of 0] by blast
  have st: "flisset (rl_flags (rl u)) GWRL_STOP"
    unfolding u(3) by (rule round_stop [OF assms(1) Suc(2-6) u(1)])
  show ?case
  proof (cases "events (rl u)")
    case None
    with u l Suc(7) st show ?thesis by (simp add: dispatch_rounds.simps [of cb "Suc k"])
  next
    case (Some p)
    then have "E' \<noteq> []" using u(4) by (auto simp: evts_inv_def)
    moreover have "dispatch_rounds cb k u = Some s'"
      using u l Suc(7) Some by (simp add: dispatch_rounds.simps [of cb "Suc k"])
    ultimately show ?thesis using Suc(1) [OF u(4) _ u(5,6)] st by blast
  qed
qed

end

subsection \<open>Dispatching a cyclic list\<close>

text \<open>
  One pass through the body of the loop of \<^verbatim>\<open>gwrl_dispatch\<close>, between configurations: the count of further rounds,
  the event, the list to free, the state. A pass exists only if everything in it is defined, so that
  passes without end are a run that never ends, and not one that has gone wrong.
\<close>

inductive dispatch_step ::
    "('b, 'z) callbacks \<Rightarrow> nat \<times> ptr \<times> ptr \<times> ('b, 'z) world_scheme \<Rightarrow> nat \<times> ptr \<times> ptr \<times> ('b, 'z) world_scheme \<Rightarrow> bool"
  for cb where
  next_event: "evt \<noteq> None \<Longrightarrow> call_back cb evt s = Some t \<Longrightarrow> get_evt evt t = Some e \<Longrightarrow>
    \<not> (evt_next e = None \<and> events (rl t) \<noteq> None \<and> n < GWRL_REDISPATCH_MAX) \<Longrightarrow>
    dispatch_step cb (n, evt, del, s) (n, evt_next e, del, t)"
| next_round: "evt \<noteq> None \<Longrightarrow> call_back cb evt s = Some t \<Longrightarrow> get_evt evt t = Some e \<Longrightarrow>
    evt_next e = None \<and> events (rl t) \<noteq> None \<and> n < GWRL_REDISPATCH_MAX \<Longrightarrow> gwrl_evt_free_list del t = Some u \<Longrightarrow>
    dispatch_step cb (n, evt, del, s) (Suc n, events (rl u), events (rl u), u\<lparr>rl := (rl u)\<lparr>events := None\<rparr>\<rparr>)"

inductive_cases dispatch_stepE: "dispatch_step cb (n, p, del, s) c"

lemma dispatch_step_unique: "dispatch_step cb c d \<Longrightarrow> dispatch_step cb c d' \<Longrightarrow> d = d'"
  by (cases c) (auto elim!: dispatch_stepE)

text \<open>The loop at a configuration, with a function in place of the recursive call.\<close>

definition dispatch_body ::
    "(nat \<Rightarrow> ptr \<Rightarrow> ptr \<Rightarrow> ('b, 'z) world_scheme \<Rightarrow> ('b, 'z) world_scheme option) \<Rightarrow> ('b, 'z) callbacks
     \<Rightarrow> nat \<Rightarrow> ptr \<Rightarrow> ptr \<Rightarrow> ('b, 'z) world_scheme \<Rightarrow> ('b, 'z) world_scheme option" where
  "dispatch_body loop cb n evt del s =
     (if evt = None then (if del \<noteq> None then gwrl_evt_free_list del s else Some s)
      else do {
        s \<leftarrow> call_back cb evt s;
        e \<leftarrow> get_evt evt s;
        if evt_next e = None \<and> events (rl s) \<noteq> None \<and> n < GWRL_REDISPATCH_MAX
        then do {
          s \<leftarrow> gwrl_evt_free_list del s;
          loop (Suc n) (events (rl s)) (events (rl s)) (s\<lparr>rl := (rl s)\<lparr>events := None\<rparr>\<rparr>) }
        else loop n (evt_next e) del s })"

lemma dispatch_body_step:
  "dispatch_step cb (n, p, del, s) (m, q, del', t) \<Longrightarrow> dispatch_body loop cb n p del s = loop m q del' t"
  by (erule dispatch_stepE) (auto simp: dispatch_body_def)

lemma dispatch_diverges:
  assumes "\<forall>k. \<exists>c. (dispatch_step cb ^^ k) (n, p, del, s) c"
  shows "dispatch_loop cb n p del s = None"
proof (rule ccontr)
  assume "dispatch_loop cb n p del s \<noteq> None"
  then obtain s' where "dispatch_loop cb n p del s = Some s'" by blast
  then have "\<not> (\<forall>k. \<exists>c. (dispatch_step cb ^^ k) (n, p, del, s) c)"
  proof (rule dispatch_loop.raw_induct [where P = "\<lambda>cb n p del s s'. \<not> (\<forall>k. \<exists>c. (dispatch_step cb ^^ k) (n, p, del, s) c)", rotated],
      intro notI)
    fix loop :: "('a, 'b) callbacks \<Rightarrow> nat \<Rightarrow> ptr \<Rightarrow> ptr \<Rightarrow> ('a, 'b) world_scheme \<Rightarrow> ('a, 'b) world_scheme option"
      and cb n p del s s'
    assume ih: "\<And>cb n p del s s'. loop cb n p del s = Some s' \<Longrightarrow> \<not> (\<forall>k. \<exists>c. (dispatch_step cb ^^ k) (n, p, del, s) c)"
      and eq: "(if p = None then (if del \<noteq> None then gwrl_evt_free_list del s else Some s)
      else do {
        s \<leftarrow> call_back cb p s;
        e \<leftarrow> get_evt p s;
        if evt_next e = None \<and> events (rl s) \<noteq> None \<and> n < GWRL_REDISPATCH_MAX
        then do {
          s \<leftarrow> gwrl_evt_free_list del s;
          loop cb (Suc n) (events (rl s)) (events (rl s)) (s\<lparr>rl := (rl s)\<lparr>events := None\<rparr>\<rparr>) }
        else loop cb n (evt_next e) del s }) = Some s'"
      and inf: "\<forall>k. \<exists>c. (dispatch_step cb ^^ k) (n, p, del, s) c"
    obtain m q del' t where one: "dispatch_step cb (n, p, del, s) (m, q, del', t)"
      using inf [rule_format, of 1] by auto
    have "\<exists>c. (dispatch_step cb ^^ k) (m, q, del', t) c" for k
    proof -
      obtain c d where "dispatch_step cb (n, p, del, s) d" "(dispatch_step cb ^^ k) d c"
        using inf [rule_format, of "Suc k"] relpowp_Suc_D2 by meson
      with dispatch_step_unique [OF one] show ?thesis by metis
    qed
    moreover have "loop cb m q del' t = Some s'"
      using eq dispatch_body_step [OF one, of "loop cb"] by (simp only: dispatch_body_def)
    ultimately show False using ih by blast
  qed
  with assms show False by blast
qed

text \<open>Two events that are linked to each other, whatever their callbacks do within the contract.\<close>

context event_callbacks
begin

lemma pair_step:
  assumes "flight_inv s [a, b] E C" "good s" "x \<in> {a, b}" "evt_nx s x = Some (Some y)"
  obtains t E' C' where "dispatch_step cb (n, Some x, del, s) (n, Some y, del, t)" "flight_inv t [a, b] E' C'" "good t"
    "\<forall>z \<in> {a, b}. evts t z = evts s z"
proof -
  obtain e where e: "evts s x = Some e" "evt_next e = Some y" using assms(4) by (auto simp: evt_nx_iff)
  obtain t E' C' where t: "call_back cb (Some x) s = Some t" "flight_inv t [a, b] E' C'" "good t"
    "\<forall>z \<in> {a, b}. evts t z = evts s z"
    using call_ok [OF assms(1,2), of x] assms(3) by auto
  have "get_evt (Some x) t = Some e" using e(1) t(4) assms(3) by (auto simp: get_evt_def)
  from next_event [OF _ t(1) this, of n del] e(2) t that show ?thesis by simp
qed

lemma pair_runs:
  assumes "flight_inv s [a, b] E C" "good s" "evt_nx s b = Some (Some a)" "evt_nx s a = Some (Some b)"
  shows "\<exists>t E' C'. (dispatch_step cb ^^ k) (n, Some b, del, s) (n, Some (if even k then b else a), del, t) \<and>
    flight_inv t [a, b] E' C' \<and> good t \<and> (\<forall>z \<in> {a, b}. evts t z = evts s z)"
proof (induction k)
  case 0
  with assms show ?case by auto
next
  case (Suc k)
  then obtain t E' C' where t: "(dispatch_step cb ^^ k) (n, Some b, del, s) (n, Some (if even k then b else a), del, t)"
    "flight_inv t [a, b] E' C'" "good t" "\<forall>z \<in> {a, b}. evts t z = evts s z" by blast
  let ?x = "if even k then b else a" and ?y = "if even (Suc k) then b else a"
  have nx: "evt_nx t ?x = Some (Some ?y)" using assms(3,4) t(4) by (auto simp: evt_nx_def)
  have "?x \<in> {a, b}" by simp
  then obtain u E'' C'' where "dispatch_step cb (n, Some ?x, del, t) (n, Some ?y, del, u)" "flight_inv u [a, b] E'' C''"
    "good u" "\<forall>z \<in> {a, b}. evts u z = evts t z"
    by (rule pair_step [OF t(2,3) _ nx, of n del])
  with t(1,4) show ?case by (metis relpowp_Suc_I)
qed

end

text \<open>Two queued events, installed.\<close>

lemma install_pair:
  assumes "queue_inv s [a, b] [] C"
  obtains t where "gwrl_install_queued_events s = Some t" "events (rl t) = Some b"
    "evt_nx t b = Some (Some a)" "evt_nx t a = Some (Some b)" "a \<noteq> b" "set [a, b] \<inter> set C = {}"
    "evts_inv (t\<lparr>rl := (rl t)\<lparr>events := None\<rparr>\<rparr>) [] C" "options (rl t) = options (rl s)" "qsrc (rl t) = qsrc (rl s)"
    "\<forall>x. map_option evt_core (evts t x) = map_option evt_core (evts s x)"
proof -
  have q: "chain (evt_nx s) (qevt (rl s)) [a, b]" "evts_inv s [] C" "set [a, b] \<inter> set C = {}"
    using assms by (simp_all add: queue_inv_def)
  obtain ea eb where e: "qevt (rl s) = Some a" "evts s a = Some ea" "evt_next ea = Some b" "evts s b = Some eb" "evt_next eb = None"
    using q(1) by (auto simp: evt_nx_iff)
  have ne: "a \<noteq> b" using chain_distinct [OF q(1)] by simp
  have ev: "events (rl s) = None" using q(2) by (simp add: evts_inv_def)
  let ?t = "s\<lparr>rl := (rl s)\<lparr>qevt := None, events := Some b\<rparr>, evts := (evts s)(b \<mapsto> eb\<lparr>evt_next := Some a\<rparr>)\<rparr>"
  have "gwrl_install_queued_events s = Some ?t"
    using e ne ev
    by (simp add: gwrl_install_queued_events_def install_events_from_def install_events_loop.simps [of "Some _"]
        install_events_loop.simps [of None] gwrl_post_evt_def)
  moreover have "fresh_ok (?t\<lparr>rl := (rl ?t)\<lparr>events := None\<rparr>\<rparr>)"
    using q(2) e(4) by (auto simp: evts_inv_def fresh_ok_def)
  then have "evts_inv (?t\<lparr>rl := (rl ?t)\<lparr>events := None\<rparr>\<rparr>) [] C"
    using q(2,3) e(4) by (simp add: evts_inv_def cache_ok_def evt_nx_evts)
  ultimately show ?thesis using e ne q(3) that [of ?t] by (simp add: evt_nx_def)
qed

subsection \<open>Properties\<close>

text \<open>
  C3: \<^verbatim>\<open>gwrl_dispatch\<close> implements its specification for every set of callbacks that keeps the
  contract, even one that posts events for ever: it returns, having run in order, once each,
  the callbacks of the events posted when it began, then those of the events these posted,
  and so on for at most \<^verbatim>\<open>GWRL_REDISPATCH_MAX\<close> further rounds, recycling the events of each
  round; the posted events and the cache are consistent afterwards. The limit of the cache fits its counter (at most 65535).
\<close>
theorem dispatch_refines:
  assumes "event_callbacks cb good" "good s" "evts_inv s E C"
    and "gwrl_event_cache_max (options (rl s)) \<le> 65535"
  shows "gwrl_dispatch cb s = dispatch_spec cb s \<and>
    (\<exists>s' E' C'. gwrl_dispatch cb s = Some s' \<and> evts_inv s' E' C' \<and> good s')"
  using event_callbacks.dispatch_ok [OF assms(1,3,4,2)] by auto

text \<open>The reactor with its stop flag cleared, as \<^verbatim>\<open>gwrl_run\<close> starts.\<close>

definition clear_stop :: "('b, 'z) world_scheme \<Rightarrow> ('b, 'z) world_scheme" where
  "clear_stop s = s\<lparr>rl := (rl s)\<lparr>rl_flags := flclr (rl_flags (rl s)) GWRL_STOP\<rparr>\<rparr>"

text \<open>
  C28: a posted event whose function stops the reactor ends \<^verbatim>\<open>gwrl_run\<close>, for callbacks that keep the
  contract of dispatch and of which none clears the stop flag, when neither a source nor an event is queued by another
  thread and the limit of the event cache fits its counter (at most 65535). The run dispatches what
  was posted, and what that posts, for at most \<^verbatim>\<open>GWRL_REDISPATCH_MAX\<close> further rounds, as its
  specification says; events posted by the last of these rounds stay posted. Then it returns without gathering,
  and the stop flag is clear again.
\<close>
theorem run_returns_on_stop:
  assumes "event_callbacks (env_cb env) good" "good (clear_stop s)" "evts_inv s E C"
    and "gwrl_event_cache_max (options (rl s)) \<le> 65535" "qsrc (rl s) = None" "qevt (rl s) = None"
    and "keeps_stop (env_cb env) f0" "\<exists>a \<in> set E. \<exists>e. evts s a = Some e \<and> evt_callback e = Some f0"
  shows "\<exists>t. dispatch_spec (env_cb env) (clear_stop s) = Some t \<and> gwrl_run env s = Some (clear_stop t) \<and>
    \<not> flisset (rl_flags (rl (clear_stop t))) GWRL_STOP"
proof -
  let ?s = "clear_stop s"
  have i: "evts_inv ?s E C"
    by (rule evts_inv_cong [OF _ _ _ _ _ assms(3)])
       (use assms(3) in \<open>simp_all add: clear_stop_def evts_inv_def fresh_ok_def\<close>)
  have m: "gwrl_event_cache_max (options (rl ?s)) \<le> 65535" using assms(4) by (simp add: clear_stop_def)
  have q: "qsrc (rl ?s) = None" "qevt (rl ?s) = None" using assms(5,6) by (simp_all add: clear_stop_def)
  have ne: "E \<noteq> []" "events (rl ?s) \<noteq> None" using assms(8) i by (auto simp: evts_inv_def)
  have ex: "\<exists>a \<in> set E. \<exists>e. evts ?s a = Some e \<and> evt_callback e = Some f0"
    using assms(8) by (simp add: clear_stop_def)
  obtain t where t: "gwrl_dispatch (env_cb env) ?s = Some t" "dispatch_spec (env_cb env) ?s = Some t"
    using event_callbacks.dispatch_ok [OF assms(1) i m assms(2)] by blast
  have "dispatch_rounds (env_cb env) GWRL_REDISPATCH_MAX ?s = Some t"
    using t(2) ne(2) by (simp add: dispatch_spec_def)
  then have st: "flisset (rl_flags (rl t)) GWRL_STOP"
    using event_callbacks.rounds_stop [OF assms(1,7) i ne(1) m assms(2)] ex by blast
  then have "run_round env ?s = Some (True, clear_stop t)"
    using t(1) q by (simp add: run_round_def clear_stop_def)
  then have "gwrl_run env s = Some (clear_stop t)"
    by (simp add: gwrl_run_def run_loop.simps [of env] flip: clear_stop_def)
  moreover have "\<not> flisset (rl_flags (rl (clear_stop t))) GWRL_STOP"
    by (simp add: clear_stop_def flag_simps)
  ultimately show ?thesis using t(2) by blast
qed

text \<open>
  \<^verbatim>\<open>gwrl_stop\<close> before \<^verbatim>\<open>gwrl_run\<close> has no effect: the run loop clears the flag first.
\<close>
theorem stop_before_run_ignored:
  "gwrl_run env (gwrl_stop s) = gwrl_run env s"
proof -
  have "flclr (flset f GWRL_STOP) GWRL_STOP = flclr f GWRL_STOP" for f :: flags8
    by (rule bit_eqI) (auto simp: flag_simps)
  then show ?thesis by (simp add: gwrl_run_def gwrl_stop_def)
qed

text \<open>
  C40: two functions posted safely to an idle reactor, one after the other before the reactor looks at its
  queue, hang it. Installing them links the two events to each other, and dispatch goes from
  one to the other for ever: after any number of passes through its loop, each of which is defined,
  it stands at one of the two again and has the first or the second function to call in turn. This holds for all callbacks that
  keep the contract of dispatch, those that post events or stop the reactor included. So neither \<^verbatim>\<open>gwrl_run_once\<close> nor the loop of
  \<^verbatim>\<open>gwrl_run\<close> returns. Idle means that no event is posted or queued and that no source is queued; the cache of
  events is limited to 65535, and \<open>good\<close> is what the callbacks need of the state in which the events are installed.
\<close>
theorem two_safe_posts_hang:
  assumes "event_callbacks (env_cb env) good" "queue_inv s [] [] C" "qsrc (rl s) = None"
    and "gwrl_event_cache_max (options (rl s)) \<le> 65535"
    and "gwrl_post_function_safely f ud s = Some s1" "gwrl_post_function_safely g ud' s1 = Some s2"
    and "gwrl_install_queued_events s2 = Some t" "good t"
  shows "(\<exists>a b. a \<noteq> b \<and> (\<forall>k. \<exists>u. (dispatch_step (env_cb env) ^^ k)
        (0, events (rl t), events (rl t), t\<lparr>rl := (rl t)\<lparr>events := None\<rparr>\<rparr>)
        (0, Some (if even k then a else b), events (rl t), u) \<and>
      map_option evt_callback (evts u (if even k then a else b)) = Some (if even k then f else g))) \<and>
    gwrl_run_once env s2 = None \<and> run_loop env s2 = None"
proof -
  obtain a where a: "queue_inv s1 [a] [] (tl C)" "qsrc (rl s1) = qsrc (rl s)" "options (rl s1) = options (rl s)"
    "evts s1 = (evts s)(a \<mapsto> new_evt None f ud 0 0 (qevt (rl s)))"
    by (rule post_safely_queued [OF assms(5,2)])
  obtain b where b: "queue_inv s2 [b, a] [] (tl (tl C))" "qsrc (rl s2) = qsrc (rl s1)" "options (rl s2) = options (rl s1)"
    "evts s2 = (evts s1)(b \<mapsto> new_evt None g ud' 0 0 (qevt (rl s1)))"
    by (rule post_safely_queued [OF assms(6) a(1)])
  let ?C = "tl (tl C)" and ?t = "t\<lparr>rl := (rl t)\<lparr>events := None\<rparr>\<rparr>"
  obtain t' where t': "gwrl_install_queued_events s2 = Some t'" "events (rl t') = Some a"
    "evt_nx t' a = Some (Some b)" "evt_nx t' b = Some (Some a)" "b \<noteq> a" "set [b, a] \<inter> set ?C = {}"
    "evts_inv (t'\<lparr>rl := (rl t')\<lparr>events := None\<rparr>\<rparr>) [] ?C" "options (rl t') = options (rl s2)" "qsrc (rl t') = qsrc (rl s2)"
    "\<forall>x. map_option evt_core (evts t' x) = map_option evt_core (evts s2 x)"
    by (rule install_pair [OF b(1)])
  have e: "t' = t" using t'(1) assms(7) by simp
  note t = t' [unfolded e]
  have fl: "flight_inv ?t [b, a] [] ?C"
    using t(3-8) a(3) b(3) assms(4) by (auto simp: flight_inv_def evt_nx_def)
  have "evt_frame t ?t" by (simp add: evt_frame_def)
  then have gd: "good ?t" by (rule event_callbacks.good_evts [OF assms(1) _ assms(8)])
  have cbk: "map_option evt_callback (evts t a) = Some f" "map_option evt_callback (evts t b) = Some g"
  proof -
    have "map_option (evt_callback \<circ> evt_core) (evts t x) = map_option (evt_callback \<circ> evt_core) (evts s2 x)" for x
      using t(10) [rule_format, of x] by (metis option.map_comp)
    then have "map_option evt_callback (evts t x) = map_option evt_callback (evts s2 x)" for x
      by (simp add: evt_core_def comp_def)
    then show "map_option evt_callback (evts t a) = Some f" "map_option evt_callback (evts t b) = Some g"
      using a(4) b(4) t(5) by (simp_all add: new_evt_def)
  qed
  have nx: "evt_nx ?t a = Some (Some b)" "evt_nx ?t b = Some (Some a)" using t(3,4) by (simp_all add: evt_nx_def)
  have run: "\<exists>u. (dispatch_step (env_cb env) ^^ k) (0, events (rl t), events (rl t), ?t)
        (0, Some (if even k then a else b), events (rl t), u) \<and>
      map_option evt_callback (evts u (if even k then a else b)) = Some (if even k then f else g)" for k
    using event_callbacks.pair_runs [OF assms(1) fl gd nx, of k 0 "events (rl t)"] t(2) cbk by auto
  then have "dispatch_loop (env_cb env) 0 (events (rl t)) (events (rl t)) ?t = None"
    by (intro dispatch_diverges) blast
  moreover have "qevt (rl s2) \<noteq> None" using b(1) by (auto simp: queue_inv_def)
  ultimately have "run_round env s2 = None"
    using assms(3,7) a(2) b(2) by (simp add: run_round_def gwrl_dispatch_def)
  then have "gwrl_run_once env s2 = None" "run_loop env s2 = None"
    by (simp_all add: gwrl_run_once_def run_loop.simps [of env])
  with run t(5) show ?thesis by (metis (no_types, lifting))
qed

subsection \<open>Instances\<close>

text \<open>
  One posted event that calls user function 7 of \<open>countdown\<close>: each function posts the next,
  and only six rounds are run in one dispatch, so the reactor is not stopped yet.
\<close>

definition countdown_world :: "nat \<Rightarrow> unit world" where
  "countdown_world n = (blank_world ())\<lparr>
     evts := [1 \<mapsto> new_evt None (Some (Fn_user n)) None 0 0 None], brk := 2,
     answers := (\<lambda>n. fail_answer EAGAIN),
     rl := (zero_gwrl ())\<lparr>events := Some 1\<rparr>\<rparr>"

lemma countdown_world_facts:
  "evts_inv (countdown_world n) [1] []" "pipe_reads_ok (countdown_world n)"
  "pipe_reads_ok (clear_stop (countdown_world n))"
  "gwrl_event_cache_max (options (rl (countdown_world n))) \<le> 65535"
  by (auto simp: evts_inv_def cache_ok_def fresh_ok_def countdown_world_def blank_world_def zero_gwrl_def
      evt_nx_def pipe_reads_ok_def clear_stop_def fail_answer_def GWRL_DEFAULT_OPTIONS_def)

theorem dispatch_refines_witness:
  "\<forall>ops. \<exists>s' E' C'. gwrl_dispatch (reactor_callbacks ops countdown) (countdown_world 7) = Some s' \<and>
    dispatch_spec (reactor_callbacks ops countdown) (countdown_world 7) = Some s' \<and> evts_inv s' E' C'"
  using dispatch_refines [OF countdown.event_callbacks_axioms countdown_world_facts(2,1,4)] by metis

text \<open>User functions that only stop the reactor.\<close>

definition stopper :: "('b, 'z) callbacks" where
  "stopper f evt s = (if f = Fn_user 0 then Some (gwrl_stop s) else Some s)"

lemma stopper_facts:
  "event_callbacks (stopper :: ('b, 'z) callbacks) (\<lambda>_. True)" "keeps_stop stopper (Fn_user 0)"
proof -
  have stop: "flight_inv s L E C \<Longrightarrow> flight_inv (gwrl_stop s) L E C" for s :: "('b, 'z) world_scheme" and L E C
    by (rule flight_inv_cong [of _ s]) (simp_all add: gwrl_stop_def)
  show "event_callbacks (stopper :: ('b, 'z) callbacks) (\<lambda>_. True)"
  proof
    fix s :: "('b, 'z) world_scheme" and L E C a e f
    assume fl: "flight_inv s L E C"
    show "\<exists>s' E' C'. stopper f (Some a) s = Some s' \<and> flight_inv s' L E' C' \<and> True \<and>
        (\<forall>x \<in> set L. evts s' x = evts s x)"
    proof (cases "f = Fn_user 0")
      case True
      with stop [OF fl] show ?thesis
        by (intro exI [of _ "gwrl_stop s"] exI [of _ E] exI [of _ C]) (simp add: stopper_def gwrl_stop_def)
    next
      case False
      with fl show ?thesis by (intro exI [of _ s] exI [of _ E] exI [of _ C]) (simp add: stopper_def)
    qed
  qed simp
  show "keeps_stop stopper (Fn_user 0)"
    by (auto simp: keeps_stop_def stopper_def gwrl_stop_def flag_simps split: if_splits)
qed

definition no_ops :: "('b, 'z) world_scheme src_ops" where
  "no_ops = \<lparr>op_src_add = \<lambda>_ s. Some s, op_del_src = \<lambda>_ s. Some s, op_enable_src = \<lambda>_ s. Some s,
     op_disable_src = \<lambda>_ s. Some s, op_update_flags = \<lambda>_ _ s. Some s\<rparr>"

definition stopper_env :: "('b, 'z) loop_env" where
  "stopper_env = \<lparr>env_ops = no_ops, env_gather = \<lambda>s. Some s, env_cb = stopper,
     env_user_gather = \<lambda>_ s. Some s\<rparr>"

theorem run_returns_on_stop_witness:
  "\<exists>t. dispatch_spec stopper (clear_stop (countdown_world 0)) = Some t \<and>
    gwrl_run stopper_env (countdown_world 0) = Some (clear_stop t)"
proof -
  have e: "env_cb stopper_env = stopper" by (simp add: stopper_env_def)
  have "\<exists>a \<in> set [1]. \<exists>e. evts (countdown_world 0) a = Some e \<and> evt_callback e = Some (Fn_user 0)"
    "qsrc (rl (countdown_world 0)) = None" "qevt (rl (countdown_world 0)) = None"
    by (simp_all add: countdown_world_def new_evt_def zero_gwrl_def)
  then show ?thesis
    using run_returns_on_stop [of stopper_env "\<lambda>_. True" "countdown_world 0" "[1]" "[]" "Fn_user 0"]
      stopper_facts(1,2) countdown_world_facts(1,4)
    by (auto simp: e)
qed

text \<open>A reactor with an empty memory, to which the functions 0, which stops it, and 1 are posted.\<close>

lemma post_safely_blank:
  assumes "cevents (rl s) = None" "oom s = []" "\<not> flisset (rl_flags (rl s)) GWRL_SLEEPING"
  shows "gwrl_post_function_safely cb ud s = Some (s\<lparr>brk := Suc (brk s),
    evts := (evts s)(brk s \<mapsto> new_evt None cb ud 0 0 (qevt (rl s))), rl := (rl s)\<lparr>qevt := Some (brk s)\<rparr>\<rparr>)"
  using assms
  by (cases "qevt (rl s)") (simp_all add: gwrl_post_function_safely_def gwrl_evt_create_def calloc_evt_def calloc_def
    evt_create_retry.simps [of _ "Some _"] gwrl_post_evt_safely_def gwrl_wake_def new_evt_def zero_evt_def)

theorem two_safe_posts_hang_witness:
  "\<exists>s1 s2. gwrl_post_function_safely (Some (Fn_user 0)) None (blank_world ()) = Some s1 \<and>
    gwrl_post_function_safely (Some (Fn_user 1)) None s1 = Some s2 \<and> gwrl_run_once stopper_env s2 = None"
proof -
  let ?s = "blank_world ()"
  have q: "queue_inv ?s [] [] []"
    by (simp add: queue_inv_def evts_inv_def cache_ok_def fresh_ok_def blank_world_def zero_gwrl_def)
  obtain s1 where s1: "gwrl_post_function_safely (Some (Fn_user 0)) None ?s = Some s1" "cevents (rl s1) = None"
    "oom s1 = []" "\<not> flisset (rl_flags (rl s1)) GWRL_SLEEPING"
    using post_safely_blank [of ?s "Some (Fn_user 0)" None] by (simp add: blank_world_def zero_gwrl_def flisset_def)
  obtain s2 where s2: "gwrl_post_function_safely (Some (Fn_user 1)) None s1 = Some s2"
    using post_safely_blank [OF s1(2-4)] by blast
  obtain a where a: "queue_inv s1 [a] [] []" by (rule post_safely_queued [OF s1(1) q]) simp
  obtain b where b: "queue_inv s2 [b, a] [] []" by (rule post_safely_queued [OF s2 a]) simp
  obtain t where t: "gwrl_install_queued_events s2 = Some t" by (rule install_pair [OF b])
  have "event_callbacks (env_cb stopper_env) (\<lambda>_. True)" using stopper_facts(1) by (simp add: stopper_env_def)
  moreover have "qsrc (rl ?s) = None" "gwrl_event_cache_max (options (rl ?s)) \<le> 65535"
    by (simp_all add: blank_world_def zero_gwrl_def GWRL_DEFAULT_OPTIONS_def)
  ultimately have "gwrl_run_once stopper_env s2 = None" by (rule two_safe_posts_hang [OF _ q _ _ s1(1) s2 t TrueI, THEN conjunct2, THEN conjunct1])
  with s1(1) s2 show ?thesis by blast
qed

end
