(* ===== verification/Gw_Options.thy ===== *)
theory Gw_Options
  imports Gw_Loop
begin

section \<open>Creation, options and gather functions (\<^verbatim>\<open>src/gwrl/event.c\<close>)\<close>

text \<open>
  \<^verbatim>\<open>gwrl_create\<close>, \<^verbatim>\<open>gwrl_set_options\<close> and the table of user gather functions, an array of
  \<^verbatim>\<open>options.gwrl_gather_funcs_max\<close> entries that is absent when that number is not positive.
  What the backend does at creation and with new options is an argument.
\<close>

subsection \<open>The operations\<close>

text \<open>
  \<^verbatim>\<open>rl->backend = gwrl_bkd_init(rl)\<close>: the backend's own part, or null. \<open>b0\<close> stands for the
  null pointer that the field holds before.
\<close>

definition gwrl_create ::
    "(('b, 'z) world_scheme \<Rightarrow> 'b option \<times> ('b, 'z) world_scheme) \<Rightarrow> ('b, 'z) world_scheme src_ops \<Rightarrow> 'b
     \<Rightarrow> ('b, 'z) world_scheme \<Rightarrow> (bool \<times> ('b, 'z) world_scheme) option" where
  "gwrl_create bkd_init ops b0 s =
     (case calloc s of
        (None, s) \<Rightarrow> Some (False, gwerr ''6GlI8'' s)
      | (Some _, s) \<Rightarrow>
          (case bkd_init (s\<lparr>rl := zero_gwrl b0\<rparr>) of
             (None, s) \<Rightarrow> Some (False, s)
           | (Some b, s) \<Rightarrow> do {
               let s = s\<lparr>rl := (rl s)\<lparr>backend := b, gatherfncs := None\<rparr>\<rparr>;
               (ok, s) \<leftarrow>
                 (if gwrl_gather_funcs_max GWRL_DEFAULT_OPTIONS > 0
                  then (case calloc s of
                      (None, s) \<Rightarrow> Some (False, gwerr ''7VB3R'' s)
                    | (Some _, s) \<Rightarrow> Some (True, s\<lparr>rl := (rl s)\<lparr>gatherfncs :=
                        Some (replicate (nat (gwrl_gather_funcs_max GWRL_DEFAULT_OPTIONS)) None)\<rparr>\<rparr>))
                  else Some (True, s));
               if \<not> ok then Some (False, s)
               else do { s \<leftarrow> gwrl_wake_init ops s; Some (True, s) } }))"

partial_function (option) calloc_retry ::
    "('b, 'z) world_scheme \<Rightarrow> (addr \<times> ('b, 'z) world_scheme) option" where
  [code]: "calloc_retry s = (case calloc s of (None, s) \<Rightarrow> calloc_retry s | (Some a, s) \<Rightarrow> Some (a, s))"

text \<open>\<^verbatim>\<open>memcpy(tmp, rl->gatherfncs, sizeof(...) * n)\<close>; copying nothing from null is allowed.\<close>

definition copy_gather :: "fnptr option list option \<Rightarrow> nat \<Rightarrow> fnptr option list option" where
  "copy_gather g n = (case g of None \<Rightarrow> if n = 0 then Some [] else None
     | Some fs \<Rightarrow> if n \<le> length fs then Some (take n fs) else None)"

definition gwrl_set_options ::
    "(gwrl_options \<Rightarrow> ('b, 'z) world_scheme \<Rightarrow> ('b, 'z) world_scheme option) \<Rightarrow> gwrl_options
     \<Rightarrow> ('b, 'z) world_scheme \<Rightarrow> ('b, 'z) world_scheme option" where
  "gwrl_set_options bkd_set_options opts s = do {
     s \<leftarrow> (if gwrl_gather_funcs_max opts > 0 then do {
            let orig = gwrl_gather_funcs_max (options (rl s));
            let diff = gwrl_gather_funcs_max opts - orig;
            (_, s) \<leftarrow> calloc_retry s;
            let n = nat (if diff < 0 then gwrl_gather_funcs_max opts else orig);
            let s = (if diff < 0 then gwerr ''L3JF8'' s else s);
            fs \<leftarrow> copy_gather (gatherfncs (rl s)) n;
            Some (s\<lparr>rl := (rl s)\<lparr>gatherfncs :=
              Some (fs @ replicate (nat (gwrl_gather_funcs_max opts) - n) None)\<rparr>\<rparr>) }
          else if gatherfncs (rl s) \<noteq> None
          then Some ((gwerr ''35FH8'' s)\<lparr>rl := (rl s)\<lparr>gatherfncs := None\<rparr>\<rparr>)
          else Some s);
     let s = s\<lparr>rl := (rl s)\<lparr>options := opts\<rparr>\<rparr>;
     bkd_set_options opts s }"

text \<open>The search for an empty slot: the table with the function stored, and whether it was.\<close>

fun add_gather_loop :: "nat \<Rightarrow> fnptr \<Rightarrow> fnptr option list \<Rightarrow> (bool \<times> fnptr option list) option" where
  "add_gather_loop 0 f fs = Some (False, fs)"
| "add_gather_loop (Suc n) f [] = None"
| "add_gather_loop (Suc n) f (None # fs) = Some (True, Some f # fs)"
| "add_gather_loop (Suc n) f (Some g # fs) =
     map_option (\<lambda>(added, fs). (added, Some g # fs)) (add_gather_loop n f fs)"

definition gwrl_add_gather_fnc :: "fnptr \<Rightarrow> ('b, 'z) world_scheme \<Rightarrow> ('b, 'z) world_scheme option" where
  "gwrl_add_gather_fnc fnc s =
     (if gwrl_gather_funcs_max (options (rl s)) > 0 then do {
        fs \<leftarrow> gatherfncs (rl s);
        (added, fs) \<leftarrow> add_gather_loop (nat (gwrl_gather_funcs_max (options (rl s)))) fnc fs;
        let s = s\<lparr>rl := (rl s)\<lparr>gatherfncs := Some fs\<rparr>\<rparr>;
        Some (if added then s else gwerr ''3F85R'' s) }
      else Some (gwerr ''3F85R'' s))"

definition gwrl_reset_gather_fncs :: "('b, 'z) world_scheme \<Rightarrow> ('b, 'z) world_scheme option" where
  "gwrl_reset_gather_fncs s =
     (let n = gwrl_gather_funcs_max (options (rl s)) in
      if n > 0 then do {
        fs \<leftarrow> gatherfncs (rl s);
        if nat n \<le> length fs
        then Some (s\<lparr>rl := (rl s)\<lparr>gatherfncs := Some (replicate (nat n) None @ drop (nat n) fs)\<rparr>\<rparr>)
        else None }
      else Some s)"

subsection \<open>The table of gather functions\<close>

text \<open>The table has the size the options say, and its functions come before its free slots.\<close>

definition gather_table :: "('b, 'z) world_scheme \<Rightarrow> fnptr list \<Rightarrow> bool" where
  "gather_table s gs \<longleftrightarrow>
     (let n = gwrl_gather_funcs_max (options (rl s)) in
      if n > 0 then gatherfncs (rl s) = Some (map Some gs @ replicate (nat n - length gs) None) \<and>
                    length gs \<le> nat n
      else n = 0 \<and> gatherfncs (rl s) = None \<and> gs = [])"

lemma calloc_retry_ok: "\<exists>om. calloc_retry s = Some (brk s, s\<lparr>brk := Suc (brk s), oom := om\<rparr>)"
proof (induction "oom s" arbitrary: s)
  case Nil
  have "s\<lparr>brk := Suc (brk s), oom := oom s\<rparr> = s\<lparr>brk := Suc (brk s)\<rparr>" by simp
  with Nil show ?case
    by (intro exI [of _ "oom s"]) (simp add: calloc_retry.simps [of s] calloc_def flip: Nil)
next
  case (Cons b om)
  show ?case
  proof (cases b)
    case True
    have "\<exists>om'. calloc_retry (s\<lparr>oom := om\<rparr>) = Some (brk s, s\<lparr>brk := Suc (brk s), oom := om'\<rparr>)"
      using Cons.hyps(1) [of "s\<lparr>oom := om\<rparr>"] by simp
    with True Cons.hyps(2) [symmetric] show ?thesis
      by (simp add: calloc_retry.simps [of s] calloc_def)
  next
    case False
    have "s\<lparr>oom := om, brk := Suc (brk s)\<rparr> = s\<lparr>brk := Suc (brk s), oom := om\<rparr>" by simp
    with False Cons.hyps(2) [symmetric] show ?thesis
      by (intro exI [of _ om]) (simp add: calloc_retry.simps [of s] calloc_def)
  qed
qed

lemma add_gather_loop_free:
  "length gs < n \<Longrightarrow> add_gather_loop n f (map Some gs @ None # fs) = Some (True, map Some gs @ Some f # fs)"
proof (induction gs arbitrary: n)
  case Nil
  then show ?case by (cases n) auto
next
  case (Cons g gs)
  then show ?case by (cases n) auto
qed

lemma add_gather_loop_full: "n = length gs \<Longrightarrow> add_gather_loop n f (map Some gs) = Some (False, map Some gs)"
  by (induction gs arbitrary: n) auto

lemma take_table:
  "n \<le> m \<Longrightarrow> length gs \<le> m \<Longrightarrow>
    take n (map Some gs @ replicate (m - length gs) None) =
      map Some (take n gs) @ replicate (n - length (take n gs)) None"
  by (simp add: take_map min_def)

subsection \<open>Properties\<close>

text \<open>
  \<^verbatim>\<open>gwrl_set_options\<close> returns whenever the backend's part does, however often \<^verbatim>\<open>calloc\<close>
  fails first. It gives the backend the reactor with all the new options stored and a
  table of exactly the new size that holds the old gather functions, in order, cut off at
  the new size with a message when that is smaller; all are dropped when the new size is zero.
\<close>
theorem set_options_resizes:
  assumes "gather_table s gs" "0 \<le> gwrl_gather_funcs_max opts"
  shows "\<exists>s1. gwrl_set_options bso opts s = bso opts s1 \<and>
    gather_table s1 (take (nat (gwrl_gather_funcs_max opts)) gs) \<and> options (rl s1) = opts \<and>
    (if gwrl_gather_funcs_max opts < gwrl_gather_funcs_max (options (rl s))
     then length (errs s1) = Suc (length (errs s)) else errs s1 = errs s) \<and>
    sources (rl s1) = sources (rl s) \<and> events (rl s1) = events (rl s) \<and> srcs s1 = srcs s \<and> evts s1 = evts s"
proof -
  let ?m = "gwrl_gather_funcs_max opts" and ?o = "gwrl_gather_funcs_max (options (rl s))"
  show ?thesis
  proof (cases "0 < ?m")
    case False
    with assms(2) have m: "?m = 0" by simp
    show ?thesis
    proof (cases "0 < ?o")
      case True
      with assms(1) m show ?thesis
        by (intro exI [of _ "s\<lparr>errs := ''35FH8'' # errs s, rl := (rl s)\<lparr>gatherfncs := None, options := opts\<rparr>\<rparr>"])
           (simp add: gwrl_set_options_def gather_table_def Let_def gwerr_def)
    next
      case False
      with assms(1) m show ?thesis
        by (intro exI [of _ "s\<lparr>rl := (rl s)\<lparr>options := opts\<rparr>\<rparr>"])
           (auto simp: gwrl_set_options_def gather_table_def Let_def gwerr_def)
    qed
  next
    case True
    obtain om where c: "calloc_retry s = Some (brk s, s\<lparr>brk := Suc (brk s), oom := om\<rparr>)"
      using calloc_retry_ok by blast
    define n where "n = nat (if ?m - ?o < 0 then ?m else ?o)"
    have n: "n = min (nat ?m) (nat ?o)"
      using assms True by (auto simp: n_def gather_table_def Let_def split: if_splits)
    have cp: "copy_gather (gatherfncs (rl s)) n = Some (map Some (take n gs) @ replicate (n - length (take n gs)) None)"
    proof (cases "0 < ?o")
      case True
      with assms(1) have g: "gatherfncs (rl s) = Some (map Some gs @ replicate (nat ?o - length gs) None)"
        and l: "length gs \<le> nat ?o"
        by (auto simp: gather_table_def Let_def)
      have "n \<le> nat ?o" using n by simp
      with g take_table [OF this l] l show ?thesis by (simp add: copy_gather_def)
    next
      case False
      with assms(1) n show ?thesis by (simp add: gather_table_def Let_def copy_gather_def)
    qed
    have lg: "length gs \<le> nat ?o" using assms(1) by (auto simp: gather_table_def Let_def split: if_splits)
    have tk: "take n gs = take (nat ?m) gs" using n lg by (cases "nat ?m \<le> nat ?o") auto
    have tab: "(map Some (take n gs) @ replicate (n - length (take n gs)) None) @ replicate (nat ?m - n) None =
        map Some (take (nat ?m) gs) @ replicate (nat ?m - length (take (nat ?m) gs)) None"
    proof -
      have "length (take n gs) \<le> n" "n \<le> nat ?m" by (simp, use n in simp)
      then have "replicate (n - length (take n gs)) None @ replicate (nat ?m - n) None =
          replicate (nat ?m - length (take n gs)) (None :: fnptr option)"
        by (simp flip: replicate_add)
      with tk show ?thesis by simp
    qed
    let ?s1 = "\<lambda>er. s\<lparr>brk := Suc (brk s), oom := om, errs := er, rl := (rl s)\<lparr>gatherfncs :=
      Some (map Some (take (nat ?m) gs) @ replicate (nat ?m - length (take (nat ?m) gs)) None), options := opts\<rparr>\<rparr>"
    have r: "gwrl_set_options bso opts s = bso opts (?s1 (if ?m < ?o then ''L3JF8'' # errs s else errs s))"
    proof (cases "?m < ?o")
      case True
      then show ?thesis
        using \<open>0 < ?m\<close> c cp tab by (simp add: gwrl_set_options_def Let_def gwerr_def n_def)
    next
      case False
      then show ?thesis
        using \<open>0 < ?m\<close> c cp tab by (simp add: gwrl_set_options_def Let_def gwerr_def n_def)
    qed
    have "gather_table (?s1 er) (take (nat ?m) gs)" for er using True by (simp add: gather_table_def)
    with r show ?thesis
      by (intro exI [of _ "?s1 (if ?m < ?o then ''L3JF8'' # errs s else errs s)"]) auto
  qed
qed

text \<open>
  \<^verbatim>\<open>gwrl_add_gather_fnc\<close> appends the function when a slot is free, and reports an error
  and changes nothing else when the table is full; \<^verbatim>\<open>gwrl_reset_gather_fncs\<close> empties the table.
\<close>
theorem gather_table_ops:
  assumes "gather_table s gs"
  shows "(\<exists>s'. gwrl_add_gather_fnc f s = Some s' \<and>
      (if length gs < nat (gwrl_gather_funcs_max (options (rl s)))
       then gather_table s' (gs @ [f]) \<and> errs s' = errs s
       else gather_table s' gs \<and> errs s' = ''3F85R'' # errs s) \<and>
      options (rl s') = options (rl s)) \<and>
    (\<exists>s'. gwrl_reset_gather_fncs s = Some s' \<and> gather_table s' [] \<and> options (rl s') = options (rl s))"
proof -
  let ?n = "gwrl_gather_funcs_max (options (rl s))"
  show ?thesis
  proof (cases "?n > 0")
    case False
    with assms show ?thesis
      by (auto simp: gather_table_def Let_def gwrl_add_gather_fnc_def gwrl_reset_gather_fncs_def gwerr_def)
  next
    case True
    with assms have t: "gatherfncs (rl s) = Some (map Some gs @ replicate (nat ?n - length gs) None)"
      "length gs \<le> nat ?n" by (simp_all add: gather_table_def Let_def)
    have reset: "gwrl_reset_gather_fncs s = Some (s\<lparr>rl := (rl s)\<lparr>gatherfncs := Some (replicate (nat ?n) None)\<rparr>\<rparr>)"
      using True t by (simp add: gwrl_reset_gather_fncs_def Let_def)
    show ?thesis
    proof (cases "length gs < nat ?n")
      case free: True
      then obtain m where m: "nat ?n - length gs = Suc m" "nat ?n - length (gs @ [f]) = m"
        by (metis Suc_diff_Suc diff_Suc_eq_diff_pred length_append_singleton)
      have "add_gather_loop (nat ?n) f (map Some gs @ replicate (Suc m) None) =
          Some (True, map Some (gs @ [f]) @ replicate m None)"
        using add_gather_loop_free [OF free] by simp
      with True free t m reset show ?thesis
        by (simp add: gwrl_add_gather_fnc_def gather_table_def Let_def)
    next
      case False
      with t have "nat ?n = length gs" by simp
      with True t reset add_gather_loop_full [of "nat ?n" gs f] show ?thesis
        by (simp add: gwrl_add_gather_fnc_def gather_table_def Let_def gwerr_def)
    qed
  qed
qed

text \<open>A reactor with room for three gather functions, two of them set; one \<^verbatim>\<open>calloc\<close> fails.\<close>

definition gather_world :: "unit world" where
  "gather_world = (blank_world ())\<lparr>oom := [True], rl := (zero_gwrl ())\<lparr>
     gatherfncs := Some [Some (Fn_user 1), Some (Fn_user 2), None],
     options := GWRL_DEFAULT_OPTIONS\<lparr>gwrl_gather_funcs_max := 3\<rparr>\<rparr>\<rparr>"

lemma gather_world_table: "gather_table gather_world [Fn_user 1, Fn_user 2]"
  by (simp add: gather_table_def gather_world_def Let_def numeral_3_eq_3)

theorem set_options_resizes_witness:
  "\<exists>s1. gwrl_set_options (\<lambda>_ s. Some s) (GWRL_DEFAULT_OPTIONS\<lparr>gwrl_gather_funcs_max := 1\<rparr>) gather_world = Some s1 \<and>
    gather_table s1 [Fn_user 1]"
  using set_options_resizes [OF gather_world_table,
      of "GWRL_DEFAULT_OPTIONS\<lparr>gwrl_gather_funcs_max := 1\<rparr>" "\<lambda>_ s. Some s"]
  by auto

theorem gather_table_ops_witness:
  "\<exists>s'. gwrl_add_gather_fnc (Fn_user 3) gather_world = Some s' \<and>
    gather_table s' [Fn_user 1, Fn_user 2, Fn_user 3]"
  using gather_table_ops [OF gather_world_table, of "Fn_user 3"] by (auto simp: gather_world_def)

end
