(* ===== verification/Gw_Select.thy ===== *)
theory Gw_Select
  imports Gw_Options
begin

section \<open>The select backend (\<^verbatim>\<open>src/gwrl/event_select.c\<close>)\<close>

text \<open>
  The backend keeps three descriptor sets (read, write, exceptional) of the registered file
  sources and the largest descriptor of the enabled ones; gathering passes copies of the
  sets to \<^verbatim>\<open>select\<close> and posts an event for each enabled source it reports. The names of the
  functions that every backend defines carry the suffix \<open>_select\<close>. \<open>select_tracks\<close> says that
  the sets are those of a set of sources; with it the backend is an interpretation of
  \<open>reactor_backend\<close>.
\<close>

subsection \<open>Descriptor sets\<close>

definition FD_SETSIZE :: int where "FD_SETSIZE = 1024"

text \<open>The macros index a bit array: a descriptor outside of it is undefined.\<close>

definition FD_SET :: "int \<Rightarrow> (int \<Rightarrow> bool) \<Rightarrow> (int \<Rightarrow> bool) option" where
  "FD_SET fd set1 = (if 0 \<le> fd \<and> fd < FD_SETSIZE then Some (set1(fd := True)) else None)"

definition FD_CLR :: "int \<Rightarrow> (int \<Rightarrow> bool) \<Rightarrow> (int \<Rightarrow> bool) option" where
  "FD_CLR fd set1 = (if 0 \<le> fd \<and> fd < FD_SETSIZE then Some (set1(fd := False)) else None)"

definition FD_ISSET :: "int \<Rightarrow> (int \<Rightarrow> bool) \<Rightarrow> bool option" where
  "FD_ISSET fd set1 = (if 0 \<le> fd \<and> fd < FD_SETSIZE then Some (set1 fd) else None)"

record gwrlbkd_select =
  maxfd :: int
  src_sets :: fd_sets

type_synonym 'z sworld = "(gwrlbkd_select, 'z) world_scheme"

definition set_maxfd :: "int \<Rightarrow> 'z sworld \<Rightarrow> 'z sworld" where
  "set_maxfd m s = s\<lparr>rl := (rl s)\<lparr>backend := (backend (rl s))\<lparr>maxfd := m\<rparr>\<rparr>\<rparr>"

definition set_sets :: "fd_sets \<Rightarrow> 'z sworld \<Rightarrow> 'z sworld" where
  "set_sets x s = s\<lparr>rl := (rl s)\<lparr>backend := (backend (rl s))\<lparr>src_sets := x\<rparr>\<rparr>\<rparr>"

text \<open>The three \<^verbatim>\<open>FD_CLR\<close>, and the \<^verbatim>\<open>FD_SET\<close> for the interest flags, that the operations share.\<close>

definition clear_sets :: "int \<Rightarrow> fd_sets \<Rightarrow> fd_sets option" where
  "clear_sets fd x = (case x of (r, w, e) \<Rightarrow> do {
     r \<leftarrow> FD_CLR fd r; w \<leftarrow> FD_CLR fd w; e \<leftarrow> FD_CLR fd e; Some (r, w, e) })"

definition fill_sets :: "int \<Rightarrow> flags8 \<Rightarrow> fd_sets \<Rightarrow> fd_sets option" where
  "fill_sets fd flags x = do {
     (r, w, e) \<leftarrow> clear_sets fd x;
     r \<leftarrow> (if flags AND GWRL_RD \<noteq> 0 then FD_SET fd r else Some r);
     w \<leftarrow> (if flags AND GWRL_WR \<noteq> 0 then FD_SET fd w else Some w);
     e \<leftarrow> FD_SET fd e;
     Some (r, w, e) }"

subsection \<open>Operations on sources\<close>

definition gwrl_bkd_init_select :: "'z sworld \<Rightarrow> gwrlbkd_select option \<times> 'z sworld" where
  "gwrl_bkd_init_select s =
     (case calloc s of
        (None, s) \<Rightarrow> (None, gwerr ''p3F7r'' s)
      | (Some _, s) \<Rightarrow> (Some \<lparr>maxfd = -1, src_sets = no_fds\<rparr>, s))"

definition gwrl_bkd_set_options_select :: "gwrl_options \<Rightarrow> 'z sworld \<Rightarrow> 'z sworld option" where
  "gwrl_bkd_set_options_select opts s = Some s"

partial_function (option) recalc_loop :: "ptr \<Rightarrow> 'z sworld \<Rightarrow> 'z sworld option" where
  [code]: "recalc_loop p s =
     (if p = None then Some s
      else do {
        o1 \<leftarrow> get_src p s;
        if \<not> flisset (src_flags o1) GWRL_ENABLED then recalc_loop (src_next o1) s
        else do {
          f \<leftarrow> as_file o1;
          let s = (if file_fd f > maxfd (backend (rl s)) then set_maxfd (file_fd f) s else s);
          recalc_loop (src_next o1) s } })"

definition gwrl_bkd_recalc_srcs :: "'z sworld \<Rightarrow> 'z sworld option" where
  "gwrl_bkd_recalc_srcs s = do {
     p \<leftarrow> nth_opt (sources (rl s)) GWRL_SRC_TYPE_FILE;
     recalc_loop p (set_maxfd (-1) s) }"

definition gwrl_bkd_src_add_select :: "ptr \<Rightarrow> 'z sworld \<Rightarrow> 'z sworld option" where
  "gwrl_bkd_src_add_select src s = do {
     o1 \<leftarrow> get_src src s;
     f \<leftarrow> as_file o1;
     x \<leftarrow> fill_sets (file_fd f) (src_flags o1) (src_sets (backend (rl s)));
     let s = set_sets x s;
     Some (if file_fd f > maxfd (backend (rl s)) then set_maxfd (file_fd f) s else s) }"

definition gwrl_bkd_del_src_select :: "ptr \<Rightarrow> 'z sworld \<Rightarrow> 'z sworld option" where
  "gwrl_bkd_del_src_select src s = do {
     o1 \<leftarrow> get_src src s;
     f \<leftarrow> as_file o1;
     x \<leftarrow> clear_sets (file_fd f) (src_sets (backend (rl s)));
     gwrl_bkd_recalc_srcs (set_sets x s) }"

definition gwrl_bkd_enable_src_select :: "ptr \<Rightarrow> 'z sworld \<Rightarrow> 'z sworld option" where
  "gwrl_bkd_enable_src_select src s = gwrl_bkd_recalc_srcs s"

definition gwrl_bkd_disable_src_select :: "ptr \<Rightarrow> 'z sworld \<Rightarrow> 'z sworld option" where
  "gwrl_bkd_disable_src_select src s = gwrl_bkd_recalc_srcs s"

definition gwrl_src_file_update_flags_select :: "ptr \<Rightarrow> flags8 \<Rightarrow> 'z sworld \<Rightarrow> 'z sworld option" where
  "gwrl_src_file_update_flags_select src flags s = do {
     o1 \<leftarrow> get_src src s;
     f \<leftarrow> as_file o1;
     x \<leftarrow> fill_sets (file_fd f) flags (src_sets (backend (rl s)));
     upd_src (\<lambda>o1. o1\<lparr>src_flags := flags\<rparr>) src (set_sets x s) }"

definition select_ops :: "'z sworld src_ops" where
  "select_ops = \<lparr>op_src_add = gwrl_bkd_src_add_select, op_del_src = gwrl_bkd_del_src_select,
     op_enable_src = gwrl_bkd_enable_src_select, op_disable_src = gwrl_bkd_disable_src_select,
     op_update_flags = gwrl_src_file_update_flags_select\<rparr>"

subsection \<open>Gathering\<close>

text \<open>\<^verbatim>\<open>fcntl_is_valid_fd\<close>.\<close>

definition fcntl_is_valid_fd :: "int \<Rightarrow> 'z sworld \<Rightarrow> bool \<times> 'z sworld" where
  "fcntl_is_valid_fd fd s =
     (case syscall (Sys_getfl fd) s of (a, s) \<Rightarrow> (ans_ret a \<noteq> -1 \<or> errno s \<noteq> EBADF, s))"

text \<open>
  The search for the bad descriptor. \<^verbatim>\<open>src\<close> stays the head of the list, so the loop goes on
  with the head's \<^verbatim>\<open>next\<close> again and again.
\<close>

partial_function (option) find_badfd_loop :: "ptr \<Rightarrow> ptr \<Rightarrow> 'z sworld \<Rightarrow> 'z sworld option" where
  [code]: "find_badfd_loop src fsrc s =
     (if fsrc = None then Some s
      else do {
        fo \<leftarrow> get_src fsrc s;
        f \<leftarrow> as_file fo;
        s \<leftarrow> (case fcntl_is_valid_fd (file_fd f) s of
               (True, s) \<Rightarrow> Some s
             | (False, s) \<Rightarrow> do {
                 so \<leftarrow> get_src src s;
                 (evt, s) \<leftarrow> gwrl_evt_createp src (src_callback so) (src_userdata so) (file_fd f) GWRL_RD s;
                 s \<leftarrow> gwrl_post_evt evt s;
                 gwrl_src_disable select_ops fsrc s });
        so \<leftarrow> get_src src s;
        find_badfd_loop src (src_next so) s })"

definition gwrl_src_file_find_badfd_post_evt :: "'z sworld \<Rightarrow> 'z sworld option" where
  "gwrl_src_file_find_badfd_post_evt s = do {
     p \<leftarrow> nth_opt (sources (rl s)) GWRL_SRC_TYPE_FILE;
     find_badfd_loop p p s }"

text \<open>The loop over the sources after \<^verbatim>\<open>select\<close> has reported some of them.\<close>

definition new_flags :: "int \<Rightarrow> fd_sets \<Rightarrow> flags8 option" where
  "new_flags fd x = (case x of (r, w, e) \<Rightarrow> do {
     br \<leftarrow> FD_ISSET fd r;
     let fl = (if br then flset 0 GWRL_RD else 0);
     bw \<leftarrow> FD_ISSET fd w;
     let fl = (if bw then flset fl GWRL_WR else fl);
     be \<leftarrow> FD_ISSET fd e;
     Some (if be then flset fl GWRL_RD else fl) })"

partial_function (option) post_ready_loop :: "fd_sets \<Rightarrow> ptr \<Rightarrow> 'z sworld \<Rightarrow> 'z sworld option" where
  [code]: "post_ready_loop x p s =
     (if p = None then Some s
      else do {
        o1 \<leftarrow> get_src p s;
        if \<not> flisset (src_flags o1) GWRL_ENABLED then post_ready_loop x (src_next o1) s
        else do {
          f \<leftarrow> as_file o1;
          fl \<leftarrow> new_flags (file_fd f) x;
          s \<leftarrow> (if 0 < fl then do {
                 (evt, s) \<leftarrow> gwrl_evt_createp p (src_callback o1) (src_userdata o1) (file_fd f) fl s;
                 gwrl_post_evt evt s }
               else Some s);
          o1 \<leftarrow> get_src p s;
          post_ready_loop x (src_next o1) s } })"

text \<open>The timeout passed to \<^verbatim>\<open>select\<close>; none is a null pointer, and \<^verbatim>\<open>timeout\<close> then holds nothing.\<close>

definition select_timeout :: "'z sworld \<Rightarrow> timeval option" where
  "select_timeout s =
     (let t = (if timeout (rl s) = no_time then None
               else Some (gwtm_timespec_to_timeval (timeout (rl s))))
      in if t = None \<and> flisset (rl_flags (rl s)) GWRL_NOSLEEP then Some \<lparr>tv_sec = 0, tv_usec = 0\<rparr> else t)"

text \<open>\<^verbatim>\<open>exit(1)\<close> does not return, so it has no result.\<close>

definition gwrl_bkd_gather_select :: "'z sworld \<Rightarrow> 'z sworld option" where
  "gwrl_bkd_gather_select s =
     (let timeoutp = select_timeout s;
          nfds = maxfd (backend (rl s)) + 1;
          s = s\<lparr>rl := (rl s)\<lparr>rl_flags := flset (rl_flags (rl s)) GWRL_SLEEPING\<rparr>\<rparr>
      in case syscall (Sys_select nfds (src_sets (backend (rl s))) timeoutp) s of
        (a, s) \<Rightarrow> do {
          let res = ans_ret a;
          let s = s\<lparr>rl := (rl s)\<lparr>rl_flags := flclr (rl_flags (rl s)) GWRL_SLEEPING\<rparr>\<rparr>;
          if res = 0 then Some s
          else if res < 0 \<and> (errno s = EINTR \<or> errno s = EAGAIN) then Some s
          else if res < 0 \<and> errno s = EBADF then gwrl_src_file_find_badfd_post_evt s
          else if res < 0 \<and> errno s = EINVAL then do {
            t \<leftarrow> timeoutp;
            if tv_sec t < 0 \<or> tv_usec t < 0 then Some s else None }
          else if res > 0 then do {
            p \<leftarrow> nth_opt (sources (rl s)) GWRL_SRC_TYPE_FILE;
            post_ready_loop (ans_ready a) p s }
          else Some s })"

subsection \<open>What the sets say\<close>

definition select_fd_ok :: "int \<Rightarrow> bool" where
  "select_fd_ok fd \<longleftrightarrow> 0 \<le> fd \<and> fd < FD_SETSIZE"

definition wanted :: "('b, 'z) world_scheme \<Rightarrow> addr set \<Rightarrow> fd_sets" where
  "wanted s A =
     (\<lambda>fd. \<exists>a \<in> A. src_fd s a = fd \<and> flisset (src_fl s a) GWRL_RD,
      \<lambda>fd. \<exists>a \<in> A. src_fd s a = fd \<and> flisset (src_fl s a) GWRL_WR,
      \<lambda>fd. \<exists>a \<in> A. src_fd s a = fd)"

definition select_tracks :: "'z sworld \<Rightarrow> addr set \<Rightarrow> bool" where
  "select_tracks s A \<longleftrightarrow>
     src_sets (backend (rl s)) = wanted s A \<and> inj_on (src_fd s) A \<and>
     (\<forall>a \<in> A. file_src s a \<and> select_fd_ok (src_fd s a) \<and>
       (flisset (src_fl s a) GWRL_ENABLED \<longrightarrow> src_fd s a \<le> maxfd (backend (rl s)))) \<and>
     -1 \<le> maxfd (backend (rl s)) \<and> maxfd (backend (rl s)) < FD_SETSIZE"

lemma test_flag [flag_simps]:
  "fl AND GWRL_RD \<noteq> 0 \<longleftrightarrow> flisset fl GWRL_RD" "fl AND GWRL_WR \<noteq> 0 \<longleftrightarrow> flisset fl GWRL_WR"
  by (auto simp: flisset_def)

lemma clear_sets_ok: "select_fd_ok fd \<Longrightarrow> clear_sets fd (r, w, e) = Some (r(fd := False), w(fd := False), e(fd := False))"
  by (simp add: clear_sets_def FD_CLR_def select_fd_ok_def)

lemma fill_sets_ok: "select_fd_ok fd \<Longrightarrow> fill_sets fd fl (r, w, e) =
    Some (r(fd := flisset fl GWRL_RD), w(fd := flisset fl GWRL_WR), e(fd := True))"
  by (simp add: fill_sets_def clear_sets_ok test_flag) (simp add: FD_SET_def select_fd_ok_def)

text \<open>The largest descriptor of the enabled sources of a list.\<close>

fun enabled_max :: "('b, 'z) world_scheme \<Rightarrow> int \<Rightarrow> addr list \<Rightarrow> int" where
  "enabled_max s m [] = m"
| "enabled_max s m (a # L) =
     enabled_max s (if flisset (src_fl s a) GWRL_ENABLED then max m (src_fd s a) else m) L"

lemma enabled_max_ge: "m \<le> enabled_max s m L"
proof (induction L arbitrary: m)
  case (Cons a L)
  have "m \<le> max m (src_fd s a)" by simp
  also have "\<dots> \<le> enabled_max s (max m (src_fd s a)) L" by (rule Cons.IH)
  finally show ?case using Cons.IH [of m] by simp
qed simp

lemma enabled_max_covers: "a \<in> set L \<Longrightarrow> flisset (src_fl s a) GWRL_ENABLED \<Longrightarrow> src_fd s a \<le> enabled_max s m L"
proof (induction L arbitrary: m)
  case (Cons b L)
  show ?case
  proof (cases "a = b")
    case True
    have "src_fd s a \<le> max m (src_fd s a)" by simp
    also have "\<dots> \<le> enabled_max s (max m (src_fd s a)) L" by (rule enabled_max_ge)
    finally show ?thesis using True Cons.prems by simp
  next
    case False
    with Cons show ?thesis by simp
  qed
qed simp

lemma enabled_max_less: "m < k \<Longrightarrow> \<forall>a \<in> set L. src_fd s a < k \<Longrightarrow> enabled_max s m L < k"
  by (induction L arbitrary: m) auto

lemma file_src_part:
  assumes "file_src s a"
  obtains o1 f where "srcs s a = Some o1" "src_type o1 = 0" "as_file o1 = Some f" "file_fd f = src_fd s a"
    "src_flags o1 = src_fl s a"
  using assms by (auto simp: file_src_iff src_fd_def src_fl_def as_file_def)

lemma set_maxfd_same [simp]: "set_maxfd (maxfd (backend (rl s))) s = s"
  by (simp add: set_maxfd_def)

lemma set_maxfd_sel [simp]:
  "srcs (set_maxfd m s) = srcs s" "maxfd (backend (rl (set_maxfd m s))) = m"
  "src_sets (backend (rl (set_maxfd m s))) = src_sets (backend (rl s))"
  "sources (rl (set_maxfd m s)) = sources (rl s)"
  "set_maxfd m (set_maxfd k s) = set_maxfd m s"
  by (simp_all add: set_maxfd_def)

lemma set_maxfd_views [simp]:
  "src_nx (set_maxfd m s) = src_nx s" "src_fd (set_maxfd m s) a = src_fd s a"
  "src_fl (set_maxfd m s) a = src_fl s a" "file_src (set_maxfd m s) a = file_src s a"
  "enabled_max (set_maxfd m s) k L = enabled_max s k L"
proof -
  show v: "src_nx (set_maxfd m s) = src_nx s" "src_fd (set_maxfd m s) a = src_fd s a"
    "src_fl (set_maxfd m s) a = src_fl s a" "file_src (set_maxfd m s) a = file_src s a" for a
    by (simp_all add: src_nx_srcs src_fd_def src_fl_def file_src_iff)
  show "enabled_max (set_maxfd m s) k L = enabled_max s k L"
    by (induction L arbitrary: k) (simp_all add: v)
qed

lemma recalc_loop_ok:
  assumes "chain (src_nx s) p L" "\<forall>a \<in> set L. file_src s a"
  shows "recalc_loop p s = Some (set_maxfd (enabled_max s (maxfd (backend (rl s))) L) s)"
  using assms
proof (induction L arbitrary: p s)
  case Nil
  then show ?case by (simp add: recalc_loop.simps)
next
  case (Cons a L)
  obtain o1 f where o1: "srcs s a = Some o1" "as_file o1 = Some f" "file_fd f = src_fd s a"
    "src_flags o1 = src_fl s a"
    using Cons.prems(2) by (auto elim: file_src_part)
  let ?m = "maxfd (backend (rl s))" and ?t = "\<lambda>m. set_maxfd m s"
  have p: "p = Some a" "chain (src_nx s) (src_next o1) L"
    using Cons.prems(1) o1(1) by (auto simp: src_nx_iff)
  have ih: "recalc_loop (src_next o1) (?t m) = Some (?t (enabled_max s m L))" for m
    using Cons.IH [of "?t m"] p(2) Cons.prems(2) by simp
  show ?case
    using ih [of ?m] ih [of "src_fd s a"] o1 p(1)
    by (auto simp: recalc_loop.simps [of "Some a" s] max_def)
qed

lemma recalc_ok:
  assumes "srcs_inv s Fs Ts"
  shows "gwrl_bkd_recalc_srcs s = Some (set_maxfd (enabled_max s (-1) Fs) s)"
  using recalc_loop_ok [of "set_maxfd (-1) s" "sources (rl s) ! 0" Fs] srcs_invD [OF assms]
  by (simp add: gwrl_bkd_recalc_srcs_def nth_opt_def src_type_defs)

lemma recalc_frame: "bkd_frame s (set_maxfd m s)"
  by (simp add: bkd_frame_def set_maxfd_def)

text \<open>With the right sets, the largest descriptor makes the backend track the list.\<close>

lemma recalc_tracks:
  assumes "src_sets (backend (rl s)) = wanted s (set Fs)" "inj_on (src_fd s) (set Fs)"
    and "\<forall>a \<in> set Fs. file_src s a \<and> select_fd_ok (src_fd s a)"
  shows "select_tracks (set_maxfd (enabled_max s (-1) Fs) s) (set Fs)"
proof -
  have "enabled_max s (-1) Fs < FD_SETSIZE"
    by (rule enabled_max_less) (use assms(3) in \<open>auto simp: select_fd_ok_def FD_SETSIZE_def\<close>)
  moreover have "wanted (set_maxfd m s) A = wanted s A" for m A by (simp add: wanted_def)
  moreover have "inj_on (src_fd (set_maxfd m s)) (set Fs)" for m
    using assms(2) by (simp add: inj_on_def)
  ultimately show ?thesis
    using assms enabled_max_ge [of "-1" s Fs] enabled_max_covers [of _ Fs s "-1"]
    by (simp add: select_tracks_def)
qed

subsection \<open>The backend keeps its contract\<close>

lemma core_views:
  assumes "map_option src_core (srcs s' a) = map_option src_core (srcs s a)"
  shows "src_fd s' a = src_fd s a" "src_fl s' a = src_fl s a" "file_src s' a = file_src s a"
  using assms
  by (cases "srcs s a"; cases "srcs s' a"; auto simp: src_fd_def src_fl_def file_src_iff as_file_def
      dest: src_core_fields)+

lemma tracks_views:
  assumes "backend (rl s') = backend (rl s)"
    and "\<forall>a \<in> A. src_fd s' a = src_fd s a \<and> src_fl s' a = src_fl s a \<and> file_src s' a = file_src s a"
    and "select_tracks s A"
  shows "select_tracks s' A"
proof -
  have "wanted s' A = wanted s A" using assms(2) by (simp add: wanted_def)
  moreover have "inj_on (src_fd s') A = inj_on (src_fd s) A" using assms(2) by (intro inj_on_cong) simp
  ultimately show ?thesis using assms by (simp add: select_tracks_def)
qed

lemma set_sets_views [simp]:
  "srcs (set_sets x s) = srcs s" "src_nx (set_sets x s) = src_nx s" "src_fd (set_sets x s) = src_fd s"
  "src_fl (set_sets x s) = src_fl s" "file_src (set_sets x s) = file_src s"
  "maxfd (backend (rl (set_sets x s))) = maxfd (backend (rl s))"
  "src_sets (backend (rl (set_sets x s))) = x" "sources (rl (set_sets x s)) = sources (rl s)"
  "wanted (set_sets x s) A = wanted s A"
  by (simp_all add: set_sets_def src_nx_srcs src_fd_def src_fl_def file_src_iff fun_eq_iff wanted_def)

lemma set_sets_frame: "bkd_frame s (set_sets x s)"
  by (simp add: bkd_frame_def set_sets_def)

lemma set_maxfd_tracks:
  assumes "select_tracks s A" "maxfd (backend (rl s)) \<le> m" "m < FD_SETSIZE"
  shows "select_tracks (set_maxfd m s) A"
proof -
  have "wanted (set_maxfd m s) A = wanted s A" by (simp add: wanted_def)
  moreover have "inj_on (src_fd (set_maxfd m s)) A = inj_on (src_fd s) A" by (intro inj_on_cong) simp
  ultimately show ?thesis using assms by (auto simp: select_tracks_def)
qed

lemma select_add_law:
  assumes "srcs_inv s (a # Fs) Ts" "select_tracks s (set Fs)" "select_fd_ok (src_fd s a)"
    and "src_fd s a \<notin> src_fd s ` set Fs"
  shows "\<exists>s'. op_src_add select_ops (Some a) s = Some s' \<and> bkd_frame s s' \<and> select_tracks s' (set (a # Fs))"
proof -
  have fa: "file_src s a" using srcs_invD(5) [OF assms(1)] by simp
  then obtain o1 f where o1: "srcs s a = Some o1" "as_file o1 = Some f" "file_fd f = src_fd s a"
    "src_flags o1 = src_fl s a" by (rule file_src_part)
  have na: "a \<notin> set Fs" using srcs_inv_distinct(1) [OF assms(1)] by simp
  let ?fd = "src_fd s a" and ?m = "maxfd (backend (rl s))"
  have w: "src_sets (backend (rl s)) = wanted s (set Fs)" using assms(2) by (simp add: select_tracks_def)
  have x: "fill_sets ?fd (src_fl s a) (wanted s (set Fs)) = Some (wanted s (set (a # Fs)))"
    unfolding wanted_def fill_sets_ok [OF assms(3)] using assms(4) by (auto simp: fun_eq_iff image_iff)
  let ?t = "set_sets (wanted s (set (a # Fs))) s"
  let ?s' = "set_maxfd (max ?m ?fd) ?t"
  have "op_src_add select_ops (Some a) s = Some ?s'"
    using o1 w x set_maxfd_same [of ?t] by (auto simp: select_ops_def gwrl_bkd_src_add_select_def max_def Let_def)
  moreover have "bkd_frame s ?s'" by (rule bkd_frame_trans [OF set_sets_frame recalc_frame])
  moreover have "wanted ?s' A = wanted s A" for A by (simp add: wanted_def)
  moreover have "inj_on (src_fd s) (set (a # Fs))"
    using assms(2,4) na by (simp add: select_tracks_def)
  then have "inj_on (src_fd ?s') (set (a # Fs))" by (rule subst [OF inj_on_cong, rotated]) simp
  ultimately show ?thesis
    using assms(2,3) fa by (intro exI [of _ ?s']) (auto simp: select_tracks_def select_fd_ok_def)
qed

lemma select_del_law:
  assumes "srcs_inv s Fs Ts" "file_src s a" "a \<notin> set Fs" "select_tracks s (insert a (set Fs))"
  shows "\<exists>s' fl. op_del_src select_ops (Some a) s = Some s' \<and>
    bkd_frame (mod_src (\<lambda>o1. o1\<lparr>src_flags := fl\<rparr>) a s) s' \<and> select_tracks s' (set Fs)"
proof -
  obtain o1 f where o1: "srcs s a = Some o1" "as_file o1 = Some f" "file_fd f = src_fd s a"
    using assms(2) by (rule file_src_part)
  let ?t = "set_sets (wanted s (set Fs)) s"
  have i: "inj_on (src_fd s) (insert a (set Fs))" and ok: "select_fd_ok (src_fd s a)"
    and w: "src_sets (backend (rl s)) = wanted s (insert a (set Fs))"
    using assms(4) by (simp_all add: select_tracks_def)
  have "src_fd s b \<noteq> src_fd s a" if "b \<in> set Fs" for b
    using i that assms(3) by (auto simp: inj_on_def)
  then have x: "clear_sets (src_fd s a) (wanted s (insert a (set Fs))) = Some (wanted s (set Fs))"
    unfolding wanted_def clear_sets_ok [OF ok] by (auto simp: fun_eq_iff)
  have inv: "srcs_inv ?t Fs Ts" by (rule bkd_frame_srcs_inv [OF set_sets_frame assms(1)])
  have "op_del_src select_ops (Some a) s = Some (set_maxfd (enabled_max ?t (-1) Fs) ?t)"
    using o1 w x recalc_ok [OF inv] by (simp add: select_ops_def gwrl_bkd_del_src_select_def)
  moreover have "select_tracks (set_maxfd (enabled_max ?t (-1) Fs) ?t) (set Fs)"
    by (rule recalc_tracks) (use assms(4) i in \<open>auto simp: select_tracks_def\<close>)
  ultimately show ?thesis using bkd_frame_trans [OF set_sets_frame recalc_frame] mod_src_same [of s a] by metis
qed

text \<open>A recalculation after a change of flags that leaves the interest as it was.\<close>

lemma flags_views:
  assumes "\<And>o1. src_part (g o1) = src_part o1" "\<And>o1. src_type (g o1) = src_type o1"
  shows "src_fd (mod_src g a s) b = src_fd s b" "file_src (mod_src g a s) b = file_src s b"
    "a \<noteq> b \<Longrightarrow> src_fl (mod_src g a s) b = src_fl s b"
proof -
  show "src_fd (mod_src g a s) b = src_fd s b"
    by (cases "srcs s b") (auto simp: src_fd_def mod_src_def as_file_def assms)
  show "file_src (mod_src g a s) b = file_src s b"
    by (auto simp: file_src_iff mod_src_def assms)
  show "a \<noteq> b \<Longrightarrow> src_fl (mod_src g a s) b = src_fl s b"
    by (simp add: src_fl_def mod_src_def)
qed

lemma recalc_after_flags:
  assumes "srcs_inv s Fs Ts" "select_tracks s (set Fs)"
    and "g = src_flset GWRL_ENABLED \<or> g = src_flclr GWRL_ENABLED"
  shows "\<exists>s'. gwrl_bkd_recalc_srcs (mod_src g a s) = Some s' \<and> bkd_frame (mod_src g a s) s' \<and>
    select_tracks s' (set Fs)"
proof -
  let ?t = "mod_src g a s"
  have g: "src_part (g o1) = src_part o1" "src_type (g o1) = src_type o1" "src_next (g o1) = src_next o1" for o1
    using assms(3) by (auto simp: src_flset_def src_flclr_def)
  note v = flags_views [where g = g and a = a and s = s, OF g(1,2)]
  have fl: "flisset (src_fl ?t b) k = flisset (src_fl s b) k" if "k = GWRL_RD \<or> k = GWRL_WR" for b k
    using assms(3) that
    by (cases "srcs s b") (auto simp: src_fl_def mod_src_def src_flset_def src_flclr_def flag_simps)
  have inv: "srcs_inv ?t Fs Ts" by (rule mod_src_frame [OF g(2,1,3) assms(1)])
  have "wanted ?t A = wanted s A" for A by (simp add: wanted_def v fl)
  moreover have "backend (rl ?t) = backend (rl s)" by (simp add: mod_src_def)
  moreover have "inj_on (src_fd ?t) (set Fs) = inj_on (src_fd s) (set Fs)"
    by (intro inj_on_cong) (simp add: v)
  ultimately have "select_tracks (set_maxfd (enabled_max ?t (-1) Fs) ?t) (set Fs)"
    using assms(2) by (intro recalc_tracks) (simp_all add: select_tracks_def v)
  with recalc_ok [OF inv] recalc_frame show ?thesis by blast
qed

text \<open>A descriptor that \<^verbatim>\<open>maxfd\<close> covers already may be enabled by a change of flags as well.\<close>

lemma select_update_any:
  assumes "srcs_inv s Fs Ts" "a \<in> set Fs" "select_tracks s (set Fs)"
    and "flisset fl GWRL_ENABLED \<longrightarrow> src_fd s a \<le> maxfd (backend (rl s))"
    and "t = mod_src (\<lambda>o1. o1\<lparr>src_flags := fl\<rparr>) a s"
  shows "\<exists>s'. op_update_flags select_ops (Some a) fl s = Some s' \<and> bkd_frame t s' \<and> select_tracks s' (set Fs)"
proof -
  have "file_src s a" using srcs_invD(5) [OF assms(1,2)] .
  then obtain o1 f where o1: "srcs s a = Some o1" "as_file o1 = Some f" "file_fd f = src_fd s a"
    by (rule file_src_part)
  have ok: "select_fd_ok (src_fd s a)" and w: "src_sets (backend (rl s)) = wanted s (set Fs)"
    and i: "inj_on (src_fd s) (set Fs)"
    using assms(2,3) by (simp_all add: select_tracks_def)
  note v = flags_views [where g = "\<lambda>o1. o1\<lparr>src_flags := fl\<rparr>" and a = a and s = s, simplified, folded assms(5)]
  have va: "src_fl t a = fl" using o1(1) by (simp add: assms(5) mod_src_def src_fl_def)
  have ne: "src_fd s b \<noteq> src_fd s a" if "b \<in> set Fs" "b \<noteq> a" for b
    using i that assms(2) by (auto simp: inj_on_def)
  have x: "fill_sets (src_fd s a) fl (wanted s (set Fs)) = Some (wanted t (set Fs))"
    unfolding wanted_def fill_sets_ok [OF ok] using assms(2) ne v va by (auto simp: fun_eq_iff) metis+
  let ?s' = "set_sets (wanted t (set Fs)) t"
  have "op_update_flags select_ops (Some a) fl s = Some ?s'"
    using o1 w x by (simp add: select_ops_def gwrl_src_file_update_flags_select_def)
      (simp add: assms(5) mod_src_def set_sets_def fun_upd_def)
  moreover have "inj_on (src_fd t) (set Fs) = inj_on (src_fd s) (set Fs)"
    by (intro inj_on_cong) (simp add: v)
  moreover have "maxfd (backend (rl t)) = maxfd (backend (rl s))" by (simp add: assms(5) mod_src_def)
  moreover have "src_fl t b = (if b = a then fl else src_fl s b)" for b using v(3) va by auto
  ultimately have "op_update_flags select_ops (Some a) fl s = Some ?s'" "select_tracks ?s' (set Fs)"
    using assms(3,4) by (auto simp: select_tracks_def v)
  with set_sets_frame [of t "wanted t (set Fs)"] show ?thesis by blast
qed

lemma select_update_law:
  assumes "srcs_inv s Fs Ts" "a \<in> set Fs" "select_tracks s (set Fs)"
    and "flisset fl GWRL_ENABLED = flisset (src_fl s a) GWRL_ENABLED"
    and "t = mod_src (\<lambda>o1. o1\<lparr>src_flags := fl\<rparr>) a s"
  shows "\<exists>s'. op_update_flags select_ops (Some a) fl s = Some s' \<and> bkd_frame t s' \<and> select_tracks s' (set Fs)"
  by (rule select_update_any [OF assms(1-3) _ assms(5)]) (use assms(2-4) in \<open>simp add: select_tracks_def\<close>)

lemma add_maxfd:
  assumes "op_src_add select_ops (Some a) s = Some s'"
  shows "src_fd s a \<le> maxfd (backend (rl s'))"
  using assms
  by (auto simp: select_ops_def gwrl_bkd_src_add_select_def src_fd_def get_src_def Let_def set_maxfd_def
      split: Option.bind_splits if_splits)

interpretation sel: reactor_backend select_ops select_fd_ok select_tracks
proof unfold_locales
  fix s s' :: "'z sworld" and A
  assume b: "backend (rl s') = backend (rl s)" and t: "select_tracks s A"
    and c: "\<forall>a \<in> A. map_option src_core (srcs s' a) = map_option src_core (srcs s a)"
  have "src_fd s' a = src_fd s a \<and> src_fl s' a = src_fl s a \<and> file_src s' a = file_src s a" if "a \<in> A" for a
    using core_views [of s' a s] c that by blast
  then show "select_tracks s' A" by (intro tracks_views [OF b _ t]) blast
next
  fix s t :: "'z sworld" and Fs Ts a
  assume "srcs_inv s Fs Ts" "a \<in> set Fs" "select_tracks s (set Fs)" "t = mod_src (src_flset GWRL_ENABLED) a s"
  then show "\<exists>s'. op_enable_src select_ops (Some a) t = Some s' \<and> bkd_frame t s' \<and> select_tracks s' (set Fs)"
    using recalc_after_flags [of s Fs Ts "src_flset GWRL_ENABLED" a]
    by (simp add: select_ops_def gwrl_bkd_enable_src_select_def)
next
  fix s t :: "'z sworld" and Fs Ts a
  assume "srcs_inv s Fs Ts" "a \<in> set Fs" "select_tracks s (set Fs)" "t = mod_src (src_flclr GWRL_ENABLED) a s"
  then show "\<exists>s'. op_disable_src select_ops (Some a) t = Some s' \<and> bkd_frame t s' \<and> select_tracks s' (set Fs)"
    using recalc_after_flags [of s Fs Ts "src_flclr GWRL_ENABLED" a]
    by (simp add: select_ops_def gwrl_bkd_disable_src_select_def)
qed (rule select_add_law select_del_law select_update_law; assumption)+

subsection \<open>Gathering\<close>

text \<open>The event for a source that \<^verbatim>\<open>select\<close> reported: an exceptional condition counts as readable.\<close>

definition ready_flags :: "fd_sets \<Rightarrow> int \<Rightarrow> flags8" where
  "ready_flags x fd = (case x of (r, w, e) \<Rightarrow>
     (if r fd \<or> e fd then GWRL_RD else 0) OR (if w fd then GWRL_WR else 0))"

definition ready :: "'z sworld \<Rightarrow> fd_sets \<Rightarrow> addr \<Rightarrow> bool" where
  "ready s x a \<longleftrightarrow> flisset (src_fl s a) GWRL_ENABLED \<and> ready_flags x (src_fd s a) \<noteq> 0"

definition ready_evt :: "'z sworld \<Rightarrow> fd_sets \<Rightarrow> addr \<Rightarrow> gwrlevt option" where
  "ready_evt s x a = map_option (\<lambda>o1. new_evt (Some a) (src_callback o1) (src_userdata o1) (src_fd s a)
     (ready_flags x (src_fd s a)) None) (srcs s a)"

lemma new_flags_ok: "select_fd_ok fd \<Longrightarrow> new_flags fd x = Some (ready_flags x fd)"
  by (cases x) (auto simp: new_flags_def FD_ISSET_def select_fd_ok_def ready_flags_def flset_def flag_defs)

lemma createp_post:
  assumes "evts_inv s E C"
  obtains a s' where
    "(gwrl_evt_createp src cb ud fd fl s \<bind> (\<lambda>(e, s). gwrl_post_evt e s)) = Some s'"
    "evts s' = (evts s)(a \<mapsto> new_evt src cb ud fd fl (events (rl s)))" "a \<notin> set E"
    "evts_inv s' (a # E) (tl C)" "evt_frame s s'"
  by (rule post_new [OF assms errs_only_gwerr, of src cb ud fd fl "''4LOP0''"])
     (simp add: gwrl_evt_createp_def split_def)

lemma srcs_views:
  assumes "srcs s' = srcs s"
  shows "src_fd s' a = src_fd s a" "src_fl s' a = src_fl s a" "file_src s' a = file_src s a"
    "ready s' x a = ready s x a" "ready_evt s' x a = ready_evt s x a"
  using assms by (simp_all add: src_fd_def src_fl_def file_src_iff ready_def ready_evt_def)

lemma post_ready_loop_ok:
  assumes "chain (src_nx s) p L" "\<forall>a \<in> set L. file_src s a \<and> select_fd_ok (src_fd s a)" "evts_inv s E C"
  shows "\<exists>s' N C'. post_ready_loop x p s = Some s' \<and> evt_frame s s' \<and> evts_inv s' (rev N @ E) C' \<and>
    map (\<lambda>e. map_option evt_core (evts s' e)) N = map (ready_evt s x) (filter (ready s x) L) \<and>
    (\<forall>e \<in> set E. evts s' e = evts s e)"
  using assms
proof (induction L arbitrary: p s E C)
  case Nil
  then show ?case
    by (intro exI [of _ s] exI [of _ "[]"] exI [of _ C]) (simp add: post_ready_loop.simps)
next
  case (Cons a L)
  obtain o1 f where o1: "srcs s a = Some o1" "as_file o1 = Some f" "file_fd f = src_fd s a"
    "src_flags o1 = src_fl s a"
    using Cons.prems(2) by (auto elim: file_src_part)
  have p: "p = Some a" and ch: "chain (src_nx s) (src_next o1) L"
    using Cons.prems(1) o1(1) by (auto simp: src_nx_iff)
  have nf: "new_flags (src_fd s a) x = Some (ready_flags x (src_fd s a))"
    using Cons.prems(2) by (intro new_flags_ok) simp
  show ?case
  proof (cases "ready s x a")
    case False
    have "post_ready_loop x p s = post_ready_loop x (src_next o1) s"
      using False o1 p nf by (auto simp: post_ready_loop.simps [of x "Some a"] ready_def word_gt_0)
    with Cons.IH [OF ch _ Cons.prems(3)] Cons.prems(2) False show ?thesis by auto
  next
    case True
    obtain e t where t:
      "(gwrl_evt_createp (Some a) (src_callback o1) (src_userdata o1) (src_fd s a)
         (ready_flags x (src_fd s a)) s \<bind> (\<lambda>(e, s). gwrl_post_evt e s)) = Some t"
      "evts t = (evts s)(e \<mapsto> new_evt (Some a) (src_callback o1) (src_userdata o1) (src_fd s a)
         (ready_flags x (src_fd s a)) (events (rl s)))" "e \<notin> set E"
      "evts_inv t (e # E) (tl C)" "evt_frame s t"
      by (rule createp_post [OF Cons.prems(3)])
    have st: "srcs t = srcs s" by (rule evt_frameD(1) [OF t(5)])
    note v = srcs_views [OF st]
    have "post_ready_loop x p s = post_ready_loop x (src_next o1) t"
      using True o1 p nf t(1) st
      by (simp add: post_ready_loop.simps [of x "Some a"] ready_def word_gt_0)
    moreover have "src_nx t = src_nx s" using st by (simp add: src_nx_srcs)
    moreover obtain s' N C' where s': "post_ready_loop x (src_next o1) t = Some s'" "evt_frame t s'"
      "evts_inv s' (rev N @ e # E) C'"
      "map (\<lambda>e. map_option evt_core (evts s' e)) N = map (ready_evt s x) (filter (ready s x) L)"
      "\<forall>e \<in> set (e # E). evts s' e = evts t e"
      using Cons.IH [of t "src_next o1" "e # E" "tl C"] ch t(4) Cons.prems(2) \<open>src_nx t = src_nx s\<close>
      unfolding v by auto
    moreover have "map_option evt_core (evts s' e) = ready_evt s x a"
      using s'(5) t(2) o1(1) by (simp add: ready_evt_def evt_core_def)
    ultimately show ?thesis
      using True t(2,3) evt_frame_trans [OF t(5) s'(2)]
      by (intro exI [of _ s'] exI [of _ "e # N"] exI [of _ C']) auto
  qed
qed

text \<open>The state in which \<^verbatim>\<open>select\<close> has returned.\<close>

definition polled :: "'z sworld \<Rightarrow> 'z sworld" where
  "polled s =
     (let a = answer_at s 0 in
      s\<lparr>calls := Sys_select (maxfd (backend (rl s)) + 1) (src_sets (backend (rl s))) (select_timeout s) # calls s,
        errno := (if ans_ret a < 0 then ans_errno a else errno s),
        rl := (rl s)\<lparr>rl_flags := flclr (flset (rl_flags (rl s)) GWRL_SLEEPING) GWRL_SLEEPING\<rparr>\<rparr>)"

lemma polled_sel [simp]:
  "srcs (polled s) = srcs s" "evts (polled s) = evts s" "brk (polled s) = brk s"
  "backend (rl (polled s)) = backend (rl s)" "sources (rl (polled s)) = sources (rl s)"
  "events (rl (polled s)) = events (rl s)" "cevents (rl (polled s)) = cevents (rl s)"
  "ncevents (rl (polled s)) = ncevents (rl s)"
  by (simp_all add: polled_def Let_def)

lemma polled_inv:
  "srcs_inv s Fs Ts \<Longrightarrow> srcs_inv (polled s) Fs Ts" "evts_inv s E C \<Longrightarrow> evts_inv (polled s) E C"
  by (rule srcs_inv_cong [of "polled s" s]; simp add: srcs_inv_def fresh_ok_def)
     (rule evts_inv_cong [of "polled s" s]; simp add: evts_inv_def fresh_ok_def)

lemma gather_select_ready:
  assumes "0 < ans_ret (answer_at s 0)" "0 < length (sources (rl s))"
  shows "gwrl_bkd_gather_select s = post_ready_loop (ans_ready (answer_at s 0)) (sources (rl s) ! 0) (polled s)"
  using assms
  by (simp add: gwrl_bkd_gather_select_def syscall_def Let_def answer_at_def polled_def nth_opt_def
      src_type_defs select_timeout_def)

lemma gather_select_idle:
  assumes "ans_ret (answer_at s 0) = 0 \<or>
    ans_ret (answer_at s 0) < 0 \<and> ans_errno (answer_at s 0) \<in> {EINTR, EAGAIN}"
  shows "gwrl_bkd_gather_select s = Some (polled s)"
  using assms
  by (auto simp: gwrl_bkd_gather_select_def syscall_def Let_def answer_at_def polled_def select_timeout_def)

lemma gather_select_badf:
  assumes "ans_ret (answer_at s 0) < 0" "ans_errno (answer_at s 0) = EBADF"
  shows "gwrl_bkd_gather_select s = gwrl_src_file_find_badfd_post_evt (polled s)"
  using assms
  by (simp add: gwrl_bkd_gather_select_def syscall_def Let_def answer_at_def polled_def select_timeout_def errno_defs)

subsection \<open>The search for a bad descriptor\<close>

lemma disable_select_ok:
  assumes "srcs_inv s Fs Ts" "evts_inv s E C" "a \<in> set Fs"
  shows "\<exists>m. gwrl_src_disable select_ops (Some a) s = Some (set_maxfd m (mod_src (src_flclr GWRL_ENABLED) a s)) \<and>
    srcs_inv (set_maxfd m (mod_src (src_flclr GWRL_ENABLED) a s)) Fs Ts \<and>
    evts_inv (set_maxfd m (mod_src (src_flclr GWRL_ENABLED) a s)) E C"
proof -
  let ?t = "mod_src (src_flclr GWRL_ENABLED) a s"
  from srcs_invD(5) [OF assms(1,3)] obtain oa where oa: "srcs s a = Some oa" "src_type oa = 0"
    by (auto simp: file_src_iff)
  have inv: "srcs_inv ?t Fs Ts" by (rule mod_src_frame [OF _ _ _ assms(1)]) (simp_all add: src_flclr_def)
  have ev: "evts_inv ?t E C" by (rule mod_src_evts_inv [OF assms(2)])
  have "evts_inv (set_maxfd m ?t) E C" for m
    by (rule evts_inv_cong [OF _ _ _ _ _ ev]) (use ev in \<open>auto simp: set_maxfd_def evts_inv_def fresh_ok_def\<close>)
  moreover have "gwrl_src_disable select_ops (Some a) s = gwrl_bkd_recalc_srcs ?t"
    using oa by (simp add: gwrl_src_disable_def mod_src_def src_flclr_def src_type_defs select_ops_def
        gwrl_bkd_disable_src_select_def)
  ultimately show ?thesis
    using recalc_ok [OF inv] bkd_frame_srcs_inv [OF recalc_frame inv]
    by (intro exI [of _ "enabled_max ?t (-1) Fs"]) simp
qed

text \<open>What one round does to the source \<open>a\<close>, with the head \<open>h\<close> of the list as \<^verbatim>\<open>src\<close>.\<close>

definition badfd_body :: "ptr \<Rightarrow> ptr \<Rightarrow> 'z sworld \<Rightarrow> 'z sworld option" where
  "badfd_body src fsrc s = do {
     fo \<leftarrow> get_src fsrc s;
     f \<leftarrow> as_file fo;
     (case fcntl_is_valid_fd (file_fd f) s of
        (True, s) \<Rightarrow> Some s
      | (False, s) \<Rightarrow> do {
          so \<leftarrow> get_src src s;
          (evt, s) \<leftarrow> gwrl_evt_createp src (src_callback so) (src_userdata so) (file_fd f) GWRL_RD s;
          s \<leftarrow> gwrl_post_evt evt s;
          gwrl_src_disable select_ops fsrc s }) }"

lemma find_badfd_loop_body:
  "find_badfd_loop src (Some a) s =
     do { s \<leftarrow> badfd_body src (Some a) s; so \<leftarrow> get_src src s; find_badfd_loop src (src_next so) s }"
  by (simp add: find_badfd_loop.simps [of src "Some a"] badfd_body_def)

lemma badfd_body_ok:
  assumes "srcs_inv s Fs Ts" "evts_inv s E C" "a \<in> set Fs" "h \<in> set Fs"
    and "bad \<longleftrightarrow> ans_ret (answer_at s 0) = -1 \<and> ans_errno (answer_at s 0) = EBADF"
  shows "\<exists>s'. badfd_body (Some h) (Some a) s = Some s' \<and> srcs_inv s' Fs Ts \<and>
    (if bad then \<exists>e C'. evts_inv s' (e # E) C' \<and> \<not> flisset (src_fl s' a) GWRL_ENABLED \<and>
         map_option evt_core (evts s' e) =
           map_option (\<lambda>o1. new_evt (Some h) (src_callback o1) (src_userdata o1) (src_fd s a) GWRL_RD None) (srcs s h)
     else evts_inv s' E C \<and> srcs s' = srcs s \<and> rl s' = rl s)"
proof -
  obtain oa f where oa: "srcs s a = Some oa" "as_file oa = Some f" "file_fd f = src_fd s a"
    using srcs_invD(5) [OF assms(1,3)] by (rule file_src_part)
  obtain oh where oh: "srcs s h = Some oh" using srcs_invD(5) [OF assms(1,4)] by (auto simp: file_src_iff)
  let ?t = "snd (syscall (Sys_getfl (src_fd s a)) s)"
  note tD = sys_frameD [OF sys_frame_syscall [of s "Sys_getfl (src_fd s a)"]]
  have bad: "fst (fcntl_is_valid_fd (src_fd s a) s) \<longleftrightarrow> \<not> bad" "snd (fcntl_is_valid_fd (src_fd s a) s) = ?t"
    using assms(5) by (auto simp: fcntl_is_valid_fd_def syscall_def Let_def answer_at_def)
  have it: "srcs_inv ?t Fs Ts"
    by (rule srcs_inv_cong [OF _ _ _ assms(1)]) (use srcs_invD(4) [OF assms(1)] tD in \<open>simp_all add: fresh_ok_def\<close>)
  have et: "evts_inv ?t E C"
    by (rule evts_inv_cong [OF _ _ _ _ _ assms(2)]) (use srcs_invD(4) [OF assms(1)] tD in \<open>simp_all add: fresh_ok_def\<close>)
  show ?thesis
  proof (cases bad)
    case False
    then have "badfd_body (Some h) (Some a) s = Some ?t"
      using oa bad by (cases "fcntl_is_valid_fd (src_fd s a) s") (simp add: badfd_body_def)
    with False it et tD show ?thesis by (intro exI [of _ ?t]) simp
  next
    case True
    obtain e u where u:
      "(gwrl_evt_createp (Some h) (src_callback oh) (src_userdata oh) (src_fd s a) GWRL_RD ?t
         \<bind> (\<lambda>(e, s). gwrl_post_evt e s)) = Some u"
      "evts u = (evts ?t)(e \<mapsto> new_evt (Some h) (src_callback oh) (src_userdata oh) (src_fd s a) GWRL_RD (events (rl ?t)))"
      "evts_inv u (e # E) (tl C)" "evt_frame ?t u"
      by (rule createp_post [OF et])
    have iu: "srcs_inv u Fs Ts" by (rule evt_frame_srcs_inv [OF u(4,3) it])
    have su: "srcs u = srcs s" using evt_frameD(1) [OF u(4)] tD by simp
    obtain m where m: "gwrl_src_disable select_ops (Some a) u = Some (set_maxfd m (mod_src (src_flclr GWRL_ENABLED) a u))"
      "srcs_inv (set_maxfd m (mod_src (src_flclr GWRL_ENABLED) a u)) Fs Ts"
      "evts_inv (set_maxfd m (mod_src (src_flclr GWRL_ENABLED) a u)) (e # E) (tl C)"
      using disable_select_ok [OF iu u(3) assms(3)] by blast
    let ?s' = "set_maxfd m (mod_src (src_flclr GWRL_ENABLED) a u)"
    have "badfd_body (Some h) (Some a) s =
        ((gwrl_evt_createp (Some h) (src_callback oh) (src_userdata oh) (src_fd s a) GWRL_RD ?t
         \<bind> (\<lambda>(e, s). gwrl_post_evt e s)) \<bind> gwrl_src_disable select_ops (Some a))"
      using True oa oh bad tD
      by (cases "fcntl_is_valid_fd (src_fd s a) s") (simp add: badfd_body_def split_def)
    then have "badfd_body (Some h) (Some a) s = Some ?s'" using u(1) m(1) by simp
    moreover have "\<not> flisset (src_fl ?s' a) GWRL_ENABLED"
      using oa(1) su by (simp add: src_fl_def mod_src_def src_flclr_def flag_simps)
    moreover have "evts ?s' = evts u" by (simp add: set_maxfd_def mod_src_def)
    ultimately show ?thesis
      using True m(2,3) u(2) oh by (intro exI [of _ ?s']) (auto simp: evt_core_def)
  qed
qed

lemma badfd_never:
  assumes "find_badfd_loop src fsrc s = Some s'"
  shows "src = Some h \<Longrightarrow> fsrc = Some h \<or> fsrc = Some b \<Longrightarrow> srcs_inv s (h # b # Fs) Ts \<Longrightarrow>
    evts_inv s E C \<Longrightarrow> False"
proof (induction arbitrary: E C rule: find_badfd_loop.raw_induct [OF _ assms])
  case (1 w src fsrc s s')
  then obtain a where a: "fsrc = Some a" "a \<in> set (h # b # Fs)" by auto
  obtain t E' C' where t: "badfd_body (Some h) (Some a) s = Some t" "srcs_inv t (h # b # Fs) Ts"
    "evts_inv t E' C'"
    using badfd_body_ok [OF 1(5,6) a(2) _ refl, of h] by (auto split: if_splits)
  have "src_nx t h = Some (Some b)" using srcs_invD(2) [OF t(2)] by auto
  then obtain oh where oh: "srcs t h = Some oh" "src_next oh = Some b" by (auto simp: src_nx_iff)
  have "do { s \<leftarrow> badfd_body src (Some a) s; so \<leftarrow> get_src src s; w src (src_next so) s } = Some s'"
    using 1(2) unfolding a(1) by (simp add: badfd_body_def)
  then have "w src (Some b) t = Some s'" using 1(3) t(1) oh by simp
  from 1(1) [OF this 1(3) _ t(2,3)] show False by simp
qed

subsection \<open>Creation\<close>

text \<open>The source of the wake pipe.\<close>

definition wake_src :: "int \<Rightarrow> gwrlsrc" where
  "wake_src fd = \<lparr>src_type = GWRL_SRC_TYPE_FILE, src_tag = 0, src_flags = flset GWRL_RD GWRL_ENABLED,
     src_userdata = None, src_callback = Some Fn_gwrl_wake_activity, src_next = None,
     src_part = File_part \<lparr>file_fd = fd, file_pfd = None, file_pdata = None\<rparr>\<rparr>"

lemma wake_init_ok:
  assumes "0 \<le> ans_ret (answer_at s 0)" "oom s = []"
  obtains t where "gwrl_wake_init ops s = gwrl_src_add ops (Some (brk s)) t"
    "srcs t = (srcs s)(brk s \<mapsto> wake_src (fst (ans_fds (answer_at s 0))))" "brk t = Suc (brk s)"
    "evts t = evts s" "rl t = (rl s)\<lparr>fds := ans_fds (answer_at s 0)\<rparr>"
proof -
  obtain r u where p: "sys_pipe s = (r, u)" by fastforce
  then have u: "r = ans_ret (answer_at s 0)" "rl u = (rl s)\<lparr>fds := ans_fds (answer_at s 0)\<rparr>"
    "srcs u = srcs s" "brk u = brk s" "evts u = evts s" "oom u = []"
    using assms by (auto simp: sys_pipe_def syscall_def Let_def answer_at_def split: if_splits)
  define v where "v = snd (syscall (Sys_nonblock (fst (fds (rl u)))) u)"
  define w where "w = snd (syscall (Sys_nonblock (snd (fds (rl v)))) v)"
  note vD = sys_frameD [OF sys_frame_syscall [of u "Sys_nonblock (fst (fds (rl u)))"], folded v_def]
  note wD = sys_frameD [OF sys_frame_syscall [of v "Sys_nonblock (snd (fds (rl v)))"], folded w_def]
  have c: "gwrl_src_file_create fd GWRL_RD (Some Fn_gwrl_wake_activity) None x =
      Some (Some (brk x), x\<lparr>brk := Suc (brk x), srcs := (srcs x)(brk x \<mapsto> wake_src fd)\<rparr>)"
    if "oom x = []" for fd and x :: "('a, 'b) world_scheme"
    using that by (simp add: gwrl_src_file_create_def calloc_src_def calloc_def zero_src_def zero_file_part_def
        src_flset_def set_file_fd_def wake_src_def)
  let ?t = "w\<lparr>brk := Suc (brk w), srcs := (srcs w)(brk w \<mapsto> wake_src (fst (fds (rl w))))\<rparr>"
  have "\<not> r < 0" using assms(1) u(1) by simp
  then have "gwrl_wake_init ops s = gwrl_src_add ops (Some (brk w)) ?t"
    using c [of w] u(6) vD(8) wD(8)
    by (simp add: gwrl_wake_init_def p pipe_retry.simps [of r] Let_def flip: v_def w_def)
  with u vD wD show ?thesis by (intro that [of ?t]) simp_all
qed

subsection \<open>Properties\<close>

text \<open>
  C24: with the select backend, adding a file source whose descriptor is in range and not
  registered yet, removing one (with or without its predecessor given), and enabling or
  disabling one always return, keep the lists consistent, and leave the three descriptor sets
  exactly those of the registered sources, with \<^verbatim>\<open>maxfd\<close> not below any enabled one's descriptor.
\<close>
theorem select_sources_tracked:
  assumes "srcs_inv s (xs @ a # ys) Ts" "select_tracks s (set (xs @ a # ys))"
    and "file_src s b" "b \<notin> set (xs @ a # ys)" "src_nx s b = Some None"
    and "select_fd_ok (src_fd s b)" "src_fd s b \<notin> src_fd s ` set (xs @ a # ys)"
    and "prev = None \<or> xs \<noteq> [] \<and> prev = Some (last xs)"
  shows "(\<exists>s'. gwrl_src_add select_ops (Some b) s = Some s' \<and> srcs_inv s' (b # xs @ a # ys) Ts \<and>
      select_tracks s' (set (b # xs @ a # ys))) \<and>
    (\<exists>s'. gwrl_src_del select_ops (Some a) prev freesrc s = Some s' \<and> srcs_inv s' (xs @ ys) Ts \<and>
      select_tracks s' (set (xs @ ys)) \<and> (srcs s' a = None \<longleftrightarrow> freesrc)) \<and>
    (\<exists>s'. gwrl_src_enable select_ops (Some a) s = Some s' \<and> srcs_inv s' (xs @ a # ys) Ts \<and>
      select_tracks s' (set (xs @ a # ys))) \<and>
    (\<exists>s'. gwrl_src_disable select_ops (Some a) s = Some s' \<and> srcs_inv s' (xs @ a # ys) Ts \<and>
      select_tracks s' (set (xs @ a # ys)))"
proof -
  have a: "a \<in> set (xs @ a # ys)" by simp
  have b: "\<exists>ob. srcs s b = Some ob \<and> src_next ob = None" using assms(5) by (simp add: src_nx_iff)
  show ?thesis
    using sel.add_file [OF assms(1,2,3,4) b assms(6,7)] sel.del_file [OF assms(1,2,8), of freesrc]
      sel.enable_file [OF assms(1,2) a] sel.disable_file [OF assms(1,2) a]
    by blast
qed

text \<open>
  C18: gathering calls \<^verbatim>\<open>select\<close> once, with the tracked sets and the reactor's timeout. When it
  reports descriptors, one event is posted for each enabled source with a reported
  descriptor, in list order: with that source, its callback, user data and descriptor, and
  the flags that say what is ready; disabled sources get none and older events stay as they
  are. On a timeout, \<^verbatim>\<open>EINTR\<close> or \<^verbatim>\<open>EAGAIN\<close> nothing is posted.
\<close>
theorem select_gather_posts:
  assumes "srcs_inv s Fs Ts" "select_tracks s (set Fs)" "evts_inv s E C"
  shows "(0 < ans_ret (answer_at s 0) \<longrightarrow>
      (\<exists>s' N C'. gwrl_bkd_gather_select s = Some s' \<and> evt_frame (polled s) s' \<and> evts_inv s' (rev N @ E) C' \<and>
        map (\<lambda>e. map_option evt_core (evts s' e)) N =
          map (ready_evt s (ans_ready (answer_at s 0))) (filter (ready s (ans_ready (answer_at s 0))) Fs) \<and>
        (\<forall>e \<in> set E. evts s' e = evts s e))) \<and>
    (ans_ret (answer_at s 0) = 0 \<or>
       ans_ret (answer_at s 0) < 0 \<and> ans_errno (answer_at s 0) \<in> {EINTR, EAGAIN} \<longrightarrow>
      gwrl_bkd_gather_select s = Some (polled s))"
proof (intro conjI impI)
  note i = srcs_invD [OF assms(1)]
  let ?x = "ans_ready (answer_at s 0)"
  assume r: "0 < ans_ret (answer_at s 0)"
  have v: "ready (polled s) ?x = ready s ?x" "ready_evt (polled s) ?x = ready_evt s ?x"
    by (simp_all add: srcs_views fun_eq_iff)
  have "chain (src_nx (polled s)) (sources (rl s) ! 0) Fs" using i(2) by (simp add: src_nx_srcs)
  moreover have "\<forall>a \<in> set Fs. file_src (polled s) a \<and> select_fd_ok (src_fd (polled s) a)"
    using assms(2) srcs_views(1,3) [of "polled s" s] by (simp add: select_tracks_def)
  ultimately obtain s' N C' where "post_ready_loop ?x (sources (rl s) ! 0) (polled s) = Some s'"
    "evt_frame (polled s) s'" "evts_inv s' (rev N @ E) C'"
    "map (\<lambda>e. map_option evt_core (evts s' e)) N = map (ready_evt s ?x) (filter (ready s ?x) Fs)"
    "\<forall>e \<in> set E. evts s' e = evts (polled s) e"
    using post_ready_loop_ok [OF _ _ polled_inv(2) [OF assms(3)], of "sources (rl s) ! 0" Fs ?x]
    unfolding v by blast
  then show "\<exists>s' N C'. gwrl_bkd_gather_select s = Some s' \<and> evt_frame (polled s) s' \<and> evts_inv s' (rev N @ E) C' \<and>
      map (\<lambda>e. map_option evt_core (evts s' e)) N = map (ready_evt s ?x) (filter (ready s ?x) Fs) \<and>
      (\<forall>e \<in> set E. evts s' e = evts s e)"
    using gather_select_ready [OF r] i(1) by (intro exI [of _ s'] exI [of _ N] exI [of _ C']) simp
qed (rule gather_select_idle)

text \<open>
  when \<^verbatim>\<open>select\<close> fails with \<^verbatim>\<open>EBADF\<close>, gathering never returns if two or more file sources
  are registered, whatever the later system calls answer. With exactly one source it
  returns, and when \<^verbatim>\<open>fcntl\<close> finds that source's descriptor bad, it has posted an event
  for it and disabled it.
\<close>
theorem select_badfd_search:
  assumes "srcs_inv s Fs Ts" "evts_inv s E C"
    and "ans_ret (answer_at s 0) < 0" "ans_errno (answer_at s 0) = EBADF"
    and "bad \<longleftrightarrow> ans_ret (answer_at s 1) = -1 \<and> ans_errno (answer_at s 1) = EBADF"
  shows "(2 \<le> length Fs \<longrightarrow> gwrl_bkd_gather_select s = None) \<and>
    (\<forall>a. Fs = [a] \<longrightarrow> (\<exists>s'. gwrl_bkd_gather_select s = Some s' \<and> srcs_inv s' Fs Ts \<and>
      (if bad then \<exists>e C'. evts_inv s' (e # E) C' \<and> \<not> flisset (src_fl s' a) GWRL_ENABLED \<and>
           map_option evt_core (evts s' e) =
             map_option (\<lambda>o1. new_evt (Some a) (src_callback o1) (src_userdata o1) (src_fd s a) GWRL_RD None) (srcs s a)
       else evts_inv s' E C \<and> srcs s' = srcs s)))"
proof -
  note i = srcs_invD [OF assms(1)]
  note ip = polled_inv(1) [OF assms(1)] and ep = polled_inv(2) [OF assms(2)]
  have g: "gwrl_bkd_gather_select s = find_badfd_loop (sources (rl s) ! 0) (sources (rl s) ! 0) (polled s)"
    using gather_select_badf [OF assms(3,4)] i(1)
    by (simp add: gwrl_src_file_find_badfd_post_evt_def nth_opt_def src_type_defs)
  have "gwrl_bkd_gather_select s = None" if two: "2 \<le> length Fs"
  proof -
    obtain h b R where Fs: "Fs = h # b # R" using two by (cases Fs; cases "tl Fs") auto
    then have "sources (rl s) ! 0 = Some h" using i(2) by simp
    then show ?thesis
      using badfd_never [of "Some h" "Some h" "polled s" _ h b R Ts E C] ip ep Fs g
      by (cases "find_badfd_loop (Some h) (Some h) (polled s)") auto
  qed
  moreover have "\<exists>s'. gwrl_bkd_gather_select s = Some s' \<and> srcs_inv s' Fs Ts \<and>
      (if bad then \<exists>e C'. evts_inv s' (e # E) C' \<and> \<not> flisset (src_fl s' a) GWRL_ENABLED \<and>
           map_option evt_core (evts s' e) =
             map_option (\<lambda>o1. new_evt (Some a) (src_callback o1) (src_userdata o1) (src_fd s a) GWRL_RD None) (srcs s a)
       else evts_inv s' E C \<and> srcs s' = srcs s)" if Fs: "Fs = [a]" for a
  proof -
    have h: "sources (rl s) ! 0 = Some a" using i(2) Fs by simp
    have "bad \<longleftrightarrow> ans_ret (answer_at (polled s) 0) = -1 \<and> ans_errno (answer_at (polled s) 0) = EBADF"
      using assms(5) by (simp add: answer_at_def polled_def Let_def)
    from badfd_body_ok [OF ip ep _ _ this, of a a] obtain s' where
      s': "badfd_body (Some a) (Some a) (polled s) = Some s'" "srcs_inv s' Fs Ts"
      "if bad then \<exists>e C'. evts_inv s' (e # E) C' \<and> \<not> flisset (src_fl s' a) GWRL_ENABLED \<and>
           map_option evt_core (evts s' e) = map_option (\<lambda>o1. new_evt (Some a) (src_callback o1) (src_userdata o1)
             (src_fd s a) GWRL_RD None) (srcs s a)
       else evts_inv s' E C \<and> srcs s' = srcs s"
      using Fs srcs_views(1) [of "polled s" s a] by (cases bad) auto
    have "src_nx s' a = Some None" using srcs_invD(2) [OF s'(2)] Fs by auto
    then have "gwrl_bkd_gather_select s = Some s'"
      unfolding g h find_badfd_loop_body using s'(1) by (auto simp: src_nx_iff find_badfd_loop.simps [of _ None])
    with s'(2,3) show ?thesis by blast
  qed
  ultimately show ?thesis by blast
qed

text \<open>
  creating a reactor on the select backend, when memory and the pipe are there and the
  pipe's read end is in range, gives a reactor without events, timers or gather functions, with
  the wake source as its only file source and the descriptor sets to match.
\<close>
theorem create_select_ready:
  assumes "fresh_ok s" "oom s = []" "0 \<le> ans_ret (answer_at s 0)"
    and "select_fd_ok (fst (ans_fds (answer_at s 0)))"
  shows "\<exists>s' a. gwrl_create gwrl_bkd_init_select select_ops b0 s = Some (True, s') \<and>
    srcs_inv s' [a] [] \<and> select_tracks s' {a} \<and> evts_inv s' [] [] \<and>
    map_option src_nopfd (srcs s' a) = Some (wake_src (fst (ans_fds (answer_at s 0)))) \<and>
    fds (rl s') = ans_fds (answer_at s 0) \<and> options (rl s') = GWRL_DEFAULT_OPTIONS \<and>
    gatherfncs (rl s') = None"
proof -
  let ?b = "\<lparr>maxfd = -1, src_sets = no_fds\<rparr>" and ?fd = "fst (ans_fds (answer_at s 0))"
  let ?s1 = "s\<lparr>brk := Suc (Suc (brk s)), rl := zero_gwrl ?b\<rparr>"
  have c: "gwrl_create gwrl_bkd_init_select select_ops b0 s = do { s \<leftarrow> gwrl_wake_init select_ops ?s1; Some (True, s) }"
    using assms(2)
    by (simp add: gwrl_create_def gwrl_bkd_init_select_def calloc_def GWRL_DEFAULT_OPTIONS_def zero_gwrl_def)
  have an: "answer_at ?s1 0 = answer_at s 0" by (simp add: answer_at_def)
  obtain t where t: "gwrl_wake_init select_ops ?s1 = gwrl_src_add select_ops (Some (brk ?s1)) t"
    "srcs t = (srcs s)(brk ?s1 \<mapsto> wake_src ?fd)" "brk t = Suc (brk ?s1)" "evts t = evts s"
    "rl t = (zero_gwrl ?b)\<lparr>fds := ans_fds (answer_at s 0)\<rparr>"
    by (rule wake_init_ok [of ?s1 select_ops]) (use assms(2,3) an in simp_all)
  let ?a = "brk ?s1"
  have fr: "fresh_ok t" using assms(1) t(2-4) by (auto simp: fresh_ok_def)
  have it: "srcs_inv t [] []"
    using fr t(5) by (simp add: srcs_inv_def zero_gwrl_def src_type_defs)
  have et: "evts_inv t [] []" using fr t(5) by (simp add: evts_inv_def cache_ok_def zero_gwrl_def)
  have fa: "file_src t ?a" "src_fd t ?a = ?fd" using t(2)
    by (simp_all add: file_src_iff src_fd_def wake_src_def as_file_def src_type_defs)
  have tt: "select_tracks t (set [])"
    using t(5) by (simp add: select_tracks_def wanted_def zero_gwrl_def no_fds_def FD_SETSIZE_def)
  obtain s' where s': "gwrl_src_add select_ops (Some ?a) t = Some s'" "bkd_frame (pushed 0 ?a t) s'"
    "srcs_inv s' [?a] []" "select_tracks s' {?a}"
    using sel.add_file [OF it tt fa(1)] assms(4) fa(2) t(2) by (auto simp: wake_src_def)
  have "srcs (pushed 0 ?a t) ?a = Some (wake_src ?fd)"
    using t(2,5) by (simp add: pushed_def set_next_def zero_gwrl_def wake_src_def)
  then have sa: "map_option src_nopfd (srcs s' ?a) = Some (wake_src ?fd)"
    using s'(2) by (simp add: bkd_frame_def wake_src_def src_nopfd_def)
  note f = bkd_frameD [OF s'(2)]
  have e: "evts_inv s' [] []"
    by (rule evts_inv_cong [OF _ _ _ _ _ et]) (use f srcs_invD(4) [OF s'(3)] in \<open>simp_all add: pushed_def\<close>)
  have "rl s' = (rl (pushed 0 ?a t))\<lparr>backend := backend (rl s')\<rparr>"
    by (subst s'(2) [unfolded bkd_frame_def, THEN conjunct1]) simp
  then have "fds (rl s') = fds (rl (pushed 0 ?a t)) \<and> gatherfncs (rl s') = gatherfncs (rl (pushed 0 ?a t))"
    by (metis gwrl.select_convs(3,12) gwrl.surjective gwrl.update_convs(8))
  then have "fds (rl s') = ans_fds (answer_at s 0)" "gatherfncs (rl s') = None"
    using t(5) by (simp_all add: pushed_def zero_gwrl_def)
  moreover have "options (rl s') = GWRL_DEFAULT_OPTIONS" using f(6) t(5) by (simp add: pushed_def zero_gwrl_def)
  ultimately show ?thesis
    using c t(1) s'(1,3,4) sa e by (intro exI [of _ s'] exI [of _ ?a]) simp
qed

subsection \<open>Instances\<close>

text \<open>
  Two registered sources, on descriptor 3 for reading and on 5 for writing, and one that is not
  registered, on 7; \<^verbatim>\<open>select\<close> reports both descriptors.
\<close>

definition file_src_on :: "int \<Rightarrow> flags8 \<Rightarrow> ptr \<Rightarrow> gwrlsrc" where
  "file_src_on fd fl nxt =
     \<lparr>src_type = GWRL_SRC_TYPE_FILE, src_tag = 0, src_flags = fl, src_userdata = None,
      src_callback = Some (Fn_user 1), src_next = nxt,
      src_part = File_part \<lparr>file_fd = fd, file_pfd = None, file_pdata = None\<rparr>\<rparr>"

definition select_world :: "gwrlbkd_select world" where
  "select_world = (blank_world undefined)\<lparr>
     srcs := [11 \<mapsto> file_src_on 3 (GWRL_ENABLED OR GWRL_RD) (Some 12),
              12 \<mapsto> file_src_on 5 (GWRL_ENABLED OR GWRL_WR) None,
              13 \<mapsto> file_src_on 7 GWRL_RD None],
     brk := 14,
     rl := (zero_gwrl \<lparr>maxfd = 5, src_sets = (\<lambda>fd. fd = 3, \<lambda>fd. fd = 5, \<lambda>fd. fd = 3 \<or> fd = 5)\<rparr>)
       \<lparr>sources := [Some 11, None]\<rparr>,
     answers := (\<lambda>n. (ok_answer 2)\<lparr>ans_ready := (\<lambda>fd. fd = 3, \<lambda>fd. fd = 5, \<lambda>_. False)\<rparr>)\<rparr>"

lemma select_world_srcs:
  "src_fd select_world 11 = 3" "src_fd select_world 12 = 5" "src_fd select_world 13 = 7"
  "src_fl select_world 11 = GWRL_ENABLED OR GWRL_RD" "src_fl select_world 12 = GWRL_ENABLED OR GWRL_WR"
  "file_src select_world 11" "file_src select_world 12" "file_src select_world 13"
  by (simp_all add: src_fd_def src_fl_def file_src_iff select_world_def file_src_on_def as_file_def src_type_defs)

lemma select_world_ok:
  "srcs_inv select_world [11, 12] []" "select_tracks select_world {11, 12}" "evts_inv select_world [] []"
proof -
  show "srcs_inv select_world [11, 12] []"
    using select_world_srcs
    by (auto simp: srcs_inv_def src_type_defs src_nx_iff fresh_ok_def)
      (simp_all add: select_world_def file_src_on_def blank_world_def zero_gwrl_def)
  have "wanted select_world {11, 12} = (\<lambda>fd. fd = 3, \<lambda>fd. fd = 5, \<lambda>fd. fd = 3 \<or> fd = 5)"
    by (auto simp: wanted_def select_world_srcs fun_eq_iff flag_simps bit_or_iff)
  then show "select_tracks select_world {11, 12}"
    using select_world_srcs
    by (simp add: select_tracks_def select_fd_ok_def FD_SETSIZE_def)
       (simp add: select_world_def zero_gwrl_def)
  show "evts_inv select_world [] []"
    by (simp add: evts_inv_def cache_ok_def fresh_ok_def select_world_def blank_world_def zero_gwrl_def)
qed

theorem select_sources_tracked_witness:
  "\<exists>s'. gwrl_src_del select_ops (Some 11) None True select_world = Some s' \<and> srcs_inv s' [12] [] \<and>
    select_tracks s' {12} \<and> srcs s' 11 = None"
  using select_sources_tracked [of select_world "[]" 11 "[12]" "[]" 13 None True] select_world_ok select_world_srcs
  by (simp add: select_fd_ok_def FD_SETSIZE_def src_nx_def select_world_def file_src_on_def)

theorem select_gather_posts_witness:
  "\<exists>s' N C'. gwrl_bkd_gather_select select_world = Some s' \<and> evts_inv s' (rev N) C' \<and>
    map (\<lambda>e. map_option evt_core (evts s' e)) N =
      [Some (new_evt (Some 11) (Some (Fn_user 1)) None 3 GWRL_RD None),
       Some (new_evt (Some 12) (Some (Fn_user 1)) None 5 GWRL_WR None)]"
proof -
  let ?x = "(\<lambda>fd. fd = 3, \<lambda>fd. fd = 5, \<lambda>_. False) :: fd_sets"
  have a: "answer_at select_world 0 = (ok_answer 2)\<lparr>ans_ready := ?x\<rparr>"
    by (simp add: answer_at_def select_world_def)
  have "filter (ready select_world ?x) [11, 12] = [11, 12]"
    by (simp add: ready_def select_world_srcs ready_flags_def flag_simps bit_or_iff) (simp add: flag_defs)
  moreover have "ready_evt select_world ?x 11 = Some (new_evt (Some 11) (Some (Fn_user 1)) None 3 GWRL_RD None)"
    "ready_evt select_world ?x 12 = Some (new_evt (Some 12) (Some (Fn_user 1)) None 5 GWRL_WR None)"
    by (simp_all add: ready_evt_def select_world_srcs ready_flags_def) (simp_all add: select_world_def file_src_on_def)
  moreover obtain s' N C' where "gwrl_bkd_gather_select select_world = Some s'" "evts_inv s' (rev N) C'"
    "map (\<lambda>e. map_option evt_core (evts s' e)) N =
      map (ready_evt select_world ?x) (filter (ready select_world ?x) [11, 12])"
    using select_gather_posts [OF select_world_ok(1) _ select_world_ok(3)] select_world_ok(2)
    unfolding a by (auto simp: ok_answer_def)
  ultimately show ?thesis by - (rule exI [of _ s'], rule exI [of _ N], rule exI [of _ C'], simp)
qed

theorem select_badfd_search_witness:
  "gwrl_bkd_gather_select (select_world\<lparr>answers := (\<lambda>_. fail_answer EBADF)\<rparr>) = None"
proof -
  let ?s = "select_world\<lparr>answers := (\<lambda>_. fail_answer EBADF)\<rparr>"
  have i: "srcs_inv ?s [11, 12] []" by (rule srcs_inv_cong [OF _ _ _ select_world_ok(1)])
    (use srcs_invD(4) [OF select_world_ok(1)] in \<open>simp_all add: fresh_ok_def\<close>)
  have e: "evts_inv ?s [] []" by (rule evts_inv_cong [OF _ _ _ _ _ select_world_ok(3)])
    (use srcs_invD(4) [OF select_world_ok(1)] in \<open>simp_all add: fresh_ok_def\<close>)
  show ?thesis
    using select_badfd_search [OF i e _ _ refl] by (simp add: answer_at_def fail_answer_def)
qed

theorem create_select_ready_witness:
  "\<forall>b0. \<exists>s' a. gwrl_create gwrl_bkd_init_select select_ops b0
      ((blank_world b0)\<lparr>answers := (\<lambda>n. (ok_answer 0)\<lparr>ans_fds := (3, 4)\<rparr>)\<rparr>) = Some (True, s') \<and>
    srcs_inv s' [a] [] \<and> fds (rl s') = (3, 4)"
proof
  fix b0
  show "\<exists>s' a. gwrl_create gwrl_bkd_init_select select_ops b0
      ((blank_world b0)\<lparr>answers := (\<lambda>n. (ok_answer 0)\<lparr>ans_fds := (3, 4)\<rparr>)\<rparr>) = Some (True, s') \<and>
    srcs_inv s' [a] [] \<and> fds (rl s') = (3, 4)"
    using create_select_ready [of "(blank_world b0)\<lparr>answers := (\<lambda>n. (ok_answer 0)\<lparr>ans_fds := (3, 4)\<rparr>)\<rparr>" b0]
    by (auto simp: answer_at_def ok_answer_def select_fd_ok_def FD_SETSIZE_def fresh_ok_def blank_world_def)
qed

end
