(* ===== verification/Gw_Proactor.thy ===== *)
theory Gw_Proactor
  imports Gw_Select
begin

section \<open>The proactor's data (\<^verbatim>\<open>src/gwrl/proactor.h\<close>, \<^verbatim>\<open>proactor_imp.h\<close>, \<^verbatim>\<open>proactor.c\<close>)\<close>

text \<open>
  The structures of the proactor, their memory, and the operations of \<^verbatim>\<open>proactor.c\<close>: creation,
  registration of sources with proactor data, filters, callbacks and buffers. The state of the
  reactor is extended by one heap per structure. What user callbacks do is an argument;
  \<^verbatim>\<open>GWPR_FILTERS_MAX\<close>, which the build configuration sets, is the field \<open>filters_max\<close>.
\<close>

subsection \<open>Structures\<close>

datatype gwpr_cb_id = gwpr_error_cb_id | gwpr_accept_cb_id | gwpr_connect_cb_id
  | gwpr_closed_cb_id | gwpr_did_read_cb_id | gwpr_did_write_cb_id

datatype gwpr_io_op_id = gwpr_read_op_id | gwpr_recv_op_id | gwpr_recvfrom_op_id
  | gwpr_write_op_id | gwpr_send_op_id | gwpr_sendto_op_id

datatype gwpr_filter_id = gwpr_rdfilter_id | gwpr_wrfilter_id

record gwpr_options =
  gwpr_max_accept :: int
  gwpr_wrqueue_cache_max :: int
  gwpr_iocp_ovlp_cache_max :: int
  gwpr_synchronous_write_max_bytes :: int

text \<open>A buffer with the memory it points to; an address \<^verbatim>\<open>sockaddr_storage\<close> is a list of bytes.\<close>

record gwprbuf =
  buf_tag :: int
  buf_len :: nat
  bufsize :: nat
  buf_data :: "byte list"

record gwpr_io_info =
  io_op :: gwpr_io_op_id
  io_peer :: "byte list"
  io_peerlen :: nat
  io_buf :: ptr
  io_src :: ptr
  io_peersrc :: ptr

record gwpr_error_info =
  err_errnm :: int
  err_fnc :: string
  err_op :: gwpr_io_op_id
  err_buf :: ptr
  err_src :: ptr

record gwprwrq =
  wrq_peerlen :: nat
  wrop :: gwpr_io_op_id
  wrq_peer :: "byte list"
  wrq_buf :: ptr
  wrq_next :: ptr

record gwprdata =
  rdbufsize :: nat
  rdop :: gwpr_io_op_id
  wrq :: ptr
  wrqlast :: ptr
  rdfilters :: "fnptr option list option"
  wrfilters :: "fnptr option list option"
  acceptcb :: "fnptr option"
  connectcb :: "fnptr option"
  closedcb :: "fnptr option"
  didreadcb :: "fnptr option"
  didwritecb :: "fnptr option"
  errorcb :: "fnptr option"

record gwpr =
  nwrqcache :: "64 word"
  pr_options :: gwpr_options
  pr_bufctl :: ptr
  wrqcache :: ptr

record 'b pworld = "'b world" +
  pr_obj :: gwpr
  wrqs :: "addr \<rightharpoonup> gwprwrq"
  bufs :: "addr \<rightharpoonup> gwprbuf"
  pdatas :: "addr \<rightharpoonup> gwprdata"
  einfos :: "addr \<rightharpoonup> gwpr_error_info"
  filters_max :: nat

definition GWPR_DEFAULT_OPTIONS :: gwpr_options where
  "GWPR_DEFAULT_OPTIONS = \<lparr>gwpr_max_accept = 256, gwpr_wrqueue_cache_max = 256,
     gwpr_iocp_ovlp_cache_max = 256, gwpr_synchronous_write_max_bytes = 512\<rparr>"

definition zero_wrq :: gwprwrq where
  "zero_wrq = \<lparr>wrq_peerlen = 0, wrop = gwpr_read_op_id, wrq_peer = [], wrq_buf = None, wrq_next = None\<rparr>"

definition zero_pdata :: gwprdata where
  "zero_pdata = \<lparr>rdbufsize = 0, rdop = gwpr_read_op_id, wrq = None, wrqlast = None, rdfilters = None,
     wrfilters = None, acceptcb = None, connectcb = None, closedcb = None, didreadcb = None,
     didwritecb = None, errorcb = None\<rparr>"

definition zero_io_info :: gwpr_io_info where
  "zero_io_info = \<lparr>io_op = gwpr_read_op_id, io_peer = [], io_peerlen = 0, io_buf = None, io_src = None,
     io_peersrc = None\<rparr>"

definition zero_error_info :: gwpr_error_info where
  "zero_error_info = \<lparr>err_errnm = 0, err_fnc = [], err_op = gwpr_read_op_id, err_buf = None, err_src = None\<rparr>"

definition zero_gwpr :: gwpr where
  "zero_gwpr = \<lparr>nwrqcache = 0, pr_options = \<lparr>gwpr_max_accept = 0, gwpr_wrqueue_cache_max = 0,
     gwpr_iocp_ovlp_cache_max = 0, gwpr_synchronous_write_max_bytes = 0\<rparr>, pr_bufctl = None, wrqcache = None\<rparr>"

subsection \<open>Memory\<close>

definition get_wrq :: "ptr \<Rightarrow> ('b, 'z) pworld_scheme \<Rightarrow> gwprwrq option" where
  "get_wrq p s = Option.bind p (wrqs s)"

definition upd_wrq :: "(gwprwrq \<Rightarrow> gwprwrq) \<Rightarrow> ptr \<Rightarrow> ('b, 'z) pworld_scheme
    \<Rightarrow> ('b, 'z) pworld_scheme option" where
  "upd_wrq f p s = do { a \<leftarrow> p; e \<leftarrow> wrqs s a; Some (s\<lparr>wrqs := (wrqs s)(a \<mapsto> f e)\<rparr>) }"

definition get_buf :: "ptr \<Rightarrow> ('b, 'z) pworld_scheme \<Rightarrow> gwprbuf option" where
  "get_buf p s = Option.bind p (bufs s)"

definition upd_buf :: "(gwprbuf \<Rightarrow> gwprbuf) \<Rightarrow> ptr \<Rightarrow> ('b, 'z) pworld_scheme
    \<Rightarrow> ('b, 'z) pworld_scheme option" where
  "upd_buf f p s = do { a \<leftarrow> p; e \<leftarrow> bufs s a; Some (s\<lparr>bufs := (bufs s)(a \<mapsto> f e)\<rparr>) }"

text \<open>\<^verbatim>\<open>fsrc->pdata\<close>, and the object it points to.\<close>

definition src_pdata :: "ptr \<Rightarrow> ('b, 'z) pworld_scheme \<Rightarrow> ptr option" where
  "src_pdata src s = do { o1 \<leftarrow> get_src src s; f \<leftarrow> as_file o1; Some (file_pdata f) }"

definition get_pdata :: "ptr \<Rightarrow> ('b, 'z) pworld_scheme \<Rightarrow> gwprdata option" where
  "get_pdata p s = Option.bind p (pdatas s)"

definition upd_pdata :: "(gwprdata \<Rightarrow> gwprdata) \<Rightarrow> ptr \<Rightarrow> ('b, 'z) pworld_scheme
    \<Rightarrow> ('b, 'z) pworld_scheme option" where
  "upd_pdata f p s = do { a \<leftarrow> p; e \<leftarrow> pdatas s a; Some (s\<lparr>pdatas := (pdatas s)(a \<mapsto> f e)\<rparr>) }"

definition free_pdata :: "ptr \<Rightarrow> ('b, 'z) pworld_scheme \<Rightarrow> ('b, 'z) pworld_scheme option" where
  "free_pdata p s = (case p of None \<Rightarrow> Some s
     | Some a \<Rightarrow> do { e \<leftarrow> pdatas s a; Some (s\<lparr>pdatas := (pdatas s)(a := None)\<rparr>) })"

definition set_file_pdata :: "ptr \<Rightarrow> gwrlsrc \<Rightarrow> gwrlsrc" where
  "set_file_pdata p o1 = (case src_part o1 of
     File_part f \<Rightarrow> o1\<lparr>src_part := File_part (f\<lparr>file_pdata := p\<rparr>)\<rparr> | Time_part _ \<Rightarrow> o1)"

subsection \<open>Buffers\<close>

definition new_buf :: "nat \<Rightarrow> gwprbuf" where
  "new_buf sz = \<lparr>buf_tag = 0, buf_len = 0, bufsize = sz, buf_data = replicate sz 0\<rparr>"

definition gwpr_buf_get :: "nat \<Rightarrow> ('b, 'z) pworld_scheme \<Rightarrow> (ptr \<times> ('b, 'z) pworld_scheme) option" where
  "gwpr_buf_get sz s =
     (case calloc s of
        (None, s) \<Rightarrow> Some (None, gwerr ''Erl3F'' s)
      | (Some a, s) \<Rightarrow>
          (case calloc s of
             (None, s) \<Rightarrow> Some (None, gwerr ''RF4Hk'' s)
           | (Some _, s) \<Rightarrow> Some (Some a, s\<lparr>bufs := (bufs s)(a \<mapsto> new_buf sz)\<rparr>)))"

definition gwpr_buf_getp :: "nat \<Rightarrow> ('b, 'z) pworld_scheme \<Rightarrow> (ptr \<times> ('b, 'z) pworld_scheme) option" where
  "gwpr_buf_getp sz s = do {
     (a, s) \<leftarrow> calloc_msg ''Erl3F'' s;
     (_, s) \<leftarrow> calloc_msg ''RF4Hk'' s;
     Some (Some a, s\<lparr>bufs := (bufs s)(a \<mapsto> new_buf sz)\<rparr>) }"

definition gwpr_buf_get_tagged ::
    "nat \<Rightarrow> int \<Rightarrow> ('b, 'z) pworld_scheme \<Rightarrow> (ptr \<times> ('b, 'z) pworld_scheme) option" where
  "gwpr_buf_get_tagged sz tag s = do {
     (buf, s) \<leftarrow> gwpr_buf_get sz s;
     s \<leftarrow> (if buf \<noteq> None then upd_buf (\<lambda>b. b\<lparr>buf_tag := tag\<rparr>) buf s else Some s);
     Some (buf, s) }"

text \<open>\<^verbatim>\<open>memcpy\<close> into a buffer; past its end, or from less data than is copied, is undefined.\<close>

definition buf_copy :: "byte list \<Rightarrow> nat \<Rightarrow> ptr \<Rightarrow> ('b, 'z) pworld_scheme \<Rightarrow> ('b, 'z) pworld_scheme option" where
  "buf_copy data n p s = do {
     b \<leftarrow> get_buf p s;
     if n \<le> length data \<and> n \<le> length (buf_data b)
     then upd_buf (\<lambda>b. b\<lparr>buf_data := take n data @ drop n (buf_data b)\<rparr>) p s else None }"

definition gwpr_buf_get_with_data ::
    "nat \<Rightarrow> byte list \<Rightarrow> nat \<Rightarrow> ('b, 'z) pworld_scheme \<Rightarrow> (ptr \<times> ('b, 'z) pworld_scheme) option" where
  "gwpr_buf_get_with_data sz data datasize s =
     (if datasize > sz then Some (None, s)
      else do {
        (buf, s) \<leftarrow> gwpr_buf_getp sz s;
        s \<leftarrow> buf_copy data datasize buf s;
        s \<leftarrow> upd_buf (\<lambda>b. b\<lparr>buf_len := datasize\<rparr>) buf s;
        Some (buf, s) })"

definition gwpr_buf_free :: "ptr \<Rightarrow> ('b, 'z) pworld_scheme \<Rightarrow> ('b, 'z) pworld_scheme option" where
  "gwpr_buf_free p s = (case p of None \<Rightarrow> Some s
     | Some a \<Rightarrow> do { b \<leftarrow> bufs s a; Some (s\<lparr>bufs := (bufs s)(a := None)\<rparr>) })"

text \<open>The release for a buffer control block, which is not used; unlike the other it reads a null pointer.\<close>

definition gwprbuf_free :: "ptr \<Rightarrow> ('b, 'z) pworld_scheme \<Rightarrow> ('b, 'z) pworld_scheme option" where
  "gwprbuf_free p s = do { a \<leftarrow> p; b \<leftarrow> bufs s a; Some (s\<lparr>bufs := (bufs s)(a := None)\<rparr>) }"

subsection \<open>Creation and sources\<close>

definition gwpr_set_options :: "gwpr_options \<Rightarrow> ('b, 'z) pworld_scheme \<Rightarrow> ('b, 'z) pworld_scheme" where
  "gwpr_set_options opts s = s\<lparr>pr_obj := (pr_obj s)\<lparr>pr_options := opts\<rparr>\<rparr>"

definition gwprbufctl_create :: "('b, 'z) pworld_scheme \<Rightarrow> ptr \<times> ('b, 'z) pworld_scheme" where
  "gwprbufctl_create s =
     (case calloc s of (None, s) \<Rightarrow> (None, gwerr ''p4P0R'' s) | (Some a, s) \<Rightarrow> (Some a, s))"

definition gwpr_create :: "('b, 'z) pworld_scheme \<Rightarrow> ptr \<times> ('b, 'z) pworld_scheme" where
  "gwpr_create s =
     (case calloc s of
        (None, s) \<Rightarrow> (None, gwerr ''Dle3d'' s)
      | (Some a, s) \<Rightarrow>
          (case gwprbufctl_create s of
             (None, s) \<Rightarrow> (None, s)
           | (Some c, s) \<Rightarrow>
               let s = gwpr_set_options GWPR_DEFAULT_OPTIONS (s\<lparr>pr_obj := zero_gwpr\<lparr>pr_bufctl := Some c\<rparr>\<rparr>)
               in (Some a, s\<lparr>rl := (rl s)\<lparr>rl_pr := Some a\<rparr>\<rparr>)))"

text \<open>When the second table cannot be allocated, \<^verbatim>\<open>data->rdfilters\<close> is read after \<^verbatim>\<open>data\<close> was freed.\<close>

definition gwprdata_create :: "('b, 'z) pworld_scheme \<Rightarrow> (ptr \<times> ('b, 'z) pworld_scheme) option" where
  "gwprdata_create s =
     (case calloc s of
        (None, s) \<Rightarrow> Some (None, gwerr ''Do4Kd'' s)
      | (Some a, s) \<Rightarrow>
          let d = zero_pdata\<lparr>rdbufsize := 512, rdfilters := None, wrfilters := None\<rparr>;
              t = replicate (filters_max s) None
          in if filters_max s > 0
             then (case calloc s of
                (None, s) \<Rightarrow> Some (None, s)
              | (Some _, s) \<Rightarrow>
                  (case calloc s of
                     (None, s) \<Rightarrow> None
                   | (Some _, s) \<Rightarrow> Some (Some a, s\<lparr>pdatas := (pdatas s)(a \<mapsto>
                       d\<lparr>rdfilters := Some t, wrfilters := Some t\<rparr>)\<rparr>)))
             else Some (Some a, s\<lparr>pdatas := (pdatas s)(a \<mapsto> d)\<rparr>))"

text \<open>What \<^verbatim>\<open>gwpr_src_add\<close> and \<^verbatim>\<open>gwpr_src_add_safely\<close> do before they register the source.\<close>

definition pr_src_init :: "ptr \<Rightarrow> ('b, 'z) pworld_scheme \<Rightarrow> ('b, 'z) pworld_scheme option" where
  "pr_src_init src s = do {
     (data, s) \<leftarrow> create_retry gwprdata_create s;
     o1 \<leftarrow> get_src src s;
     _ \<leftarrow> as_file o1;
     upd_src (\<lambda>o1. set_file_pdata data
       (o1\<lparr>src_flags := GWRL_RD, src_callback := Some Fn_gwpr_src_activity\<rparr>)) src s }"

definition gwpr_src_add ::
    "('b, 'z) pworld_scheme src_ops \<Rightarrow> ptr \<Rightarrow> ('b, 'z) pworld_scheme \<Rightarrow> ('b, 'z) pworld_scheme option" where
  "gwpr_src_add ops src s = do { s \<leftarrow> pr_src_init src s; gwrl_src_add ops src s }"

definition gwpr_src_add_safely :: "ptr \<Rightarrow> ('b, 'z) pworld_scheme \<Rightarrow> ('b, 'z) pworld_scheme option" where
  "gwpr_src_add_safely src s = do { s \<leftarrow> pr_src_init src s; gwrl_src_add_safely src s }"

definition gwpr_set_fd ::
    "('b, 'z) pworld_scheme src_ops \<Rightarrow> int \<Rightarrow> ptr \<Rightarrow> ('b, 'z) pworld_scheme
     \<Rightarrow> (ptr \<times> ('b, 'z) pworld_scheme) option" where
  "gwpr_set_fd ops fd udata s = do {
     (src, s) \<leftarrow> create_retry (gwrl_src_file_create fd 0 None None) s;
     s \<leftarrow> upd_src (\<lambda>o1. o1\<lparr>src_userdata := udata\<rparr>) src s;
     s \<leftarrow> gwpr_src_add ops src s;
     Some (src, s) }"

definition drop_pdata :: "ptr \<Rightarrow> ('b, 'z) pworld_scheme \<Rightarrow> ('b, 'z) pworld_scheme option" where
  "drop_pdata src s = do {
     p \<leftarrow> src_pdata src s;
     if p \<noteq> None then do { s \<leftarrow> free_pdata p s; upd_src (set_file_pdata None) src s } else Some s }"

definition gwpr_src_remove ::
    "('b, 'z) pworld_scheme src_ops \<Rightarrow> ptr \<Rightarrow> ('b, 'z) pworld_scheme \<Rightarrow> ('b, 'z) pworld_scheme option" where
  "gwpr_src_remove ops src s = do { s \<leftarrow> drop_pdata src s; gwrl_src_remove ops src s }"

definition gwpr_src_del ::
    "('b, 'z) pworld_scheme src_ops \<Rightarrow> ptr \<Rightarrow> ('b, 'z) pworld_scheme \<Rightarrow> ('b, 'z) pworld_scheme option" where
  "gwpr_src_del ops src s = do { s \<leftarrow> drop_pdata src s; gwrl_src_del ops src None True s }"

subsection \<open>Filters and callbacks\<close>

text \<open>What the user's functions do, by their pointers.\<close>

record 's pr_callbacks =
  cb_io :: "fnptr \<Rightarrow> gwpr_io_info \<Rightarrow> 's \<Rightarrow> 's option"
  cb_error :: "fnptr \<Rightarrow> gwpr_error_info \<Rightarrow> 's \<Rightarrow> 's option"

text \<open>A call of an IO callback: a null pointer is undefined, \<^verbatim>\<open>io_activity\<close> does nothing.\<close>

definition call_io :: "'s pr_callbacks \<Rightarrow> fnptr option \<Rightarrow> gwpr_io_info \<Rightarrow> 's \<Rightarrow> 's option" where
  "call_io cbs f info s = (case f of None \<Rightarrow> None
     | Some g \<Rightarrow> if g = Fn_io_activity then Some s else cb_io cbs g info s)"

definition call_error :: "'s pr_callbacks \<Rightarrow> fnptr option \<Rightarrow> gwpr_error_info \<Rightarrow> 's \<Rightarrow> 's option" where
  "call_error cbs f info s = (case f of None \<Rightarrow> None | Some g \<Rightarrow> cb_error cbs g info s)"

definition gwpr_filter_add ::
    "ptr \<Rightarrow> gwpr_filter_id \<Rightarrow> fnptr \<Rightarrow> ('b, 'z) pworld_scheme \<Rightarrow> ('b, 'z) pworld_scheme option" where
  "gwpr_filter_add src fid fnc s =
     (if filters_max s = 0 then Some (gwerr ''gwper_filter_add'' s)
      else do {
        p \<leftarrow> src_pdata src s;
        d \<leftarrow> get_pdata p s;
        (added, s) \<leftarrow> (case fid of
           gwpr_rdfilter_id \<Rightarrow> do {
             fs \<leftarrow> rdfilters d;
             (added, fs) \<leftarrow> add_gather_loop (filters_max s) fnc fs;
             s \<leftarrow> upd_pdata (\<lambda>d. d\<lparr>rdfilters := Some fs\<rparr>) p s;
             Some (added, s) }
         | gwpr_wrfilter_id \<Rightarrow> do {
             fs \<leftarrow> wrfilters d;
             (added, fs) \<leftarrow> add_gather_loop (filters_max s) fnc fs;
             s \<leftarrow> upd_pdata (\<lambda>d. d\<lparr>wrfilters := Some fs\<rparr>) p s;
             Some (added, s) });
        Some (if added then s else gwerr ''gwper_filter_add'' s) })"

definition gwpr_filter_reset ::
    "ptr \<Rightarrow> gwpr_filter_id \<Rightarrow> ('b, 'z) pworld_scheme \<Rightarrow> ('b, 'z) pworld_scheme option" where
  "gwpr_filter_reset src fid s =
     (if filters_max s = 0 then Some s
      else do {
        p \<leftarrow> src_pdata src s;
        d \<leftarrow> get_pdata p s;
        let t = Some (replicate (filters_max s) None);
        (case fid of
           gwpr_rdfilter_id \<Rightarrow> if rdfilters d \<noteq> None then upd_pdata (\<lambda>d. d\<lparr>rdfilters := t\<rparr>) p s else Some s
         | gwpr_wrfilter_id \<Rightarrow> if wrfilters d \<noteq> None then upd_pdata (\<lambda>d. d\<lparr>wrfilters := t\<rparr>) p s else Some s) })"

text \<open>The loops of \<^verbatim>\<open>gwpr_filter_call\<close>, with the number of slots left; the table is read anew each time.\<close>

fun filter_loop ::
    "('b, 'z) pworld_scheme pr_callbacks \<Rightarrow> (gwprdata \<Rightarrow> fnptr option list option) \<Rightarrow> ptr \<Rightarrow> gwpr_io_info
     \<Rightarrow> nat \<Rightarrow> nat \<Rightarrow> ('b, 'z) pworld_scheme \<Rightarrow> ('b, 'z) pworld_scheme option" where
  "filter_loop cbs tab p info 0 i s = Some s"
| "filter_loop cbs tab p info (Suc n) i s = do {
     d \<leftarrow> get_pdata p s;
     fs \<leftarrow> tab d;
     f \<leftarrow> nth_opt fs i;
     (if f = None then Some s
      else do { s \<leftarrow> call_io cbs f info s; filter_loop cbs tab p info n (Suc i) s }) }"

definition gwpr_filter_call ::
    "('b, 'z) pworld_scheme pr_callbacks \<Rightarrow> ptr \<Rightarrow> gwpr_io_info \<Rightarrow> gwpr_filter_id
     \<Rightarrow> ('b, 'z) pworld_scheme \<Rightarrow> ('b, 'z) pworld_scheme option" where
  "gwpr_filter_call cbs src info fid s = do {
     p \<leftarrow> src_pdata src s;
     (case fid of
        gwpr_rdfilter_id \<Rightarrow> do {
          d \<leftarrow> get_pdata p s;
          (case rdfilters d of
             None \<Rightarrow> Some s
           | Some fs \<Rightarrow> do {
               f \<leftarrow> nth_opt fs 0;
               if f \<noteq> None then filter_loop cbs rdfilters p info (filters_max s) 0 s else Some s }) }
      | gwpr_wrfilter_id \<Rightarrow> filter_loop cbs wrfilters p info (filters_max s) 0 s) }"

definition gwpr_set_cb ::
    "ptr \<Rightarrow> gwpr_cb_id \<Rightarrow> fnptr option \<Rightarrow> ('b, 'z) pworld_scheme \<Rightarrow> ('b, 'z) pworld_scheme option" where
  "gwpr_set_cb src cbid cb s = do {
     p \<leftarrow> src_pdata src s;
     upd_pdata (\<lambda>d. case cbid of
        gwpr_error_cb_id \<Rightarrow> d\<lparr>errorcb := cb\<rparr>
      | gwpr_accept_cb_id \<Rightarrow> d\<lparr>acceptcb := cb\<rparr>
      | gwpr_connect_cb_id \<Rightarrow> d\<lparr>connectcb := cb\<rparr>
      | gwpr_closed_cb_id \<Rightarrow> d\<lparr>closedcb := cb\<rparr>
      | gwpr_did_read_cb_id \<Rightarrow> d\<lparr>didreadcb := cb\<rparr>
      | gwpr_did_write_cb_id \<Rightarrow> d\<lparr>didwritecb := cb\<rparr>) p s }"

end
