(* ===== verification/Gw_Wrq.thy ===== *)
theory Gw_Wrq
  imports Gw_Proactor
begin

section \<open>Write requests: cache and queues (\<^verbatim>\<open>src/gwrl/proactor_imp.c\<close>)\<close>

text \<open>
  Write requests (\<^verbatim>\<open>gwprwrq\<close>) are cached like events; each source with proactor data has a queue
  of them, with a pointer to its last entry. \<open>wrq_cache\<close> and \<open>wrq_queue\<close> are the invariants.
\<close>

subsection \<open>The operations\<close>

definition gwprwrq_get :: "('b, 'z) pworld_scheme \<Rightarrow> (ptr \<times> ('b, 'z) pworld_scheme) option" where
  "gwprwrq_get s = do {
     (q, s) \<leftarrow>
       (if wrqcache (pr_obj s) \<noteq> None then do {
          let q = wrqcache (pr_obj s);
          e \<leftarrow> get_wrq q s;
          Some (q, s\<lparr>pr_obj := (pr_obj s)\<lparr>nwrqcache := nwrqcache (pr_obj s) - 1, wrqcache := wrq_next e\<rparr>\<rparr>) }
        else do {
          (a, s) \<leftarrow> calloc_msg ''9DXIL'' s;
          Some (Some a, s\<lparr>wrqs := (wrqs s)(a \<mapsto> zero_wrq)\<rparr>) });
     s \<leftarrow> upd_wrq (\<lambda>e. e\<lparr>wrq_next := None\<rparr>) q s;
     Some (q, s) }"

definition free_wrq :: "ptr \<Rightarrow> ('b, 'z) pworld_scheme \<Rightarrow> ('b, 'z) pworld_scheme option" where
  "free_wrq p s = (case p of None \<Rightarrow> Some s
     | Some a \<Rightarrow> do { e \<leftarrow> wrqs s a; Some (s\<lparr>wrqs := (wrqs s)(a := None)\<rparr>) })"

definition gwprwrq_free :: "ptr \<Rightarrow> ('b, 'z) pworld_scheme \<Rightarrow> ('b, 'z) pworld_scheme option" where
  "gwprwrq_free q s =
     (if nwrqcache (pr_obj s) = word_of_int (gwpr_wrqueue_cache_max (pr_options (pr_obj s)))
      then free_wrq q s
      else do {
        s \<leftarrow> upd_wrq (\<lambda>e. e\<lparr>wrq_next := None, wrq_buf := None\<rparr>) q s;
        s \<leftarrow> (if wrqcache (pr_obj s) \<noteq> None
             then upd_wrq (\<lambda>e. e\<lparr>wrq_next := wrqcache (pr_obj s)\<rparr>) q s else Some s);
        Some (s\<lparr>pr_obj := (pr_obj s)\<lparr>wrqcache := q, nwrqcache := nwrqcache (pr_obj s) + 1\<rparr>\<rparr>) })"

partial_function (option) gwprwrq_free_list_no_cache ::
    "ptr \<Rightarrow> ('b, 'z) pworld_scheme \<Rightarrow> ('b, 'z) pworld_scheme option" where
  [code]: "gwprwrq_free_list_no_cache q s =
     (if q = None then Some s
      else do {
        e \<leftarrow> get_wrq q s;
        s \<leftarrow> (if wrq_buf e \<noteq> None then gwpr_buf_free (wrq_buf e) s else Some s);
        s \<leftarrow> free_wrq q s;
        gwprwrq_free_list_no_cache (wrq_next e) s })"

text \<open>\<^verbatim>\<open>while(q) { tmpqlast = q; q = q->next; }\<close>.\<close>

partial_function (option) wrq_last :: "ptr \<Rightarrow> ptr \<Rightarrow> ('b, 'z) pworld_scheme \<Rightarrow> ptr option" where
  [code]: "wrq_last q last1 s =
     (if q = None then Some last1 else do { e \<leftarrow> get_wrq q s; wrq_last (wrq_next e) q s })"

definition gwprwrq_putback ::
    "ptr \<Rightarrow> ptr \<Rightarrow> ('b, 'z) pworld_scheme \<Rightarrow> ('b, 'z) pworld_scheme option" where
  "gwprwrq_putback src q s = do {
     p \<leftarrow> src_pdata src s;
     d \<leftarrow> get_pdata p s;
     if wrq d = None then upd_pdata (\<lambda>d. d\<lparr>wrq := q\<rparr>) p s
     else do {
       let tmpq = wrq d;
       s \<leftarrow> upd_pdata (\<lambda>d. d\<lparr>wrq := q\<rparr>) p s;
       tmpqlast \<leftarrow> wrq_last q None s;
       s \<leftarrow> (if tmpqlast \<noteq> None then upd_wrq (\<lambda>e. e\<lparr>wrq_next := tmpq\<rparr>) tmpqlast s else Some s);
       tmpqlast \<leftarrow> wrq_last tmpq tmpqlast s;
       if tmpqlast \<noteq> None then do {
         s \<leftarrow> upd_pdata (\<lambda>d. d\<lparr>wrqlast := tmpqlast\<rparr>) p s;
         upd_wrq (\<lambda>e. e\<lparr>wrq_next := None\<rparr>) tmpqlast s }
       else Some s } }"

definition gwprwrq_add :: "ptr \<Rightarrow> ptr \<Rightarrow> ('b, 'z) pworld_scheme \<Rightarrow> ('b, 'z) pworld_scheme option" where
  "gwprwrq_add src q s = do {
     p \<leftarrow> src_pdata src s;
     d \<leftarrow> get_pdata p s;
     if wrq d = None then do {
       s \<leftarrow> upd_pdata (\<lambda>d. d\<lparr>wrq := q\<rparr>) p s;
       upd_wrq (\<lambda>e. e\<lparr>wrq_next := None\<rparr>) q s }
     else if wrqlast d = None then do {
       s \<leftarrow> upd_pdata (\<lambda>d. d\<lparr>wrqlast := q\<rparr>) p s;
       upd_wrq (\<lambda>e. e\<lparr>wrq_next := q\<rparr>) (wrq d) s }
     else do {
       s \<leftarrow> upd_wrq (\<lambda>e. e\<lparr>wrq_next := q\<rparr>) (wrqlast d) s;
       upd_pdata (\<lambda>d. d\<lparr>wrqlast := q\<rparr>) p s } }"

subsection \<open>Memory\<close>

definition wrq_nx :: "('b, 'z) pworld_scheme \<Rightarrow> addr \<Rightarrow> ptr option" where
  "wrq_nx s a = map_option wrq_next (wrqs s a)"

lemma wrq_nx_iff: "wrq_nx s a = Some r \<longleftrightarrow> (\<exists>e. wrqs s a = Some e \<and> wrq_next e = r)"
  by (auto simp: wrq_nx_def)

lemma wrq_nx_wrqs: "wrq_nx s = map_option wrq_next \<circ> wrqs s"
  by (auto simp: wrq_nx_def fun_eq_iff)

lemma get_wrq_Some [simp]: "get_wrq (Some a) s = wrqs s a" by (simp add: get_wrq_def)
lemma get_wrq_None [simp]: "get_wrq None s = None" by (simp add: get_wrq_def)
lemma get_buf_Some [simp]: "get_buf (Some a) s = bufs s a" by (simp add: get_buf_def)
lemma get_pdata_Some [simp]: "get_pdata (Some a) s = pdatas s a" by (simp add: get_pdata_def)

lemma upd_wrq_alloc [simp]:
  "wrqs s a = Some e \<Longrightarrow> upd_wrq f (Some a) s = Some (s\<lparr>wrqs := (wrqs s)(a \<mapsto> f e)\<rparr>)"
  by (simp add: upd_wrq_def)

lemma upd_buf_alloc [simp]:
  "bufs s a = Some e \<Longrightarrow> upd_buf f (Some a) s = Some (s\<lparr>bufs := (bufs s)(a \<mapsto> f e)\<rparr>)"
  by (simp add: upd_buf_def)

lemma upd_pdata_alloc [simp]:
  "pdatas s a = Some e \<Longrightarrow> upd_pdata f (Some a) s = Some (s\<lparr>pdatas := (pdatas s)(a \<mapsto> f e)\<rparr>)"
  by (simp add: upd_pdata_def)

text \<open>The source \<open>a\<close> is a file source with the proactor data \<open>d\<close> at \<open>p\<close>.\<close>

definition has_pdata :: "('b, 'z) pworld_scheme \<Rightarrow> addr \<Rightarrow> addr \<Rightarrow> gwprdata \<Rightarrow> bool" where
  "has_pdata s a p d \<longleftrightarrow> src_pdata (Some a) s = Some (Some p) \<and> pdatas s p = Some d"

lemma src_pdata_srcs: "srcs s' = srcs s \<Longrightarrow> src_pdata x s' = src_pdata x s"
  by (cases x) (simp_all add: src_pdata_def get_src_def)

lemma free_wrq_alloc [simp]:
  "wrqs s a = Some e \<Longrightarrow> free_wrq (Some a) s = Some (s\<lparr>wrqs := (wrqs s)(a := None)\<rparr>)"
  by (simp add: free_wrq_def)

text \<open>Addresses at and above \<open>brk\<close> hold none of the proactor's objects.\<close>

definition pr_fresh :: "('b, 'z) pworld_scheme \<Rightarrow> bool" where
  "pr_fresh s \<longleftrightarrow> (\<forall>a. brk s \<le> a \<longrightarrow> wrqs s a = None \<and> bufs s a = None \<and> pdatas s a = None \<and> einfos s a = None)"

subsection \<open>The cache\<close>

definition wrq_cache :: "('b, 'z) pworld_scheme \<Rightarrow> addr list \<Rightarrow> bool" where
  "wrq_cache s C \<longleftrightarrow>
     chain (wrq_nx s) (wrqcache (pr_obj s)) C \<and> length C = unat (nwrqcache (pr_obj s)) \<and>
     int (length C) \<le> gwpr_wrqueue_cache_max (pr_options (pr_obj s)) \<and>
     gwpr_wrqueue_cache_max (pr_options (pr_obj s)) < 2 ^ 31"

lemma wrq_cache_counter:
  assumes "wrq_cache s C"
  shows "nwrqcache (pr_obj s) = word_of_int (gwpr_wrqueue_cache_max (pr_options (pr_obj s))) \<longleftrightarrow>
    int (length C) = gwpr_wrqueue_cache_max (pr_options (pr_obj s))"
proof -
  let ?m = "gwpr_wrqueue_cache_max (pr_options (pr_obj s))"
  have n: "int (length C) = uint (nwrqcache (pr_obj s))" using assms by (simp add: wrq_cache_def)
  have m: "uint (word_of_int ?m :: 64 word) = ?m"
    using assms by (simp add: wrq_cache_def uint_word_of_int)
  show ?thesis unfolding n by (simp add: word_uint_eq_iff m)
qed

lemma wrq_get_ok:
  assumes "wrq_cache s C" "pr_fresh s"
  obtains q s' where "gwprwrq_get s = Some (Some q, s')" "wrq_cache s' (tl C)"
    "q = (case C of [] \<Rightarrow> brk s | c # _ \<Rightarrow> c)" "q \<notin> set (tl C)"
    "\<exists>e. wrqs s' q = Some e \<and> wrq_next e = None" "\<forall>x. x \<noteq> q \<longrightarrow> wrqs s' x = wrqs s x"
    "s' = s\<lparr>wrqs := wrqs s', pr_obj := pr_obj s', brk := brk s', oom := oom s', errs := errs s'\<rparr>"
    "pr_fresh s'" "brk s \<le> brk s'" "pr_options (pr_obj s') = pr_options (pr_obj s)"
proof (cases C)
  case Nil
  obtain om er where c: "calloc_msg ''9DXIL'' s = Some (brk s, s\<lparr>brk := Suc (brk s), oom := om, errs := er\<rparr>)"
    by (rule calloc_msg_ok)
  have w: "wrqcache (pr_obj s) = None" using assms(1) Nil by (simp add: wrq_cache_def)
  let ?s' = "s\<lparr>brk := Suc (brk s), oom := om, errs := er, wrqs := (wrqs s)(brk s \<mapsto> zero_wrq)\<rparr>"
  have "gwprwrq_get s = Some (Some (brk s), ?s')"
    using c w by (simp add: gwprwrq_get_def zero_wrq_def)
  with assms Nil w show ?thesis
    by (intro that [of "brk s" ?s']) (auto simp: wrq_cache_def pr_fresh_def zero_wrq_def)
next
  case (Cons c C')
  then obtain e where e: "wrqcache (pr_obj s) = Some c" "wrqs s c = Some e" "chain (wrq_nx s) (wrq_next e) C'"
    using assms(1) by (auto simp: wrq_cache_def wrq_nx_iff)
  have n: "c \<notin> set C'" using assms(1) Cons chain_tail_notin by (fastforce simp: wrq_cache_def)
  have l: "Suc (length C') = unat (nwrqcache (pr_obj s))" using assms(1) Cons by (simp add: wrq_cache_def)
  then have "nwrqcache (pr_obj s) \<noteq> 0" by auto
  then have d: "unat (nwrqcache (pr_obj s) - 1) = length C'" using l by (simp add: unat_minus_one)
  let ?s' = "s\<lparr>pr_obj := (pr_obj s)\<lparr>nwrqcache := nwrqcache (pr_obj s) - 1, wrqcache := wrq_next e\<rparr>,
      wrqs := (wrqs s)(c \<mapsto> e\<lparr>wrq_next := None\<rparr>)\<rparr>"
  have "gwprwrq_get s = Some (Some c, ?s')" using e by (simp add: gwprwrq_get_def)
  moreover have "wrq_cache ?s' C'"
    using assms(1) Cons e(3) n d by (auto simp: wrq_cache_def wrq_nx_wrqs)
  moreover have "c < brk s" using assms(2) e(2) by (auto simp: pr_fresh_def not_le [symmetric])
  ultimately show ?thesis
    using assms(2) Cons n by (intro that [of c ?s']) (auto simp: pr_fresh_def)
qed

lemma wrq_free_ok:
  assumes "wrq_cache s C" "wrqs s q = Some e" "q \<notin> set C"
  shows "\<exists>s'. gwprwrq_free (Some q) s = Some s' \<and>
    (if int (length C) = gwpr_wrqueue_cache_max (pr_options (pr_obj s))
     then wrqs s' = (wrqs s)(q := None) \<and> wrq_cache s' C
     else wrqs s' = (wrqs s)(q \<mapsto> e\<lparr>wrq_next := wrqcache (pr_obj s), wrq_buf := None\<rparr>) \<and> wrq_cache s' (q # C)) \<and>
    s' = s\<lparr>wrqs := wrqs s', pr_obj := pr_obj s'\<rparr> \<and> pr_options (pr_obj s') = pr_options (pr_obj s)"
proof (cases "int (length C) = gwpr_wrqueue_cache_max (pr_options (pr_obj s))")
  case True
  with assms wrq_cache_counter [OF assms(1)] show ?thesis
    by (intro exI [of _ "s\<lparr>wrqs := (wrqs s)(q := None)\<rparr>"])
      (auto simp: gwprwrq_free_def wrq_cache_def wrq_nx_wrqs)
next
  case False
  let ?s' = "s\<lparr>wrqs := (wrqs s)(q \<mapsto> e\<lparr>wrq_next := wrqcache (pr_obj s), wrq_buf := None\<rparr>),
      pr_obj := (pr_obj s)\<lparr>wrqcache := Some q, nwrqcache := nwrqcache (pr_obj s) + 1\<rparr>\<rparr>"
  have r: "gwprwrq_free (Some q) s = Some ?s'"
    using False assms(2) wrq_cache_counter [OF assms(1)]
    by (cases "wrqcache (pr_obj s)") (auto simp: gwprwrq_free_def intro!: pworld.equality)
  have "int (length C) < 2 ^ 31" using assms(1) unfolding wrq_cache_def by linarith
  then have "length C < 2 ^ 31" by (metis of_nat_less_iff of_nat_numeral of_nat_power)
  then have "unat (nwrqcache (pr_obj s)) < 2 ^ 31" using assms(1) by (simp add: wrq_cache_def)
  then have "unat (nwrqcache (pr_obj s) + 1) = Suc (unat (nwrqcache (pr_obj s)))"
    by (subst unat_word_ariths(1)) simp
  with False assms r show ?thesis
    by (intro exI [of _ ?s']) (auto simp: wrq_cache_def wrq_nx_wrqs)
qed

subsection \<open>The queue of a source\<close>

text \<open>
  The queue holds the requests \<open>Q\<close>; the pointer to its last entry is not used while it has at
  most one.
\<close>

definition wrq_queue :: "('b, 'z) pworld_scheme \<Rightarrow> gwprdata \<Rightarrow> addr list \<Rightarrow> bool" where
  "wrq_queue s d Q \<longleftrightarrow> chain (wrq_nx s) (wrq d) Q \<and>
     (length Q \<le> 1 \<and> wrqlast d = None \<or> Q \<noteq> [] \<and> wrqlast d = Some (last Q))"

lemma wrq_last_ok: "chain (wrq_nx s) q Q \<Longrightarrow> wrq_last q l s = Some (if Q = [] then l else Some (last Q))"
proof (induction Q arbitrary: q l)
  case Nil
  then show ?case by (simp add: wrq_last.simps)
next
  case (Cons a Q)
  then obtain e where "q = Some a" "wrqs s a = Some e" "chain (wrq_nx s) (wrq_next e) Q"
    by (auto simp: wrq_nx_iff)
  with Cons.IH show ?case by (simp add: wrq_last.simps [of "Some a"])
qed

lemma chain_snoc:
  assumes "chain nx p (xs @ [x])" "a \<notin> set (xs @ [x])" "nx a = Some None"
  shows "chain (nx(x \<mapsto> Some a)) p (xs @ [x, a])"
  using assms chain_distinct [OF assms(1)] by (auto simp: seg_append)

lemma chain_join:
  assumes "chain nx p (xs @ [x])" "chain nx r ys" "set (xs @ [x]) \<inter> set ys = {}"
  shows "chain (nx(x \<mapsto> r)) p (xs @ x # ys)"
  using assms chain_distinct [OF assms(1)] by (auto simp: seg_append)

text \<open>A request without its link, which is all that the operations on a queue change of it.\<close>

definition wrq_core :: "gwprwrq \<Rightarrow> gwprwrq" where
  "wrq_core e = e\<lparr>wrq_next := None\<rparr>"

lemma wrq_core_next [simp]: "wrq_core (e\<lparr>wrq_next := r\<rparr>) = wrq_core e"
  by (simp add: wrq_core_def)

text \<open>
  From \<open>s\<close> to \<open>s'\<close> the source's data \<open>d\<close> became \<open>d'\<close>, where only the two ends of the queue differ, and requests
  of \<open>X\<close> were linked anew; nothing else changed.
\<close>

definition relinked_queue :: "('b, 'z) pworld_scheme \<Rightarrow> ('b, 'z) pworld_scheme \<Rightarrow> addr \<Rightarrow> gwprdata \<Rightarrow> gwprdata \<Rightarrow> addr set \<Rightarrow> bool" where
  "relinked_queue s s' p d d' X \<longleftrightarrow>
     d' = d\<lparr>wrq := wrq d', wrqlast := wrqlast d'\<rparr> \<and>
     s' = s\<lparr>wrqs := wrqs s', pdatas := (pdatas s)(p \<mapsto> d')\<rparr> \<and>
     (\<forall>x. map_option wrq_core (wrqs s' x) = map_option wrq_core (wrqs s x)) \<and>
     (\<forall>x. x \<notin> X \<longrightarrow> wrqs s' x = wrqs s x)"

lemma wrq_add_ok:
  assumes "has_pdata s a p d" "wrq_queue s d Q" "wrqs s q = Some e" "wrq_next e = None" "q \<notin> set Q"
  shows "\<exists>s' d'. gwprwrq_add (Some a) (Some q) s = Some s' \<and> has_pdata s' a p d' \<and> wrq_queue s' d' (Q @ [q]) \<and>
    d' = d\<lparr>wrq := wrq d', wrqlast := wrqlast d'\<rparr> \<and>
    s' = s\<lparr>wrqs := wrqs s', pdatas := (pdatas s)(p \<mapsto> d')\<rparr> \<and>
    (\<forall>x. x \<notin> set (Q @ [q]) \<longrightarrow> wrqs s' x = wrqs s x) \<and>
    (\<forall>x e. wrqs s x = Some e \<longrightarrow> (\<exists>r. wrqs s' x = Some (e\<lparr>wrq_next := r\<rparr>))) \<and>
    relinked_queue s s' p d d' {last (q # Q)}"
proof -
  have pd: "src_pdata (Some a) s = Some (Some p)" "pdatas s p = Some d"
    using assms(1) by (simp_all add: has_pdata_def)
  have same: "wrqs s x = Some e \<Longrightarrow> \<exists>r. wrqs s x = Some (e\<lparr>wrq_next := r\<rparr>)" for x e
    by (intro exI [of _ "wrq_next e"]) simp
  show ?thesis
  proof (cases Q rule: rev_cases)
    case Nil
    let ?d = "d\<lparr>wrq := Some q\<rparr>"
    let ?s' = "s\<lparr>pdatas := (pdatas s)(p \<mapsto> ?d), wrqs := (wrqs s)(q \<mapsto> e\<lparr>wrq_next := None\<rparr>)\<rparr>"
    have w: "wrq d = None" "wrqlast d = None" using assms(2) Nil by (simp_all add: wrq_queue_def)
    have "gwprwrq_add (Some a) (Some q) s = Some ?s'"
      using pd w assms(3) by (simp add: gwprwrq_add_def)
    then show ?thesis
      using pd w Nil assms(3,4) same
      by (intro exI [of _ ?s'] exI [of _ ?d])
        (auto simp: has_pdata_def wrq_queue_def wrq_nx_wrqs relinked_queue_def src_pdata_srcs [of ?s' s] intro!: exI [of _ "None"])
  next
    case (snoc Q0 x)
    have ch: "chain (wrq_nx s) (wrq d) (Q0 @ [x])" using assms(2) snoc by (simp add: wrq_queue_def)
    then obtain ex where ex: "wrqs s x = Some ex" by (auto simp: seg_append wrq_nx_iff)
    let ?d = "d\<lparr>wrqlast := Some q\<rparr>"
    let ?s' = "s\<lparr>pdatas := (pdatas s)(p \<mapsto> ?d), wrqs := (wrqs s)(x \<mapsto> ex\<lparr>wrq_next := Some q\<rparr>)\<rparr>"
    have w: "wrqlast d = Some x \<or> wrqlast d = None \<and> wrq d = Some x" "wrq d \<noteq> None"
      using assms(2) ch snoc by (cases Q0; auto simp: wrq_queue_def)+
    have "gwprwrq_add (Some a) (Some q) s = Some ?s'"
      using pd w ex by (auto simp: gwprwrq_add_def)
    moreover have "wrq_queue ?s' ?d (Q @ [q])"
      using chain_snoc [OF ch, of q] assms(3-5) snoc by (simp add: wrq_queue_def wrq_nx_wrqs)
    ultimately show ?thesis
      using pd ex same snoc
      by (intro exI [of _ ?s'] exI [of _ ?d]) (auto simp: has_pdata_def relinked_queue_def src_pdata_srcs [of ?s' s])
  qed
qed

lemma wrq_putback_ok:
  assumes "has_pdata s a p d" "wrq_queue s d Q" "Q \<noteq> []" "chain (wrq_nx s) q M" "M \<noteq> []" "set M \<inter> set Q = {}"
  shows "\<exists>s' d'. gwprwrq_putback (Some a) q s = Some s' \<and> has_pdata s' a p d' \<and> wrq_queue s' d' (M @ Q) \<and>
    wrqlast d' = Some (last Q) \<and> relinked_queue s s' p d d' {last M}"
proof -
  have pd: "src_pdata (Some a) s = Some (Some p)" "pdatas s p = Some d"
    using assms(1) by (simp_all add: has_pdata_def)
  obtain M0 m where M: "M = M0 @ [m]" using assms(5) by (cases M rule: rev_cases) auto
  obtain Q0 l where Q: "Q = Q0 @ [l]" using assms(3) by (cases Q rule: rev_cases) auto
  have chQ: "chain (wrq_nx s) (wrq d) Q" using assms(2) by (simp add: wrq_queue_def)
  obtain em where em: "wrqs s m = Some em" using assms(4) M by (auto simp: seg_append wrq_nx_iff)
  obtain el where el: "wrqs s l = Some el" "wrq_next el = None"
    using chQ Q by (auto simp: seg_append wrq_nx_iff)
  have ne: "l \<noteq> m" using assms(6) M Q by auto
  have w: "wrq d \<noteq> None" using chQ Q by (cases Q0) auto
  let ?s1 = "s\<lparr>pdatas := (pdatas s)(p \<mapsto> d\<lparr>wrq := q\<rparr>), wrqs := (wrqs s)(m \<mapsto> em\<lparr>wrq_next := wrq d\<rparr>)\<rparr>"
  let ?d = "d\<lparr>wrq := q, wrqlast := Some l\<rparr>"
  let ?s' = "s\<lparr>pdatas := (pdatas s)(p \<mapsto> ?d), wrqs := (wrqs s)(m \<mapsto> em\<lparr>wrq_next := wrq d\<rparr>)\<rparr>"
  have l1: "wrq_last q None (s\<lparr>pdatas := x\<rparr>) = Some (Some m)" for x
    using wrq_last_ok [of "s\<lparr>pdatas := x\<rparr>" q M None] assms(4) M by (simp add: wrq_nx_wrqs)
  have ch1: "chain (wrq_nx ?s1) (wrq d) Q"
    using chQ assms(6) M by (simp add: wrq_nx_wrqs)
  have l2: "wrq_last (wrq d) (Some m) ?s1 = Some (Some l)"
    using wrq_last_ok [OF ch1, of "Some m"] Q by simp
  have "(wrqs ?s1)(l \<mapsto> el\<lparr>wrq_next := None\<rparr>) = wrqs ?s1" using el ne by (auto simp: fun_eq_iff)
  then have "gwprwrq_putback (Some a) q s = Some ?s'"
    using pd w l1 l2 em el(1) ne by (auto simp: gwprwrq_putback_def Let_def upd_pdata_def upd_wrq_def)
  moreover have "chain ((wrq_nx s)(m \<mapsto> wrq d)) q (M0 @ m # Q)"
    by (rule chain_join) (use assms(4,6) M chQ in auto)
  then have "wrq_queue ?s' ?d (M @ Q)" using M Q by (simp add: wrq_queue_def wrq_nx_wrqs)
  moreover have "relinked_queue s ?s' p d ?d {last M}" using em M by (simp add: relinked_queue_def)
  ultimately show ?thesis
    using pd Q by (intro exI [of _ ?s'] exI [of _ ?d]) (simp add: has_pdata_def src_pdata_srcs [of ?s' s])
qed

subsection \<open>Properties\<close>

text \<open>
  C33: while \<^verbatim>\<open>wrqlast\<close> is not stale, that is while it is null for a queue of at most one request and points at the
  last request otherwise (after a full drain the queue is empty but \<^verbatim>\<open>wrqlast\<close> still points at an old request, and a later addition can be lost), a source's write queue is
  first in, first out: \<^verbatim>\<open>gwprwrq_add\<close> appends a request that is not in it and ends a list, and \<^verbatim>\<open>gwprwrq_putback\<close> puts a
  list of other requests in front of a queue that is not empty. Both leave \<^verbatim>\<open>wrqlast\<close> not stale, and change nothing but the two
  ends of the queue in the source's data and the link of one request: the last of the queue or the new one, and the last of the list put back.
\<close>
theorem wrq_queue_ops:
  assumes "has_pdata s a p d" "wrq_queue s d Q"
    and "wrqs s q = Some e" "wrq_next e = None" "q \<notin> set Q"
    and "chain (wrq_nx s) m M" "M \<noteq> []" "set M \<inter> set Q = {}"
  shows "(\<exists>s' d'. gwprwrq_add (Some a) (Some q) s = Some s' \<and> has_pdata s' a p d' \<and> wrq_queue s' d' (Q @ [q]) \<and>
      relinked_queue s s' p d d' {last (q # Q)} \<and>
      (\<forall>x e. wrqs s x = Some e \<longrightarrow> (\<exists>r. wrqs s' x = Some (e\<lparr>wrq_next := r\<rparr>)))) \<and>
    (Q \<noteq> [] \<longrightarrow> (\<exists>s' d'. gwprwrq_putback (Some a) m s = Some s' \<and> has_pdata s' a p d' \<and>
      wrq_queue s' d' (M @ Q) \<and> relinked_queue s s' p d d' {last M}))"
  using wrq_add_ok [OF assms(1-5)] wrq_putback_ok [OF assms(1,2) _ assms(6-8)] by blast

text \<open>
  when a queue is empty but the pointer to its last entry still points at an old request
  \<open>x\<close>, as \<^verbatim>\<open>gwpr_src_activity\<close> leaves it after it has written everything, adding two requests
  queues only the first: the second is linked behind \<open>x\<close>, which may meanwhile belong to
  another source or to an event, and is never written.
\<close>
theorem stale_last_loses_write:
  assumes "has_pdata s a p d" "wrq d = None" "wrqlast d = Some x"
    and "wrqs s x = Some ex" "wrqs s q1 = Some e1" "wrqs s q2 = Some e2"
    and "x \<noteq> q1" "x \<noteq> q2" "q1 \<noteq> q2"
  shows "\<exists>s1 s2 d2. gwprwrq_add (Some a) (Some q1) s = Some s1 \<and> gwprwrq_add (Some a) (Some q2) s1 = Some s2 \<and>
    has_pdata s2 a p d2 \<and> chain (wrq_nx s2) (wrq d2) [q1] \<and> wrq_nx s2 x = Some (Some q2)"
proof -
  have pd: "src_pdata (Some a) s = Some (Some p)" "pdatas s p = Some d"
    using assms(1) by (simp_all add: has_pdata_def)
  let ?d1 = "d\<lparr>wrq := Some q1\<rparr>"
  let ?s1 = "s\<lparr>pdatas := (pdatas s)(p \<mapsto> ?d1), wrqs := (wrqs s)(q1 \<mapsto> e1\<lparr>wrq_next := None\<rparr>)\<rparr>"
  let ?d2 = "?d1\<lparr>wrqlast := Some q2\<rparr>"
  let ?s2 = "?s1\<lparr>wrqs := (wrqs ?s1)(x \<mapsto> ex\<lparr>wrq_next := Some q2\<rparr>), pdatas := (pdatas s)(p \<mapsto> ?d2)\<rparr>"
  have p1: "src_pdata (Some a) ?s1 = Some (Some p)" "src_pdata (Some a) ?s2 = Some (Some p)"
    using pd(1) src_pdata_srcs [of ?s1 s "Some a"] src_pdata_srcs [of ?s2 s "Some a"] by simp_all
  have "gwprwrq_add (Some a) (Some q1) s = Some ?s1"
    using pd assms(2,5) by (simp add: gwprwrq_add_def)
  moreover have "gwprwrq_add (Some a) (Some q2) ?s1 = Some ?s2"
    using pd p1(1) assms(3,4,7) by (simp add: gwprwrq_add_def)
  moreover have "has_pdata ?s2 a p ?d2" using p1(2) by (simp add: has_pdata_def)
  moreover have "chain (wrq_nx ?s2) (wrq ?d2) [q1]" "wrq_nx ?s2 x = Some (Some q2)"
    using assms(7) by (simp_all add: wrq_nx_wrqs)
  ultimately show ?thesis by blast
qed

text \<open>
  the cache of write requests stays a list of distinct objects whose length is the counter
  and at most the configured maximum: \<^verbatim>\<open>gwprwrq_get\<close> always returns a request, the first cached
  one or a new one, however often \<^verbatim>\<open>calloc\<close> fails first; \<^verbatim>\<open>gwprwrq_free\<close> releases the request
  when the cache is full and caches it without its buffer otherwise.
\<close>
theorem wrq_cache_ops:
  assumes "wrq_cache s C" "pr_fresh s" "wrqs s x = Some e" "x \<notin> set C"
  shows "(\<exists>q s'. gwprwrq_get s = Some (Some q, s') \<and> q = (case C of [] \<Rightarrow> brk s | c # _ \<Rightarrow> c) \<and>
      wrq_cache s' (tl C) \<and> q \<notin> set (tl C) \<and> wrq_nx s' q = Some None \<and> (\<forall>y. y \<noteq> q \<longrightarrow> wrqs s' y = wrqs s y)) \<and>
    (\<exists>s'. gwprwrq_free (Some x) s = Some s' \<and>
      (if int (length C) = gwpr_wrqueue_cache_max (pr_options (pr_obj s))
       then wrqs s' x = None \<and> wrq_cache s' C
       else map_option wrq_buf (wrqs s' x) = Some None \<and> wrq_cache s' (x # C)) \<and>
      (\<forall>y. y \<noteq> x \<longrightarrow> wrqs s' y = wrqs s y))"
proof
  show "\<exists>q s'. gwprwrq_get s = Some (Some q, s') \<and> q = (case C of [] \<Rightarrow> brk s | c # _ \<Rightarrow> c) \<and>
      wrq_cache s' (tl C) \<and> q \<notin> set (tl C) \<and> wrq_nx s' q = Some None \<and> (\<forall>y. y \<noteq> q \<longrightarrow> wrqs s' y = wrqs s y)"
    by (rule wrq_get_ok [OF assms(1,2)]) (use wrq_nx_iff in blast)
  show "\<exists>s'. gwprwrq_free (Some x) s = Some s' \<and>
      (if int (length C) = gwpr_wrqueue_cache_max (pr_options (pr_obj s))
       then wrqs s' x = None \<and> wrq_cache s' C
       else map_option wrq_buf (wrqs s' x) = Some None \<and> wrq_cache s' (x # C)) \<and>
      (\<forall>y. y \<noteq> x \<longrightarrow> wrqs s' y = wrqs s y)"
  proof -
    let ?full = "int (length C) = gwpr_wrqueue_cache_max (pr_options (pr_obj s))"
    obtain s' where s': "gwprwrq_free (Some x) s = Some s'"
      "if ?full then wrqs s' = (wrqs s)(x := None) \<and> wrq_cache s' C
       else wrqs s' = (wrqs s)(x \<mapsto> e\<lparr>wrq_next := wrqcache (pr_obj s), wrq_buf := None\<rparr>) \<and> wrq_cache s' (x # C)"
      using wrq_free_ok [OF assms(1,3,4)] by blast
    then show ?thesis by (cases ?full) simp_all
  qed
qed

subsection \<open>Instances\<close>

text \<open>
  A proactor with a source on descriptor 7 (proactor data at 21); its queue is the requests 31
  and 32, the requests 33 and 34 are outside, and the cache holds 35.
\<close>

definition pr_base :: "'b world \<Rightarrow> 'b pworld" where
  "pr_base w = world.extend w (pworld.fields \<lparr>nwrqcache = 1, pr_options = GWPR_DEFAULT_OPTIONS, pr_bufctl = Some 9, wrqcache = Some 35\<rparr>
     [31 \<mapsto> zero_wrq\<lparr>wrq_next := Some 32, wrq_buf := Some 41, wrop := gwpr_write_op_id\<rparr>,
      32 \<mapsto> zero_wrq\<lparr>wrq_buf := Some 42, wrop := gwpr_write_op_id\<rparr>,
      33 \<mapsto> zero_wrq, 34 \<mapsto> zero_wrq, 35 \<mapsto> zero_wrq]
     [41 \<mapsto> \<lparr>buf_tag = 0, buf_len = 3, bufsize = 3, buf_data = [1, 2, 3]\<rparr>,
      42 \<mapsto> \<lparr>buf_tag = 0, buf_len = 2, bufsize = 4, buf_data = [4, 5, 0, 0]\<rparr>]
     [21 \<mapsto> zero_pdata\<lparr>wrq := Some 31, wrqlast := Some 32, didwritecb := Some Fn_io_activity\<rparr>]
     Map.empty 0)"

definition pr_world :: "unit pworld" where
  "pr_world = pr_base ((blank_world ())\<lparr>brk := 50,
     srcs := [7 \<mapsto> file_src_on 7 (GWRL_ENABLED OR GWRL_RD OR GWRL_WR) None\<lparr>src_part :=
       File_part \<lparr>file_fd = 7, file_pfd = None, file_pdata = Some 21\<rparr>\<rparr>]\<rparr>)"

lemmas pr_world_defs = pr_world_def pr_base_def world.defs pworld.defs blank_world_def

lemma pr_world_pdata: "has_pdata pr_world 7 21 (zero_pdata\<lparr>wrq := Some 31, wrqlast := Some 32, didwritecb := Some Fn_io_activity\<rparr>)"
  by (simp add: has_pdata_def src_pdata_def as_file_def file_src_on_def pr_world_defs)

lemma pr_world_queue: "wrq_queue pr_world (zero_pdata\<lparr>wrq := Some 31, wrqlast := Some 32, didwritecb := Some Fn_io_activity\<rparr>) [31, 32]"
  by (simp add: wrq_queue_def wrq_nx_def pr_world_defs zero_wrq_def)

lemma pr_world_cache: "wrq_cache pr_world [35]" "pr_fresh pr_world"
  by (auto simp: wrq_cache_def wrq_nx_def pr_fresh_def pr_world_defs zero_wrq_def GWPR_DEFAULT_OPTIONS_def)

theorem wrq_queue_ops_witness:
  "\<exists>s' d'. gwprwrq_putback (Some 7) (Some 34) pr_world = Some s' \<and> has_pdata s' 7 21 d' \<and> wrq_queue s' d' [34, 31, 32]"
proof -
  have "wrqs pr_world 33 = Some zero_wrq" "wrq_next zero_wrq = None" "chain (wrq_nx pr_world) (Some 34) [34]"
    by (simp_all add: pr_world_defs zero_wrq_def wrq_nx_def)
  from wrq_queue_ops [OF pr_world_pdata pr_world_queue this(1,2) _ this(3)] show ?thesis by auto
qed

theorem stale_last_loses_write_witness:
  "\<exists>s1 s2 d2. gwprwrq_add (Some 7) (Some 33) (pr_world\<lparr>pdatas := [21 \<mapsto> zero_pdata\<lparr>wrqlast := Some 35\<rparr>]\<rparr>) = Some s1 \<and>
    gwprwrq_add (Some 7) (Some 34) s1 = Some s2 \<and> has_pdata s2 7 21 d2 \<and> chain (wrq_nx s2) (wrq d2) [33]"
proof -
  let ?s = "pr_world\<lparr>pdatas := [21 \<mapsto> zero_pdata\<lparr>wrqlast := Some 35\<rparr>]\<rparr>"
  have "has_pdata ?s 7 21 (zero_pdata\<lparr>wrqlast := Some 35\<rparr>)"
    using pr_world_pdata by (simp add: has_pdata_def src_pdata_srcs [of ?s pr_world])
  from stale_last_loses_write [OF this, of 35 zero_wrq 33 zero_wrq 34 zero_wrq]
  show ?thesis by (simp add: pr_world_defs zero_pdata_def) blast
qed

theorem wrq_cache_ops_witness:
  "\<exists>s'. gwprwrq_free (Some 33) pr_world = Some s' \<and> wrq_cache s' [33, 35]"
  using wrq_cache_ops [OF pr_world_cache, of 33 zero_wrq]
  by (simp add: pr_world_defs GWPR_DEFAULT_OPTIONS_def) blast

end
