(* ===== verification/Gw_Socket.thy ===== *)
theory Gw_Socket
  imports Gw_Wake "HOL-Library.Multiset"
begin

section \<open>Socket helpers (\<^verbatim>\<open>src/gwrl/socket.c\<close>)\<close>

text \<open>
  The wrappers around socket calls and \<^verbatim>\<open>skctl\<close>, which resolves a name and sets a socket up on
  the first of the addresses for which every step succeeds. The branches of the Unix systems,
  with the constants of Linux. The state of the reactor is extended by the memory of the
  \<^verbatim>\<open>addrinfo\<close> lists; messages on \<^verbatim>\<open>stderr\<close> are recorded with those of \<^verbatim>\<open>gwerr\<close>.
\<close>

subsection \<open>Addresses\<close>

definition AF_INET :: int where "AF_INET = 2"
definition AF_INET6 :: int where "AF_INET6 = 10"

text \<open>The family is the first two bytes (low byte first), the port the next two in network order.\<close>

definition addr_byte :: "byte list \<Rightarrow> nat \<Rightarrow> byte" where
  "addr_byte addr i = (if i < length addr then addr ! i else 0)"

definition ss_family :: "byte list \<Rightarrow> int" where
  "ss_family addr = uint (addr_byte addr 0) + 256 * uint (addr_byte addr 1)"

definition gwsk_sockaddr_size :: "byte list \<Rightarrow> nat" where
  "gwsk_sockaddr_size addr =
     (if ss_family addr = AF_INET then 16 else if ss_family addr = AF_INET6 then 28 else 0)"

definition gwsk_sockaddr_port :: "byte list \<Rightarrow> int" where
  "gwsk_sockaddr_port addr =
     (if ss_family addr = AF_INET then 256 * uint (addr_byte addr 2) + uint (addr_byte addr 3)
      else if ss_family addr = AF_INET6 then 256 * uint (addr_byte addr 2) + uint (addr_byte addr 3)
      else 0)"

text \<open>The bytes that a call given the address and \<^verbatim>\<open>gwsk_sockaddr_size\<close> reads.\<close>

definition addr_arg :: "byte list \<Rightarrow> byte list" where
  "addr_arg addr = map (addr_byte addr) [0..<gwsk_sockaddr_size addr]"

text \<open>
  Printing has no effect on the state. For another family \<^verbatim>\<open>inet_ntop\<close> fails and the buffer is
  printed uninitialised: no result.
\<close>

definition gwsk_sockaddr_print :: "byte list \<Rightarrow> ('b, 'z) world_scheme \<Rightarrow> ('b, 'z) world_scheme option" where
  "gwsk_sockaddr_print addr s =
     (if ss_family addr = AF_INET \<or> ss_family addr = AF_INET6 then Some s else None)"

subsection \<open>Single calls\<close>

text \<open>
  \<^verbatim>\<open>gwsk_connect\<close> and \<^verbatim>\<open>gwsk_accept\<close> set \<^verbatim>\<open>errno\<close> to 0 before the call and go on after any result
  but 0; \<^verbatim>\<open>gwsk_connect\<close> also ends at \<^verbatim>\<open>EINPROGRESS\<close>.
\<close>

definition EINPROGRESS :: int where "EINPROGRESS = 115"

partial_function (option) gwsk_connect ::
    "int \<Rightarrow> byte list \<Rightarrow> ('b, 'z) world_scheme \<Rightarrow> (int \<times> ('b, 'z) world_scheme) option" where
  [code]: "gwsk_connect fd peer s =
     (case syscall (Sys_connect fd (addr_arg peer)) (s\<lparr>errno := 0\<rparr>) of (a, s) \<Rightarrow>
        if ans_ret a = 0 then Some (ans_ret a, s)
        else if errno s = EINTR then gwsk_connect fd peer s
        else if errno s = EINPROGRESS then Some (ans_ret a, s)
        else gwsk_connect fd peer s)"

partial_function (option) gwsk_accept ::
    "int \<Rightarrow> ('b, 'z) world_scheme \<Rightarrow> (int \<times> ('b, 'z) world_scheme) option" where
  [code]: "gwsk_accept fd s =
     (case syscall (Sys_accept fd) (s\<lparr>errno := 0\<rparr>) of (a, s) \<Rightarrow>
        if ans_ret a = 0 then Some (ans_ret a, s) else gwsk_accept fd s)"

text \<open>Outside Windows there is nothing to start or to clean up.\<close>

definition gwsk_startup :: bool where "gwsk_startup = True"

definition gwsk_cleanup :: bool where "gwsk_cleanup = True"

definition gwsk_close :: "int \<Rightarrow> ('b, 'z) world_scheme \<Rightarrow> ('b, 'z) world_scheme" where
  "gwsk_close fd s = snd (syscall (Sys_close fd) s)"

text \<open>The command is \<^verbatim>\<open>F_SETFL\<close> with \<^verbatim>\<open>O_NONBLOCK\<close> whatever \<^verbatim>\<open>onoff\<close> is.\<close>

definition gwsk_nonblock :: "int \<Rightarrow> int \<Rightarrow> ('b, 'z) world_scheme \<Rightarrow> int \<times> ('b, 'z) world_scheme" where
  "gwsk_nonblock fd onoff s = (case syscall (Sys_nonblock fd) s of (a, s) \<Rightarrow> (ans_ret a, s))"

definition gwsk_reuseaddr :: "int \<Rightarrow> int \<Rightarrow> ('b, 'z) world_scheme \<Rightarrow> int \<times> ('b, 'z) world_scheme" where
  "gwsk_reuseaddr fd onoff s = (case syscall (Sys_reuseaddr fd onoff) s of (a, s) \<Rightarrow> (ans_ret a, s))"

subsection \<open>\<^verbatim>\<open>skctl\<close>: data\<close>

definition SKCTL_GETADDRINFO :: flags16 where "SKCTL_GETADDRINFO = 2 ^ 0"
definition SKCTL_SOCKET :: flags16 where "SKCTL_SOCKET = 2 ^ 1"
definition SKCTL_CONNECT :: flags16 where "SKCTL_CONNECT = 2 ^ 2"
definition SKCTL_BIND :: flags16 where "SKCTL_BIND = 2 ^ 3"
definition SKCTL_LISTEN :: flags16 where "SKCTL_LISTEN = 2 ^ 4"
definition SKCTL_REUSE_ADDR :: flags16 where "SKCTL_REUSE_ADDR = 2 ^ 5"
definition SKCTL_PRINTADDR :: flags16 where "SKCTL_PRINTADDR = 2 ^ 6"
definition SKCTL_NOBLOCK :: flags16 where "SKCTL_NOBLOCK = 2 ^ 7"

lemmas skctl_flag_defs = SKCTL_GETADDRINFO_def SKCTL_SOCKET_def SKCTL_CONNECT_def SKCTL_BIND_def
  SKCTL_LISTEN_def SKCTL_REUSE_ADDR_def SKCTL_PRINTADDR_def SKCTL_NOBLOCK_def

definition SKCTL_TCP_CLIENT :: flags16 where
  "SKCTL_TCP_CLIENT = SKCTL_GETADDRINFO OR SKCTL_SOCKET OR SKCTL_CONNECT"
definition SKCTL_UDP_CONNECTED_CLIENT :: flags16 where
  "SKCTL_UDP_CONNECTED_CLIENT = SKCTL_GETADDRINFO OR SKCTL_SOCKET OR SKCTL_CONNECT"
definition SKCTL_UDP_CLIENT :: flags16 where
  "SKCTL_UDP_CLIENT = SKCTL_GETADDRINFO OR SKCTL_SOCKET"
definition SKCTL_TCP_SERVER :: flags16 where
  "SKCTL_TCP_SERVER = SKCTL_GETADDRINFO OR SKCTL_SOCKET OR SKCTL_BIND OR SKCTL_LISTEN OR SKCTL_REUSE_ADDR"
definition SKCTL_UDP_SERVER :: flags16 where
  "SKCTL_UDP_SERVER = SKCTL_GETADDRINFO OR SKCTL_SOCKET OR SKCTL_BIND OR SKCTL_REUSE_ADDR"

lemmas skctl_mode_defs = SKCTL_TCP_CLIENT_def SKCTL_UDP_CONNECTED_CLIENT_def SKCTL_UDP_CLIENT_def
  SKCTL_TCP_SERVER_def SKCTL_UDP_SERVER_def

definition EAI_AGAIN :: int where "EAI_AGAIN = -3"
definition EAI_SYSTEM :: int where "EAI_SYSTEM = -11"
definition IPPROTO_TCP :: int where "IPPROTO_TCP = 6"
definition IPPROTO_UDP :: int where "IPPROTO_UDP = 17"
definition AI_PASSIVE :: int where "AI_PASSIVE = 1"
definition SOCK_STREAM :: int where "SOCK_STREAM = 1"
definition SOCK_DGRAM :: int where "SOCK_DGRAM = 2"

record skctlinfo =
  sk_flags :: flags16
  sk_hints :: addrinfo
  sk_node :: "string option"
  sk_service :: "string option"
  sk_backlog :: int
  sk_list :: ptr
  sk_used :: ptr
  sockfd :: int
  serrno :: int
  serrnoflag :: int

record 'b skworld = "'b world" +
  ais :: "addr \<rightharpoonup> addrinfo"

definition get_ai :: "ptr \<Rightarrow> ('b, 'z) skworld_scheme \<Rightarrow> addrinfo option" where
  "get_ai p s = Option.bind p (ais s)"

definition ai_nx :: "('b, 'z) skworld_scheme \<Rightarrow> addr \<Rightarrow> ptr option" where
  "ai_nx s a = map_option ai_next (ais s a)"

text \<open>The list that \<^verbatim>\<open>getaddrinfo\<close> allocates, and \<^verbatim>\<open>freeaddrinfo\<close>.\<close>

fun store_ais :: "addrinfo list \<Rightarrow> ('b, 'z) skworld_scheme \<Rightarrow> ptr \<times> ('b, 'z) skworld_scheme" where
  "store_ais [] s = (None, s)"
| "store_ais (x # xs) s =
     (case store_ais xs (s\<lparr>brk := Suc (brk s)\<rparr>) of
        (p, t) \<Rightarrow> (Some (brk s), t\<lparr>ais := (ais t)(brk s \<mapsto> x\<lparr>ai_next := p\<rparr>)\<rparr>))"

partial_function (option) freeaddrinfo :: "ptr \<Rightarrow> ('b, 'z) skworld_scheme \<Rightarrow> ('b, 'z) skworld_scheme option" where
  [code]: "freeaddrinfo p s =
     (if p = None then Some s
      else do {
        a \<leftarrow> p; x \<leftarrow> ais s a;
        freeaddrinfo (ai_next x) (s\<lparr>ais := (ais s)(a := None)\<rparr>) })"

text \<open>The structure itself belongs to the caller; \<^verbatim>\<open>freeinfo\<close> asks to free it too (\<open>None\<close>).\<close>

definition skctlinfo_free ::
    "skctlinfo \<Rightarrow> bool \<Rightarrow> ('b, 'z) skworld_scheme \<Rightarrow> (skctlinfo option \<times> ('b, 'z) skworld_scheme) option" where
  "skctlinfo_free info freeinfo s = do {
     s \<leftarrow> (if sk_list info \<noteq> None then freeaddrinfo (sk_list info) s else Some s);
     let info = info\<lparr>sk_list := None\<rparr>;
     Some (if freeinfo then None else Some info, s) }"

definition skctl_str_for_flag :: "int \<Rightarrow> string" where
  "skctl_str_for_flag flag =
     (if flag = uint SKCTL_GETADDRINFO then ''SKCTL_GETADDRINFO''
      else if flag = uint SKCTL_SOCKET then ''SKCTL_SOCKET''
      else if flag = uint SKCTL_CONNECT then ''SKCTL_CONNECT''
      else if flag = uint SKCTL_BIND then ''SKCTL_BIND''
      else if flag = uint SKCTL_LISTEN then ''SOCKCNTL_LIST''
      else if flag = uint SKCTL_REUSE_ADDR then ''SKCTL_REUSE_ADDR''
      else if flag = uint SKCTL_PRINTADDR then ''SKCTL_PRINTADDR''
      else if flag = uint SKCTL_NOBLOCK then ''SKCTL_NOBLOCK''
      else ''Unknown flag'')"

subsection \<open>\<^verbatim>\<open>skctl\<close>: resolving\<close>

partial_function (option) getaddrinfo_loop ::
    "skctlinfo \<Rightarrow> ('b, 'z) skworld_scheme \<Rightarrow> (int \<times> ptr \<times> skctlinfo \<times> ('b, 'z) skworld_scheme) option" where
  [code]: "getaddrinfo_loop arg s =
     (let arg = arg\<lparr>serrno := 0, serrnoflag := 0\<rparr> in
      case syscall (Sys_getaddrinfo (sk_node arg) (sk_service arg) (sk_hints arg)) s of (a, s) \<Rightarrow>
        if ans_ret a = 0 then
          (case store_ais (ans_addrs a) s of (p, s) \<Rightarrow> Some (0, p, arg, s))
        else if ans_ret a = EAI_AGAIN then getaddrinfo_loop arg s
        else if ans_ret a = EAI_SYSTEM \<and> errno s = EINTR then getaddrinfo_loop arg s
        else Some (-1, None, arg\<lparr>serrno := ans_ret a, serrnoflag := uint SKCTL_GETADDRINFO\<rparr>,
               gwerr ''skctl: getaddrinfo error'' s))"

subsection \<open>\<^verbatim>\<open>skctl\<close>: the steps on one address\<close>

text \<open>
  A step goes on with the structure and the state (\<open>Inr\<close>) or jumps to \<^verbatim>\<open>nextap\<close> with \<^verbatim>\<open>res\<close> (\<open>Inl\<close>).
\<close>

type_synonym ('b, 'z) skstep =
  "((int \<times> skctlinfo \<times> ('b, 'z) skworld_scheme) + (skctlinfo \<times> ('b, 'z) skworld_scheme)) option"

definition then_step ::
    "('b, 'z) skstep \<Rightarrow> (skctlinfo \<Rightarrow> ('b, 'z) skworld_scheme \<Rightarrow> ('b, 'z) skstep) \<Rightarrow> ('b, 'z) skstep" where
  "then_step r f = (case r of None \<Rightarrow> None | Some (Inl e) \<Rightarrow> Some (Inl e) | Some (Inr (arg, s)) \<Rightarrow> f arg s)"

definition when_flag ::
    "flags16 \<Rightarrow> (skctlinfo \<Rightarrow> ('b, 'z) skworld_scheme \<Rightarrow> ('b, 'z) skstep)
     \<Rightarrow> skctlinfo \<Rightarrow> ('b, 'z) skworld_scheme \<Rightarrow> ('b, 'z) skstep" where
  "when_flag fl f arg s = (if flisset (sk_flags arg) fl then f arg s else Some (Inr (arg, s)))"

text \<open>The macro \<^verbatim>\<open>LOOP_ENTRY_CLOSE\<close>: \<^verbatim>\<open>errno\<close> is read after the descriptor was closed.\<close>

definition loop_entry_close ::
    "flags16 \<Rightarrow> int \<Rightarrow> skctlinfo \<Rightarrow> ('b, 'z) skworld_scheme \<Rightarrow> ('b, 'z) skstep" where
  "loop_entry_close flag res arg s =
     (if res < 0 then
        (let s = gwsk_close (sockfd arg) s
         in Some (Inl (res, arg\<lparr>sockfd := -1, serrno := errno s, serrnoflag := uint flag\<rparr>, s)))
      else Some (Inr (arg, s)))"

definition step_print where
  "step_print ai arg s = map_option (\<lambda>s. Inr (arg, s)) (gwsk_sockaddr_print (ai_addr ai) s)"

definition step_socket :: "addrinfo \<Rightarrow> skctlinfo \<Rightarrow> ('b, 'z) skworld_scheme \<Rightarrow> ('b, 'z) skstep" where
  "step_socket ai arg s =
     (case syscall (Sys_socket (ai_family ai) (ai_socktype ai) (ai_protocol ai)) s of (a, s) \<Rightarrow>
        let arg = arg\<lparr>sockfd := ans_ret a\<rparr> in
        if sockfd arg < 0
        then Some (Inl (-1, arg\<lparr>serrno := errno s, serrnoflag := uint SKCTL_SOCKET\<rparr>, s))
        else Some (Inr (arg, s)))"

definition step_nonblock :: "skctlinfo \<Rightarrow> ('b, 'z) skworld_scheme \<Rightarrow> ('b, 'z) skstep" where
  "step_nonblock arg s =
     (case gwsk_nonblock (sockfd arg) 1 s of (res, s) \<Rightarrow> loop_entry_close SKCTL_NOBLOCK res arg s)"

definition step_reuseaddr :: "skctlinfo \<Rightarrow> ('b, 'z) skworld_scheme \<Rightarrow> ('b, 'z) skstep" where
  "step_reuseaddr arg s =
     (case gwsk_reuseaddr (sockfd arg) 1 s of (res, s) \<Rightarrow> loop_entry_close SKCTL_REUSE_ADDR res arg s)"

definition step_bind :: "addrinfo \<Rightarrow> skctlinfo \<Rightarrow> ('b, 'z) skworld_scheme \<Rightarrow> ('b, 'z) skstep" where
  "step_bind ai arg s =
     (case syscall (Sys_bind (sockfd arg) (addr_arg (ai_addr ai))) s of (a, s) \<Rightarrow>
        loop_entry_close SKCTL_BIND (ans_ret a) arg s)"

definition step_listen :: "skctlinfo \<Rightarrow> ('b, 'z) skworld_scheme \<Rightarrow> ('b, 'z) skstep" where
  "step_listen arg s =
     (case syscall (Sys_listen (sockfd arg) (sk_backlog arg)) s of (a, s) \<Rightarrow>
        loop_entry_close SKCTL_LISTEN (ans_ret a) arg s)"

definition step_connect :: "addrinfo \<Rightarrow> skctlinfo \<Rightarrow> ('b, 'z) skworld_scheme \<Rightarrow> ('b, 'z) skstep" where
  "step_connect ai arg s = do {
     (res, s) \<leftarrow> gwsk_connect (sockfd arg) (ai_addr ai) s;
     if res < 0 \<and> errno s \<noteq> EINPROGRESS then loop_entry_close SKCTL_CONNECT res arg s
     else Some (Inr (arg, s)) }"

definition skctl_try :: "addrinfo \<Rightarrow> skctlinfo \<Rightarrow> ('b, 'z) skworld_scheme \<Rightarrow> ('b, 'z) skstep" where
  "skctl_try ai arg s =
     then_step (then_step (then_step (then_step (then_step (then_step
       (when_flag SKCTL_PRINTADDR (step_print ai) arg s)
       (when_flag SKCTL_SOCKET (step_socket ai)))
       (when_flag SKCTL_NOBLOCK step_nonblock))
       (when_flag SKCTL_REUSE_ADDR step_reuseaddr))
       (when_flag SKCTL_BIND (step_bind ai)))
       (when_flag SKCTL_LISTEN step_listen))
       (when_flag SKCTL_CONNECT (step_connect ai))"

subsection \<open>\<^verbatim>\<open>skctl\<close>: the loop over the addresses\<close>

partial_function (option) skctl_loop ::
    "bool \<Rightarrow> ptr \<Rightarrow> int \<Rightarrow> skctlinfo \<Rightarrow> ('b, 'z) skworld_scheme
     \<Rightarrow> (int \<times> skctlinfo \<times> ('b, 'z) skworld_scheme) option" where
  [code]: "skctl_loop addr_existed ap res arg s =
     (if ap = None then Some (res, arg, s)
      else do {
        ai \<leftarrow> get_ai ap s;
        r \<leftarrow> skctl_try ai (arg\<lparr>sk_used := None, serrno := 0, serrnoflag := 0\<rparr>) s;
        (case r of
           Inr (arg, s) \<Rightarrow> Some (0, arg\<lparr>sk_used := ap\<rparr>, s)
         | Inl (res, arg, s) \<Rightarrow>
             if addr_existed then Some (res, arg\<lparr>sk_used := ap\<rparr>, s)
             else do { ai \<leftarrow> get_ai ap s; skctl_loop addr_existed (ai_next ai) res arg s }) })"

definition skctl :: "skctlinfo \<Rightarrow> ('b, 'z) skworld_scheme \<Rightarrow> (int \<times> skctlinfo \<times> ('b, 'z) skworld_scheme) option" where
  "skctl arg s =
     (if sk_flags arg = 0 then Some (-1, arg\<lparr>serrno := 0\<rparr>, gwerr ''skctl error: arg->flags is 0.'' s)
      else do {
        let arg = (if sk_backlog arg \<le> 0 then arg\<lparr>sk_backlog := 25\<rparr> else arg);
        let addr_existed = (sk_used arg \<noteq> None);
        let ap = sk_used arg;
        (res, info, arg, s) \<leftarrow>
          (if \<not> addr_existed \<and> flisset (sk_flags arg) SKCTL_GETADDRINFO
           then map_option (\<lambda>(res, info, arg, s).
                  (res, info, if res = 0 then arg\<lparr>sk_list := info\<rparr> else arg, s)) (getaddrinfo_loop arg s)
           else Some (0, None, arg, s));
        if res < 0 then Some (-1, arg, s)
        else if sk_list arg = None then Some (-1, arg, gwerr ''skctl error: no addrinfo list.'' s)
        else do {
          (res, arg, s) \<leftarrow> skctl_loop addr_existed (if ap = None then info else ap) res arg s;
          Some (res, arg,
            if res < 0 then gwerr (skctl_str_for_flag (serrnoflag arg)) (gwerr ''skctl error'' s) else s) } })"

subsection \<open>The presets\<close>

definition skctl_preset ::
    "int \<Rightarrow> int \<Rightarrow> int option \<Rightarrow> flags16 \<Rightarrow> string option \<Rightarrow> string option \<Rightarrow> int \<Rightarrow> bool
     \<Rightarrow> skctlinfo \<Rightarrow> skctlinfo" where
  "skctl_preset protocol socktype aiflags mode node service ipfamily noblock info =
     (let h = (sk_hints info)\<lparr>ai_family := ipfamily, ai_protocol := protocol\<rparr>;
          h = (case aiflags of None \<Rightarrow> h | Some f \<Rightarrow> h\<lparr>ai_flags := f\<rparr>);
          h = h\<lparr>ai_socktype := socktype\<rparr>
      in info\<lparr>sk_node := node, sk_service := service, sk_hints := h,
           sk_flags := (if noblock then mode OR SKCTL_NOBLOCK else mode)\<rparr>)"

definition skctl_tcp_server where
  "skctl_tcp_server info node service ipfamily noblock s =
     skctl (skctl_preset IPPROTO_TCP SOCK_STREAM (Some AI_PASSIVE) SKCTL_TCP_SERVER node service ipfamily noblock info) s"

definition skctl_udp_server where
  "skctl_udp_server info node service ipfamily noblock s =
     skctl (skctl_preset IPPROTO_UDP SOCK_DGRAM (Some AI_PASSIVE) SKCTL_UDP_SERVER node service ipfamily noblock info) s"

definition skctl_tcp_client where
  "skctl_tcp_client info node service ipfamily noblock s =
     skctl (skctl_preset IPPROTO_TCP SOCK_STREAM None SKCTL_TCP_CLIENT node service ipfamily noblock info) s"

definition skctl_udp_client where
  "skctl_udp_client info node service ipfamily noblock s =
     skctl (skctl_preset IPPROTO_UDP SOCK_DGRAM None SKCTL_UDP_CLIENT node service ipfamily noblock info) s"

definition skctl_udp_connected_client where
  "skctl_udp_connected_client info node service ipfamily noblock s =
     skctl (skctl_preset IPPROTO_UDP SOCK_DGRAM None SKCTL_UDP_CONNECTED_CLIENT node service ipfamily noblock info) s"

subsection \<open>Connecting and accepting\<close>

lemma gwsk_connect_fails:
  assumes "gwsk_connect fd peer s = Some y"
  shows "\<exists>i. ans_ret (answer_at s i) = 0 \<or> ans_ret (answer_at s i) < 0 \<and> ans_errno (answer_at s i) = EINPROGRESS"
proof (induction rule: gwsk_connect.raw_induct [OF _ assms])
  case (1 rec fd peer s y)
  let ?s1 = "snd (syscall (Sys_connect fd (addr_arg peer)) (s\<lparr>errno := 0\<rparr>))"
  have an: "answer_at ?s1 i = answer_at s (Suc i)" for i by (simp add: answer_at_def syscall_def Let_def)
  have e: "fst (syscall (Sys_connect fd (addr_arg peer)) (s\<lparr>errno := 0\<rparr>)) = answer_at s 0"
    "errno ?s1 = (if ans_ret (answer_at s 0) < 0 then ans_errno (answer_at s 0) else 0)"
    by (simp_all add: answer_at_def syscall_def Let_def)
  show ?case
  proof (cases "ans_ret (answer_at s 0) = 0 \<or> ans_ret (answer_at s 0) < 0 \<and> ans_errno (answer_at s 0) = EINPROGRESS")
    case True
    then show ?thesis by blast
  next
    case False
    then have "errno ?s1 \<noteq> EINPROGRESS" using e(2) by (auto simp: EINPROGRESS_def)
    then have "rec fd peer ?s1 = Some y"
      using 1(2) False e(1) by (auto simp: split_beta split: if_splits)
    from 1(1) [OF this] show ?thesis by (auto simp: an)
  qed
qed

lemma gwsk_accept_result:
  assumes "gwsk_accept fd s = Some y"
  shows "fst y = 0"
  by (rule gwsk_accept.raw_induct [OF _ assms]) (auto simp: split_beta split: if_splits)

subsection \<open>Descriptors that are open\<close>

text \<open>
  What a record of calls leaves open: each successful \<^verbatim>\<open>socket\<close> adds its descriptor, each \<^verbatim>\<open>close\<close>
  takes one away.
\<close>

primrec socks_open :: "(nat \<Rightarrow> answer) \<Rightarrow> syscall list \<Rightarrow> int multiset" where
  "socks_open an [] = {#}"
| "socks_open an (c # cs) =
     (case c of
        Sys_socket _ _ _ \<Rightarrow>
          (if 0 \<le> ans_ret (an (length cs)) then add_mset (ans_ret (an (length cs))) (socks_open an cs)
           else socks_open an cs)
      | Sys_close fd \<Rightarrow> socks_open an cs - {#fd#}
      | _ \<Rightarrow> socks_open an cs)"

definition open_now :: "('b, 'z) world_scheme \<Rightarrow> int multiset" where
  "open_now s = socks_open (answers s) (calls s)"

text \<open>The calls that set a socket up on one address, newest first.\<close>

definition set_up_calls :: "flags16 \<Rightarrow> int \<Rightarrow> addrinfo \<Rightarrow> int \<Rightarrow> syscall list" where
  "set_up_calls fl backlog ai fd =
     (if flisset fl SKCTL_LISTEN then [Sys_listen fd backlog] else []) @
     (if flisset fl SKCTL_BIND then [Sys_bind fd (addr_arg (ai_addr ai))] else []) @
     (if flisset fl SKCTL_REUSE_ADDR then [Sys_reuseaddr fd 1] else []) @
     (if flisset fl SKCTL_NOBLOCK then [Sys_nonblock fd] else []) @
     [Sys_socket (ai_family ai) (ai_socktype ai) (ai_protocol ai)]"

subsection \<open>One address\<close>

text \<open>
  From the structure \<open>arg0\<close> and the state \<open>s0\<close>: after the calls \<open>done\<close>, all of which succeeded, the
  descriptor \<open>fd\<close> is the only new one; after a failure there is none. The first call is \<open>c0\<close>.
\<close>

definition set_up :: "skctlinfo \<Rightarrow> ('b, 'z) skworld_scheme \<Rightarrow> syscall \<Rightarrow> int \<Rightarrow> syscall list
    \<Rightarrow> skctlinfo \<Rightarrow> ('b, 'z) skworld_scheme \<Rightarrow> bool" where
  "set_up arg0 s0 c0 fd done arg s \<longleftrightarrow> sys_frame s0 s \<and> arg = arg0\<lparr>sockfd := fd\<rparr> \<and> 0 \<le> fd \<and>
     calls s = done @ calls s0 \<and> (\<exists>d. done = d @ [c0]) \<and> open_now s = add_mset fd (open_now s0) \<and>
     (\<forall>i. length (calls s0) \<le> i \<and> i < length (calls s) \<longrightarrow> 0 \<le> ans_ret (answers s0 i))"

definition torn_down :: "skctlinfo \<Rightarrow> ('b, 'z) skworld_scheme \<Rightarrow> syscall
    \<Rightarrow> int \<Rightarrow> skctlinfo \<Rightarrow> ('b, 'z) skworld_scheme \<Rightarrow> bool" where
  "torn_down arg0 s0 c0 res arg s \<longleftrightarrow> sys_frame s0 s \<and> res < 0 \<and> sockfd arg < 0 \<and>
     arg = arg0\<lparr>sockfd := sockfd arg, serrno := serrno arg, serrnoflag := serrnoflag arg\<rparr> \<and>
     open_now s = open_now s0 \<and> (\<exists>cs. calls s = cs @ c0 # calls s0)"

definition step_ok :: "skctlinfo \<Rightarrow> ('b, 'z) skworld_scheme \<Rightarrow> syscall \<Rightarrow> int \<Rightarrow> syscall list \<Rightarrow> ('b, 'z) skstep \<Rightarrow> bool" where
  "step_ok arg0 s0 c0 fd done r \<longleftrightarrow>
     (case r of None \<Rightarrow> False
      | Some (Inl (res, arg, s)) \<Rightarrow> torn_down arg0 s0 c0 res arg s
      | Some (Inr (arg, s)) \<Rightarrow> set_up arg0 s0 c0 fd done arg s)"

lemma step_ok_simps [simp]:
  "\<not> step_ok arg0 s0 c0 fd done None"
  "step_ok arg0 s0 c0 fd done (Some (Inl (res, arg, s))) \<longleftrightarrow> torn_down arg0 s0 c0 res arg s"
  "step_ok arg0 s0 c0 fd done (Some (Inr (arg, s))) \<longleftrightarrow> set_up arg0 s0 c0 fd done arg s"
  by (simp_all add: step_ok_def)

lemma then_step_ok:
  assumes "step_ok arg0 s0 c0 fd done r"
    and "\<And>arg s. set_up arg0 s0 c0 fd done arg s \<Longrightarrow> step_ok arg0 s0 c0 fd done' (f arg s)"
  shows "step_ok arg0 s0 c0 fd done' (then_step r f)"
proof (cases r)
  case (Some x)
  with assms show ?thesis by (cases x) (auto simp: then_step_def)
qed (use assms(1) in simp)

lemma sys_frame_answers:
  assumes "sys_frame s s'"
  shows "answers s' = answers s" "brk s' = brk s"
  by (simp_all add: sys_frameD [OF assms])

lemma open_now_syscall:
  "open_now (snd (syscall c s)) = socks_open (answers s) (c # calls s)"
  by (simp add: open_now_def syscall_def Let_def)

text \<open>A call on the descriptor, with \<^verbatim>\<open>LOOP_ENTRY_CLOSE\<close> after it.\<close>

lemma checked_call_ok:
  assumes "set_up arg0 s0 c0 fd done arg s"
    and "\<And>x y z. c \<noteq> Sys_socket x y z" "\<And>x. c \<noteq> Sys_close x"
  shows "step_ok arg0 s0 c0 fd (c # done)
    (case syscall c s of (a, s) \<Rightarrow> loop_entry_close fl (ans_ret a) arg s)"
proof -
  obtain a t where at: "syscall c s = (a, t)" by (cases "syscall c s")
  have u: "sys_frame s0 s" "arg = arg0\<lparr>sockfd := fd\<rparr>" "0 \<le> fd" "calls s = done @ calls s0"
    "open_now s = add_mset fd (open_now s0)"
    "\<forall>i. length (calls s0) \<le> i \<and> i < length (calls s) \<longrightarrow> 0 \<le> ans_ret (answers s0 i)" "\<exists>d. done = d @ [c0]"
    using assms(1) by (auto simp: set_up_def)
  have t: "calls t = c # calls s" "answers t = answers s" "a = answers s (length (calls s))"
    "open_now t = open_now s" "sys_frame s t"
    using at assms(2,3) sys_frame_syscall [of s c] open_now_syscall [of c s]
    by (auto simp: syscall_def Let_def open_now_def split: syscall.splits)
  have f: "sys_frame s0 t" by (rule sys_frame_trans [OF u(1) t(5)])
  show ?thesis
  proof (cases "ans_ret a < 0")
    case True
    let ?v = "gwsk_close fd t"
    have "open_now ?v = open_now s0"
      using t(4) u(5) by (simp add: gwsk_close_def open_now_syscall) (simp add: open_now_def)
    moreover have "sys_frame s0 ?v" "calls ?v = Sys_close fd # c # done @ calls s0"
      using sys_frame_trans [OF f sys_frame_syscall [of t "Sys_close fd"]] t(1) u(4)
      by (simp_all add: gwsk_close_def syscall_def Let_def)
    ultimately show ?thesis
      using True at u(2,7) by (auto simp: step_ok_def loop_entry_close_def torn_down_def Let_def)
  next
    case False
    have "answers s0 = answers s" using sys_frame_answers [OF u(1)] by simp
    with False t u have "\<forall>i. length (calls s0) \<le> i \<and> i < length (calls t) \<longrightarrow> 0 \<le> ans_ret (answers s0 i)"
      by (auto simp: less_Suc_eq)
    with False at t u f show ?thesis
      by (auto simp: step_ok_def loop_entry_close_def set_up_def)
  qed
qed

lemma when_flag_ok:
  assumes "set_up arg0 s0 c0 fd done arg s" "flisset (sk_flags arg0) fl \<Longrightarrow> step_ok arg0 s0 c0 fd (c # done) (f arg s)"
  shows "step_ok arg0 s0 c0 fd ((if flisset (sk_flags arg0) fl then [c] else []) @ done) (when_flag fl f arg s)"
proof -
  have "sk_flags arg = sk_flags arg0" using assms(1) by (simp add: set_up_def)
  with assms show ?thesis by (simp add: when_flag_def)
qed

lemma socket_ok:
  assumes "fd = ans_ret (answers s (length (calls s)))"
  shows "step_ok arg s (Sys_socket (ai_family ai) (ai_socktype ai) (ai_protocol ai)) fd
     [Sys_socket (ai_family ai) (ai_socktype ai) (ai_protocol ai)] (step_socket ai arg s)"
  using assms sys_frame_syscall [of s "Sys_socket (ai_family ai) (ai_socktype ai) (ai_protocol ai)"]
  by (auto simp: step_ok_def step_socket_def set_up_def torn_down_def syscall_def Let_def open_now_def
      less_Suc_eq)

lemma skctl_try_ok:
  assumes "flisset (sk_flags arg) SKCTL_SOCKET" "\<not> flisset (sk_flags arg) SKCTL_CONNECT"
    "\<not> flisset (sk_flags arg) SKCTL_PRINTADDR" "fd = ans_ret (answers s (length (calls s)))"
  shows "step_ok arg s (Sys_socket (ai_family ai) (ai_socktype ai) (ai_protocol ai)) fd (set_up_calls (sk_flags arg) (sk_backlog arg) ai fd) (skctl_try ai arg s)"
proof -
  let ?sock = "Sys_socket (ai_family ai) (ai_socktype ai) (ai_protocol ai)"
  let ?w = "\<lambda>fl c. if flisset (sk_flags arg) fl then [c] else [] :: syscall list"
  have 1: "step_ok arg s ?sock fd [?sock] (then_step (when_flag SKCTL_PRINTADDR (step_print ai) arg s)
      (when_flag SKCTL_SOCKET (step_socket ai)))"
    using socket_ok [OF assms(4)] assms(1,3) by (simp add: when_flag_def then_step_def)
  have fdv: "sockfd arg' = fd" "sk_backlog arg' = sk_backlog arg" if "set_up arg s ?sock fd d arg' s'" for d arg' s'
    using that by (simp_all add: set_up_def)
  have 2: "step_ok arg s ?sock fd (?w SKCTL_NOBLOCK (Sys_nonblock fd) @ d) (when_flag SKCTL_NOBLOCK step_nonblock arg' s')"
    if "set_up arg s ?sock fd d arg' s'" for d arg' s'
    by (rule when_flag_ok [OF that])
      (use checked_call_ok [OF that, of "Sys_nonblock fd" SKCTL_NOBLOCK] fdv(1) [OF that] in
        \<open>simp add: step_nonblock_def gwsk_nonblock_def split_beta\<close>)
  have 3: "step_ok arg s ?sock fd (?w SKCTL_REUSE_ADDR (Sys_reuseaddr fd 1) @ d) (when_flag SKCTL_REUSE_ADDR step_reuseaddr arg' s')"
    if "set_up arg s ?sock fd d arg' s'" for d arg' s'
    by (rule when_flag_ok [OF that])
      (use checked_call_ok [OF that, of "Sys_reuseaddr fd 1" SKCTL_REUSE_ADDR] fdv(1) [OF that] in
        \<open>simp add: step_reuseaddr_def gwsk_reuseaddr_def split_beta\<close>)
  have 4: "step_ok arg s ?sock fd (?w SKCTL_BIND (Sys_bind fd (addr_arg (ai_addr ai))) @ d) (when_flag SKCTL_BIND (step_bind ai) arg' s')"
    if "set_up arg s ?sock fd d arg' s'" for d arg' s'
    by (rule when_flag_ok [OF that])
      (use checked_call_ok [OF that, of "Sys_bind fd (addr_arg (ai_addr ai))" SKCTL_BIND] fdv(1) [OF that] in
        \<open>simp add: step_bind_def\<close>)
  have 5: "step_ok arg s ?sock fd (?w SKCTL_LISTEN (Sys_listen fd (sk_backlog arg)) @ d) (when_flag SKCTL_LISTEN step_listen arg' s')"
    if "set_up arg s ?sock fd d arg' s'" for d arg' s'
    by (rule when_flag_ok [OF that])
      (use checked_call_ok [OF that, of "Sys_listen fd (sk_backlog arg)" SKCTL_LISTEN] fdv [OF that] in
        \<open>simp add: step_listen_def\<close>)
  have 6: "step_ok arg s ?sock fd d (when_flag SKCTL_CONNECT (step_connect ai) arg' s')"
    if "set_up arg s ?sock fd d arg' s'" for d arg' s'
    using that assms(2) by (simp add: when_flag_def step_ok_def set_up_def)
  show ?thesis
    unfolding skctl_try_def set_up_calls_def
    by (rule then_step_ok [OF then_step_ok [OF then_step_ok [OF then_step_ok [OF then_step_ok [OF 1 2] 3] 4] 5] 6])
qed

subsection \<open>The loop over the addresses\<close>

text \<open>
  The loop ends with a socket on the address \<open>a\<close>, set up by the calls at the head of the record,
  all of which succeeded, or without one. Either way the addresses before were tried.
\<close>

definition tried :: "('b, 'z) skworld_scheme \<Rightarrow> addr \<Rightarrow> bool" where
  "tried s a \<longleftrightarrow> (\<exists>ai. ais s a = Some ai \<and>
     Sys_socket (ai_family ai) (ai_socktype ai) (ai_protocol ai) \<in> set (calls s))"

definition socket_on :: "('b, 'z) skworld_scheme \<Rightarrow> addr list \<Rightarrow> skctlinfo \<Rightarrow> ('b, 'z) skworld_scheme \<Rightarrow> bool" where
  "socket_on s L arg s' \<longleftrightarrow> (\<exists>xs a ys ai cs. L = xs @ a # ys \<and> ais s a = Some ai \<and> sk_used arg = Some a \<and>
     0 \<le> sockfd arg \<and> open_now s' = add_mset (sockfd arg) (open_now s) \<and>
     calls s' = set_up_calls (sk_flags arg) (sk_backlog arg) ai (sockfd arg) @ cs \<and>
     (\<forall>i. length cs \<le> i \<and> i < length (calls s') \<longrightarrow> 0 \<le> ans_ret (answers s i)) \<and> (\<forall>x \<in> set xs. tried s' x))"

definition no_socket :: "('b, 'z) skworld_scheme \<Rightarrow> addr list \<Rightarrow> skctlinfo \<Rightarrow> ('b, 'z) skworld_scheme \<Rightarrow> bool" where
  "no_socket s L arg s' \<longleftrightarrow> sk_used arg = None \<and> sockfd arg < 0 \<and> open_now s' = open_now s \<and>
     (\<forall>x \<in> set L. tried s' x)"

text \<open>What the loop changes of the structure.\<close>

definition same_request :: "skctlinfo \<Rightarrow> skctlinfo \<Rightarrow> bool" where
  "same_request arg arg' \<longleftrightarrow>
     arg' = arg\<lparr>sk_used := sk_used arg', sockfd := sockfd arg', serrno := serrno arg', serrnoflag := serrnoflag arg'\<rparr>"

lemma sys_frame_ais:
  fixes s s' :: "('b, 'z) skworld_scheme"
  assumes "sys_frame s s'"
  shows "ais s' = ais s"
  by (subst assms [unfolded sys_frame_def]) simp

lemma tried_mono: "tried s a \<Longrightarrow> sys_frame s s' \<Longrightarrow> calls s' = cs @ calls s \<Longrightarrow> tried s' a"
  by (auto simp: tried_def sys_frame_ais)

lemma skctl_loop_step:
  assumes "chain (ai_nx s) ap (a # L)" "flisset (sk_flags arg) SKCTL_SOCKET"
    "\<not> flisset (sk_flags arg) SKCTL_CONNECT" "\<not> flisset (sk_flags arg) SKCTL_PRINTADDR"
  obtains (on) arg' s' where "skctl_loop False ap res0 arg s = Some (0, arg', s')" "sys_frame s s'"
      "\<exists>cs. calls s' = cs @ calls s" "same_request arg arg'" "socket_on s (a # L) arg' s'"
    | (next1) res arg' s' nx where "skctl_loop False ap res0 arg s = skctl_loop False nx res arg' s'"
      "chain (ai_nx s') nx L" "res < 0" "sys_frame s s'" "\<exists>cs. calls s' = cs @ calls s" "same_request arg arg'"
      "no_socket s [a] arg' s'"
proof -
  obtain ai where ai: "ap = Some a" "ais s a = Some ai" "chain (ai_nx s) (ai_next ai) L"
    using assms(1) by (auto simp: ai_nx_def)
  let ?sock = "Sys_socket (ai_family ai) (ai_socktype ai) (ai_protocol ai)"
  let ?arg = "arg\<lparr>sk_used := None, serrno := 0, serrnoflag := 0\<rparr>"
  let ?fd = "ans_ret (answers s (length (calls s)))"
  let ?done = "set_up_calls (sk_flags arg) (sk_backlog arg) ai ?fd"
  obtain r where r: "skctl_try ai ?arg s = Some r" "step_ok ?arg s ?sock ?fd ?done (Some r)"
    using skctl_try_ok [of ?arg ?fd s ai] assms(2-4) by (cases "skctl_try ai ?arg s") auto
  show thesis
  proof (cases r)
    case (Inr p)
    obtain arg' s' where p: "r = Inr (arg', s')" using Inr by (cases p) simp
    with r(2) have u: "set_up ?arg s ?sock ?fd ?done arg' s'" by simp
    show thesis
    proof (rule on)
      show "skctl_loop False ap res0 arg s = Some (0, arg'\<lparr>sk_used := Some a\<rparr>, s')"
        using ai(1,2) r(1) p by (simp add: skctl_loop.simps [of _ "Some a"] get_ai_def)
      show "socket_on s (a # L) (arg'\<lparr>sk_used := Some a\<rparr>) s'"
        unfolding socket_on_def
        by (rule exI [of _ "[]"], rule exI [of _ a], rule exI [of _ L], rule exI [of _ ai], rule exI [of _ "calls s"])
          (use u ai(2) in \<open>auto simp: set_up_def\<close>)
    qed (use u in \<open>auto simp: set_up_def same_request_def\<close>)
  next
    case (Inl p)
    obtain res arg' s' where p: "r = Inl (res, arg', s')" using Inl by (cases p) simp
    with r(2) have d: "torn_down ?arg s ?sock res arg' s'" by simp
    then have f: "sys_frame s s'" by (simp add: torn_down_def)
    have a: "arg' = arg\<lparr>sk_used := None, sockfd := sockfd arg', serrno := serrno arg', serrnoflag := serrnoflag arg'\<rparr>"
    proof -
      have "arg' = ?arg\<lparr>sockfd := sockfd arg', serrno := serrno arg', serrnoflag := serrnoflag arg'\<rparr>"
        using d by (simp only: torn_down_def)
      also have "\<dots> = arg\<lparr>sk_used := None, sockfd := sockfd arg', serrno := serrno arg', serrnoflag := serrnoflag arg'\<rparr>"
        by simp
      finally show ?thesis .
    qed
    show thesis
    proof (rule next1)
      show "skctl_loop False ap res0 arg s = skctl_loop False (ai_next ai) res arg' s'"
        using ai(1,2) r(1) p by (simp add: skctl_loop.simps [of _ "Some a"] get_ai_def sys_frame_ais [OF f])
      have "ai_nx s' = ai_nx s" by (simp add: ai_nx_def fun_eq_iff sys_frame_ais [OF f])
      with ai(3) show "chain (ai_nx s') (ai_next ai) L" by simp
      have "sk_used arg' = None" by (subst a) simp
      then show "no_socket s [a] arg' s'"
        using d ai(2) sys_frame_ais [OF f] by (auto simp: no_socket_def torn_down_def tried_def)
      show "same_request arg arg'" unfolding same_request_def using a \<open>sk_used arg' = None\<close> by simp
      show "\<exists>cs. calls s' = cs @ calls s" using d unfolding torn_down_def by (metis append_Cons append_Nil append_assoc)
    qed (use d f in \<open>simp_all add: torn_down_def\<close>)
  qed
qed

lemma same_request_trans: "same_request x y \<Longrightarrow> same_request y z \<Longrightarrow> same_request x z"
proof -
  assume a: "same_request x y" and b: "same_request y z"
  have "z = y\<lparr>sk_used := sk_used z, sockfd := sockfd z, serrno := serrno z, serrnoflag := serrnoflag z\<rparr>"
    using b by (simp only: same_request_def)
  also have "\<dots> = x\<lparr>sk_used := sk_used z, sockfd := sockfd z, serrno := serrno z, serrnoflag := serrnoflag z\<rparr>"
    by (subst a [unfolded same_request_def]) simp
  finally show "same_request x z" unfolding same_request_def .
qed

lemma same_requestD:
  assumes "same_request x y"
  shows "sk_flags y = sk_flags x" "sk_backlog y = sk_backlog x" "sk_list y = sk_list x"
    "sk_hints y = sk_hints x" "sk_node y = sk_node x" "sk_service y = sk_service x"
  by (subst assms [unfolded same_request_def], simp)+

lemma skctl_loop_ok:
  assumes "chain (ai_nx s) ap L" "L \<noteq> []" "flisset (sk_flags arg) SKCTL_SOCKET"
    "\<not> flisset (sk_flags arg) SKCTL_CONNECT" "\<not> flisset (sk_flags arg) SKCTL_PRINTADDR"
  shows "\<exists>res arg' s'. skctl_loop False ap res0 arg s = Some (res, arg', s') \<and> sys_frame s s' \<and>
    (\<exists>cs. calls s' = cs @ calls s) \<and> same_request arg arg' \<and>
    (if res = 0 then socket_on s L arg' s' else res < 0 \<and> no_socket s L arg' s')"
  using assms
proof (induction L arbitrary: ap s arg res0)
  case Nil
  then show ?case by simp
next
  case (Cons a L)
  show ?case
  proof (cases rule: skctl_loop_step [OF Cons.prems(1,3-5), of res0, case_names on next1])
    case (on arg' s')
    then show ?thesis by (intro exI [of _ 0] exI [of _ arg'] exI [of _ s']) simp
  next
    case (next1 res arg1 s1 nx)
    show ?thesis
    proof (cases "L = []")
      case True
      with next1(2) have "nx = None" by simp
      with next1 True show ?thesis
        by (intro exI [of _ res] exI [of _ arg1] exI [of _ s1]) (simp add: skctl_loop.simps [of _ None])
    next
      case False
      from Cons.IH [OF next1(2) False, of arg1 res] Cons.prems(3-5) same_requestD [OF next1(6)]
      obtain r arg' s' where r: "skctl_loop False nx res arg1 s1 = Some (r, arg', s')" "sys_frame s1 s'"
        "\<exists>cs. calls s' = cs @ calls s1" "same_request arg1 arg'"
        "if r = 0 then socket_on s1 L arg' s' else r < 0 \<and> no_socket s1 L arg' s'"
        by auto
      have ais: "ais s1 = ais s" by (rule sys_frame_ais [OF next1(4)])
      have an: "answers s1 = answers s" using sys_frame_answers [OF next1(4)] by simp
      have op: "open_now s1 = open_now s" and ta: "tried s1 a" using next1(7) by (simp_all add: no_socket_def)
      have ta': "tried s' a" using tried_mono [OF ta r(2)] r(3) by blast
      have "if r = 0 then socket_on s (a # L) arg' s' else r < 0 \<and> no_socket s (a # L) arg' s'"
      proof (cases "r = 0")
        case True
        with r(5) obtain xs b ys ai cs where w: "L = xs @ b # ys" "ais s1 b = Some ai" "sk_used arg' = Some b"
          "0 \<le> sockfd arg'" "open_now s' = add_mset (sockfd arg') (open_now s1)"
          "calls s' = set_up_calls (sk_flags arg') (sk_backlog arg') ai (sockfd arg') @ cs"
          "\<forall>i. length cs \<le> i \<and> i < length (calls s') \<longrightarrow> 0 \<le> ans_ret (answers s1 i)" "\<forall>x \<in> set xs. tried s' x"
          unfolding socket_on_def by auto
        have "socket_on s (a # L) arg' s'"
          unfolding socket_on_def
          by (rule exI [of _ "a # xs"], rule exI [of _ b], rule exI [of _ ys], rule exI [of _ ai], rule exI [of _ cs])
            (use w ais an op ta' in auto)
        with True show ?thesis by simp
      next
        case False
        with r(5) op ta' show ?thesis by (simp add: no_socket_def)
      qed
      moreover have "sys_frame s s'" by (rule sys_frame_trans [OF next1(4) r(2)])
      moreover have "same_request arg arg'" by (rule same_request_trans [OF next1(6) r(4)])
      moreover have "\<exists>cs. calls s' = cs @ calls s" using r(3) next1(5) by (metis append_assoc)
      moreover have "skctl_loop False ap res0 arg s = Some (r, arg', s')" using next1(1) r(1) by simp
      ultimately show ?thesis by blast
    qed
  qed
qed

subsection \<open>The list of addresses\<close>

lemma ai_nx_iff: "ai_nx s a = Some r \<longleftrightarrow> (\<exists>x. ais s a = Some x \<and> ai_next x = r)"
  by (auto simp: ai_nx_def)

lemma store_ais_ok:
  assumes "store_ais xs s = (p, t)"
  shows "chain (ai_nx t) p [brk s..<brk s + length xs] \<and> brk t = brk s + length xs \<and>
    t = s\<lparr>brk := brk t, ais := ais t\<rparr> \<and>
    (\<forall>b. b < brk s \<or> brk s + length xs \<le> b \<longrightarrow> ais t b = ais s b) \<and>
    (\<forall>i < length xs. \<exists>q. ais t (brk s + i) = Some ((xs ! i)\<lparr>ai_next := q\<rparr>))"
  using assms
proof (induction xs arbitrary: s p t)
  case Nil
  then show ?case by simp
next
  case (Cons x xs)
  obtain q u where u: "store_ais xs (s\<lparr>brk := Suc (brk s)\<rparr>) = (q, u)" by fastforce
  with Cons.prems have t: "p = Some (brk s)" "t = u\<lparr>ais := (ais u)(brk s \<mapsto> x\<lparr>ai_next := q\<rparr>)\<rparr>" by auto
  note ih = Cons.IH [OF u, simplified]
  have nx: "ai_nx t = (ai_nx u)(brk s \<mapsto> q)" by (auto simp: ai_nx_def t(2) fun_eq_iff)
  have "[brk s..<brk s + length (x # xs)] = brk s # [Suc (brk s)..<brk s + length (x # xs)]"
    by (rule upt_conv_Cons) simp
  then have "[brk s..<brk s + length (x # xs)] = brk s # [Suc (brk s)..<Suc (brk s + length xs)]"
    by (simp only: list.size add_Suc_right add_0_right)
  moreover have "chain (ai_nx t) p (brk s # [Suc (brk s)..<Suc (brk s + length xs)])"
    using Cons.IH [OF u] nx t(1) by (simp del: upt_Suc)
  ultimately have "chain (ai_nx t) p [brk s..<brk s + length (x # xs)]" by (simp only:)
  moreover have "t = s\<lparr>brk := brk t, ais := ais t\<rparr>"
    by (subst t(2), subst ih [THEN conjunct2, THEN conjunct2, THEN conjunct1]) (simp add: t(2))
  moreover have "\<exists>q. ais t (brk s + i) = Some (((x # xs) ! i)\<lparr>ai_next := q\<rparr>)" if "i < length (x # xs)" for i
  proof (cases i)
    case 0
    then show ?thesis using t(2) by auto
  next
    case (Suc j)
    with that ih have "\<exists>q. ais u (Suc (brk s + j)) = Some ((xs ! j)\<lparr>ai_next := q\<rparr>)" by simp
    with Suc t(2) show ?thesis by simp
  qed
  moreover have "brk t = brk s + length (x # xs)" using ih t(2) by simp
  moreover have "ais t b = ais s b" if "b < brk s \<or> brk s + length (x # xs) \<le> b" for b
    using ih t(2) that by auto
  ultimately show ?case by blast
qed

lemma freeaddrinfo_chain:
  assumes "chain (ai_nx s) p L"
  shows "freeaddrinfo p s = Some (s\<lparr>ais := \<lambda>b. if b \<in> set L then None else ais s b\<rparr>)"
  using assms
proof (induction L arbitrary: p s)
  case Nil
  then show ?case by (simp add: freeaddrinfo.simps)
next
  case (Cons a L)
  from Cons.prems obtain x where x: "p = Some a" "ais s a = Some x" "chain (ai_nx s) (ai_next x) L"
    by (auto simp: ai_nx_iff)
  let ?t = "s\<lparr>ais := (ais s)(a := None)\<rparr>"
  have "a \<notin> set L" by (rule chain_tail_notin [OF Cons.prems])
  moreover have "ai_nx ?t = (ai_nx s)(a := None)" by (auto simp: ai_nx_def fun_eq_iff)
  ultimately have "chain (ai_nx ?t) (ai_next x) L" using x(3) by simp
  from Cons.IH [OF this] have "freeaddrinfo (ai_next x) ?t =
      Some (?t\<lparr>ais := \<lambda>b. if b \<in> set L then None else ais ?t b\<rparr>)" .
  moreover have "?t\<lparr>ais := \<lambda>b. if b \<in> set L then None else ais ?t b\<rparr> =
      s\<lparr>ais := \<lambda>b. if b \<in> set (a # L) then None else ais s b\<rparr>"
    by (intro skworld.equality) (auto simp: fun_eq_iff)
  ultimately show ?case using x(1,2) by (simp add: freeaddrinfo.simps [of "Some a"])
qed


subsection \<open>The whole of \<^verbatim>\<open>skctl\<close>\<close>

text \<open>The answers after which \<^verbatim>\<open>getaddrinfo\<close> is called again.\<close>

definition gai_again :: "answer \<Rightarrow> bool" where
  "gai_again a \<longleftrightarrow> ans_ret a = EAI_AGAIN \<or> ans_ret a = EAI_SYSTEM \<and> ans_errno a = EINTR"

lemma getaddrinfo_again:
  assumes "gai_again (answer_at s 0)"
  obtains t where "getaddrinfo_loop arg s = getaddrinfo_loop (arg\<lparr>serrno := 0, serrnoflag := 0\<rparr>) t"
    "sys_frame s t" "calls t = Sys_getaddrinfo (sk_node arg) (sk_service arg) (sk_hints arg) # calls s"
    "\<And>i. answer_at t i = answer_at s (Suc i)" "open_now t = open_now s"
proof -
  let ?c = "Sys_getaddrinfo (sk_node arg) (sk_service arg) (sk_hints arg)"
  let ?t = "snd (syscall ?c s)"
  have "ans_ret (answer_at s 0) \<noteq> 0" "ans_ret (answer_at s 0) < 0"
    using assms by (auto simp: gai_again_def EAI_AGAIN_def EAI_SYSTEM_def)
  then have "getaddrinfo_loop arg s = getaddrinfo_loop (arg\<lparr>serrno := 0, serrnoflag := 0\<rparr>) ?t"
    using assms by (auto simp: getaddrinfo_loop.simps [of arg s] gai_again_def syscall_def Let_def answer_at_def)
  then show thesis
    by (rule that) (simp_all add: syscall_def Let_def answer_at_def open_now_def sys_frame_def)
qed

lemma getaddrinfo_loop_ok:
  assumes "\<forall>i < k. gai_again (answer_at s i)" "ans_ret (answer_at s k) = 0" "ans_addrs (answer_at s k) = As"
  shows "\<exists>p s' u. getaddrinfo_loop arg s = Some (0, p, arg\<lparr>serrno := 0, serrnoflag := 0\<rparr>, s') \<and>
    sys_frame s u \<and> store_ais As u = (p, s') \<and> open_now u = open_now s \<and>
    (\<exists>cs. calls u = cs @ calls s \<and> length cs = Suc k)"
  using assms
proof (induction k arbitrary: s arg)
  case 0
  let ?u = "snd (syscall (Sys_getaddrinfo (sk_node arg) (sk_service arg) (sk_hints arg)) s)"
  obtain p t where p: "store_ais As ?u = (p, t)" by fastforce
  have "calls ?u = [Sys_getaddrinfo (sk_node arg) (sk_service arg) (sk_hints arg)] @ calls s"
    by (simp add: syscall_def Let_def)
  then have "\<exists>cs. calls ?u = cs @ calls s \<and> length cs = Suc 0"
    by (intro exI [of _ "[Sys_getaddrinfo (sk_node arg) (sk_service arg) (sk_hints arg)]"]) simp
  moreover have "open_now ?u = open_now s" by (simp only: open_now_syscall) (simp add: open_now_def)
  moreover have "getaddrinfo_loop arg s = Some (0, p, arg\<lparr>serrno := 0, serrnoflag := 0\<rparr>, t)"
    using 0 p by (simp add: getaddrinfo_loop.simps [of arg s] split_beta Let_def)
       (simp add: syscall_def Let_def answer_at_def EAI_SYSTEM_def)
  ultimately show ?case using p by (intro exI [of _ p] exI [of _ t] exI [of _ ?u]) simp
next
  case (Suc k)
  have "gai_again (answer_at s 0)" using Suc.prems(1) by simp
  then obtain t where t: "getaddrinfo_loop arg s = getaddrinfo_loop (arg\<lparr>serrno := 0, serrnoflag := 0\<rparr>) t"
    "sys_frame s t" "calls t = Sys_getaddrinfo (sk_node arg) (sk_service arg) (sk_hints arg) # calls s"
    "\<And>i. answer_at t i = answer_at s (Suc i)" "open_now t = open_now s"
    using getaddrinfo_again by blast
  from Suc.IH [of t "arg\<lparr>serrno := 0, serrnoflag := 0\<rparr>"] Suc.prems t(4)
  obtain p s' u where u: "getaddrinfo_loop (arg\<lparr>serrno := 0, serrnoflag := 0\<rparr>) t =
      Some (0, p, arg\<lparr>serrno := 0, serrnoflag := 0\<rparr>, s')"
    "sys_frame t u" "store_ais As u = (p, s')" "open_now u = open_now t" "\<exists>cs. calls u = cs @ calls t \<and> length cs = Suc k"
    by auto
  obtain cs where cs: "calls u = cs @ calls t" "length cs = Suc k" using u(5) by blast
  have "\<exists>cs. calls u = cs @ calls s \<and> length cs = Suc (Suc k)"
    using cs t(3) by (intro exI [of _ "cs @ [Sys_getaddrinfo (sk_node arg) (sk_service arg) (sk_hints arg)]"]) simp
  with t u sys_frame_trans [OF t(2) u(2)] show ?case by auto
qed

text \<open>Positions in the list of the new addresses.\<close>

lemma upt_split:
  assumes "[b..<b + n] = xs @ a # ys"
  shows "a = b + length xs" "length xs < n" "i < length xs \<Longrightarrow> b + i \<in> set xs"
proof -
  have l: "length [b..<b + n] = length xs + Suc (length ys)" by (simp only: assms) simp
  then show n: "length xs < n" by simp
  have "[b..<b + n] ! length xs = a" by (simp only: assms nth_append_length)
  with n show "a = b + length xs" by simp
  assume "i < length xs"
  with n have "[b..<b + n] ! i = b + i" by simp
  moreover have "[b..<b + n] ! i = xs ! i" using \<open>i < length xs\<close> by (simp only: assms nth_append if_True)
  ultimately show "b + i \<in> set xs" using \<open>i < length xs\<close> by (metis nth_mem)
qed

lemma set_up_calls_next [simp]: "set_up_calls fl bl (x\<lparr>ai_next := q\<rparr>) fd = set_up_calls fl bl x fd"
  by (simp add: set_up_calls_def)

abbreviation socket_call :: "addrinfo \<Rightarrow> syscall" where
  "socket_call x \<equiv> Sys_socket (ai_family x) (ai_socktype x) (ai_protocol x)"

text \<open>What \<^verbatim>\<open>skctl\<close> leaves behind, in terms of the addresses that \<^verbatim>\<open>getaddrinfo\<close> reported.\<close>

definition ready_on :: "skctlinfo \<Rightarrow> ('b, 'z) skworld_scheme \<Rightarrow> addrinfo list
    \<Rightarrow> skctlinfo \<Rightarrow> ('b, 'z) skworld_scheme \<Rightarrow> bool" where
  "ready_on arg s As arg' s' \<longleftrightarrow> (\<exists>i cs. i < length As \<and> sk_used arg' = Some (brk s + i) \<and> 0 \<le> sockfd arg' \<and>
     open_now s' = add_mset (sockfd arg') (open_now s) \<and>
     calls s' = set_up_calls (sk_flags arg) (if sk_backlog arg \<le> 0 then 25 else sk_backlog arg) (As ! i) (sockfd arg') @ cs \<and>
     (\<forall>j. length cs \<le> j \<and> j < length (calls s') \<longrightarrow> 0 \<le> ans_ret (answers s j)) \<and>
     (\<forall>x \<in> set (take i As). socket_call x \<in> set (calls s')))"

definition none_ready :: "('b, 'z) skworld_scheme \<Rightarrow> addrinfo list \<Rightarrow> skctlinfo \<Rightarrow> ('b, 'z) skworld_scheme \<Rightarrow> bool" where
  "none_ready s As arg' s' \<longleftrightarrow> sk_used arg' = None \<and> sockfd arg' < 0 \<and> open_now s' = open_now s \<and>
     (\<forall>x \<in> set As. socket_call x \<in> set (calls s'))"

lemma skctl_ok:
  assumes fl: "flisset (sk_flags arg) SKCTL_GETADDRINFO" "flisset (sk_flags arg) SKCTL_SOCKET"
      "\<not> flisset (sk_flags arg) SKCTL_CONNECT" "\<not> flisset (sk_flags arg) SKCTL_PRINTADDR"
    and used: "sk_used arg = None"
    and an: "\<forall>i < k. gai_again (answer_at s i)" "ans_ret (answer_at s k) = 0"
      "ans_addrs (answer_at s k) = As" "As \<noteq> []"
    and fresh: "\<forall>b \<ge> brk s. ais s b = None"
  shows "\<exists>res arg' s' s''. skctl arg s = Some (res, arg', s') \<and>
    (if res = 0 then ready_on arg s As arg' s' else res < 0 \<and> none_ready s As arg' s') \<and>
    skctlinfo_free arg' False s' = Some (Some (arg'\<lparr>sk_list := None\<rparr>), s'') \<and> ais s'' = ais s"
proof -
  define arg0 where "arg0 = (if sk_backlog arg \<le> 0 then arg\<lparr>sk_backlog := 25\<rparr> else arg)"
  have a0: "sk_flags arg0 = sk_flags arg" "sk_used arg0 = None"
    "sk_backlog arg0 = (if sk_backlog arg \<le> 0 then 25 else sk_backlog arg)"
    using used by (auto simp: arg0_def)
  obtain p t u where g: "getaddrinfo_loop arg0 s = Some (0, p, arg0\<lparr>serrno := 0, serrnoflag := 0\<rparr>, t)"
    "sys_frame s u" "store_ais As u = (p, t)" "open_now u = open_now s"
    using getaddrinfo_loop_ok [OF an(1-3)] by metis
  have bu: "brk u = brk s" "answers u = answers s" "ais u = ais s"
    using sys_frame_answers [OF g(2)] sys_frame_ais [OF g(2)] by simp_all
  let ?L = "[brk s..<brk s + length As]"
  have st: "chain (ai_nx t) p ?L" "t = u\<lparr>brk := brk t, ais := ais t\<rparr>"
    "\<forall>b. b < brk s \<or> brk s + length As \<le> b \<longrightarrow> ais t b = ais s b"
    "\<forall>i < length As. \<exists>q. ais t (brk s + i) = Some ((As ! i)\<lparr>ai_next := q\<rparr>)"
    using store_ais_ok [OF g(3)] unfolding bu by blast+
  have "open_now t = open_now u" "answers t = answers u" by (subst st(2), simp add: open_now_def)+
  then have tu: "open_now t = open_now s" "answers t = answers s" using g(4) bu(2) by simp_all
  have L: "?L \<noteq> []" using an(4) by simp
  then have pn: "p \<noteq> None" using st(1) by (metis chain_None)
  define arg1 where "arg1 = arg0\<lparr>serrno := 0, serrnoflag := 0, sk_list := p\<rparr>"
  obtain res arg' s1 where r: "skctl_loop False p 0 arg1 t = Some (res, arg', s1)" "sys_frame t s1"
    "same_request arg1 arg'" "if res = 0 then socket_on t ?L arg' s1 else res < 0 \<and> no_socket t ?L arg' s1"
    using skctl_loop_ok [OF st(1) L, of arg1 0] fl a0(1) by (auto simp: arg1_def)
  define s' where "s' = (if res < 0 then gwerr (skctl_str_for_flag (serrnoflag arg')) (gwerr ''skctl error'' s1) else s1)"
  have s': "calls s' = calls s1" "open_now s' = open_now s1" "ais s' = ais t"
    using sys_frame_ais [OF r(2)] by (simp_all add: s'_def gwerr_def open_now_def)
  have "sk_flags arg \<noteq> 0" "sk_list arg1 = p" using fl(1) by (auto simp: flisset_def arg1_def)
  then have "skctl arg s = Some (res, arg', s')"
    using g(1) r(1) fl(1) a0 pn
    by (auto simp: skctl_def arg0_def [symmetric] arg1_def [symmetric] s'_def [symmetric] Let_def)
  moreover have "sk_flags arg' = sk_flags arg" "sk_backlog arg' = sk_backlog arg0" "sk_list arg' = p"
    using same_requestD [OF r(3)] a0(1) by (simp_all add: arg1_def)
  note af = this
  have tri: "socket_call (As ! i) \<in> set (calls s')" if "tried s1 (brk s + i)" "i < length As" for i
    using that spec [OF st(4), of i] sys_frame_ais [OF r(2)] s'(1) by (auto simp: tried_def)
  have "if res = 0 then ready_on arg s As arg' s' else res < 0 \<and> none_ready s As arg' s'"
  proof (cases "res = 0")
    case True
    with r(4) obtain xs a ys ai cs where w: "?L = xs @ a # ys" "ais t a = Some ai" "sk_used arg' = Some a"
      "0 \<le> sockfd arg'" "open_now s1 = add_mset (sockfd arg') (open_now t)"
      "calls s1 = set_up_calls (sk_flags arg') (sk_backlog arg') ai (sockfd arg') @ cs"
      "\<forall>i. length cs \<le> i \<and> i < length (calls s1) \<longrightarrow> 0 \<le> ans_ret (answers t i)" "\<forall>x \<in> set xs. tried s1 x"
      unfolding socket_on_def by auto
    note sp = upt_split [OF w(1)]
    obtain q where "ai = (As ! length xs)\<lparr>ai_next := q\<rparr>" using spec [OF st(4), of "length xs"] sp(1,2) w(2) by auto
    moreover have "\<forall>x \<in> set (take (length xs) As). socket_call x \<in> set (calls s')"
    proof
      fix x assume "x \<in> set (take (length xs) As)"
      then obtain i where "i < length xs" "x = As ! i" "i < length As" by (auto simp: in_set_conv_nth)
      with sp(3) w(8) tri show "socket_call x \<in> set (calls s')" by blast
    qed
    ultimately have "ready_on arg s As arg' s'"
      unfolding ready_on_def using w(3-7) sp(1,2) af a0(3) s' tu
      by (intro exI [of _ "length xs"] exI [of _ cs]) simp
    with True show ?thesis by simp
  next
    case False
    then have "no_socket t ?L arg' s1" "res < 0" using r(4) by simp_all
    note ns = this
    have "\<forall>x \<in> set As. socket_call x \<in> set (calls s')"
    proof
      fix x assume "x \<in> set As"
      then obtain i where i: "i < length As" "x = As ! i" by (auto simp: in_set_conv_nth)
      with ns(1) have "tried s1 (brk s + i)" by (simp add: no_socket_def)
      with i tri show "socket_call x \<in> set (calls s')" by blast
    qed
    with ns(1) s' tu have "none_ready s As arg' s'" by (simp add: none_ready_def no_socket_def)
    with False \<open>res < 0\<close> show ?thesis by simp
  qed
  moreover have "chain (ai_nx s') p ?L"
  proof -
    have "ai_nx s' = ai_nx t" by (simp add: ai_nx_def fun_eq_iff s'(3))
    with st(1) show ?thesis by simp
  qed
  from freeaddrinfo_chain [OF this] have "skctlinfo_free arg' False s' =
      Some (Some (arg'\<lparr>sk_list := None\<rparr>), s'\<lparr>ais := \<lambda>b. if b \<in> set ?L then None else ais s' b\<rparr>)"
    using pn af(3) by (simp add: skctlinfo_free_def Let_def)
  moreover have "(\<lambda>b. if b \<in> set ?L then None else ais s' b) = ais s"
    using st(3) fresh by (auto simp: fun_eq_iff s'(3))
  ultimately show ?thesis by auto
qed


subsection \<open>Properties\<close>

text \<open>
  C32: \<^verbatim>\<open>skctl\<close> without \<^verbatim>\<open>SKCTL_CONNECT\<close> (as for the servers and the UDP client) and without \<^verbatim>\<open>SKCTL_PRINTADDR\<close> always returns, once
  \<^verbatim>\<open>getaddrinfo\<close> has reported addresses, however often it had to be called again. With the result
  0 the socket is set up on one of the addresses, which \<^verbatim>\<open>used\<close> points to, by the calls that the
  flags ask for, in their order, all of which succeeded; every address before it was tried. With a
  negative result all were tried and there is no socket. No descriptor leaks: of those opened on
  the way only \<^verbatim>\<open>sockfd\<close> is still open. And \<^verbatim>\<open>skctlinfo_free\<close> afterwards gives back the whole list of
  addresses.
\<close>
theorem skctl_first_usable:
  assumes "flisset (sk_flags arg) SKCTL_GETADDRINFO" "flisset (sk_flags arg) SKCTL_SOCKET"
      "\<not> flisset (sk_flags arg) SKCTL_CONNECT" "\<not> flisset (sk_flags arg) SKCTL_PRINTADDR"
    and "sk_used arg = None"
    and "\<forall>i < k. gai_again (answer_at s i)" "ans_ret (answer_at s k) = 0"
      "ans_addrs (answer_at s k) = As" "As \<noteq> []"
    and "\<forall>b \<ge> brk s. ais s b = None"
  shows "\<exists>res arg' s' s''. skctl arg s = Some (res, arg', s') \<and>
    (if res = 0 then ready_on arg s As arg' s' else res < 0 \<and> none_ready s As arg' s') \<and>
    skctlinfo_free arg' False s' = Some (Some (arg'\<lparr>sk_list := None\<rparr>), s'') \<and> ais s'' = ais s"
  by (rule skctl_ok [OF assms])

lemma connect_never:
  assumes "\<forall>i. ans_ret (answer_at s i) < 0 \<and> ans_errno (answer_at s i) \<noteq> EINPROGRESS"
  shows "gwsk_connect fd peer s = None"
proof (cases "gwsk_connect fd peer s")
  case (Some y)
  from gwsk_connect_fails [OF this] obtain i where
    "ans_ret (answer_at s i) = 0 \<or> ans_ret (answer_at s i) < 0 \<and> ans_errno (answer_at s i) = EINPROGRESS" ..
  with assms [rule_format, of i] show ?thesis by simp
qed simp

lemma skctl_flags_simps [flag_simps]:
  "flisset SKCTL_TCP_CLIENT SKCTL_GETADDRINFO" "flisset SKCTL_TCP_CLIENT SKCTL_SOCKET"
  "flisset SKCTL_TCP_CLIENT SKCTL_CONNECT" "\<not> flisset SKCTL_TCP_CLIENT SKCTL_PRINTADDR"
  "\<not> flisset SKCTL_TCP_CLIENT SKCTL_NOBLOCK" "\<not> flisset SKCTL_TCP_CLIENT SKCTL_REUSE_ADDR"
  "\<not> flisset SKCTL_TCP_CLIENT SKCTL_BIND" "\<not> flisset SKCTL_TCP_CLIENT SKCTL_LISTEN"
  "flisset SKCTL_TCP_SERVER SKCTL_GETADDRINFO" "flisset SKCTL_TCP_SERVER SKCTL_SOCKET"
  "\<not> flisset SKCTL_TCP_SERVER SKCTL_CONNECT" "\<not> flisset SKCTL_TCP_SERVER SKCTL_PRINTADDR"
  by (simp_all add: flisset_def skctl_mode_defs skctl_flag_defs)

text \<open>
  a client never falls back to the next address: when the first address refuses the
  connection, \<^verbatim>\<open>skctl_tcp_client\<close> does not return at all, because \<^verbatim>\<open>gwsk_connect\<close> repeats the
  call for ever, so the code after it that would close the socket and go on is never reached.
\<close>
theorem client_never_falls_back:
  assumes "sk_used info = None" "ans_ret (answer_at s 0) = 0" "ans_addrs (answer_at s 0) \<noteq> []"
    and "0 \<le> ans_ret (answer_at s 1)"
    and "\<forall>i \<ge> 2. ans_ret (answer_at s i) < 0 \<and> ans_errno (answer_at s i) \<noteq> EINPROGRESS"
  shows "skctl_tcp_client info node service ipfamily False s = None"
proof -
  define arg where "arg = skctl_preset IPPROTO_TCP SOCK_STREAM None SKCTL_TCP_CLIENT node service ipfamily False info"
  define arg0 where "arg0 = (if sk_backlog arg \<le> 0 then arg\<lparr>sk_backlog := 25\<rparr> else arg)"
  have fl: "sk_flags arg0 = SKCTL_TCP_CLIENT" "sk_used arg0 = None" "sk_flags arg = SKCTL_TCP_CLIENT"
    using assms(1) by (auto simp: arg0_def arg_def skctl_preset_def Let_def)
  let ?As = "ans_addrs (answer_at s 0)"
  obtain p t u cs where g: "getaddrinfo_loop arg0 s = Some (0, p, arg0\<lparr>serrno := 0, serrnoflag := 0\<rparr>, t)"
    "sys_frame s u" "store_ais ?As u = (p, t)" "calls u = cs @ calls s" "length cs = Suc 0"
    using getaddrinfo_loop_ok [of 0 s ?As arg0] assms(2) by auto
  have st: "chain (ai_nx t) p [brk u..<brk u + length ?As]" "t = u\<lparr>brk := brk t, ais := ais t\<rparr>"
    using store_ais_ok [OF g(3)] by blast+
  have "calls t = calls u" "answers t = answers u" by (subst st(2), simp)+
  then have an: "answer_at t i = answer_at s (Suc i)" for i
    using g(4,5) sys_frame_answers [OF g(2)] by (simp add: answer_at_def)
  obtain ai where ai: "p = Some (brk u)" "ais t (brk u) = Some ai"
    using st(1) assms(3) by (cases ?As) (auto simp: upt_conv_Cons ai_nx_iff simp del: upt_Suc)
  have never: "skctl_try ai arg1 t = None" if "sk_flags arg1 = SKCTL_TCP_CLIENT" for arg1
  proof -
    let ?t = "snd (syscall (socket_call ai) t)"
    have "answer_at ?t i = answer_at s (Suc (Suc i))" for i
      by (simp add: an [symmetric]) (simp add: answer_at_def syscall_def Let_def)
    then have "\<forall>i. ans_ret (answer_at ?t i) < 0 \<and> ans_errno (answer_at ?t i) \<noteq> EINPROGRESS"
      using assms(5) by simp
    note cn = connect_never [OF this]
    have "fst (syscall (socket_call ai) t) = answer_at s 1"
      using an [of 0] by (simp add: answer_at_def syscall_def Let_def)
    then have "step_socket ai arg1 t = Some (Inr (arg1\<lparr>sockfd := ans_ret (answer_at s 1)\<rparr>, ?t))"
      using assms(4) by (simp add: step_socket_def split_beta Let_def)
    then show ?thesis
      using that cn by (simp add: skctl_try_def then_step_def when_flag_def step_connect_def skctl_flags_simps)
  qed
  have "skctl_loop False p 0 (arg0\<lparr>serrno := 0, serrnoflag := 0, sk_list := p\<rparr>) t = None"
    using ai never fl(1) by (simp add: skctl_loop.simps [of _ "Some _"] get_ai_def)
  moreover have "SKCTL_TCP_CLIENT \<noteq> 0" using skctl_flags_simps(1) by (auto simp: flisset_def)
  ultimately have "skctl arg s = None"
    using g(1) fl ai(1) by (simp add: skctl_def arg0_def [symmetric] Let_def skctl_flags_simps)
  then show ?thesis by (simp add: skctl_tcp_client_def arg_def)
qed

text \<open>
  A list of addresses given by the caller is ignored: with \<^verbatim>\<open>list\<close> set, \<^verbatim>\<open>used\<close> null and no
  \<^verbatim>\<open>SKCTL_GETADDRINFO\<close>, \<^verbatim>\<open>skctl\<close> reports success without a single call.
\<close>
theorem skctl_given_list_ignored:
  assumes "sk_flags arg \<noteq> 0" "\<not> flisset (sk_flags arg) SKCTL_GETADDRINFO" "sk_used arg = None" "sk_list arg \<noteq> None"
  shows "\<exists>arg'. skctl arg s = Some (0, arg', s) \<and> sockfd arg' = sockfd arg"
  using assms by (auto simp: skctl_def skctl_loop.simps Let_def)

subsection \<open>Instances\<close>

text \<open>
  Two addresses after one more try of \<^verbatim>\<open>getaddrinfo\<close>; no socket can be had for the first; and one
  address that refuses the connection.
\<close>

definition addr_ex :: "int \<Rightarrow> addrinfo" where
  "addr_ex family = \<lparr>ai_flags = 0, ai_family = family, ai_socktype = SOCK_STREAM, ai_protocol = IPPROTO_TCP,
     ai_addr = [word_of_int family, 0, 31, 144, 127, 0, 0, 1], ai_next = None\<rparr>"

definition sk_start :: "(nat \<Rightarrow> answer) \<Rightarrow> unit skworld" where
  "sk_start an = world.extend ((blank_world ())\<lparr>answers := an\<rparr>) (skworld.fields Map.empty)"

definition server_answers :: "nat \<Rightarrow> answer" where
  "server_answers n = (if n = 0 then fail_answer EAI_AGAIN\<lparr>ans_ret := EAI_AGAIN\<rparr>
     else if n = 1 then ok_answer 0\<lparr>ans_addrs := [addr_ex AF_INET6, addr_ex AF_INET]\<rparr>
     else if n = 2 then fail_answer 97 else if n = 3 then ok_answer 7 else ok_answer 0)"

definition refused_answers :: "nat \<Rightarrow> answer" where
  "refused_answers n = (if n = 0 then ok_answer 0\<lparr>ans_addrs := [addr_ex AF_INET, addr_ex AF_INET]\<rparr>
     else if n = 1 then ok_answer 7 else fail_answer 111)"

definition no_info :: skctlinfo where
  "no_info = \<lparr>sk_flags = 0, sk_hints = addr_ex 0, sk_node = None, sk_service = None, sk_backlog = 0,
     sk_list = None, sk_used = None, sockfd = 0, serrno = 0, serrnoflag = 0\<rparr>"

lemma sk_start_sel [simp]: "answer_at (sk_start an) i = an i" "ais (sk_start an) = Map.empty" "brk (sk_start an) = 1"
  by (simp_all add: sk_start_def answer_at_def blank_world_def world.defs skworld.defs)

theorem skctl_first_usable_witness:
  "\<exists>arg res arg' s'. skctl_tcp_server no_info None (Some ''8080'') 0 False (sk_start server_answers) = Some (res, arg', s') \<and>
    (if res = 0 then ready_on arg (sk_start server_answers) [addr_ex AF_INET6, addr_ex AF_INET] arg' s'
     else res < 0 \<and> none_ready (sk_start server_answers) [addr_ex AF_INET6, addr_ex AF_INET] arg' s')"
proof -
  define arg where "arg = skctl_preset IPPROTO_TCP SOCK_STREAM (Some AI_PASSIVE) SKCTL_TCP_SERVER None
    (Some ''8080'') 0 False no_info"
  have fl: "sk_flags arg = SKCTL_TCP_SERVER" "sk_used arg = None"
    by (simp_all add: arg_def skctl_preset_def no_info_def Let_def)
  have "gai_again (server_answers 0)" by (simp add: gai_again_def server_answers_def)
  moreover have "ans_ret (server_answers 1) = 0" "ans_addrs (server_answers 1) = [addr_ex AF_INET6, addr_ex AF_INET]"
    by (simp_all add: server_answers_def ok_answer_def)
  ultimately obtain res arg' s' where "skctl arg (sk_start server_answers) = Some (res, arg', s')"
    "if res = 0 then ready_on arg (sk_start server_answers) [addr_ex AF_INET6, addr_ex AF_INET] arg' s'
     else res < 0 \<and> none_ready (sk_start server_answers) [addr_ex AF_INET6, addr_ex AF_INET] arg' s'"
    using skctl_first_usable [of arg 1 "sk_start server_answers" "[addr_ex AF_INET6, addr_ex AF_INET]"] fl
    by (auto simp: skctl_flags_simps)
  then show ?thesis by (auto simp: skctl_tcp_server_def arg_def)
qed

theorem client_never_falls_back_witness:
  "skctl_tcp_client no_info (Some ''localhost'') (Some ''80'') 0 False (sk_start refused_answers) = None"
  by (rule client_never_falls_back)
    (simp_all add: no_info_def refused_answers_def ok_answer_def fail_answer_def EINPROGRESS_def)


end
