(* ===== verification/Gw_PrWrite.thy ===== *)
theory Gw_PrWrite
  imports Gw_Wrq Gw_Socket
begin

section \<open>Writing and the proactor's requests (\<^verbatim>\<open>src/gwrl/proactor_imp.c\<close>)\<close>

text \<open>
  The loop that writes one buffer, synchronous writes with what they post to the reactor,
  asynchronous writes that fill the queue of a source, and the functions that ask for reads,
  connections and accepts. \<open>write_buffer_ok\<close> tells what reaches the descriptor; the functions
  return their result with the new state.
\<close>

subsection \<open>Writing a buffer\<close>

text \<open>\<^verbatim>\<open>do { r = call(...); } while(r < 0 && errno == EINTR)\<close>.\<close>

partial_function (option) sys_retry ::
    "syscall \<Rightarrow> ('b, 'z) world_scheme \<Rightarrow> (answer \<times> ('b, 'z) world_scheme) option" where
  [code]: "sys_retry c s =
     (case syscall c s of (a, s) \<Rightarrow> if ans_ret a < 0 \<and> errno s = EINTR then sys_retry c s else Some (a, s))"

text \<open>The call for an operation; reading operations make none.\<close>

definition write_call :: "int \<Rightarrow> gwpr_io_op_id \<Rightarrow> byte list option \<Rightarrow> byte list \<Rightarrow> syscall option" where
  "write_call fd op peer data = (case op of
     gwpr_write_op_id \<Rightarrow> Some (Sys_write fd data)
   | gwpr_send_op_id \<Rightarrow> Some (Sys_send fd data)
   | gwpr_sendto_op_id \<Rightarrow> Some (Sys_sendto fd data (case peer of None \<Rightarrow> [] | Some x \<Rightarrow> x))
   | _ \<Rightarrow> None)"

text \<open>
  The loop, with the bytes left to write. A call never reports more bytes than it was given;
  were it to, the pointer would leave the buffer.
\<close>

partial_function (option) write_loop ::
    "int \<Rightarrow> gwpr_io_op_id \<Rightarrow> byte list option \<Rightarrow> byte list \<Rightarrow> nat \<Rightarrow> int
     \<Rightarrow> ('b, 'z) world_scheme \<Rightarrow> (nat \<times> int \<times> ('b, 'z) world_scheme) option" where
  [code]: "write_loop fd op peer data written errnm s =
     (if data = [] then Some (written, errnm, s)
      else do {
        (didwrite, s) \<leftarrow> (case write_call fd op peer data of
            None \<Rightarrow> Some (0, s)
          | Some c \<Rightarrow> do { (a, s) \<leftarrow> sys_retry c s; Some (ans_ret a, s) });
        if didwrite \<ge> 0 then
          (if nat didwrite \<le> length data
           then write_loop fd op peer (drop (nat didwrite) data) (written + nat didwrite) 0 s else None)
        else Some (written, errno s, s) })"

definition src_file_fd :: "ptr \<Rightarrow> ('b, 'z) world_scheme \<Rightarrow> int option" where
  "src_file_fd src s = do { o1 \<leftarrow> get_src src s; f \<leftarrow> as_file o1; Some (file_fd f) }"

definition gwpr_write_buffer ::
    "ptr \<Rightarrow> ptr \<Rightarrow> gwpr_io_op_id \<Rightarrow> byte list option \<Rightarrow> nat \<Rightarrow> int
     \<Rightarrow> ('b, 'z) pworld_scheme \<Rightarrow> (nat \<times> int \<times> ('b, 'z) pworld_scheme) option" where
  "gwpr_write_buffer src buf op peer written errnm s = do {
     fd \<leftarrow> src_file_fd src s;
     b \<leftarrow> get_buf buf s;
     if buf_len b \<le> length (buf_data b)
     then write_loop fd op peer (take (buf_len b) (buf_data b)) written errnm s else None }"

subsection \<open>Asynchronous writes\<close>

definition set_peer :: "gwpr_io_op_id \<Rightarrow> byte list option \<Rightarrow> nat \<Rightarrow> ptr \<Rightarrow> ('b, 'z) pworld_scheme
    \<Rightarrow> ('b, 'z) pworld_scheme option" where
  "set_peer op peer peerlen q s =
     (if op = gwpr_sendto_op_id
      then do { x \<leftarrow> peer; upd_wrq (\<lambda>e. e\<lparr>wrq_peerlen := peerlen, wrq_peer := x\<rparr>) q s }
      else Some s)"

definition gwpr_asynchronous_write ::
    "('b, 'z) pworld_scheme src_ops \<Rightarrow> ptr \<Rightarrow> ptr \<Rightarrow> gwpr_io_op_id \<Rightarrow> byte list option \<Rightarrow> nat
     \<Rightarrow> ('b, 'z) pworld_scheme \<Rightarrow> ('b, 'z) pworld_scheme option" where
  "gwpr_asynchronous_write ops src buf op peer peerlen s = do {
     (q, s) \<leftarrow> gwprwrq_get s;
     o1 \<leftarrow> get_src src s;
     p \<leftarrow> src_pdata src s;
     d \<leftarrow> get_pdata p s;
     s \<leftarrow> (if didwritecb d = None then upd_pdata (\<lambda>d. d\<lparr>didwritecb := Some Fn_io_activity\<rparr>) p s else Some s);
     s \<leftarrow> upd_wrq (\<lambda>e. e\<lparr>wrq_buf := buf, wrop := op\<rparr>) q s;
     s \<leftarrow> set_peer op peer peerlen q s;
     s \<leftarrow> gwprwrq_add src q s;
     op_update_flags ops src (flset (src_flags o1) (GWRL_ENABLED OR GWRL_WR)) s }"

subsection \<open>Synchronous writes\<close>

definition fnc_name :: "gwpr_io_op_id \<Rightarrow> string" where
  "fnc_name op = (case op of gwpr_write_op_id \<Rightarrow> ''write'' | gwpr_send_op_id \<Rightarrow> ''send''
     | gwpr_sendto_op_id \<Rightarrow> ''sendto'' | _ \<Rightarrow> [])"

text \<open>Create an event for the proactor and post it.\<close>

definition post_activity ::
    "ptr \<Rightarrow> ptr \<Rightarrow> flags8 \<Rightarrow> ('b, 'z) pworld_scheme \<Rightarrow> ('b, 'z) pworld_scheme option" where
  "post_activity src userdata fl s = do {
     fd \<leftarrow> src_file_fd src s;
     (evt, s) \<leftarrow> gwrl_evt_createp src (Some Fn_gwpr_src_activity) userdata fd fl s;
     gwrl_post_evt evt s }"

definition would_block :: "int \<Rightarrow> bool" where
  "would_block e \<longleftrightarrow> e = EWOULDBLOCK \<or> e = EAGAIN"

text \<open>
  The first part of \<^verbatim>\<open>gwpr_synchronous_write_result\<close>: a full, a partial or an impossible count.
  The result is \<^verbatim>\<open>didwr\<close>, \<^verbatim>\<open>remaining\<close> and \<^verbatim>\<open>rembuf\<close>. In the partial case the original buffer,
  already cut down to what was written, is queued.
\<close>

definition sync_result_count ::
    "('b, 'z) pworld_scheme src_ops \<Rightarrow> ptr \<Rightarrow> ptr \<Rightarrow> gwpr_io_op_id \<Rightarrow> nat \<Rightarrow> int \<Rightarrow> byte list option \<Rightarrow> nat
     \<Rightarrow> ('b, 'z) pworld_scheme \<Rightarrow> (bool \<times> nat \<times> ptr \<times> ('b, 'z) pworld_scheme) option" where
  "sync_result_count ops src buf op written errnm peer peerlen s = do {
     b \<leftarrow> get_buf buf s;
     if written = buf_len b then do {
       (q, s) \<leftarrow> gwprwrq_get s;
       fd \<leftarrow> src_file_fd src s;
       (evt, s) \<leftarrow> gwrl_evt_createp src (Some Fn_gwpr_src_activity) q fd GWRL_SYNC_WRITE s;
       s \<leftarrow> upd_wrq (\<lambda>e. e\<lparr>wrq_buf := buf, wrop := op\<rparr>) q s;
       s \<leftarrow> set_peer op peer peerlen q s;
       s \<leftarrow> gwrl_post_evt evt s;
       Some (True, 0, None, s) }
     else if written < buf_len b then do {
       let remaining = buf_len b - written;
       (rembuf, s) \<leftarrow> gwpr_buf_getp remaining s;
       s \<leftarrow> buf_copy (drop written (buf_data b)) remaining rembuf s;
       (q, s) \<leftarrow> gwprwrq_get s;
       s \<leftarrow> upd_wrq (\<lambda>e. e\<lparr>wrq_buf := buf, wrop := op\<rparr>) q s;
       s \<leftarrow> upd_buf (\<lambda>b. b\<lparr>buf_len := written\<rparr>) buf s;
       s \<leftarrow> set_peer op peer peerlen q s;
       s \<leftarrow> post_activity src q GWRL_SYNC_WRITE s;
       s \<leftarrow> (if errnm = 0 \<or> would_block errnm
            then gwpr_asynchronous_write ops src buf op peer peerlen s else Some s);
       Some (True, remaining, rembuf, s) }
     else Some (False, 0, None, s) }"

definition gwpr_synchronous_write_result ::
    "('b, 'z) pworld_scheme src_ops \<Rightarrow> ptr \<Rightarrow> ptr \<Rightarrow> gwpr_io_op_id \<Rightarrow> nat \<Rightarrow> int \<Rightarrow> byte list option \<Rightarrow> nat
     \<Rightarrow> ('b, 'z) pworld_scheme \<Rightarrow> (bool \<times> ('b, 'z) pworld_scheme) option" where
  "gwpr_synchronous_write_result ops src buf op written errnm peer peerlen s = do {
     (didwr, remaining, rembuf, s) \<leftarrow> sync_result_count ops src buf op written errnm peer peerlen s;
     if errnm = ECONNRESET \<or> errnm = EPIPE then do {
       (q, s) \<leftarrow> gwprwrq_get s;
       s \<leftarrow> (if remaining > 0 then upd_wrq (\<lambda>e. e\<lparr>wrq_buf := rembuf\<rparr>) q s else Some s);
       s \<leftarrow> upd_wrq (\<lambda>e. e\<lparr>wrop := op\<rparr>) q s;
       s \<leftarrow> post_activity src q GWRL_SYNC_CLOSE s;
       Some (True, s) }
     else if written = 0 \<and> would_block errnm then do {
       s \<leftarrow> gwpr_asynchronous_write ops src buf op peer peerlen s;
       Some (didwr, s) }
     else if errnm \<noteq> 0 then do {
       (i, s) \<leftarrow> Some (calloc s);
       a \<leftarrow> i;
       let s = s\<lparr>einfos := (einfos s)(a \<mapsto> \<lparr>err_errnm = errnm, err_fnc = fnc_name op, err_op = op,
         err_buf = (if remaining > 0 then rembuf else buf), err_src = src\<rparr>)\<rparr>;
       s \<leftarrow> post_activity src i GWRL_SYNC_ERROR s;
       Some (didwr, s) }
     else Some (didwr, s) }"

text \<open>The write filters work on a copy of the buffer.\<close>

definition filtered_copy ::
    "('b, 'z) pworld_scheme pr_callbacks \<Rightarrow> ptr \<Rightarrow> ptr \<Rightarrow> gwpr_io_op_id \<Rightarrow> byte list option \<Rightarrow> nat
     \<Rightarrow> ('b, 'z) pworld_scheme \<Rightarrow> (ptr \<times> ('b, 'z) pworld_scheme) option" where
  "filtered_copy cbs src buf op peer peerlen s = do {
     p \<leftarrow> src_pdata src s;
     d \<leftarrow> get_pdata p s;
     call \<leftarrow> (case wrfilters d of None \<Rightarrow> Some False
        | Some fs \<Rightarrow> map_option (\<lambda>f. f \<noteq> None) (nth_opt fs 0));
     if call then do {
       b \<leftarrow> get_buf buf s;
       (bfcp, s) \<leftarrow> gwpr_buf_getp (bufsize b) s;
       s \<leftarrow> upd_buf (\<lambda>c. c\<lparr>buf_len := buf_len b\<rparr>) bfcp s;
       s \<leftarrow> buf_copy (buf_data b) (buf_len b) bfcp s;
       x \<leftarrow> (if op = gwpr_sendto_op_id then map_option (\<lambda>x. (peerlen, x)) peer else Some (0, []));
       let info = zero_io_info\<lparr>io_src := src, io_buf := bfcp, io_op := op, io_peerlen := fst x, io_peer := snd x\<rparr>;
       s \<leftarrow> filter_loop cbs wrfilters p info (filters_max s) 0 s;
       Some (bfcp, s) }
     else Some (buf, s) }"

definition gwpr_synchronous_write ::
    "('b, 'z) pworld_scheme pr_callbacks \<Rightarrow> ('b, 'z) pworld_scheme src_ops \<Rightarrow> ptr \<Rightarrow> ptr \<Rightarrow> gwpr_io_op_id
     \<Rightarrow> byte list option \<Rightarrow> nat \<Rightarrow> ('b, 'z) pworld_scheme \<Rightarrow> (bool \<times> ('b, 'z) pworld_scheme) option" where
  "gwpr_synchronous_write cbs ops src buf op peer peerlen s = do {
     let maxbytes = gwpr_synchronous_write_max_bytes (pr_options (pr_obj s));
     b \<leftarrow> get_buf buf s;
     if int (buf_len b) \<le> maxbytes \<and> maxbytes > 0 then do {
       (usedbuf, s) \<leftarrow> filtered_copy cbs src buf op peer peerlen s;
       (written, errnm, s) \<leftarrow> gwpr_write_buffer src usedbuf op peer 0 0 s;
       gwpr_synchronous_write_result ops src usedbuf op written errnm peer peerlen s }
     else Some (False, s) }"

subsection \<open>The functions of the user\<close>

text \<open>What \<^verbatim>\<open>gwpr_write\<close>, \<^verbatim>\<open>gwpr_send\<close> and \<^verbatim>\<open>gwpr_sendto\<close> share.\<close>

definition start_write ::
    "('b, 'z) pworld_scheme pr_callbacks \<Rightarrow> ('b, 'z) pworld_scheme src_ops \<Rightarrow> ptr \<Rightarrow> ptr \<Rightarrow> gwpr_io_op_id
     \<Rightarrow> byte list option \<Rightarrow> nat \<Rightarrow> ('b, 'z) pworld_scheme \<Rightarrow> (int \<times> ('b, 'z) pworld_scheme) option" where
  "start_write cbs ops src buf op peer peerlen s = do {
     p \<leftarrow> src_pdata src s;
     d \<leftarrow> get_pdata p s;
     s \<leftarrow> (if didwritecb d = None then upd_pdata (\<lambda>d. d\<lparr>didwritecb := Some Fn_io_activity\<rparr>) p s else Some s);
     if wrq d \<noteq> None then do {
       s \<leftarrow> gwpr_asynchronous_write ops src buf op peer peerlen s;
       Some (0, s) }
     else do {
       (didwr, s) \<leftarrow> gwpr_synchronous_write cbs ops src buf op peer peerlen s;
       s \<leftarrow> (if \<not> didwr then gwpr_asynchronous_write ops src buf op peer peerlen s else Some s);
       Some (0, s) } }"

definition gwpr_write ::
    "('b, 'z) pworld_scheme pr_callbacks \<Rightarrow> ('b, 'z) pworld_scheme src_ops \<Rightarrow> ptr \<Rightarrow> ptr
     \<Rightarrow> ('b, 'z) pworld_scheme \<Rightarrow> (int \<times> ('b, 'z) pworld_scheme) option" where
  "gwpr_write cbs ops src buf s = start_write cbs ops src buf gwpr_write_op_id None 0 s"

definition gwpr_send ::
    "('b, 'z) pworld_scheme pr_callbacks \<Rightarrow> ('b, 'z) pworld_scheme src_ops \<Rightarrow> ptr \<Rightarrow> ptr
     \<Rightarrow> ('b, 'z) pworld_scheme \<Rightarrow> (int \<times> ('b, 'z) pworld_scheme) option" where
  "gwpr_send cbs ops src buf s = start_write cbs ops src buf gwpr_send_op_id None 0 s"

definition gwpr_sendto ::
    "('b, 'z) pworld_scheme pr_callbacks \<Rightarrow> ('b, 'z) pworld_scheme src_ops \<Rightarrow> ptr \<Rightarrow> ptr \<Rightarrow> byte list option \<Rightarrow> nat
     \<Rightarrow> ('b, 'z) pworld_scheme \<Rightarrow> (int \<times> ('b, 'z) pworld_scheme) option" where
  "gwpr_sendto cbs ops src buf peer peerlen s = start_write cbs ops src buf gwpr_sendto_op_id peer peerlen s"

text \<open>Asking for readability and writability.\<close>

definition add_interest ::
    "('b, 'z) pworld_scheme src_ops \<Rightarrow> flags8 \<Rightarrow> ptr \<Rightarrow> ('b, 'z) pworld_scheme \<Rightarrow> ('b, 'z) pworld_scheme option" where
  "add_interest ops fl src s = do {
     o1 \<leftarrow> get_src src s;
     op_update_flags ops src (flset (src_flags o1) fl) s }"

definition gwpr_accept ::
    "('b, 'z) pworld_scheme src_ops \<Rightarrow> ptr \<Rightarrow> ('b, 'z) pworld_scheme \<Rightarrow> (int \<times> ('b, 'z) pworld_scheme) option" where
  "gwpr_accept ops src s = do {
     p \<leftarrow> src_pdata src s;
     d \<leftarrow> get_pdata p s;
     if acceptcb d = None then Some (-1, gwerr ''6NMC4'' s)
     else do { s \<leftarrow> add_interest ops (GWRL_ENABLED OR GWRL_RD) src s; Some (0, s) } }"

definition gwpr_asynchronous_read ::
    "('b, 'z) pworld_scheme src_ops \<Rightarrow> ptr \<Rightarrow> nat \<Rightarrow> gwpr_io_op_id \<Rightarrow> ('b, 'z) pworld_scheme
     \<Rightarrow> (int \<times> ('b, 'z) pworld_scheme) option" where
  "gwpr_asynchronous_read ops src sz op s = do {
     p \<leftarrow> src_pdata src s;
     d \<leftarrow> get_pdata p s;
     if didreadcb d = None then Some (-1, gwerr ''7GB3H'' s)
     else do {
       s \<leftarrow> upd_pdata (\<lambda>d. d\<lparr>rdbufsize := sz, rdop := op\<rparr>) p s;
       s \<leftarrow> add_interest ops (GWRL_ENABLED OR GWRL_RD) src s;
       Some (0, s) } }"

definition gwpr_read ::
    "('b, 'z) pworld_scheme src_ops \<Rightarrow> ptr \<Rightarrow> nat \<Rightarrow> ('b, 'z) pworld_scheme \<Rightarrow> (int \<times> ('b, 'z) pworld_scheme) option" where
  "gwpr_read ops src sz s = gwpr_asynchronous_read ops src sz gwpr_read_op_id s"

definition gwpr_recv ::
    "('b, 'z) pworld_scheme src_ops \<Rightarrow> ptr \<Rightarrow> nat \<Rightarrow> ('b, 'z) pworld_scheme \<Rightarrow> (int \<times> ('b, 'z) pworld_scheme) option" where
  "gwpr_recv ops src sz s = gwpr_asynchronous_read ops src sz gwpr_recv_op_id s"

definition gwpr_recvfrom ::
    "('b, 'z) pworld_scheme src_ops \<Rightarrow> ptr \<Rightarrow> nat \<Rightarrow> ('b, 'z) pworld_scheme \<Rightarrow> (int \<times> ('b, 'z) pworld_scheme) option" where
  "gwpr_recvfrom ops src sz s = gwpr_asynchronous_read ops src sz gwpr_recvfrom_op_id s"

definition gwpr_stop_read ::
    "('b, 'z) pworld_scheme src_ops \<Rightarrow> ptr \<Rightarrow> ('b, 'z) pworld_scheme \<Rightarrow> ('b, 'z) pworld_scheme option" where
  "gwpr_stop_read ops src s = do {
     o1 \<leftarrow> get_src src s;
     op_update_flags ops src (flclr (src_flags o1) GWRL_RD) s }"

definition gwpr_connect ::
    "('b, 'z) pworld_scheme src_ops \<Rightarrow> ptr \<Rightarrow> byte list \<Rightarrow> ('b, 'z) pworld_scheme
     \<Rightarrow> (int \<times> ('b, 'z) pworld_scheme) option" where
  "gwpr_connect ops src peer s = do {
     p \<leftarrow> src_pdata src s;
     d \<leftarrow> get_pdata p s;
     o1 \<leftarrow> get_src src s;
     if connectcb d = None then Some (-1, gwerr ''8rFG3'' s)
     else do {
       fd \<leftarrow> src_file_fd src s;
       let s = snd (syscall (Sys_nonblock fd) s);
       (res, s) \<leftarrow> gwsk_connect fd peer s;
       s \<leftarrow> op_update_flags ops src (flset (src_flags o1) (GWRL_ENABLED OR GWRL_WR OR GWRL_RD)) s;
       Some (res, s) } }"

subsection \<open>What reaches the descriptor\<close>

text \<open>The bytes that the \<open>i\<close>-th call from here on takes, and that the first \<open>k\<close> take together.\<close>

definition got :: "('b, 'z) world_scheme \<Rightarrow> nat \<Rightarrow> nat" where
  "got s i = (if ans_ret (answer_at s i) < 0 then 0 else nat (ans_ret (answer_at s i)))"

definition sofar :: "('b, 'z) world_scheme \<Rightarrow> nat \<Rightarrow> nat" where
  "sofar s k = (\<Sum>i<k. got s i)"

definition write_op :: "gwpr_io_op_id \<Rightarrow> bool" where
  "write_op op \<longleftrightarrow> op = gwpr_write_op_id \<or> op = gwpr_send_op_id \<or> op = gwpr_sendto_op_id"

lemma sofar_0 [simp]: "sofar s 0 = 0"
  by (simp add: sofar_def)

lemma sofar_Suc: "sofar s (Suc k) = got s 0 + sofar (snd (syscall c s)) k"
proof -
  have "got (snd (syscall c s)) i = got s (Suc i)" for i
    by (simp add: got_def answer_at_def syscall_def Let_def)
  then show ?thesis by (simp only: sofar_def sum.lessThan_Suc_shift)
qed

lemma write_loop_step:
  assumes "write_call fd op peer data = Some c" "data \<noteq> []"
    and "ans_ret (answer_at s 0) < 0 \<Longrightarrow> ans_errno (answer_at s 0) = EINTR" "got s 0 \<le> length data"
  shows "write_loop fd op peer data w er s =
    write_loop fd op peer (drop (got s 0) data) (w + got s 0)
      (if ans_ret (answer_at s 0) < 0 then er else 0) (snd (syscall c s))"
proof (cases "ans_ret (answer_at s 0) < 0")
  case True
  then have "sys_retry c s = sys_retry c (snd (syscall c s))"
    using assms(3) by (simp add: sys_retry.simps [of c s] syscall_def Let_def answer_at_def)
  with True assms(1,2) show ?thesis
    by (simp add: write_loop.simps [of fd op peer data] got_def)
next
  case False
  then have "sys_retry c s = Some (answer_at s 0, snd (syscall c s))"
    by (simp add: sys_retry.simps [of c s] syscall_def Let_def answer_at_def)
  with False assms(1,2,4) show ?thesis
    by (simp add: write_loop.simps [of fd op peer data w er s] got_def)
qed

lemma write_call_Some: "write_op op \<Longrightarrow> \<exists>c. write_call fd op peer data = Some c"
  by (auto simp: write_op_def write_call_def)

text \<open>The calls for the first \<open>k\<close> rounds, newest first.\<close>

definition sent :: "int \<Rightarrow> gwpr_io_op_id \<Rightarrow> byte list option \<Rightarrow> byte list \<Rightarrow> ('b, 'z) world_scheme \<Rightarrow> nat \<Rightarrow> syscall list" where
  "sent fd op peer data s k = rev (map (\<lambda>i. the (write_call fd op peer (drop (sofar s i) data))) [0..<k])"

lemma sent_Suc:
  assumes "write_call fd op peer data = Some c"
  shows "sent fd op peer data s (Suc k) = sent fd op peer (drop (got s 0) data) (snd (syscall c s)) k @ [c]"
proof -
  have "[0..<Suc k] = 0 # map Suc [0..<k]" by (simp add: map_Suc_upt upt_conv_Cons)
  then show ?thesis
    using assms by (simp add: sent_def sofar_Suc [of s _ c] add.commute)
qed

text \<open>
  After \<open>k\<close> calls that succeeded or were interrupted the loop goes on with the bytes that
  are left. \<open>er'\<close> is 0 as soon as one call has succeeded.
\<close>

lemma write_loop_calls:
  assumes "write_op op" "\<forall>i<k. ans_ret (answer_at s i) < 0 \<longrightarrow> ans_errno (answer_at s i) = EINTR"
    and "\<forall>i<k. sofar s i < length data" "sofar s k \<le> length data"
  shows "\<exists>t er'. write_loop fd op peer data w er s =
      write_loop fd op peer (drop (sofar s k) data) (w + sofar s k) er' t \<and> (er' = er \<or> er' = 0) \<and>
    (0 < sofar s k \<longrightarrow> er' = 0) \<and>
    sys_frame s t \<and> calls t = sent fd op peer data s k @ calls s \<and> (\<forall>i. answer_at t i = answer_at s (k + i))"
  using assms(2-4)
proof (induction k arbitrary: s data w er)
  case 0
  then show ?case by (intro exI [of _ s] exI [of _ er]) (simp add: sent_def)
next
  case (Suc k)
  obtain c where c: "write_call fd op peer data = Some c" using write_call_Some [OF assms(1)] by blast
  let ?u = "snd (syscall c s)" and ?data = "drop (got s 0) data"
  have an: "answer_at ?u i = answer_at s (Suc i)" for i by (simp add: answer_at_def syscall_def Let_def)
  have ne: "data \<noteq> []" using Suc.prems(2) by auto
  have g: "got s 0 \<le> length data" using Suc.prems(3) by (simp add: sofar_Suc [of s k c])
  let ?er = "if ans_ret (answer_at s 0) < 0 then er else 0"
  have step: "write_loop fd op peer data w er s = write_loop fd op peer ?data (w + got s 0) ?er ?u"
    by (rule write_loop_step [OF c ne _ g]) (use Suc.prems(1) in simp)
  have h2: "\<forall>i<k. sofar ?u i < length ?data"
  proof (intro allI impI)
    fix i assume "i < k"
    with Suc.prems(2) have "sofar s (Suc i) < length data" by simp
    then show "sofar ?u i < length ?data" by (simp add: sofar_Suc [of s i c])
  qed
  have h1: "\<forall>i<k. ans_ret (answer_at ?u i) < 0 \<longrightarrow> ans_errno (answer_at ?u i) = EINTR"
    using Suc.prems(1) by (simp add: an)
  have h3: "sofar ?u k \<le> length ?data" using Suc.prems(3) by (simp add: sofar_Suc [of s k c])
  obtain t er' where t:
    "write_loop fd op peer ?data (w + got s 0) ?er ?u =
       write_loop fd op peer (drop (sofar ?u k) ?data) (w + got s 0 + sofar ?u k) er' t"
    "er' = ?er \<or> er' = 0" "0 < sofar ?u k \<longrightarrow> er' = 0" "sys_frame ?u t"
    "calls t = sent fd op peer ?data ?u k @ calls ?u" "\<forall>i. answer_at t i = answer_at ?u (k + i)"
    using Suc.IH [OF h1 h2 h3, of "w + got s 0" ?er] by (elim exE conjE) (rule that)
  have "calls t = sent fd op peer data s (Suc k) @ calls s"
    using t(5) by (simp add: sent_Suc [OF c] syscall_def Let_def)
  moreover have "0 < got s 0 \<Longrightarrow> ?er = 0" by (auto simp: got_def split: if_splits)
  ultimately show ?case
    using step t an sys_frame_trans [OF sys_frame_syscall t(4)]
    by (intro exI [of _ t] exI [of _ er']) (auto simp: sofar_Suc [of s _ c] add.assoc add.commute split: if_splits)
qed

text \<open>The loop returns when everything is written, or a call fails for another reason.\<close>

lemma write_loop_ok:
  assumes "write_op op" "\<forall>i<k. ans_ret (answer_at s i) < 0 \<longrightarrow> ans_errno (answer_at s i) = EINTR"
    and "\<forall>i<k. sofar s i < length data" "sofar s k \<le> length data"
    and "sofar s k = length data \<or> ans_ret (answer_at s k) < 0 \<and> ans_errno (answer_at s k) \<noteq> EINTR"
    and "n = (if sofar s k = length data then k else Suc k)"
  shows "\<exists>t. write_loop fd op peer data w 0 s =
      Some (w + sofar s k, if sofar s k = length data then 0 else ans_errno (answer_at s k), t) \<and>
    sys_frame s t \<and> calls t = sent fd op peer data s n @ calls s"
proof -
  obtain u er' where u: "write_loop fd op peer data w 0 s =
      write_loop fd op peer (drop (sofar s k) data) (w + sofar s k) er' u" "er' = 0" "sys_frame s u"
    "calls u = sent fd op peer data s k @ calls s" "\<forall>i. answer_at u i = answer_at s (k + i)"
    using write_loop_calls [OF assms(1-4), of fd peer w 0] by auto
  show ?thesis
  proof (cases "sofar s k = length data")
    case True
    with u assms(6) show ?thesis by (simp add: write_loop.simps [of _ _ _ "[]"])
  next
    case False
    let ?rest = "drop (sofar s k) data"
    obtain c where c: "write_call fd op peer ?rest = Some c" using write_call_Some [OF assms(1)] by blast
    have a: "answer_at u 0 = answer_at s k" using u(5) by simp
    have "sys_retry c u = Some (answer_at u 0, snd (syscall c u))"
      using False assms(5) a by (simp add: sys_retry.simps [of c u] syscall_def Let_def answer_at_def)
    moreover have "?rest \<noteq> []" using False assms(4) by simp
    moreover have "errno (snd (syscall c u)) = ans_errno (answer_at s k)"
      using False assms(5) a by (auto simp: syscall_def Let_def answer_at_def)
    ultimately have "write_loop fd op peer ?rest (w + sofar s k) er' u =
        Some (w + sofar s k, ans_errno (answer_at s k), snd (syscall c u))"
      using False assms(5) a c by (simp add: write_loop.simps [of fd op peer ?rest])
    moreover have "calls (snd (syscall c u)) = sent fd op peer data s (Suc k) @ calls s"
      using u(4) c by (simp add: sent_def syscall_def Let_def)
    ultimately show ?thesis
      using False u(1,3) assms(6) sys_frame_trans [OF u(3) sys_frame_syscall] by auto
  qed
qed

lemma sofar_taken:
  assumes "sofar s k \<le> length data"
  shows "concat (map (\<lambda>i. take (got s i) (drop (sofar s i) data)) [0..<k]) = take (sofar s k) data"
  using assms
proof (induction k)
  case (Suc k)
  have e: "sofar s (Suc k) = sofar s k + got s k" by (simp add: sofar_def)
  with Suc show ?case by (simp add: take_add)
qed simp

subsection \<open>The state of a source with proactor data\<close>

text \<open>The proactor data \<open>d\<close> of the source \<open>a\<close>, its queue \<open>Q\<close>, and the cache \<open>C\<close> apart from it.\<close>

definition pr_inv :: "('b, 'z) pworld_scheme \<Rightarrow> addr \<Rightarrow> addr \<Rightarrow> gwprdata \<Rightarrow> addr list \<Rightarrow> addr list \<Rightarrow> bool" where
  "pr_inv s a p d Q C \<longleftrightarrow>
     has_pdata s a p d \<and> wrq_queue s d Q \<and> wrq_cache s C \<and> set Q \<inter> set C = {} \<and> pr_fresh s"

definition pr_same :: "('b, 'z) pworld_scheme \<Rightarrow> ('b, 'z) pworld_scheme \<Rightarrow> bool" where
  "pr_same s s' \<longleftrightarrow> pr_obj s' = pr_obj s \<and> wrqs s' = wrqs s \<and> bufs s' = bufs s \<and> pdatas s' = pdatas s \<and>
     einfos s' = einfos s \<and> filters_max s' = filters_max s"

lemma evt_frame_pr:
  assumes "evt_frame s s'"
  shows "pr_same s s'"
  unfolding pr_same_def by (subst assms [unfolded evt_frame_def], simp)+

lemma evt_frame_calls:
  assumes "evt_frame s s'"
  shows "calls s' = calls s" "answers s' = answers s" "errno s' = errno s"
  by (subst assms [unfolded evt_frame_def], simp)+

lemma sys_frame_pr:
  assumes "sys_frame s s'"
  shows "pr_same s s'"
  unfolding pr_same_def by (subst assms [unfolded sys_frame_def], simp)+

lemma pr_same_inv:
  assumes "pr_same s s'" "src_pdata (Some a) s' = src_pdata (Some a) s" "brk s \<le> brk s'" "pr_inv s a p d Q C"
  shows "pr_inv s' a p d Q C"
proof -
  have "wrq_nx s' = wrq_nx s" using assms(1) by (simp add: pr_same_def wrq_nx_wrqs)
  with assms show ?thesis
    by (auto simp: pr_inv_def pr_same_def has_pdata_def wrq_queue_def wrq_cache_def pr_fresh_def)
qed

text \<open>A request from the cache or new: it is outside the queue, with no successor.\<close>

lemma get_inv:
  assumes "pr_inv s a p d Q C"
  obtains q s' e where "gwprwrq_get s = Some (Some q, s')" "pr_inv s' a p d Q (tl C)" "q \<notin> set Q" "q \<notin> set (tl C)"
    "wrqs s' q = Some e" "wrq_next e = None" "\<forall>x. x \<noteq> q \<longrightarrow> wrqs s' x = wrqs s x"
    "s' = s\<lparr>wrqs := wrqs s', pr_obj := pr_obj s', brk := brk s', oom := oom s', errs := errs s'\<rparr>"
    "brk s \<le> brk s'" "pr_options (pr_obj s') = pr_options (pr_obj s)"
    "q = (case C of [] \<Rightarrow> brk s | c # _ \<Rightarrow> c)"
proof -
  have i: "has_pdata s a p d" "wrq_queue s d Q" "wrq_cache s C" "set Q \<inter> set C = {}" "pr_fresh s"
    using assms by (simp_all add: pr_inv_def)
  obtain q s' where g: "gwprwrq_get s = Some (Some q, s')" "wrq_cache s' (tl C)"
    "q = (case C of [] \<Rightarrow> brk s | c # _ \<Rightarrow> c)" "q \<notin> set (tl C)"
    "\<exists>e. wrqs s' q = Some e \<and> wrq_next e = None" "\<forall>x. x \<noteq> q \<longrightarrow> wrqs s' x = wrqs s x"
    "s' = s\<lparr>wrqs := wrqs s', pr_obj := pr_obj s', brk := brk s', oom := oom s', errs := errs s'\<rparr>"
    "pr_fresh s'" "brk s \<le> brk s'" "pr_options (pr_obj s') = pr_options (pr_obj s)"
    by (rule wrq_get_ok [OF i(3,5)])
  have "brk s \<notin> set Q"
  proof
    assume "brk s \<in> set Q"
    then have "\<exists>r. wrq_nx s (brk s) = Some r" using i(2) seg_alloc by (auto simp: wrq_queue_def)
    with i(5) show False by (simp add: pr_fresh_def wrq_nx_def)
  qed
  then have nq: "q \<notin> set Q" using g(3) i(4) by (auto split: list.splits)
  have eq: "srcs s' = srcs s" "pdatas s' = pdatas s" by (subst g(7), simp)+
  have "wrq_nx s' x = wrq_nx s x" if "x \<in> set Q" for x using g(6) nq that by (auto simp: wrq_nx_def)
  then have "wrq_queue s' d Q" using i(2) seg_cong [of Q "wrq_nx s'" "wrq_nx s"] by (simp add: wrq_queue_def)
  moreover have "has_pdata s' a p d"
    using i(1) src_pdata_srcs [OF eq(1), of "Some a"] eq(2) by (simp add: has_pdata_def)
  moreover have "set Q \<inter> set (tl C) = {}" using i(4) by (cases C) auto
  ultimately have "pr_inv s' a p d Q (tl C)" using g(2,8) by (simp add: pr_inv_def)
  with g nq that show ?thesis by blast
qed

subsection \<open>Queueing a write\<close>

text \<open>
  What the proactor needs of the backend here: changing the interest flags of the source
  returns and changes nothing but those flags and the backend's own data; a heap that never
  fails stays one.
\<close>

definition updates_flags :: "('b, 'z) world_scheme src_ops \<Rightarrow> int \<Rightarrow> bool" where
  "updates_flags ops fd \<longleftrightarrow>
     (\<forall>a fl s. file_src s a \<and> src_fd s a = fd \<longrightarrow> (\<exists>t. op_update_flags ops (Some a) fl s = Some t \<and>
        bkd_frame (mod_src (\<lambda>o1. o1\<lparr>src_flags := fl\<rparr>) a s) t)) \<and>
     (\<forall>x fl s t. op_update_flags ops x fl s = Some t \<longrightarrow>
       (oom s = [] \<longrightarrow> oom t = []) \<and> (\<exists>cs. calls t = cs @ calls s))"

lemma select_updates_flags:
  assumes "select_fd_ok fd"
  shows "updates_flags select_ops fd"
proof (unfold updates_flags_def, intro conjI allI impI)
  fix a fl and s :: "'z sworld"
  assume a: "file_src s a \<and> src_fd s a = fd"
  then obtain o1 f where o1: "srcs s a = Some o1" "as_file o1 = Some f" "file_fd f = fd"
    by (auto elim: file_src_part)
  obtain x where x: "fill_sets (file_fd f) fl (src_sets (backend (rl s))) = Some x"
    using fill_sets_ok [OF assms] o1(3) by (cases "src_sets (backend (rl s))") simp
  have "op_update_flags select_ops (Some a) fl s = Some (set_sets x (mod_src (\<lambda>o1. o1\<lparr>src_flags := fl\<rparr>) a s))"
    using o1 x by (simp add: select_ops_def gwrl_src_file_update_flags_select_def)
      (simp add: mod_src_def set_sets_def fun_upd_def)
  then show "\<exists>t. op_update_flags select_ops (Some a) fl s = Some t \<and>
      bkd_frame (mod_src (\<lambda>o1. o1\<lparr>src_flags := fl\<rparr>) a s) t"
    using set_sets_frame by blast
next
  fix x fl and s t :: "'z sworld"
  assume a: "op_update_flags select_ops x fl s = Some t"
  then have "oom t = oom s \<and> calls t = calls s"
    by (auto simp: select_ops_def gwrl_src_file_update_flags_select_def upd_src_def set_sets_def split: bind_splits)
  then show "\<exists>cs. calls t = cs @ calls s" "oom s = [] \<Longrightarrow> oom t = []" by simp_all
qed

lemma nopfd_fd:
  fixes s s' :: "('b, 'z) world_scheme"
  assumes "map_option src_nopfd (srcs s' a) = map_option src_nopfd (srcs s a)"
  shows "src_fd s' a = src_fd s a"
proof -
  have k: "map_option file_fd (as_file o1) = map_option file_fd (as_file o2)"
    if "src_nopfd o1 = src_nopfd o2" for o1 o2
  proof (cases "src_part o1"; cases "src_part o2")
    fix f g assume p: "src_part o1 = File_part f" "src_part o2 = File_part g"
    have "f\<lparr>file_pfd := None\<rparr> = g\<lparr>file_pfd := None\<rparr>"
      using arg_cong [OF that, of src_part] p by (simp add: src_nopfd_def)
    from arg_cong [OF this, of file_fd] p show ?thesis by (simp add: as_file_def)
  qed (use src_nopfd_fields(6,7) [OF that] in \<open>auto simp: as_file_def\<close>)
  have e: "map_option file_fd (Option.bind (srcs s' a) as_file) = map_option file_fd (Option.bind (srcs s a) as_file)"
    using assms by (cases "srcs s' a"; cases "srcs s a") (auto dest: k)
  have alt: "src_fd s a = (case map_option file_fd (Option.bind (srcs s a) as_file) of None \<Rightarrow> 0 | Some x \<Rightarrow> x)"
    for s :: "('b, 'z) world_scheme"
    by (simp add: src_fd_def split: option.splits)
  show ?thesis unfolding alt by (simp only: e)
qed

lemma srcs_same:
  assumes "srcs s' = srcs s"
  shows "src_fd s' a = src_fd s a" "src_fl s' a = src_fl s a" "file_src s' a = file_src s a"
  using assms by (simp_all add: src_fd_def src_fl_def file_src_iff)

lemma file_src_fd: "file_src s a \<Longrightarrow> src_file_fd (Some a) s = Some (src_fd s a)"
  by (erule file_src_part) (simp add: src_file_fd_def)

lemma bkd_frame_pr:
  assumes "bkd_frame s s'"
  shows "pr_same s s'" "src_pdata x s' = src_pdata x s" "brk s \<le> brk s'"
proof -
  show "pr_same s s'"
    unfolding pr_same_def by (subst assms [unfolded bkd_frame_def, THEN conjunct1], simp)+
  have e: "map_option src_nopfd (srcs s' a) = map_option src_nopfd (srcs s a)" for a
    using assms by (simp add: bkd_frame_def)
  have k: "map_option file_pdata (as_file o1) = map_option file_pdata (as_file o2)"
    if "src_nopfd o1 = src_nopfd o2" for o1 o2
  proof (cases "src_part o1"; cases "src_part o2")
    fix f g assume p: "src_part o1 = File_part f" "src_part o2 = File_part g"
    have "f\<lparr>file_pfd := None\<rparr> = g\<lparr>file_pfd := None\<rparr>"
      using arg_cong [OF that, of src_part] p by (simp add: src_nopfd_def)
    from arg_cong [OF this, of file_pdata] p show ?thesis by (simp add: as_file_def)
  qed (use src_nopfd_fields(6,7) [OF that] in \<open>auto simp: as_file_def\<close>)
  have "map_option file_pdata (Option.bind (srcs s' a) as_file) = map_option file_pdata (Option.bind (srcs s a) as_file)" for a
    using e [of a] by (cases "srcs s' a"; cases "srcs s a") (auto dest: k)
  moreover have "src_pdata (Some a) s = map_option file_pdata (Option.bind (srcs s a) as_file)" for a and s :: "('a, 'b) pworld_scheme"
    by (cases "srcs s a") (auto simp: src_pdata_def map_option_case split: option.splits)
  ultimately show "src_pdata x s' = src_pdata x s"
    by (cases x) (simp_all add: src_pdata_def get_src_def)
  show "brk s \<le> brk s'" using assms by (simp add: bkd_frame_def)
qed

lemma mod_flags_pr:
  "pr_same s (mod_src (\<lambda>o1. o1\<lparr>src_flags := fl\<rparr>) a s)"
  "src_pdata x (mod_src (\<lambda>o1. o1\<lparr>src_flags := fl\<rparr>) a s) = src_pdata x s"
  "brk (mod_src (\<lambda>o1. o1\<lparr>src_flags := fl\<rparr>) a s) = brk s"
proof -
  show "pr_same s (mod_src (\<lambda>o1. o1\<lparr>src_flags := fl\<rparr>) a s)" by (simp add: pr_same_def mod_src_def)
  show "brk (mod_src (\<lambda>o1. o1\<lparr>src_flags := fl\<rparr>) a s) = brk s" by (simp add: mod_src_def)
  have "as_file (o1\<lparr>src_flags := fl\<rparr>) = as_file o1" for o1 by (simp add: as_file_def)
  then show "src_pdata x (mod_src (\<lambda>o1. o1\<lparr>src_flags := fl\<rparr>) a s) = src_pdata x s"
    by (cases x; cases "srcs s (the x)") (auto simp: src_pdata_def get_src_def mod_src_def)
qed

lemma wrq_cache_cong:
  assumes "wrq_cache s C" "pr_obj s' = pr_obj s" "\<And>x. x \<in> set C \<Longrightarrow> wrq_nx s' x = wrq_nx s x"
  shows "wrq_cache s' C"
proof -
  have "chain (wrq_nx s') (wrqcache (pr_obj s)) C = chain (wrq_nx s) (wrqcache (pr_obj s)) C"
    by (rule seg_cong [OF assms(3)])
  with assms(1) show ?thesis unfolding wrq_cache_def assms(2) by blast
qed

text \<open>Changing the request \<open>q\<close>, which is in no list, and the callback in the proactor data.\<close>

lemma set_request_inv:
  assumes "pr_inv s a p d Q C" "wrqs s q = Some e" "q \<notin> set Q" "q \<notin> set C" "wrq_next e' = None"
    and "wrq d' = wrq d" "wrqlast d' = wrqlast d"
  shows "pr_inv (s\<lparr>pdatas := (pdatas s)(p \<mapsto> d'), wrqs := (wrqs s)(q \<mapsto> e')\<rparr>) a p d' Q C"
proof -
  let ?t = "s\<lparr>pdatas := (pdatas s)(p \<mapsto> d'), wrqs := (wrqs s)(q \<mapsto> e')\<rparr>"
  have i: "has_pdata s a p d" "wrq_queue s d Q" "wrq_cache s C" "set Q \<inter> set C = {}" "pr_fresh s"
    using assms(1) by (simp_all add: pr_inv_def)
  have "src_pdata (Some a) ?t = src_pdata (Some a) s" by (rule src_pdata_srcs) simp
  then have "has_pdata ?t a p d'" using i(1) by (simp add: has_pdata_def)
  moreover have "pr_fresh ?t"
    using i(1,5) assms(2) by (auto simp: pr_fresh_def has_pdata_def)
  moreover have "wrq_cache ?t C"
    by (rule wrq_cache_cong [OF i(3)]) (use assms(4) in \<open>auto simp: wrq_nx_def\<close>)
  ultimately show ?thesis
    using i(2,4) assms(3,5-7) by (simp add: pr_inv_def wrq_queue_def wrq_nx_wrqs)
qed

lemma queue_add_inv:
  assumes "pr_inv s a p d Q C" "wrqs s q = Some e" "wrq_next e = None" "q \<notin> set Q" "q \<notin> set C"
  obtains s' d' where "gwprwrq_add (Some a) (Some q) s = Some s'" "pr_inv s' a p d' (Q @ [q]) C"
    "d' = d\<lparr>wrq := wrq d', wrqlast := wrqlast d'\<rparr>" "s' = s\<lparr>wrqs := wrqs s', pdatas := (pdatas s)(p \<mapsto> d')\<rparr>"
    "\<forall>x. map_option wrq_core (wrqs s' x) = map_option wrq_core (wrqs s x)"
proof -
  have i: "has_pdata s a p d" "wrq_queue s d Q" "wrq_cache s C" "set Q \<inter> set C = {}" "pr_fresh s"
    using assms(1) by (simp_all add: pr_inv_def)
  obtain s' d' where g: "gwprwrq_add (Some a) (Some q) s = Some s'" "has_pdata s' a p d'" "wrq_queue s' d' (Q @ [q])"
    "d' = d\<lparr>wrq := wrq d', wrqlast := wrqlast d'\<rparr>" "s' = s\<lparr>wrqs := wrqs s', pdatas := (pdatas s)(p \<mapsto> d')\<rparr>"
    "\<forall>x. x \<notin> set (Q @ [q]) \<longrightarrow> wrqs s' x = wrqs s x"
    "\<forall>x e. wrqs s x = Some e \<longrightarrow> (\<exists>r. wrqs s' x = Some (e\<lparr>wrq_next := r\<rparr>))"
    "relinked_queue s s' p d d' {last (q # Q)}"
    using wrq_add_ok [OF i(1,2) assms(2-4)] by (elim exE conjE) (rule that)
  have eq: "pr_obj s' = pr_obj s" "brk s' = brk s" "bufs s' = bufs s" "pdatas s' = (pdatas s)(p \<mapsto> d')" "einfos s' = einfos s"
    by (subst g(5), simp)+
  have al: "\<exists>e. wrqs s x = Some e" if "x \<in> set (Q @ [q])" for x
    using that assms(2) i(2) seg_alloc [of "wrq_nx s" "wrq d" Q None x] by (auto simp: wrq_queue_def wrq_nx_iff)
  have core: "map_option wrq_core (wrqs s' x) = map_option wrq_core (wrqs s x)" for x
    using g(8) by (simp add: relinked_queue_def)
  have "wrq_cache s' C"
    by (rule wrq_cache_cong [OF i(3) eq(1)]) (use g(6) i(4) assms(5) in \<open>auto simp: wrq_nx_def\<close>)
  moreover have "pr_fresh s'"
  proof -
    have "wrqs s' x = None" if "wrqs s x = None" for x using core [of x] that by simp
    moreover have "p < brk s" using i(1,5) by (auto simp: has_pdata_def pr_fresh_def not_le [symmetric])
    ultimately show ?thesis using i(5) by (auto simp: pr_fresh_def eq)
  qed
  ultimately have "pr_inv s' a p d' (Q @ [q]) C" using g(2,3) i(4) assms(5) by (simp add: pr_inv_def)
  with g core that show ?thesis by blast
qed

lemma set_peer_ok:
  assumes "wrqs s q = Some e" "op = gwpr_sendto_op_id \<longrightarrow> peer \<noteq> None"
  obtains e' where "set_peer op peer n (Some q) s = Some (s\<lparr>wrqs := (wrqs s)(q \<mapsto> e')\<rparr>)"
    "wrq_buf e' = wrq_buf e" "wrop e' = wrop e" "wrq_next e' = wrq_next e"
proof (cases "op = gwpr_sendto_op_id")
  case True
  with assms obtain x where "peer = Some x" by auto
  with True assms show ?thesis
    by (intro that [of "e\<lparr>wrq_peerlen := n, wrq_peer := x\<rparr>"]) (simp_all add: set_peer_def)
next
  case False
  have "(wrqs s)(q \<mapsto> e) = wrqs s" using assms(1) by (simp add: fun_upd_idem)
  with False show ?thesis by (intro that [of e]) (simp_all add: set_peer_def)
qed

definition with_didwrite :: "gwprdata \<Rightarrow> gwprdata" where
  "with_didwrite d = d\<lparr>didwritecb := (case didwritecb d of None \<Rightarrow> Some Fn_io_activity | Some f \<Rightarrow> Some f)\<rparr>"

lemma with_didwrite_sel [simp]:
  "wrq (with_didwrite d) = wrq d" "wrqlast (with_didwrite d) = wrqlast d"
  by (simp_all add: with_didwrite_def)

lemma set_didwrite:
  assumes "pdatas s p = Some d"
  shows "(if didwritecb d = None then upd_pdata (\<lambda>d. d\<lparr>didwritecb := Some Fn_io_activity\<rparr>) (Some p) s else Some s) =
    Some (s\<lparr>pdatas := (pdatas s)(p \<mapsto> with_didwrite d)\<rparr>)"
proof (cases "didwritecb d")
  case (Some f)
  then have "with_didwrite d = d" by (simp add: with_didwrite_def)
  with assms Some show ?thesis by (simp add: fun_upd_idem)
qed (use assms in \<open>simp add: with_didwrite_def\<close>)

lemma async_write_ok:
  assumes inv: "pr_inv s a p d Q C" and oa: "srcs s a = Some oa"
    and peer: "op = gwpr_sendto_op_id \<longrightarrow> peer \<noteq> None"
    and up: "updates_flags ops fd" "file_src s a" "src_fd s a = fd" "fl = flset (src_flags oa) (GWRL_ENABLED OR GWRL_WR)"
  obtains s' q d' e where
    "gwpr_asynchronous_write ops (Some a) buf op peer plen s = Some s'" "pr_inv s' a p d' (Q @ [q]) (tl C)"
    "q \<notin> set Q" "q = (case C of [] \<Rightarrow> brk s | c # _ \<Rightarrow> c)"
    "wrqs s' q = Some e" "wrq_buf e = buf" "wrop e = op"
    "d' = (with_didwrite d)\<lparr>wrq := wrq d', wrqlast := wrqlast d'\<rparr>" "bufs s' = bufs s" "src_fl s' a = fl"
    "\<forall>x. x \<noteq> q \<longrightarrow> map_option wrq_core (wrqs s' x) = map_option wrq_core (wrqs s x)"
    "evts s' = evts s" "\<forall>E K. evts_inv s E K \<longrightarrow> evts_inv s' E K" "brk s \<le> brk s'"
    "file_src s' a" "src_fd s' a = fd"
proof -
  obtain q s1 e where g: "gwprwrq_get s = Some (Some q, s1)" "pr_inv s1 a p d Q (tl C)" "q \<notin> set Q" "q \<notin> set (tl C)"
    "wrqs s1 q = Some e" "wrq_next e = None" "\<forall>x. x \<noteq> q \<longrightarrow> wrqs s1 x = wrqs s x"
    "s1 = s\<lparr>wrqs := wrqs s1, pr_obj := pr_obj s1, brk := brk s1, oom := oom s1, errs := errs s1\<rparr>"
    "brk s \<le> brk s1" "q = (case C of [] \<Rightarrow> brk s | c # _ \<Rightarrow> c)"
    by (rule get_inv [OF inv])
  have eq: "srcs s1 = srcs s" "rl s1 = rl s" "evts s1 = evts s" "bufs s1 = bufs s" by (subst g(8), simp)+
  have pd: "src_pdata (Some a) s1 = Some (Some p)" "pdatas s1 p = Some d"
    using g(2) by (simp_all add: pr_inv_def has_pdata_def)
  let ?s2 = "s1\<lparr>pdatas := (pdatas s1)(p \<mapsto> with_didwrite d)\<rparr>"
  let ?s3 = "?s2\<lparr>wrqs := (wrqs s1)(q \<mapsto> e\<lparr>wrq_buf := buf, wrop := op\<rparr>)\<rparr>"
  obtain e' where e': "set_peer op peer plen (Some q) ?s3 = Some (?s3\<lparr>wrqs := (wrqs ?s3)(q \<mapsto> e')\<rparr>)"
    "wrq_buf e' = buf" "wrop e' = op" "wrq_next e' = None"
    by (rule set_peer_ok [of ?s3 q "e\<lparr>wrq_buf := buf, wrop := op\<rparr>" op peer plen, OF _ peer]) (use g(6) in simp_all)
  let ?s4 = "s1\<lparr>pdatas := (pdatas s1)(p \<mapsto> with_didwrite d), wrqs := (wrqs s1)(q \<mapsto> e')\<rparr>"
  have e4: "?s3\<lparr>wrqs := (wrqs ?s3)(q \<mapsto> e')\<rparr> = ?s4" by simp
  have i4: "pr_inv ?s4 a p (with_didwrite d) Q (tl C)"
    by (rule set_request_inv [OF g(2,5,3,4)]) (simp_all add: e'(4))
  obtain s5 d' where s5: "gwprwrq_add (Some a) (Some q) ?s4 = Some s5" "pr_inv s5 a p d' (Q @ [q]) (tl C)"
    "d' = (with_didwrite d)\<lparr>wrq := wrq d', wrqlast := wrqlast d'\<rparr>"
    "s5 = ?s4\<lparr>wrqs := wrqs s5, pdatas := (pdatas ?s4)(p \<mapsto> d')\<rparr>"
    "\<forall>x. map_option wrq_core (wrqs s5 x) = map_option wrq_core (wrqs ?s4 x)"
    by (rule queue_add_inv [OF i4 _ e'(4) g(3,4)]) (simp, blast)
  have eq5: "srcs s5 = srcs s" "rl s5 = rl s" "evts s5 = evts s" "bufs s5 = bufs s" "brk s5 = brk s1"
    by (subst s5(4), simp add: eq)+
  let ?m = "mod_src (\<lambda>o1. o1\<lparr>src_flags := fl\<rparr>) a s5"
  obtain t where t: "op_update_flags ops (Some a) fl s5 = Some t" "bkd_frame ?m t"
    using up(1) [unfolded updates_flags_def, THEN conjunct1] up(2,3) srcs_same(1,3) [OF eq5(1)] by metis
  note tD = bkd_frameD [OF t(2)] and tP = bkd_frame_pr [OF t(2)] and mP = mod_flags_pr [where s = s5 and fl = fl and a = a]
  have r: "gwpr_asynchronous_write ops (Some a) buf op peer plen s = Some t"
    using g(1,5) oa eq(1) pd set_didwrite [OF pd(2)] e'(1) s5(1) t(1) up(4)
    unfolding gwpr_asynchronous_write_def by (simp add: e4)
  have same: "pr_same s5 t" using tP(1) mP(1) by (simp add: pr_same_def)
  have "pr_inv t a p d' (Q @ [q]) (tl C)"
    by (rule pr_same_inv [OF same _ _ s5(2)]) (use tP(2,3) mP(2,3) in simp_all)
  moreover obtain f where "wrqs t q = Some f" "wrq_buf f = buf" "wrop f = op"
  proof -
    have "map_option wrq_core (wrqs t q) = Some (wrq_core e')"
      using s5(5) same by (simp add: pr_same_def)
    then obtain f where f: "wrqs t q = Some f" "wrq_core f = wrq_core e'" by auto
    from arg_cong [OF f(2), of wrq_buf] arg_cong [OF f(2), of wrop] f(1) e'(2,3) that show ?thesis
      by (simp add: wrq_core_def)
  qed
  moreover have "src_fl t a = fl"
  proof -
    have "map_option src_nopfd (srcs t a) = map_option src_nopfd (srcs ?m a)" using t(2) by (simp add: bkd_frame_def)
    then obtain ot where ot: "srcs t a = Some ot" "src_nopfd ot = src_nopfd (oa\<lparr>src_flags := fl\<rparr>)"
      using oa eq5(1) by (auto simp: mod_src_def)
    from src_nopfd_fields(3) [OF ot(2)] ot(1) show ?thesis by (simp add: src_fl_def)
  qed
  moreover have "\<forall>x. x \<noteq> q \<longrightarrow> map_option wrq_core (wrqs t x) = map_option wrq_core (wrqs s x)"
    using s5(5) same g(7) by (simp add: pr_same_def)
  moreover have "file_src t a" "src_fd t a = fd"
  proof -
    have v: "src_fd ?m a = src_fd s5 a" "file_src ?m a = file_src s5 a"
      by (rule flags_views; simp)+
    show "file_src t a" using bkd_frame_kind(1) [OF t(2)] v(2) up(2) srcs_same(3) [OF eq5(1)] by simp
    have "src_fd t a = src_fd ?m a" by (rule nopfd_fd) (use t(2) in \<open>simp add: bkd_frame_def\<close>)
    then show "src_fd t a = fd" using v(1) up(3) srcs_same(1) [OF eq5(1)] by simp
  qed
  moreover have "evts t = evts s" using tD(1) eq5(3) by (simp add: mod_src_def)
  moreover have le: "brk s \<le> brk t" using tD(9) g(9) eq5(5) by (simp add: mod_src_def)
  moreover have "evts_inv t E K" if ev: "evts_inv s E K" for E K
  proof (rule evts_inv_cong [OF _ _ _ _ _ ev])
    show "fresh_ok t"
    proof (unfold fresh_ok_def, intro allI impI)
      fix x assume "brk t \<le> x"
      then have x: "evts s x = None" "srcs s x = None" using ev le by (auto simp: evts_inv_def fresh_ok_def)
      moreover have "map_option src_nopfd (srcs t x) = map_option src_nopfd (srcs ?m x)" using t(2) by (simp add: bkd_frame_def)
      then have "srcs t x = None" using x(2) eq5(1) oa by (auto simp: mod_src_def split: if_splits)
      ultimately show "evts t x = None \<and> srcs t x = None" using tD(1) eq5(3) by (simp add: mod_src_def)
    qed
  qed (use tD eq5 in \<open>simp_all add: mod_src_def\<close>)
  moreover have "bufs t = bufs s" using same eq5(4) by (simp add: pr_same_def)
  ultimately show ?thesis using that r g(3,10) s5(3) by blast
qed

subsection \<open>Synchronous writes\<close>

lemma evts_inv_grow:
  assumes "evts s' = evts s" "srcs s' = srcs s" "rl s' = rl s" "brk s \<le> brk s'" "evts_inv s E K"
  shows "evts_inv s' E K"
  by (rule evts_inv_cong [OF _ _ _ _ _ assms(5)]) (use assms in \<open>auto simp: evts_inv_def fresh_ok_def\<close>)

lemma buf_getp_ok:
  obtains om er where "gwpr_buf_getp n s = Some (Some (brk s),
    s\<lparr>brk := brk s + 2, oom := om, errs := er, bufs := (bufs s)(brk s \<mapsto> new_buf n)\<rparr>)"
proof -
  obtain om er where c: "calloc_msg ''Erl3F'' s = Some (brk s, s\<lparr>brk := Suc (brk s), oom := om, errs := er\<rparr>)"
    by (rule calloc_msg_ok)
  obtain om' er' where "calloc_msg ''RF4Hk'' (s\<lparr>brk := Suc (brk s), oom := om, errs := er\<rparr>) =
      Some (Suc (brk s), (s\<lparr>brk := Suc (brk s), oom := om, errs := er\<rparr>)\<lparr>brk := Suc (Suc (brk s)), oom := om', errs := er'\<rparr>)"
    by (rule calloc_msg_ok [of "''RF4Hk''" "s\<lparr>brk := Suc (brk s), oom := om, errs := er\<rparr>"]) simp
  with c show ?thesis by (intro that [where om = om' and er = er']) (simp add: gwpr_buf_getp_def)
qed

text \<open>Changes of buffers and of the memory above leave the invariant.\<close>

lemma pr_inv_bufs:
  assumes "pr_inv s a p d Q C" "s' = s\<lparr>brk := brk s', oom := oom s', errs := errs s', bufs := bufs s'\<rparr>"
    and "brk s \<le> brk s'" "\<And>x. brk s' \<le> x \<Longrightarrow> bufs s' x = None"
  shows "pr_inv s' a p d Q C"
proof -
  have eq: "wrqs s' = wrqs s" "pdatas s' = pdatas s" "pr_obj s' = pr_obj s" "einfos s' = einfos s" "srcs s' = srcs s"
    by (subst assms(2), simp)+
  have "wrq_nx s' = wrq_nx s" by (simp add: wrq_nx_wrqs eq)
  moreover have "wrq_cache s' C"
    by (rule wrq_cache_cong [of s]) (use assms(1) eq in \<open>simp_all add: pr_inv_def wrq_nx_def\<close>)
  ultimately show ?thesis
    using assms src_pdata_srcs [OF eq(5), of "Some a"]
    by (auto simp: pr_inv_def has_pdata_def wrq_queue_def pr_fresh_def eq)
qed

lemma src_file_fd_srcs: "srcs s' = srcs s \<Longrightarrow> src_file_fd (Some a) s' = src_file_fd (Some a) s"
  by (simp add: src_file_fd_def)

lemma post_activity_ok:
  assumes "evts_inv s E K" "src_file_fd (Some a) s = Some fd"
  obtains e s' where "post_activity (Some a) ud fl s = Some s'" "evts_inv s' (e # E) (tl K)" "e \<notin> set E"
    "evts s' = (evts s)(e \<mapsto> new_evt (Some a) (Some Fn_gwpr_src_activity) ud fd fl (events (rl s)))" "evt_frame s s'"
    "brk s \<le> brk s'"
proof -
  obtain e s' where p: "((gwrl_evt_create (Some a) (Some Fn_gwpr_src_activity) ud fd fl s \<bind>
        (\<lambda>(e, s). evt_create_retry (gwerr ''4LOP0'') e (Some a) (Some Fn_gwpr_src_activity) ud fd fl s)) \<bind>
        (\<lambda>(e, s). gwrl_post_evt e s)) = Some s'"
    "evts s' = (evts s)(e \<mapsto> new_evt (Some a) (Some Fn_gwpr_src_activity) ud fd fl (events (rl s)))"
    "e \<notin> set E" "evts_inv s' (e # E) (tl K)" "evt_frame s s'" "brk s \<le> brk s'"
    by (rule post_new [OF assms(1) errs_only_gwerr, of "Some a" "Some Fn_gwpr_src_activity" ud fd fl "''4LOP0''"])
  with assms(2) show ?thesis
    by (intro that [of s' e]) (simp_all add: post_activity_def gwrl_evt_createp_def split_def)
qed

text \<open>
  The event that tells the user about a write: it carries a request with the buffer. \<open>b\<close> is the
  buffer, \<open>e\<close> the event, \<open>q\<close> the request.
\<close>

definition reports :: "('b, 'z) pworld_scheme \<Rightarrow> addr \<Rightarrow> int \<Rightarrow> addr \<Rightarrow> addr \<Rightarrow> ptr \<Rightarrow> gwpr_io_op_id \<Rightarrow> bool" where
  "reports s a fd e q buf op \<longleftrightarrow>
     map_option evt_core (evts s e) =
       Some (new_evt (Some a) (Some Fn_gwpr_src_activity) (Some q) fd GWRL_SYNC_WRITE None) \<and>
     (\<exists>r. wrqs s q = Some r \<and> wrq_buf r = buf \<and> wrop r = op)"

lemma new_evt_core [simp]: "evt_core (new_evt a f u fd fl n) = new_evt a f u fd fl None"
  by (simp add: evt_core_def)

lemma sync_full_ok:
  assumes inv: "pr_inv s a p d Q C" and ev: "evts_inv s E K" and B: "bufs s b = Some B"
    and fd: "src_file_fd (Some a) s = Some fd" and peer: "op = gwpr_sendto_op_id \<longrightarrow> peer \<noteq> None"
  obtains s' e q where
    "gwpr_synchronous_write_result ops (Some a) (Some b) op (buf_len B) 0 peer plen s = Some (True, s')"
    "pr_inv s' a p d Q (tl C)" "q \<notin> set Q" "evts_inv s' (e # E) (tl K)" "reports s' a fd e q (Some b) op" "bufs s' = bufs s"
    "calls s' = calls s" "q \<notin> set (tl C)" "srcs s' = srcs s"
    "\<forall>x. x < brk s \<and> x \<notin> set K \<longrightarrow> evts s' x = evts s x"
proof -
  obtain q s1 r where g: "gwprwrq_get s = Some (Some q, s1)" "pr_inv s1 a p d Q (tl C)" "q \<notin> set Q" "q \<notin> set (tl C)"
    "wrqs s1 q = Some r" "wrq_next r = None"
    "s1 = s\<lparr>wrqs := wrqs s1, pr_obj := pr_obj s1, brk := brk s1, oom := oom s1, errs := errs s1\<rparr>" "brk s \<le> brk s1"
    by (rule get_inv [OF inv])
  have eq: "srcs s1 = srcs s" "rl s1 = rl s" "evts s1 = evts s" "bufs s1 = bufs s" "calls s1 = calls s" by (subst g(7), simp)+
  have ev1: "evts_inv s1 E K" by (rule evts_inv_grow [OF eq(3,1,2) g(8) ev])
  have fd1: "src_file_fd (Some a) s1 = Some fd" using fd src_file_fd_srcs [OF eq(1)] by simp
  let ?new = "new_evt (Some a) (Some Fn_gwpr_src_activity) (Some q) fd GWRL_SYNC_WRITE"
  obtain e t where t: "gwrl_evt_createp (Some a) (Some Fn_gwpr_src_activity) (Some q) fd GWRL_SYNC_WRITE s1 = Some (Some e, t)"
    "evts t = (evts s1)(e \<mapsto> ?new None)" "e \<notin> set E" "e \<notin> set (tl K)" "evts_inv t E (tl K)"
    "events (rl t) = events (rl s1)" "evt_frame s1 t" "brk s1 \<le> brk t"
    "e = (case K of [] \<Rightarrow> brk s1 | c # _ \<Rightarrow> c)"
    unfolding gwrl_evt_createp_def
    by (rule evt_create_any [OF ev1 errs_only_gwerr, of "Some a" "Some Fn_gwpr_src_activity" "Some q" fd GWRL_SYNC_WRITE "''4LOP0''"])
  have same: "pr_same s1 t" by (rule evt_frame_pr [OF t(7)])
  have pt: "pr_inv t a p d Q (tl C)"
    by (rule pr_same_inv [OF same _ t(8) g(2)]) (rule src_pdata_srcs [OF evt_frameD(1) [OF t(7)]])
  have rt: "wrqs t q = Some r" "pdatas t p = Some d" "bufs t = bufs s"
    using same g(2,5) eq(4) by (simp_all add: pr_same_def pr_inv_def has_pdata_def)
  let ?u = "t\<lparr>wrqs := (wrqs t)(q \<mapsto> r\<lparr>wrq_buf := Some b, wrop := op\<rparr>)\<rparr>"
  obtain r' where r': "set_peer op peer plen (Some q) ?u = Some (?u\<lparr>wrqs := (wrqs ?u)(q \<mapsto> r')\<rparr>)"
    "wrq_buf r' = Some b" "wrop r' = op" "wrq_next r' = None"
    by (rule set_peer_ok [of ?u q "r\<lparr>wrq_buf := Some b, wrop := op\<rparr>" op peer plen, OF _ peer]) (use g(6) in simp_all)
  let ?v = "t\<lparr>wrqs := (wrqs t)(q \<mapsto> r')\<rparr>"
  have evv: "evts_inv ?v E (tl K)" by (rule evts_inv_grow [OF _ _ _ _ t(5)]) simp_all
  have ee: "evts ?v e = Some (?new None)" using t(2) by simp
  have po: "gwrl_post_evt (Some e) ?v = Some (evt_posted e ?v)"
    using post_evt_eq [of ?v e "?new None"] ee by (simp add: evt_posted_def fun_upd_def)
  note evp = evt_posted_inv [OF evv ee t(3,4)]
  have "pr_inv (t\<lparr>pdatas := (pdatas t)(p \<mapsto> d), wrqs := (wrqs t)(q \<mapsto> r')\<rparr>) a p d Q (tl C)"
    by (rule set_request_inv [OF pt rt(1) g(3,4) r'(4)]) simp_all
  then have pv: "pr_inv ?v a p d Q (tl C)" using rt(2) by (simp add: fun_upd_idem)
  have samep: "pr_same ?v (evt_posted e ?v)" by (rule evt_frame_pr [OF evp(2)])
  have "gwpr_synchronous_write_result ops (Some a) (Some b) op (buf_len B) 0 peer plen s = Some (True, evt_posted e ?v)"
    using B g(1) fd1 t(1) rt(1) r'(1) po
    by (simp add: gwpr_synchronous_write_result_def sync_result_count_def would_block_def errno_defs)
  moreover have "pr_inv (evt_posted e ?v) a p d Q (tl C)"
    by (rule pr_same_inv [OF samep _ _ pv]) (rule src_pdata_srcs, simp_all add: evt_posted_def)
  moreover have "reports (evt_posted e ?v) a fd e q (Some b) op"
    using samep evp(3) [of e] t(2) r'(2,3) by (simp add: reports_def pr_same_def)
  moreover have "bufs (evt_posted e ?v) = bufs s" using samep rt(3) by (simp add: pr_same_def)
  moreover have "calls (evt_posted e ?v) = calls s"
    using eq(5) evt_frame_calls(1) [OF t(7)] evt_frame_calls(1) [OF evp(2)] by simp
  moreover have "srcs (evt_posted e ?v) = srcs s" using eq(1) evt_frameD(1) [OF t(7)] evt_frameD(1) [OF evp(2)] by simp
  moreover have "\<forall>x. x < brk s \<and> x \<notin> set K \<longrightarrow> evts (evt_posted e ?v) x = evts s x"
    using t(2,9) eq(3) g(8) by (auto simp: evt_posted_def split: list.splits)
  ultimately show ?thesis using that g(3,4) evp(1) by blast
qed

text \<open>
  A partial write: the buffer, cut down to the \<open>w\<close> bytes that were written, is queued.
\<close>

lemma sync_count_partial:
  assumes inv: "pr_inv s a p d Q C" and ev: "evts_inv s E K" and B: "bufs s b = Some B"
    and src: "file_src s a" "src_fd s a = fd" and peer: "op = gwpr_sendto_op_id \<longrightarrow> peer \<noteq> None"
    and w: "w < buf_len B" "buf_len B \<le> length (buf_data B)" "would_block errnm"
    and up: "updates_flags ops fd"
  obtains s' d' q r e x where
    "sync_result_count ops (Some a) (Some b) op w errnm peer plen s = Some (True, buf_len B - w, Some (brk s), s')"
    "pr_inv s' a p d' (Q @ [q]) (tl (tl C))" "wrqs s' q = Some r" "wrq_buf r = Some b" "wrop r = op"
    "bufs s' b = Some (B\<lparr>buf_len := w\<rparr>)" "file_src s' a" "src_fd s' a = fd"
    "evts_inv s' (e # E) (tl K)" "reports s' a fd e x (Some b) op"
proof -
  have al: "x < brk s" if "bufs s x = Some y" for x y
    using inv that by (auto simp: pr_inv_def pr_fresh_def not_le [symmetric])
  let ?n = "buf_len B - w"
  obtain om er where g0: "gwpr_buf_getp ?n s = Some (Some (brk s),
      s\<lparr>brk := brk s + 2, oom := om, errs := er, bufs := (bufs s)(brk s \<mapsto> new_buf ?n)\<rparr>)"
    by (rule buf_getp_ok)
  let ?s0 = "s\<lparr>brk := brk s + 2, oom := om, errs := er, bufs := (bufs s)(brk s \<mapsto> new_buf ?n)\<rparr>"
  let ?R = "(new_buf ?n)\<lparr>buf_data := take ?n (drop w (buf_data B)) @ drop ?n (buf_data (new_buf ?n))\<rparr>"
  let ?s1 = "s\<lparr>brk := brk s + 2, oom := om, errs := er, bufs := (bufs s)(brk s \<mapsto> ?R)\<rparr>"
  have c1: "buf_copy (drop w (buf_data B)) ?n (Some (brk s)) ?s0 = Some ?s1"
    using w(1,2) by (simp add: buf_copy_def new_buf_def)
  have i1: "pr_inv ?s1 a p d Q C"
    by (rule pr_inv_bufs [OF inv]) (use inv in \<open>auto simp: pr_inv_def pr_fresh_def\<close>)
  have e1: "evts_inv ?s1 E K" by (rule evts_inv_grow [OF _ _ _ _ ev]) simp_all
  obtain q s2 r where g: "gwprwrq_get ?s1 = Some (Some q, s2)" "pr_inv s2 a p d Q (tl C)" "q \<notin> set Q" "q \<notin> set (tl C)"
    "wrqs s2 q = Some r" "wrq_next r = None"
    "s2 = ?s1\<lparr>wrqs := wrqs s2, pr_obj := pr_obj s2, brk := brk s2, oom := oom s2, errs := errs s2\<rparr>" "brk ?s1 \<le> brk s2"
    by (rule get_inv [OF i1])
  have eq: "srcs s2 = srcs s" "rl s2 = rl s" "evts s2 = evts s" "bufs s2 = (bufs s)(brk s \<mapsto> ?R)" by (subst g(7), simp)+
  have bb: "bufs s2 b = Some B" using al [OF B] B eq(4) by simp
  let ?b3 = "(bufs s2)(b \<mapsto> B\<lparr>buf_len := w\<rparr>)"
  let ?u = "s2\<lparr>wrqs := (wrqs s2)(q \<mapsto> r\<lparr>wrq_buf := Some b, wrop := op\<rparr>), bufs := ?b3\<rparr>"
  obtain r' where r': "set_peer op peer plen (Some q) ?u = Some (?u\<lparr>wrqs := (wrqs ?u)(q \<mapsto> r')\<rparr>)"
    "wrq_buf r' = Some b" "wrop r' = op" "wrq_next r' = None"
    by (rule set_peer_ok [of ?u q "r\<lparr>wrq_buf := Some b, wrop := op\<rparr>" op peer plen, OF _ peer]) (use g(6) in simp_all)
  let ?s3 = "s2\<lparr>wrqs := (wrqs s2)(q \<mapsto> r'), bufs := ?b3\<rparr>"
  have pd: "pdatas s2 p = Some d" using g(2) by (simp add: pr_inv_def has_pdata_def)
  have "pr_inv (s2\<lparr>pdatas := (pdatas s2)(p \<mapsto> d), wrqs := (wrqs s2)(q \<mapsto> r')\<rparr>) a p d Q (tl C)"
    by (rule set_request_inv [OF g(2,5,3,4) r'(4)]) simp_all
  then have "pr_inv (s2\<lparr>wrqs := (wrqs s2)(q \<mapsto> r')\<rparr>) a p d Q (tl C)" using pd by (simp add: fun_upd_idem)
  then have i3: "pr_inv ?s3 a p d Q (tl C)"
    by (rule pr_inv_bufs) (use g(2) bb in \<open>auto simp: pr_inv_def pr_fresh_def\<close>)
  have s3: "s2\<lparr>wrqs := (wrqs s2)(q \<mapsto> r\<lparr>wrq_buf := Some b, wrop := op\<rparr>), bufs := ?b3, wrqs := (wrqs ?u)(q \<mapsto> r')\<rparr> = ?s3"
    by simp
  have e3: "evts_inv ?s3 E K" by (rule evts_inv_grow [OF _ _ _ _ e1]) (use eq g(8) in simp_all)
  have fd3: "src_file_fd (Some a) ?s3 = Some fd" using file_src_fd [OF src(1)] src(2) src_file_fd_srcs [of ?s3 s a] eq(1) by simp
  obtain ev4 s4 where p4: "post_activity (Some a) (Some q) GWRL_SYNC_WRITE ?s3 = Some s4" "evts_inv s4 (ev4 # E) (tl K)"
    "evt_frame ?s3 s4" "brk ?s3 \<le> brk s4" "map_option evt_core (evts s4 ev4) =
       Some (new_evt (Some a) (Some Fn_gwpr_src_activity) (Some q) fd GWRL_SYNC_WRITE None)"
    by (rule post_activity_ok [OF e3 fd3, of "Some q" GWRL_SYNC_WRITE]) simp
  have same4: "pr_same ?s3 s4" by (rule evt_frame_pr [OF p4(3)])
  have i4: "pr_inv s4 a p d Q (tl C)"
    by (rule pr_same_inv [OF same4 _ p4(4) i3]) (rule src_pdata_srcs [OF evt_frameD(1) [OF p4(3)]])
  have s4: "srcs s4 = srcs s" "bufs s4 = ?b3" "wrqs s4 q = Some r'"
    using evt_frameD(1) [OF p4(3)] same4 eq(1) by (simp_all add: pr_same_def)
  note v4 = srcs_same [OF s4(1), of a]
  have f4: "file_src s4 a" "src_fd s4 a = fd" using v4(1,3) src by simp_all
  obtain oa where oa: "srcs s4 a = Some oa" using f4(1) by (auto simp: file_src_iff)
  obtain s5 q5 d5 r5 where a5:
    "gwpr_asynchronous_write ops (Some a) (Some b) op peer plen s4 = Some s5" "pr_inv s5 a p d5 (Q @ [q5]) (tl (tl C))"
    "wrqs s5 q5 = Some r5" "wrq_buf r5 = Some b" "wrop r5 = op" "bufs s5 = bufs s4" "file_src s5 a" "src_fd s5 a = fd"
    "\<forall>x. x \<noteq> q5 \<longrightarrow> map_option wrq_core (wrqs s5 x) = map_option wrq_core (wrqs s4 x)"
    "q5 = (case tl C of [] \<Rightarrow> brk s4 | c # _ \<Rightarrow> c)" "evts s5 = evts s4"
    "\<forall>E K. evts_inv s4 E K \<longrightarrow> evts_inv s5 E K"
    by (rule async_write_ok [OF i4 oa peer up f4 refl])
  have cnt: "sync_result_count ops (Some a) (Some b) op w errnm peer plen s = Some (True, ?n, Some (brk s), s5)"
    using B w g0 c1 g(1,5) bb r'(1) [unfolded s3] p4(1) a5(1) by (simp add: sync_result_count_def Let_def)
  have nq: "q \<noteq> q5"
  proof (cases "tl C")
    case Nil
    have "q < brk s4" using s4(3) i4 by (auto simp: pr_inv_def pr_fresh_def not_le [symmetric])
    then show ?thesis using a5(10) Nil by simp
  next
    case (Cons c C')
    then show ?thesis using a5(10) g(4) by auto
  qed
  have rep: "reports s5 a fd ev4 q (Some b) op"
  proof -
    have "map_option wrq_core (wrqs s5 q) = Some (wrq_core r')"
      using a5(9) s4(3) nq by simp
    then obtain r6 where r6: "wrqs s5 q = Some r6" "wrq_core r6 = wrq_core r'" by auto
    have "wrq_buf r6 = Some b" "wrop r6 = op"
      using arg_cong [OF r6(2), of wrq_buf] arg_cong [OF r6(2), of wrop] r'(2,3) by (simp_all add: wrq_core_def)
    then show ?thesis using r6(1) a5(11) p4(5) by (auto simp: reports_def)
  qed
  show ?thesis
    by (rule that [OF cnt a5(2-5) _ a5(7,8) _ rep]) (use a5(6,12) s4(2) p4(2) in simp_all)
qed

text \<open>When nothing could be written, the cut down buffer is queued twice.\<close>

lemma sync_blocked_ok:
  assumes inv: "pr_inv s a p d Q C" and ev: "evts_inv s E K" and B: "bufs s b = Some B"
    and src: "file_src s a" "src_fd s a = fd" and peer: "op = gwpr_sendto_op_id \<longrightarrow> peer \<noteq> None"
    and w: "0 < buf_len B" "buf_len B \<le> length (buf_data B)" "would_block errnm"
    and up: "updates_flags ops fd"
  obtains s' d' q1 q2 where
    "gwpr_synchronous_write_result ops (Some a) (Some b) op 0 errnm peer plen s = Some (True, s')"
    "pr_inv s' a p d' (Q @ [q1, q2]) (tl (tl (tl C)))"
    "\<forall>q \<in> {q1, q2}. \<exists>r. wrqs s' q = Some r \<and> wrq_buf r = Some b \<and> wrop r = op"
    "bufs s' b = Some (B\<lparr>buf_len := 0\<rparr>)"
proof -
  obtain s5 d5 q5 r5 e x where c:
    "sync_result_count ops (Some a) (Some b) op 0 errnm peer plen s = Some (True, buf_len B - 0, Some (brk s), s5)"
    "pr_inv s5 a p d5 (Q @ [q5]) (tl (tl C))" "wrqs s5 q5 = Some r5" "wrq_buf r5 = Some b" "wrop r5 = op"
    "bufs s5 b = Some (B\<lparr>buf_len := 0\<rparr>)" "file_src s5 a" "src_fd s5 a = fd"
    by (rule sync_count_partial [OF inv ev B src peer w up])
  obtain o5 where o5: "srcs s5 a = Some o5" using c(7) by (auto simp: file_src_iff)
  obtain s6 q6 d6 r6 where a6:
    "gwpr_asynchronous_write ops (Some a) (Some b) op peer plen s5 = Some s6" "pr_inv s6 a p d6 ((Q @ [q5]) @ [q6]) (tl (tl (tl C)))"
    "q6 \<notin> set (Q @ [q5])" "wrqs s6 q6 = Some r6" "wrq_buf r6 = Some b" "wrop r6 = op" "bufs s6 = bufs s5"
    "\<forall>x. x \<noteq> q6 \<longrightarrow> map_option wrq_core (wrqs s6 x) = map_option wrq_core (wrqs s5 x)"
    by (rule async_write_ok [OF c(2) o5 peer up c(7,8) refl])
  have "map_option wrq_core (wrqs s6 q5) = Some (wrq_core r5)" using a6(3,8) c(3) by auto
  then obtain r7 where r7: "wrqs s6 q5 = Some r7" "wrq_core r7 = wrq_core r5" by auto
  have "wrq_buf r7 = Some b" "wrop r7 = op"
    using arg_cong [OF r7(2), of wrq_buf] arg_cong [OF r7(2), of wrop] c(4,5) by (simp_all add: wrq_core_def)
  moreover have "errnm \<noteq> ECONNRESET" "errnm \<noteq> EPIPE" using w(3) by (auto simp: would_block_def errno_defs)
  then have "gwpr_synchronous_write_result ops (Some a) (Some b) op 0 errnm peer plen s = Some (True, s6)"
    using c(1) w(3) a6(1) by (simp add: gwpr_synchronous_write_result_def)
  ultimately show ?thesis
    using a6 c(6) r7(1) by (intro that [of s6 d6 q5 q6]) simp_all
qed

end
