(* ===== verification/Gw_Writes.thy ===== *)
theory Gw_Writes
  imports Gw_PrWrite
begin

section \<open>What writing promises\<close>

text \<open>
  The properties of the user's write functions, composed from the lemmas of \<open>Gw_PrWrite\<close>: a
  complete synchronous write, a partial one, a write behind a queue, and connecting.
\<close>

subsection \<open>A heap that never fails\<close>

lemma calloc_oom: "calloc s = (x, s') \<Longrightarrow> oom s = [] \<Longrightarrow> oom s' = [] \<and> x = Some (brk s)"
  by (auto simp: calloc_def)

lemma calloc_msg_oom: "calloc_msg m s = Some (x, s') \<Longrightarrow> oom s = [] \<Longrightarrow> oom s' = []"
  by (subst (asm) calloc_msg.simps) (auto simp: calloc_def)

lemma buf_getp_oom: "gwpr_buf_getp n s = Some (x, s') \<Longrightarrow> oom s = [] \<Longrightarrow> oom s' = []"
  by (auto simp: gwpr_buf_getp_def split: bind_splits dest!: calloc_msg_oom)

lemma wrq_get_oom: "gwprwrq_get s = Some (x, s') \<Longrightarrow> oom s = [] \<Longrightarrow> oom s' = []"
  by (auto simp: gwprwrq_get_def upd_wrq_def Let_def split: bind_splits if_splits dest!: calloc_msg_oom)

lemma upd_oom [simp]:
  "upd_wrq f q s = Some s' \<Longrightarrow> oom s' = oom s" "upd_buf g q s = Some s' \<Longrightarrow> oom s' = oom s"
  "upd_pdata h q s = Some s' \<Longrightarrow> oom s' = oom s"
  by (auto simp: upd_wrq_def upd_buf_def upd_pdata_def split: bind_splits)

lemma set_peer_oom: "set_peer op peer n q s = Some s' \<Longrightarrow> oom s' = oom s"
  by (auto simp: set_peer_def split: bind_splits if_splits)




lemma buf_copy_oom: "buf_copy x n q s = Some s' \<Longrightarrow> oom s' = oom s"
  by (auto simp: buf_copy_def split: bind_splits if_splits)

lemma wrq_add_oom: "gwprwrq_add src q s = Some s' \<Longrightarrow> oom s' = oom s"
  by (auto simp: gwprwrq_add_def split: bind_splits if_splits)

lemma evt_create_oom:
  "gwrl_evt_create src cb ud fd fl s = Some (x, s') \<Longrightarrow> oom s = [] \<Longrightarrow> oom s' = [] \<and> x \<noteq> None"
  by (auto simp: gwrl_evt_create_def calloc_evt_def calloc_def Let_def split: bind_splits if_splits prod.splits)

lemma evt_createp_oom:
  "gwrl_evt_createp src cb ud fd fl s = Some (x, s') \<Longrightarrow> oom s = [] \<Longrightarrow> oom s' = []"
  by (auto simp: gwrl_evt_createp_def evt_create_retry.simps split: bind_splits dest!: evt_create_oom)

lemma post_evt_oom: "gwrl_post_evt e s = Some s' \<Longrightarrow> oom s' = oom s"
  by (auto simp: gwrl_post_evt_def upd_evt_def split: bind_splits if_splits)

lemma post_activity_oom: "post_activity src ud fl s = Some s' \<Longrightarrow> oom s = [] \<Longrightarrow> oom s' = []"
  by (auto simp: post_activity_def split: bind_splits dest!: evt_createp_oom post_evt_oom)

lemma async_write_oom:
  assumes "gwpr_asynchronous_write ops src buf op peer n s = Some s'" "oom s = []" "updates_flags ops fd"
  shows "oom s' = []"
proof -
  have up: "oom t' = []" if "op_update_flags ops x fl t = Some t'" "oom t = []" for x fl t t'
    using assms(3) that unfolding updates_flags_def by blast
  show ?thesis
    using assms(1,2)
    by (auto simp: gwpr_asynchronous_write_def split: bind_splits if_splits
        dest!: wrq_get_oom set_peer_oom wrq_add_oom upd_oom up)
qed

lemma sync_count_oom:
  assumes "sync_result_count ops src buf op w e peer n s = Some (x, y, z, s')" "oom s = []" "updates_flags ops fd"
  shows "oom s' = []"
  using assms(1,2)
  by (auto simp: sync_result_count_def Let_def split: bind_splits if_splits
      dest!: wrq_get_oom set_peer_oom upd_oom buf_getp_oom evt_createp_oom post_activity_oom post_evt_oom
        buf_copy_oom async_write_oom [OF _ _ assms(3)])

subsection \<open>A write to an idle source\<close>

definition no_wrfilters :: "gwprdata \<Rightarrow> bool" where
  "no_wrfilters d \<longleftrightarrow> (case wrfilters d of None \<Rightarrow> True | Some fs \<Rightarrow> fs \<noteq> [] \<and> hd fs = None)"

lemma filtered_copy_none:
  assumes "src_pdata src s = Some p" "get_pdata p s = Some d" "no_wrfilters d"
  shows "filtered_copy cbs src buf op peer n s = Some (buf, s)"
  using assms by (auto simp: filtered_copy_def no_wrfilters_def nth_opt_def hd_conv_nth split: option.splits)

lemma set_pdata_inv:
  assumes "pr_inv s a p d Q C" "wrq d' = wrq d" "wrqlast d' = wrqlast d"
  shows "pr_inv (s\<lparr>pdatas := (pdatas s)(p \<mapsto> d')\<rparr>) a p d' Q C"
proof -
  let ?t = "s\<lparr>pdatas := (pdatas s)(p \<mapsto> d')\<rparr>"
  have "src_pdata (Some a) ?t = src_pdata (Some a) s" by (rule src_pdata_srcs) simp
  moreover have "wrq_cache ?t C"
    by (rule wrq_cache_cong [of s]) (use assms(1) in \<open>simp_all add: pr_inv_def wrq_nx_def\<close>)
  ultimately show ?thesis
    using assms by (auto simp: pr_inv_def has_pdata_def wrq_queue_def wrq_nx_wrqs pr_fresh_def)
qed

lemma sys_frame_invs:
  assumes "sys_frame s s'"
  shows "pr_inv s a p d Q C \<Longrightarrow> pr_inv s' a p d Q C" "evts_inv s E K \<Longrightarrow> evts_inv s' E K"
proof -
  have eq: "srcs s' = srcs s" "evts s' = evts s" "rl s' = rl s" "brk s' = brk s"
    by (subst assms [unfolded sys_frame_def], simp)+
  show "pr_inv s' a p d Q C" if "pr_inv s a p d Q C"
    by (rule pr_same_inv [OF sys_frame_pr [OF assms] src_pdata_srcs [OF eq(1)] _ that]) (simp add: eq)
  show "evts_inv s' E K" if "evts_inv s E K" by (rule evts_inv_grow [OF eq(2,1,3) _ that]) (simp add: eq)
qed

text \<open>
  The write of a buffer \<open>B\<close> at \<open>b\<close> to the idle source \<open>a\<close>: small enough for a synchronous
  attempt, and nothing to filter.
\<close>

definition sync_ready :: "('b, 'z) pworld_scheme \<Rightarrow> addr \<Rightarrow> gwprdata \<Rightarrow> addr \<Rightarrow> gwprbuf \<Rightarrow> bool" where
  "sync_ready s a d b B \<longleftrightarrow> file_src s a \<and> no_wrfilters d \<and> bufs s b = Some B \<and>
     buf_len B \<le> length (buf_data B) \<and>
     int (buf_len B) \<le> gwpr_synchronous_write_max_bytes (pr_options (pr_obj s)) \<and>
     0 < gwpr_synchronous_write_max_bytes (pr_options (pr_obj s))"

definition buf_bytes :: "gwprbuf \<Rightarrow> byte list" where
  "buf_bytes B = take (buf_len B) (buf_data B)"

lemma start_write_idle:
  assumes inv: "pr_inv s a p d [] C" and rd: "sync_ready s a d b B"
    and k: "write_op op" "\<forall>i<k. ans_ret (answer_at s i) < 0 \<longrightarrow> ans_errno (answer_at s i) = EINTR"
    "\<forall>i<k. sofar s i < buf_len B" "sofar s k \<le> buf_len B"
    "sofar s k = buf_len B \<or> ans_ret (answer_at s k) < 0 \<and> ans_errno (answer_at s k) \<noteq> EINTR"
    "er = (if sofar s k = buf_len B then 0 else ans_errno (answer_at s k))"
    "m = (if sofar s k = buf_len B then k else Suc k)"
  obtains t where "start_write cbs ops (Some a) (Some b) op peer n s = do {
      (didwr, t) \<leftarrow> gwpr_synchronous_write_result ops (Some a) (Some b) op (sofar s k) er peer n t;
      s \<leftarrow> (if \<not> didwr then gwpr_asynchronous_write ops (Some a) (Some b) op peer n t else Some t);
      Some (0, s) }"
    "pr_inv t a p (with_didwrite d) [] C" "\<forall>E K. evts_inv s E K \<longrightarrow> evts_inv t E K"
    "calls t = sent (src_fd s a) op peer (buf_bytes B) s m @ calls s" "srcs t = srcs s" "bufs t = bufs s" "oom t = oom s"
    "brk t = brk s" "evts t = evts s"
proof -
  let ?s1 = "s\<lparr>pdatas := (pdatas s)(p \<mapsto> with_didwrite d)\<rparr>"
  have pd: "src_pdata (Some a) s = Some (Some p)" "pdatas s p = Some d" "wrq d = None"
    using inv by (simp_all add: pr_inv_def has_pdata_def wrq_queue_def)
  have r: "file_src s a" "no_wrfilters d" "bufs s b = Some B" "buf_len B \<le> length (buf_data B)"
    "int (buf_len B) \<le> gwpr_synchronous_write_max_bytes (pr_options (pr_obj s))"
    "0 < gwpr_synchronous_write_max_bytes (pr_options (pr_obj s))"
    using rd by (simp_all add: sync_ready_def)
  have i1: "pr_inv ?s1 a p (with_didwrite d) [] C" by (rule set_pdata_inv [OF inv]) simp_all
  have pd1: "src_pdata (Some a) ?s1 = Some (Some p)" using i1 by (simp add: pr_inv_def has_pdata_def)
  have fd1: "src_file_fd (Some a) ?s1 = Some (src_fd s a)"
    using file_src_fd [OF r(1)] src_file_fd_srcs [of ?s1 s a] by simp
  have fc: "filtered_copy cbs (Some a) (Some b) op peer n ?s1 = Some (Some b, ?s1)"
    by (rule filtered_copy_none [where d = "with_didwrite d", OF pd1]) (use r(2) in \<open>simp_all add: no_wrfilters_def with_didwrite_def\<close>)
  have an0: "answer_at ?s1 i = answer_at s i" for i by (simp add: answer_at_def)
  have an: "answer_at ?s1 i = answer_at s i" "sofar ?s1 i = sofar s i" for i
    by (simp_all add: an0 sofar_def got_def cong: if_cong)
  have se: "sent fd op peer data ?s1 j = sent fd op peer data s j" for fd data j by (simp add: sent_def an)
  have len: "length (buf_bytes B) = buf_len B" using r(4) by (simp add: buf_bytes_def)
  obtain t where t: "write_loop (src_fd s a) op peer (buf_bytes B) 0 0 ?s1 = Some (sofar s k, er, t)" "sys_frame ?s1 t"
    "calls t = sent (src_fd s a) op peer (buf_bytes B) s m @ calls s"
    using write_loop_ok [of op k ?s1 "buf_bytes B" m "src_fd s a" peer 0] k by (auto simp: an se len)
  have wb: "gwpr_write_buffer (Some a) (Some b) op peer 0 0 ?s1 = Some (sofar s k, er, t)"
    using fd1 r(3,4) t(1) by (simp add: gwpr_write_buffer_def buf_bytes_def)
  have st: "start_write cbs ops (Some a) (Some b) op peer n s = do {
      (didwr, t) \<leftarrow> gwpr_synchronous_write_result ops (Some a) (Some b) op (sofar s k) er peer n t;
      s \<leftarrow> (if \<not> didwr then gwpr_asynchronous_write ops (Some a) (Some b) op peer n t else Some t);
      Some (0, s) }"
    using pd set_didwrite [OF pd(2)] r(3,5,6) fc wb
    by (simp add: start_write_def gwpr_synchronous_write_def Let_def)
  have "evts_inv ?s1 E K" if "evts_inv s E K" for E K by (rule evts_inv_grow [OF _ _ _ _ that]) simp_all
  then have ev: "\<forall>E K. evts_inv s E K \<longrightarrow> evts_inv t E K" using sys_frame_invs(2) [OF t(2)] by blast
  have eq: "srcs t = srcs s" "bufs t = bufs s" "oom t = oom s" "brk t = brk s" "evts t = evts s"
    by (subst t(2) [unfolded sys_frame_def], simp)+
  show ?thesis by (rule that [OF st sys_frame_invs(1) [OF t(2) i1] ev t(3) eq])
qed

text \<open>A write that the system takes completely.\<close>

lemma write_full_ok:
  assumes "pr_inv s a p d [] C" "evts_inv s E K" "sync_ready s a d b B"
    and "\<forall>i<k. ans_ret (answer_at s i) < 0 \<longrightarrow> ans_errno (answer_at s i) = EINTR"
    and "\<forall>i<k. sofar s i < buf_len B" "sofar s k = buf_len B"
  obtains s' e q where "gwpr_write cbs ops (Some a) (Some b) s = Some (0, s')"
    "calls s' = sent (src_fd s a) gwpr_write_op_id None (buf_bytes B) s k @ calls s"
    "evts_inv s' (e # E) (tl K)" "reports s' a (src_fd s a) e q (Some b) gwpr_write_op_id"
    "pr_inv s' a p (with_didwrite d) [] (tl C)" "bufs s' = bufs s" "q \<notin> set (tl C)" "srcs s' = srcs s"
    "\<forall>x. x < brk s \<and> x \<notin> set K \<longrightarrow> evts s' x = evts s x"
proof -
  have B: "bufs s b = Some B" "file_src s a" "buf_len B \<le> length (buf_data B)"
    using assms(3) by (simp_all add: sync_ready_def)
  obtain t where t: "start_write cbs ops (Some a) (Some b) gwpr_write_op_id None 0 s = do {
      (didwr, t) \<leftarrow> gwpr_synchronous_write_result ops (Some a) (Some b) gwpr_write_op_id (sofar s k) 0 None 0 t;
      s \<leftarrow> (if \<not> didwr then gwpr_asynchronous_write ops (Some a) (Some b) gwpr_write_op_id None 0 t else Some t);
      Some (0, s) }"
    "pr_inv t a p (with_didwrite d) [] C" "\<forall>E K. evts_inv s E K \<longrightarrow> evts_inv t E K"
    "calls t = sent (src_fd s a) gwpr_write_op_id None (buf_bytes B) s k @ calls s" "srcs t = srcs s" "bufs t = bufs s"
    "brk t = brk s" "evts t = evts s"
    by (rule start_write_idle [OF assms(1,3) _ assms(4,5), where op = gwpr_write_op_id and er = 0 and m = k])
      (use assms(6) in \<open>simp_all add: write_op_def\<close>)
  have fd: "src_file_fd (Some a) t = Some (src_fd s a)" using file_src_fd [OF B(2)] src_file_fd_srcs [OF t(5)] by simp
  obtain s' e q where s': "gwpr_synchronous_write_result ops (Some a) (Some b) gwpr_write_op_id (buf_len B) 0 None 0 t = Some (True, s')"
    "pr_inv s' a p (with_didwrite d) [] (tl C)" "evts_inv s' (e # E) (tl K)"
    "reports s' a (src_fd s a) e q (Some b) gwpr_write_op_id" "bufs s' = bufs t" "calls s' = calls t"
    "q \<notin> set (tl C)" "srcs s' = srcs t" "\<forall>x. x < brk t \<and> x \<notin> set K \<longrightarrow> evts s' x = evts t x"
    by (rule sync_full_ok [OF t(2) _ _ fd, where op = gwpr_write_op_id and peer = None and plen = 0 and b = b and B = B and E = E and K = K])
      (use assms(2) t(3,6) B(1) in simp_all)
  have "gwpr_write cbs ops (Some a) (Some b) s = Some (0, s')" using t(1) s'(1) assms(6) by (simp add: gwpr_write_def)
  with that s' t(4-8) show ?thesis by simp
qed

text \<open>
  C8: Writing a small buffer to a source with an empty queue and no write filters, when the system takes it all
  within \<open>k\<close> calls (short counts and interrupted calls included): \<^verbatim>\<open>gwpr_write\<close> returns 0, the \<open>i\<close>-th
  call is given exactly the bytes not taken yet, the bytes taken are the buffer's in order, one
  event that carries the buffer is posted for the user's callback, and the queue stays empty.
\<close>
theorem write_delivers_all:
  assumes "pr_inv s a p d [] C" "evts_inv s E K" "sync_ready s a d b B"
    and "\<forall>i<k. ans_ret (answer_at s i) < 0 \<longrightarrow> ans_errno (answer_at s i) = EINTR"
    and "\<forall>i<k. sofar s i < buf_len B" "sofar s k = buf_len B"
  shows "\<exists>s' e q. gwpr_write cbs ops (Some a) (Some b) s = Some (0, s') \<and>
    calls s' = sent (src_fd s a) gwpr_write_op_id None (buf_bytes B) s k @ calls s \<and>
    concat (map (\<lambda>i. take (got s i) (drop (sofar s i) (buf_bytes B))) [0..<k]) = buf_bytes B \<and>
    evts_inv s' (e # E) (tl K) \<and> reports s' a (src_fd s a) e q (Some b) gwpr_write_op_id \<and>
    pr_inv s' a p (with_didwrite d) [] (tl C) \<and> bufs s' = bufs s"
proof -
  obtain s' e q where "gwpr_write cbs ops (Some a) (Some b) s = Some (0, s')"
    "calls s' = sent (src_fd s a) gwpr_write_op_id None (buf_bytes B) s k @ calls s"
    "evts_inv s' (e # E) (tl K)" "reports s' a (src_fd s a) e q (Some b) gwpr_write_op_id"
    "pr_inv s' a p (with_didwrite d) [] (tl C)" "bufs s' = bufs s"
    by (rule write_full_ok [OF assms])
  moreover have "concat (map (\<lambda>i. take (got s i) (drop (sofar s i) (buf_bytes B))) [0..<k]) = buf_bytes B"
    using sofar_taken [of s k "buf_bytes B"] assms(3,6) by (simp add: buf_bytes_def sync_ready_def)
  ultimately show ?thesis by blast
qed

lemma error_posted:
  assumes "pr_inv s a p d Q C" "evts_inv s E K" "src_file_fd (Some a) s = Some fd" "oom s = []"
  shows "\<exists>s' x. (do { (i, s) \<leftarrow> Some (calloc s); x \<leftarrow> i;
      let s = s\<lparr>einfos := (einfos s)(x \<mapsto> I)\<rparr>; post_activity (Some a) i GWRL_SYNC_ERROR s }) = Some s' \<and>
    pr_inv s' a p d Q C \<and> wrqs s' = wrqs s \<and> bufs s' = bufs s"
proof -
  let ?s1 = "s\<lparr>brk := Suc (brk s), einfos := (einfos s)(brk s \<mapsto> I)\<rparr>"
  have "src_pdata (Some a) ?s1 = src_pdata (Some a) s" by (rule src_pdata_srcs) simp
  moreover have "wrq_cache ?s1 C"
    by (rule wrq_cache_cong [of s]) (use assms(1) in \<open>simp_all add: pr_inv_def wrq_nx_def\<close>)
  ultimately have i1: "pr_inv ?s1 a p d Q C"
    using assms(1) by (auto simp: pr_inv_def has_pdata_def wrq_queue_def wrq_nx_wrqs pr_fresh_def)
  have e1: "evts_inv ?s1 E K" by (rule evts_inv_grow [OF _ _ _ _ assms(2)]) simp_all
  have fd: "src_file_fd (Some a) ?s1 = Some fd" using assms(3) by (simp add: src_file_fd_def)
  obtain e s' where s': "post_activity (Some a) (Some (brk s)) GWRL_SYNC_ERROR ?s1 = Some s'" "evt_frame ?s1 s'" "brk ?s1 \<le> brk s'"
    by (rule post_activity_ok [OF e1 fd])
  have same: "pr_same ?s1 s'" by (rule evt_frame_pr [OF s'(2)])
  have "pr_inv s' a p d Q C"
    by (rule pr_same_inv [OF same _ s'(3) i1]) (rule src_pdata_srcs [OF evt_frameD(1) [OF s'(2)]])
  then show ?thesis using s'(1) same assms(4) by (simp add: calloc_def pr_same_def)
qed

text \<open>
  C38: When the system takes only \<open>w = sofar s k\<close> of the buffer's bytes and then would block, what
  \<^verbatim>\<open>gwpr_write\<close> queues for later is the buffer cut down to its first \<open>w\<close> bytes: the bytes already
  written are queued again, and the unwritten rest, which was copied to \<^verbatim>\<open>rembuf\<close>, is in no
  request (for \<open>w = 0\<close> the buffer is even queued twice, with no bytes left in it).
\<close>
theorem partial_write_requeues_sent:
  assumes "pr_inv s a p d [] C" "evts_inv s E K" "sync_ready s a d b B" "updates_flags ops (src_fd s a)" "oom s = []"
    and "\<forall>i<k. ans_ret (answer_at s i) < 0 \<longrightarrow> ans_errno (answer_at s i) = EINTR"
    and "\<forall>i<k. sofar s i < buf_len B" "sofar s k < buf_len B"
    and "ans_ret (answer_at s k) < 0" "would_block (ans_errno (answer_at s k))"
  shows "\<exists>s' d' Q C'. gwpr_write cbs ops (Some a) (Some b) s = Some (0, s') \<and> pr_inv s' a p d' Q C' \<and>
    length Q = (if sofar s k = 0 then 2 else 1) \<and>
    (\<forall>q\<in>set Q. map_option wrq_buf (wrqs s' q) = Some (Some b)) \<and>
    bufs s' b = Some (B\<lparr>buf_len := sofar s k\<rparr>)"
proof -
  let ?op = gwpr_write_op_id and ?w = "sofar s k" and ?er = "ans_errno (answer_at s k)"
  have B: "bufs s b = Some B" "file_src s a" "buf_len B \<le> length (buf_data B)"
    using assms(3) by (simp_all add: sync_ready_def)
  have np: "?op = gwpr_sendto_op_id \<longrightarrow> (None :: byte list option) \<noteq> None" by simp
  have er: "?er \<noteq> ECONNRESET" "?er \<noteq> EPIPE" "?er \<noteq> EINTR" "?er \<noteq> 0"
    using assms(10) by (auto simp: would_block_def errno_defs)
  obtain t where t: "start_write cbs ops (Some a) (Some b) ?op None 0 s = do {
      (didwr, t) \<leftarrow> gwpr_synchronous_write_result ops (Some a) (Some b) ?op ?w ?er None 0 t;
      s \<leftarrow> (if \<not> didwr then gwpr_asynchronous_write ops (Some a) (Some b) ?op None 0 t else Some t);
      Some (0, s) }"
    "pr_inv t a p (with_didwrite d) [] C" "\<forall>E K. evts_inv s E K \<longrightarrow> evts_inv t E K" "srcs t = srcs s" "bufs t = bufs s" "oom t = oom s"
    by (rule start_write_idle [OF assms(1,3) _ assms(6,7), where op = ?op and er = ?er and m = "Suc k"])
      (use assms(8,9) er(3) in \<open>simp_all add: write_op_def\<close>)
  have src: "file_src t a" "src_fd t a = src_fd s a" using srcs_same [OF t(4)] B(2) by simp_all
  have ev: "evts_inv t E K" using t(3) assms(2) by blast
  have Bt: "bufs t b = Some B" "0 < buf_len B" using t(5) B(1) assms(8) by simp_all
  show ?thesis
  proof (cases "?w = 0")
    case True
    obtain s' d' q1 q2 where "gwpr_synchronous_write_result ops (Some a) (Some b) ?op 0 ?er None 0 t = Some (True, s')"
      "pr_inv s' a p d' ([] @ [q1, q2]) (tl (tl (tl C)))"
      "\<forall>q \<in> {q1, q2}. \<exists>r. wrqs s' q = Some r \<and> wrq_buf r = Some b \<and> wrop r = ?op" "bufs s' b = Some (B\<lparr>buf_len := 0\<rparr>)"
      by (rule sync_blocked_ok [OF t(2) ev Bt(1) src np Bt(2) B(3) assms(10,4)])
    then show ?thesis
      using t(1) True by (intro exI [of _ s'] exI [of _ d'] exI [of _ "[q1, q2]"] exI [of _ "tl (tl (tl C))"]) (auto simp: gwpr_write_def)
  next
    case False
    obtain s5 d5 q5 r5 e x where c:
      "sync_result_count ops (Some a) (Some b) ?op ?w ?er None 0 t = Some (True, buf_len B - ?w, Some (brk t), s5)"
      "pr_inv s5 a p d5 ([] @ [q5]) (tl (tl C))" "wrqs s5 q5 = Some r5" "wrq_buf r5 = Some b"
      "bufs s5 b = Some (B\<lparr>buf_len := ?w\<rparr>)" "file_src s5 a" "src_fd s5 a = src_fd s a" "evts_inv s5 (e # E) (tl K)"
      by (rule sync_count_partial [OF t(2) ev Bt(1) src np assms(8) B(3) assms(10,4)])
    have oo: "oom s5 = []" by (rule sync_count_oom [OF c(1) _ assms(4)]) (use t(6) assms(5) in simp)
    have fd5: "src_file_fd (Some a) s5 = Some (src_fd s a)" using file_src_fd [OF c(6)] c(7) by simp
    let ?I = "\<lparr>err_errnm = ?er, err_fnc = fnc_name ?op, err_op = ?op,
      err_buf = (if 0 < buf_len B - ?w then Some (brk t) else Some b), err_src = Some a\<rparr>"
    obtain s' where s': "(do { (i, s) \<leftarrow> Some (calloc s5); x \<leftarrow> i;
        let s = s\<lparr>einfos := (einfos s)(x \<mapsto> ?I)\<rparr>; post_activity (Some a) i GWRL_SYNC_ERROR s }) = Some s'"
      "pr_inv s' a p d5 [q5] (tl (tl C))" "wrqs s' = wrqs s5" "bufs s' = bufs s5"
      using error_posted [OF c(2,8) fd5 oo, of ?I] by auto
    have "gwpr_synchronous_write_result ops (Some a) (Some b) ?op ?w ?er None 0 t = Some (True, s')"
      using c(1) er False s'(1) oo
      by (simp add: gwpr_synchronous_write_result_def Let_def calloc_def)
    then have "gwpr_write cbs ops (Some a) (Some b) s = Some (0, s')" using t(1) by (simp add: gwpr_write_def)
    then show ?thesis
      using s' c(3-5) False by (intro exI [of _ s'] exI [of _ d5] exI [of _ "[q5]"] exI [of _ "tl (tl C)"]) simp
  qed
qed



subsection \<open>Connecting and accepting\<close>

text \<open>
  \<^verbatim>\<open>gwsk_connect\<close> ends only at a result 0 or at \<^verbatim>\<open>EINPROGRESS\<close>: while the system refuses the
  connection for another reason, say \<^verbatim>\<open>ECONNREFUSED\<close>, \<^verbatim>\<open>gwpr_connect\<close> never returns. And
  \<^verbatim>\<open>gwsk_accept\<close> returns nothing but descriptor 0: with every other descriptor it calls \<^verbatim>\<open>accept\<close> again.
\<close>
theorem connect_refused_never_returns:
  assumes "\<And>i. ans_ret (answer_at s i) < 0 \<and> ans_errno (answer_at s i) \<noteq> EINPROGRESS"
    and "has_pdata s a p d" "connectcb d \<noteq> None"
  shows "gwpr_connect ops (Some a) peer s = None \<and> (\<forall>fd r t. gwsk_accept fd u = Some (r, t) \<longrightarrow> r = 0)"
proof -
  have "gwsk_connect fd peer (snd (syscall (Sys_nonblock fd) s)) = None" for fd
  proof (cases "gwsk_connect fd peer (snd (syscall (Sys_nonblock fd) s))")
    case (Some y)
    have an: "answer_at (snd (syscall (Sys_nonblock fd) s)) i = answer_at s (Suc i)" for i
      by (simp add: answer_at_def syscall_def Let_def)
    obtain i where "ans_ret (answer_at s (Suc i)) = 0 \<or>
        ans_ret (answer_at s (Suc i)) < 0 \<and> ans_errno (answer_at s (Suc i)) = EINPROGRESS"
      using gwsk_connect_fails [OF Some] an by auto
    with assms(1) [of "Suc i"] show ?thesis by auto
  qed simp
  then have "gwpr_connect ops (Some a) peer s = None"
    using assms(2,3) by (auto simp: gwpr_connect_def has_pdata_def src_file_fd_def Let_def split: bind_splits)
  then show ?thesis using gwsk_accept_result by fastforce
qed

subsection \<open>Reading after a recalculation\<close>

lemma enabled_max_enabled_less:
  "m < k \<Longrightarrow> \<forall>a\<in>set L. flisset (src_fl s a) GWRL_ENABLED \<longrightarrow> src_fd s a < k \<Longrightarrow> enabled_max s m L < k"
  by (induction L arbitrary: m) auto

text \<open>
  With the select backend: once \<^verbatim>\<open>maxfd\<close> has been recalculated while a source was not enabled,
  \<^verbatim>\<open>gwpr_read\<close> (or any other request) on it returns success and enables it for reading, but leaves
  \<^verbatim>\<open>maxfd\<close> below its descriptor, so that \<^verbatim>\<open>select\<close>, which is given \<^verbatim>\<open>maxfd + 1\<close>, never looks at it.
\<close>
theorem read_after_recalc_unpolled:
  fixes s :: "(gwrlbkd_select, 'z) pworld_scheme"
  assumes "srcs_inv s Fs Ts" "file_src s a" "\<not> flisset (src_fl s a) GWRL_ENABLED" "select_fd_ok (src_fd s a)"
    and "has_pdata s a p d" "didreadcb d \<noteq> None"
    and "\<forall>x\<in>set Fs. flisset (src_fl s x) GWRL_ENABLED \<longrightarrow> src_fd s x < src_fd s a"
  shows "\<exists>s1 s2. gwrl_bkd_recalc_srcs s = Some s1 \<and> gwpr_read select_ops (Some a) n s1 = Some (0, s2) \<and>
    src_fl s2 a = flset (src_fl s a) (GWRL_ENABLED OR GWRL_RD) \<and> src_fd s2 a = src_fd s a \<and>
    maxfd (backend (rl s2)) < src_fd s a"
proof -
  let ?m = "enabled_max s (-1) Fs"
  let ?s1 = "set_maxfd ?m s"
  have r: "gwrl_bkd_recalc_srcs s = Some ?s1" by (rule recalc_ok [OF assms(1)])
  have lt: "?m < src_fd s a"
    using assms(4) assms(7) by (intro enabled_max_enabled_less) (auto simp: select_fd_ok_def)
  obtain o1 f where o1: "srcs s a = Some o1" "as_file o1 = Some f" "file_fd f = src_fd s a" "src_flags o1 = src_fl s a"
    using assms(2) by (rule file_src_part)
  have pd: "src_pdata (Some a) ?s1 = Some (Some p)" "pdatas ?s1 p = Some d"
    using assms(5) src_pdata_srcs [of ?s1 s "Some a"] by (simp_all add: has_pdata_def set_maxfd_def)
  let ?s2 = "?s1\<lparr>pdatas := (pdatas s)(p \<mapsto> d\<lparr>rdbufsize := n, rdop := gwpr_read_op_id\<rparr>)\<rparr>"
  let ?fl = "flset (src_fl s a) (GWRL_ENABLED OR GWRL_RD)"
  obtain x where x: "fill_sets (file_fd f) ?fl (src_sets (backend (rl ?s2))) = Some x"
    using fill_sets_ok [OF assms(4)] o1(3) by (cases "src_sets (backend (rl ?s2))") simp
  let ?s3 = "set_sets x (mod_src (\<lambda>o1. o1\<lparr>src_flags := ?fl\<rparr>) a ?s2)"
  have "op_update_flags select_ops (Some a) ?fl ?s2 = Some ?s3"
    using o1 x by (simp add: select_ops_def gwrl_src_file_update_flags_select_def)
      (simp add: mod_src_def set_sets_def set_maxfd_def fun_upd_def)
  then have "gwpr_read select_ops (Some a) n ?s1 = Some (0, ?s3)"
    using pd assms(6) o1(1,4) by (simp add: gwpr_read_def gwpr_asynchronous_read_def add_interest_def set_maxfd_def)
  moreover have "src_fl ?s3 a = ?fl" "src_fd ?s3 a = src_fd s a" "maxfd (backend (rl ?s3)) = ?m"
    using o1 by (simp_all add: src_fl_def src_fd_def set_sets_def mod_src_def set_maxfd_def as_file_def)
  ultimately show ?thesis using r lt by metis
qed

subsection \<open>Instances\<close>

text \<open>
  Source 7 on descriptor 7, not enabled, with proactor data at 21, an empty queue and one cached
  request (35); buffer 41 holds three bytes. In \<open>taken_world\<close> the system interrupts the first call,
  then takes 2 bytes and 1 byte; in \<open>stuck_world\<close> it would block after the first 2.
\<close>

definition idle_world :: "(nat \<Rightarrow> answer) \<Rightarrow> gwrlbkd_select pworld" where
  "idle_world A = (pr_base (select_world\<lparr>brk := 50,
     srcs := [7 \<mapsto> file_src_on 7 GWRL_RD None\<lparr>src_part :=
       File_part \<lparr>file_fd = 7, file_pfd = None, file_pdata = Some 21\<rparr>\<rparr>],
     rl := (zero_gwrl \<lparr>maxfd = 7, src_sets = no_fds\<rparr>)\<lparr>sources := [Some 7, None]\<rparr>,
     answers := A\<rparr>))
     \<lparr>pdatas := [21 \<mapsto> zero_pdata\<lparr>didreadcb := Some (Fn_user 1), connectcb := Some (Fn_user 2)\<rparr>]\<rparr>"

lemmas idle_defs = idle_world_def pr_base_def world.defs pworld.defs select_world_def blank_world_def

definition idle_pdata :: gwprdata where
  "idle_pdata = zero_pdata\<lparr>didreadcb := Some (Fn_user 1), connectcb := Some (Fn_user 2)\<rparr>"

definition idle_buf :: gwprbuf where
  "idle_buf = \<lparr>buf_tag = 0, buf_len = 3, bufsize = 3, buf_data = [1, 2, 3]\<rparr>"

lemma idle_world_inv: "pr_inv (idle_world A) 7 21 idle_pdata [] [35]"
  by (auto simp: pr_inv_def has_pdata_def src_pdata_def as_file_def file_src_on_def wrq_queue_def wrq_cache_def
      wrq_nx_def pr_fresh_def idle_defs idle_pdata_def zero_pdata_def zero_wrq_def GWPR_DEFAULT_OPTIONS_def)

lemma idle_world_fields:
  "oom (idle_world A) = []" "calls (idle_world A) = []" "answers (idle_world A) = A"
  "file_src (idle_world A) 7" "src_fd (idle_world A) 7 = 7" "src_fl (idle_world A) 7 = GWRL_RD"
  by (simp_all add: idle_defs file_src_iff src_fd_def src_fl_def as_file_def file_src_on_def src_type_defs)

lemma idle_world_lists: "evts_inv (idle_world A) [] []" "srcs_inv (idle_world A) [7] []"
proof -
  show "evts_inv (idle_world A) [] []"
    by (simp add: evts_inv_def cache_ok_def fresh_ok_def idle_defs zero_gwrl_def)
  show "srcs_inv (idle_world A) [7] []"
    using idle_world_fields(4) by (auto simp: srcs_inv_def src_type_defs src_nx_iff fresh_ok_def)
      (simp_all add: idle_defs file_src_on_def zero_gwrl_def)
qed

lemma idle_world_ready: "sync_ready (idle_world A) 7 idle_pdata 41 idle_buf"
  using idle_world_fields(4) [of A]
  by (simp add: sync_ready_def no_wrfilters_def idle_pdata_def zero_pdata_def idle_buf_def)
    (simp add: idle_defs GWPR_DEFAULT_OPTIONS_def)

lemma idle_answers: "answer_at (idle_world A) n = A n"
  by (simp add: answer_at_def idle_world_fields)

definition taken_world :: "gwrlbkd_select pworld" where
  "taken_world = idle_world (\<lambda>n. if n = 0 then fail_answer EINTR else if n = 1 then ok_answer 2 else ok_answer 1)"

definition stuck_world :: "gwrlbkd_select pworld" where
  "stuck_world = idle_world (\<lambda>n. if n = 0 then fail_answer EINTR else if n = 1 then ok_answer 2 else fail_answer EWOULDBLOCK)"

lemma taken_sofar: "sofar taken_world 0 = 0" "sofar taken_world 1 = 0" "sofar taken_world 2 = 2" "sofar taken_world 3 = 3"
  by (simp_all add: sofar_def got_def taken_world_def idle_answers fail_answer_def ok_answer_def numeral_3_eq_3 numeral_2_eq_2)

lemma stuck_sofar: "sofar stuck_world 0 = 0" "sofar stuck_world 1 = 0" "sofar stuck_world 2 = 2"
  by (simp_all add: sofar_def got_def stuck_world_def idle_answers fail_answer_def ok_answer_def numeral_2_eq_2)

lemma less_3: "i < (3::nat) \<longleftrightarrow> i = 0 \<or> i = 1 \<or> i = 2" "i < (2::nat) \<longleftrightarrow> i = 0 \<or> i = 1"
  by auto

theorem write_delivers_all_witness:
  "\<forall>cbs ops. \<exists>s'. gwpr_write cbs ops (Some 7) (Some 41) taken_world = Some (0, s') \<and>
    calls s' = [Sys_write 7 [3], Sys_write 7 [1, 2, 3], Sys_write 7 [1, 2, 3]]"
proof (intro allI)
  fix cbs and ops :: "gwrlbkd_select pworld src_ops"
  have c: "sent 7 gwpr_write_op_id None (buf_bytes idle_buf) taken_world 3 =
      [Sys_write 7 [3], Sys_write 7 [1, 2, 3], Sys_write 7 [1, 2, 3]]"
    using taken_sofar by (simp add: sent_def write_call_def buf_bytes_def idle_buf_def upt_rec numeral_2_eq_2)
  have "\<forall>i<3. ans_ret (answer_at taken_world i) < 0 \<longrightarrow> ans_errno (answer_at taken_world i) = EINTR"
    by (simp add: less_3 taken_world_def idle_answers fail_answer_def ok_answer_def)
  moreover have "\<forall>i<3. sofar taken_world i < buf_len idle_buf" "sofar taken_world 3 = buf_len idle_buf"
    using taken_sofar by (simp_all add: less_3 idle_buf_def)
  ultimately show "\<exists>s'. gwpr_write cbs ops (Some 7) (Some 41) taken_world = Some (0, s') \<and>
      calls s' = [Sys_write 7 [3], Sys_write 7 [1, 2, 3], Sys_write 7 [1, 2, 3]]"
    using write_delivers_all [of taken_world 7 21 idle_pdata "[35]" "[]" "[]" 41 idle_buf 3 cbs ops] c
      idle_world_inv idle_world_lists idle_world_ready idle_world_fields
    by (auto simp: taken_world_def)
qed

theorem partial_write_requeues_sent_witness:
  "\<forall>cbs. \<exists>s' d'. gwpr_write cbs select_ops (Some 7) (Some 41) stuck_world = Some (0, s') \<and>
    (\<exists>q C. pr_inv s' 7 21 d' [q] C \<and> map_option wrq_buf (wrqs s' q) = Some (Some 41)) \<and>
    bufs s' 41 = Some (idle_buf\<lparr>buf_len := 2\<rparr>)"
proof (intro allI)
  fix cbs
  have "\<forall>i<2. ans_ret (answer_at stuck_world i) < 0 \<longrightarrow> ans_errno (answer_at stuck_world i) = EINTR"
    "ans_ret (answer_at stuck_world 2) < 0" "would_block (ans_errno (answer_at stuck_world 2))"
    by (simp_all add: less_3 stuck_world_def idle_answers fail_answer_def ok_answer_def would_block_def)
  moreover have "\<forall>i<2. sofar stuck_world i < buf_len idle_buf" "sofar stuck_world 2 < buf_len idle_buf"
    using stuck_sofar by (simp_all add: less_3 idle_buf_def)
  moreover have "updates_flags select_ops (src_fd stuck_world 7)"
    by (rule select_updates_flags) (simp add: stuck_world_def idle_world_fields select_fd_ok_def FD_SETSIZE_def)
  ultimately obtain s' d' Q C' where r: "gwpr_write cbs select_ops (Some 7) (Some 41) stuck_world = Some (0, s')"
    "pr_inv s' 7 21 d' Q C'" "length Q = (if sofar stuck_world 2 = 0 then 2 else 1)"
    "\<forall>q\<in>set Q. map_option wrq_buf (wrqs s' q) = Some (Some 41)" "bufs s' 41 = Some (idle_buf\<lparr>buf_len := sofar stuck_world 2\<rparr>)"
    using partial_write_requeues_sent [of stuck_world 7 21 idle_pdata "[35]" "[]" "[]" 41 idle_buf select_ops 2 cbs]
      idle_world_inv idle_world_lists(1) idle_world_ready idle_world_fields(1) unfolding stuck_world_def by blast
  obtain q where "Q = [q]" using r(3) stuck_sofar(3) by (auto simp: length_Suc_conv)
  with r stuck_sofar(3) show "\<exists>s' d'. gwpr_write cbs select_ops (Some 7) (Some 41) stuck_world = Some (0, s') \<and>
    (\<exists>q C. pr_inv s' 7 21 d' [q] C \<and> map_option wrq_buf (wrqs s' q) = Some (Some 41)) \<and>
    bufs s' 41 = Some (idle_buf\<lparr>buf_len := 2\<rparr>)" by auto
qed

theorem connect_refused_never_returns_witness:
  "\<forall>ops peer. gwpr_connect ops (Some 7) peer (idle_world (\<lambda>_. fail_answer ECONNRESET)) = None"
proof (intro allI)
  fix ops :: "gwrlbkd_select pworld src_ops" and peer
  have "has_pdata (idle_world (\<lambda>_. fail_answer ECONNRESET)) 7 21 idle_pdata" using idle_world_inv by (simp add: pr_inv_def)
  then show "gwpr_connect ops (Some 7) peer (idle_world (\<lambda>_. fail_answer ECONNRESET)) = None"
    using connect_refused_never_returns [of "idle_world (\<lambda>_. fail_answer ECONNRESET)" 7 21 idle_pdata ops peer "idle_world undefined"]
    by (simp add: idle_answers fail_answer_def EINPROGRESS_def ECONNRESET_def idle_pdata_def)
qed

theorem read_after_recalc_unpolled_witness:
  "\<exists>s1 s2. gwrl_bkd_recalc_srcs taken_world = Some s1 \<and> gwpr_read select_ops (Some 7) 512 s1 = Some (0, s2) \<and>
    flisset (src_fl s2 7) GWRL_ENABLED \<and> maxfd (backend (rl s2)) < 7"
proof -
  have p: "has_pdata taken_world 7 21 idle_pdata" using idle_world_inv by (simp add: pr_inv_def taken_world_def)
  have f: "\<not> flisset (src_fl taken_world 7) GWRL_ENABLED" "\<forall>x\<in>set [7]. flisset (src_fl taken_world x) GWRL_ENABLED \<longrightarrow> src_fd taken_world x < 7"
    by (simp_all add: taken_world_def idle_world_fields flag_simps)
  obtain s1 s2 where "gwrl_bkd_recalc_srcs taken_world = Some s1" "gwpr_read select_ops (Some 7) 512 s1 = Some (0, s2)"
    "src_fl s2 7 = flset (src_fl taken_world 7) (GWRL_ENABLED OR GWRL_RD)" "maxfd (backend (rl s2)) < src_fd taken_world 7"
    using read_after_recalc_unpolled [of taken_world "[7]" "[]" 7 21 idle_pdata 512] p f idle_world_lists(2) idle_world_fields(4,5)
    by (auto simp: taken_world_def idle_pdata_def select_fd_ok_def FD_SETSIZE_def)
  moreover have "flisset (flset (src_fl taken_world 7) (GWRL_ENABLED OR GWRL_RD)) GWRL_ENABLED"
    by (simp add: flag_simps bit_or_iff)
  ultimately show ?thesis using idle_world_fields(5) by (metis taken_world_def)
qed


end
