(* ===== verification/Gw_PrActivity.thy ===== *)
theory Gw_PrActivity
  imports Gw_Writes
begin

section \<open>Activity on a source of the proactor (\<^verbatim>\<open>src/gwrl/proactor_imp.c\<close>)\<close>

text \<open>
  \<^verbatim>\<open>gwpr_src_activity\<close>, the callback the proactor registers for its sources: it reads or accepts
  when a descriptor is readable, writes the queue when it is writable, and reports synchronous
  writes. The structures \<^verbatim>\<open>ioinfo\<close> and \<^verbatim>\<open>errinfo\<close> of the C function are passed along and returned;
  user callbacks get them as values, so a callback that stores into them is not modelled, one that
  changes the buffer or the source is.
\<close>

subsection \<open>Addresses and buffers\<close>

definition SOCKADDR_STORAGE_SIZE :: nat where "SOCKADDR_STORAGE_SIZE = 128"

text \<open>
  An address is the initial bytes of a \<^verbatim>\<open>sockaddr_storage\<close>, zeros after them: storing the first \<open>n\<close>
  bytes of one over another.
\<close>

definition copy_peer :: "nat \<Rightarrow> byte list \<Rightarrow> byte list \<Rightarrow> byte list" where
  "copy_peer n new old = take n (new @ replicate (n - length new) 0) @ drop n old"

text \<open>
  What the system stores at a buffer that was given to it with a capacity of \<open>cap\<close> bytes for the
  address of the peer: the address, cut off at the capacity, and its full length.
\<close>

definition receive_peer :: "nat \<Rightarrow> answer \<Rightarrow> gwpr_io_info \<Rightarrow> gwpr_io_info" where
  "receive_peer cap a info =
     info\<lparr>io_peer := copy_peer (min cap (length (ans_peer a))) (ans_peer a) (io_peer info),
          io_peerlen := length (ans_peer a)\<rparr>"

text \<open>The bytes a read call stores: as many as its result says, in the buffer it was given.\<close>

definition receive_data :: "answer \<Rightarrow> gwprbuf \<Rightarrow> gwprbuf" where
  "receive_data a b =
     (let d = take (min (bufsize b) (nat (ans_ret a))) (ans_data a)
      in b\<lparr>buf_data := d @ drop (length d) (buf_data b)\<rparr>)"

subsection \<open>Accepting\<close>

text \<open>The capacity given to \<^verbatim>\<open>accept\<close> is the size of a pointer, \<^verbatim>\<open>sizeof(&ioinfo.peer)\<close>.\<close>

partial_function (option) accept_loop ::
    "('b, 'z) pworld_scheme pr_callbacks \<Rightarrow> ptr \<Rightarrow> ptr \<Rightarrow> int \<Rightarrow> gwpr_io_info \<Rightarrow> gwpr_error_info
     \<Rightarrow> ('b, 'z) pworld_scheme \<Rightarrow> ('b, 'z) pworld_scheme option" where
  [code]: "accept_loop cbs src p i info errinfo s =
     (if i < gwpr_max_accept (pr_options (pr_obj s))
      then do {
        fd \<leftarrow> src_file_fd src s;
        (a, s) \<leftarrow> Some (syscall (Sys_accept fd) s);
        if ans_ret a > -1 then do {
          let info = receive_peer 8 a info;
          (peersrc, s) \<leftarrow> gwrl_src_file_create (ans_ret a) 0 None None s;
          let info = info\<lparr>io_peersrc := peersrc\<rparr>;
          d \<leftarrow> get_pdata p s;
          s \<leftarrow> call_io cbs (acceptcb d) info s;
          accept_loop cbs src p (i + 1) info errinfo s }
        else if errno s \<noteq> EWOULDBLOCK then do {
          d \<leftarrow> get_pdata p s;
          if errorcb d \<noteq> None then do {
            let errinfo = errinfo\<lparr>err_src := src, err_errnm := errno s, err_fnc := ''accept''\<rparr>;
            s \<leftarrow> call_error cbs (errorcb d) errinfo s;
            accept_loop cbs src p (i + 1) (info\<lparr>io_peerlen := 8\<rparr>) errinfo s }
          else accept_loop cbs src p (i + 1) (info\<lparr>io_peerlen := 8\<rparr>) errinfo (gwerr ''09F6R'' s) }
        else accept_loop cbs src p (i + 1) (info\<lparr>io_peerlen := 8\<rparr>) errinfo s }
      else Some s)"

definition gwpr_src_activity_read_accept ::
    "('b, 'z) pworld_scheme pr_callbacks \<Rightarrow> ptr \<Rightarrow> ('b, 'z) pworld_scheme \<Rightarrow> ('b, 'z) pworld_scheme option" where
  "gwpr_src_activity_read_accept cbs src s = do {
     p \<leftarrow> src_pdata src s;
     accept_loop cbs src p 0 (zero_io_info\<lparr>io_src := src\<rparr>) zero_error_info s }"

subsection \<open>Reading\<close>

text \<open>The call for an operation with the capacity of the buffer; other operations make none.\<close>

definition read_call :: "int \<Rightarrow> gwpr_io_op_id \<Rightarrow> nat \<Rightarrow> syscall option" where
  "read_call fd op n = (case op of
     gwpr_read_op_id \<Rightarrow> Some (Sys_read fd n)
   | gwpr_recvfrom_op_id \<Rightarrow> Some (Sys_recvfrom fd n)
   | gwpr_recv_op_id \<Rightarrow> Some (Sys_recv fd n)
   | _ \<Rightarrow> None)"

definition read_name :: "gwpr_io_op_id \<Rightarrow> string option" where
  "read_name op = (case op of
     gwpr_read_op_id \<Rightarrow> Some ''read''
   | gwpr_recvfrom_op_id \<Rightarrow> Some ''recvfrom''
   | gwpr_recv_op_id \<Rightarrow> Some ''recv''
   | _ \<Rightarrow> None)"

definition set_fnc :: "string option \<Rightarrow> gwpr_error_info \<Rightarrow> gwpr_error_info" where
  "set_fnc f errinfo = (case f of None \<Rightarrow> errinfo | Some n \<Rightarrow> errinfo\<lparr>err_fnc := n\<rparr>)"

text \<open>
  \<^verbatim>\<open>rd->len = _res\<close> converts to \<^verbatim>\<open>size_t\<close>, so a failed read leaves \<^verbatim>\<open>2^64 - 1\<close> there. The \<^verbatim>\<open>int\<close> the result
  is kept in holds it: one call transfers less than \<^verbatim>\<open>2^31\<close> bytes.
\<close>

definition gwpr_src_activity_read ::
    "ptr \<Rightarrow> gwpr_io_info \<Rightarrow> gwpr_error_info \<Rightarrow> ('b, 'z) pworld_scheme
     \<Rightarrow> (int \<times> gwpr_io_info \<times> gwpr_error_info \<times> ('b, 'z) pworld_scheme) option" where
  "gwpr_src_activity_read src info errinfo s = do {
     p \<leftarrow> src_pdata src s;
     d \<leftarrow> get_pdata p s;
     (rd, s) \<leftarrow> create_retry (gwpr_buf_get (rdbufsize d)) s;
     let info = info\<lparr>io_src := src, io_buf := rd, io_op := rdop d\<rparr>;
     fd \<leftarrow> src_file_fd src s;
     b \<leftarrow> get_buf rd s;
     (res, info, s) \<leftarrow> (case read_call fd (rdop d) (bufsize b) of
         None \<Rightarrow> Some (0, info, s)
       | Some c \<Rightarrow> do {
           (a, s) \<leftarrow> sys_retry c s;
           let info = (if rdop d \<noteq> gwpr_recvfrom_op_id then info
             else if ans_ret a < 0 then info\<lparr>io_peerlen := SOCKADDR_STORAGE_SIZE\<rparr>
             else receive_peer SOCKADDR_STORAGE_SIZE a info);
           s \<leftarrow> (if ans_ret a > 0 then upd_buf (receive_data a) rd s else Some s);
           Some (ans_ret a, info, s) });
     let errinfo = (if res < 0 then set_fnc (read_name (rdop d)) errinfo else errinfo);
     s \<leftarrow> upd_buf (\<lambda>b. b\<lparr>buf_len := nat (res mod 2 ^ 64)\<rparr>) rd s;
     Some (res, info, errinfo, s) }"

definition gwpr_src_activity_read_result ::
    "('b, 'z) pworld_scheme pr_callbacks \<Rightarrow> int \<Rightarrow> ptr \<Rightarrow> gwpr_io_info \<Rightarrow> gwpr_error_info
     \<Rightarrow> ('b, 'z) pworld_scheme \<Rightarrow> (gwpr_error_info \<times> ('b, 'z) pworld_scheme) option" where
  "gwpr_src_activity_read_result cbs res src info errinfo s = do {
     p \<leftarrow> src_pdata src s;
     d \<leftarrow> get_pdata p s;
     if res > 0 then do {
       s \<leftarrow> gwpr_filter_call cbs src info gwpr_rdfilter_id s;
       d \<leftarrow> get_pdata p s;
       s \<leftarrow> call_io cbs (didreadcb d) info s;
       Some (errinfo, s) }
     else if res = 0 \<and> closedcb d \<noteq> None then do {
       s \<leftarrow> call_io cbs (closedcb d) info s;
       Some (errinfo, s) }
     else if res < 0 \<and> (errno s = ECONNRESET \<or> errno s = EPIPE) \<and> closedcb d \<noteq> None then do {
       s \<leftarrow> call_io cbs (closedcb d) info s;
       Some (errinfo, s) }
     else if res < 0 \<and> would_block (errno s) then Some (errinfo, s)
     else if res < 0 \<and> errorcb d \<noteq> None then do {
       let errinfo = errinfo\<lparr>err_errnm := errno s, err_src := src, err_op := io_op info\<rparr>;
       s \<leftarrow> call_error cbs (errorcb d) errinfo s;
       Some (errinfo, s) }
     else Some (errinfo, gwerr ''OKL4F'' s) }"

subsection \<open>Writing the queue\<close>

text \<open>The name is copied when nothing was written, since \<^verbatim>\<open>errnm != 0\<close> there tests a pointer.\<close>

definition gwpr_src_activity_write_qitem ::
    "('b, 'z) pworld_scheme pr_callbacks \<Rightarrow> ptr \<Rightarrow> ptr \<Rightarrow> gwpr_io_info \<Rightarrow> gwpr_error_info \<Rightarrow> ('b, 'z) pworld_scheme
     \<Rightarrow> (nat \<times> int \<times> gwpr_io_info \<times> gwpr_error_info \<times> ('b, 'z) pworld_scheme) option" where
  "gwpr_src_activity_write_qitem cbs src q info errinfo s = do {
     p \<leftarrow> src_pdata src s;
     e \<leftarrow> get_wrq q s;
     let info = info\<lparr>io_src := src, io_op := wrop e, io_buf := wrq_buf e, io_peerlen := wrq_peerlen e\<rparr>;
     info \<leftarrow> (if wrop e = gwpr_sendto_op_id
       then if wrq_peerlen e \<le> SOCKADDR_STORAGE_SIZE
            then Some (info\<lparr>io_peer := copy_peer (wrq_peerlen e) (wrq_peer e) (io_peer info)\<rparr>) else None
       else Some (info\<lparr>io_peer := []\<rparr>));
     d \<leftarrow> get_pdata p s;
     call \<leftarrow> (case wrfilters d of None \<Rightarrow> Some False
        | Some fs \<Rightarrow> map_option (\<lambda>f. f \<noteq> None) (nth_opt fs 0));
     s \<leftarrow> (if call then gwpr_filter_call cbs src info gwpr_wrfilter_id s else Some s);
     e \<leftarrow> get_wrq q s;
     (written, errnm, s) \<leftarrow> gwpr_write_buffer src (wrq_buf e) (wrop e) (Some (wrq_peer e)) 0 0 s;
     let errinfo = (if written = 0 \<and> write_op (wrop e) then errinfo\<lparr>err_fnc := fnc_name (wrop e)\<rparr> else errinfo);
     Some (written, errnm, info, errinfo, s) }"

text \<open>
  What is done with the result of one item. The buffer is read again after the user's callback
  was called with it. The results are \<^verbatim>\<open>continue_result\<close> and \<^verbatim>\<open>*stopwrite\<close>.
\<close>

definition qitem_report ::
    "('b, 'z) pworld_scheme pr_callbacks \<Rightarrow> ptr \<Rightarrow> ptr \<Rightarrow> nat \<Rightarrow> gwpr_io_info \<Rightarrow> ('b, 'z) pworld_scheme
     \<Rightarrow> (nat \<times> ptr \<times> ('b, 'z) pworld_scheme) option" where
  "qitem_report cbs p q written info s = do {
     e \<leftarrow> get_wrq q s;
     b \<leftarrow> get_buf (wrq_buf e) s;
     s \<leftarrow> (if written = buf_len b then do { d \<leftarrow> get_pdata p s; call_io cbs (didwritecb d) info s } else Some s);
     if written > 0 then do {
       e \<leftarrow> get_wrq q s;
       b \<leftarrow> get_buf (wrq_buf e) s;
       if written < buf_len b then do {
         let remain = buf_len b - written;
         (rembuf, s) \<leftarrow> create_retry (gwpr_buf_get remain) s;
         s \<leftarrow> buf_copy (drop written (buf_data b)) remain rembuf s;
         s \<leftarrow> upd_buf (\<lambda>b. b\<lparr>buf_len := written\<rparr>) (wrq_buf e) s;
         d \<leftarrow> get_pdata p s;
         s \<leftarrow> call_io cbs (didwritecb d) info s;
         Some (remain, rembuf, s) }
       else Some (0, None, s) }
     else Some (0, None, s) }"

definition gwpr_src_activity_write_qitem_result ::
    "('b, 'z) pworld_scheme pr_callbacks \<Rightarrow> ptr \<Rightarrow> ptr \<Rightarrow> gwpr_io_info \<Rightarrow> gwpr_error_info \<Rightarrow> nat \<Rightarrow> int \<Rightarrow> bool
     \<Rightarrow> ('b, 'z) pworld_scheme \<Rightarrow> (bool \<times> bool \<times> gwpr_io_info \<times> gwpr_error_info \<times> ('b, 'z) pworld_scheme) option" where
  "gwpr_src_activity_write_qitem_result cbs src q info errinfo written errnm stopwrite s = do {
     p \<leftarrow> src_pdata src s;
     e \<leftarrow> get_wrq q s;
     let info = info\<lparr>io_buf := wrq_buf e\<rparr>;
     (remain, rembuf, s) \<leftarrow> qitem_report cbs p q written info s;
     let again = remain > 0 \<and> (errnm = 0 \<or> would_block errnm);
     s \<leftarrow> (if again then do {
         (rembufq, s) \<leftarrow> gwprwrq_get s;
         e \<leftarrow> get_wrq q s;
         s \<leftarrow> upd_wrq (\<lambda>r. r\<lparr>wrq_peer := wrq_peer e\<rparr>) rembufq s;
         s \<leftarrow> upd_buf (\<lambda>b. b\<lparr>buf_len := remain\<rparr>) rembuf s;
         s \<leftarrow> upd_wrq (\<lambda>r. r\<lparr>wrq_peerlen := wrq_peerlen e, wrq_buf := rembuf, wrop := wrop e, wrq_next := wrq_next e\<rparr>) rembufq s;
         gwprwrq_putback src rembufq s }
       else Some s);
     let blocked = (written = 0 \<and> would_block errnm);
     s \<leftarrow> (if blocked then gwprwrq_putback src q s else Some s);
     let closed = (errnm = ECONNRESET \<or> errnm = EPIPE);
     let info = (if closed then info\<lparr>io_buf := (if remain > 0 then rembuf else None)\<rparr> else info);
     s \<leftarrow> (if closed then do {
         d \<leftarrow> get_pdata p s;
         if closedcb d \<noteq> None then call_io cbs (closedcb d) info s else Some s }
       else Some s);
     let handled = (again \<or> blocked \<or> closed);
     failed \<leftarrow> (if \<not> handled \<and> errnm \<noteq> 0 then do { d \<leftarrow> get_pdata p s; Some (errorcb d \<noteq> None) } else Some False);
     if failed then do {
       d \<leftarrow> get_pdata p s;
       e \<leftarrow> get_wrq q s;
       let errinfo = errinfo\<lparr>err_errnm := errnm, err_src := src, err_op := wrop e,
         err_buf := (if remain > 0 then rembuf else wrq_buf e)\<rparr>;
       s \<leftarrow> call_error cbs (errorcb d) errinfo s;
       s \<leftarrow> gwprwrq_putback src q s;
       Some (False, True, info, errinfo, s) }
     else Some (\<not> again \<and> \<not> blocked, stopwrite, info, errinfo, s) }"

subsection \<open>The callback\<close>

definition activity_read ::
    "('b, 'z) pworld_scheme pr_callbacks \<Rightarrow> ptr \<Rightarrow> ptr \<Rightarrow> gwpr_io_info \<Rightarrow> gwpr_error_info
     \<Rightarrow> ('b, 'z) pworld_scheme \<Rightarrow> (gwpr_io_info \<times> gwpr_error_info \<times> ('b, 'z) pworld_scheme) option" where
  "activity_read cbs src p info errinfo s = do {
     d \<leftarrow> get_pdata p s;
     if didreadcb d \<noteq> None then do {
       (res, info, errinfo, s) \<leftarrow> gwpr_src_activity_read src info errinfo s;
       (errinfo, s) \<leftarrow> gwpr_src_activity_read_result cbs res src info errinfo s;
       Some (info, errinfo, s) }
     else if acceptcb d \<noteq> None then do {
       s \<leftarrow> gwpr_src_activity_read_accept cbs src s;
       Some (info, errinfo, s) }
     else Some (info, errinfo, gwerr ''4FL9KF'' s) }"

text \<open>The loop over the queue; the result is \<^verbatim>\<open>stopwrite\<close>.\<close>

partial_function (option) write_queue_loop ::
    "('b, 'z) pworld_scheme pr_callbacks \<Rightarrow> ptr \<Rightarrow> bool \<Rightarrow> ptr \<Rightarrow> bool \<Rightarrow> gwpr_io_info \<Rightarrow> gwpr_error_info
     \<Rightarrow> ('b, 'z) pworld_scheme \<Rightarrow> (bool \<times> gwpr_io_info \<times> gwpr_error_info \<times> ('b, 'z) pworld_scheme) option" where
  [code]: "write_queue_loop cbs src freebuf q stopwrite info errinfo s =
     (if q = None then Some (stopwrite, info, errinfo, s)
      else do {
        e \<leftarrow> get_wrq q s;
        let qn = wrq_next e;
        (written, errnm, info, errinfo, s) \<leftarrow> gwpr_src_activity_write_qitem cbs src q info errinfo s;
        (continue_result, stopwrite, info, errinfo, s) \<leftarrow>
          gwpr_src_activity_write_qitem_result cbs src q info errinfo written errnm stopwrite s;
        if stopwrite \<or> \<not> continue_result then Some (stopwrite, info, errinfo, s)
        else do {
          s \<leftarrow> (if freebuf then do { e \<leftarrow> get_wrq q s; gwpr_buf_free (wrq_buf e) s } else Some s);
          s \<leftarrow> gwprwrq_free q s;
          write_queue_loop cbs src freebuf qn stopwrite info errinfo s } })"

definition activity_connected ::
    "('b, 'z) pworld_scheme pr_callbacks \<Rightarrow> ptr \<Rightarrow> ptr \<Rightarrow> gwpr_io_info \<Rightarrow> ('b, 'z) pworld_scheme
     \<Rightarrow> (gwpr_io_info \<times> ('b, 'z) pworld_scheme) option" where
  "activity_connected cbs src p info s = do {
     d \<leftarrow> get_pdata p s;
     if connectcb d \<noteq> None then do {
       let info = info\<lparr>io_src := src, io_peerlen := SOCKADDR_STORAGE_SIZE\<rparr>;
       fd \<leftarrow> src_file_fd src s;
       (a, s) \<leftarrow> Some (syscall (Sys_getpeername fd) s);
       let info = (if ans_ret a < 0 then info else receive_peer SOCKADDR_STORAGE_SIZE a info);
       s \<leftarrow> call_io cbs (connectcb d) info s;
       s \<leftarrow> upd_pdata (\<lambda>d. d\<lparr>connectcb := None\<rparr>) p s;
       Some (info, s) }
     else Some (info, s) }"

definition activity_write ::
    "('b, 'z) pworld_scheme pr_callbacks \<Rightarrow> ('b, 'z) pworld_scheme src_ops \<Rightarrow> ptr \<Rightarrow> ptr \<Rightarrow> gwpr_io_info
     \<Rightarrow> gwpr_error_info \<Rightarrow> ('b, 'z) pworld_scheme
     \<Rightarrow> (gwpr_io_info \<times> gwpr_error_info \<times> ('b, 'z) pworld_scheme) option" where
  "activity_write cbs ops src p info errinfo s = do {
     (info, s) \<leftarrow> activity_connected cbs src p info s;
     d \<leftarrow> get_pdata p s;
     if didwritecb d \<noteq> None then do {
       let q = wrq d;
       s \<leftarrow> upd_pdata (\<lambda>d. d\<lparr>wrq := None\<rparr>) p s;
       let freebuf = (didwritecb d = Some Fn_io_activity);
       (stopwrite, info, errinfo, s) \<leftarrow> write_queue_loop cbs src freebuf q False info errinfo s;
       d \<leftarrow> get_pdata p s;
       s \<leftarrow> (if wrq d = None \<or> stopwrite
            then do {
              o1 \<leftarrow> get_src src s;
              op_update_flags ops src (flclr (src_flags o1) GWRL_WR) s }
            else Some s);
       Some (info, errinfo, s) }
     else Some (info, errinfo, s) }"

text \<open>A finished synchronous write: the address of the peer is copied for \<^verbatim>\<open>write\<close> only.\<close>

definition activity_sync_write ::
    "('b, 'z) pworld_scheme pr_callbacks \<Rightarrow> ptr \<Rightarrow> ptr \<Rightarrow> ptr \<Rightarrow> gwpr_io_info \<Rightarrow> ('b, 'z) pworld_scheme
     \<Rightarrow> (gwpr_io_info \<times> ('b, 'z) pworld_scheme) option" where
  "activity_sync_write cbs src p q info s = do {
     d \<leftarrow> get_pdata p s;
     if didwritecb d \<noteq> None then do {
       e \<leftarrow> get_wrq q s;
       let info = info\<lparr>io_src := src, io_buf := wrq_buf e, io_op := wrop e\<rparr>;
       let info = (if wrop e = gwpr_write_op_id
         then info\<lparr>io_peer := wrq_peer e, io_peerlen := wrq_peerlen e\<rparr>
         else info\<lparr>io_peer := [], io_peerlen := 0\<rparr>);
       s \<leftarrow> call_io cbs (didwritecb d) info s;
       d \<leftarrow> get_pdata p s;
       s \<leftarrow> (if didwritecb d = Some Fn_io_activity then gwpr_buf_free (io_buf info) s else Some s);
       s \<leftarrow> gwprwrq_free q s;
       Some (info, s) }
     else Some (info, gwerr ''38FG7'' s) }"

definition activity_sync_close ::
    "('b, 'z) pworld_scheme pr_callbacks \<Rightarrow> ptr \<Rightarrow> ptr \<Rightarrow> ('b, 'z) pworld_scheme \<Rightarrow> ('b, 'z) pworld_scheme option" where
  "activity_sync_close cbs src p s = do {
     d \<leftarrow> get_pdata p s;
     if closedcb d \<noteq> None then call_io cbs (closedcb d) (zero_io_info\<lparr>io_src := src\<rparr>) s
     else Some (gwerr ''7GK9F'' s) }"

definition activity_sync_error ::
    "('b, 'z) pworld_scheme pr_callbacks \<Rightarrow> ptr \<Rightarrow> ptr \<Rightarrow> ('b, 'z) pworld_scheme \<Rightarrow> ('b, 'z) pworld_scheme option" where
  "activity_sync_error cbs p i s = do {
     d \<leftarrow> get_pdata p s;
     if errorcb d \<noteq> None then do {
       x \<leftarrow> i;
       errinfo \<leftarrow> einfos s x;
       s \<leftarrow> call_error cbs (errorcb d) errinfo s;
       _ \<leftarrow> einfos s x;
       Some (s\<lparr>einfos := (einfos s)(x := None)\<rparr>) }
     else Some (gwerr ''0LOP4'' s) }"

definition gwpr_src_activity ::
    "('b, 'z) pworld_scheme pr_callbacks \<Rightarrow> ('b, 'z) pworld_scheme src_ops \<Rightarrow> ptr
     \<Rightarrow> ('b, 'z) pworld_scheme \<Rightarrow> ('b, 'z) pworld_scheme option" where
  "gwpr_src_activity cbs ops evt s = do {
     e \<leftarrow> get_evt evt s;
     let src = evt_src e;
     o1 \<leftarrow> get_src src s;
     if src_type o1 = GWRL_SRC_TYPE_FILE then do {
       p \<leftarrow> src_pdata src s;
       if p = None then Some s
       else do {
         (info, errinfo, s) \<leftarrow> (if flisset (evt_flags e) GWRL_RD
            then activity_read cbs src p zero_io_info zero_error_info s
            else Some (zero_io_info, zero_error_info, s));
         e \<leftarrow> get_evt evt s;
         s \<leftarrow> (if flisset (evt_flags e) GWRL_WR
            then do { (info, errinfo, s) \<leftarrow> activity_write cbs ops src p info errinfo s; Some s }
            else if flisset (evt_flags e) GWRL_SYNC_WRITE
            then do { (info, s) \<leftarrow> activity_sync_write cbs src p (evt_userdata e) info s; Some s }
            else Some s);
         e \<leftarrow> get_evt evt s;
         if flisset (evt_flags e) GWRL_SYNC_CLOSE then activity_sync_close cbs src p s
         else if flisset (evt_flags e) GWRL_SYNC_ERROR then activity_sync_error cbs p (evt_userdata e) s
         else Some s } }
     else Some s }"

subsection \<open>Freeing the proactor\<close>

text \<open>The body for one source of the lists: its filters, its queue and its proactor data.\<close>

definition free_source_pdata ::
    "('b, 'z) pworld_scheme src_ops \<Rightarrow> ptr \<Rightarrow> ('b, 'z) pworld_scheme \<Rightarrow> ('b, 'z) pworld_scheme option" where
  "free_source_pdata ops src s = do {
     o1 \<leftarrow> get_src src s;
     if src_type o1 = GWRL_SRC_TYPE_FILE then do {
       p \<leftarrow> src_pdata src s;
       if p \<noteq> None then do {
         s \<leftarrow> gwrl_src_disable ops src s;
         s \<leftarrow> upd_src (\<lambda>o1. o1\<lparr>src_callback := None\<rparr>) src s;
         d \<leftarrow> get_pdata p s;
         s \<leftarrow> (if wrq d \<noteq> None then do {
             s \<leftarrow> gwprwrq_free_list_no_cache (wrq d) s;
             upd_pdata (\<lambda>d. d\<lparr>wrq := None, wrqlast := None\<rparr>) p s }
           else Some s);
         s \<leftarrow> free_pdata p s;
         upd_src (set_file_pdata None) src s }
       else Some s }
     else Some s }"

partial_function (option) pr_free_loop ::
    "('b, 'z) pworld_scheme src_ops \<Rightarrow> ptr \<Rightarrow> ('b, 'z) pworld_scheme \<Rightarrow> ('b, 'z) pworld_scheme option" where
  [code]: "pr_free_loop ops src s =
     (if src = None then Some s
      else do {
        s \<leftarrow> free_source_pdata ops src s;
        o1 \<leftarrow> get_src src s;
        pr_free_loop ops (src_next o1) s })"

definition gwpr_free ::
    "('b, 'z pworld_ext) callbacks \<Rightarrow> ('b, 'z) pworld_scheme src_ops \<Rightarrow> ('b, 'z) pworld_scheme
     \<Rightarrow> ('b, 'z) pworld_scheme option" where
  "gwpr_free cb ops s = do {
     s \<leftarrow> gwrl_dispatch cb s;
     head1 \<leftarrow> nth_opt (sources (rl s)) GWRL_SRC_TYPE_FILE;
     s \<leftarrow> pr_free_loop ops head1 s;
     head2 \<leftarrow> nth_opt (sources (rl s)) GWRL_SRC_TYPE_TIME;
     s \<leftarrow> pr_free_loop ops head2 s;
     s \<leftarrow> (if wrqcache (pr_obj s) \<noteq> None
          then gwprwrq_free_list_no_cache (wrqcache (pr_obj s)) s else Some s);
     Some (s\<lparr>rl := (rl s)\<lparr>rl_pr := None\<rparr>\<rparr>) }"

subsection \<open>What the system takes\<close>

definition call_data :: "syscall \<Rightarrow> byte list" where
  "call_data c = (case c of Sys_write _ x \<Rightarrow> x | Sys_send _ x \<Rightarrow> x | Sys_sendto _ x _ \<Rightarrow> x | _ \<Rightarrow> [])"

definition call_fd :: "syscall \<Rightarrow> int" where
  "call_fd c = (case c of Sys_write fd _ \<Rightarrow> fd | Sys_send fd _ \<Rightarrow> fd | Sys_sendto fd _ _ \<Rightarrow> fd | _ \<Rightarrow> -1)"

definition got_of :: "answer \<Rightarrow> nat" where
  "got_of x = (if ans_ret x < 0 then 0 else nat (ans_ret x))"

text \<open>The bytes that calls, oldest first, hand over when they are answered by \<open>A\<close>.\<close>

fun taken_bytes :: "(nat \<Rightarrow> answer) \<Rightarrow> syscall list \<Rightarrow> byte list" where
  "taken_bytes A [] = []"
| "taken_bytes A (c # cs) = take (got_of (A 0)) (call_data c) @ taken_bytes (\<lambda>i. A (Suc i)) cs"

text \<open>
  Buffers with \<open>ns\<close> bytes are taken one after the other, the \<open>i\<close>-th with \<open>ks ! i\<close> calls, each of
  which takes some of the bytes or is interrupted.
\<close>

fun all_taken :: "(nat \<Rightarrow> answer) \<Rightarrow> nat list \<Rightarrow> nat list \<Rightarrow> bool" where
  "all_taken A [] ks \<longleftrightarrow> ks = []"
| "all_taken A (n # ns) [] \<longleftrightarrow> False"
| "all_taken A (n # ns) (k # ks) \<longleftrightarrow>
     (\<forall>i<k. ans_ret (A i) < 0 \<longrightarrow> ans_errno (A i) = EINTR) \<and> (\<forall>i<k. (\<Sum>j<i. got_of (A j)) < n) \<and>
     (\<Sum>j<k. got_of (A j)) = n \<and> all_taken (\<lambda>i. A (k + i)) ns ks"

lemma sofar_got_of: "sofar s k = (\<Sum>j<k. got_of (answer_at s j))"
  by (simp add: sofar_def got_def got_of_def)

lemma taken_bytes_append:
  "taken_bytes A (cs @ ds) = taken_bytes A cs @ taken_bytes (\<lambda>i. A (length cs + i)) ds"
  by (induction cs arbitrary: A) auto

lemma taken_bytes_map:
  "taken_bytes A (map f [0..<k]) = concat (map (\<lambda>i. take (got_of (A i)) (call_data (f i))) [0..<k])"
  by (induction k) (simp_all add: taken_bytes_append)

lemma write_call_data:
  "write_op op \<Longrightarrow> call_data (the (write_call fd op peer x)) = x \<and> call_fd (the (write_call fd op peer x)) = fd"
  by (auto simp: write_op_def write_call_def call_data_def call_fd_def)

lemma taken_sent:
  assumes "write_op op" "sofar s k \<le> length data"
  shows "taken_bytes (answer_at s) (rev (sent fd op peer data s k)) = take (sofar s k) data"
proof -
  have "taken_bytes (answer_at s) (rev (sent fd op peer data s k)) =
      concat (map (\<lambda>i. take (got s i) (drop (sofar s i) data)) [0..<k])"
    using assms(1) by (simp add: sent_def taken_bytes_map write_call_data got_of_def got_def)
  then show ?thesis using sofar_taken [OF assms(2)] by simp
qed

subsection \<open>Draining the queue\<close>

text \<open>The requests from \<open>q\<close> on: their address, the address of their buffer, and the buffer.\<close>

fun queued :: "('b, 'z) pworld_scheme \<Rightarrow> ptr \<Rightarrow> (addr \<times> addr \<times> gwprbuf) list \<Rightarrow> bool" where
  "queued s q [] \<longleftrightarrow> q = None"
| "queued s q ((x, b, B) # L) \<longleftrightarrow> q = Some x \<and>
     (\<exists>e. wrqs s x = Some e \<and> wrq_buf e = Some b \<and> write_op (wrop e) \<and> wrq_peerlen e \<le> SOCKADDR_STORAGE_SIZE \<and>
       bufs s b = Some B \<and> buf_len B \<le> length (buf_data B) \<and> queued s (wrq_next e) L)"

definition q_reqs :: "(addr \<times> addr \<times> gwprbuf) list \<Rightarrow> addr list" where
  "q_reqs L = map fst L"

definition q_bufs :: "(addr \<times> addr \<times> gwprbuf) list \<Rightarrow> addr list" where
  "q_bufs L = map (\<lambda>(x, b, B). b) L"

definition q_bytes :: "(addr \<times> addr \<times> gwprbuf) list \<Rightarrow> byte list" where
  "q_bytes L = concat (map (\<lambda>(x, b, B). buf_bytes B) L)"

definition q_lens :: "(addr \<times> addr \<times> gwprbuf) list \<Rightarrow> nat list" where
  "q_lens L = map (\<lambda>(x, b, B). buf_len B) L"

lemma q_simps [simp]:
  "q_reqs [] = []" "q_bufs [] = []" "q_bytes [] = []" "q_lens [] = []"
  "q_reqs ((x, b, B) # L) = x # q_reqs L" "q_bufs ((x, b, B) # L) = b # q_bufs L"
  "q_bytes ((x, b, B) # L) = buf_bytes B @ q_bytes L" "q_lens ((x, b, B) # L) = buf_len B # q_lens L"
  by (simp_all add: q_reqs_def q_bufs_def q_bytes_def q_lens_def)

lemma queued_cong:
  assumes "\<And>x. x \<in> set (q_reqs L) \<Longrightarrow> wrqs s' x = wrqs s x" "\<And>b. b \<in> set (q_bufs L) \<Longrightarrow> bufs s' b = bufs s b"
  shows "queued s' q L = queued s q L"
  using assms by (induction L arbitrary: q) auto

lemma write_qitem_ok:
  assumes "has_pdata s a p d" "no_wrfilters d" "src_file_fd (Some a) s = Some fd"
    and "wrqs s q = Some e" "wrq_buf e = Some b" "write_op (wrop e)" "wrq_peerlen e \<le> SOCKADDR_STORAGE_SIZE"
    and "bufs s b = Some B" "buf_len B \<le> length (buf_data B)"
    and "\<forall>i<k. ans_ret (answer_at s i) < 0 \<longrightarrow> ans_errno (answer_at s i) = EINTR"
    and "\<forall>i<k. sofar s i < buf_len B" "sofar s k \<le> buf_len B"
    and "sofar s k = buf_len B \<or> ans_ret (answer_at s k) < 0 \<and> ans_errno (answer_at s k) \<noteq> EINTR"
    and "m = (if sofar s k = buf_len B then k else Suc k)"
  obtains t info' errinfo' where
    "gwpr_src_activity_write_qitem cbs (Some a) (Some q) info errinfo s =
       Some (sofar s k, if sofar s k = buf_len B then 0 else ans_errno (answer_at s k), info', errinfo', t)"
    "sys_frame s t" "calls t = sent fd (wrop e) (Some (wrq_peer e)) (buf_bytes B) s m @ calls s"
    "io_buf info' = Some b" "io_src info' = Some a" "io_op info' = wrop e"
proof -
  have pd: "src_pdata (Some a) s = Some (Some p)" "pdatas s p = Some d" using assms(1) by (simp_all add: has_pdata_def)
  have nf: "(case wrfilters d of None \<Rightarrow> Some False | Some fs \<Rightarrow> map_option (\<lambda>f. f \<noteq> None) (nth_opt fs 0)) = Some False"
    using assms(2) by (auto simp: no_wrfilters_def nth_opt_def hd_conv_nth split: option.splits)
  have len: "length (buf_bytes B) = buf_len B" using assms(9) by (simp add: buf_bytes_def)
  obtain t where t: "write_loop fd (wrop e) (Some (wrq_peer e)) (buf_bytes B) 0 0 s =
      Some (sofar s k, if sofar s k = buf_len B then 0 else ans_errno (answer_at s k), t)" "sys_frame s t"
    "calls t = sent fd (wrop e) (Some (wrq_peer e)) (buf_bytes B) s m @ calls s"
    using write_loop_ok [of "wrop e" k s "buf_bytes B" m fd "Some (wrq_peer e)" 0] assms(6,10-14) by (auto simp: len)
  then have wb: "gwpr_write_buffer (Some a) (Some b) (wrop e) (Some (wrq_peer e)) 0 0 s =
      Some (sofar s k, if sofar s k = buf_len B then 0 else ans_errno (answer_at s k), t)"
    using assms(3,8,9) by (simp add: gwpr_write_buffer_def buf_bytes_def)
  let ?peer = "if wrop e = gwpr_sendto_op_id then copy_peer (wrq_peerlen e) (wrq_peer e) (io_peer info) else []"
  let ?info = "info\<lparr>io_src := Some a, io_op := wrop e, io_buf := Some b, io_peerlen := wrq_peerlen e, io_peer := ?peer\<rparr>"
  let ?errinfo = "if sofar s k = 0 \<and> write_op (wrop e) then errinfo\<lparr>err_fnc := fnc_name (wrop e)\<rparr> else errinfo"
  have "gwpr_src_activity_write_qitem cbs (Some a) (Some q) info errinfo s =
      Some (sofar s k, if sofar s k = buf_len B then 0 else ans_errno (answer_at s k), ?info, ?errinfo, t)"
    using pd nf assms(4,5,7) wb by (simp add: gwpr_src_activity_write_qitem_def)
  then show ?thesis by (rule that [OF _ t(2,3)]) simp_all
qed


lemma sys_frame_fields:
  fixes s t :: "('b, 'z) pworld_scheme"
  assumes "sys_frame s t"
  shows "srcs t = srcs s" "evts t = evts s" "rl t = rl s" "wrqs t = wrqs s" "bufs t = bufs s" "pdatas t = pdatas s"
    "pr_obj t = pr_obj s" "answers t = answers s" "brk t = brk s" "oom t = oom s" "errs t = errs s"
  by (subst assms [unfolded sys_frame_def], simp)+

lemma has_pdata_cong: "srcs t = srcs s \<Longrightarrow> pdatas t p = pdatas s p \<Longrightarrow> has_pdata t a p d = has_pdata s a p d"
  using src_pdata_srcs [of t s "Some a"] by (simp add: has_pdata_def)

lemma length_sent [simp]: "length (sent fd op peer data s k) = k"
  by (simp add: sent_def)


subsection \<open>Writable sources\<close>

lemma queued_chain: "queued s q L \<Longrightarrow> chain (wrq_nx s) q (q_reqs L)"
  by (induction L arbitrary: q) (auto simp: wrq_nx_iff)

text \<open>The flags of an event that says nothing but writable.\<close>

lemma wr_flags:
  "\<not> flisset GWRL_WR GWRL_RD" "flisset GWRL_WR GWRL_WR" "\<not> flisset GWRL_WR GWRL_SYNC_CLOSE" "\<not> flisset GWRL_WR GWRL_SYNC_ERROR"
  by (simp_all add: flag_simps)

lemma activity_wr:
  assumes "evts s ev = Some e" "evt_src e = Some a" "evt_flags e = GWRL_WR" "file_src s a" "has_pdata s a p d"
    and "activity_write cbs ops (Some a) (Some p) zero_io_info zero_error_info s = Some (info, errinfo, s')" "evts s' = evts s"
  shows "gwpr_src_activity cbs ops (Some ev) s = Some s'"
proof -
  obtain o1 where o1: "srcs s a = Some o1" "src_type o1 = GWRL_SRC_TYPE_FILE" using assms(4) by (auto simp: file_src_iff src_type_defs)
  show ?thesis
    using assms o1 wr_flags by (simp add: gwpr_src_activity_def has_pdata_def)
qed



lemma buf_get_retry_ok:
  obtains x om er where "create_retry (gwpr_buf_get n) s = Some (Some x,
      s\<lparr>brk := Suc (Suc x), oom := om, errs := er, bufs := (bufs s)(x \<mapsto> new_buf n)\<rparr>)" "brk s \<le> x"
proof -
  have "\<exists>x om er. create_retry (gwpr_buf_get n) s = Some (Some x,
      s\<lparr>brk := Suc (Suc x), oom := om, errs := er, bufs := (bufs s)(x \<mapsto> new_buf n)\<rparr>) \<and> brk s \<le> x"
  proof (induction "length (oom s)" arbitrary: s rule: less_induct)
    case less
    obtain p s1 where c1: "calloc s = (p, s1)" by (cases "calloc s")
    have again: ?case if "gwpr_buf_get n s = Some (None, gwerr m t)" "length (oom t) < length (oom s)"
      "t = s\<lparr>oom := oom t, brk := brk t\<rparr>" "brk s \<le> brk t" for m t
    proof -
      have "create_retry (gwpr_buf_get n) s = create_retry (gwpr_buf_get n) (gwerr m t)"
        using that(1) by (simp add: create_retry_def retry_until.simps [of _ None])
      moreover have "length (oom (gwerr m t)) < length (oom s)" using that(2) by (simp add: gwerr_def)
      note less [OF this]
      ultimately obtain x om er where r: "create_retry (gwpr_buf_get n) s = Some (Some x,
          (gwerr m t)\<lparr>brk := Suc (Suc x), oom := om, errs := er, bufs := (bufs (gwerr m t))(x \<mapsto> new_buf n)\<rparr>)" "brk (gwerr m t) \<le> x"
        by auto
      have "bufs t = bufs s" by (subst that(3)) simp
      then have "(gwerr m t)\<lparr>brk := Suc (Suc x), oom := om, errs := er, bufs := (bufs (gwerr m t))(x \<mapsto> new_buf n)\<rparr> =
          s\<lparr>brk := Suc (Suc x), oom := om, errs := er, bufs := (bufs s)(x \<mapsto> new_buf n)\<rparr>"
        by (subst (1) that(3)) (simp add: gwerr_def)
      with r that(4) show ?case by (intro exI [of _ x] exI [of _ om] exI [of _ er]) (simp add: gwerr_def)
    qed
    show ?case
    proof (cases p)
      case None
      then have "gwpr_buf_get n s = Some (None, gwerr ''Erl3F'' s1)" using c1 by (simp add: gwpr_buf_get_def)
      moreover have "length (oom s1) < length (oom s)" "s1 = s\<lparr>oom := oom s1, brk := brk s1\<rparr>" "brk s1 = brk s"
        using c1 None by (auto simp: calloc_def split: list.splits bool.splits)
      ultimately show ?thesis using again by simp
    next
      case (Some a)
      then have s1: "a = brk s" "s1 = s\<lparr>oom := oom s1, brk := Suc (brk s)\<rparr>" "length (oom s1) \<le> length (oom s)"
        using c1 by (auto simp: calloc_def split: list.splits bool.splits)
      obtain p2 s2 where c2: "calloc s1 = (p2, s2)" by (cases "calloc s1")
      show ?thesis
      proof (cases p2)
        case None
        have b: "brk s1 = Suc (brk s)" by (subst s1(2)) simp
        have "gwpr_buf_get n s = Some (None, gwerr ''RF4Hk'' s2)" using c1 c2 Some None by (simp add: gwpr_buf_get_def)
        moreover have "length (oom s2) < length (oom s1)" "s2 = s1\<lparr>oom := oom s2, brk := brk s2\<rparr>" "brk s2 = brk s1"
          using c2 None by (auto simp: calloc_def split: list.splits bool.splits)
        moreover obtain o1 o2 b2 where "s1 = s\<lparr>oom := o1, brk := Suc (brk s)\<rparr>" "s2 = s1\<lparr>oom := o2, brk := b2\<rparr>"
          using s1(2) calculation(3) by blast
        then have "s2 = s\<lparr>oom := oom s2, brk := brk s2\<rparr>" by simp
        ultimately show ?thesis using again [of "''RF4Hk''" s2] s1(3) b by simp
      next
        case (Some c)
        then have s2: "s2 = s1\<lparr>oom := oom s2, brk := Suc (brk s1)\<rparr>"
          using c2 by (auto simp: calloc_def split: list.splits bool.splits)
        have b: "brk s1 = Suc (brk s)" "bufs s1 = bufs s" "bufs s2 = bufs s" by (subst s1(2), simp, subst s1(2), simp, subst s2, subst s1(2), simp)
        have "gwpr_buf_get n s = Some (Some (brk s), s2\<lparr>bufs := (bufs s2)(brk s \<mapsto> new_buf n)\<rparr>)"
          using c1 c2 Some \<open>p = Some a\<close> s1(1) by (simp add: gwpr_buf_get_def)
        moreover have "s2\<lparr>bufs := (bufs s2)(brk s \<mapsto> new_buf n)\<rparr> =
            s\<lparr>brk := Suc (Suc (brk s)), oom := oom s2, errs := errs s, bufs := (bufs s)(brk s \<mapsto> new_buf n)\<rparr>"
          by (subst s2, subst (1) s1(2)) (simp add: b)
        ultimately show ?thesis
          by (intro exI [of _ "brk s"] exI [of _ "oom s2"] exI [of _ "errs s"])
            (simp add: create_retry_def retry_until.simps [of _ "Some (brk s)"])
      qed
    qed
  qed
  with that show ?thesis by blast
qed

text \<open>
  C37: A callback for finished writes that frees the buffer it is given, as the one of the example
  program and of the tests does, makes the write of a queue undefined: after the callback of a complete
  write, \<^verbatim>\<open>gwpr_src_activity_write_qitem_result\<close> reads the length of the freed buffer.
\<close>
theorem freed_buffer_read_again:
  assumes "evts s ev = Some e" "evt_src e = Some a" "evt_flags e = GWRL_WR" "file_src s a"
    and "has_pdata s a p d" "queued s (wrq d) ((x, b, B) # L)"
    and "didwritecb d = Some g" "g \<noteq> Fn_io_activity" "\<And>info s. cb_io cbs g info s = gwpr_buf_free (io_buf info) s"
    and "connectcb d = None" "no_wrfilters d" "0 < buf_len B" "all_taken (answer_at s) [buf_len B] [k]"
  shows "gwpr_src_activity cbs ops (Some ev) s = None"
proof -
  let ?d = "d\<lparr>wrq := None\<rparr>"
  let ?s1 = "s\<lparr>pdatas := (pdatas s)(p \<mapsto> ?d)\<rparr>"
  obtain r where r: "wrq d = Some x" "wrqs s x = Some r" "wrq_buf r = Some b" "write_op (wrop r)"
    "wrq_peerlen r \<le> SOCKADDR_STORAGE_SIZE" "bufs s b = Some B" "buf_len B \<le> length (buf_data B)"
    using assms(6) by auto
  have pd: "src_pdata (Some a) s = Some (Some p)" "pdatas s p = Some d" using assms(5) by (simp_all add: has_pdata_def)
  have p1: "has_pdata ?s1 a p ?d" using pd(1) src_pdata_srcs [of ?s1 s "Some a"] by (simp add: has_pdata_def)
  have f1: "src_file_fd (Some a) ?s1 = Some (src_fd s a)" using file_src_fd [OF assms(4)] src_file_fd_srcs [of ?s1 s a] by simp
  have a1: "answer_at ?s1 = answer_at s" by (simp add: answer_at_def fun_eq_iff)
  have k: "\<forall>i<k. ans_ret (answer_at ?s1 i) < 0 \<longrightarrow> ans_errno (answer_at ?s1 i) = EINTR"
    "\<forall>i<k. sofar ?s1 i < buf_len B" "sofar ?s1 k = buf_len B"
    using assms(13) by (simp_all add: a1 sofar_got_of)
  obtain t info' errinfo' where t: "gwpr_src_activity_write_qitem cbs (Some a) (Some x) zero_io_info zero_error_info ?s1 =
      Some (sofar ?s1 k, if sofar ?s1 k = buf_len B then 0 else ans_errno (answer_at ?s1 k), info', errinfo', t)" "sys_frame ?s1 t"
    "calls t = sent (src_fd s a) (wrop r) (Some (wrq_peer r)) (buf_bytes B) ?s1 k @ calls ?s1"
    "io_buf info' = Some b" "io_src info' = Some a" "io_op info' = wrop r"
    by (rule write_qitem_ok [OF p1 _ f1 _ r(3-5) _ r(7) k(1,2), where m = k])
      (use assms(11) r(2,6) k(3) in \<open>simp_all add: no_wrfilters_def\<close>)
  note tf = sys_frame_fields [OF t(2)]
  have "has_pdata t a p ?d" using has_pdata_cong [OF tf(1), of p a ?d] p1 tf(6) by simp
  then have "gwpr_src_activity_write_qitem_result cbs (Some a) (Some x) info' errinfo' (buf_len B) 0 False t = None"
    using r(2,3,6) tf(4,5) assms(7-9,12)
    by (simp add: gwpr_src_activity_write_qitem_result_def qitem_report_def has_pdata_def call_io_def gwpr_buf_free_def Let_def)
  then have loop: "write_queue_loop cbs (Some a) False (Some x) False zero_io_info zero_error_info ?s1 = None"
    using t(1) k(3) r(2) by (simp add: write_queue_loop.simps [of cbs "Some a" False "Some x"])
  obtain o1 where o1: "srcs s a = Some o1" "src_type o1 = GWRL_SRC_TYPE_FILE" using assms(4) by (auto simp: file_src_iff src_type_defs)
  have "activity_write cbs ops (Some a) (Some p) zero_io_info zero_error_info s = None"
    using pd r(1) loop assms(7,8,10) by (simp add: activity_write_def activity_connected_def)
  then show ?thesis using assms(1-3) o1 pd wr_flags by (simp add: gwpr_src_activity_def)
qed

text \<open>An item that was written in part goes back, with what is left of it, to the head of the queue.\<close>

lemma qitem_partial_ok:
  assumes pd: "has_pdata s a p d" and d: "didwritecb d = Some Fn_io_activity" "wrq d = None"
    and q: "wrqs s x = Some e" "wrq_buf e = Some b" "bufs s b = Some B" "buf_len B \<le> length (buf_data B)"
    and w: "0 < w" "w < buf_len B" "would_block er" and C: "wrq_cache s C" "pr_fresh s" "x \<notin> set C"
  obtains s' info' x' y r R where
    "gwpr_src_activity_write_qitem_result cbs (Some a) (Some x) info errinfo w er False s = Some (False, False, info', errinfo, s')"
    "x' \<noteq> x" "brk s \<le> y" "brk s \<le> x' \<or> x' \<in> set C"
    "has_pdata s' a p (d\<lparr>wrq := Some x'\<rparr>)"
    "wrqs s' x' = Some r" "wrq_buf r = Some y" "wrop r = wrop e" "wrq_next r = wrq_next e" "wrq_peer r = wrq_peer e" "wrq_peerlen r = wrq_peerlen e"
    "bufs s' y = Some R" "buf_bytes R = drop w (buf_bytes B)" "buf_len R = buf_len B - w" "buf_len R \<le> length (buf_data R)"
    "\<forall>z. z \<noteq> x' \<longrightarrow> wrqs s' z = wrqs s z" "bufs s' b = Some (B\<lparr>buf_len := w\<rparr>)" "\<forall>z. z \<noteq> y \<and> z \<noteq> b \<longrightarrow> bufs s' z = bufs s z"
    "srcs s' = srcs s" "evts s' = evts s" "calls s' = calls s"
proof -
  let ?n = "buf_len B - w"
  have er: "er \<noteq> ECONNRESET" "er \<noteq> EPIPE" using w(3) by (auto simp: would_block_def errno_defs)
  have pp: "src_pdata (Some a) s = Some (Some p)" "pdatas s p = Some d" using pd by (simp_all add: has_pdata_def)
  obtain y om em where g: "create_retry (gwpr_buf_get ?n) s = Some (Some y,
      s\<lparr>brk := Suc (Suc y), oom := om, errs := em, bufs := (bufs s)(y \<mapsto> new_buf ?n)\<rparr>)" "brk s \<le> y"
    by (rule buf_get_retry_ok)
  have yb: "y \<noteq> b" using g(2) q(3) C(2) by (auto simp: pr_fresh_def)
  let ?data = "take ?n (drop w (buf_data B))"
  let ?R0 = "(new_buf ?n)\<lparr>buf_data := ?data @ drop ?n (buf_data (new_buf ?n))\<rparr>"
  let ?s3 = "s\<lparr>brk := Suc (Suc y), oom := om, errs := em, bufs := (bufs s)(y \<mapsto> ?R0, b \<mapsto> B\<lparr>buf_len := w\<rparr>)\<rparr>"
  have sp: "src_pdata (Some a) ?s3 = Some (Some p)" using pp(1) src_pdata_srcs [of ?s3 s "Some a"] by simp
  have rep: "qitem_report cbs (Some p) (Some x) w (info\<lparr>io_buf := Some b\<rparr>) s = Some (?n, Some y, ?s3)"
    using q w(1,2) g(1) yb pp d(1) by (simp add: qitem_report_def buf_copy_def new_buf_def call_io_def Let_def fun_upd_twist)
  have c3: "wrq_cache ?s3 C" by (rule wrq_cache_cong [OF C(1)]) (simp_all add: wrq_nx_def)
  have f3: "pr_fresh ?s3" using C(2) g(2) q(3) by (auto simp: pr_fresh_def)
  obtain x' s4 where x': "gwprwrq_get ?s3 = Some (Some x', s4)" "wrq_cache s4 (tl C)" "x' = (case C of [] \<Rightarrow> brk ?s3 | c # _ \<Rightarrow> c)"
    "x' \<notin> set (tl C)" "\<exists>e. wrqs s4 x' = Some e \<and> wrq_next e = None" "\<forall>z. z \<noteq> x' \<longrightarrow> wrqs s4 z = wrqs ?s3 z"
    "s4 = ?s3\<lparr>wrqs := wrqs s4, pr_obj := pr_obj s4, brk := brk s4, oom := oom s4, errs := errs s4\<rparr>"
    "pr_fresh s4" "brk ?s3 \<le> brk s4" "pr_options (pr_obj s4) = pr_options (pr_obj ?s3)"
    by (rule wrq_get_ok [OF c3 f3])
  obtain e0 where e0: "wrqs s4 x' = Some e0" using x'(5) by blast
  have al: "brk s \<le> x' \<or> x' \<in> set C" using x'(3) g(2) by (auto split: list.splits)
  have nx: "x' \<noteq> x" using al C(2,3) q(1) by (auto simp: pr_fresh_def)
  have f4: "bufs s4 = bufs ?s3" "srcs s4 = srcs s" "pdatas s4 = pdatas s" "evts s4 = evts s" "calls s4 = calls s"
    by (subst x'(7), simp)+
  have w4: "wrqs s4 x = Some e" using x'(6) nx q(1) by simp
  let ?r = "e0\<lparr>wrq_peer := wrq_peer e, wrq_peerlen := wrq_peerlen e, wrq_buf := Some y, wrop := wrop e, wrq_next := wrq_next e\<rparr>"
  let ?R = "?R0\<lparr>buf_len := ?n\<rparr>"
  let ?s5 = "s4\<lparr>bufs := (bufs s4)(y \<mapsto> ?R), wrqs := (wrqs s4)(x' \<mapsto> ?r)\<rparr>"
  let ?s6 = "?s5\<lparr>pdatas := (pdatas s)(p \<mapsto> d\<lparr>wrq := Some x'\<rparr>)\<rparr>"
  have s5: "s4\<lparr>wrqs := (wrqs s4)(x' \<mapsto> e0\<lparr>wrq_peer := wrq_peer e\<rparr>), bufs := (bufs s4)(y \<mapsto> ?R), wrqs := (wrqs s4)(x' \<mapsto> ?r)\<rparr> = ?s5"
    by simp
  have sp5: "src_pdata (Some a) ?s5 = Some (Some p)" using pp(1) f4(2) src_pdata_srcs [of ?s5 s "Some a"] by simp
  have "gwprwrq_putback (Some a) (Some x') ?s5 = Some ?s6"
    using sp5 pp(2) d(2) f4(3) by (simp add: gwprwrq_putback_def)
  then have "gwpr_src_activity_write_qitem_result cbs (Some a) (Some x) info errinfo w er False s =
      Some (False, False, info\<lparr>io_buf := Some b\<rparr>, errinfo, ?s6)"
    using pp q(1,2) rep w er x'(1) e0 w4 nx f4(1) yb s5
    by (simp add: gwpr_src_activity_write_qitem_result_def Let_def)
  moreover have "has_pdata ?s6 a p (d\<lparr>wrq := Some x'\<rparr>)"
    using pp(1) f4(2) src_pdata_srcs [of ?s6 s "Some a"] by (simp add: has_pdata_def)
  moreover have "buf_bytes ?R = drop w (buf_bytes B)" using q(4) w(2) by (simp add: buf_bytes_def new_buf_def drop_take)
  moreover have "buf_len ?R \<le> length (buf_data ?R)" using q(4) w(2) by (simp add: new_buf_def)
  ultimately show ?thesis
    using that [where s' = ?s6 and info' = "info\<lparr>io_buf := Some b\<rparr>" and x' = x' and y = y and r = ?r and R = ?R]
      nx g(2) al yb f4 x'(6) by simp
qed

text \<open>
  C14: A source that is connected, that has no write filters and whose user has set no callback for writes, so that the library's own is in
  place. When the system takes only \<open>w\<close> bytes of the first queued buffer, in any number of calls, and then would block, nothing
  is lost: the new head of the queue carries exactly the bytes that were not taken, with the
  operation and peer of the old one, and the other requests follow unchanged, with their buffers. The source
  keeps its flags, so it is still polled for writing.
\<close>
theorem partial_item_keeps_rest:
  assumes "evts s ev = Some e" "evt_src e = Some a" "evt_flags e = GWRL_WR" "file_src s a"
    and "pr_inv s a p d (q_reqs ((x, b, B) # L)) C" "queued s (wrq d) ((x, b, B) # L)" "distinct (b # q_bufs L)"
    and "didwritecb d = Some Fn_io_activity" "connectcb d = None" "no_wrfilters d"
    and "\<forall>i<k. ans_ret (answer_at s i) < 0 \<longrightarrow> ans_errno (answer_at s i) = EINTR" "\<forall>i<k. sofar s i < buf_len B"
    and "0 < sofar s k" "sofar s k < buf_len B" "ans_ret (answer_at s k) < 0" "would_block (ans_errno (answer_at s k))"
  shows "\<exists>s' x' y R. gwpr_src_activity cbs ops (Some ev) s = Some s' \<and>
    has_pdata s' a p (d\<lparr>wrq := Some x'\<rparr>) \<and> queued s' (Some x') ((x', y, R) # L) \<and>
    buf_bytes R = drop (sofar s k) (buf_bytes B) \<and>
    map_option (\<lambda>r. (wrop r, wrq_peer r)) (wrqs s' x') = map_option (\<lambda>r. (wrop r, wrq_peer r)) (wrqs s x) \<and>
    taken_bytes (answer_at s) (rev (take (Suc k) (calls s'))) = take (sofar s k) (buf_bytes B) \<and>
    srcs s' = srcs s"
proof -
  let ?w = "sofar s k" and ?er = "ans_errno (answer_at s k)" and ?d = "d\<lparr>wrq := None\<rparr>"
  let ?s1 = "s\<lparr>pdatas := (pdatas s)(p \<mapsto> ?d)\<rparr>"
  have i: "has_pdata s a p d" "wrq_cache s C" "set (q_reqs ((x, b, B) # L)) \<inter> set C = {}" "pr_fresh s"
    using assms(5) by (simp_all add: pr_inv_def)
  obtain r where r: "wrq d = Some x" "wrqs s x = Some r" "wrq_buf r = Some b" "write_op (wrop r)"
    "wrq_peerlen r \<le> SOCKADDR_STORAGE_SIZE" "bufs s b = Some B" "buf_len B \<le> length (buf_data B)" "queued s (wrq_next r) L"
    using assms(6) by auto
  have pd: "src_pdata (Some a) s = Some (Some p)" "pdatas s p = Some d" using i(1) by (simp_all add: has_pdata_def)
  have p1: "has_pdata ?s1 a p ?d" using pd(1) src_pdata_srcs [of ?s1 s "Some a"] by (simp add: has_pdata_def)
  have f1: "src_file_fd (Some a) ?s1 = Some (src_fd s a)" using file_src_fd [OF assms(4)] src_file_fd_srcs [of ?s1 s a] by simp
  have a1: "answer_at ?s1 = answer_at s" by (simp add: answer_at_def fun_eq_iff)
  have s1: "sofar ?s1 j = sofar s j" for j by (simp add: sofar_got_of a1)
  have er: "?er \<noteq> EINTR" using assms(16) by (auto simp: would_block_def errno_defs)
  obtain t info' errinfo' where t: "gwpr_src_activity_write_qitem cbs (Some a) (Some x) zero_io_info zero_error_info ?s1 =
      Some (sofar ?s1 k, if sofar ?s1 k = buf_len B then 0 else ans_errno (answer_at ?s1 k), info', errinfo', t)" "sys_frame ?s1 t"
    "calls t = sent (src_fd s a) (wrop r) (Some (wrq_peer r)) (buf_bytes B) ?s1 (Suc k) @ calls ?s1"
    "io_buf info' = Some b" "io_src info' = Some a" "io_op info' = wrop r"
    by (rule write_qitem_ok [OF p1 _ f1 _ r(3-5) _ r(7), where k = k and m = "Suc k"])
      (use assms(10-16) r(2,6) er in \<open>simp_all add: no_wrfilters_def s1 a1\<close>)
  note tf = sys_frame_fields [OF t(2)]
  have pt: "has_pdata t a p ?d" using has_pdata_cong [OF tf(1), of p a ?d] p1 tf(6) by simp
  have ct: "wrq_cache t C" by (rule wrq_cache_cong [OF i(2)]) (simp_all add: tf wrq_nx_def)
  have ft: "pr_fresh t"
  proof -
    have "einfos t = einfos s" by (subst t(2) [unfolded sys_frame_def]) simp
    moreover have "p < brk s" using pd(2) i(4) by (auto simp: pr_fresh_def not_le [symmetric])
    ultimately show ?thesis using i(4) by (auto simp: pr_fresh_def tf)
  qed
  have xt: "wrqs t x = Some r" "bufs t b = Some B" "x \<notin> set C" using r(2,6) tf(4,5) i(3) by auto
  obtain s' info'' x' y r' R where q:
    "gwpr_src_activity_write_qitem_result cbs (Some a) (Some x) info' errinfo' ?w ?er False t = Some (False, False, info'', errinfo', s')"
    "x' \<noteq> x" "brk t \<le> y" "brk t \<le> x' \<or> x' \<in> set C" "has_pdata s' a p (?d\<lparr>wrq := Some x'\<rparr>)"
    "wrqs s' x' = Some r'" "wrq_buf r' = Some y" "wrop r' = wrop r" "wrq_next r' = wrq_next r" "wrq_peer r' = wrq_peer r" "wrq_peerlen r' = wrq_peerlen r"
    "bufs s' y = Some R" "buf_bytes R = drop ?w (buf_bytes B)" "buf_len R = buf_len B - ?w" "buf_len R \<le> length (buf_data R)"
    "\<forall>z. z \<noteq> x' \<longrightarrow> wrqs s' z = wrqs t z" "bufs s' b = Some (B\<lparr>buf_len := ?w\<rparr>)" "\<forall>z. z \<noteq> y \<and> z \<noteq> b \<longrightarrow> bufs s' z = bufs t z"
    "srcs s' = srcs t" "evts s' = evts t" "calls s' = calls t"
    by (rule qitem_partial_ok [OF pt _ _ xt(1) r(3) xt(2) r(7) assms(13,14,16) ct ft xt(3)]) (use assms(8) in simp_all)
  have al: "z < brk s" if "z \<in> set (q_reqs L)" for z
  proof -
    have "\<exists>v. wrq_nx s z = Some v" using seg_alloc [OF queued_chain [OF r(8)] that] by simp
    then show ?thesis using i(4) by (auto simp: pr_fresh_def wrq_nx_def not_le [symmetric])
  qed
  have bl: "queued s q0 L \<Longrightarrow> z \<in> set (q_bufs L) \<Longrightarrow> z < brk s" for q0 z
    using i(4) by (induction L arbitrary: q0) (auto simp: pr_fresh_def not_le [symmetric])
  have "queued s' (wrq_next r) L = queued s (wrq_next r) L"
  proof (rule queued_cong)
    fix z assume z: "z \<in> set (q_reqs L)"
    then have "z \<noteq> x'" using al [OF z] q(4) i(3) tf(9) by auto
    then show "wrqs s' z = wrqs s z" using q(16) tf(4) by simp
  next
    fix z assume z: "z \<in> set (q_bufs L)"
    then have "z \<noteq> y" "z \<noteq> b" using bl [OF r(8) z] q(3) assms(7) tf(9) by auto
    then show "bufs s' z = bufs s z" using q(18) tf(5) by simp
  qed
  then have qd: "queued s' (Some x') ((x', y, R) # L)" using r(4,5,8) q(6-12,15) by simp
  have "write_queue_loop cbs (Some a) True (Some x) False zero_io_info zero_error_info ?s1 = Some (False, info'', errinfo', s')"
    using t(1) q(1) r(2) assms(14) by (simp add: write_queue_loop.simps [of cbs "Some a" True "Some x"] s1 a1)
  then have "activity_write cbs ops (Some a) (Some p) zero_io_info zero_error_info s = Some (info'', errinfo', s')"
    using pd assms(8,9) r(1) q(5) by (simp add: activity_write_def activity_connected_def has_pdata_def)
  then have act: "gwpr_src_activity cbs ops (Some ev) s = Some s'"
    by (rule activity_wr [OF assms(1-4) i(1)]) (simp add: q(20) tf(2))
  have "rev (take (Suc k) (calls s')) = rev (sent (src_fd s a) (wrop r) (Some (wrq_peer r)) (buf_bytes B) ?s1 (Suc k))"
    using q(21) t(3) by simp
  moreover have sk: "sofar ?s1 (Suc k) = ?w" using assms(15) by (simp add: s1) (simp add: sofar_def got_def)
  moreover have "?w \<le> length (buf_bytes B)" using assms(14) r(7) by (simp add: buf_bytes_def)
  ultimately have "taken_bytes (answer_at s) (rev (take (Suc k) (calls s'))) = take ?w (buf_bytes B)"
    using taken_sent [OF r(4), of ?s1 "Suc k" "buf_bytes B" "src_fd s a" "Some (wrq_peer r)"] by (simp add: a1)
  with act qd show ?thesis
    using q(5,6,8,10,13,19) r(2) tf(1) by (intro exI [of _ s'] exI [of _ x'] exI [of _ y] exI [of _ R]) simp
qed

subsection \<open>Readable sources\<close>

lemma sys_retry_ok:
  assumes "\<forall>i<k. ans_ret (answer_at s i) < 0 \<and> ans_errno (answer_at s i) = EINTR"
    and "\<not> (ans_ret (answer_at s k) < 0 \<and> ans_errno (answer_at s k) = EINTR)"
  shows "\<exists>t. sys_retry c s = Some (answer_at s k, t) \<and> sys_frame s t \<and> calls t = replicate (Suc k) c @ calls s \<and>
    (ans_ret (answer_at s k) < 0 \<longrightarrow> errno t = ans_errno (answer_at s k))"
  using assms
proof (induction k arbitrary: s)
  case 0
  then show ?case
    by (intro exI [of _ "snd (syscall c s)"])
      (auto simp: sys_retry.simps [of c s] syscall_def Let_def answer_at_def sys_frame_def)
next
  case (Suc k)
  let ?u = "snd (syscall c s)"
  have an: "answer_at ?u i = answer_at s (Suc i)" for i by (simp add: answer_at_def syscall_def Let_def)
  have "sys_retry c s = sys_retry c ?u"
    using Suc.prems(1) by (auto simp: sys_retry.simps [of c s] syscall_def Let_def answer_at_def)
  moreover obtain t where "sys_retry c ?u = Some (answer_at ?u k, t)" "sys_frame ?u t" "calls t = replicate (Suc k) c @ calls ?u"
    "ans_ret (answer_at ?u k) < 0 \<longrightarrow> errno t = ans_errno (answer_at ?u k)"
    using Suc.IH [of ?u] Suc.prems by (auto simp: an)
  moreover have "calls ?u = c # calls s" by (simp add: syscall_def Let_def)
  ultimately show ?case
    using sys_frame_trans [OF sys_frame_syscall] by (auto simp: an replicate_append_same)
qed

definition no_rdfilters :: "gwprdata \<Rightarrow> bool" where
  "no_rdfilters d \<longleftrightarrow> (case rdfilters d of None \<Rightarrow> True | Some fs \<Rightarrow> fs \<noteq> [] \<and> hd fs = None)"

lemma filter_call_none:
  assumes "src_pdata src s = Some p" "get_pdata p s = Some d" "no_rdfilters d"
  shows "gwpr_filter_call cbs src info gwpr_rdfilter_id s = Some s"
  using assms by (auto simp: gwpr_filter_call_def no_rdfilters_def nth_opt_def hd_conv_nth split: option.splits)

definition the_read :: "int \<Rightarrow> gwprdata \<Rightarrow> syscall" where
  "the_read fd d = the (read_call fd (rdop d) (rdbufsize d))"

lemma activity_read_call_ok:
  assumes "has_pdata s a p d" "read_name (rdop d) = Some f" "file_src s a"
    and "\<forall>i<k. ans_ret (answer_at s i) < 0 \<and> ans_errno (answer_at s i) = EINTR"
    and "\<not> (ans_ret (answer_at s k) < 0 \<and> ans_errno (answer_at s k) = EINTR)"
    and "ans_ret (answer_at s k) \<le> int (rdbufsize d)" "rdbufsize d < 2 ^ 64"
    and "0 < ans_ret (answer_at s k) \<longrightarrow> int (length (ans_data (answer_at s k))) = ans_ret (answer_at s k)"
  obtains t info' x R where
    "gwpr_src_activity_read (Some a) info errinfo s = Some (ans_ret (answer_at s k), info',
       if ans_ret (answer_at s k) < 0 then errinfo\<lparr>err_fnc := f\<rparr> else errinfo, t)"
    "io_buf info' = Some x" "io_src info' = Some a" "io_op info' = rdop d" "bufs t x = Some R"
    "0 < ans_ret (answer_at s k) \<longrightarrow> buf_bytes R = ans_data (answer_at s k)"
    "calls t = replicate (Suc k) (the_read (src_fd s a) d) @ calls s" "ans_ret (answer_at s k) < 0 \<longrightarrow> errno t = ans_errno (answer_at s k)"
    "srcs t = srcs s" "pdatas t = pdatas s" "evts t = evts s"
    "t = s\<lparr>brk := brk t, oom := oom t, errs := errs t, calls := calls t, errno := errno t, bufs := (bufs s)(x \<mapsto> R)\<rparr>"
    "brk s \<le> x" "x < brk t" "length (buf_data R) = rdbufsize d" "0 < ans_ret (answer_at s k) \<longrightarrow> int (buf_len R) = ans_ret (answer_at s k)"
proof -
  let ?a = "answer_at s k" and ?r = "ans_ret (answer_at s k)"
  have pd: "src_pdata (Some a) s = Some (Some p)" "pdatas s p = Some d" using assms(1) by (simp_all add: has_pdata_def)
  obtain x om em where g: "create_retry (gwpr_buf_get (rdbufsize d)) s = Some (Some x,
      s\<lparr>brk := Suc (Suc x), oom := om, errs := em, bufs := (bufs s)(x \<mapsto> new_buf (rdbufsize d))\<rparr>)" "brk s \<le> x"
    by (rule buf_get_retry_ok)
  let ?s1 = "s\<lparr>brk := Suc (Suc x), oom := om, errs := em, bufs := (bufs s)(x \<mapsto> new_buf (rdbufsize d))\<rparr>"
  have a1: "answer_at ?s1 = answer_at s" by (simp add: answer_at_def fun_eq_iff)
  have fd: "src_file_fd (Some a) ?s1 = Some (src_fd s a)" using file_src_fd [OF assms(3)] src_file_fd_srcs [of ?s1 s a] by simp
  obtain c where c: "read_call (src_fd s a) (rdop d) (rdbufsize d) = Some c"
    using assms(2) by (cases "rdop d") (simp_all add: read_name_def read_call_def)
  obtain u where u: "sys_retry c ?s1 = Some (?a, u)" "sys_frame ?s1 u" "calls u = replicate (Suc k) c @ calls s"
    "?r < 0 \<longrightarrow> errno u = ans_errno ?a"
    using sys_retry_ok [of k ?s1 c] assms(4,5) a1 by auto
  note uf = sys_frame_fields [OF u(2)]
  have bu: "bufs u x = Some (new_buf (rdbufsize d))" using uf(5) by simp
  let ?info = "info\<lparr>io_src := Some a, io_buf := Some x, io_op := rdop d\<rparr>"
  let ?info' = "if rdop d \<noteq> gwpr_recvfrom_op_id then ?info
     else if ?r < 0 then ?info\<lparr>io_peerlen := SOCKADDR_STORAGE_SIZE\<rparr> else receive_peer SOCKADDR_STORAGE_SIZE ?a ?info"
  let ?R = "(if 0 < ?r then receive_data ?a (new_buf (rdbufsize d)) else new_buf (rdbufsize d))\<lparr>buf_len := nat (?r mod 2 ^ 64)\<rparr>"
  let ?t = "u\<lparr>bufs := (bufs u)(x \<mapsto> ?R)\<rparr>"
  have "gwpr_src_activity_read (Some a) info errinfo s = Some (?r, ?info', if ?r < 0 then errinfo\<lparr>err_fnc := f\<rparr> else errinfo, ?t)"
    using pd g(1) fd c u(1) bu assms(2)
    by (cases "0 < ?r") (simp_all add: gwpr_src_activity_read_def Let_def new_buf_def set_fnc_def)
  moreover have "0 < ?r \<longrightarrow> buf_bytes ?R = ans_data ?a"
  proof
    assume r: "0 < ?r"
    then have "?r mod 2 ^ 64 = ?r" using assms(6,7) by (intro mod_pos_pos_trivial) simp_all
    moreover have "nat ?r = length (ans_data ?a)" "length (ans_data ?a) \<le> rdbufsize d" using r assms(6,8) by linarith+
    ultimately show "buf_bytes ?R = ans_data ?a"
      using r by (simp add: buf_bytes_def receive_data_def new_buf_def Let_def)
  qed
  moreover have "io_buf ?info' = Some x" "io_src ?info' = Some a" "io_op ?info' = rdop d" by (simp_all add: receive_peer_def)
  moreover have "?t = s\<lparr>brk := brk ?t, oom := oom ?t, errs := errs ?t, calls := calls ?t, errno := errno ?t, bufs := (bufs s)(x \<mapsto> ?R)\<rparr>"
    using uf(5) by (subst (1) u(2) [unfolded sys_frame_def]) (simp add: uf)
  moreover have "x < brk ?t" using uf(9) by simp
  moreover have "length (buf_data ?R) = rdbufsize d" by (simp add: receive_data_def new_buf_def Let_def)
  moreover have "0 < ?r \<longrightarrow> int (buf_len ?R) = ?r" using assms(6,7) by (auto intro!: mod_pos_pos_trivial)
  ultimately show ?thesis
    using that [where t = ?t and info' = ?info' and x = x and R = ?R] u(3,4) uf(1,2,6) c g(2) by (simp add: the_read_def)
qed

text \<open>
  C12: What the proactor does with a readable source that has no read filters, on every result of the read: interrupted calls are
  repeated; on data the user's read callback gets a buffer with exactly the bytes received; at the
  end of the stream and on a reset the closed callback is called, if there is one; when nothing is there
  to read after all nothing happens; every other error goes to the error callback with its number
  and the name of the call; and an error or an end nobody asked for is only logged.
\<close>
theorem read_outcomes:
  assumes "has_pdata s a p d" "read_name (rdop d) = Some f" "file_src s a" "didreadcb d = Some g" "no_rdfilters d"
    and "\<forall>i<k. ans_ret (answer_at s i) < 0 \<and> ans_errno (answer_at s i) = EINTR"
    and "r = ans_ret (answer_at s k)" "er = ans_errno (answer_at s k)" "\<not> (r < 0 \<and> er = EINTR)"
    and "r \<le> int (rdbufsize d)" "rdbufsize d < 2 ^ 64"
    and "0 < r \<longrightarrow> int (length (ans_data (answer_at s k))) = r"
  shows "\<exists>t info x R. io_buf info = Some x \<and> io_src info = Some a \<and> bufs t x = Some R \<and>
    calls t = replicate (Suc k) (the_read (src_fd s a) d) @ calls s \<and> srcs t = srcs s \<and>
    map_option (\<lambda>(_, _, s). s) (activity_read cbs (Some a) (Some p) zero_io_info zero_error_info s) =
      (if r > 0 then call_io cbs (Some g) info t
       else if (r = 0 \<or> er = ECONNRESET \<or> er = EPIPE) \<and> closedcb d \<noteq> None then call_io cbs (closedcb d) info t
       else if r < 0 \<and> would_block er then Some t
       else if r < 0 \<and> errorcb d \<noteq> None then call_error cbs (errorcb d)
         (zero_error_info\<lparr>err_fnc := f, err_errnm := er, err_src := Some a, err_op := rdop d\<rparr>) t
       else Some (gwerr ''OKL4F'' t)) \<and>
    (r > 0 \<longrightarrow> buf_bytes R = ans_data (answer_at s k))"
proof -
  obtain t info x R where t:
    "gwpr_src_activity_read (Some a) zero_io_info zero_error_info s = Some (ans_ret (answer_at s k), info,
       if ans_ret (answer_at s k) < 0 then zero_error_info\<lparr>err_fnc := f\<rparr> else zero_error_info, t)"
    "io_buf info = Some x" "io_src info = Some a" "io_op info = rdop d" "bufs t x = Some R"
    "0 < ans_ret (answer_at s k) \<longrightarrow> buf_bytes R = ans_data (answer_at s k)"
    "calls t = replicate (Suc k) (the_read (src_fd s a) d) @ calls s" "ans_ret (answer_at s k) < 0 \<longrightarrow> errno t = ans_errno (answer_at s k)"
    "srcs t = srcs s" "pdatas t = pdatas s" "evts t = evts s"
    by (rule activity_read_call_ok [OF assms(1-3,6), where info = zero_io_info and errinfo = zero_error_info])
      (use assms(7-12) in simp_all)
  have pd: "pdatas s p = Some d" "src_pdata (Some a) t = Some (Some p)" "pdatas t p = Some d"
    using assms(1) src_pdata_srcs [OF t(9), of "Some a"] t(10) by (simp_all add: has_pdata_def)
  have fc: "gwpr_filter_call cbs (Some a) info gwpr_rdfilter_id t = Some t"
    by (rule filter_call_none [OF pd(2) _ assms(5)]) (simp add: pd(3))
  let ?err = "zero_error_info\<lparr>err_fnc := f\<rparr>"
  have sel: "map_option (\<lambda>(_, _, s). s) (do { s \<leftarrow> X; Some (info :: gwpr_io_info, e :: gwpr_error_info, s) }) = X" for X e
    by (cases X) simp_all
  have eq: "activity_read cbs (Some a) (Some p) zero_io_info zero_error_info s = do {
      (e, s) \<leftarrow> gwpr_src_activity_read_result cbs r (Some a) info (if r < 0 then ?err else zero_error_info) t;
      Some (info, e, s) }"
    using pd(1) assms(4,7) t(1) by (simp add: activity_read_def)
  have "map_option (\<lambda>(_, _, s). s) (activity_read cbs (Some a) (Some p) zero_io_info zero_error_info s) =
      (if r > 0 then call_io cbs (Some g) info t
       else if (r = 0 \<or> er = ECONNRESET \<or> er = EPIPE) \<and> closedcb d \<noteq> None then call_io cbs (closedcb d) info t
       else if r < 0 \<and> would_block er then Some t
       else if r < 0 \<and> errorcb d \<noteq> None then call_error cbs (errorcb d)
         (zero_error_info\<lparr>err_fnc := f, err_errnm := er, err_src := Some a, err_op := rdop d\<rparr>) t
       else Some (gwerr ''OKL4F'' t))"
  proof -
    have e: "errno t = er" if "r < 0" using that t(8) assms(7,8) by simp
    consider "r > 0" | "r = 0" | "r < 0" by linarith
    then show ?thesis
    proof cases
      case 1
      then show ?thesis using pd fc assms(4) by (simp add: eq gwpr_src_activity_read_result_def sel)
    next
      case 2
      then show ?thesis using pd by (simp add: eq gwpr_src_activity_read_result_def sel)
    next
      case 3
      then show ?thesis using pd e t(4) by (simp add: eq gwpr_src_activity_read_result_def sel Let_def)
    qed
  qed
  then show ?thesis using t(2,3,5-7,9) assms(7) by blast
qed

text \<open>
  The event that reports a synchronous write (as \<open>write_delivers_all\<close> posts it): when no callback
  of the user is set, the buffer that was written is freed and its request goes back to the cache or
  is freed; nothing else of the proactor's memory changes. So a complete write of such a source leaks nothing.
\<close>
theorem sync_report_releases:
  assumes "evts s ev = Some e" "evt_src e = Some a" "evt_flags e = GWRL_SYNC_WRITE" "evt_userdata e = Some q" "file_src s a"
    and "has_pdata s a p d" "didwritecb d = Some Fn_io_activity" "wrqs s q = Some r" "wrq_buf r = Some b" "bufs s b = Some B"
    and "wrq_cache s C" "q \<notin> set C"
  shows "\<exists>s'. gwpr_src_activity cbs ops (Some ev) s = Some s' \<and> bufs s' = (bufs s)(b := None) \<and>
    (\<forall>x. x \<noteq> q \<longrightarrow> wrqs s' x = wrqs s x) \<and> pdatas s' = pdatas s \<and> srcs s' = srcs s \<and>
    (if int (length C) = gwpr_wrqueue_cache_max (pr_options (pr_obj s)) then wrqs s' q = None \<and> wrq_cache s' C
     else wrq_cache s' (q # C))"
proof -
  have pd: "src_pdata (Some a) s = Some (Some p)" "pdatas s p = Some d" using assms(6) by (simp_all add: has_pdata_def)
  let ?u = "s\<lparr>bufs := (bufs s)(b := None)\<rparr>"
  have cu: "wrq_cache ?u C" by (rule wrq_cache_cong [OF assms(11)]) (simp_all add: wrq_nx_def)
  have qu: "wrqs ?u q = Some r" using assms(8) by simp
  obtain v where v: "gwprwrq_free (Some q) ?u = Some v"
    "if int (length C) = gwpr_wrqueue_cache_max (pr_options (pr_obj ?u))
     then wrqs v = (wrqs ?u)(q := None) \<and> wrq_cache v C
     else wrqs v = (wrqs ?u)(q \<mapsto> r\<lparr>wrq_next := wrqcache (pr_obj ?u), wrq_buf := None\<rparr>) \<and> wrq_cache v (q # C)"
    "v = ?u\<lparr>wrqs := wrqs v, pr_obj := pr_obj v\<rparr>"
    using wrq_free_ok [OF cu qu assms(12)] by (elim exE conjE) (rule that)
  have ve: "bufs v = (bufs s)(b := None)" "pdatas v = pdatas s" "srcs v = srcs s" "evts v = evts s"
    by (subst v(3), simp)+
  obtain info where "activity_sync_write cbs (Some a) (Some p) (Some q) zero_io_info s = Some (info, v)"
    using pd assms(7-10) v(1)
    by (cases "wrop r = gwpr_write_op_id") (simp_all add: activity_sync_write_def call_io_def gwpr_buf_free_def Let_def)
  moreover obtain o1 where "srcs s a = Some o1" "src_type o1 = GWRL_SRC_TYPE_FILE" using assms(5) by (auto simp: file_src_iff src_type_defs)
  moreover have "\<not> flisset GWRL_SYNC_WRITE GWRL_RD" "\<not> flisset GWRL_SYNC_WRITE GWRL_WR" "flisset GWRL_SYNC_WRITE GWRL_SYNC_WRITE"
    "\<not> flisset GWRL_SYNC_WRITE GWRL_SYNC_CLOSE" "\<not> flisset GWRL_SYNC_WRITE GWRL_SYNC_ERROR"
    by (simp_all add: flag_simps)
  ultimately have "gwpr_src_activity cbs ops (Some ev) s = Some v"
    using assms(1-4) pd(1) ve(4) by (simp add: gwpr_src_activity_def)
  with v(2) ve show ?thesis by (intro exI [of _ v]) (auto split: if_splits)
qed

subsection \<open>Instances\<close>

text \<open>
  Source 7 with the queue of the requests 31 and 32 (buffers 41 and 42) and the event 45, or with the report 46.
\<close>

definition active_world :: "flags8 \<Rightarrow> gwprdata \<Rightarrow> (nat \<Rightarrow> answer) \<Rightarrow> gwrlbkd_select pworld" where
  "active_world fl d A = (idle_world A)\<lparr>pdatas := [21 \<mapsto> d],
     evts := [45 \<mapsto> zero_evt\<lparr>evt_flags := fl, evt_src := Some 7, evt_userdata := Some 31\<rparr>]\<rparr>"

definition queue_pdata :: gwprdata where
  "queue_pdata = zero_pdata\<lparr>wrq := Some 31, wrqlast := Some 32, didwritecb := Some Fn_io_activity\<rparr>"

definition buf_42 :: gwprbuf where
  "buf_42 = \<lparr>buf_tag = 0, buf_len = 2, bufsize = 4, buf_data = [4, 5, 0, 0]\<rparr>"

lemma active_fields:
  "evts (active_world fl d A) 45 = Some (zero_evt\<lparr>evt_flags := fl, evt_src := Some 7, evt_userdata := Some 31\<rparr>)"
  "file_src (active_world fl d A) 7" "src_fd (active_world fl d A) 7 = 7" "answer_at (active_world fl d A) = A"
  "has_pdata (active_world fl d A) 7 21 d" "wrqs (active_world fl d A) 31 \<noteq> None"
  "bufs (active_world fl d A) 41 = Some idle_buf" "wrq_cache (active_world fl d A) [35]"
  "calls (active_world fl d A) = []" "src_fl (active_world fl d A) 7 = GWRL_RD"
proof -
  let ?s = "active_world fl d A"
  have eq: "srcs ?s = srcs (idle_world A)" by (simp add: active_world_def)
  show "file_src ?s 7" "src_fd ?s 7 = 7" "src_fl ?s 7 = GWRL_RD" using srcs_same [OF eq, of 7] idle_world_fields(4-6) [of A] by simp_all
  show "has_pdata ?s 7 21 d"
    using idle_world_inv [of A] src_pdata_srcs [OF eq, of "Some 7"] by (simp add: pr_inv_def has_pdata_def active_world_def)
  show "wrq_cache ?s [35]"
    by (rule wrq_cache_cong [of "idle_world A"]) (use idle_world_inv [of A] in \<open>simp_all add: pr_inv_def wrq_nx_def active_world_def\<close>)
  show "answer_at ?s = A" using idle_world_fields(2,3) [of A] by (simp add: active_world_def answer_at_def fun_eq_iff)
qed (simp_all add: active_world_def idle_defs idle_buf_def)

lemma active_queue:
  assumes "wrq d = Some 31" "wrqlast d = Some 32"
  shows "queued (active_world fl d A) (wrq d) [(31, 41, idle_buf), (32, 42, buf_42)]"
    "pr_inv (active_world fl d A) 7 21 d (q_reqs [(31, 41, idle_buf), (32, 42, buf_42)]) [35]"
proof -
  let ?s = "active_world fl d A"
  show q: "queued ?s (wrq d) [(31, 41, idle_buf), (32, 42, buf_42)]"
    using assms by (simp add: active_world_def idle_defs idle_buf_def buf_42_def zero_wrq_def write_op_def)
  have "pr_fresh ?s" using idle_world_inv [of A] by (auto simp: pr_inv_def pr_fresh_def active_world_def idle_defs)
  then show "pr_inv ?s 7 21 d (q_reqs [(31, 41, idle_buf), (32, 42, buf_42)]) [35]"
    using assms queued_chain [OF q] active_fields(5,8) by (simp add: pr_inv_def wrq_queue_def)
qed


theorem freed_buffer_read_again_witness:
  "\<forall>ops. gwpr_src_activity \<lparr>cb_io = \<lambda>g info s. gwpr_buf_free (io_buf info) s, cb_error = \<lambda>g info s. Some s\<rparr> ops (Some 45)
    (active_world GWRL_WR (queue_pdata\<lparr>didwritecb := Some (Fn_user 1)\<rparr>) (\<lambda>_. ok_answer 3)) = None"
proof (intro allI)
  fix ops :: "gwrlbkd_select pworld src_ops"
  let ?d = "queue_pdata\<lparr>didwritecb := Some (Fn_user 1)\<rparr>" and ?A = "\<lambda>_::nat. ok_answer 3"
  have q: "wrq ?d = Some 31" "wrqlast ?d = Some 32" "didwritecb ?d = Some (Fn_user 1)" "Fn_user 1 \<noteq> Fn_io_activity"
    "connectcb ?d = None" "no_wrfilters ?d"
    by (simp_all add: queue_pdata_def zero_pdata_def no_wrfilters_def)
  have t: "all_taken (answer_at (active_world GWRL_WR ?d ?A)) [buf_len idle_buf] [1]"
    by (simp add: active_fields(4) idle_buf_def ok_answer_def got_of_def)
  show "gwpr_src_activity \<lparr>cb_io = \<lambda>g info s. gwpr_buf_free (io_buf info) s, cb_error = \<lambda>g info s. Some s\<rparr> ops (Some 45)
      (active_world GWRL_WR ?d ?A) = None"
    by (rule freed_buffer_read_again [OF active_fields(1) _ _ active_fields(2,5) active_queue(1) [OF q(1,2)] q(3,4) _ q(5,6) _ t])
      (simp_all add: idle_buf_def)
qed

theorem partial_item_keeps_rest_witness:
  "\<forall>cbs ops. \<exists>s' x' y R. gwpr_src_activity cbs ops (Some 45)
      (active_world GWRL_WR queue_pdata (\<lambda>n. if n = 0 then ok_answer 2 else fail_answer EWOULDBLOCK)) = Some s' \<and>
    queued s' (Some x') [(x', y, R), (32, 42, buf_42)] \<and> buf_bytes R = [3]"
proof (intro allI)
  fix cbs and ops :: "gwrlbkd_select pworld src_ops"
  let ?A = "\<lambda>n::nat. if n = 0 then ok_answer 2 else fail_answer EWOULDBLOCK"
  let ?s = "active_world GWRL_WR queue_pdata ?A"
  have q: "wrq queue_pdata = Some 31" "wrqlast queue_pdata = Some 32" "didwritecb queue_pdata = Some Fn_io_activity"
    "connectcb queue_pdata = None" "no_wrfilters queue_pdata"
    by (simp_all add: queue_pdata_def zero_pdata_def no_wrfilters_def)
  have k: "\<forall>i<1. ans_ret (answer_at ?s i) < 0 \<longrightarrow> ans_errno (answer_at ?s i) = EINTR" "\<forall>i<1. sofar ?s i < buf_len idle_buf"
    "0 < sofar ?s 1" "sofar ?s 1 < buf_len idle_buf" "ans_ret (answer_at ?s 1) < 0" "would_block (ans_errno (answer_at ?s 1))" "sofar ?s 1 = 2"
    by (simp_all add: active_fields(4) sofar_got_of got_of_def ok_answer_def fail_answer_def idle_buf_def would_block_def)
  show "\<exists>s' x' y R. gwpr_src_activity cbs ops (Some 45) ?s = Some s' \<and>
      queued s' (Some x') [(x', y, R), (32, 42, buf_42)] \<and> buf_bytes R = [3]"
    using partial_item_keeps_rest [OF active_fields(1) _ _ active_fields(2) active_queue(2) [OF q(1,2)] active_queue(1) [OF q(1,2)] _ q(3-5) k(1-6), of cbs ops] k(7)
    by (simp add: buf_bytes_def idle_buf_def) blast
qed

theorem read_outcomes_witness:
  "\<forall>cbs. \<exists>t info x R. io_buf info = Some x \<and> bufs t x = Some R \<and> buf_bytes R = [7, 8] \<and>
    map_option (\<lambda>(_, _, s). s) (activity_read cbs (Some 7) (Some 21) zero_io_info zero_error_info
      (active_world GWRL_RD (idle_pdata\<lparr>rdbufsize := 512\<rparr>) (\<lambda>n. if n = 0 then fail_answer EINTR else (ok_answer 2)\<lparr>ans_data := [7, 8]\<rparr>))) =
    call_io cbs (Some (Fn_user 1)) info t"
proof (intro allI)
  fix cbs
  let ?A = "\<lambda>n::nat. if n = 0 then fail_answer EINTR else (ok_answer 2)\<lparr>ans_data := [7, 8]\<rparr>"
  let ?d = "idle_pdata\<lparr>rdbufsize := 512\<rparr>"
  show "\<exists>t info x R. io_buf info = Some x \<and> bufs t x = Some R \<and> buf_bytes R = [7, 8] \<and>
      map_option (\<lambda>(_, _, s). s) (activity_read cbs (Some 7) (Some 21) zero_io_info zero_error_info (active_world GWRL_RD ?d ?A)) =
      call_io cbs (Some (Fn_user 1)) info t"
    using read_outcomes [OF active_fields(5) [of GWRL_RD ?d ?A] _ active_fields(2), of "''read''" "Fn_user 1" 1 2 0 cbs]
    by (auto simp: active_fields(4) idle_pdata_def zero_pdata_def read_name_def no_rdfilters_def ok_answer_def fail_answer_def)
qed

theorem sync_report_releases_witness:
  "\<forall>cbs ops A. \<exists>s'. gwpr_src_activity cbs ops (Some 45) (active_world GWRL_SYNC_WRITE queue_pdata A) = Some s' \<and>
    bufs s' 41 = None \<and> wrq_cache s' [31, 35]"
proof (intro allI)
  fix cbs A and ops :: "gwrlbkd_select pworld src_ops"
  have q: "didwritecb queue_pdata = Some Fn_io_activity" by (simp add: queue_pdata_def)
  have r: "wrqs (active_world GWRL_SYNC_WRITE queue_pdata A) 31 = Some (zero_wrq\<lparr>wrq_next := Some 32, wrq_buf := Some 41, wrop := gwpr_write_op_id\<rparr>)"
    "gwpr_wrqueue_cache_max (pr_options (pr_obj (active_world GWRL_SYNC_WRITE queue_pdata A))) = 256"
    by (simp_all add: active_world_def idle_defs GWPR_DEFAULT_OPTIONS_def)
  show "\<exists>s'. gwpr_src_activity cbs ops (Some 45) (active_world GWRL_SYNC_WRITE queue_pdata A) = Some s' \<and>
      bufs s' 41 = None \<and> wrq_cache s' [31, 35]"
    using sync_report_releases [OF active_fields(1) _ _ _ active_fields(2,5) q r(1) _ active_fields(7,8), of cbs ops] r(2) by auto
qed

end
