(* ===== verification/Gw_Epoll.thy ===== *)
theory Gw_Epoll
  imports Gw_Select "HOL-Library.Multiset"
begin

section \<open>The epoll backend (\<^verbatim>\<open>src/gwrl/event_epoll.c\<close>)\<close>

text \<open>
  The kernel keeps the interest of the registered file sources: adding, enabling, changing
  and removing a source is one \<^verbatim>\<open>epoll_ctl\<close> each, and gathering posts an event for each
  source that \<^verbatim>\<open>epoll_wait\<close> hands back. The names of the functions that every backend defines
  carry the suffix \<open>_epoll\<close>. The interest the kernel holds is read off the recorded calls
  (\<open>interest\<close>); \<open>epoll_tracks\<close> says that it is that of a set of sources, and with it the
  backend is an interpretation of \<open>reactor_backend\<close>. The last part compares the backend with
  the select backend.
\<close>

definition EPOLLIN :: flags32 where "EPOLLIN = 2 ^ 0"
definition EPOLLOUT :: flags32 where "EPOLLOUT = 2 ^ 2"
definition EPOLLRDHUP :: flags32 where "EPOLLRDHUP = 2 ^ 13"

definition ENOENT :: int where "ENOENT = 2"
definition EFAULT :: int where "EFAULT = 14"
definition EEXIST :: int where "EEXIST = 17"

definition GWRL_EPOLL_EVENT_COUNT :: nat where "GWRL_EPOLL_EVENT_COUNT = 64"

text \<open>\<open>pevents\<close> is the number of entries of the event array, or null.\<close>

record gwrlbkd_epoll =
  efd :: int
  maxnpevents :: "16 word"
  pevents :: "nat option"

type_synonym 'z eworld = "(gwrlbkd_epoll, 'z) world_scheme"

subsection \<open>Creation and options\<close>

definition gwrl_bkd_init_epoll :: "'z eworld \<Rightarrow> gwrlbkd_epoll option \<times> 'z eworld" where
  "gwrl_bkd_init_epoll s =
     (case calloc s of
        (None, s) \<Rightarrow> (None, gwerr ''el5KJz'' s)
      | (Some _, s) \<Rightarrow>
          (case syscall Sys_epoll_create s of (a, s) \<Rightarrow>
             if ans_ret a < 0 then (None, gwerr ''po7kDs'' s)
             else (case calloc s of (p, s) \<Rightarrow>
               (Some \<lparr>efd = ans_ret a, maxnpevents = of_nat GWRL_EPOLL_EVENT_COUNT,
                  pevents = map_option (\<lambda>_. GWRL_EPOLL_EVENT_COUNT) p\<rparr>,
                s\<lparr>rl := (rl s)\<lparr>options := (options (rl s))
                  \<lparr>gwrl_epoll_event_count := int GWRL_EPOLL_EVENT_COUNT\<rparr>\<rparr>\<rparr>))))"

text \<open>
  In the GNU library \<^verbatim>\<open>realloc\<close> to zero bytes frees the array and returns null; the loop then passes the
  freed pointer again: no result.
\<close>

definition gwrl_bkd_set_options_epoll :: "gwrl_options \<Rightarrow> 'z eworld \<Rightarrow> 'z eworld option" where
  "gwrl_bkd_set_options_epoll opts s =
     (let b = backend (rl s);
          b = (if gwrl_epoll_event_count opts > uint (maxnpevents b)
               then b\<lparr>maxnpevents := word_of_int (gwrl_epoll_event_count opts)\<rparr> else b);
          s = s\<lparr>rl := (rl s)\<lparr>backend := b\<rparr>\<rparr>
      in if maxnpevents b = 0 then None
         else do {
           (_, s) \<leftarrow> calloc_msg ''3RPcV'' s;
           Some (s\<lparr>rl := (rl s)\<lparr>backend := (backend (rl s))\<lparr>pevents := Some (unat (maxnpevents b))\<rparr>\<rparr>\<rparr>) })"

subsection \<open>Operations on sources\<close>

definition epoll_events :: "flags8 \<Rightarrow> flags32" where
  "epoll_events fl =
     (let ev = (if flisset fl GWRL_RD then (0 OR EPOLLIN) OR EPOLLRDHUP else 0)
      in if flisset fl GWRL_WR then ev OR EPOLLOUT else ev)"

definition gwrl_bkd_epoll_ctl :: "ptr \<Rightarrow> epoll_op \<Rightarrow> 'z eworld \<Rightarrow> 'z eworld option" where
  "gwrl_bkd_epoll_ctl fsrc eflag s = do {
     o1 \<leftarrow> get_src fsrc s;
     f \<leftarrow> as_file o1;
     let (a, s) = syscall (Sys_epoll_ctl (efd (backend (rl s))) eflag (file_fd f)
                    (epoll_events (src_flags o1)) fsrc) s;
     Some (if ans_ret a < 0 \<and> errno s \<noteq> EEXIST \<and> errno s \<noteq> ENOENT then gwerr ''dlB8d'' s else s) }"

definition gwrl_src_file_update_flags_epoll :: "ptr \<Rightarrow> flags8 \<Rightarrow> 'z eworld \<Rightarrow> 'z eworld option" where
  "gwrl_src_file_update_flags_epoll src flags s = do {
     s \<leftarrow> upd_src (\<lambda>o1. o1\<lparr>src_flags := flags\<rparr>) src s;
     gwrl_bkd_epoll_ctl src EPOLL_CTL_MOD s }"

definition gwrl_bkd_src_add_epoll :: "ptr \<Rightarrow> 'z eworld \<Rightarrow> 'z eworld option" where
  "gwrl_bkd_src_add_epoll src s = gwrl_bkd_epoll_ctl src EPOLL_CTL_ADD s"

definition gwrl_bkd_del_src_epoll :: "ptr \<Rightarrow> 'z eworld \<Rightarrow> 'z eworld option" where
  "gwrl_bkd_del_src_epoll src s = gwrl_bkd_epoll_ctl src EPOLL_CTL_DEL s"

definition gwrl_bkd_enable_src_epoll :: "ptr \<Rightarrow> 'z eworld \<Rightarrow> 'z eworld option" where
  "gwrl_bkd_enable_src_epoll src s = gwrl_bkd_epoll_ctl src EPOLL_CTL_ADD s"

definition gwrl_bkd_disable_src_epoll :: "ptr \<Rightarrow> 'z eworld \<Rightarrow> 'z eworld option" where
  "gwrl_bkd_disable_src_epoll src s = gwrl_bkd_epoll_ctl src EPOLL_CTL_DEL s"

definition epoll_ops :: "'z eworld src_ops" where
  "epoll_ops = \<lparr>op_src_add = gwrl_bkd_src_add_epoll, op_del_src = gwrl_bkd_del_src_epoll,
     op_enable_src = gwrl_bkd_enable_src_epoll, op_disable_src = gwrl_bkd_disable_src_epoll,
     op_update_flags = gwrl_src_file_update_flags_epoll\<rparr>"

subsection \<open>Gathering\<close>

text \<open>The timeout in milliseconds, a \<^verbatim>\<open>long\<close>, which the call converts to \<^verbatim>\<open>int\<close>.\<close>

definition epoll_timeout :: "'z eworld \<Rightarrow> int option" where
  "epoll_timeout s = do {
     ms \<leftarrow> (if timeout (rl s) = no_time then Some (-1) else gwtm_timespec_to_ms (timeout (rl s)));
     Some (if ms < 0 \<and> flisset (rl_flags (rl s)) GWRL_NOSLEEP then 0 else ms) }"

definition epoll_new_flags :: "gwrlsrc \<Rightarrow> flags32 \<Rightarrow> flags8" where
  "epoll_new_flags o1 ev =
     (if src_type o1 = GWRL_SRC_TYPE_FILE then
        (let fl = (if src_flags o1 AND GWRL_RD \<noteq> 0 \<and> ev AND EPOLLIN \<noteq> 0 then 0 OR GWRL_RD else 0)
         in if src_flags o1 AND GWRL_WR \<noteq> 0 \<and> ev AND EPOLLOUT \<noteq> 0 then fl OR GWRL_WR else fl)
      else 0)"

text \<open>The loop over the first \<open>n\<close> entries of the array, which \<^verbatim>\<open>epoll_wait\<close> has filled.\<close>

fun epoll_post_loop :: "nat \<Rightarrow> (flags32 \<times> ptr) list \<Rightarrow> 'z eworld \<Rightarrow> 'z eworld option" where
  "epoll_post_loop 0 es s = Some s"
| "epoll_post_loop (Suc n) [] s = None"
| "epoll_post_loop (Suc n) ((ev, src) # es) s = do {
     o1 \<leftarrow> get_src src s;
     s \<leftarrow> (if 0 < epoll_new_flags o1 ev then do {
            f \<leftarrow> as_file o1;
            (evt, s) \<leftarrow> gwrl_evt_createp src (src_callback o1) (src_userdata o1) (file_fd f)
              (epoll_new_flags o1 ev) s;
            gwrl_post_evt evt s }
          else Some s);
     epoll_post_loop n es s }"

text \<open>
  \<^verbatim>\<open>errno == EFAULT || errno == EBADF || EINVAL\<close>: the last operand is the constant, not a
  comparison.
\<close>

definition gwrl_bkd_gather_epoll :: "'z eworld \<Rightarrow> 'z eworld option" where
  "gwrl_bkd_gather_epoll s = do {
     ms \<leftarrow> epoll_timeout s;
     let s = s\<lparr>rl := (rl s)\<lparr>rl_flags := flset (rl_flags (rl s)) GWRL_SLEEPING\<rparr>\<rparr>;
     let (a, s) = syscall (Sys_epoll_wait (efd (backend (rl s))) (unat (maxnpevents (backend (rl s))))
                    (sint (word_of_int ms :: 32 word))) s;
     let res = ans_ret a;
     let s = s\<lparr>rl := (rl s)\<lparr>rl_flags := flclr (rl_flags (rl s)) GWRL_SLEEPING\<rparr>\<rparr>;
     if res = 0 then Some s
     else if res < 0 \<and> (errno s = EFAULT \<or> errno s = EBADF \<or> EINVAL \<noteq> 0) then Some (gwerr ''3Xf9G'' s)
     else if res > 0 then do {
       n \<leftarrow> pevents (backend (rl s));
       if nat res \<le> n then epoll_post_loop (nat res) (ans_epoll a) s else None }
     else Some s }"

subsection \<open>The interest the kernel holds\<close>

text \<open>
  What \<^verbatim>\<open>epoll_ctl\<close> does to the interest list, as its manual has it: adding a registered
  descriptor fails with \<^verbatim>\<open>EEXIST\<close>, changing or removing one that is not registered with
  \<^verbatim>\<open>ENOENT\<close>, and the list stays as it is. Other failures are not counted in.
\<close>

definition ctl_effect ::
    "epoll_op \<Rightarrow> int \<Rightarrow> flags32 \<times> ptr \<Rightarrow> (int \<rightharpoonup> flags32 \<times> ptr) \<Rightarrow> (int \<rightharpoonup> flags32 \<times> ptr)" where
  "ctl_effect op1 fd x m =
     (case op1 of
        EPOLL_CTL_ADD \<Rightarrow> if m fd = None then m(fd \<mapsto> x) else m
      | EPOLL_CTL_MOD \<Rightarrow> if m fd = None then m else m(fd \<mapsto> x)
      | EPOLL_CTL_DEL \<Rightarrow> m(fd := None))"

primrec interest :: "int \<Rightarrow> syscall list \<Rightarrow> (int \<rightharpoonup> flags32 \<times> ptr)" where
  "interest e [] = Map.empty"
| "interest e (c # cs) =
     (case c of Sys_epoll_ctl e' op1 fd ev p \<Rightarrow>
        if e' = e then ctl_effect op1 fd (ev, p) (interest e cs) else interest e cs
      | _ \<Rightarrow> interest e cs)"

abbreviation held :: "'z eworld \<Rightarrow> (int \<rightharpoonup> flags32 \<times> ptr)" where
  "held s \<equiv> interest (efd (backend (rl s))) (calls s)"

definition epoll_tracks :: "'z eworld \<Rightarrow> addr set \<Rightarrow> bool" where
  "epoll_tracks s A \<longleftrightarrow> inj_on (src_fd s) A \<and>
     (\<forall>a \<in> A. file_src s a \<and>
        (held s (src_fd s a) = Some (epoll_events (src_fl s a), Some a) \<or>
         held s (src_fd s a) = None \<and> \<not> flisset (src_fl s a) GWRL_ENABLED)) \<and>
     (\<forall>fd. fd \<notin> src_fd s ` A \<longrightarrow> held s fd = None)"

lemma epoll_tracksI:
  assumes "inj_on (src_fd s) A" "\<And>a. a \<in> A \<Longrightarrow> file_src s a"
    and "\<And>a. a \<in> A \<Longrightarrow> held s (src_fd s a) = Some (epoll_events (src_fl s a), Some a) \<or>
      held s (src_fd s a) = None \<and> \<not> flisset (src_fl s a) GWRL_ENABLED"
    and "\<And>fd. fd \<notin> src_fd s ` A \<Longrightarrow> held s fd = None"
  shows "epoll_tracks s A"
  unfolding epoll_tracks_def using assms by blast

lemma epoll_tracksD:
  assumes "epoll_tracks s A"
  shows "inj_on (src_fd s) A" "a \<in> A \<Longrightarrow> file_src s a"
    "a \<in> A \<Longrightarrow> held s (src_fd s a) = Some (epoll_events (src_fl s a), Some a) \<or>
      held s (src_fd s a) = None \<and> \<not> flisset (src_fl s a) GWRL_ENABLED"
    "fd \<notin> src_fd s ` A \<Longrightarrow> held s fd = None"
  using assms by (simp_all add: epoll_tracks_def)

lemma epoll_events_cong:
  "flisset fl GWRL_RD = flisset fl' GWRL_RD \<Longrightarrow> flisset fl GWRL_WR = flisset fl' GWRL_WR \<Longrightarrow>
   epoll_events fl = epoll_events fl'"
  by (simp add: epoll_events_def)

text \<open>A control call changes nothing of the reactor's own state.\<close>

lemma epoll_ctl_ok:
  assumes "file_src s a"
  obtains s' where "gwrl_bkd_epoll_ctl (Some a) op1 s = Some s'" "bkd_frame s s'" "srcs s' = srcs s"
    "held s' = ctl_effect op1 (src_fd s a) (epoll_events (src_fl s a), Some a) (held s)"
proof -
  obtain o1 f where o1: "srcs s a = Some o1" "as_file o1 = Some f" "file_fd f = src_fd s a"
    "src_flags o1 = src_fl s a" using assms by (rule file_src_part)
  let ?c = "Sys_epoll_ctl (efd (backend (rl s))) op1 (src_fd s a) (epoll_events (src_fl s a)) (Some a)"
  obtain er en where "gwrl_bkd_epoll_ctl (Some a) op1 s = Some (s\<lparr>calls := ?c # calls s, errno := en, errs := er\<rparr>)"
  proof (cases "ans_ret (fst (syscall ?c s)) < 0 \<and> errno (snd (syscall ?c s)) \<noteq> EEXIST \<and>
      errno (snd (syscall ?c s)) \<noteq> ENOENT")
    case True
    with o1 show thesis
      by (intro that [of "''dlB8d'' # errs s" "errno (snd (syscall ?c s))"])
        (auto simp: gwrl_bkd_epoll_ctl_def syscall_def Let_def gwerr_def)
  next
    case False
    with o1 show thesis
      by (intro that [of "errs s" "errno (snd (syscall ?c s))"])
        (auto simp: gwrl_bkd_epoll_ctl_def syscall_def Let_def)
  qed
  then show thesis by (rule that) (simp_all add: bkd_frame_def)
qed

lemma epoll_views:
  assumes "srcs s' = srcs s"
  shows "src_fd s' = src_fd s" "src_fl s' = src_fl s" "file_src s' = file_src s"
  using assms by (simp_all add: src_fd_def src_fl_def file_src_iff fun_eq_iff)

subsection \<open>The backend keeps its contract\<close>

text \<open>A control call after a change of the flags of a registered source.\<close>

lemma epoll_ctl_after_flags:
  assumes "a \<in> A" "epoll_tracks s A" "t = mod_src g a s"
    and "\<And>o1. src_part (g o1) = src_part o1" "\<And>o1. src_type (g o1) = src_type o1"
    and "ctl_effect op1 (src_fd s a) (epoll_events (src_fl t a), Some a) (held s) = (held s)(src_fd s a := y)"
    and "y = Some (epoll_events (src_fl t a), Some a) \<or> y = None \<and> \<not> flisset (src_fl t a) GWRL_ENABLED"
  shows "\<exists>s'. gwrl_bkd_epoll_ctl (Some a) op1 t = Some s' \<and> bkd_frame t s' \<and> epoll_tracks s' A"
proof -
  note d = epoll_tracksD [OF assms(2)]
  note v = flags_views [where g = g and a = a and s = s, OF assms(4,5), folded assms(3)]
  have "file_src t a" using d(2) [OF assms(1)] v(2) by simp
  then obtain s' where s': "gwrl_bkd_epoll_ctl (Some a) op1 t = Some s'" "bkd_frame t s'" "srcs s' = srcs t"
    "held s' = ctl_effect op1 (src_fd t a) (epoll_events (src_fl t a), Some a) (held t)"
    by (rule epoll_ctl_ok)
  have "held t = held s" by (simp add: assms(3) mod_src_def)
  then have h: "held s' = (held s)(src_fd s a := y)" using s'(4) assms(6) v(1) by simp
  note v' = epoll_views [OF s'(3)]
  have ne: "src_fd s b \<noteq> src_fd s a" if "b \<in> A" "b \<noteq> a" for b
    using d(1) that assms(1) by (auto simp: inj_on_def)
  have "epoll_tracks s' A"
  proof (rule epoll_tracksI)
    show "inj_on (src_fd s') A" using d(1) v(1) by (simp add: v' inj_on_def)
    show "file_src s' b" if "b \<in> A" for b using d(2) [OF that] v(2) by (simp add: v')
    show "held s' (src_fd s' b) = Some (epoll_events (src_fl s' b), Some b) \<or>
        held s' (src_fd s' b) = None \<and> \<not> flisset (src_fl s' b) GWRL_ENABLED" if "b \<in> A" for b
      using d(3) [OF that] ne [OF that] assms(7) v(1,3) by (cases "a = b") (auto simp: v' h)
    show "held s' fd = None" if "fd \<notin> src_fd s' ` A" for fd
      using d(4) [of fd] that assms(1) v(1) by (auto simp: v' h image_iff)
  qed
  with s'(1,2) show ?thesis by blast
qed

lemma epoll_tracks_cong:
  assumes "backend (rl s') = backend (rl s)" "calls s' = calls s"
    and "\<forall>a \<in> A. map_option src_core (srcs s' a) = map_option src_core (srcs s a)" "epoll_tracks s A"
  shows "epoll_tracks s' A"
proof -
  note d = epoll_tracksD [OF assms(4)]
  have v: "src_fd s' a = src_fd s a" "src_fl s' a = src_fl s a" "file_src s' a = file_src s a" if "a \<in> A" for a
    using core_views [of s' a s] assms(3) that by simp_all
  have i: "src_fd s' ` A = src_fd s ` A" using v(1) by simp
  show ?thesis
  proof (rule epoll_tracksI)
    show "inj_on (src_fd s') A" using d(1) v(1) by (simp add: inj_on_def)
  qed (use d v i assms(1,2) in simp_all)
qed

lemma epoll_add_law:
  assumes "srcs_inv s (a # Fs) Ts" "epoll_tracks s (set Fs)" "src_fd s a \<notin> src_fd s ` set Fs"
  shows "\<exists>s'. op_src_add epoll_ops (Some a) s = Some s' \<and> bkd_frame s s' \<and> epoll_tracks s' (set (a # Fs))"
proof -
  note d = epoll_tracksD [OF assms(2)]
  have fa: "file_src s a" using srcs_invD(5) [OF assms(1)] by simp
  then obtain s' where s': "gwrl_bkd_epoll_ctl (Some a) EPOLL_CTL_ADD s = Some s'" "bkd_frame s s'" "srcs s' = srcs s"
    "held s' = ctl_effect EPOLL_CTL_ADD (src_fd s a) (epoll_events (src_fl s a), Some a) (held s)"
    by (rule epoll_ctl_ok)
  have h: "held s' = (held s)(src_fd s a \<mapsto> (epoll_events (src_fl s a), Some a))"
    using s'(4) d(4) [OF assms(3)] by (simp add: ctl_effect_def)
  note v = epoll_views [OF s'(3)]
  have na: "a \<notin> set Fs" using assms(3) by auto
  have "epoll_tracks s' (set (a # Fs))"
  proof (rule epoll_tracksI)
    show "inj_on (src_fd s') (set (a # Fs))" using d(1) na assms(3) by (simp add: v)
    show "file_src s' b" if "b \<in> set (a # Fs)" for b using d(2) fa that by (auto simp: v)
    show "held s' (src_fd s' b) = Some (epoll_events (src_fl s' b), Some b) \<or>
        held s' (src_fd s' b) = None \<and> \<not> flisset (src_fl s' b) GWRL_ENABLED" if "b \<in> set (a # Fs)" for b
      using d(3) [of b] that assms(3) by (cases "b = a") (auto simp: v h image_iff)
    show "held s' fd = None" if "fd \<notin> src_fd s' ` set (a # Fs)" for fd
      using d(4) [of fd] that by (auto simp: v h)
  qed
  with s'(1,2) show ?thesis by (auto simp: epoll_ops_def gwrl_bkd_src_add_epoll_def)
qed

lemma epoll_del_law:
  assumes "file_src s a" "a \<notin> A" "epoll_tracks s (insert a A)"
  shows "\<exists>s' fl. op_del_src epoll_ops (Some a) s = Some s' \<and>
    bkd_frame (mod_src (\<lambda>o1. o1\<lparr>src_flags := fl\<rparr>) a s) s' \<and> epoll_tracks s' A"
proof -
  note d = epoll_tracksD [OF assms(3)]
  obtain s' where s': "gwrl_bkd_epoll_ctl (Some a) EPOLL_CTL_DEL s = Some s'" "bkd_frame s s'" "srcs s' = srcs s"
    "held s' = ctl_effect EPOLL_CTL_DEL (src_fd s a) (epoll_events (src_fl s a), Some a) (held s)"
    using assms(1) by (rule epoll_ctl_ok)
  have h: "held s' = (held s)(src_fd s a := None)" using s'(4) by (simp add: ctl_effect_def)
  note v = epoll_views [OF s'(3)]
  have ne: "src_fd s b \<noteq> src_fd s a" if "b \<in> A" for b
    using d(1) that assms(2) by (auto simp: inj_on_def)
  have "epoll_tracks s' A"
  proof (rule epoll_tracksI)
    show "inj_on (src_fd s') A" using d(1) by (simp add: v)
    show "file_src s' b" if "b \<in> A" for b using d(2) [of b] that by (simp add: v)
    show "held s' (src_fd s' b) = Some (epoll_events (src_fl s' b), Some b) \<or>
        held s' (src_fd s' b) = None \<and> \<not> flisset (src_fl s' b) GWRL_ENABLED" if "b \<in> A" for b
      using d(3) [of b] ne [OF that] that by (auto simp: v h)
    show "held s' fd = None" if "fd \<notin> src_fd s' ` A" for fd
      using d(4) [of fd] that by (auto simp: v h)
  qed
  with s'(1,2) show ?thesis
    by (intro exI [of _ s'] exI [of _ "src_fl s a"]) (simp add: epoll_ops_def gwrl_bkd_del_src_epoll_def)
qed

lemma epoll_flags_law:
  assumes "a \<in> A" "epoll_tracks s A" "t = mod_src g a s"
    and "g = src_flset GWRL_ENABLED \<and> op1 = EPOLL_CTL_ADD \<or> g = src_flclr GWRL_ENABLED \<and> op1 = EPOLL_CTL_DEL"
  shows "\<exists>s'. gwrl_bkd_epoll_ctl (Some a) op1 t = Some s' \<and> bkd_frame t s' \<and> epoll_tracks s' A"
proof -
  obtain oa where oa: "srcs s a = Some oa" using epoll_tracksD(2) [OF assms(2,1)] by (auto simp: file_src_iff)
  have ev: "epoll_events (src_fl t a) = epoll_events (src_fl s a)"
    using oa assms(3,4)
    by (intro epoll_events_cong) (auto simp: src_fl_def mod_src_def src_flset_def src_flclr_def flag_simps)
  have en: "flisset (src_fl t a) GWRL_ENABLED \<longleftrightarrow> op1 = EPOLL_CTL_ADD"
    using oa assms(3,4) by (auto simp: src_fl_def mod_src_def src_flset_def src_flclr_def flag_simps)
  let ?y = "if op1 = EPOLL_CTL_ADD then Some (epoll_events (src_fl t a), Some a) else None"
  show ?thesis
  proof (rule epoll_ctl_after_flags [OF assms(1-3), where y = ?y])
    show "src_part (g o1) = src_part o1" "src_type (g o1) = src_type o1" for o1
      using assms(4) by (auto simp: src_flset_def src_flclr_def)
    show "ctl_effect op1 (src_fd s a) (epoll_events (src_fl t a), Some a) (held s) = (held s)(src_fd s a := ?y)"
      using epoll_tracksD(3) [OF assms(2,1)] assms(4) ev by (auto simp: ctl_effect_def fun_upd_idem)
  qed (use en in auto)
qed

lemma epoll_update_law:
  assumes "a \<in> A" "epoll_tracks s A" "t = mod_src (\<lambda>o1. o1\<lparr>src_flags := fl\<rparr>) a s"
    and "flisset fl GWRL_ENABLED = flisset (src_fl s a) GWRL_ENABLED"
  shows "\<exists>s'. op_update_flags epoll_ops (Some a) fl s = Some s' \<and> bkd_frame t s' \<and> epoll_tracks s' A"
proof -
  obtain oa where oa: "srcs s a = Some oa" using epoll_tracksD(2) [OF assms(2,1)] by (auto simp: file_src_iff)
  have fl: "src_fl t a = fl" using oa assms(3) by (simp add: src_fl_def mod_src_def)
  let ?y = "if held s (src_fd s a) = None then None else Some (epoll_events (src_fl t a), Some a)"
  have "\<exists>s'. gwrl_bkd_epoll_ctl (Some a) EPOLL_CTL_MOD t = Some s' \<and> bkd_frame t s' \<and> epoll_tracks s' A"
  proof (rule epoll_ctl_after_flags [OF assms(1-3), where y = ?y])
    show "ctl_effect EPOLL_CTL_MOD (src_fd s a) (epoll_events (src_fl t a), Some a) (held s) =
        (held s)(src_fd s a := ?y)" by (auto simp: ctl_effect_def fun_upd_idem)
  qed (use epoll_tracksD(3) [OF assms(2,1)] assms(4) fl in auto)
  moreover have "op_update_flags epoll_ops (Some a) fl s = gwrl_bkd_epoll_ctl (Some a) EPOLL_CTL_MOD t"
    using oa assms(3) by (simp add: epoll_ops_def gwrl_src_file_update_flags_epoll_def mod_src_def fun_upd_def)
  ultimately show ?thesis by simp
qed

interpretation ep: reactor_backend epoll_ops "\<lambda>_. True" epoll_tracks
proof unfold_locales
  fix s t :: "'z eworld" and Fs Ts a
  assume "a \<in> set Fs" "epoll_tracks s (set Fs)" "t = mod_src (src_flset GWRL_ENABLED) a s"
  then show "\<exists>s'. op_enable_src epoll_ops (Some a) t = Some s' \<and> bkd_frame t s' \<and> epoll_tracks s' (set Fs)"
    using epoll_flags_law [of a "set Fs" s t "src_flset GWRL_ENABLED" EPOLL_CTL_ADD]
    by (simp add: epoll_ops_def gwrl_bkd_enable_src_epoll_def)
next
  fix s t :: "'z eworld" and Fs Ts a
  assume "a \<in> set Fs" "epoll_tracks s (set Fs)" "t = mod_src (src_flclr GWRL_ENABLED) a s"
  then show "\<exists>s'. op_disable_src epoll_ops (Some a) t = Some s' \<and> bkd_frame t s' \<and> epoll_tracks s' (set Fs)"
    using epoll_flags_law [of a "set Fs" s t "src_flclr GWRL_ENABLED" EPOLL_CTL_DEL]
    by (simp add: epoll_ops_def gwrl_bkd_disable_src_epoll_def)
qed (rule epoll_tracks_cong epoll_add_law epoll_del_law epoll_update_law; assumption)+

subsection \<open>Gathering\<close>

text \<open>The flags and the event for a source that \<^verbatim>\<open>epoll_wait\<close> reported with the events \<open>ev\<close>.\<close>

definition ep_flags :: "'z eworld \<Rightarrow> flags32 \<times> addr \<Rightarrow> flags8" where
  "ep_flags s r = (case r of (ev, a) \<Rightarrow>
     (if flisset (src_fl s a) GWRL_RD \<and> flisset ev EPOLLIN then GWRL_RD else 0) OR
     (if flisset (src_fl s a) GWRL_WR \<and> flisset ev EPOLLOUT then GWRL_WR else 0))"

definition ep_evt :: "'z eworld \<Rightarrow> flags32 \<times> addr \<Rightarrow> gwrlevt option" where
  "ep_evt s r = (case r of (ev, a) \<Rightarrow>
     map_option (\<lambda>o1. new_evt (Some a) (src_callback o1) (src_userdata o1) (src_fd s a) (ep_flags s r) None) (srcs s a))"

abbreviation as_reports :: "(flags32 \<times> addr) list \<Rightarrow> (flags32 \<times> ptr) list" where
  "as_reports R \<equiv> map (\<lambda>(ev, a). (ev, Some a)) R"

lemma epoll_new_flags_ok:
  "srcs s a = Some o1 \<Longrightarrow> src_type o1 = 0 \<Longrightarrow> epoll_new_flags o1 ev = ep_flags s (ev, a)"
  by (simp add: epoll_new_flags_def ep_flags_def src_fl_def src_type_defs flisset_def Let_def)

lemma ep_views:
  assumes "srcs s' = srcs s"
  shows "ep_flags s' = ep_flags s" "ep_evt s' = ep_evt s"
  using assms epoll_views [OF assms] by (auto simp: fun_eq_iff ep_flags_def ep_evt_def)

lemma epoll_post_loop_ok:
  assumes "\<forall>(ev, a) \<in> set R. file_src s a" "evts_inv s E C"
  shows "\<exists>s' N C'. epoll_post_loop (length R) (as_reports R) s = Some s' \<and> evt_frame s s' \<and>
    evts_inv s' (rev N @ E) C' \<and>
    map (\<lambda>e. map_option evt_core (evts s' e)) N = map (ep_evt s) (filter (\<lambda>r. ep_flags s r \<noteq> 0) R) \<and>
    (\<forall>e \<in> set E. evts s' e = evts s e)"
  using assms
proof (induction R arbitrary: s E C)
  case Nil
  then show ?case by (intro exI [of _ s] exI [of _ "[]"] exI [of _ C]) simp
next
  case (Cons r R)
  obtain ev a where r: "r = (ev, a)" by (cases r)
  have fa: "file_src s a" using Cons.prems(1) r by simp
  then obtain o1 f where o1: "srcs s a = Some o1" "src_type o1 = 0" "as_file o1 = Some f"
    "file_fd f = src_fd s a" by (rule file_src_part)
  note nf = epoll_new_flags_ok [OF o1(1,2), of ev]
  show ?case
  proof (cases "ep_flags s r = 0")
    case True
    have "epoll_post_loop (length (r # R)) (as_reports (r # R)) s = epoll_post_loop (length R) (as_reports R) s"
      using True o1(1) nf r by simp
    with Cons.IH [OF _ Cons.prems(2)] Cons.prems(1) True show ?thesis by auto
  next
    case False
    obtain e t where t:
      "(gwrl_evt_createp (Some a) (src_callback o1) (src_userdata o1) (src_fd s a)
         (ep_flags s r) s \<bind> (\<lambda>(e, s). gwrl_post_evt e s)) = Some t"
      "evts t = (evts s)(e \<mapsto> new_evt (Some a) (src_callback o1) (src_userdata o1) (src_fd s a)
         (ep_flags s r) (events (rl s)))" "e \<notin> set E"
      "evts_inv t (e # E) (tl C)" "evt_frame s t"
      by (rule createp_post [OF Cons.prems(2)])
    have st: "srcs t = srcs s" by (rule evt_frameD(1) [OF t(5)])
    note v = ep_views [OF st] epoll_views(3) [OF st]
    have "epoll_post_loop (length (r # R)) (as_reports (r # R)) s = epoll_post_loop (length R) (as_reports R) t"
      using False o1 t(1) nf r by (simp add: word_gt_0)
    moreover obtain s' N C' where s': "epoll_post_loop (length R) (as_reports R) t = Some s'" "evt_frame t s'"
      "evts_inv s' (rev N @ e # E) C'"
      "map (\<lambda>e. map_option evt_core (evts s' e)) N = map (ep_evt s) (filter (\<lambda>r. ep_flags s r \<noteq> 0) R)"
      "\<forall>e \<in> set (e # E). evts s' e = evts t e"
      using Cons.IH [of t "e # E" "tl C"] t(4) Cons.prems(1) unfolding v by auto
    moreover have "map_option evt_core (evts s' e) = ep_evt s r"
      using s'(5) t(2) o1(1) r by (simp add: ep_evt_def evt_core_def)
    ultimately show ?thesis
      using False t(2,3) evt_frame_trans [OF t(5) s'(2)]
      by (intro exI [of _ s'] exI [of _ "e # N"] exI [of _ C']) auto
  qed
qed

text \<open>The state in which \<^verbatim>\<open>epoll_wait\<close> has returned.\<close>

definition waited :: "int \<Rightarrow> 'z eworld \<Rightarrow> 'z eworld" where
  "waited ms s =
     (let a = answer_at s 0 in
      s\<lparr>calls := Sys_epoll_wait (efd (backend (rl s))) (unat (maxnpevents (backend (rl s))))
          (sint (word_of_int ms :: 32 word)) # calls s,
        errno := (if ans_ret a < 0 then ans_errno a else errno s),
        rl := (rl s)\<lparr>rl_flags := flclr (flset (rl_flags (rl s)) GWRL_SLEEPING) GWRL_SLEEPING\<rparr>\<rparr>)"

lemma waited_sel [simp]:
  "srcs (waited ms s) = srcs s" "evts (waited ms s) = evts s" "brk (waited ms s) = brk s"
  "backend (rl (waited ms s)) = backend (rl s)" "sources (rl (waited ms s)) = sources (rl s)"
  "events (rl (waited ms s)) = events (rl s)" "cevents (rl (waited ms s)) = cevents (rl s)"
  "ncevents (rl (waited ms s)) = ncevents (rl s)"
  by (simp_all add: waited_def Let_def)

lemma waited_evts_inv: "evts_inv s E C \<Longrightarrow> evts_inv (waited ms s) E C"
  by (rule evts_inv_cong [of "waited ms s" s]; simp add: evts_inv_def fresh_ok_def)

lemma gather_epoll_cases:
  assumes "epoll_timeout s = Some ms"
  shows "ans_ret (answer_at s 0) = 0 \<Longrightarrow> gwrl_bkd_gather_epoll s = Some (waited ms s)"
    and "ans_ret (answer_at s 0) < 0 \<Longrightarrow> gwrl_bkd_gather_epoll s = Some (gwerr ''3Xf9G'' (waited ms s))"
    and "0 < ans_ret (answer_at s 0) \<Longrightarrow> pevents (backend (rl s)) = Some n \<Longrightarrow> ans_ret (answer_at s 0) \<le> int n \<Longrightarrow>
      gwrl_bkd_gather_epoll s = epoll_post_loop (nat (ans_ret (answer_at s 0))) (ans_epoll (answer_at s 0)) (waited ms s)"
  using assms
  by (simp_all add: gwrl_bkd_gather_epoll_def syscall_def Let_def answer_at_def waited_def errno_defs nat_le_iff)

subsection \<open>The same readiness, the same events\<close>

text \<open>
  What the two calls report when the system finds the descriptors \<open>rd\<close> readable and \<open>wr\<close> writable.
  \<^verbatim>\<open>select\<close> leaves those in its sets and returns their number; \<^verbatim>\<open>epoll_wait\<close> returns each
  registered entry at most once, every one whose interest meets the readiness among them
  (an entry may come for a hang-up alone).
\<close>

definition select_says :: "'z sworld \<Rightarrow> (int \<Rightarrow> bool) \<Rightarrow> (int \<Rightarrow> bool) \<Rightarrow> answer \<Rightarrow> bool" where
  "select_says s rd wr a \<longleftrightarrow>
     (case src_sets (backend (rl s)) of (r, w, e) \<Rightarrow>
        ans_ready a = (\<lambda>fd. r fd \<and> rd fd, \<lambda>fd. w fd \<and> wr fd, \<lambda>_. False) \<and> 0 \<le> ans_ret a \<and>
        (ans_ret a = 0 \<longleftrightarrow> (\<forall>fd. \<not> (r fd \<and> rd fd) \<and> \<not> (w fd \<and> wr fd))))"

definition epoll_says :: "'z eworld \<Rightarrow> (int \<Rightarrow> bool) \<Rightarrow> (int \<Rightarrow> bool) \<Rightarrow> answer \<Rightarrow> bool" where
  "epoll_says t rd wr a \<longleftrightarrow>
     ans_ret a = int (length (ans_epoll a)) \<and> distinct (map snd (ans_epoll a)) \<and>
     (\<forall>(ev, p) \<in> set (ans_epoll a). \<exists>fd ev0. held t fd = Some (ev0, p) \<and>
        (flisset ev EPOLLIN \<longleftrightarrow> flisset ev0 EPOLLIN \<and> rd fd) \<and>
        (flisset ev EPOLLOUT \<longleftrightarrow> flisset ev0 EPOLLOUT \<and> wr fd)) \<and>
     (\<forall>fd ev0 p. held t fd = Some (ev0, p) \<longrightarrow>
        flisset ev0 EPOLLIN \<and> rd fd \<or> flisset ev0 EPOLLOUT \<and> wr fd \<longrightarrow> p \<in> snd ` set (ans_epoll a))"

text \<open>The reference: what a source is due when the system finds \<open>rd\<close> and \<open>wr\<close>.\<close>

definition due_flags :: "(int \<Rightarrow> bool) \<Rightarrow> (int \<Rightarrow> bool) \<Rightarrow> ('b, 'z) world_scheme \<Rightarrow> addr \<Rightarrow> flags8" where
  "due_flags rd wr s a =
     (if flisset (src_fl s a) GWRL_RD \<and> rd (src_fd s a) then GWRL_RD else 0) OR
     (if flisset (src_fl s a) GWRL_WR \<and> wr (src_fd s a) then GWRL_WR else 0)"

definition due_evt :: "(int \<Rightarrow> bool) \<Rightarrow> (int \<Rightarrow> bool) \<Rightarrow> ('b, 'z) world_scheme \<Rightarrow> addr \<Rightarrow> gwrlevt option" where
  "due_evt rd wr s a = map_option (\<lambda>o1. new_evt (Some a) (src_callback o1) (src_userdata o1) (src_fd s a)
     (due_flags rd wr s a) None) (srcs s a)"

definition due_srcs :: "(int \<Rightarrow> bool) \<Rightarrow> (int \<Rightarrow> bool) \<Rightarrow> ('b, 'z) world_scheme \<Rightarrow> addr list \<Rightarrow> addr list" where
  "due_srcs rd wr s L = filter (\<lambda>a. flisset (src_fl s a) GWRL_ENABLED \<and> due_flags rd wr s a \<noteq> 0) L"

lemma rdwr_flags_zero: "((if p then GWRL_RD else 0) OR (if q then GWRL_WR else 0) = (0 :: flags8)) \<longleftrightarrow> \<not> p \<and> \<not> q"
  by (simp add: flag_defs)

lemma flisset_epoll [flag_simps]:
  "flisset (epoll_events fl) EPOLLIN = flisset fl GWRL_RD" "flisset (epoll_events fl) EPOLLOUT = flisset fl GWRL_WR"
  by (auto simp: epoll_events_def EPOLLIN_def EPOLLOUT_def EPOLLRDHUP_def flisset_def Let_def)

lemma select_due:
  assumes "select_tracks s (set Fs)" "select_says s rd wr (answer_at s 0)" "a \<in> set Fs"
  shows "ready_flags (ans_ready (answer_at s 0)) (src_fd s a) = due_flags rd wr s a"
proof -
  have i: "inj_on (src_fd s) (set Fs)" and w: "src_sets (backend (rl s)) = wanted s (set Fs)"
    using assms(1) by (simp_all add: select_tracks_def)
  have one: "(\<exists>b \<in> set Fs. src_fd s b = src_fd s a \<and> flisset (src_fl s b) k) \<longleftrightarrow> flisset (src_fl s a) k" for k
    using i assms(3) by (auto simp: inj_on_def)
  have "ans_ready (answer_at s 0) = (\<lambda>fd. fst (wanted s (set Fs)) fd \<and> rd fd,
      \<lambda>fd. fst (snd (wanted s (set Fs))) fd \<and> wr fd, \<lambda>_. False)"
    using assms(2) w by (simp add: select_says_def split_def)
  then show ?thesis by (simp add: ready_flags_def due_flags_def wanted_def one)
qed

lemma select_gathers_due:
  assumes "srcs_inv s Fs Ts" "select_tracks s (set Fs)" "evts_inv s E C"
    and "select_says s rd wr (answer_at s 0)"
  obtains s' N C' where "gwrl_bkd_gather_select s = Some s'" "evts_inv s' (rev N @ E) C'"
    "map (\<lambda>e. map_option evt_core (evts s' e)) N = map (due_evt rd wr s) (due_srcs rd wr s Fs)"
proof (cases "ans_ret (answer_at s 0) = 0")
  case True
  have w: "src_sets (backend (rl s)) = wanted s (set Fs)" using assms(2) by (simp add: select_tracks_def)
  have "due_flags rd wr s a = 0" if "a \<in> set Fs" for a
    using assms(4) True w that by (auto simp: select_says_def wanted_def due_flags_def)
  then have "due_srcs rd wr s Fs = []" by (simp add: due_srcs_def)
  with gather_select_idle [of s] True polled_inv(2) [OF assms(3)] show ?thesis
    by (intro that [of "polled s" "[]" C]) simp_all
next
  case False
  note i = srcs_invD [OF assms(1)]
  let ?x = "ans_ready (answer_at s 0)"
  have r: "0 < ans_ret (answer_at s 0)" using assms(4) False by (auto simp: select_says_def)
  have v: "ready (polled s) ?x = ready s ?x" "ready_evt (polled s) ?x = ready_evt s ?x"
    by (simp_all add: srcs_views fun_eq_iff)
  have "chain (src_nx (polled s)) (sources (rl s) ! 0) Fs" using i(2) by (simp add: src_nx_srcs)
  moreover have "\<forall>a \<in> set Fs. file_src (polled s) a \<and> select_fd_ok (src_fd (polled s) a)"
    using assms(2) srcs_views(1,3) [of "polled s" s] by (simp add: select_tracks_def)
  ultimately obtain s' N C' where s': "post_ready_loop ?x (sources (rl s) ! 0) (polled s) = Some s'"
    "evts_inv s' (rev N @ E) C'"
    "map (\<lambda>e. map_option evt_core (evts s' e)) N = map (ready_evt s ?x) (filter (ready s ?x) Fs)"
    using post_ready_loop_ok [OF _ _ polled_inv(2) [OF assms(3)], of "sources (rl s) ! 0" Fs ?x]
    unfolding v by blast
  note d = select_due [OF assms(2,4)]
  have "filter (ready s ?x) Fs = due_srcs rd wr s Fs"
    unfolding due_srcs_def by (rule filter_cong) (simp_all add: ready_def d)
  moreover have "map (ready_evt s ?x) (due_srcs rd wr s Fs) = map (due_evt rd wr s) (due_srcs rd wr s Fs)"
    by (simp add: ready_evt_def due_evt_def due_srcs_def d)
  ultimately show ?thesis
    using gather_select_ready [OF r] i(1) s' by (intro that [of s' N C']) simp_all
qed

lemma epoll_says_reports:
  assumes "epoll_tracks t A" "epoll_says t rd wr a"
  obtains R where "ans_epoll a = as_reports R" "ans_ret a = int (length R)" "distinct (map snd R)"
    "\<forall>r \<in> set R. snd r \<in> A \<and> held t (src_fd t (snd r)) \<noteq> None \<and> ep_flags t r = due_flags rd wr t (snd r)"
    "\<forall>b \<in> A. held t (src_fd t b) \<noteq> None \<and> due_flags rd wr t b \<noteq> 0 \<longrightarrow> b \<in> snd ` set R"
proof -
  note d = epoll_tracksD [OF assms(1)]
  from assms(2) have sy: "ans_ret a = int (length (ans_epoll a))" "distinct (map snd (ans_epoll a))"
    and says: "\<And>ev p. (ev, p) \<in> set (ans_epoll a) \<Longrightarrow> \<exists>fd ev0. held t fd = Some (ev0, p) \<and>
        (flisset ev EPOLLIN \<longleftrightarrow> flisset ev0 EPOLLIN \<and> rd fd) \<and>
        (flisset ev EPOLLOUT \<longleftrightarrow> flisset ev0 EPOLLOUT \<and> wr fd)"
    and all: "\<And>fd ev0 p. held t fd = Some (ev0, p) \<Longrightarrow>
        flisset ev0 EPOLLIN \<and> rd fd \<or> flisset ev0 EPOLLOUT \<and> wr fd \<Longrightarrow> p \<in> snd ` set (ans_epoll a)"
    by (auto simp: epoll_says_def)
  have reg: "\<exists>b \<in> A. fd = src_fd t b \<and> ev0 = epoll_events (src_fl t b) \<and> p = Some b" if "held t fd = Some (ev0, p)" for fd ev0 p
  proof -
    have "fd \<in> src_fd t ` A" using d(4) [of fd] that by auto
    then obtain b where b: "b \<in> A" "fd = src_fd t b" by auto
    with d(3) [OF b(1)] that show ?thesis by auto
  qed
  let ?R = "map (\<lambda>(ev, p). (ev, the p)) (ans_epoll a)"
  have each: "\<exists>b \<in> A. p = Some b \<and> held t (src_fd t b) \<noteq> None \<and> ep_flags t (ev, b) = due_flags rd wr t b"
    if l: "(ev, p) \<in> set (ans_epoll a)" for ev p
  proof -
    obtain fd ev0 where h: "held t fd = Some (ev0, p)"
      and io: "flisset ev EPOLLIN \<longleftrightarrow> flisset ev0 EPOLLIN \<and> rd fd" "flisset ev EPOLLOUT \<longleftrightarrow> flisset ev0 EPOLLOUT \<and> wr fd"
      using says [OF l] by blast
    obtain b where b: "b \<in> A" "fd = src_fd t b" "ev0 = epoll_events (src_fl t b)" "p = Some b" using reg [OF h] by blast
    have "ep_flags t (ev, b) = due_flags rd wr t b"
      by (simp add: ep_flags_def due_flags_def io b(2,3) flisset_epoll)
    with b h show ?thesis by auto
  qed
  have ptrs: "\<forall>x \<in> set (ans_epoll a). snd x \<noteq> None" using each by fastforce
  have "as_reports ?R = ans_epoll a" unfolding map_map
  proof (rule map_idI)
    fix x assume "x \<in> set (ans_epoll a)"
    with ptrs obtain ev b where "x = (ev, Some b)" by (cases x) auto
    then show "((\<lambda>(ev, a). (ev, Some a)) \<circ> (\<lambda>(ev, p). (ev, the p))) x = x" by simp
  qed
  then have es: "ans_epoll a = as_reports ?R" ..
  have ms: "map snd (ans_epoll a) = map Some (map snd ?R)" by (subst es) (simp add: split_def)
  have di: "distinct (map snd ?R)" using sy(2) unfolding ms distinct_map [of Some] by (rule conjunct1)
  show ?thesis
  proof (rule that [OF es _ di])
    show "ans_ret a = int (length ?R)" using sy(1) by simp
    show "\<forall>r \<in> set ?R. snd r \<in> A \<and> held t (src_fd t (snd r)) \<noteq> None \<and> ep_flags t r = due_flags rd wr t (snd r)"
      using each by fastforce
    show "\<forall>b \<in> A. held t (src_fd t b) \<noteq> None \<and> due_flags rd wr t b \<noteq> 0 \<longrightarrow> b \<in> snd ` set ?R"
    proof (intro ballI impI)
      fix b assume b: "b \<in> A" "held t (src_fd t b) \<noteq> None \<and> due_flags rd wr t b \<noteq> 0"
      then have h: "held t (src_fd t b) = Some (epoll_events (src_fl t b), Some b)" using d(3) [OF b(1)] by auto
      have "flisset (epoll_events (src_fl t b)) EPOLLIN \<and> rd (src_fd t b) \<or>
          flisset (epoll_events (src_fl t b)) EPOLLOUT \<and> wr (src_fd t b)"
        using b(2) by (auto simp: due_flags_def rdwr_flags_zero flisset_epoll)
      then have "Some b \<in> snd ` set (ans_epoll a)" by (rule all [OF h])
      then show "b \<in> snd ` set ?R" by force
    qed
  qed
qed

lemma epoll_gathers_due:
  assumes "epoll_tracks t (set Fs)" "distinct Fs" "evts_inv t E C"
    and "epoll_says t rd wr (answer_at t 0)" "epoll_timeout t = Some ms"
    and "pevents (backend (rl t)) = Some n" "ans_ret (answer_at t 0) \<le> int n"
    and "\<forall>a \<in> set Fs. held t (src_fd t a) \<noteq> None \<longrightarrow> flisset (src_fl t a) GWRL_ENABLED"
  obtains t' N C' where "gwrl_bkd_gather_epoll t = Some t'" "evts_inv t' (rev N @ E) C'"
    "mset (map (\<lambda>e. map_option evt_core (evts t' e)) N) = mset (map (due_evt rd wr t) (due_srcs rd wr t Fs))"
proof -
  note d = epoll_tracksD [OF assms(1)]
  obtain R where R: "ans_epoll (answer_at t 0) = as_reports R" "ans_ret (answer_at t 0) = int (length R)"
    "distinct (map snd R)"
    "\<forall>r \<in> set R. snd r \<in> set Fs \<and> held t (src_fd t (snd r)) \<noteq> None \<and> ep_flags t r = due_flags rd wr t (snd r)"
    "\<forall>b \<in> set Fs. held t (src_fd t b) \<noteq> None \<and> due_flags rd wr t b \<noteq> 0 \<longrightarrow> b \<in> snd ` set R"
    using assms(1,4) by (rule epoll_says_reports)
  note v = ep_views [of "waited ms t" t, simplified] epoll_views(3) [of "waited ms t" t, simplified]
  have "\<forall>(ev, a) \<in> set R. file_src (waited ms t) a" using R(4) d(2) by (fastforce simp: v)
  from epoll_post_loop_ok [OF this waited_evts_inv [OF assms(3)]] obtain t' N C' where
    t': "epoll_post_loop (length R) (as_reports R) (waited ms t) = Some t'" "evts_inv t' (rev N @ E) C'"
    "map (\<lambda>e. map_option evt_core (evts t' e)) N = map (ep_evt t) (filter (\<lambda>r. ep_flags t r \<noteq> 0) R)"
    unfolding v by blast
  have g: "gwrl_bkd_gather_epoll t = epoll_post_loop (length R) (as_reports R) (waited ms t)"
    using gather_epoll_cases(1,3) [OF assms(5)] assms(6,7) R(1,2) by (cases "R = []") simp_all
  let ?Q = "filter (\<lambda>r. ep_flags t r \<noteq> 0) R"
  have "ep_evt t r = due_evt rd wr t (snd r)" if "r \<in> set R" for r
    using R(4) that by (cases r) (auto simp: ep_evt_def due_evt_def)
  then have "map (ep_evt t) ?Q = map (due_evt rd wr t) (map snd ?Q)" by simp
  moreover have "set (map snd ?Q) = set (due_srcs rd wr t Fs)"
  proof -
    have "a \<in> snd ` set ?Q \<longleftrightarrow> a \<in> set (due_srcs rd wr t Fs)" for a
    proof
      assume "a \<in> snd ` set ?Q"
      then show "a \<in> set (due_srcs rd wr t Fs)" using R(4) assms(8) by (auto simp: due_srcs_def)
    next
      assume a: "a \<in> set (due_srcs rd wr t Fs)"
      then have "held t (src_fd t a) \<noteq> None" using d(3) [of a] by (auto simp: due_srcs_def)
      with R(5) a obtain r where "r \<in> set R" "a = snd r" "due_flags rd wr t a \<noteq> 0" by (auto simp: due_srcs_def)
      with R(4) show "a \<in> snd ` set ?Q" by force
    qed
    then show ?thesis by auto
  qed
  moreover have "distinct (map snd ?Q)" using R(3) by (simp add: distinct_map_filter)
  moreover have "distinct (due_srcs rd wr t Fs)" using assms(2) by (simp add: due_srcs_def)
  ultimately have e: "map (ep_evt t) ?Q = map (due_evt rd wr t) (map snd ?Q)"
    and m: "mset (map snd ?Q) = mset (due_srcs rd wr t Fs)"
    by (simp_all only: set_eq_iff_mset_eq_distinct)
  have "mset (map (ep_evt t) ?Q) = mset (map (due_evt rd wr t) (due_srcs rd wr t Fs))"
    unfolding e using m by (simp only: mset_map)
  with t' g show ?thesis by (intro that [of t' N C']) simp_all
qed

subsection \<open>Properties\<close>

text \<open>
  C25: with the epoll backend, adding a file source on a descriptor that is not registered yet,
  removing one (with or without its predecessor given), enabling or disabling one, and changing
  its flags without touching whether it is enabled always return, keep the lists
  consistent, and leave the kernel with an entry for every enabled source, with its interest
  and the source itself as data, and with none for any other descriptor than those of
  registered sources.
\<close>
theorem epoll_sources_tracked:
  assumes "srcs_inv s (xs @ a # ys) Ts" "epoll_tracks s (set (xs @ a # ys))"
    and "file_src s b" "b \<notin> set (xs @ a # ys)" "src_nx s b = Some None"
    and "src_fd s b \<notin> src_fd s ` set (xs @ a # ys)"
    and "prev = None \<or> xs \<noteq> [] \<and> prev = Some (last xs)"
    and "flisset fl GWRL_ENABLED = flisset (src_fl s a) GWRL_ENABLED"
  shows "(\<exists>s'. gwrl_src_add epoll_ops (Some b) s = Some s' \<and> srcs_inv s' (b # xs @ a # ys) Ts \<and>
      epoll_tracks s' (set (b # xs @ a # ys))) \<and>
    (\<exists>s'. gwrl_src_del epoll_ops (Some a) prev freesrc s = Some s' \<and> srcs_inv s' (xs @ ys) Ts \<and>
      epoll_tracks s' (set (xs @ ys)) \<and> (srcs s' a = None \<longleftrightarrow> freesrc)) \<and>
    (\<exists>s'. gwrl_src_enable epoll_ops (Some a) s = Some s' \<and> srcs_inv s' (xs @ a # ys) Ts \<and>
      epoll_tracks s' (set (xs @ a # ys))) \<and>
    (\<exists>s'. gwrl_src_disable epoll_ops (Some a) s = Some s' \<and> srcs_inv s' (xs @ a # ys) Ts \<and>
      epoll_tracks s' (set (xs @ a # ys))) \<and>
    (\<exists>s'. gwrl_src_file_update_flags_epoll (Some a) fl s = Some s' \<and> src_fl s' a = fl \<and>
      epoll_tracks s' (set (xs @ a # ys)))"
proof -
  have a: "a \<in> set (xs @ a # ys)" by simp
  have b: "\<exists>ob. srcs s b = Some ob \<and> src_next ob = None" using assms(5) by (simp add: src_nx_iff)
  show ?thesis
    using ep.add_file [OF assms(1,2,3,4) b TrueI assms(6)] ep.del_file [OF assms(1,2,7), of freesrc]
      ep.enable_file [OF assms(1,2) a] ep.disable_file [OF assms(1,2) a] ep.update_file [OF assms(1,2) a assms(8)]
    by (auto simp: epoll_ops_def)
qed

text \<open>
  C21: gathering waits once in \<^verbatim>\<open>epoll_wait\<close>. For what it reports one event is posted for each
  entry, in the order of the report, whose readiness meets the source's interest, with that source, its callback, user
  data and descriptor; a hang-up or an error without readiness posts nothing. On a timeout
  nothing is posted, and on any failure, \<^verbatim>\<open>EINTR\<close> included, nothing but the error message.
\<close>
theorem epoll_gather_posts:
  assumes "epoll_tracks s (set Fs)" "evts_inv s E C" "epoll_timeout s = Some ms"
  shows "(\<forall>n R. 0 < ans_ret (answer_at s 0) \<and> pevents (backend (rl s)) = Some n \<and> length R \<le> n \<and>
        ans_ret (answer_at s 0) = int (length R) \<and> ans_epoll (answer_at s 0) = as_reports R \<and> snd ` set R \<subseteq> set Fs \<longrightarrow>
      (\<exists>s' N C'. gwrl_bkd_gather_epoll s = Some s' \<and> evt_frame (waited ms s) s' \<and> evts_inv s' (rev N @ E) C' \<and>
        map (\<lambda>e. map_option evt_core (evts s' e)) N = map (ep_evt s) (filter (\<lambda>r. ep_flags s r \<noteq> 0) R) \<and>
        (\<forall>e \<in> set E. evts s' e = evts s e))) \<and>
    (ans_ret (answer_at s 0) = 0 \<longrightarrow> gwrl_bkd_gather_epoll s = Some (waited ms s)) \<and>
    (ans_ret (answer_at s 0) < 0 \<longrightarrow> gwrl_bkd_gather_epoll s = Some (gwerr ''3Xf9G'' (waited ms s)))"
proof (intro conjI allI impI)
  fix n R
  assume r: "0 < ans_ret (answer_at s 0) \<and> pevents (backend (rl s)) = Some n \<and> length R \<le> n \<and>
    ans_ret (answer_at s 0) = int (length R) \<and> ans_epoll (answer_at s 0) = as_reports R \<and> snd ` set R \<subseteq> set Fs"
  note v = ep_views [of "waited ms s" s, simplified] epoll_views(3) [of "waited ms s" s, simplified]
  have "\<forall>(ev, a) \<in> set R. file_src (waited ms s) a"
    using r epoll_tracksD(2) [OF assms(1)] by (fastforce simp: v)
  note l = epoll_post_loop_ok [OF this waited_evts_inv [OF assms(2)]]
  have "gwrl_bkd_gather_epoll s = epoll_post_loop (length R) (as_reports R) (waited ms s)"
    using gather_epoll_cases(3) [OF assms(3), of n] r by auto
  with l show "\<exists>s' N C'. gwrl_bkd_gather_epoll s = Some s' \<and> evt_frame (waited ms s) s' \<and> evts_inv s' (rev N @ E) C' \<and>
      map (\<lambda>e. map_option evt_core (evts s' e)) N = map (ep_evt s) (filter (\<lambda>r. ep_flags s r \<noteq> 0) R) \<and>
      (\<forall>e \<in> set E. evts s' e = evts s e)"
    by (simp add: v)
qed (rule gather_epoll_cases(1,2) [OF assms(3)]; assumption)+

text \<open>
  C4: the two backends gather the same events. Given the same registered sources, when the
  system finds the same descriptors readable and writable, the epoll backend posts exactly
  the events the select backend posts (the same source, callback, user data, descriptor
  and flags, each as often), though in the order of the kernel's report. The interest the
  kernel holds must be that of the enabled sources only.
\<close>
theorem epoll_select_same_events:
  assumes "srcs_inv s Fs Ts" "select_tracks s (set Fs)" "evts_inv s E C"
    and "epoll_tracks t (set Fs)" "evts_inv t D B" "srcs t = srcs s"
    and "\<forall>a \<in> set Fs. held t (src_fd t a) \<noteq> None \<longrightarrow> flisset (src_fl t a) GWRL_ENABLED"
    and "select_says s rd wr (answer_at s 0)" "epoll_says t rd wr (answer_at t 0)"
    and "epoll_timeout t \<noteq> None" "pevents (backend (rl t)) = Some n" "ans_ret (answer_at t 0) \<le> int n"
  shows "\<exists>s' t' M N C' B'. gwrl_bkd_gather_select s = Some s' \<and> gwrl_bkd_gather_epoll t = Some t' \<and>
    evts_inv s' (rev M @ E) C' \<and> evts_inv t' (rev N @ D) B' \<and>
    mset (map (\<lambda>e. map_option evt_core (evts s' e)) M) = mset (map (\<lambda>e. map_option evt_core (evts t' e)) N)"
proof -
  obtain s' M C' where s': "gwrl_bkd_gather_select s = Some s'" "evts_inv s' (rev M @ E) C'"
    "map (\<lambda>e. map_option evt_core (evts s' e)) M = map (due_evt rd wr s) (due_srcs rd wr s Fs)"
    using assms(1-3,8) by (rule select_gathers_due)
  obtain ms where "epoll_timeout t = Some ms" using assms(10) by blast
  from epoll_gathers_due [OF assms(4) srcs_inv_distinct(1) [OF assms(1)] assms(5,9) this assms(11,12,7)]
  obtain t' N B' where t': "gwrl_bkd_gather_epoll t = Some t'" "evts_inv t' (rev N @ D) B'"
    "mset (map (\<lambda>e. map_option evt_core (evts t' e)) N) = mset (map (due_evt rd wr t) (due_srcs rd wr t Fs))"
    by blast
  have v: "src_fd t a = src_fd s a" "src_fl t a = src_fl s a" for a
    using assms(6) by (simp_all add: src_fd_def src_fl_def)
  have "due_evt rd wr t = due_evt rd wr s" "due_srcs rd wr t Fs = due_srcs rd wr s Fs"
    using assms(6) by (simp_all add: fun_eq_iff due_evt_def due_srcs_def due_flags_def v)
  with s' t' show ?thesis by (metis (no_types))
qed

text \<open>
  changing the flags of a disabled source does not register it. The kernel has no entry
  to modify, so the source is not waited for afterwards, even when the new flags say that
  it is enabled.
\<close>
theorem epoll_update_disabled_unwatched:
  assumes "srcs_inv s Fs Ts" "a \<in> set Fs" "epoll_tracks s (set Fs)"
  shows "\<exists>t u. gwrl_src_disable epoll_ops (Some a) s = Some t \<and>
    gwrl_src_file_update_flags_epoll (Some a) fl t = Some u \<and> src_fl u a = fl \<and>
    held u (src_fd s a) = None"
proof -
  let ?t = "mod_src (src_flclr GWRL_ENABLED) a s"
  obtain oa where oa: "srcs s a = Some oa" "src_type oa = 0" using srcs_invD(5) [OF assms(1,2)] by (auto simp: file_src_iff)
  have g: "src_part (src_flclr k o1) = src_part o1" "src_type (src_flclr k o1) = src_type o1" for k o1
    by (simp_all add: src_flclr_def)
  note v = flags_views [where g = "src_flclr GWRL_ENABLED" and a = a and s = s, OF g]
  have "file_src ?t a" using srcs_invD(5) [OF assms(1,2)] v(2) by simp
  then obtain t where t: "gwrl_bkd_epoll_ctl (Some a) EPOLL_CTL_DEL ?t = Some t" "srcs t = srcs ?t"
    "held t = ctl_effect EPOLL_CTL_DEL (src_fd ?t a) (epoll_events (src_fl ?t a), Some a) (held ?t)"
    by (rule epoll_ctl_ok)
  have d: "gwrl_src_disable epoll_ops (Some a) s = Some t"
    using t(1) oa by (simp add: gwrl_src_disable_def mod_src_def epoll_ops_def gwrl_bkd_disable_src_epoll_def
        src_flclr_def src_type_defs)
  let ?u = "mod_src (\<lambda>o1. o1\<lparr>src_flags := fl\<rparr>) a t"
  have "file_src ?u a" "src_fd ?u a = src_fd s a"
    using \<open>file_src ?t a\<close> v(1) flags_views(1,2) [where g = "\<lambda>o1. o1\<lparr>src_flags := fl\<rparr>" and a = a and s = t]
      epoll_views [OF t(2)] by simp_all
  then obtain u where u: "gwrl_bkd_epoll_ctl (Some a) EPOLL_CTL_MOD ?u = Some u" "srcs u = srcs ?u"
    "held u = ctl_effect EPOLL_CTL_MOD (src_fd s a) (epoll_events (src_fl ?u a), Some a) (held ?u)"
    by (metis epoll_ctl_ok)
  have "held ?u = held t" by (simp add: mod_src_def)
  then have "held u (src_fd s a) = None" using u(3) t(3) v(1) by (simp add: ctl_effect_def)
  moreover have "gwrl_src_file_update_flags_epoll (Some a) fl t = Some u"
    using u(1) t(2) oa by (simp add: gwrl_src_file_update_flags_epoll_def mod_src_def fun_upd_def)
  moreover have "src_fl u a = fl" using u(2) t(2) oa by (simp add: mod_src_def src_fl_def)
  ultimately show ?thesis using d by blast
qed

lemma set_options_epoll_cases:
  assumes "m = (if gwrl_epoll_event_count opts > uint (maxnpevents (backend (rl s)))
      then word_of_int (gwrl_epoll_event_count opts) else maxnpevents (backend (rl s)))"
  shows "m = 0 \<Longrightarrow> gwrl_bkd_set_options_epoll opts s = None"
    and "m \<noteq> 0 \<Longrightarrow> \<exists>s'. gwrl_bkd_set_options_epoll opts s = Some s' \<and>
      maxnpevents (backend (rl s')) = m \<and> pevents (backend (rl s')) = Some (unat m)"
proof -
  let ?b = "if gwrl_epoll_event_count opts > uint (maxnpevents (backend (rl s)))
      then (backend (rl s))\<lparr>maxnpevents := word_of_int (gwrl_epoll_event_count opts)\<rparr> else backend (rl s)"
  let ?s = "s\<lparr>rl := (rl s)\<lparr>backend := ?b\<rparr>\<rparr>"
  have b: "maxnpevents ?b = m" using assms by simp
  have e: "gwrl_bkd_set_options_epoll opts s = (if maxnpevents ?b = 0 then None else do {
      (_, s) \<leftarrow> calloc_msg ''3RPcV'' ?s;
      Some (s\<lparr>rl := (rl s)\<lparr>backend := (backend (rl s))\<lparr>pevents := Some (unat (maxnpevents ?b))\<rparr>\<rparr>\<rparr>) })"
    by (simp only: gwrl_bkd_set_options_epoll_def Let_def)
  show "gwrl_bkd_set_options_epoll opts s = None" if "m = 0" using e b that by simp
  obtain x t where "calloc_msg ''3RPcV'' ?s = Some (x, t)" "rl t = rl ?s"
    by (rule calloc_msg_ok [of "''3RPcV''" ?s]) simp
  then show "\<exists>s'. gwrl_bkd_set_options_epoll opts s = Some s' \<and>
      maxnpevents (backend (rl s')) = m \<and> pevents (backend (rl s')) = Some (unat m)" if "m \<noteq> 0"
    using that unfolding e b by (simp add: b)
qed

text \<open>
  the size of the event array is a 16-bit number. Asking for more entries than there are
  gives the requested number modulo 65536, which may be fewer, and never returns when that
  is zero; asking for fewer changes nothing.
\<close>
theorem epoll_event_count_wraps:
  assumes "maxnpevents (backend (rl s)) \<noteq> 0" "gwrl_epoll_event_count opts = n"
  shows "if n \<le> uint (maxnpevents (backend (rl s)))
    then \<exists>s'. gwrl_bkd_set_options_epoll opts s = Some s' \<and>
      maxnpevents (backend (rl s')) = maxnpevents (backend (rl s)) \<and>
      pevents (backend (rl s')) = Some (unat (maxnpevents (backend (rl s))))
    else if n mod 65536 = 0 then gwrl_bkd_set_options_epoll opts s = None
    else \<exists>s'. gwrl_bkd_set_options_epoll opts s = Some s' \<and>
      uint (maxnpevents (backend (rl s'))) = n mod 65536 \<and>
      pevents (backend (rl s')) = Some (nat (n mod 65536))"
proof -
  have u: "uint (word_of_int n :: 16 word) = n mod 65536" by (simp add: uint_word_of_int)
  have z: "(word_of_int n :: 16 word) = 0 \<longleftrightarrow> n mod 65536 = 0" by (simp flip: u add: uint_0_iff)
  have un: "unat (word_of_int n :: 16 word) = nat (n mod 65536)" by (simp only: unat_eq_nat_uint u)
  show ?thesis
  proof (cases "n \<le> uint (maxnpevents (backend (rl s)))")
    case True
    then show ?thesis
      using set_options_epoll_cases(2) [where m = "maxnpevents (backend (rl s))" and opts = opts and s = s] assms by simp
  next
    case False
    show ?thesis
    proof (cases "n mod 65536 = 0")
      case True
      then show ?thesis
        using False set_options_epoll_cases(1) [where m = "word_of_int n" and opts = opts and s = s] assms(2) z by simp
    next
      case nz: False
      have "(word_of_int n :: 16 word) \<noteq> 0" using nz z by blast
      then obtain s' where "gwrl_bkd_set_options_epoll opts s = Some s'"
        "maxnpevents (backend (rl s')) = word_of_int n" "pevents (backend (rl s')) = Some (unat (word_of_int n :: 16 word))"
        using set_options_epoll_cases(2) [where m = "word_of_int n" and opts = opts and s = s] assms(2) False by auto
      then show ?thesis using False nz u un by auto
    qed
  qed
qed

subsection \<open>Instances\<close>

text \<open>
  The sources of \<open>select_world\<close> on an epoll descriptor 9 that holds the two registered ones;
  \<^verbatim>\<open>epoll_wait\<close> reports both, the later one first.
\<close>

definition epoll_world :: "gwrlbkd_epoll world" where
  "epoll_world = (blank_world undefined)\<lparr>
     srcs := srcs select_world,
     brk := 14,
     rl := (zero_gwrl \<lparr>efd = 9, maxnpevents = 64, pevents = Some 64\<rparr>)\<lparr>sources := [Some 11, None]\<rparr>,
     calls := [Sys_epoll_ctl 9 EPOLL_CTL_ADD 5 (epoll_events (GWRL_ENABLED OR GWRL_WR)) (Some 12),
               Sys_epoll_ctl 9 EPOLL_CTL_ADD 3 (epoll_events (GWRL_ENABLED OR GWRL_RD)) (Some 11)],
     answers := (\<lambda>n. (ok_answer 2)\<lparr>ans_epoll := [(EPOLLOUT, Some 12), (EPOLLIN, Some 11)]\<rparr>)\<rparr>"

lemma epoll_world_srcs:
  "srcs epoll_world = srcs select_world"
  "src_fd epoll_world a = src_fd select_world a" "src_fl epoll_world a = src_fl select_world a"
  "file_src epoll_world a = file_src select_world a"
  by (simp_all add: epoll_world_def src_fd_def src_fl_def file_src_iff)

lemma epoll_world_held:
  "held epoll_world = [3 \<mapsto> (epoll_events (GWRL_ENABLED OR GWRL_RD), Some 11),
     5 \<mapsto> (epoll_events (GWRL_ENABLED OR GWRL_WR), Some 12)]"
  by (simp add: epoll_world_def ctl_effect_def zero_gwrl_def)

lemma epoll_world_ok:
  "srcs_inv epoll_world [11, 12] []" "epoll_tracks epoll_world {11, 12}" "evts_inv epoll_world [] []"
proof -
  show "srcs_inv epoll_world [11, 12] []"
    using select_world_srcs epoll_world_srcs
    by (auto simp: srcs_inv_def src_type_defs src_nx_iff fresh_ok_def)
      (simp_all add: epoll_world_def select_world_def file_src_on_def blank_world_def zero_gwrl_def)
  show "epoll_tracks epoll_world {11, 12}"
    by (rule epoll_tracksI) (auto simp: epoll_world_srcs select_world_srcs epoll_world_held)
  show "evts_inv epoll_world [] []"
    by (simp add: evts_inv_def cache_ok_def fresh_ok_def epoll_world_def select_world_def blank_world_def zero_gwrl_def)
qed

lemma epoll_world_timeout: "epoll_timeout epoll_world = Some 0"
  by (simp add: epoll_timeout_def epoll_world_def zero_gwrl_def no_time_def gwtm_timespec_to_ms_def)

lemma epoll_world_answer:
  "answer_at epoll_world 0 = (ok_answer 2)\<lparr>ans_epoll := [(EPOLLOUT, Some 12), (EPOLLIN, Some 11)]\<rparr>"
  "pevents (backend (rl epoll_world)) = Some 64"
  by (simp_all add: answer_at_def epoll_world_def zero_gwrl_def)

lemma flisset_epoll_bits [flag_simps]:
  "flisset EPOLLIN EPOLLIN" "flisset EPOLLOUT EPOLLOUT" "\<not> flisset EPOLLIN EPOLLOUT" "\<not> flisset EPOLLOUT EPOLLIN"
  by (simp_all add: EPOLLIN_def EPOLLOUT_def flisset_def)

theorem epoll_sources_tracked_witness:
  "\<exists>s'. gwrl_src_del epoll_ops (Some 11) None True epoll_world = Some s' \<and> srcs_inv s' [12] [] \<and>
    epoll_tracks s' {12} \<and> srcs s' 11 = None"
  using epoll_sources_tracked [of epoll_world "[]" 11 "[12]" "[]" 13 None "GWRL_ENABLED OR GWRL_WR" True]
    epoll_world_ok select_world_srcs epoll_world_srcs
  by (simp add: src_nx_srcs flag_simps bit_or_iff) (simp add: select_world_def file_src_on_def)

theorem epoll_gather_posts_witness:
  "\<exists>s' N C'. gwrl_bkd_gather_epoll epoll_world = Some s' \<and> evts_inv s' (rev N) C' \<and>
    map (\<lambda>e. map_option evt_core (evts s' e)) N =
      [Some (new_evt (Some 12) (Some (Fn_user 1)) None 5 GWRL_WR None),
       Some (new_evt (Some 11) (Some (Fn_user 1)) None 3 GWRL_RD None)]"
proof -
  let ?R = "[(EPOLLOUT, 12), (EPOLLIN, 11)] :: (flags32 \<times> addr) list"
  have fl: "ep_flags epoll_world (EPOLLOUT, 12) = GWRL_WR" "ep_flags epoll_world (EPOLLIN, 11) = GWRL_RD"
    by (simp_all add: ep_flags_def epoll_world_srcs select_world_srcs flag_simps bit_or_iff)
  have c: "map (ep_evt epoll_world) (filter (\<lambda>r. ep_flags epoll_world r \<noteq> 0) ?R) =
      [Some (new_evt (Some 12) (Some (Fn_user 1)) None 5 GWRL_WR None),
       Some (new_evt (Some 11) (Some (Fn_user 1)) None 3 GWRL_RD None)]"
    by (simp add: fl ep_evt_def epoll_world_srcs select_world_srcs)
       (simp add: select_world_def file_src_on_def flag_defs)
  have "0 < ans_ret (answer_at epoll_world 0) \<and> pevents (backend (rl epoll_world)) = Some 64 \<and>
      length ?R \<le> 64 \<and> ans_ret (answer_at epoll_world 0) = int (length ?R) \<and>
      ans_epoll (answer_at epoll_world 0) = as_reports ?R \<and> snd ` set ?R \<subseteq> set [11, 12]"
    by (simp add: epoll_world_answer ok_answer_def)
  moreover have "epoll_tracks epoll_world (set [11, 12])" using epoll_world_ok(2) by simp
  note epoll_gather_posts [OF this epoll_world_ok(3) epoll_world_timeout, THEN conjunct1, THEN spec, THEN spec, of 64 ?R]
  ultimately obtain s' N C' where "gwrl_bkd_gather_epoll epoll_world = Some s'" "evts_inv s' (rev N @ []) C'"
    "map (\<lambda>e. map_option evt_core (evts s' e)) N = map (ep_evt epoll_world) (filter (\<lambda>r. ep_flags epoll_world r \<noteq> 0) ?R)"
    by blast
  then show ?thesis using c by (intro exI [of _ s'] exI [of _ N] exI [of _ C']) simp
qed

text \<open>The same sources when \<^verbatim>\<open>select\<close> and \<^verbatim>\<open>epoll_wait\<close> find 3 readable and 5 writable.\<close>

theorem epoll_select_same_events_witness:
  "\<exists>s' t' M N C' B'. gwrl_bkd_gather_select select_world = Some s' \<and> gwrl_bkd_gather_epoll epoll_world = Some t' \<and>
    evts_inv s' (rev M @ []) C' \<and> evts_inv t' (rev N @ []) B' \<and>
    mset (map (\<lambda>e. map_option evt_core (evts s' e)) M) = mset (map (\<lambda>e. map_option evt_core (evts t' e)) N)"
proof (rule epoll_select_same_events [where Fs = "[11, 12]" and Ts = "[]" and n = 64
      and rd = "\<lambda>fd. fd = 3" and wr = "\<lambda>fd. fd = 5"])
  show "select_says select_world (\<lambda>fd. fd = 3) (\<lambda>fd. fd = 5) (answer_at select_world 0)"
    by (auto simp: select_says_def answer_at_def select_world_def zero_gwrl_def ok_answer_def fun_eq_iff)
  show "epoll_says epoll_world (\<lambda>fd. fd = 3) (\<lambda>fd. fd = 5) (answer_at epoll_world 0)"
    by (simp add: epoll_says_def epoll_world_answer ok_answer_def epoll_world_held)
       (auto simp: flag_simps bit_or_iff intro: exI [of _ 5] split: if_splits)
qed (use select_world_ok epoll_world_ok in \<open>simp_all add: epoll_world_srcs select_world_srcs epoll_world_answer
    epoll_world_timeout ok_answer_def flag_simps bit_or_iff\<close>)

theorem epoll_update_disabled_unwatched_witness:
  "\<exists>t u. gwrl_src_disable epoll_ops (Some 11) epoll_world = Some t \<and>
    gwrl_src_file_update_flags_epoll (Some 11) (GWRL_ENABLED OR GWRL_RD) t = Some u \<and>
    src_fl u 11 = GWRL_ENABLED OR GWRL_RD \<and> held u 3 = None"
  using epoll_update_disabled_unwatched [OF epoll_world_ok(1), of 11 "GWRL_ENABLED OR GWRL_RD"] epoll_world_ok(2)
  by (simp add: epoll_world_srcs select_world_srcs)

theorem epoll_event_count_wraps_witness:
  "gwrl_bkd_set_options_epoll (GWRL_DEFAULT_OPTIONS\<lparr>gwrl_epoll_event_count := 65536\<rparr>) epoll_world = None \<and>
   (\<exists>s'. gwrl_bkd_set_options_epoll (GWRL_DEFAULT_OPTIONS\<lparr>gwrl_epoll_event_count := 65540\<rparr>) epoll_world = Some s' \<and>
     pevents (backend (rl s')) = Some 4)"
  using epoll_event_count_wraps [of epoll_world "GWRL_DEFAULT_OPTIONS\<lparr>gwrl_epoll_event_count := 65536\<rparr>" 65536]
    epoll_event_count_wraps [of epoll_world "GWRL_DEFAULT_OPTIONS\<lparr>gwrl_epoll_event_count := 65540\<rparr>" 65540]
  by (auto simp: epoll_world_def zero_gwrl_def GWRL_DEFAULT_OPTIONS_def)

end
