(* ===== verification/Gw_Poll.thy ===== *)
theory Gw_Poll
  imports Gw_Epoll
begin

section \<open>The poll backend (\<^verbatim>\<open>src/gwrl/event_poll.c\<close>)\<close>

text \<open>
  The backend keeps the array of \<^verbatim>\<open>struct pollfd\<close> that it passes to \<^verbatim>\<open>poll\<close>, whose first
  \<open>nfds\<close> entries are in use, and an array that leads from a descriptor back to its source.
  The names of the functions that every backend defines carry the suffix \<open>_poll\<close>. Array
  accesses out of range have no result; pointers and \<^verbatim>\<open>struct pollfd\<close> have 8 bytes.
\<close>

definition POLLIN :: flags16 where "POLLIN = 2 ^ 0"
definition POLLOUT :: flags16 where "POLLOUT = 2 ^ 2"
definition POLLERR :: flags16 where "POLLERR = 2 ^ 3"
definition POLLHUP :: flags16 where "POLLHUP = 2 ^ 4"
definition POLLNVAL :: flags16 where "POLLNVAL = 2 ^ 5"

definition GWRL_POLLFD_COUNT :: nat where "GWRL_POLLFD_COUNT = 64"

text \<open>The events of an entry that \<^verbatim>\<open>realloc\<close> has added are indeterminate: \<open>None\<close>.\<close>

record pollfd =
  pfd_fd :: int
  pfd_events :: "flags16 option"
  pfd_revents :: flags16

definition zero_pollfd :: pollfd where
  "zero_pollfd = \<lparr>pfd_fd = 0, pfd_events = Some 0, pfd_revents = 0\<rparr>"

definition raw_pollfd :: pollfd where
  "raw_pollfd = \<lparr>pfd_fd = 0, pfd_events = None, pfd_revents = 0\<rparr>"

text \<open>
  \<open>fds_at\<close> is the address of the array \<open>pfds\<close>; \<open>lkp_src\<close> is null or the array of the lookup,
  whose entries are indeterminate (\<open>None\<close>) or pointers.
\<close>

record gwrlbkd_poll =
  nfds :: "16 word"
  maxnfds :: "16 word"
  lkp_maxfd :: int
  lkp_src :: "ptr option list option"
  fds_at :: addr
  pfds :: "pollfd list"

type_synonym 'z lworld = "(gwrlbkd_poll, 'z) world_scheme"

definition upd_bkd :: "('b \<Rightarrow> 'b) \<Rightarrow> ('b, 'z) world_scheme \<Rightarrow> ('b, 'z) world_scheme" where
  "upd_bkd f s = s\<lparr>rl := (rl s)\<lparr>backend := f (backend (rl s))\<rparr>\<rparr>"

text \<open>A reallocated array: what fits is kept, what is new is indeterminate.\<close>

definition resize :: "nat \<Rightarrow> 'a \<Rightarrow> 'a list \<Rightarrow> 'a list" where
  "resize n x xs = take n xs @ replicate (n - length xs) x"

definition upd_pfd :: "nat \<Rightarrow> (pollfd \<Rightarrow> pollfd) \<Rightarrow> 'z lworld \<Rightarrow> 'z lworld option" where
  "upd_pfd i f s = do {
     e \<leftarrow> nth_opt (pfds (backend (rl s))) i;
     Some (upd_bkd (\<lambda>b. b\<lparr>pfds := (pfds b)[i := f e]\<rparr>) s) }"

definition set_lkp :: "int \<Rightarrow> ptr \<Rightarrow> 'z lworld \<Rightarrow> 'z lworld option" where
  "set_lkp fd p s = do {
     l \<leftarrow> lkp_src (backend (rl s));
     if 0 \<le> fd \<and> nat fd < length l
     then Some (upd_bkd (\<lambda>b. b\<lparr>lkp_src := Some (l[nat fd := Some p])\<rparr>) s) else None }"

definition get_lkp :: "int \<Rightarrow> 'z lworld \<Rightarrow> ptr option" where
  "get_lkp fd s = do {
     l \<leftarrow> lkp_src (backend (rl s));
     if 0 \<le> fd \<and> nat fd < length l then l ! nat fd else None }"

definition set_pfd :: "(addr \<times> nat) option \<Rightarrow> gwrlsrc \<Rightarrow> gwrlsrc" where
  "set_pfd p o1 = (case src_part o1 of
     File_part f \<Rightarrow> o1\<lparr>src_part := File_part (f\<lparr>file_pfd := p\<rparr>)\<rparr> | Time_part _ \<Rightarrow> o1)"

text \<open>\<^verbatim>\<open>events |= ...\<close> for the interest: an indeterminate value stays indeterminate.\<close>

definition add_interest_bits :: "flags8 \<Rightarrow> pollfd \<Rightarrow> pollfd" where
  "add_interest_bits fl e =
     (let e = (if fl AND GWRL_RD \<noteq> 0 then e\<lparr>pfd_events := map_option (\<lambda>x. x OR POLLIN) (pfd_events e)\<rparr> else e)
      in if fl AND GWRL_WR \<noteq> 0 then e\<lparr>pfd_events := map_option (\<lambda>x. x OR POLLOUT) (pfd_events e)\<rparr> else e)"

subsection \<open>Creation and options\<close>

definition gwrl_bkd_init_poll :: "'z lworld \<Rightarrow> gwrlbkd_poll option \<times> 'z lworld" where
  "gwrl_bkd_init_poll s =
     (case calloc s of
        (None, s) \<Rightarrow> (None, gwerr ''pe1Ij'' s)
      | (Some _, s) \<Rightarrow>
          (case calloc s of
             (None, s) \<Rightarrow> (None, gwerr ''poEi4'' s)
           | (Some a, s) \<Rightarrow>
               (Some \<lparr>nfds = 0, maxnfds = of_nat GWRL_POLLFD_COUNT, lkp_maxfd = -1, lkp_src = None,
                  fds_at = a, pfds = replicate GWRL_POLLFD_COUNT zero_pollfd\<rparr>,
                s\<lparr>rl := (rl s)\<lparr>options := (options (rl s))\<lparr>gwrl_pollfd_count := int GWRL_POLLFD_COUNT\<rparr>\<rparr>\<rparr>)))"

text \<open>
  The array of \<open>maxnfds + diff\<close> entries, with a negative \<open>diff\<close>; when \<^verbatim>\<open>realloc\<close> fails, the
  size of the further attempts is \<open>8 * maxnfds + diff\<close> bytes. A negative size converts to one
  that is never there; \<^verbatim>\<open>realloc\<close> to zero bytes frees the array.
\<close>

definition gwrl_bkd_set_options_poll :: "gwrl_options \<Rightarrow> 'z lworld \<Rightarrow> 'z lworld option" where
  "gwrl_bkd_set_options_poll opts s =
     (if gwrl_pollfd_count opts > gwrl_pollfd_count (options (rl s)) then
        (let diff = gwrl_pollfd_count (options (rl s)) - gwrl_pollfd_count opts;
             n = uint (maxnfds (backend (rl s))) + diff;
             bytes = 8 * uint (maxnfds (backend (rl s))) + diff
         in if diff < - (2 ^ 31) \<or> n = 0 then None
            else do {
              (a, k, s) \<leftarrow>
                (case if n < 0 then (None, s) else calloc s of
                   (Some a, s) \<Rightarrow> Some (a, nat n, s)
                 | (None, s) \<Rightarrow>
                     if bytes \<le> 0 then None
                     else do {
                       (a, s) \<leftarrow> calloc_msg ''6FB3D'' (gwerr ''6FB3D'' s);
                       Some (a, nat (bytes div 8), s) });
              let s = upd_bkd (\<lambda>b. b\<lparr>fds_at := a, pfds := resize k raw_pollfd (pfds b)\<rparr>) s;
              Some (s\<lparr>rl := (rl s)\<lparr>options := (options (rl s))\<lparr>gwrl_pollfd_count := gwrl_pollfd_count opts\<rparr>\<rparr>\<rparr>) })
      else Some s)"

subsection \<open>Operations on sources\<close>

text \<open>Writing through \<^verbatim>\<open>fsrc->pfd\<close>: a pointer into an array that was reallocated is dangling.\<close>

definition gwrl_src_file_update_flags_poll :: "ptr \<Rightarrow> flags8 \<Rightarrow> 'z lworld \<Rightarrow> 'z lworld option" where
  "gwrl_src_file_update_flags_poll src flags s = do {
     o1 \<leftarrow> get_src src s;
     f \<leftarrow> as_file o1;
     (a, i) \<leftarrow> file_pfd f;
     s \<leftarrow> (if a = fds_at (backend (rl s))
          then upd_pfd i (\<lambda>e. add_interest_bits flags (e\<lparr>pfd_events := Some 0\<rparr>)) s else None);
     upd_src (\<lambda>o1. o1\<lparr>src_flags := flags\<rparr>) src s }"

text \<open>The loop of \<^verbatim>\<open>gwrl_bkd_recalc_srcs\<close>; \<open>i\<close> is the index of the entry \<^verbatim>\<open>pfd\<close> points to.\<close>

partial_function (option) poll_recalc_loop :: "ptr \<Rightarrow> nat \<Rightarrow> 'z lworld \<Rightarrow> 'z lworld option" where
  [code]: "poll_recalc_loop p i s =
     (if p = None then Some s
      else do {
        o1 \<leftarrow> get_src p s;
        if \<not> flisset (src_flags o1) GWRL_ENABLED then poll_recalc_loop (src_next o1) i s
        else do {
          f \<leftarrow> as_file o1;
          let s = upd_bkd (\<lambda>b. b\<lparr>nfds := nfds b + 1\<rparr>) s;
          s \<leftarrow> upd_pfd i (\<lambda>e. add_interest_bits (src_flags o1) (e\<lparr>pfd_fd := file_fd f\<rparr>)) s;
          s \<leftarrow> upd_src (set_pfd (Some (fds_at (backend (rl s)), i))) p s;
          poll_recalc_loop (src_next o1) (Suc i) s } })"

definition gwrl_bkd_recalc_srcs_poll :: "'z lworld \<Rightarrow> 'z lworld option" where
  "gwrl_bkd_recalc_srcs_poll s = do {
     p \<leftarrow> nth_opt (sources (rl s)) GWRL_SRC_TYPE_FILE;
     let n = unat (nfds (backend (rl s)));
     s \<leftarrow> (if n \<le> length (pfds (backend (rl s)))
          then Some (upd_bkd (\<lambda>b. b\<lparr>pfds := replicate n zero_pollfd @ drop n (pfds b), nfds := 0\<rparr>) s) else None);
     poll_recalc_loop p 0 s }"

definition gwrl_bkd_del_src_poll :: "ptr \<Rightarrow> 'z lworld \<Rightarrow> 'z lworld option" where
  "gwrl_bkd_del_src_poll src s = do {
     o1 \<leftarrow> get_src src s;
     f \<leftarrow> as_file o1;
     s \<leftarrow> upd_src (set_pfd None) src s;
     s \<leftarrow> set_lkp (file_fd f) None s;
     gwrl_bkd_recalc_srcs_poll s }"

definition gwrl_bkd_enable_src_poll :: "ptr \<Rightarrow> 'z lworld \<Rightarrow> 'z lworld option" where
  "gwrl_bkd_enable_src_poll src s = do {
     s \<leftarrow> upd_src (src_flset GWRL_ENABLED) src s;
     gwrl_bkd_recalc_srcs_poll s }"

definition gwrl_bkd_disable_src_poll :: "ptr \<Rightarrow> 'z lworld \<Rightarrow> 'z lworld option" where
  "gwrl_bkd_disable_src_poll src s = do {
     s \<leftarrow> upd_src (src_flclr GWRL_ENABLED) src s;
     gwrl_bkd_recalc_srcs_poll s }"

text \<open>The array grown by \<^verbatim>\<open>options.gwrl_pollfd_count\<close> entries when it is full; it may move.\<close>

definition grow_pfds :: "'z lworld \<Rightarrow> 'z lworld option" where
  "grow_pfds s =
     (if nfds (backend (rl s)) = maxnfds (backend (rl s)) then
        (let m = maxnfds (backend (rl s)) + word_of_int (gwrl_pollfd_count (options (rl s)));
             s = upd_bkd (\<lambda>b. b\<lparr>maxnfds := m\<rparr>) s
         in if m = 0 then None
            else do {
              (a, s) \<leftarrow> calloc_msg ''3l8FG'' s;
              Some (upd_bkd (\<lambda>b. b\<lparr>fds_at := a, pfds := resize (unat m) raw_pollfd (pfds b)\<rparr>) s) })
      else Some s)"

text \<open>
  The lookup grown for the descriptor \<open>fd\<close>. The size of the reallocated array,
  \<^verbatim>\<open>sizeof(struct pollfd) * pbkd->lkp_maxfd+1\<close>, is \<open>8 * fd + 1\<close> bytes.
\<close>

definition grow_lkp :: "int \<Rightarrow> 'z lworld \<Rightarrow> 'z lworld option" where
  "grow_lkp fd s =
     (if fd > lkp_maxfd (backend (rl s)) then
        (let s = upd_bkd (\<lambda>b. b\<lparr>lkp_maxfd := fd\<rparr>) s in
         case lkp_src (backend (rl s)) of
           Some l \<Rightarrow> do {
             (_, s) \<leftarrow> calloc_msg ''3lUv4'' s;
             Some (upd_bkd (\<lambda>b. b\<lparr>lkp_src := Some (resize (nat ((8 * fd + 1) div 8)) None l)\<rparr>) s) }
         | None \<Rightarrow> do {
             (_, s) \<leftarrow> calloc_msg ''4kKeR'' s;
             Some (upd_bkd (\<lambda>b. b\<lparr>lkp_src := Some (replicate (nat (fd + 1)) (Some None))\<rparr>) s) })
      else Some s)"

definition gwrl_bkd_src_add_poll :: "ptr \<Rightarrow> 'z lworld \<Rightarrow> 'z lworld option" where
  "gwrl_bkd_src_add_poll src s = do {
     o1 \<leftarrow> get_src src s;
     f \<leftarrow> as_file o1;
     s \<leftarrow> grow_pfds s;
     let i = unat (nfds (backend (rl s)));
     s \<leftarrow> upd_src (set_pfd (Some (fds_at (backend (rl s)), i))) src s;
     let s = upd_bkd (\<lambda>b. b\<lparr>nfds := nfds b + 1\<rparr>) s;
     s \<leftarrow> upd_pfd i (\<lambda>e. add_interest_bits (src_flags o1) (e\<lparr>pfd_fd := file_fd f, pfd_revents := 0\<rparr>)) s;
     s \<leftarrow> grow_lkp (file_fd f) s;
     set_lkp (file_fd f) src s }"

definition poll_ops :: "'z lworld src_ops" where
  "poll_ops = \<lparr>op_src_add = gwrl_bkd_src_add_poll, op_del_src = gwrl_bkd_del_src_poll,
     op_enable_src = gwrl_bkd_enable_src_poll, op_disable_src = gwrl_bkd_disable_src_poll,
     op_update_flags = gwrl_src_file_update_flags_poll\<rparr>"

subsection \<open>Gathering\<close>

definition poll_timeout :: "'z lworld \<Rightarrow> int option" where
  "poll_timeout s = do {
     ms \<leftarrow> (if timeout (rl s) = no_time then Some (-1) else gwtm_timespec_to_ms (timeout (rl s)));
     Some (if ms < 0 \<and> flisset (rl_flags (rl s)) GWRL_NOSLEEP then 0 else ms) }"

text \<open>
  The flags of the entry \<open>i\<close>; a bad descriptor disables its source first, which clears and
  refills the array, and the later tests read the entry again.
\<close>

definition poll_new_flags :: "nat \<Rightarrow> ptr \<Rightarrow> 'z lworld \<Rightarrow> (flags8 \<times> 'z lworld) option" where
  "poll_new_flags i src s = do {
     e \<leftarrow> nth_opt (pfds (backend (rl s))) i;
     (fl, s) \<leftarrow> (if pfd_revents e AND POLLNVAL \<noteq> 0
        then do { s \<leftarrow> gwrl_src_disable poll_ops src s; Some (flset 0 GWRL_RD, s) } else Some (0, s));
     e \<leftarrow> nth_opt (pfds (backend (rl s))) i;
     let fl = (if pfd_revents e AND POLLHUP \<noteq> 0 then flset fl GWRL_RD else fl);
     let fl = (if pfd_revents e AND POLLERR \<noteq> 0 then flset fl GWRL_RD else fl);
     let fl = (if pfd_revents e AND POLLIN \<noteq> 0 then flset fl GWRL_RD else fl);
     let fl = (if pfd_revents e AND POLLOUT \<noteq> 0 then flset fl GWRL_WR else fl);
     Some (fl, s) }"

partial_function (option) poll_post_loop :: "16 word \<Rightarrow> 'z lworld \<Rightarrow> 'z lworld option" where
  [code]: "poll_post_loop i s =
     (if i < nfds (backend (rl s)) then do {
        e \<leftarrow> nth_opt (pfds (backend (rl s))) (unat i);
        src \<leftarrow> get_lkp (pfd_fd e) s;
        o1 \<leftarrow> get_src src s;
        if \<not> flisset (src_flags o1) GWRL_ENABLED then poll_post_loop (i + 1) s
        else do {
          (fl, s) \<leftarrow> poll_new_flags (unat i) src s;
          o1 \<leftarrow> get_src src s;
          s \<leftarrow> (if 0 < fl then do {
                 f \<leftarrow> as_file o1;
                 (evt, s) \<leftarrow> gwrl_evt_createp src (src_callback o1) (src_userdata o1) (file_fd f) fl s;
                 gwrl_post_evt evt s }
               else Some s);
          poll_post_loop (i + 1) s } }
      else Some s)"

text \<open>What \<^verbatim>\<open>poll\<close> writes when it succeeds: the \<^verbatim>\<open>revents\<close> of the first \<open>n\<close> entries.\<close>

definition fill_revents :: "nat \<Rightarrow> flags16 list \<Rightarrow> pollfd list \<Rightarrow> pollfd list" where
  "fill_revents n rs es =
     map (\<lambda>(e, r). e\<lparr>pfd_revents := r\<rparr>) (zip (take n es) (resize n 0 rs)) @ drop n es"

text \<open>\<^verbatim>\<open>exit(-1)\<close> does not return, so it has no result.\<close>

definition gwrl_bkd_gather_poll :: "'z lworld \<Rightarrow> 'z lworld option" where
  "gwrl_bkd_gather_poll s = do {
     ms \<leftarrow> poll_timeout s;
     let s = s\<lparr>rl := (rl s)\<lparr>rl_flags := flset (rl_flags (rl s)) GWRL_SLEEPING\<rparr>\<rparr>;
     let n = unat (nfds (backend (rl s)));
     es \<leftarrow> (if n \<le> length (pfds (backend (rl s))) then Some (take n (pfds (backend (rl s)))) else None);
     let (a, s) = syscall (Sys_poll (map (\<lambda>e. (pfd_fd e, pfd_events e)) es)
                    (sint (word_of_int ms :: 32 word))) s;
     let res = ans_ret a;
     let s = (if 0 \<le> res then upd_bkd (\<lambda>b. b\<lparr>pfds := fill_revents n (ans_revents a) (pfds b)\<rparr>) s else s);
     let s = s\<lparr>rl := (rl s)\<lparr>rl_flags := flclr (rl_flags (rl s)) GWRL_SLEEPING\<rparr>\<rparr>;
     if res = 0 then Some s
     else if res < 0 \<and> (errno s = EINTR \<or> errno s = EAGAIN) then Some s
     else if res < 0 \<and> errno s = EINVAL then (if ms < -1 then Some s else None)
     else if res > 0 then poll_post_loop 0 s
     else Some s }"

subsection \<open>The table a recalculation builds\<close>

definition poll_bits :: "flags8 \<Rightarrow> flags16" where
  "poll_bits fl = (if flisset fl GWRL_RD then POLLIN else 0) OR (if flisset fl GWRL_WR then POLLOUT else 0)"

definition poll_entry :: "('b, 'z) world_scheme \<Rightarrow> addr \<Rightarrow> pollfd" where
  "poll_entry s a = \<lparr>pfd_fd = src_fd s a, pfd_events = Some (poll_bits (src_fl s a)), pfd_revents = 0\<rparr>"

definition enabled_srcs :: "('b, 'z) world_scheme \<Rightarrow> addr list \<Rightarrow> addr list" where
  "enabled_srcs s L = filter (\<lambda>a. flisset (src_fl s a) GWRL_ENABLED) L"

definition src_pfd :: "('b, 'z) world_scheme \<Rightarrow> addr \<Rightarrow> (addr \<times> nat) option" where
  "src_pfd s a = (case Option.bind (srcs s a) as_file of None \<Rightarrow> None | Some f \<Rightarrow> file_pfd f)"

text \<open>An entry out of use: nothing but the descriptor is left in it.\<close>

definition idle_pfd :: "pollfd \<Rightarrow> bool" where
  "idle_pfd e \<longleftrightarrow> pfd_events e = Some 0 \<and> pfd_revents e = 0"

lemma idle_zero [simp]: "idle_pfd zero_pollfd"
  by (simp add: idle_pfd_def zero_pollfd_def)

lemma idle_replicate [simp]: "list_all idle_pfd (replicate n zero_pollfd)"
  by (simp add: list_all_iff)

lemma list_all_drop: "list_all P xs \<Longrightarrow> list_all P (drop n xs)"
  by (auto simp: list_all_iff dest: in_set_dropD)

lemma add_interest_idle:
  "pfd_events e = Some 0 \<Longrightarrow> add_interest_bits fl e = e\<lparr>pfd_events := Some (poll_bits fl)\<rparr>"
  by (auto simp: add_interest_bits_def poll_bits_def test_flag Let_def)

lemma entry_of_idle:
  assumes "idle_pfd e" "src_fl s a = fl"
  shows "add_interest_bits fl (e\<lparr>pfd_fd := src_fd s a\<rparr>) = poll_entry s a"
  using assms by (cases e) (simp add: idle_pfd_def add_interest_idle poll_entry_def)

lemma bkd_frame_views:
  assumes "bkd_frame s s'"
  shows "src_fd s' = src_fd s" "src_fl s' = src_fl s" "poll_entry s' = poll_entry s"
    "enabled_srcs s' = enabled_srcs s"
  using bkd_frame_flags [OF assms] by (simp_all add: fun_eq_iff poll_entry_def enabled_srcs_def)

lemma upd_bkd_sel [simp]:
  "srcs (upd_bkd f s) = srcs s" "backend (rl (upd_bkd f s)) = f (backend (rl s))"
  "sources (rl (upd_bkd f s)) = sources (rl s)" "evts (upd_bkd f s) = evts s" "brk (upd_bkd f s) = brk s"
  "calls (upd_bkd f s) = calls s" "options (rl (upd_bkd f s)) = options (rl s)"
  "oom (upd_bkd f s) = oom s"
  by (simp_all add: upd_bkd_def)

lemma upd_bkd_frame: "bkd_frame s (upd_bkd f s)"
  by (simp add: bkd_frame_def upd_bkd_def)

lemma upd_bkd_views [simp]:
  "src_nx (upd_bkd f s) = src_nx s" "src_fd (upd_bkd f s) = src_fd s" "src_fl (upd_bkd f s) = src_fl s"
  "enabled_srcs (upd_bkd f s) = enabled_srcs s" "poll_entry (upd_bkd f s) = poll_entry s"
  "file_src (upd_bkd f s) a = file_src s a" "src_pfd (upd_bkd f s) = src_pfd s"
  using bkd_frame_views [OF upd_bkd_frame [of s f]] bkd_frame_kind(1,3) [OF upd_bkd_frame [of s f]]
  by (auto simp: src_pfd_def fun_eq_iff)

lemma upd_pfd_ok:
  "i < length (pfds (backend (rl s))) \<Longrightarrow>
   upd_pfd i f s = Some (upd_bkd (\<lambda>b. b\<lparr>pfds := (pfds b)[i := f (pfds b ! i)]\<rparr>) s)"
  by (simp add: upd_pfd_def nth_opt_def upd_bkd_def)

text \<open>One enabled source of the loop.\<close>

lemma poll_recalc_step:
  assumes "srcs s a = Some o1" "as_file o1 = Some f"
    and "i < length (pfds (backend (rl s)))" "idle_pfd (pfds (backend (rl s)) ! i)"
  obtains u t where
    "upd_pfd i (\<lambda>e. add_interest_bits (src_flags o1) (e\<lparr>pfd_fd := file_fd f\<rparr>))
       (upd_bkd (\<lambda>b. b\<lparr>nfds := nfds b + 1\<rparr>) s) = Some u"
    "upd_src (set_pfd (Some (fds_at (backend (rl u)), i))) (Some a) u = Some t"
    "bkd_frame s t" "srcs t = (srcs s)(a \<mapsto> set_pfd (Some (fds_at (backend (rl s)), i)) o1)"
    "backend (rl t) = (backend (rl s))\<lparr>nfds := nfds (backend (rl s)) + 1,
       pfds := (pfds (backend (rl s)))[i := poll_entry s a]\<rparr>"
proof -
  let ?b = "(backend (rl s))\<lparr>nfds := nfds (backend (rl s)) + 1, pfds := (pfds (backend (rl s)))[i := poll_entry s a]\<rparr>"
  let ?t = "s\<lparr>srcs := (srcs s)(a \<mapsto> set_pfd (Some (fds_at (backend (rl s)), i)) o1),
    rl := (rl s)\<lparr>backend := ?b\<rparr>\<rparr>"
  have f: "file_fd f = src_fd s a" "src_flags o1 = src_fl s a"
    using assms(1,2) by (simp_all add: src_fd_def src_fl_def)
  have e: "add_interest_bits (src_fl s a) ((pfds (backend (rl s)) ! i)\<lparr>pfd_fd := src_fd s a\<rparr>) = poll_entry s a"
    by (rule entry_of_idle [OF assms(4) refl])
  show thesis
    by (rule that [of "s\<lparr>rl := (rl s)\<lparr>backend := ?b\<rparr>\<rparr>" ?t])
       (use assms e f in \<open>simp_all add: upd_pfd_ok, simp_all add: upd_bkd_def bkd_frame_def src_nopfd_def
          set_pfd_def as_file_def split: src_part.splits\<close>)
qed

lemma poll_recalc_loop_ok:
  assumes "chain (src_nx s) p L" "\<forall>a \<in> set L. file_src s a" "distinct L"
    and "i + length (enabled_srcs s L) \<le> length (pfds (backend (rl s)))"
    and "list_all idle_pfd (drop i (pfds (backend (rl s))))"
  shows "\<exists>s'. poll_recalc_loop p i s = Some s' \<and> bkd_frame s s' \<and>
    backend (rl s') = (backend (rl s))\<lparr>nfds := nfds (backend (rl s)) + of_nat (length (enabled_srcs s L)),
      pfds := take i (pfds (backend (rl s))) @ map (poll_entry s) (enabled_srcs s L) @
        drop (i + length (enabled_srcs s L)) (pfds (backend (rl s)))\<rparr> \<and>
    (\<forall>j < length (enabled_srcs s L). src_pfd s' (enabled_srcs s L ! j) = Some (fds_at (backend (rl s)), i + j)) \<and>
    (\<forall>a. a \<notin> set (enabled_srcs s L) \<longrightarrow> srcs s' a = srcs s a)"
  using assms
proof (induction L arbitrary: p i s)
  case Nil
  then show ?case
    by (intro exI [of _ s]) (simp add: poll_recalc_loop.simps bkd_frame_def enabled_srcs_def)
next
  case (Cons a L)
  have fa: "file_src s a" using Cons.prems(2) by simp
  then obtain o1 f where o1: "srcs s a = Some o1" "as_file o1 = Some f" "file_fd f = src_fd s a"
    "src_flags o1 = src_fl s a" by (rule file_src_part)
  have p: "p = Some a" and ch: "chain (src_nx s) (src_next o1) L"
    using Cons.prems(1) o1(1) by (auto simp: src_nx_iff)
  show ?case
  proof (cases "flisset (src_fl s a) GWRL_ENABLED")
    case False
    have "poll_recalc_loop p i s = poll_recalc_loop (src_next o1) i s"
      using False o1 p by (simp add: poll_recalc_loop.simps [of "Some a"])
    moreover have "enabled_srcs s (a # L) = enabled_srcs s L" using False by (simp add: enabled_srcs_def)
    ultimately show ?thesis using Cons.IH [OF ch] Cons.prems(2-5) by simp
  next
    case True
    let ?P = "pfds (backend (rl s))" and ?n = "length (enabled_srcs s L)"
    have en: "enabled_srcs s (a # L) = a # enabled_srcs s L" using True by (simp add: enabled_srcs_def)
    have i: "i < length ?P" using Cons.prems(4) en by simp
    have "idle_pfd (?P ! i)" using Cons.prems(5) i by (simp add: Cons_nth_drop_Suc [symmetric])
    with o1(1,2) i obtain u t where u:
      "upd_pfd i (\<lambda>e. add_interest_bits (src_flags o1) (e\<lparr>pfd_fd := file_fd f\<rparr>))
         (upd_bkd (\<lambda>b. b\<lparr>nfds := nfds b + 1\<rparr>) s) = Some u"
      "upd_src (set_pfd (Some (fds_at (backend (rl u)), i))) (Some a) u = Some t" and t:
      "bkd_frame s t" "srcs t = (srcs s)(a \<mapsto> set_pfd (Some (fds_at (backend (rl s)), i)) o1)"
      "backend (rl t) = (backend (rl s))\<lparr>nfds := nfds (backend (rl s)) + 1, pfds := ?P[i := poll_entry s a]\<rparr>"
      by (rule poll_recalc_step)
    note v = bkd_frame_views [OF t(1)] and k = bkd_frame_kind [OF t(1)]
    have l: "poll_recalc_loop p i s = poll_recalc_loop (src_next o1) (Suc i) t"
      using True o1 p u by (simp add: poll_recalc_loop.simps [of "Some a"])
    have nx: "src_nx t = src_nx s" using k(3) by (simp add: fun_eq_iff)
    have dr: "drop (Suc i) (?P[i := poll_entry s a]) = drop (Suc i) ?P" by simp
    have "list_all idle_pfd (drop (Suc i) ?P)" using Cons.prems(5) i by (simp add: Cons_nth_drop_Suc [symmetric])
    with Cons.IH [of t "src_next o1" "Suc i"] ch nx k(1) v t(3) Cons.prems(2-4) en obtain s' where
      s': "poll_recalc_loop (src_next o1) (Suc i) t = Some s'" "bkd_frame t s'"
      "backend (rl s') = (backend (rl t))\<lparr>nfds := nfds (backend (rl t)) + of_nat ?n,
        pfds := take (Suc i) (pfds (backend (rl t))) @ map (poll_entry s) (enabled_srcs s L) @
          drop (Suc i + ?n) (pfds (backend (rl t)))\<rparr>"
      "\<forall>j < ?n. src_pfd s' (enabled_srcs s L ! j) = Some (fds_at (backend (rl t)), Suc i + j)"
      "\<forall>b. b \<notin> set (enabled_srcs s L) \<longrightarrow> srcs s' b = srcs t b"
      by auto
    have na: "a \<notin> set (enabled_srcs s L)" using Cons.prems(3) by (simp add: enabled_srcs_def)
    have "src_pfd s' a = Some (fds_at (backend (rl s)), i)"
      using s'(5) na t(2) o1(2) by (auto simp: src_pfd_def set_pfd_def as_file_def split: src_part.splits)
    then have "src_pfd s' ((a # enabled_srcs s L) ! j) = Some (fds_at (backend (rl s)), i + j)"
      if "j < Suc ?n" for j using s'(4) t(3) that by (cases j) auto
    moreover have "take (Suc i) (?P[i := poll_entry s a]) = take i ?P @ [poll_entry s a]"
      using i by (simp add: take_Suc_conv_app_nth)
    ultimately show ?thesis
      using l s' t(2,3) en bkd_frame_trans [OF t(1) s'(2)] by (intro exI [of _ s']) simp
  qed
qed

lemma poll_recalc_loop_none:
  assumes "chain (src_nx s) p L" "\<forall>a \<in> set L. file_src s a" "i \<le> length (pfds (backend (rl s)))"
    and "length (pfds (backend (rl s))) < i + length (enabled_srcs s L)"
    and "list_all idle_pfd (drop i (pfds (backend (rl s))))"
  shows "poll_recalc_loop p i s = None"
  using assms
proof (induction L arbitrary: p i s)
  case Nil
  then show ?case by (simp add: enabled_srcs_def)
next
  case (Cons a L)
  have fa: "file_src s a" using Cons.prems(2) by simp
  then obtain o1 f where o1: "srcs s a = Some o1" "as_file o1 = Some f" "file_fd f = src_fd s a"
    "src_flags o1 = src_fl s a" by (rule file_src_part)
  have p: "p = Some a" and ch: "chain (src_nx s) (src_next o1) L"
    using Cons.prems(1) o1(1) by (auto simp: src_nx_iff)
  let ?P = "pfds (backend (rl s))"
  consider "\<not> flisset (src_fl s a) GWRL_ENABLED" | "flisset (src_fl s a) GWRL_ENABLED" "i = length ?P"
    | "flisset (src_fl s a) GWRL_ENABLED" "i < length ?P" using Cons.prems(3) by fastforce
  then show ?case
  proof cases
    case 1
    then have "enabled_srcs s (a # L) = enabled_srcs s L" by (simp add: enabled_srcs_def)
    with 1 Cons.IH [OF ch] Cons.prems(2-5) o1 p show ?thesis by (simp add: poll_recalc_loop.simps [of "Some a"])
  next
    case 2
    with o1 p show ?thesis
      by (simp add: poll_recalc_loop.simps [of "Some a"] upd_pfd_def nth_opt_def)
  next
    case 3
    have en: "enabled_srcs s (a # L) = a # enabled_srcs s L" using 3 by (simp add: enabled_srcs_def)
    have "idle_pfd (?P ! i)" using Cons.prems(5) 3(2) by (simp add: Cons_nth_drop_Suc [symmetric])
    with o1(1,2) 3(2) obtain u t where u:
      "upd_pfd i (\<lambda>e. add_interest_bits (src_flags o1) (e\<lparr>pfd_fd := file_fd f\<rparr>))
         (upd_bkd (\<lambda>b. b\<lparr>nfds := nfds b + 1\<rparr>) s) = Some u"
      "upd_src (set_pfd (Some (fds_at (backend (rl u)), i))) (Some a) u = Some t" and t: "bkd_frame s t"
      "backend (rl t) = (backend (rl s))\<lparr>nfds := nfds (backend (rl s)) + 1, pfds := ?P[i := poll_entry s a]\<rparr>"
      by (rule poll_recalc_step)
    note v = bkd_frame_views [OF t(1)] and k = bkd_frame_kind [OF t(1)]
    have "list_all idle_pfd (drop (Suc i) ?P)" using Cons.prems(5) 3(2) by (simp add: Cons_nth_drop_Suc [symmetric])
    moreover have "src_nx t = src_nx s" using k(3) by (simp add: fun_eq_iff)
    ultimately have "poll_recalc_loop (src_next o1) (Suc i) t = None"
      using Cons.IH [of t "src_next o1" "Suc i"] ch k(1) v t(2) Cons.prems(2-4) 3(2) en by auto
    then show ?thesis using 3(1) o1 p u by (simp add: poll_recalc_loop.simps [of "Some a"])
  qed
qed

text \<open>The entries in use, the entries out of use, and the way back from descriptors to sources.\<close>

definition poll_clean :: "'z lworld \<Rightarrow> bool" where
  "poll_clean s \<longleftrightarrow> unat (nfds (backend (rl s))) \<le> length (pfds (backend (rl s))) \<and>
     length (pfds (backend (rl s))) < 65536 \<and>
     list_all idle_pfd (drop (unat (nfds (backend (rl s)))) (pfds (backend (rl s))))"

lemma poll_recalc_ok:
  assumes "srcs_inv s Fs Ts" "poll_clean s" "length (enabled_srcs s Fs) \<le> length (pfds (backend (rl s)))"
  obtains s' where "gwrl_bkd_recalc_srcs_poll s = Some s'" "bkd_frame s s'"
    "unat (nfds (backend (rl s'))) = length (enabled_srcs s Fs)"
    "take (length (enabled_srcs s Fs)) (pfds (backend (rl s'))) = map (poll_entry s) (enabled_srcs s Fs)"
    "poll_clean s'" "length (pfds (backend (rl s'))) = length (pfds (backend (rl s)))"
    "\<forall>j < length (enabled_srcs s Fs). src_pfd s' (enabled_srcs s Fs ! j) = Some (fds_at (backend (rl s')), j)"
    "lkp_src (backend (rl s')) = lkp_src (backend (rl s))" "lkp_maxfd (backend (rl s')) = lkp_maxfd (backend (rl s))"
    "maxnfds (backend (rl s')) = maxnfds (backend (rl s))" "fds_at (backend (rl s')) = fds_at (backend (rl s))"
    "\<forall>a. a \<notin> set (enabled_srcs s Fs) \<longrightarrow> srcs s' a = srcs s a"
proof -
  note i = srcs_invD [OF assms(1)]
  let ?n = "unat (nfds (backend (rl s)))" and ?k = "length (enabled_srcs s Fs)"
  let ?t = "upd_bkd (\<lambda>b. b\<lparr>pfds := replicate ?n zero_pollfd @ drop ?n (pfds b), nfds := 0\<rparr>) s"
  have n: "?n \<le> length (pfds (backend (rl s)))" and cl: "list_all idle_pfd (pfds (backend (rl ?t)))"
    using assms(2) by (simp_all add: poll_clean_def)
  have len: "length (pfds (backend (rl ?t))) = length (pfds (backend (rl s)))" using n by simp
  have g: "gwrl_bkd_recalc_srcs_poll s = poll_recalc_loop (sources (rl s) ! 0) 0 ?t"
    using i(1) n by (simp add: gwrl_bkd_recalc_srcs_poll_def nth_opt_def src_type_defs Let_def)
  obtain s' where s': "poll_recalc_loop (sources (rl s) ! 0) 0 ?t = Some s'" "bkd_frame ?t s'"
    "backend (rl s') = (backend (rl ?t))\<lparr>nfds := nfds (backend (rl ?t)) + of_nat ?k,
       pfds := map (poll_entry s) (enabled_srcs s Fs) @ drop ?k (pfds (backend (rl ?t)))\<rparr>"
    "\<forall>j < ?k. src_pfd s' (enabled_srcs s Fs ! j) = Some (fds_at (backend (rl ?t)), j)"
    "\<forall>a. a \<notin> set (enabled_srcs s Fs) \<longrightarrow> srcs s' a = srcs ?t a"
    using poll_recalc_loop_ok [of ?t "sources (rl s) ! 0" Fs 0] i(2) len assms(3) cl i(5) srcs_inv_distinct(1) [OF assms(1)]
    by auto
  have k: "?k < 65536" using assms(2,3) by (simp add: poll_clean_def)
  then have u: "unat (of_nat ?k :: 16 word) = ?k" by (simp add: unat_of_nat)
  define Q where "Q = drop ?k (replicate ?n zero_pollfd @ drop ?n (pfds (backend (rl s))))"
  have Q: "list_all idle_pfd Q" using list_all_drop [OF cl] by (simp add: Q_def)
  have lQ: "?k + length Q = length (pfds (backend (rl s)))" using n assms(3) by (simp add: Q_def)
  have b: "backend (rl s') = (backend (rl s))\<lparr>nfds := of_nat ?k, pfds := map (poll_entry s) (enabled_srcs s Fs) @ Q\<rparr>"
    using s'(3) by (simp add: Q_def)
  show thesis
  proof (rule that [of s'])
    show "gwrl_bkd_recalc_srcs_poll s = Some s'" using g s'(1) by simp
    show "bkd_frame s s'" by (rule bkd_frame_trans [OF upd_bkd_frame s'(2)])
    show "poll_clean s'" using u lQ assms(2) Q by (simp add: poll_clean_def b)
  qed (use s'(4,5) u lQ in \<open>simp_all add: b\<close>)
qed

lemma poll_recalc_none:
  assumes "srcs_inv s Fs Ts" "poll_clean s" "length (pfds (backend (rl s))) < length (enabled_srcs s Fs)"
  shows "gwrl_bkd_recalc_srcs_poll s = None"
proof -
  note i = srcs_invD [OF assms(1)]
  let ?n = "unat (nfds (backend (rl s)))"
  let ?t = "upd_bkd (\<lambda>b. b\<lparr>pfds := replicate ?n zero_pollfd @ drop ?n (pfds b), nfds := 0\<rparr>) s"
  have n: "?n \<le> length (pfds (backend (rl s)))" and cl: "list_all idle_pfd (pfds (backend (rl ?t)))"
    using assms(2) by (simp_all add: poll_clean_def)
  have "poll_recalc_loop (sources (rl s) ! 0) 0 ?t = None"
    using assms(3) i(2,5) n cl by (intro poll_recalc_loop_none [of ?t _ Fs]) auto
  then show ?thesis
    using i(1) n by (simp add: gwrl_bkd_recalc_srcs_poll_def nth_opt_def src_type_defs Let_def)
qed

subsection \<open>Tracking the registered sources\<close>

text \<open>
  Descriptors below \<open>K\<close>, with \<open>K\<close> entries in both arrays: then neither array is ever too
  small. \<open>in_table s A T\<close>: the entries in use are those of the sources \<open>T\<close> of \<open>A\<close>, all
  enabled ones among them, and the sources point to their entries.
\<close>

definition poll_fd_ok :: "int \<Rightarrow> int \<Rightarrow> bool" where
  "poll_fd_ok K fd \<longleftrightarrow> 0 \<le> fd \<and> fd < K"

definition poll_base :: "int \<Rightarrow> 'z lworld \<Rightarrow> addr set \<Rightarrow> bool" where
  "poll_base K s A \<longleftrightarrow> poll_clean s \<and> length (pfds (backend (rl s))) = unat (maxnfds (backend (rl s))) \<and>
     K \<le> uint (maxnfds (backend (rl s))) \<and> inj_on (src_fd s) A \<and>
     (\<exists>l. lkp_src (backend (rl s)) = Some l \<and> K \<le> int (length l) \<and> K \<le> lkp_maxfd (backend (rl s)) + 1 \<and>
        (\<forall>a \<in> A. file_src s a \<and> poll_fd_ok K (src_fd s a) \<and> l ! nat (src_fd s a) = Some (Some a)))"

definition in_table :: "'z lworld \<Rightarrow> addr set \<Rightarrow> addr list \<Rightarrow> bool" where
  "in_table s A T \<longleftrightarrow> distinct T \<and> set T \<subseteq> A \<and> (\<forall>a \<in> A. flisset (src_fl s a) GWRL_ENABLED \<longrightarrow> a \<in> set T) \<and>
     unat (nfds (backend (rl s))) = length T \<and>
     map (\<lambda>e. (pfd_fd e, pfd_events e)) (take (length T) (pfds (backend (rl s)))) =
       map (\<lambda>a. (src_fd s a, Some (poll_bits (src_fl s a)))) T \<and>
     (\<forall>j < length T. src_pfd s (T ! j) = Some (fds_at (backend (rl s)), j))"

definition poll_tracks :: "int \<Rightarrow> 'z lworld \<Rightarrow> addr set \<Rightarrow> bool" where
  "poll_tracks K s A \<longleftrightarrow> poll_base K s A \<and> (\<exists>T. in_table s A T)"

lemma poll_few:
  assumes "poll_base K s (set Fs)" "distinct Fs"
  shows "int (length Fs) \<le> K \<or> Fs = []"
proof -
  have "src_fd s ` set Fs \<subseteq> {0..<K}" "inj_on (src_fd s) (set Fs)"
    using assms(1) by (auto simp: poll_base_def poll_fd_ok_def)
  then have "card (set Fs) \<le> card {0..<K}" using card_mono [of "{0..<K}" "src_fd s ` set Fs"] by (simp add: card_image)
  then show ?thesis using assms(2) by (cases Fs) (auto simp: distinct_card)
qed

lemma poll_recalc_tracks:
  assumes "srcs_inv s Fs Ts" "poll_base K s (set Fs)"
  shows "\<exists>s'. gwrl_bkd_recalc_srcs_poll s = Some s' \<and> bkd_frame s s' \<and> poll_tracks K s' (set Fs) \<and>
    in_table s' (set Fs) (enabled_srcs s Fs) \<and> fds_at (backend (rl s')) = fds_at (backend (rl s)) \<and>
    (\<forall>a. a \<notin> set (enabled_srcs s Fs) \<longrightarrow> srcs s' a = srcs s a)"
proof -
  have d: "distinct Fs" by (rule srcs_inv_distinct(1) [OF assms(1)])
  have "length (enabled_srcs s Fs) \<le> length Fs" by (simp add: enabled_srcs_def)
  have u: "int (length (pfds (backend (rl s)))) = uint (maxnfds (backend (rl s)))" "K \<le> uint (maxnfds (backend (rl s)))"
    using assms(2) by (simp_all add: poll_base_def)
  have "length Fs \<le> length (pfds (backend (rl s)))" using u poll_few [OF assms(2) d] by auto
  with \<open>length (enabled_srcs s Fs) \<le> length Fs\<close>
  have le: "length (enabled_srcs s Fs) \<le> length (pfds (backend (rl s)))" by simp
  have cl: "poll_clean s" using assms(2) by (simp add: poll_base_def)
  obtain s' where s': "gwrl_bkd_recalc_srcs_poll s = Some s'" "bkd_frame s s'"
    "unat (nfds (backend (rl s'))) = length (enabled_srcs s Fs)"
    "take (length (enabled_srcs s Fs)) (pfds (backend (rl s'))) = map (poll_entry s) (enabled_srcs s Fs)"
    "poll_clean s'" "length (pfds (backend (rl s'))) = length (pfds (backend (rl s)))"
    "\<forall>j < length (enabled_srcs s Fs). src_pfd s' (enabled_srcs s Fs ! j) = Some (fds_at (backend (rl s')), j)"
    "lkp_src (backend (rl s')) = lkp_src (backend (rl s))" "lkp_maxfd (backend (rl s')) = lkp_maxfd (backend (rl s))"
    "maxnfds (backend (rl s')) = maxnfds (backend (rl s))" "fds_at (backend (rl s')) = fds_at (backend (rl s))"
    "\<forall>a. a \<notin> set (enabled_srcs s Fs) \<longrightarrow> srcs s' a = srcs s a"
    by (rule poll_recalc_ok [OF assms(1) cl le])
  note v = bkd_frame_views(1,2) [OF s'(2)] bkd_frame_kind(1) [OF s'(2)]
  have "poll_base K s' (set Fs)" using assms(2) s'(5,6,8-10) unfolding poll_base_def v by simp
  moreover have "in_table s' (set Fs) (enabled_srcs s Fs)"
    using d s'(3,4,7) by (simp add: in_table_def v poll_entry_def enabled_srcs_def)
  ultimately show ?thesis using s'(1,2,11,12) by (auto simp: poll_tracks_def)
qed

lemma poll_base_cong:
  assumes "backend (rl s') = backend (rl s)"
    and "\<forall>a \<in> A. src_fd s' a = src_fd s a \<and> file_src s' a = file_src s a" "poll_base K s A"
  shows "poll_base K s' A"
proof -
  have "inj_on (src_fd s') A = inj_on (src_fd s) A" using assms(2) by (intro inj_on_cong) simp
  moreover have "(\<forall>a \<in> A. file_src s' a \<and> poll_fd_ok K (src_fd s' a) \<and> l ! nat (src_fd s' a) = Some (Some a)) =
      (\<forall>a \<in> A. file_src s a \<and> poll_fd_ok K (src_fd s a) \<and> l ! nat (src_fd s a) = Some (Some a))" for l
    using assms(2) by simp
  ultimately show ?thesis using assms(1,3) by (simp add: poll_base_def poll_clean_def)
qed

lemma src_core_pfd:
  "map_option src_core (srcs s' a) = map_option src_core (srcs s a) \<Longrightarrow> src_pfd s' a = src_pfd s a"
  by (cases "srcs s a"; cases "srcs s' a") (auto simp: src_pfd_def as_file_def dest: src_core_fields)

lemma poll_tracks_cong:
  assumes "backend (rl s') = backend (rl s)"
    and "\<forall>a \<in> A. map_option src_core (srcs s' a) = map_option src_core (srcs s a)" "poll_tracks K s A"
  shows "poll_tracks K s' A"
proof -
  have v: "src_fd s' a = src_fd s a" "src_fl s' a = src_fl s a" "file_src s' a = file_src s a" "src_pfd s' a = src_pfd s a"
    if "a \<in> A" for a
    using core_views [of s' a s] src_core_pfd [of s' a s] assms(2) that by simp_all
  obtain T where T: "in_table s A T" using assms(3) by (auto simp: poll_tracks_def)
  have sub: "T ! j \<in> A" if "j < length T" for j using T that by (auto simp: in_table_def)
  have "map (\<lambda>a. (src_fd s' a, Some (poll_bits (src_fl s' a)))) T = map (\<lambda>a. (src_fd s a, Some (poll_bits (src_fl s a)))) T"
    using T v by (intro map_cong) (auto simp: in_table_def)
  then have "in_table s' A T" using T v sub assms(1) by (simp add: in_table_def)
  moreover have "poll_base K s' A" by (rule poll_base_cong [OF assms(1)]) (use v assms(3) in \<open>auto simp: poll_tracks_def\<close>)
  ultimately show ?thesis by (auto simp: poll_tracks_def)
qed

lemma poll_flags_law:
  assumes "srcs_inv s Fs Ts" "a \<in> set Fs" "poll_tracks K s (set Fs)" "t = mod_src g a s"
    and "g = src_flset GWRL_ENABLED \<and> f = gwrl_bkd_enable_src_poll \<or>
      g = src_flclr GWRL_ENABLED \<and> f = gwrl_bkd_disable_src_poll"
  shows "\<exists>s'. f (Some a) t = Some s' \<and> bkd_frame t s' \<and> poll_tracks K s' (set Fs) \<and>
    in_table s' (set Fs) (enabled_srcs t Fs) \<and> fds_at (backend (rl s')) = fds_at (backend (rl s)) \<and>
    (\<forall>a. a \<notin> set (enabled_srcs t Fs) \<longrightarrow> srcs s' a = srcs t a)"
proof -
  have g: "src_part (g o1) = src_part o1" "src_type (g o1) = src_type o1" "src_next (g o1) = src_next o1" for o1
    using assms(5) by (auto simp: src_flset_def src_flclr_def)
  obtain oa where oa: "srcs s a = Some oa" using srcs_invD(5) [OF assms(1,2)] by (auto simp: file_src_iff)
  have idem: "g (g oa) = g oa"
    using assms(5) by (auto simp: src_flset_def src_flclr_def flset_def flclr_def or.assoc and.assoc)
  have "upd_src g (Some a) t = Some t"
    using oa idem assms(4) by (simp add: mod_src_def fun_upd_idem)
  then have f: "f (Some a) t = gwrl_bkd_recalc_srcs_poll t"
    using assms(5) by (auto simp: gwrl_bkd_enable_src_poll_def gwrl_bkd_disable_src_poll_def)
  have inv: "srcs_inv t Fs Ts" unfolding assms(4) by (rule mod_src_frame [OF g(2,1,3) assms(1)])
  note v = flags_views(1,2) [where g = g and a = a and s = s, OF g(1,2), folded assms(4)]
  have "backend (rl t) = backend (rl s)" by (simp add: assms(4) mod_src_def)
  moreover from this have "poll_base K t (set Fs)"
    by (rule poll_base_cong) (use assms(3) v in \<open>simp_all add: poll_tracks_def\<close>)
  note poll_recalc_tracks [OF inv this]
  ultimately show ?thesis unfolding f by auto
qed

lemma set_pfd_nopfd: "src_nopfd (set_pfd p o1) = src_nopfd o1"
  by (simp add: src_nopfd_def set_pfd_def split: src_part.splits)

text \<open>A change of the backend's part and of the \<^verbatim>\<open>pfd\<close> of one source.\<close>

definition poll_put :: "(gwrlbkd_poll \<Rightarrow> gwrlbkd_poll) \<Rightarrow> addr \<Rightarrow> (addr \<times> nat) option \<Rightarrow> 'z lworld \<Rightarrow> 'z lworld" where
  "poll_put f a p s = upd_bkd f (s\<lparr>srcs := (srcs s)(a := map_option (set_pfd p) (srcs s a))\<rparr>)"

lemma poll_put_frame: "bkd_frame s (poll_put f a p s)"
  by (simp add: bkd_frame_def poll_put_def upd_bkd_def option.map_comp o_def set_pfd_nopfd)

lemma poll_put_sel [simp]:
  "backend (rl (poll_put f a p s)) = f (backend (rl s))"
  "srcs (poll_put f a p s) = (srcs s)(a := map_option (set_pfd p) (srcs s a))"
  by (simp_all add: poll_put_def)

lemma poll_put_pfd:
  "file_src s a \<Longrightarrow> src_pfd (poll_put f a p s) a = p" "b \<noteq> a \<Longrightarrow> src_pfd (poll_put f a p s) b = src_pfd s b"
  by (auto simp: src_pfd_def file_src_iff set_pfd_def as_file_def)

lemma poll_del_law:
  assumes "srcs_inv s Fs Ts" "file_src s a" "a \<notin> set Fs" "poll_tracks K s (insert a (set Fs))"
  shows "\<exists>s' fl. op_del_src poll_ops (Some a) s = Some s' \<and>
    bkd_frame (mod_src (\<lambda>o1. o1\<lparr>src_flags := fl\<rparr>) a s) s' \<and> poll_tracks K s' (set Fs)"
proof -
  obtain oa f where oa: "srcs s a = Some oa" "as_file oa = Some f" "file_fd f = src_fd s a"
    using assms(2) by (rule file_src_part)
  have base: "poll_base K s (insert a (set Fs))" using assms(4) by (simp add: poll_tracks_def)
  then obtain l where l: "lkp_src (backend (rl s)) = Some l" "K \<le> int (length l)" "K \<le> lkp_maxfd (backend (rl s)) + 1"
    and each: "\<forall>b \<in> insert a (set Fs). file_src s b \<and> poll_fd_ok K (src_fd s b) \<and> l ! nat (src_fd s b) = Some (Some b)"
    by (auto simp: poll_base_def)
  have i: "inj_on (src_fd s) (insert a (set Fs))" using base by (simp add: poll_base_def)
  let ?fd = "src_fd s a"
  let ?u = "poll_put (\<lambda>b. b\<lparr>lkp_src := Some (l[nat ?fd := Some None])\<rparr>) a None s"
  have fd: "0 \<le> ?fd" "nat ?fd < length l" using each l(2) by (auto simp: poll_fd_ok_def)
  have d: "op_del_src poll_ops (Some a) s = gwrl_bkd_recalc_srcs_poll ?u"
    using oa l(1) fd
    by (simp add: poll_ops_def gwrl_bkd_del_src_poll_def set_lkp_def poll_put_def upd_bkd_def)
  note v = bkd_frame_views(1,2) [OF poll_put_frame] bkd_frame_kind(1) [OF poll_put_frame]
  have "nat ?fd \<noteq> nat (src_fd s b)" if "b \<in> set Fs" for b
    using i that assms(3) each fd(1) by (auto simp: inj_on_def poll_fd_ok_def eq_nat_nat_iff)
  then have "poll_base K ?u (set Fs)"
    using base l each inj_on_subset [OF i] by (auto simp: poll_base_def v poll_clean_def)
  from poll_recalc_tracks [OF bkd_frame_srcs_inv [OF poll_put_frame assms(1)] this] obtain s' where
    "gwrl_bkd_recalc_srcs_poll ?u = Some s'" "bkd_frame ?u s'" "poll_tracks K s' (set Fs)" by blast
  with d bkd_frame_trans [OF poll_put_frame] show ?thesis
    by (intro exI [of _ s'] exI [of _ "src_fl s a"]) simp
qed

lemma poll_room:
  assumes "in_table s A T" "poll_base K s A" "finite A" "a \<notin> A" "poll_fd_ok K (src_fd s a)" "src_fd s a \<notin> src_fd s ` A"
  shows "length T < unat (maxnfds (backend (rl s)))"
proof -
  have inj: "inj_on (src_fd s) (insert a A)" and sub: "src_fd s ` insert a A \<subseteq> {0..<K}"
    using assms(2,4-6) by (auto simp: poll_base_def poll_fd_ok_def)
  have "card (src_fd s ` insert a A) \<le> card {0..<K}" by (rule card_mono [OF _ sub]) simp
  then have "card (insert a A) \<le> card {0..<K}" unfolding card_image [OF inj] .
  then have "Suc (card A) \<le> nat K" using assms(3,4) by simp
  moreover have "length T \<le> card A"
    using assms(1,3) card_mono [of A "set T"] by (simp add: in_table_def distinct_card)
  moreover have "K \<le> uint (maxnfds (backend (rl s)))" using assms(2) by (simp add: poll_base_def)
  then have "nat K \<le> unat (maxnfds (backend (rl s)))" unfolding unat_eq_nat_uint by (rule nat_mono)
  ultimately show ?thesis by linarith
qed

lemma poll_add_law:
  assumes "srcs_inv s (a # Fs) Ts" "poll_tracks K s (set Fs)" "poll_fd_ok K (src_fd s a)"
    and "src_fd s a \<notin> src_fd s ` set Fs"
  shows "\<exists>s'. op_src_add poll_ops (Some a) s = Some s' \<and> bkd_frame s s' \<and> poll_tracks K s' (set (a # Fs))"
proof -
  have na: "a \<notin> set Fs" using assms(4) by auto
  have fa: "file_src s a" using srcs_invD(5) [OF assms(1)] by simp
  then obtain oa f where oa: "srcs s a = Some oa" "as_file oa = Some f" "file_fd f = src_fd s a"
    "src_flags oa = src_fl s a" by (rule file_src_part)
  obtain T where T: "in_table s (set Fs) T" and base: "poll_base K s (set Fs)"
    using assms(2) by (auto simp: poll_tracks_def)
  note t = T [unfolded in_table_def]
  obtain l where l: "lkp_src (backend (rl s)) = Some l" "K \<le> int (length l)" "K \<le> lkp_maxfd (backend (rl s)) + 1"
    and each: "\<forall>b \<in> set Fs. file_src s b \<and> poll_fd_ok K (src_fd s b) \<and> l ! nat (src_fd s b) = Some (Some b)"
    using base by (auto simp: poll_base_def)
  let ?fd = "src_fd s a" and ?i = "length T" and ?P = "pfds (backend (rl s))"
  have fd: "0 \<le> ?fd" "nat ?fd < length l" "?fd \<le> lkp_maxfd (backend (rl s))"
    using assms(3) l(2,3) by (auto simp: poll_fd_ok_def)
  have room: "?i < unat (maxnfds (backend (rl s)))" by (rule poll_room [OF T base _ na assms(3,4)]) simp
  have cl: "poll_clean s" and len: "length ?P = unat (maxnfds (backend (rl s)))" using base by (simp_all add: poll_base_def)
  have n: "unat (nfds (backend (rl s))) = ?i" using t by blast
  have i: "?i < length ?P" using room len by simp
  have idle: "idle_pfd (?P ! ?i)" and rest: "list_all idle_pfd (drop (Suc ?i) ?P)"
    using cl n i by (simp_all add: poll_clean_def Cons_nth_drop_Suc [symmetric])
  have n1: "unat (nfds (backend (rl s)) + 1) = Suc ?i"
    using n i cl by (simp add: unat_word_ariths(1) poll_clean_def)
  have e: "add_interest_bits (src_fl s a) ((?P ! ?i)\<lparr>pfd_fd := ?fd, pfd_revents := 0\<rparr>) = poll_entry s a"
    using entry_of_idle [of "(?P ! ?i)\<lparr>pfd_revents := 0\<rparr>" s a] idle by (simp add: idle_pfd_def) (cases "?P ! ?i"; simp)
  let ?s' = "poll_put (\<lambda>b. b\<lparr>nfds := nfds b + 1, pfds := ?P[?i := poll_entry s a],
      lkp_src := Some (l[nat ?fd := Some (Some a)])\<rparr>) a (Some (fds_at (backend (rl s)), ?i)) s"
  have "nfds (backend (rl s)) \<noteq> maxnfds (backend (rl s))" using room n by auto
  then have "op_src_add poll_ops (Some a) s = Some ?s'"
    using oa l(1) fd i n e
    by (simp add: poll_ops_def gwrl_bkd_src_add_poll_def grow_pfds_def grow_lkp_def set_lkp_def upd_pfd_def nth_opt_def)
       (simp add: poll_put_def upd_bkd_def Let_def)
  moreover have "poll_tracks K ?s' (set (a # Fs))"
  proof -
    note v = bkd_frame_views(1,2) [OF poll_put_frame] bkd_frame_kind(1) [OF poll_put_frame]
    have nf: "nat ?fd \<noteq> nat (src_fd s b)" if "b \<in> set Fs" for b
      using that assms(4) each fd(1) by (auto simp: image_iff poll_fd_ok_def eq_nat_nat_iff)
    have "poll_clean ?s'" using n1 i cl rest by (simp add: poll_clean_def)
    moreover have "inj_on (src_fd s) (set (a # Fs))" using base assms(4) na by (simp add: poll_base_def)
    ultimately have "poll_base K ?s' (set (a # Fs))"
      using base len l each fa assms(3) fd nf by (auto simp: poll_base_def v)
    moreover have "in_table ?s' (set (a # Fs)) (T @ [a])"
    proof -
      have "take (Suc ?i) (?P[?i := poll_entry s a]) = take ?i ?P @ [poll_entry s a]"
        using i by (simp add: take_Suc_conv_app_nth)
      moreover have "T ! j \<noteq> a" if "j < ?i" for j using t na that nth_mem by blast
      ultimately show ?thesis
        using t na n1 fa by (auto simp: in_table_def v poll_entry_def poll_put_pfd nth_append less_Suc_eq)
    qed
    ultimately show ?thesis by (auto simp: poll_tracks_def)
  qed
  ultimately show ?thesis using poll_put_frame by blast
qed

interpretation pol: source_backend poll_ops "poll_fd_ok K" "poll_tracks K" for K
proof unfold_locales
  fix s t :: "'z lworld" and Fs Ts a
  assume "srcs_inv s Fs Ts" "a \<in> set Fs" "poll_tracks K s (set Fs)" "t = mod_src (src_flset GWRL_ENABLED) a s"
  then show "\<exists>s'. op_enable_src poll_ops (Some a) t = Some s' \<and> bkd_frame t s' \<and> poll_tracks K s' (set Fs)"
    using poll_flags_law [of s Fs Ts a K t "src_flset GWRL_ENABLED" gwrl_bkd_enable_src_poll]
    by (auto simp: poll_ops_def)
next
  fix s t :: "'z lworld" and Fs Ts a
  assume "srcs_inv s Fs Ts" "a \<in> set Fs" "poll_tracks K s (set Fs)" "t = mod_src (src_flclr GWRL_ENABLED) a s"
  then show "\<exists>s'. op_disable_src poll_ops (Some a) t = Some s' \<and> bkd_frame t s' \<and> poll_tracks K s' (set Fs)"
    using poll_flags_law [of s Fs Ts a K t "src_flclr GWRL_ENABLED" gwrl_bkd_disable_src_poll]
    by (auto simp: poll_ops_def)
qed (rule poll_tracks_cong poll_add_law poll_del_law; assumption)+

subsection \<open>Gathering\<close>

text \<open>The events posted for what \<^verbatim>\<open>poll\<close> reported of an entry: errors and hang-ups count as readable.\<close>

definition poll_ready :: "flags16 \<Rightarrow> flags8" where
  "poll_ready r =
     (if flisset r POLLHUP \<or> flisset r POLLERR \<or> flisset r POLLIN then GWRL_RD else 0) OR
     (if flisset r POLLOUT then GWRL_WR else 0)"

definition poll_due :: "'z lworld \<Rightarrow> addr \<times> flags16 \<Rightarrow> bool" where
  "poll_due s x = (case x of (a, r) \<Rightarrow> flisset (src_fl s a) GWRL_ENABLED \<and> poll_ready r \<noteq> 0)"

definition poll_evt :: "'z lworld \<Rightarrow> addr \<times> flags16 \<Rightarrow> gwrlevt option" where
  "poll_evt s x = (case x of (a, r) \<Rightarrow>
     map_option (\<lambda>o1. new_evt (Some a) (src_callback o1) (src_userdata o1) (src_fd s a) (poll_ready r) None) (srcs s a))"

text \<open>The sources of the entries in use, and no entry with a bad descriptor.\<close>

definition poll_reports :: "'z lworld \<Rightarrow> (addr \<times> flags16) list \<Rightarrow> bool" where
  "poll_reports s ps \<longleftrightarrow> unat (nfds (backend (rl s))) = length ps \<and> length ps \<le> length (pfds (backend (rl s))) \<and>
     (\<forall>j < length ps. file_src s (fst (ps ! j)) \<and> pfd_fd (pfds (backend (rl s)) ! j) = src_fd s (fst (ps ! j)) \<and>
        pfd_revents (pfds (backend (rl s)) ! j) = snd (ps ! j) \<and> \<not> flisset (snd (ps ! j)) POLLNVAL \<and>
        get_lkp (src_fd s (fst (ps ! j))) s = Some (Some (fst (ps ! j))))"

lemma poll_new_flags_ok:
  assumes "i < length (pfds (backend (rl s)))" "pfd_revents (pfds (backend (rl s)) ! i) = r" "\<not> flisset r POLLNVAL"
  shows "poll_new_flags i src s = Some (poll_ready r, s)"
  using assms by (simp add: poll_new_flags_def nth_opt_def flisset_def poll_ready_def Let_def)
    (auto simp: flset_def)

lemma poll_frame_views:
  assumes "evt_frame s t"
  shows "poll_reports t = poll_reports s" "poll_due t = poll_due s" "poll_evt t = poll_evt s"
proof -
  have v: "srcs t = srcs s" "backend (rl t) = backend (rl s)" using evt_frameD [OF assms] by simp_all
  note w = epoll_views [OF v(1)]
  show "poll_reports t = poll_reports s" "poll_due t = poll_due s" "poll_evt t = poll_evt s"
    by (simp_all add: fun_eq_iff poll_reports_def poll_due_def poll_evt_def get_lkp_def v w)
qed

lemma poll_post_loop_ok:
  assumes "drop (unat i) ps = qs" "unat i \<le> length ps" "poll_reports s ps" "evts_inv s E C"
  shows "\<exists>s' N C'. poll_post_loop i s = Some s' \<and> evt_frame s s' \<and> evts_inv s' (rev N @ E) C' \<and>
    map (\<lambda>e. map_option evt_core (evts s' e)) N = map (poll_evt s) (filter (poll_due s) qs) \<and>
    (\<forall>e \<in> set E. evts s' e = evts s e)"
  using assms
proof (induction qs arbitrary: i s E C)
  case Nil
  then have "\<not> i < nfds (backend (rl s))" by (simp add: poll_reports_def word_less_nat_alt)
  then show ?case
    using Nil by (intro exI [of _ s] exI [of _ "[]"] exI [of _ C]) (simp add: poll_post_loop.simps)
next
  case (Cons x qs)
  let ?P = "pfds (backend (rl s))" and ?j = "unat i"
  obtain a r where x: "x = (a, r)" by (cases x)
  have j: "?j < length ps" using Cons.prems(1) by (metis drop_all list.distinct(1) not_le)
  have pj: "ps ! ?j = (a, r)" and dr: "drop (Suc ?j) ps = qs"
    using Cons.prems(1) Cons_nth_drop_Suc [OF j] x by simp_all
  note rp = Cons.prems(3) [unfolded poll_reports_def]
  have e: "file_src s a" "pfd_fd (?P ! ?j) = src_fd s a" "pfd_revents (?P ! ?j) = r" "\<not> flisset r POLLNVAL"
    "get_lkp (src_fd s a) s = Some (Some a)" "?j < length ?P" "i < nfds (backend (rl s))"
    using rp j pj by (auto simp: word_less_nat_alt)
  have i1: "unat (i + 1) = Suc ?j"
  proof -
    have "i \<noteq> - 1" using e(7) by auto
    then have "1 + i \<noteq> 0" by (simp add: eq_neg_iff_add_eq_0 add.commute)
    from unatSuc [OF this] show ?thesis by (simp add: add.commute)
  qed
  obtain o1 f where o1: "srcs s a = Some o1" "as_file o1 = Some f" "file_fd f = src_fd s a"
    "src_flags o1 = src_fl s a" using e(1) by (rule file_src_part)
  note nf = poll_new_flags_ok [OF e(6,3,4), of "Some a"]
  show ?case
  proof (cases "poll_due s x")
    case False
    have "poll_post_loop i s = poll_post_loop (i + 1) s"
      using False e o1 nf x by (auto simp: poll_post_loop.simps [of i s] nth_opt_def poll_due_def)
    with Cons.IH [OF _ _ Cons.prems(3,4), of "i + 1"] dr i1 j False show ?thesis by auto
  next
    case True
    obtain ev t where t:
      "(gwrl_evt_createp (Some a) (src_callback o1) (src_userdata o1) (src_fd s a)
         (poll_ready r) s \<bind> (\<lambda>(e, s). gwrl_post_evt e s)) = Some t"
      "evts t = (evts s)(ev \<mapsto> new_evt (Some a) (src_callback o1) (src_userdata o1) (src_fd s a)
         (poll_ready r) (events (rl s)))" "ev \<notin> set E"
      "evts_inv t (ev # E) (tl C)" "evt_frame s t"
      by (rule createp_post [OF Cons.prems(4)])
    note v = poll_frame_views [OF t(5)]
    obtain eo u where "gwrl_evt_createp (Some a) (src_callback o1) (src_userdata o1) (src_fd s a)
        (poll_ready r) s = Some (eo, u)" "gwrl_post_evt eo u = Some t"
      using t(1) by (auto split: Option.bind_splits)
    then have "poll_post_loop i s = poll_post_loop (i + 1) t"
      using True e o1 nf x by (simp add: poll_post_loop.simps [of i s] nth_opt_def poll_due_def word_gt_0)
    moreover obtain s' N C' where s': "poll_post_loop (i + 1) t = Some s'" "evt_frame t s'"
      "evts_inv s' (rev N @ ev # E) C'"
      "map (\<lambda>e. map_option evt_core (evts s' e)) N = map (poll_evt s) (filter (poll_due s) qs)"
      "\<forall>e \<in> set (ev # E). evts s' e = evts t e"
      using Cons.IH [of "i + 1" t "ev # E" "tl C"] dr i1 j t(4) Cons.prems(3) unfolding v by auto
    moreover have "map_option evt_core (evts s' ev) = poll_evt s x"
      using s'(5) t(2) o1(1) x by (simp add: poll_evt_def evt_core_def)
    ultimately show ?thesis
      using True t(2,3) evt_frame_trans [OF t(5) s'(2)]
      by (intro exI [of _ s'] exI [of _ "ev # N"] exI [of _ C']) auto
  qed
qed

text \<open>The state in which \<^verbatim>\<open>poll\<close> has returned.\<close>

definition poll_returned :: "int \<Rightarrow> 'z lworld \<Rightarrow> 'z lworld" where
  "poll_returned ms s =
     (let a = answer_at s 0; b = backend (rl s); n = unat (nfds b) in
      s\<lparr>calls := Sys_poll (map (\<lambda>e. (pfd_fd e, pfd_events e)) (take n (pfds b)))
          (sint (word_of_int ms :: 32 word)) # calls s,
        errno := (if ans_ret a < 0 then ans_errno a else errno s),
        rl := (if 0 \<le> ans_ret a then (rl s)\<lparr>backend := b\<lparr>pfds := fill_revents n (ans_revents a) (pfds b)\<rparr>\<rparr> else rl s)
          \<lparr>rl_flags := flclr (flset (rl_flags (rl s)) GWRL_SLEEPING) GWRL_SLEEPING\<rparr>\<rparr>)"

lemma poll_returned_sel [simp]:
  "srcs (poll_returned ms s) = srcs s" "evts (poll_returned ms s) = evts s" "brk (poll_returned ms s) = brk s"
  "events (rl (poll_returned ms s)) = events (rl s)" "cevents (rl (poll_returned ms s)) = cevents (rl s)"
  "ncevents (rl (poll_returned ms s)) = ncevents (rl s)"
  by (simp_all add: poll_returned_def Let_def)

lemma poll_returned_evts_inv: "evts_inv s E C \<Longrightarrow> evts_inv (poll_returned ms s) E C"
  by (rule evts_inv_cong [of "poll_returned ms s" s]; simp add: evts_inv_def fresh_ok_def)

lemma gather_poll_cases:
  assumes "poll_timeout s = Some ms" "unat (nfds (backend (rl s))) \<le> length (pfds (backend (rl s)))"
  shows "ans_ret (answer_at s 0) = 0 \<or> ans_ret (answer_at s 0) < 0 \<and> ans_errno (answer_at s 0) \<in> {EINTR, EAGAIN} \<Longrightarrow>
      gwrl_bkd_gather_poll s = Some (poll_returned ms s)"
    and "0 < ans_ret (answer_at s 0) \<Longrightarrow> gwrl_bkd_gather_poll s = poll_post_loop 0 (poll_returned ms s)"
    and "ans_ret (answer_at s 0) < 0 \<Longrightarrow> ans_errno (answer_at s 0) = EINVAL \<Longrightarrow>
      gwrl_bkd_gather_poll s = (if ms < -1 then Some (poll_returned ms s) else None)"
  using assms
  by (auto simp: gwrl_bkd_gather_poll_def syscall_def Let_def answer_at_def poll_returned_def upd_bkd_def errno_defs)

subsection \<open>Properties\<close>

lemma poll_reports_returned:
  assumes "poll_base K s A" "in_table s A T" "length rs = length T" "\<forall>r \<in> set rs. \<not> flisset r POLLNVAL"
    and "0 \<le> ans_ret (answer_at s 0)" "ans_revents (answer_at s 0) = rs"
  shows "poll_reports (poll_returned ms s) (zip T rs)"
proof -
  let ?P = "pfds (backend (rl s))"
  have n: "unat (nfds (backend (rl s))) = length T" and le: "length T \<le> length ?P" and sub: "set T \<subseteq> A"
    using assms(1,2) by (auto simp: poll_base_def poll_clean_def in_table_def)
  have b: "backend (rl (poll_returned ms s)) = (backend (rl s))\<lparr>pfds := fill_revents (length T) rs ?P\<rparr>"
    using assms(5,6) n by (simp add: poll_returned_def Let_def)
  have fd: "pfd_fd (?P ! j) = src_fd s (T ! j)" if "j < length T" for j
  proof -
    have "map (\<lambda>e. (pfd_fd e, pfd_events e)) (take (length T) ?P) ! j =
        map (\<lambda>a. (src_fd s a, Some (poll_bits (src_fl s a)))) T ! j"
      using assms(2) by (simp only: in_table_def)
    then show ?thesis using that le by simp
  qed
  have f: "fill_revents (length T) rs ?P ! j = (?P ! j)\<lparr>pfd_revents := rs ! j\<rparr>" if "j < length T" for j
    using that assms(3) le by (simp add: fill_revents_def resize_def nth_append)
  have el: "file_src s a" "get_lkp (src_fd s a) s = Some (Some a)" if "a \<in> A" for a
    using assms(1) that by (auto simp: poll_base_def get_lkp_def poll_fd_ok_def)
  have v: "src_fd (poll_returned ms s) a = src_fd s a" "file_src (poll_returned ms s) a = file_src s a" for a
    by (simp_all add: src_fd_def file_src_iff)
  have g: "get_lkp fd (poll_returned ms s) = get_lkp fd s" for fd by (simp add: get_lkp_def b)
  show ?thesis
    using n le assms(3,4) fd f el sub
    by (auto simp: poll_reports_def b v g, simp_all add: fill_revents_def resize_def subset_iff)
qed

text \<open>
  C26: with the poll backend and descriptors that both of its arrays have room for, adding
  a source whose descriptor is not registered yet, removing one, enabling and disabling one always return and keep the lists
  consistent, and the entries passed to \<^verbatim>\<open>poll\<close> stay those of registered sources, all enabled
  ones among them, with their descriptors and interest. After enabling or disabling they
  are exactly the enabled sources, in list order.
\<close>
theorem poll_sources_tracked:
  assumes "srcs_inv s (xs @ a # ys) Ts" "poll_tracks K s (set (xs @ a # ys))"
    and "file_src s b" "b \<notin> set (xs @ a # ys)" "src_nx s b = Some None"
    and "poll_fd_ok K (src_fd s b)" "src_fd s b \<notin> src_fd s ` set (xs @ a # ys)"
    and "prev = None \<or> xs \<noteq> [] \<and> prev = Some (last xs)"
  shows "(\<exists>s'. gwrl_src_add poll_ops (Some b) s = Some s' \<and> srcs_inv s' (b # xs @ a # ys) Ts \<and>
      poll_tracks K s' (set (b # xs @ a # ys))) \<and>
    (\<exists>s'. gwrl_src_del poll_ops (Some a) prev freesrc s = Some s' \<and> srcs_inv s' (xs @ ys) Ts \<and>
      poll_tracks K s' (set (xs @ ys)) \<and> (srcs s' a = None \<longleftrightarrow> freesrc)) \<and>
    (\<exists>s'. gwrl_src_enable poll_ops (Some a) s = Some s' \<and> srcs_inv s' (xs @ a # ys) Ts \<and>
      poll_tracks K s' (set (xs @ a # ys)) \<and>
      in_table s' (set (xs @ a # ys)) (enabled_srcs s' (xs @ a # ys))) \<and>
    (\<exists>s'. gwrl_src_disable poll_ops (Some a) s = Some s' \<and> srcs_inv s' (xs @ a # ys) Ts \<and>
      poll_tracks K s' (set (xs @ a # ys)) \<and>
      in_table s' (set (xs @ a # ys)) (enabled_srcs s' (xs @ a # ys)))"
proof -
  have a: "a \<in> set (xs @ a # ys)" by simp
  have b: "\<exists>ob. srcs s b = Some ob \<and> src_next ob = None" using assms(5) by (simp add: src_nx_iff)
  obtain oa where oa: "srcs s a = Some oa" "src_type oa = 0" using srcs_invD(5) [OF assms(1) a] by (auto simp: file_src_iff)
  have flags: "\<exists>s'. f (Some a) (mod_src g a s) = Some s' \<and> srcs_inv s' (xs @ a # ys) Ts \<and>
      poll_tracks K s' (set (xs @ a # ys)) \<and> in_table s' (set (xs @ a # ys)) (enabled_srcs s' (xs @ a # ys))"
    if gf: "g = src_flset GWRL_ENABLED \<and> f = gwrl_bkd_enable_src_poll \<or>
      g = src_flclr GWRL_ENABLED \<and> f = gwrl_bkd_disable_src_poll" for f g
  proof -
    obtain s' where s': "f (Some a) (mod_src g a s) = Some s'" "bkd_frame (mod_src g a s) s'"
      "poll_tracks K s' (set (xs @ a # ys))" "in_table s' (set (xs @ a # ys)) (enabled_srcs (mod_src g a s) (xs @ a # ys))"
      using poll_flags_law [OF assms(1) a assms(2) refl gf] by blast
    have "srcs_inv (mod_src g a s) (xs @ a # ys) Ts"
      by (rule mod_src_frame [OF _ _ _ assms(1)]) (use gf in \<open>auto simp: src_flset_def src_flclr_def\<close>)
    from bkd_frame_srcs_inv [OF s'(2) this] s' bkd_frame_views(4) [OF s'(2)] show ?thesis by auto
  qed
  have "gwrl_src_enable poll_ops (Some a) s = gwrl_bkd_enable_src_poll (Some a) (mod_src (src_flset GWRL_ENABLED) a s)"
    "gwrl_src_disable poll_ops (Some a) s = gwrl_bkd_disable_src_poll (Some a) (mod_src (src_flclr GWRL_ENABLED) a s)"
    using oa by (simp_all add: gwrl_src_enable_def gwrl_src_disable_def mod_src_def src_flset_def src_flclr_def
        src_type_defs poll_ops_def)
  then show ?thesis
    using pol.add_file [OF assms(1,2,3,4) b assms(6,7)] pol.del_file [OF assms(1,2,8), of freesrc]
      flags [of "src_flset GWRL_ENABLED" gwrl_bkd_enable_src_poll]
      flags [of "src_flclr GWRL_ENABLED" gwrl_bkd_disable_src_poll]
    by auto
qed

text \<open>
  C19: gathering passes to \<^verbatim>\<open>poll\<close> the descriptor and the interest of each source in the table.
  When it reports something and no descriptor is bad, one event is posted for each enabled
  source, in table order, that is ready: an error or a hang-up counts as readable. On a
  timeout, \<^verbatim>\<open>EINTR\<close> or \<^verbatim>\<open>EAGAIN\<close> nothing is posted.
\<close>
theorem poll_gather_posts:
  assumes "poll_base K s A" "in_table s A T" "evts_inv s E C" "poll_timeout s = Some ms"
    and "ans_revents (answer_at s 0) = rs" "length rs = length T" "\<forall>r \<in> set rs. \<not> flisset r POLLNVAL"
  shows "(0 < ans_ret (answer_at s 0) \<longrightarrow>
      (\<exists>s' N C'. gwrl_bkd_gather_poll s = Some s' \<and> evts_inv s' (rev N @ E) C' \<and>
        calls s' = Sys_poll (map (\<lambda>a. (src_fd s a, Some (poll_bits (src_fl s a)))) T) (sint (word_of_int ms :: 32 word)) # calls s \<and>
        map (\<lambda>e. map_option evt_core (evts s' e)) N = map (poll_evt s) (filter (poll_due s) (zip T rs)) \<and>
        (\<forall>e \<in> set E. evts s' e = evts s e))) \<and>
    (ans_ret (answer_at s 0) = 0 \<or>
       ans_ret (answer_at s 0) < 0 \<and> ans_errno (answer_at s 0) \<in> {EINTR, EAGAIN} \<longrightarrow>
      gwrl_bkd_gather_poll s = Some (poll_returned ms s))"
proof (intro conjI impI)
  have le: "unat (nfds (backend (rl s))) \<le> length (pfds (backend (rl s)))"
    using assms(1) by (simp add: poll_base_def poll_clean_def)
  note g = gather_poll_cases [OF assms(4) le]
  assume r: "0 < ans_ret (answer_at s 0)"
  have rp: "poll_reports (poll_returned ms s) (zip T rs)"
    by (rule poll_reports_returned [OF assms(1,2,6,7) _ assms(5)]) (use r in simp)
  note v = epoll_views [of "poll_returned ms s" s, simplified]
  have w: "poll_due (poll_returned ms s) = poll_due s" "poll_evt (poll_returned ms s) = poll_evt s"
    by (simp_all add: fun_eq_iff poll_due_def poll_evt_def v)
  obtain s' N C' where s': "poll_post_loop 0 (poll_returned ms s) = Some s'" "evt_frame (poll_returned ms s) s'"
    "evts_inv s' (rev N @ E) C'"
    "map (\<lambda>e. map_option evt_core (evts s' e)) N = map (poll_evt s) (filter (poll_due s) (zip T rs))"
    "\<forall>e \<in> set E. evts s' e = evts s e"
    using poll_post_loop_ok [OF _ _ rp poll_returned_evts_inv [OF assms(3)], of 0 "zip T rs"] unfolding w by auto
  have "map (\<lambda>e. (pfd_fd e, pfd_events e)) (take (unat (nfds (backend (rl s)))) (pfds (backend (rl s)))) =
      map (\<lambda>a. (src_fd s a, Some (poll_bits (src_fl s a)))) T"
    using assms(2) by (simp add: in_table_def)
  then have "calls (poll_returned ms s) =
      Sys_poll (map (\<lambda>a. (src_fd s a, Some (poll_bits (src_fl s a)))) T) (sint (word_of_int ms :: 32 word)) # calls s"
    by (simp add: poll_returned_def Let_def)
  moreover have "calls s' = calls (poll_returned ms s)" by (subst s'(2) [unfolded evt_frame_def]) simp
  ultimately show "\<exists>s' N C'. gwrl_bkd_gather_poll s = Some s' \<and> evts_inv s' (rev N @ E) C' \<and>
      calls s' = Sys_poll (map (\<lambda>a. (src_fd s a, Some (poll_bits (src_fl s a)))) T) (sint (word_of_int ms :: 32 word)) # calls s \<and>
      map (\<lambda>e. map_option evt_core (evts s' e)) N = map (poll_evt s) (filter (poll_due s) (zip T rs)) \<and>
      (\<forall>e \<in> set E. evts s' e = evts s e)"
    using g(2) [OF r] s' by (intro exI [of _ s'] exI [of _ N] exI [of _ C']) simp
next
  have le: "unat (nfds (backend (rl s))) \<le> length (pfds (backend (rl s)))"
    using assms(1) by (simp add: poll_base_def poll_clean_def)
  show "gwrl_bkd_gather_poll s = Some (poll_returned ms s)"
    if "ans_ret (answer_at s 0) = 0 \<or> ans_ret (answer_at s 0) < 0 \<and> ans_errno (answer_at s 0) \<in> {EINTR, EAGAIN}"
    using that by (rule gather_poll_cases(1) [OF assms(4) le])
qed

lemma length_resize [simp]: "length (resize n x xs) = n"
  by (simp add: resize_def)

lemma grow_pfds_keeps:
  assumes "grow_pfds s = Some t"
  shows "lkp_src (backend (rl t)) = lkp_src (backend (rl s))" "lkp_maxfd (backend (rl t)) = lkp_maxfd (backend (rl s))"
    "srcs t = srcs s"
proof -
  obtain om er where c: "calloc_msg ''3l8FG'' (upd_bkd (\<lambda>b. b\<lparr>maxnfds := maxnfds (backend (rl s)) +
      word_of_int (gwrl_pollfd_count (options (rl s)))\<rparr>) s) = Some (brk s, (upd_bkd (\<lambda>b. b\<lparr>maxnfds := maxnfds (backend (rl s)) +
      word_of_int (gwrl_pollfd_count (options (rl s)))\<rparr>) s)\<lparr>brk := Suc (brk s), oom := om, errs := er\<rparr>)"
    by (rule calloc_msg_ok [where s = "upd_bkd (\<lambda>b. b\<lparr>maxnfds := maxnfds (backend (rl s)) +
      word_of_int (gwrl_pollfd_count (options (rl s)))\<rparr>) s"]) simp
  show "lkp_src (backend (rl t)) = lkp_src (backend (rl s))" "lkp_maxfd (backend (rl t)) = lkp_maxfd (backend (rl s))"
    "srcs t = srcs s"
    using assms c by (auto simp: grow_pfds_def Let_def split: if_splits)
qed

lemma lkp_never_holds:
  assumes "lkp_src (backend (rl s)) = Some l" "lkp_maxfd (backend (rl s)) < fd" "grow_lkp fd s = Some t"
  shows "set_lkp fd p t = None"
proof -
  let ?u = "upd_bkd (\<lambda>b. b\<lparr>lkp_maxfd := fd\<rparr>) s"
  obtain om er where c: "calloc_msg ''3lUv4'' ?u = Some (brk s, ?u\<lparr>brk := Suc (brk s), oom := om, errs := er\<rparr>)"
    by (rule calloc_msg_ok [of "''3lUv4''" ?u]) simp
  have "(8 * fd + 1) div 8 = fd" by simp
  then have "lkp_src (backend (rl t)) = Some (resize (nat fd) None l)"
    using assms c by (auto simp: grow_lkp_def Let_def)
  then show ?thesis by (simp add: set_lkp_def)
qed

text \<open>
  the lookup array is reallocated one pointer too small. Once it exists, adding a source
  with a higher descriptor than all before always writes past its end, whatever the state.
\<close>
theorem poll_add_overflows:
  assumes "srcs s a = Some oa" "src_type oa = GWRL_SRC_TYPE_FILE" "as_file oa = Some f"
    and "lkp_src (backend (rl s)) = Some l" "lkp_maxfd (backend (rl s)) < file_fd f"
  shows "gwrl_src_add poll_ops (Some a) s = None"
proof -
  have n: "gwrl_bkd_src_add_poll (Some a) t = None"
    if prm: "srcs t a = Some ot" "as_file ot = Some f" "backend (rl t) = backend (rl s)" for t ot
  proof (cases "gwrl_bkd_src_add_poll (Some a) t")
    case (Some u)
    obtain s1 s2 s3 s4 where st: "grow_pfds t = Some s1"
      "upd_src (set_pfd (Some (fds_at (backend (rl s1)), unat (nfds (backend (rl s1)))))) (Some a) s1 = Some s2"
      "upd_pfd (unat (nfds (backend (rl s1)))) (\<lambda>e. add_interest_bits (src_flags ot) (e\<lparr>pfd_fd := file_fd f, pfd_revents := 0\<rparr>))
        (upd_bkd (\<lambda>b. b\<lparr>nfds := nfds b + 1\<rparr>) s2) = Some s3"
      "grow_lkp (file_fd f) s3 = Some s4" "set_lkp (file_fd f) (Some a) s4 = Some u"
      using Some prm(1,2) by (auto simp: gwrl_bkd_src_add_poll_def Let_def split: Option.bind_splits)
    note k = grow_pfds_keeps(1,2) [OF st(1)]
    have "backend (rl s2) = backend (rl s1)" using st(2) by (auto simp: upd_src_def split: Option.bind_splits)
    moreover have "lkp_src (backend (rl s3)) = lkp_src (backend (rl s2))" "lkp_maxfd (backend (rl s3)) = lkp_maxfd (backend (rl s2))"
      using st(3) by (auto simp: upd_pfd_def split: Option.bind_splits)
    ultimately have "set_lkp (file_fd f) (Some a) s4 = None"
      using lkp_never_holds [OF _ _ st(4)] k prm(3) assms(4,5) by simp
    with st(5) show ?thesis by simp
  qed simp
  have ty: "src_type oa = 0" using assms(2) by (simp add: src_type_defs)
  show ?thesis
  proof (cases "nth_opt (sources (rl s)) 0")
    case None
    then show ?thesis using assms(1) ty by (simp add: gwrl_src_add_def)
  next
    case (Some h)
    then have "sources (rl s) \<noteq> []" by (auto simp: nth_opt_def split: if_splits)
    have "as_file (oa\<lparr>src_next := h\<rparr>) = Some f" using assms(3) by (simp add: as_file_def)
    note asf = this
    let ?rl = "(rl s)\<lparr>sources := (sources (rl s))[0 := Some a]\<rparr>"
    have "gwrl_bkd_src_add_poll (Some a) (s\<lparr>rl := ?rl\<rparr>) = None" by (rule n [of _ oa]) (simp_all add: assms(1,3))
    moreover have "gwrl_bkd_src_add_poll (Some a) (s\<lparr>srcs := (srcs s)(a \<mapsto> oa\<lparr>src_next := h\<rparr>), rl := ?rl\<rparr>) = None"
      by (rule n [of _ "oa\<lparr>src_next := h\<rparr>"]) (simp_all add: asf)
    ultimately show ?thesis
      using Some assms(1) ty \<open>sources (rl s) \<noteq> []\<close>
      by (simp add: gwrl_src_add_def set_sources_def src_type_defs poll_ops_def)
  qed
qed

text \<open>
  enabling a source refills the array without a check of its size. When the sources that
  are enabled then are more than its entries (the array was full, one source was disabled,
  another added in its place, and the first one is enabled again), the write is out of range.
\<close>
theorem poll_enable_overflows:
  assumes "srcs_inv s Fs Ts" "a \<in> set Fs" "poll_clean s"
    and "length (pfds (backend (rl s))) < length (enabled_srcs (mod_src (src_flset GWRL_ENABLED) a s) Fs)"
  shows "gwrl_src_enable poll_ops (Some a) s = None"
proof -
  let ?t = "mod_src (src_flset GWRL_ENABLED) a s"
  obtain oa where oa: "srcs s a = Some oa" "src_type oa = 0" using srcs_invD(5) [OF assms(1,2)] by (auto simp: file_src_iff)
  have bk: "backend (rl ?t) = backend (rl s)" by (simp add: mod_src_def)
  then have cl: "poll_clean ?t" using assms(3) by (simp add: poll_clean_def)
  have inv: "srcs_inv ?t Fs Ts" by (rule mod_src_frame [OF _ _ _ assms(1)]) (simp_all add: src_flset_def)
  have "gwrl_bkd_recalc_srcs_poll ?t = None" by (rule poll_recalc_none [OF inv cl]) (use assms(4) bk in simp)
  moreover have "upd_src (src_flset GWRL_ENABLED) (Some a) ?t = Some ?t"
    using oa by (simp add: mod_src_def fun_upd_idem src_flset_def flset_def or.assoc)
  ultimately show ?thesis
    using oa by (simp add: gwrl_src_enable_def mod_src_def src_flset_def src_type_defs poll_ops_def
        gwrl_bkd_enable_src_poll_def)
qed

text \<open>
  a disabled source keeps the pointer to its former entry. Changing its flags overwrites the
  interest of the source that has moved into that entry: \<^verbatim>\<open>poll\<close> then waits on the other
  source's descriptor for what the disabled one wants.
\<close>
theorem poll_update_disabled_clobbers:
  assumes "srcs_inv s Fs Ts" "poll_base K s (set Fs)" "in_table s (set Fs) (enabled_srcs s Fs)"
    and "enabled_srcs s Fs = us @ a # b # vs"
  shows "\<exists>t u. gwrl_src_disable poll_ops (Some a) s = Some t \<and>
    gwrl_src_file_update_flags_poll (Some a) fl t = Some u \<and> src_fl u b = src_fl s b \<and>
    pfd_fd (pfds (backend (rl u)) ! length us) = src_fd s b \<and>
    pfd_events (pfds (backend (rl u)) ! length us) = Some (poll_bits fl)"
proof -
  have a: "a \<in> set Fs" and b: "b \<in> set Fs"
    using assms(4) by (auto simp: enabled_srcs_def dest!: arg_cong [where f = set])
  have d: "distinct (us @ a # b # vs)" using assms(3,4) by (simp add: in_table_def)
  let ?m = "mod_src (src_flclr GWRL_ENABLED) a s"
  obtain oa where oa: "srcs s a = Some oa" "src_type oa = 0" using srcs_invD(5) [OF assms(1) a] by (auto simp: file_src_iff)
  have g: "src_part (src_flclr k o1) = src_part o1" "src_type (src_flclr k o1) = src_type o1" for k o1
    by (simp_all add: src_flclr_def)
  note v = flags_views [where g = "src_flclr GWRL_ENABLED" and a = a and s = s, OF g]
  have fa: "\<not> flisset (src_fl ?m a) GWRL_ENABLED"
    using oa by (simp add: mod_src_def src_fl_def src_flclr_def flag_simps)
  have "enabled_srcs ?m Fs = filter (\<lambda>c. c \<noteq> a) (enabled_srcs s Fs)"
    unfolding enabled_srcs_def filter_filter by (rule filter_cong) (use fa v(3) in metis)+
  moreover have "filter (\<lambda>c. c \<noteq> a) us = us" "filter (\<lambda>c. c \<noteq> a) vs = vs"
    using d by (auto simp: filter_id_conv)
  ultimately have en: "enabled_srcs ?m Fs = us @ b # vs" using assms(4) d by simp
  have tr: "poll_tracks K s (set Fs)" using assms(2,3) by (auto simp: poll_tracks_def)
  obtain t where t: "gwrl_bkd_disable_src_poll (Some a) ?m = Some t" "bkd_frame ?m t"
    "poll_tracks K t (set Fs)" "in_table t (set Fs) (us @ b # vs)" "fds_at (backend (rl t)) = fds_at (backend (rl s))"
    "srcs t a = srcs ?m a"
    using poll_flags_law [OF assms(1) a tr refl, of "src_flclr GWRL_ENABLED" gwrl_bkd_disable_src_poll] en d by auto
  have dis: "gwrl_src_disable poll_ops (Some a) s = Some t"
    using t(1) oa by (simp add: gwrl_src_disable_def mod_src_def poll_ops_def src_flclr_def src_type_defs)
  have "\<forall>j < length (us @ a # b # vs). src_pfd s ((us @ a # b # vs) ! j) = Some (fds_at (backend (rl s)), j)"
    using assms(3) unfolding assms(4) in_table_def by blast
  from spec [OF this, of "length us"] have pf: "src_pfd s a = Some (fds_at (backend (rl s)), length us)" by simp
  let ?oa = "src_flclr GWRL_ENABLED oa" and ?P = "pfds (backend (rl t))"
  obtain f where f: "as_file oa = Some f" "file_pfd f = Some (fds_at (backend (rl s)), length us)"
    using pf oa by (auto simp: src_pfd_def split: option.splits)
  have st: "srcs t a = Some ?oa" "as_file ?oa = Some f"
    using t(6) oa f by (simp_all add: mod_src_def as_file_def src_flclr_def)
  have i: "length us < length ?P" using t(3,4) by (auto simp: poll_tracks_def poll_base_def poll_clean_def in_table_def)
  have "map (\<lambda>e. (pfd_fd e, pfd_events e)) (take (length (us @ b # vs)) ?P) ! length us =
      map (\<lambda>a. (src_fd t a, Some (poll_bits (src_fl t a)))) (us @ b # vs) ! length us"
    using t(4) by (simp only: in_table_def)
  then have "pfd_fd (?P ! length us) = src_fd t b" using i by (simp add: nth_append)
  moreover have "src_fd t b = src_fd s b" "src_fl t b = src_fl s b"
    using bkd_frame_flags [OF t(2)] v d by auto
  moreover have "a \<noteq> b" using d by auto
  ultimately have k: "pfd_fd (?P ! length us) = src_fd s b" "src_fl t b = src_fl s b" "a \<noteq> b" by simp_all
  let ?u = "upd_bkd (\<lambda>b. b\<lparr>pfds := (pfds b)[length us := (pfds b ! length us)\<lparr>pfd_events := Some (poll_bits fl)\<rparr>]\<rparr>)
    t\<lparr>srcs := (srcs t)(a \<mapsto> ?oa\<lparr>src_flags := fl\<rparr>)\<rparr>"
  have "gwrl_src_file_update_flags_poll (Some a) fl t = Some ?u"
    using st f(2) t(5) i by (simp add: gwrl_src_file_update_flags_poll_def upd_pfd_ok add_interest_idle)
  moreover have "src_fl ?u b = src_fl s b" using k(2,3) by (simp add: src_fl_def)
  moreover have "pfd_fd (pfds (backend (rl ?u)) ! length us) = src_fd s b"
    "pfd_events (pfds (backend (rl ?u)) ! length us) = Some (poll_bits fl)"
    using i k(1) by (simp_all add: upd_bkd_def)
  ultimately show ?thesis using dis by blast
qed

text \<open>
  when the array is full, adding a source reallocates it, and the array may move. Then every
  pointer to an entry that a registered source keeps is dangling, so changing the flags
  of any of them has no defined result; and the interest of the new entry is added to
  memory that was never initialised.
\<close>
theorem poll_growth_dangles:
  assumes "in_table s A T" "b \<in> set T" "file_src s b" "file_src s a" "a \<notin> set T"
    and "nfds (backend (rl s)) = maxnfds (backend (rl s))" "length (pfds (backend (rl s))) = length T"
    and "m = maxnfds (backend (rl s)) + word_of_int (gwrl_pollfd_count (options (rl s)))"
    and "maxnfds (backend (rl s)) < m" "fds_at (backend (rl s)) < brk s"
    and "lkp_src (backend (rl s)) = Some l" "0 \<le> src_fd s a" "nat (src_fd s a) < length l"
    and "src_fd s a \<le> lkp_maxfd (backend (rl s))"
  shows "\<exists>s'. gwrl_bkd_src_add_poll (Some a) s = Some s' \<and>
    pfd_fd (pfds (backend (rl s')) ! length T) = src_fd s a \<and>
    pfd_events (pfds (backend (rl s')) ! length T) = None \<and>
    gwrl_src_file_update_flags_poll (Some b) fl s' = None"
proof -
  obtain oa f where oa: "srcs s a = Some oa" "as_file oa = Some f" "file_fd f = src_fd s a"
    using assms(4) by (rule file_src_part)
  obtain ob g where ob: "srcs s b = Some ob" "as_file ob = Some g" using assms(3) by (rule file_src_part)
  let ?b = "backend (rl s)" and ?k = "length T"
  have n: "unat (nfds ?b) = ?k" using assms(1) by (simp add: in_table_def)
  have lt: "?k < unat m" using assms(6,9) n by (simp add: word_less_nat_alt)
  have "m \<noteq> 0" using assms(9) by auto
  obtain j where j: "j < ?k" "T ! j = b" using assms(2) by (auto simp: in_set_conv_nth)
  have pb: "src_pfd s b = Some (fds_at ?b, j)" using assms(1) j by (auto simp: in_table_def)
  then have gp: "file_pfd g = Some (fds_at ?b, j)" using ob by (simp add: src_pfd_def)
  let ?u = "upd_bkd (\<lambda>b. b\<lparr>maxnfds := m\<rparr>) s"
  obtain om er where c: "calloc_msg ''3l8FG'' ?u = Some (brk s, ?u\<lparr>brk := Suc (brk s), oom := om, errs := er\<rparr>)"
    by (rule calloc_msg_ok [of "''3l8FG''" ?u]) simp
  let ?P = "resize (unat m) raw_pollfd (pfds ?b)"
  let ?v = "upd_bkd (\<lambda>b. b\<lparr>fds_at := brk s, pfds := ?P\<rparr>) (?u\<lparr>brk := Suc (brk s), oom := om, errs := er\<rparr>)"
  have gr: "grow_pfds s = Some ?v" using assms(6,8) \<open>m \<noteq> 0\<close> c by (simp add: grow_pfds_def) (simp add: upd_bkd_def Let_def)
  have raw: "?P ! ?k = raw_pollfd" using assms(7) lt by (simp add: resize_def nth_append)
  let ?e = "add_interest_bits (src_flags oa) (raw_pollfd\<lparr>pfd_fd := src_fd s a, pfd_revents := 0\<rparr>)"
  have e: "pfd_fd ?e = src_fd s a" "pfd_events ?e = None"
    by (simp_all add: add_interest_bits_def raw_pollfd_def Let_def)
  let ?s' = "poll_put (\<lambda>b. b\<lparr>nfds := nfds b + 1, pfds := ?P[?k := ?e],
      lkp_src := Some (l[nat (src_fd s a) := Some (Some a)])\<rparr>) a (Some (brk s, ?k)) ?v"
  have add: "gwrl_bkd_src_add_poll (Some a) s = Some ?s'"
    using oa gr n lt raw assms(11-14)
    by (simp add: gwrl_bkd_src_add_poll_def Let_def grow_lkp_def set_lkp_def upd_pfd_def nth_opt_def)
       (simp add: poll_put_def upd_bkd_def)
  have ab: "b \<noteq> a" using assms(2,5) by auto
  obtain s' where s': "gwrl_bkd_src_add_poll (Some a) s = Some s'" "srcs s' b = Some ob"
    "fds_at (backend (rl s')) = brk s" "pfds (backend (rl s')) ! ?k = ?e"
    by (rule that [OF add]) (use ob ab lt in simp_all)
  have "gwrl_src_file_update_flags_poll (Some b) fl s' = None"
    using s'(2,3) ob gp assms(10) by (simp add: gwrl_src_file_update_flags_poll_def)
  with s' e show ?thesis by auto
qed

subsection \<open>Instances\<close>

text \<open>
  The sources of \<open>select_world\<close> in a table of \<open>2 + n\<close> entries, and a lookup for the descriptors
  below 8; \<^verbatim>\<open>poll\<close> reports the first readable and a hang-up of the second.
\<close>

definition poll_src :: "int \<Rightarrow> flags8 \<Rightarrow> ptr \<Rightarrow> (addr \<times> nat) option \<Rightarrow> gwrlsrc" where
  "poll_src fd fl nxt p = set_pfd p (file_src_on fd fl nxt)"

definition poll_world :: "nat \<Rightarrow> gwrlbkd_poll world" where
  "poll_world n = (blank_world undefined)\<lparr>
     srcs := [11 \<mapsto> poll_src 3 (GWRL_ENABLED OR GWRL_RD) (Some 12) (Some (10, 0)),
              12 \<mapsto> poll_src 5 (GWRL_ENABLED OR GWRL_WR) None (Some (10, 1)),
              13 \<mapsto> poll_src 7 GWRL_RD None None],
     brk := 14,
     rl := (zero_gwrl \<lparr>nfds = 2, maxnfds = of_nat (2 + n), lkp_maxfd = 7,
         lkp_src = Some [Some None, Some None, Some None, Some (Some 11), Some None, Some (Some 12), Some None, Some None],
         fds_at = 10,
         pfds = [\<lparr>pfd_fd = 3, pfd_events = Some POLLIN, pfd_revents = 0\<rparr>,
                 \<lparr>pfd_fd = 5, pfd_events = Some POLLOUT, pfd_revents = 0\<rparr>] @ replicate n zero_pollfd\<rparr>)
       \<lparr>sources := [Some 11, None]\<rparr>,
     answers := (\<lambda>n. (ok_answer 2)\<lparr>ans_revents := [POLLIN, POLLHUP]\<rparr>)\<rparr>"

lemma poll_world_srcs:
  "src_fd (poll_world n) 11 = 3" "src_fd (poll_world n) 12 = 5" "src_fd (poll_world n) 13 = 7"
  "src_fl (poll_world n) 11 = GWRL_ENABLED OR GWRL_RD" "src_fl (poll_world n) 12 = GWRL_ENABLED OR GWRL_WR"
  "file_src (poll_world n) 11" "file_src (poll_world n) 12" "file_src (poll_world n) 13"
  "src_pfd (poll_world n) 11 = Some (10, 0)" "src_pfd (poll_world n) 12 = Some (10, 1)"
  by (simp_all add: src_fd_def src_fl_def file_src_iff src_pfd_def poll_world_def poll_src_def set_pfd_def
      file_src_on_def as_file_def src_type_defs)

lemma poll_world_bkd:
  "nfds (backend (rl (poll_world n))) = 2" "maxnfds (backend (rl (poll_world n))) = of_nat (2 + n)"
  "lkp_maxfd (backend (rl (poll_world n))) = 7" "fds_at (backend (rl (poll_world n))) = 10"
  "lkp_src (backend (rl (poll_world n))) =
     Some [Some None, Some None, Some None, Some (Some 11), Some None, Some (Some 12), Some None, Some None]"
  "pfds (backend (rl (poll_world n))) =
     [\<lparr>pfd_fd = 3, pfd_events = Some POLLIN, pfd_revents = 0\<rparr>,
      \<lparr>pfd_fd = 5, pfd_events = Some POLLOUT, pfd_revents = 0\<rparr>] @ replicate n zero_pollfd"
  by (simp_all add: poll_world_def zero_gwrl_def)

lemma poll_world_inv: "srcs_inv (poll_world n) [11, 12] []" "evts_inv (poll_world n) [] []"
proof -
  show "srcs_inv (poll_world n) [11, 12] []"
    using poll_world_srcs [of n]
    by (auto simp: srcs_inv_def src_type_defs src_nx_iff fresh_ok_def)
      (simp_all add: poll_world_def poll_src_def set_pfd_def file_src_on_def blank_world_def zero_gwrl_def)
  show "evts_inv (poll_world n) [] []"
    by (simp add: evts_inv_def cache_ok_def fresh_ok_def poll_world_def blank_world_def zero_gwrl_def)
qed

lemma poll_bits_world:
  "poll_bits (GWRL_ENABLED OR GWRL_RD) = POLLIN" "poll_bits (GWRL_ENABLED OR GWRL_WR) = POLLOUT"
  by (simp_all add: poll_bits_def flag_simps bit_or_iff)

lemma poll_world_table:
  "enabled_srcs (poll_world n) [11, 12] = [11, 12]" "in_table (poll_world n) {11, 12} [11, 12]"
  "n < 65000 \<Longrightarrow> poll_clean (poll_world n)" "6 \<le> n \<Longrightarrow> n < 65000 \<Longrightarrow> poll_base 8 (poll_world n) {11, 12}"
proof -
  show "enabled_srcs (poll_world n) [11, 12] = [11, 12]"
    by (simp add: enabled_srcs_def poll_world_srcs flag_simps bit_or_iff)
  show "in_table (poll_world n) {11, 12} [11, 12]"
    by (auto simp: in_table_def poll_world_srcs poll_world_bkd poll_bits_world less_Suc_eq)
  show c: "poll_clean (poll_world n)" if "n < 65000"
    using that by (simp add: poll_clean_def poll_world_bkd)
  have u: "unat (of_nat (2 + n) :: 16 word) = 2 + n" if "n < 65000"
    using that unat_of_nat [of "2 + n", where 'a = 16] by simp
  show "poll_base 8 (poll_world n) {11, 12}" if "6 \<le> n" "n < 65000"
    using c u that
    by (simp add: poll_base_def poll_world_srcs poll_fd_ok_def poll_world_bkd uint_nat)
qed

lemma poll_world_tracks: "poll_tracks 8 (poll_world 62) {11, 12}"
  using poll_world_table(2,4) [of 62] by (auto simp: poll_tracks_def)

theorem poll_sources_tracked_witness:
  "\<exists>s'. gwrl_src_del poll_ops (Some 11) None True (poll_world 62) = Some s' \<and> srcs_inv s' [12] [] \<and>
    poll_tracks 8 s' {12} \<and> srcs s' 11 = None"
  using poll_sources_tracked [of "poll_world 62" "[]" 11 "[12]" "[]" 8 13 None True] poll_world_tracks
    poll_world_inv poll_world_srcs [of 62]
  by (simp add: poll_fd_ok_def src_nx_srcs) (simp add: poll_world_def poll_src_def set_pfd_def file_src_on_def)

theorem poll_gather_posts_witness:
  "\<exists>s' N C'. gwrl_bkd_gather_poll (poll_world 62) = Some s' \<and> evts_inv s' (rev N) C' \<and>
    calls s' = [Sys_poll [(3, Some POLLIN), (5, Some POLLOUT)] 0] \<and>
    map (\<lambda>e. map_option evt_core (evts s' e)) N =
      [Some (new_evt (Some 11) (Some (Fn_user 1)) None 3 GWRL_RD None),
       Some (new_evt (Some 12) (Some (Fn_user 1)) None 5 GWRL_RD None)]"
proof -
  let ?s = "poll_world 62"
  have tm: "poll_timeout ?s = Some 0"
    by (simp add: poll_timeout_def poll_world_def zero_gwrl_def no_time_def gwtm_timespec_to_ms_def)
  have a: "answer_at ?s 0 = (ok_answer 2)\<lparr>ans_revents := [POLLIN, POLLHUP]\<rparr>" "calls ?s = []"
    by (simp_all add: answer_at_def poll_world_def blank_world_def)
  have rd: "poll_ready POLLIN = GWRL_RD" "poll_ready POLLHUP = GWRL_RD" "\<not> flisset POLLIN POLLNVAL" "\<not> flisset POLLHUP POLLNVAL"
    by (simp_all add: poll_ready_def POLLIN_def POLLHUP_def POLLERR_def POLLOUT_def POLLNVAL_def flisset_def flag_defs)
  have "map (poll_evt ?s) (filter (poll_due ?s) (zip [11, 12] [POLLIN, POLLHUP])) =
      [Some (new_evt (Some 11) (Some (Fn_user 1)) None 3 GWRL_RD None),
       Some (new_evt (Some 12) (Some (Fn_user 1)) None 5 GWRL_RD None)]"
    by (simp add: poll_due_def poll_evt_def poll_world_srcs rd flag_simps bit_or_iff)
       (simp add: poll_world_def poll_src_def set_pfd_def file_src_on_def flag_defs)
  moreover obtain s' N C' where "gwrl_bkd_gather_poll ?s = Some s'" "evts_inv s' (rev N) C'"
    "calls s' = [Sys_poll [(3, Some POLLIN), (5, Some POLLOUT)] 0]"
    "map (\<lambda>e. map_option evt_core (evts s' e)) N =
      map (poll_evt ?s) (filter (poll_due ?s) (zip [11, 12] [POLLIN, POLLHUP]))"
    using poll_gather_posts [of 8 ?s "{11, 12}" "[11, 12]" "[]" "[]" 0, OF _ poll_world_table(2) poll_world_inv(2) tm refl]
      poll_world_table(4) [of 62]
    by (auto simp: a ok_answer_def rd poll_world_srcs poll_bits_world)
  ultimately show ?thesis by - (rule exI [of _ s'], rule exI [of _ N], rule exI [of _ C'], simp)
qed

theorem poll_add_overflows_witness:
  "gwrl_src_add poll_ops (Some 13) (upd_bkd (\<lambda>b. b\<lparr>lkp_maxfd := 5\<rparr>) (poll_world 62)) = None"
proof -
  let ?s = "upd_bkd (\<lambda>b. b\<lparr>lkp_maxfd := 5\<rparr>) (poll_world 62)"
  have s: "srcs ?s 13 = Some (poll_src 7 GWRL_RD None None)" by (simp add: poll_world_def)
  have f: "as_file (poll_src 7 GWRL_RD None None) = Some \<lparr>file_fd = 7, file_pfd = None, file_pdata = None\<rparr>"
    "src_type (poll_src 7 GWRL_RD None None) = GWRL_SRC_TYPE_FILE"
    by (simp_all add: poll_src_def set_pfd_def file_src_on_def as_file_def)
  show ?thesis by (rule poll_add_overflows [OF s f(2,1)]) (simp_all add: poll_world_bkd)
qed

text \<open>A table of one entry, which the second source has; the first one is disabled.\<close>

theorem poll_enable_overflows_witness:
  "gwrl_src_enable poll_ops (Some 11)
    (upd_bkd (\<lambda>b. b\<lparr>nfds := 1, maxnfds := 1, pfds := [\<lparr>pfd_fd = 5, pfd_events = Some POLLOUT, pfd_revents = 0\<rparr>]\<rparr>)
      (mod_src (src_flclr GWRL_ENABLED) 11 (poll_world 0))) = None"
proof -
  let ?m = "mod_src (src_flclr GWRL_ENABLED) 11 (poll_world 0)"
  let ?s = "upd_bkd (\<lambda>b. b\<lparr>nfds := 1, maxnfds := 1,
    pfds := [\<lparr>pfd_fd = 5, pfd_events = Some POLLOUT, pfd_revents = 0\<rparr>]\<rparr>) ?m"
  have "srcs_inv ?m [11, 12] []"
    by (rule mod_src_frame [OF _ _ _ poll_world_inv(1)]) (simp_all add: src_flclr_def)
  then have i: "srcs_inv ?s [11, 12] []" by (rule bkd_frame_srcs_inv [OF upd_bkd_frame])
  have "enabled_srcs (mod_src (src_flset GWRL_ENABLED) 11 ?s) [11, 12] = [11, 12]"
    by (simp add: enabled_srcs_def src_fl_def mod_src_def poll_world_def poll_src_def set_pfd_def file_src_on_def
        src_flset_def src_flclr_def flag_simps bit_or_iff)
  moreover have "poll_clean ?s" by (simp add: poll_clean_def)
  ultimately show ?thesis by (intro poll_enable_overflows [OF i]) simp_all
qed

theorem poll_update_disabled_clobbers_witness:
  "\<exists>t u. gwrl_src_disable poll_ops (Some 11) (poll_world 62) = Some t \<and>
    gwrl_src_file_update_flags_poll (Some 11) GWRL_RD t = Some u \<and>
    src_fl u 12 = GWRL_ENABLED OR GWRL_WR \<and> pfd_fd (pfds (backend (rl u)) ! 0) = 5 \<and>
    pfd_events (pfds (backend (rl u)) ! 0) = Some POLLIN"
proof -
  have "poll_bits GWRL_RD = POLLIN" by (simp add: poll_bits_def flag_simps)
  then show ?thesis
    using poll_update_disabled_clobbers [OF poll_world_inv(1), of 8 62 "[]" 11 12 "[]" GWRL_RD]
      poll_world_table [of 62] poll_world_srcs [of 62]
    by simp
qed

theorem poll_growth_dangles_witness:
  "\<exists>s'. gwrl_bkd_src_add_poll (Some 13) (poll_world 0) = Some s' \<and>
    pfd_fd (pfds (backend (rl s')) ! 2) = 7 \<and> pfd_events (pfds (backend (rl s')) ! 2) = None \<and>
    gwrl_src_file_update_flags_poll (Some 11) GWRL_RD s' = None"
proof -
  have o: "gwrl_pollfd_count (options (rl (poll_world 0))) = 64" "brk (poll_world 0) = 14"
    by (simp_all add: poll_world_def zero_gwrl_def GWRL_DEFAULT_OPTIONS_def)
  have "\<exists>s'. gwrl_bkd_src_add_poll (Some 13) (poll_world 0) = Some s' \<and>
    pfd_fd (pfds (backend (rl s')) ! length [11, 12::nat]) = src_fd (poll_world 0) 13 \<and>
    pfd_events (pfds (backend (rl s')) ! length [11, 12::nat]) = None \<and>
    gwrl_src_file_update_flags_poll (Some 11) GWRL_RD s' = None"
    by (rule poll_growth_dangles [OF poll_world_table(2) _ _ _ _ _ _ refl _ _ poll_world_bkd(5)])
       (simp_all add: poll_world_srcs poll_world_bkd o)
  then show ?thesis by (simp add: poll_world_srcs numeral_2_eq_2)
qed

end
