(* ===== verification/Gw_Kqueue.thy ===== *)
theory Gw_Kqueue
  imports Gw_Epoll
begin

section \<open>The kqueue backend (\<^verbatim>\<open>src/gwrl/event_kqueue.c\<close>)\<close>

text \<open>
  The kernel keeps one note per descriptor and filter (reading, writing): adding, enabling,
  disabling and removing a source is one \<^verbatim>\<open>kevent\<close> per interest flag, and gathering posts an event
  for each note that is handed back. The names of the functions that every backend defines
  carry the suffix \<open>_kqueue\<close>. The notes the kernel holds are read off the recorded calls
  (\<open>knotes\<close>); \<open>kqueue_tracks\<close> says that they are those of a set of sources, and with it the
  backend is an interpretation of \<open>source_backend\<close>.
\<close>

definition EV_ADD :: flags16 where "EV_ADD = 2 ^ 0"
definition EV_DELETE :: flags16 where "EV_DELETE = 2 ^ 1"
definition EV_ENABLE :: flags16 where "EV_ENABLE = 2 ^ 2"
definition EV_DISABLE :: flags16 where "EV_DISABLE = 2 ^ 3"
definition EV_ERROR :: flags16 where "EV_ERROR = 2 ^ 14"
definition EV_EOF :: flags16 where "EV_EOF = 2 ^ 15"

definition EVFILT_READ :: int where "EVFILT_READ = -1"
definition EVFILT_WRITE :: int where "EVFILT_WRITE = -2"

text \<open>The value the build sets, and the size of \<^verbatim>\<open>struct kevent\<close> with 64-bit pointers.\<close>

definition GWRL_KQUEUE_KEVENT_COUNT :: nat where "GWRL_KQUEUE_KEVENT_COUNT = 512"
definition sizeof_kevent :: "64 word" where "sizeof_kevent = 32"

text \<open>\<open>kevents\<close> is the number of entries of the event array, or null.\<close>

record gwrlbkd_kqueue =
  kq :: int
  maxkevents :: "64 word"
  kevents :: "nat option"

type_synonym 'z kworld = "(gwrlbkd_kqueue, 'z) world_scheme"

subsection \<open>Creation and options\<close>

definition gwrl_bkd_init_kqueue :: "'z kworld \<Rightarrow> gwrlbkd_kqueue option \<times> 'z kworld" where
  "gwrl_bkd_init_kqueue s =
     (case calloc s of
        (None, s) \<Rightarrow> (None, gwerr ''3el0L'' s)
      | (Some _, s) \<Rightarrow>
          (case syscall Sys_kqueue s of (a, s) \<Rightarrow>
             if ans_ret a < 0 then (None, gwerr ''1LKdoL'' s)
             else (case calloc s of (p, s) \<Rightarrow>
               (Some \<lparr>kq = ans_ret a, maxkevents = of_nat GWRL_KQUEUE_KEVENT_COUNT,
                  kevents = map_option (\<lambda>_. GWRL_KQUEUE_KEVENT_COUNT) p\<rparr>,
                s\<lparr>rl := (rl s)\<lparr>options := (options (rl s))
                  \<lparr>gwrl_kqueue_kevent_count := int GWRL_KQUEUE_KEVENT_COUNT\<rparr>\<rparr>\<rparr>))))"

text \<open>
  The option is compared as a \<^verbatim>\<open>size_t\<close>. A request for more than \<^verbatim>\<open>PTRDIFF_MAX\<close> bytes always
  fails, so the loop around \<^verbatim>\<open>realloc\<close> never ends.
\<close>

definition gwrl_bkd_set_options_kqueue :: "gwrl_options \<Rightarrow> 'z kworld \<Rightarrow> 'z kworld option" where
  "gwrl_bkd_set_options_kqueue opts s =
     (let m = maxkevents (backend (rl s));
          m = (if word_of_int (gwrl_kqueue_kevent_count opts) > m
               then word_of_int (gwrl_kqueue_kevent_count opts) else m);
          m = (if m < 1 then of_nat GWRL_KQUEUE_KEVENT_COUNT else m);
          s = s\<lparr>rl := (rl s)\<lparr>backend := (backend (rl s))\<lparr>maxkevents := m\<rparr>\<rparr>\<rparr>
      in if uint (sizeof_kevent * m) \<ge> 2 ^ 63 \<or> sizeof_kevent * m = 0 then None
         else do {
           (_, s) \<leftarrow> calloc_msg ''54oKD0'' s;
           Some (s\<lparr>rl := (rl s)\<lparr>backend := (backend (rl s))\<lparr>kevents := Some (unat m)\<rparr>\<rparr>\<rparr>) })"

subsection \<open>Operations on sources\<close>

definition gwrl_bkd_kevent :: "ptr \<Rightarrow> flags16 \<Rightarrow> int \<Rightarrow> 'z kworld \<Rightarrow> 'z kworld option" where
  "gwrl_bkd_kevent src kflags kfilter s = do {
     o1 \<leftarrow> get_src src s;
     f \<leftarrow> as_file o1;
     let (a, s) = syscall (Sys_kevent_change (kq (backend (rl s)))
        \<lparr>ke_ident = file_fd f, ke_filter = kfilter, ke_flags = kflags, ke_udata = src\<rparr>) s;
     Some (if ans_ret a < 0 \<and> errno s \<noteq> EBADF then gwerr ''9dlkF'' s else s) }"

definition gwrl_src_file_update_flags_kqueue :: "ptr \<Rightarrow> flags8 \<Rightarrow> 'z kworld \<Rightarrow> 'z kworld option" where
  "gwrl_src_file_update_flags_kqueue src flags s = do {
     o1 \<leftarrow> get_src src s;
     (flags, s) \<leftarrow>
       (if flisset flags GWRL_RD
        then map_option (Pair (flset flags GWRL_ENABLED)) (gwrl_bkd_kevent src (EV_ADD OR EV_ENABLE) EVFILT_READ s)
        else if flisset (src_flags o1) GWRL_RD \<and> \<not> flisset flags GWRL_RD
        then map_option (Pair flags) (gwrl_bkd_kevent src (EV_ADD OR EV_DISABLE) EVFILT_READ s)
        else Some (flags, s));
     (flags, s) \<leftarrow>
       (if flisset flags GWRL_WR
        then map_option (Pair (flset flags GWRL_ENABLED)) (gwrl_bkd_kevent src (EV_ADD OR EV_ENABLE) EVFILT_WRITE s)
        else if flisset (src_flags o1) GWRL_WR \<and> \<not> flisset flags GWRL_WR
        then map_option (Pair flags) (gwrl_bkd_kevent src (EV_ADD OR EV_DISABLE) EVFILT_WRITE s)
        else Some (flags, s));
     upd_src (\<lambda>o1. o1\<lparr>src_flags := flags\<rparr>) src s }"

definition gwrl_bkd_src_add_kqueue :: "ptr \<Rightarrow> 'z kworld \<Rightarrow> 'z kworld option" where
  "gwrl_bkd_src_add_kqueue src s = do {
     o1 \<leftarrow> get_src src s;
     let kflags = (if \<not> flisset (src_flags o1) GWRL_ENABLED then EV_ADD OR EV_DISABLE else EV_ADD);
     s \<leftarrow> (if flisset (src_flags o1) GWRL_RD then gwrl_bkd_kevent src kflags EVFILT_READ s else Some s);
     if flisset (src_flags o1) GWRL_WR then gwrl_bkd_kevent src kflags EVFILT_WRITE s else Some s }"

definition gwrl_bkd_del_src_kqueue :: "ptr \<Rightarrow> 'z kworld \<Rightarrow> 'z kworld option" where
  "gwrl_bkd_del_src_kqueue src s = do {
     o1 \<leftarrow> get_src src s;
     s \<leftarrow> (if flisset (src_flags o1) GWRL_RD then gwrl_bkd_kevent src EV_DELETE EVFILT_READ s else Some s);
     s \<leftarrow> (if flisset (src_flags o1) GWRL_WR then gwrl_bkd_kevent src EV_DELETE EVFILT_WRITE s else Some s);
     upd_src (src_flclr GWRL_ENABLED) src s }"

definition gwrl_bkd_enable_src_kqueue :: "ptr \<Rightarrow> 'z kworld \<Rightarrow> 'z kworld option" where
  "gwrl_bkd_enable_src_kqueue src s = do {
     o1 \<leftarrow> get_src src s;
     s \<leftarrow> (if flisset (src_flags o1) GWRL_RD then gwrl_bkd_kevent src EV_ENABLE EVFILT_READ s else Some s);
     s \<leftarrow> (if flisset (src_flags o1) GWRL_WR then gwrl_bkd_kevent src EV_ENABLE EVFILT_WRITE s else Some s);
     upd_src (src_flset GWRL_ENABLED) src s }"

definition gwrl_bkd_disable_src_kqueue :: "ptr \<Rightarrow> 'z kworld \<Rightarrow> 'z kworld option" where
  "gwrl_bkd_disable_src_kqueue src s = do {
     o1 \<leftarrow> get_src src s;
     s \<leftarrow> (if flisset (src_flags o1) GWRL_RD then gwrl_bkd_kevent src EV_DISABLE EVFILT_READ s else Some s);
     s \<leftarrow> (if flisset (src_flags o1) GWRL_WR then gwrl_bkd_kevent src EV_DISABLE EVFILT_WRITE s else Some s);
     upd_src (src_flclr GWRL_ENABLED) src s }"

definition kqueue_ops :: "'z kworld src_ops" where
  "kqueue_ops = \<lparr>op_src_add = gwrl_bkd_src_add_kqueue, op_del_src = gwrl_bkd_del_src_kqueue,
     op_enable_src = gwrl_bkd_enable_src_kqueue, op_disable_src = gwrl_bkd_disable_src_kqueue,
     op_update_flags = gwrl_src_file_update_flags_kqueue\<rparr>"

subsection \<open>Gathering\<close>

text \<open>
  The timeout. With \<open>GWRL_NOSLEEP\<close> and no time set the code points to a variable whose block
  has ended when the pointer is used: no result.
\<close>

definition kqueue_timeout :: "'z kworld \<Rightarrow> timespec option option" where
  "kqueue_timeout s =
     (if timeout (rl s) = no_time then (if flisset (rl_flags (rl s)) GWRL_NOSLEEP then None else Some None)
      else Some (Some (timeout (rl s))))"

text \<open>What one event gives, after an error has disabled its source: reading is posted before writing.\<close>

definition kqueue_post :: "kevent \<Rightarrow> ptr \<Rightarrow> 'z kworld \<Rightarrow> 'z kworld option" where
  "kqueue_post event src s = do {
     (postread, s) \<leftarrow>
       (if ke_flags event AND EV_ERROR \<noteq> 0 then map_option (Pair True) (gwrl_src_disable kqueue_ops src s)
        else Some (False, s));
     o1 \<leftarrow> get_src src s;
     f \<leftarrow> as_file o1;
     let postread = (if src_flags o1 AND GWRL_RD \<noteq> 0 \<and> ke_flags event AND EV_EOF \<noteq> 0 then True
        else if src_flags o1 AND GWRL_RD \<noteq> 0 \<and> ke_filter event = EVFILT_READ then True else postread);
     let postwrite = (src_flags o1 AND GWRL_WR \<noteq> 0 \<and> ke_filter event = EVFILT_WRITE);
     if postread then do {
       (evt, s) \<leftarrow> gwrl_evt_createp src (src_callback o1) (src_userdata o1) (file_fd f) GWRL_RD s;
       gwrl_post_evt evt s }
     else if postwrite then do {
       (evt, s) \<leftarrow> gwrl_evt_createp src (src_callback o1) (src_userdata o1) (file_fd f) GWRL_WR s;
       gwrl_post_evt evt s }
     else Some s }"

text \<open>The loop over the first \<open>n\<close> events: a disabled source is looked at again and again.\<close>

partial_function (option) kqueue_post_loop :: "nat \<Rightarrow> kevent list \<Rightarrow> 'z kworld \<Rightarrow> 'z kworld option" where
  [code]: "kqueue_post_loop n es s =
     (if n = 0 then Some s
      else case es of
        [] \<Rightarrow> None
      | event # rest \<Rightarrow> do {
          let src = ke_udata event;
          o1 \<leftarrow> get_src src s;
          if \<not> flisset (src_flags o1) GWRL_ENABLED then kqueue_post_loop n es s
          else do {
            s \<leftarrow> (if src_type o1 = GWRL_SRC_TYPE_FILE then kqueue_post event src s else Some s);
            kqueue_post_loop (n - 1) rest s } })"

definition gwrl_bkd_gather_kqueue :: "'z kworld \<Rightarrow> 'z kworld option" where
  "gwrl_bkd_gather_kqueue s = do {
     t \<leftarrow> kqueue_timeout s;
     let s = s\<lparr>rl := (rl s)\<lparr>rl_flags := flset (rl_flags (rl s)) GWRL_SLEEPING\<rparr>\<rparr>;
     let (a, s) = syscall (Sys_kevent_wait (kq (backend (rl s))) (gwrl_kqueue_kevent_count (options (rl s))) t) s;
     let res = ans_ret a;
     let s = s\<lparr>rl := (rl s)\<lparr>rl_flags := flclr (rl_flags (rl s)) GWRL_SLEEPING\<rparr>\<rparr>;
     if res = 0 then Some s
     else if res < 0 \<and> (errno s = EINVAL \<or> errno s = EINTR) then Some s
     else if res > 0 then do {
       n \<leftarrow> kevents (backend (rl s));
       if nat res \<le> n then kqueue_post_loop (nat res) (ans_kevents a) s else None }
     else Some s }"

subsection \<open>The notes the kernel holds\<close>

text \<open>
  What a change does, as the manual has it: adding creates or replaces a note and enables it
  unless told otherwise; enabling, disabling and deleting a note that is not there fail with
  \<^verbatim>\<open>ENOENT\<close>. Other failures are not counted in. A note has its state and the user data.
\<close>

definition note_effect :: "kevent \<Rightarrow> (int \<times> int \<rightharpoonup> bool \<times> ptr) \<Rightarrow> (int \<times> int \<rightharpoonup> bool \<times> ptr)" where
  "note_effect ke m =
     (let k = (ke_ident ke, ke_filter ke) in
      if flisset (ke_flags ke) EV_ADD then m(k \<mapsto> (\<not> flisset (ke_flags ke) EV_DISABLE, ke_udata ke))
      else if flisset (ke_flags ke) EV_DELETE then m(k := None)
      else if flisset (ke_flags ke) EV_ENABLE then m(k := map_option (\<lambda>(_, p). (True, p)) (m k))
      else if flisset (ke_flags ke) EV_DISABLE then m(k := map_option (\<lambda>(_, p). (False, p)) (m k))
      else m)"

primrec knotes :: "int \<Rightarrow> syscall list \<Rightarrow> (int \<times> int \<rightharpoonup> bool \<times> ptr)" where
  "knotes q [] = Map.empty"
| "knotes q (c # cs) =
     (case c of Sys_kevent_change q' ke \<Rightarrow> if q' = q then note_effect ke (knotes q cs) else knotes q cs
      | _ \<Rightarrow> knotes q cs)"

abbreviation noted :: "'z kworld \<Rightarrow> (int \<times> int \<rightharpoonup> bool \<times> ptr)" where
  "noted s \<equiv> knotes (kq (backend (rl s))) (calls s)"

text \<open>The flag a filter belongs to, and a note that reports nothing.\<close>

definition filter_flag :: "int \<Rightarrow> flags8" where
  "filter_flag F = (if F = EVFILT_READ then GWRL_RD else GWRL_WR)"

definition silent :: "(bool \<times> ptr) option \<Rightarrow> bool" where
  "silent x \<longleftrightarrow> (case x of None \<Rightarrow> True | Some (on, _) \<Rightarrow> \<not> on)"

abbreviation filters :: "int set" where
  "filters \<equiv> {EVFILT_READ, EVFILT_WRITE}"

definition kqueue_tracks :: "'z kworld \<Rightarrow> addr set \<Rightarrow> bool" where
  "kqueue_tracks s A \<longleftrightarrow> inj_on (src_fd s) A \<and>
     (\<forall>a \<in> A. file_src s a \<and> (\<forall>F \<in> filters.
        if flisset (src_fl s a) (filter_flag F)
        then noted s (src_fd s a, F) = Some (flisset (src_fl s a) GWRL_ENABLED, Some a)
        else silent (noted s (src_fd s a, F)))) \<and>
     (\<forall>fd. fd \<notin> src_fd s ` A \<longrightarrow> (\<forall>F \<in> filters. silent (noted s (fd, F))))"

lemma kev_flags [flag_simps]:
  "flisset EV_ADD EV_ADD" "\<not> flisset EV_ADD EV_DISABLE"
  "flisset (EV_ADD OR EV_DISABLE) EV_ADD" "flisset (EV_ADD OR EV_DISABLE) EV_DISABLE"
  "flisset (EV_ADD OR EV_ENABLE) EV_ADD" "\<not> flisset (EV_ADD OR EV_ENABLE) EV_DISABLE"
  "\<not> flisset EV_DELETE EV_ADD" "flisset EV_DELETE EV_DELETE"
  "\<not> flisset EV_ENABLE EV_ADD" "\<not> flisset EV_ENABLE EV_DELETE" "flisset EV_ENABLE EV_ENABLE"
  "\<not> flisset EV_DISABLE EV_ADD" "\<not> flisset EV_DISABLE EV_DELETE" "\<not> flisset EV_DISABLE EV_ENABLE"
  "flisset EV_DISABLE EV_DISABLE"
  by (simp_all add: flisset_def EV_ADD_def EV_DELETE_def EV_ENABLE_def EV_DISABLE_def)

lemma filter_flags [simp]: "filter_flag EVFILT_READ = GWRL_RD" "filter_flag EVFILT_WRITE = GWRL_WR"
  "EVFILT_READ \<noteq> EVFILT_WRITE" "EVFILT_WRITE \<noteq> EVFILT_READ"
  by (simp_all add: filter_flag_def EVFILT_READ_def EVFILT_WRITE_def)

text \<open>What a change of the kind \<open>kf\<close> makes of a note.\<close>

definition note_after :: "flags16 \<Rightarrow> ptr \<Rightarrow> (bool \<times> ptr) option \<Rightarrow> (bool \<times> ptr) option" where
  "note_after kf p x =
     (if flisset kf EV_ADD then Some (\<not> flisset kf EV_DISABLE, p)
      else if flisset kf EV_DELETE then None
      else if flisset kf EV_ENABLE then map_option (\<lambda>(_, p). (True, p)) x
      else if flisset kf EV_DISABLE then map_option (\<lambda>(_, p). (False, p)) x
      else x)"

lemma kevent_ok:
  assumes "file_src s a"
  obtains s' where "gwrl_bkd_kevent (Some a) kf F s = Some s'" "bkd_frame s s'" "srcs s' = srcs s"
    "noted s' = (noted s)((src_fd s a, F) := note_after kf (Some a) (noted s (src_fd s a, F)))"
proof -
  obtain o1 f where o1: "srcs s a = Some o1" "as_file o1 = Some f" "file_fd f = src_fd s a"
    using assms by (rule file_src_part)
  let ?c = "Sys_kevent_change (kq (backend (rl s)))
    \<lparr>ke_ident = src_fd s a, ke_filter = F, ke_flags = kf, ke_udata = Some a\<rparr>"
  obtain er en where "gwrl_bkd_kevent (Some a) kf F s = Some (s\<lparr>calls := ?c # calls s, errno := en, errs := er\<rparr>)"
  proof (cases "ans_ret (fst (syscall ?c s)) < 0 \<and> errno (snd (syscall ?c s)) \<noteq> EBADF")
    case True
    with o1 show thesis
      by (intro that [of "''9dlkF'' # errs s" "errno (snd (syscall ?c s))"])
        (auto simp: gwrl_bkd_kevent_def syscall_def Let_def gwerr_def)
  next
    case False
    with o1 show thesis
      by (intro that [of "errs s" "errno (snd (syscall ?c s))"])
        (auto simp: gwrl_bkd_kevent_def syscall_def Let_def)
  qed
  then show thesis
    by (rule that) (auto simp: bkd_frame_def note_effect_def note_after_def Let_def fun_eq_iff)
qed

lemma kevent_if_ok:
  assumes "file_src s a"
  obtains s' where "(if c then gwrl_bkd_kevent (Some a) kf F s else Some s) = Some s'" "bkd_frame s s'" "srcs s' = srcs s"
    "noted s' = (if c then (noted s)((src_fd s a, F) := note_after kf (Some a) (noted s (src_fd s a, F))) else noted s)"
proof (cases c)
  case True
  with kevent_ok [OF assms] that show ?thesis by metis
next
  case False
  then show ?thesis by (intro that [of s]) (simp_all add: bkd_frame_def)
qed

text \<open>The two conditional changes that add, delete, enable and disable make.\<close>

lemma kevent_both_ok:
  assumes "file_src s a"
  obtains s1 s2 where
    "(if flisset (src_fl s a) GWRL_RD then gwrl_bkd_kevent (Some a) kf EVFILT_READ s else Some s) = Some s1"
    "(if flisset (src_fl s a) GWRL_WR then gwrl_bkd_kevent (Some a) kf EVFILT_WRITE s1 else Some s1) = Some s2"
    "bkd_frame s s2" "srcs s2 = srcs s"
    "\<forall>fd. \<forall>F \<in> filters. noted s2 (fd, F) =
      (if fd = src_fd s a \<and> flisset (src_fl s a) (filter_flag F) then note_after kf (Some a) (noted s (fd, F))
       else noted s (fd, F))"
proof -
  obtain s1 where s1: "(if flisset (src_fl s a) GWRL_RD then gwrl_bkd_kevent (Some a) kf EVFILT_READ s else Some s) = Some s1"
    "bkd_frame s s1" "srcs s1 = srcs s"
    "noted s1 = (if flisset (src_fl s a) GWRL_RD
      then (noted s)((src_fd s a, EVFILT_READ) := note_after kf (Some a) (noted s (src_fd s a, EVFILT_READ))) else noted s)"
    using assms by (rule kevent_if_ok)
  have fa: "file_src s1 a" "src_fd s1 = src_fd s" using assms epoll_views [OF s1(3)] by simp_all
  obtain s2 where s2: "(if flisset (src_fl s a) GWRL_WR then gwrl_bkd_kevent (Some a) kf EVFILT_WRITE s1 else Some s1) = Some s2"
    "bkd_frame s1 s2" "srcs s2 = srcs s1"
    "noted s2 = (if flisset (src_fl s a) GWRL_WR
      then (noted s1)((src_fd s1 a, EVFILT_WRITE) := note_after kf (Some a) (noted s1 (src_fd s1 a, EVFILT_WRITE))) else noted s1)"
    using fa(1) by (rule kevent_if_ok)
  show thesis
  proof (rule that [OF s1(1) s2(1) bkd_frame_trans [OF s1(2) s2(2)]])
    show "srcs s2 = srcs s" using s1(3) s2(3) by simp
    show "\<forall>fd. \<forall>F \<in> filters. noted s2 (fd, F) =
      (if fd = src_fd s a \<and> flisset (src_fl s a) (filter_flag F) then note_after kf (Some a) (noted s (fd, F))
       else noted s (fd, F))"
      using s1(4) s2(4) fa(2) by auto
  qed
qed

lemma kqueue_tracksD:
  assumes "kqueue_tracks s A"
  shows "inj_on (src_fd s) A" "a \<in> A \<Longrightarrow> file_src s a"
    "a \<in> A \<Longrightarrow> F \<in> filters \<Longrightarrow> flisset (src_fl s a) (filter_flag F) \<Longrightarrow>
      noted s (src_fd s a, F) = Some (flisset (src_fl s a) GWRL_ENABLED, Some a)"
    "a \<in> A \<Longrightarrow> F \<in> filters \<Longrightarrow> \<not> flisset (src_fl s a) (filter_flag F) \<Longrightarrow> silent (noted s (src_fd s a, F))"
    "fd \<notin> src_fd s ` A \<Longrightarrow> F \<in> filters \<Longrightarrow> silent (noted s (fd, F))"
  using assms unfolding kqueue_tracks_def by (blast, blast, metis, metis, blast)

lemma kqueue_tracksI:
  assumes "inj_on (src_fd s) A" "\<And>a. a \<in> A \<Longrightarrow> file_src s a"
    and "\<And>a F. a \<in> A \<Longrightarrow> F \<in> filters \<Longrightarrow> flisset (src_fl s a) (filter_flag F) \<Longrightarrow>
      noted s (src_fd s a, F) = Some (flisset (src_fl s a) GWRL_ENABLED, Some a)"
    and "\<And>a F. a \<in> A \<Longrightarrow> F \<in> filters \<Longrightarrow> \<not> flisset (src_fl s a) (filter_flag F) \<Longrightarrow> silent (noted s (src_fd s a, F))"
    and "\<And>fd F. fd \<notin> src_fd s ` A \<Longrightarrow> F \<in> filters \<Longrightarrow> silent (noted s (fd, F))"
  shows "kqueue_tracks s A"
  unfolding kqueue_tracks_def if_bool_eq_conj using assms by blast

lemma mod_src_bkd_frame:
  assumes "bkd_frame s s2" "srcs s2 = srcs s"
  shows "bkd_frame (mod_src g a s) (mod_src g a s2)"
proof -
  let ?m = "(srcs s)(a := map_option g (srcs s a))"
  have e: "s2 = s\<lparr>srcs := srcs s2, brk := brk s2, oom := oom s2, errs := errs s2, calls := calls s2,
      errno := errno s2, rl := (rl s)\<lparr>backend := backend (rl s2)\<rparr>\<rparr>" and b: "brk s \<le> brk s2"
    using assms(1) by (simp_all add: bkd_frame_def)
  have "s2\<lparr>srcs := ?m\<rparr> = s\<lparr>srcs := ?m, brk := brk s2, oom := oom s2, errs := errs s2, calls := calls s2,
      errno := errno s2, rl := (rl s)\<lparr>backend := backend (rl s2)\<rparr>\<rparr>"
    using arg_cong [OF e, of "\<lambda>x. x\<lparr>srcs := ?m\<rparr>"] by simp
  then show ?thesis using b by (simp add: bkd_frame_def mod_src_def assms(2))
qed

text \<open>A source that comes or changes, and one that goes.\<close>

lemma kqueue_put_tracks:
  assumes "kqueue_tracks s A" "file_src s a" "inj_on (src_fd s) (insert a A)"
    and "src_fd s' = src_fd s" "file_src s' = file_src s" "\<And>b. b \<noteq> a \<Longrightarrow> src_fl s' b = src_fl s b"
    and "\<And>F. F \<in> filters \<Longrightarrow> if flisset (src_fl s' a) (filter_flag F)
      then noted s' (src_fd s a, F) = Some (flisset (src_fl s' a) GWRL_ENABLED, Some a)
      else silent (noted s' (src_fd s a, F))"
    and "\<And>fd F. F \<in> filters \<Longrightarrow> fd \<noteq> src_fd s a \<Longrightarrow> noted s' (fd, F) = noted s (fd, F)"
  shows "kqueue_tracks s' (insert a A)"
proof -
  note d = kqueue_tracksD [OF assms(1)]
  have ne: "src_fd s b \<noteq> src_fd s a" if "b \<in> A" "b \<noteq> a" for b
    using assms(3) that by (auto simp: inj_on_def)
  show ?thesis
  proof (rule kqueue_tracksI, goal_cases)
    case 1
    show ?case using assms(3,4) by simp
  next
    case (2 b)
    then show ?case using d(2) assms(2,5) by auto
  next
    case (3 b F)
    show ?case
    proof (cases "b = a")
      case True
      with 3 assms(4) assms(7) [OF 3(2)] show ?thesis by simp
    next
      case False
      with 3 have b: "b \<in> A" "flisset (src_fl s b) (filter_flag F)" using assms(6) by simp_all
      with d(3) [OF b(1) 3(2) b(2)] assms(4,6) assms(8) [OF 3(2) ne [OF b(1) False]] False show ?thesis by simp
    qed
  next
    case (4 b F)
    show ?case
    proof (cases "b = a")
      case True
      with 4 assms(4) assms(7) [OF 4(2)] show ?thesis by simp
    next
      case False
      with 4 have b: "b \<in> A" "\<not> flisset (src_fl s b) (filter_flag F)" using assms(6) by simp_all
      with d(4) [OF b(1) 4(2) b(2)] assms(4) assms(8) [OF 4(2) ne [OF b(1) False]] show ?thesis by simp
    qed
  next
    case (5 fd F)
    then have "fd \<noteq> src_fd s a" "fd \<notin> src_fd s ` A" using assms(4) by auto
    with d(5) [OF _ 5(2)] assms(8) [OF 5(2)] show ?case by simp
  qed
qed

lemma kqueue_drop_tracks:
  assumes "kqueue_tracks s (insert a A)" "a \<notin> A"
    and "src_fd s' = src_fd s" "file_src s' = file_src s" "\<And>b. b \<noteq> a \<Longrightarrow> src_fl s' b = src_fl s b"
    and "\<And>F. F \<in> filters \<Longrightarrow> silent (noted s' (src_fd s a, F))"
    and "\<And>fd F. F \<in> filters \<Longrightarrow> fd \<noteq> src_fd s a \<Longrightarrow> noted s' (fd, F) = noted s (fd, F)"
  shows "kqueue_tracks s' A"
proof -
  note d = kqueue_tracksD [OF assms(1)]
  have ne: "src_fd s b \<noteq> src_fd s a" "b \<noteq> a" if "b \<in> A" for b
    using d(1) that assms(2) by (auto simp: inj_on_def)
  show ?thesis
  proof (rule kqueue_tracksI, goal_cases)
    case 1
    show ?case using d(1) assms(3) by simp
  next
    case (2 b)
    then show ?case using d(2) assms(4) by simp
  next
    case (3 b F)
    with d(3) [of b F] ne [OF 3(1)] assms(5) [of b] assms(7) [OF 3(2)] show ?case by (simp add: assms(3))
  next
    case (4 b F)
    with d(4) [of b F] ne [OF 4(1)] assms(5) [of b] assms(7) [OF 4(2)] show ?case by (simp add: assms(3))
  next
    case (5 fd F)
    then show ?case using d(5) [of fd F] assms(6) [OF 5(2)] assms(7) [OF 5(2), of fd] assms(3) by (cases "fd = src_fd s a") auto
  qed
qed

lemma kqueue_add_law:
  assumes "srcs_inv s (a # Fs) Ts" "kqueue_tracks s (set Fs)" "src_fd s a \<notin> src_fd s ` set Fs"
  shows "\<exists>s'. op_src_add kqueue_ops (Some a) s = Some s' \<and> bkd_frame s s' \<and> kqueue_tracks s' (set (a # Fs))"
proof -
  have fa: "file_src s a" using srcs_invD(5) [OF assms(1)] by simp
  obtain oa where oa: "srcs s a = Some oa" using fa by (auto simp: file_src_iff)
  then have fl: "src_flags oa = src_fl s a" by (simp add: src_fl_def)
  let ?kf = "if \<not> flisset (src_fl s a) GWRL_ENABLED then EV_ADD OR EV_DISABLE else EV_ADD"
  obtain s1 s2 where st: "(if flisset (src_fl s a) GWRL_RD then gwrl_bkd_kevent (Some a) ?kf EVFILT_READ s else Some s) = Some s1"
    "(if flisset (src_fl s a) GWRL_WR then gwrl_bkd_kevent (Some a) ?kf EVFILT_WRITE s1 else Some s1) = Some s2"
    "bkd_frame s s2" "srcs s2 = srcs s"
    "\<forall>fd. \<forall>F \<in> filters. noted s2 (fd, F) =
      (if fd = src_fd s a \<and> flisset (src_fl s a) (filter_flag F) then note_after ?kf (Some a) (noted s (fd, F))
       else noted s (fd, F))"
    using fa by (rule kevent_both_ok)
  have add: "op_src_add kqueue_ops (Some a) s = Some s2"
    using st(1,2) by (simp add: kqueue_ops_def gwrl_bkd_src_add_kqueue_def oa fl Let_def cong: if_cong)
  have na: "a \<notin> set Fs" using assms(3) by auto
  note v = epoll_views [OF st(4)]
  have "kqueue_tracks s2 (insert a (set Fs))"
  proof (rule kqueue_put_tracks [OF assms(2) fa _ v(1,3)])
    show "inj_on (src_fd s) (insert a (set Fs))" using kqueue_tracksD(1) [OF assms(2)] assms(3) na by simp
    show "if flisset (src_fl s2 a) (filter_flag F)
        then noted s2 (src_fd s a, F) = Some (flisset (src_fl s2 a) GWRL_ENABLED, Some a)
        else silent (noted s2 (src_fd s a, F))" if "F \<in> filters" for F
      using st(5) [rule_format, OF that] kqueue_tracksD(5) [OF assms(2,3) that] by (simp add: v note_after_def kev_flags)
    show "noted s2 (fd, F) = noted s (fd, F)" if "F \<in> filters" "fd \<noteq> src_fd s a" for fd F
      using st(5) [rule_format, OF that(1)] that(2) by simp
  qed (use v in simp_all)
  with add st(3) show ?thesis by auto
qed

lemma kqueue_del_law:
  assumes "file_src s a" "a \<notin> A" "kqueue_tracks s (insert a A)"
  shows "\<exists>s' fl. op_del_src kqueue_ops (Some a) s = Some s' \<and>
    bkd_frame (mod_src (\<lambda>o1. o1\<lparr>src_flags := fl\<rparr>) a s) s' \<and> kqueue_tracks s' A"
proof -
  obtain oa where oa: "srcs s a = Some oa" using assms(1) by (auto simp: file_src_iff)
  then have fl: "src_flags oa = src_fl s a" by (simp add: src_fl_def)
  obtain s1 s2 where st: "(if flisset (src_fl s a) GWRL_RD then gwrl_bkd_kevent (Some a) EV_DELETE EVFILT_READ s else Some s) = Some s1"
    "(if flisset (src_fl s a) GWRL_WR then gwrl_bkd_kevent (Some a) EV_DELETE EVFILT_WRITE s1 else Some s1) = Some s2"
    "bkd_frame s s2" "srcs s2 = srcs s"
    "\<forall>fd. \<forall>F \<in> filters. noted s2 (fd, F) =
      (if fd = src_fd s a \<and> flisset (src_fl s a) (filter_flag F) then note_after EV_DELETE (Some a) (noted s (fd, F))
       else noted s (fd, F))"
    using assms(1) by (rule kevent_both_ok)
  let ?s' = "mod_src (src_flclr GWRL_ENABLED) a s2"
  have o2: "srcs s2 a = Some oa" using st(4) oa by simp
  have del: "op_del_src kqueue_ops (Some a) s = Some ?s'"
    using st(1,2) o2 by (simp add: kqueue_ops_def gwrl_bkd_del_src_kqueue_def oa fl mod_src_def fun_upd_def cong: if_cong)
  have g: "src_part (src_flclr k o1) = src_part o1" "src_type (src_flclr k o1) = src_type o1" for k o1
    by (simp_all add: src_flclr_def)
  note v = flags_views [where g = "src_flclr GWRL_ENABLED" and a = a and s = s2, OF g] epoll_views [OF st(4)]
  have nt: "noted ?s' = noted s2" by (simp add: mod_src_def)
  have "kqueue_tracks ?s' A"
  proof (rule kqueue_drop_tracks [OF assms(3,2)])
    show "src_fd ?s' = src_fd s" "file_src ?s' = file_src s" using v by (simp_all add: fun_eq_iff)
    show "src_fl ?s' b = src_fl s b" if "b \<noteq> a" for b using v(3) [of b] v(5) that by simp
    show "silent (noted ?s' (src_fd s a, F))" if "F \<in> filters" for F
      using st(5) [rule_format, OF that] kqueue_tracksD(4) [OF assms(3) _ that] unfolding nt
      by (simp add: note_after_def kev_flags silent_def)
    show "noted ?s' (fd, F) = noted s (fd, F)" if "F \<in> filters" "fd \<noteq> src_fd s a" for fd F
      using st(5) [rule_format, OF that(1)] that(2) unfolding nt by simp
  qed
  moreover have "mod_src (\<lambda>o1. o1\<lparr>src_flags := src_flags (src_flclr GWRL_ENABLED oa)\<rparr>) a s =
      s\<lparr>srcs := (srcs s)(a \<mapsto> src_flclr GWRL_ENABLED oa)\<rparr>"
    using oa by (simp add: mod_src_def src_flclr_def)
  then have "bkd_frame (mod_src (\<lambda>o1. o1\<lparr>src_flags := src_flags (src_flclr GWRL_ENABLED oa)\<rparr>) a s) ?s'"
    using mod_src_bkd_frame [OF st(3,4), of "src_flclr GWRL_ENABLED" a] oa by (simp add: mod_src_def)
  ultimately show ?thesis using del by blast
qed

lemma kqueue_flags_law:
  assumes "a \<in> A" "kqueue_tracks s A" "t = mod_src g a s"
    and "g = src_flset GWRL_ENABLED \<and> kf = EV_ENABLE \<and> f = gwrl_bkd_enable_src_kqueue \<or>
      g = src_flclr GWRL_ENABLED \<and> kf = EV_DISABLE \<and> f = gwrl_bkd_disable_src_kqueue"
  shows "\<exists>s'. f (Some a) t = Some s' \<and> bkd_frame t s' \<and> kqueue_tracks s' A"
proof -
  note d = kqueue_tracksD [OF assms(2)]
  have fa: "file_src s a" by (rule d(2) [OF assms(1)])
  obtain oa where oa: "srcs s a = Some oa" using fa by (auto simp: file_src_iff)
  have g: "src_part (g o1) = src_part o1" "src_type (g o1) = src_type o1" for o1
    using assms(4) by (auto simp: src_flset_def src_flclr_def)
  note v = flags_views [where g = g and a = a and s = s, OF g, folded assms(3)]
  have ta: "srcs t a = Some (g oa)" using oa assms(3) by (simp add: mod_src_def)
  have idem: "g (g oa) = g oa"
    using assms(4) by (auto simp: src_flset_def src_flclr_def flset_def flclr_def or.assoc and.assoc)
  have fl: "src_flags (g oa) = src_fl t a" using ta by (simp add: src_fl_def)
  have flF: "flisset (src_fl t a) (filter_flag F) = flisset (src_fl s a) (filter_flag F)" if "F \<in> filters" for F
    using oa ta assms(4) that by (auto simp: src_fl_def src_flset_def src_flclr_def flag_simps)
  have en: "flisset (src_fl t a) GWRL_ENABLED = (kf = EV_ENABLE)"
    using ta assms(4) by (auto simp: src_fl_def src_flset_def src_flclr_def flag_simps EV_ENABLE_def EV_DISABLE_def)
  have "file_src t a" using fa v(2) by simp
  then obtain s1 s2 where st:
    "(if flisset (src_fl t a) GWRL_RD then gwrl_bkd_kevent (Some a) kf EVFILT_READ t else Some t) = Some s1"
    "(if flisset (src_fl t a) GWRL_WR then gwrl_bkd_kevent (Some a) kf EVFILT_WRITE s1 else Some s1) = Some s2"
    "bkd_frame t s2" "srcs s2 = srcs t"
    "\<forall>fd. \<forall>F \<in> filters. noted s2 (fd, F) =
      (if fd = src_fd t a \<and> flisset (src_fl t a) (filter_flag F) then note_after kf (Some a) (noted t (fd, F))
       else noted t (fd, F))"
    by (rule kevent_both_ok)
  have "upd_src g (Some a) s2 = Some s2" using st(4) ta idem by (simp add: fun_upd_idem)
  with assms(4) st(1,2) ta fl have f: "f (Some a) t = Some s2"
    by (elim disjE conjE; hypsubst)
       (simp_all add: gwrl_bkd_enable_src_kqueue_def gwrl_bkd_disable_src_kqueue_def cong: if_cong)
  have nt: "noted t = noted s" by (simp add: assms(3) mod_src_def)
  note w = epoll_views [OF st(4)]
  have "kqueue_tracks s2 (insert a A)"
  proof (rule kqueue_put_tracks [OF assms(2) fa])
    show "inj_on (src_fd s) (insert a A)" using d(1) assms(1) by (simp add: insert_absorb)
    show "src_fd s2 = src_fd s" "file_src s2 = file_src s" using v w by (simp_all add: fun_eq_iff)
    show "src_fl s2 b = src_fl s b" if "b \<noteq> a" for b using v(3) [of b] w(2) that by simp
    show "if flisset (src_fl s2 a) (filter_flag F)
        then noted s2 (src_fd s a, F) = Some (flisset (src_fl s2 a) GWRL_ENABLED, Some a)
        else silent (noted s2 (src_fd s a, F))" if "F \<in> filters" for F
      using st(5) [rule_format, OF that] d(3,4) [OF assms(1) that] flF [OF that] en assms(4)
      unfolding nt w(2) v(1) by (auto simp: note_after_def kev_flags)
    show "noted s2 (fd, F) = noted s (fd, F)" if "F \<in> filters" "fd \<noteq> src_fd s a" for fd F
      using st(5) [rule_format, OF that(1)] that(2) unfolding nt v(1) by simp
  qed
  then show ?thesis using f st(3) assms(1) by (auto simp: insert_absorb)
qed

interpretation kq: source_backend kqueue_ops "\<lambda>_. True" kqueue_tracks
proof unfold_locales
  fix s s' :: "'z kworld" and A
  assume b: "backend (rl s') = backend (rl s)" "calls s' = calls s"
    and c: "\<forall>a \<in> A. map_option src_core (srcs s' a) = map_option src_core (srcs s a)" and t: "kqueue_tracks s A"
  have v: "src_fd s' a = src_fd s a" "src_fl s' a = src_fl s a" "file_src s' a = file_src s a" if "a \<in> A" for a
    using core_views [of s' a s] c that by simp_all
  have i: "src_fd s' ` A = src_fd s ` A" "inj_on (src_fd s') A = inj_on (src_fd s) A"
    using v(1) by (auto intro!: inj_on_cong simp: image_iff)
  show "kqueue_tracks s' A" using t unfolding kqueue_tracks_def b i by (simp add: v)
next
  fix s t :: "'z kworld" and Fs Ts a
  assume "a \<in> set Fs" "kqueue_tracks s (set Fs)" "t = mod_src (src_flset GWRL_ENABLED) a s"
  then show "\<exists>s'. op_enable_src kqueue_ops (Some a) t = Some s' \<and> bkd_frame t s' \<and> kqueue_tracks s' (set Fs)"
    using kqueue_flags_law [of a "set Fs" s t "src_flset GWRL_ENABLED" EV_ENABLE gwrl_bkd_enable_src_kqueue]
    by (simp add: kqueue_ops_def)
next
  fix s t :: "'z kworld" and Fs Ts a
  assume "a \<in> set Fs" "kqueue_tracks s (set Fs)" "t = mod_src (src_flclr GWRL_ENABLED) a s"
  then show "\<exists>s'. op_disable_src kqueue_ops (Some a) t = Some s' \<and> bkd_frame t s' \<and> kqueue_tracks s' (set Fs)"
    using kqueue_flags_law [of a "set Fs" s t "src_flclr GWRL_ENABLED" EV_DISABLE gwrl_bkd_disable_src_kqueue]
    by (simp add: kqueue_ops_def)
qed (rule kqueue_add_law kqueue_del_law; assumption)+

subsection \<open>Changing the flags\<close>

text \<open>The flags a source has after a change: with any interest it is enabled.\<close>

definition kqueue_flags :: "flags8 \<Rightarrow> flags8" where
  "kqueue_flags fl = (if flisset fl GWRL_RD \<or> flisset fl GWRL_WR then flset fl GWRL_ENABLED else fl)"

lemma kevent_update_ok:
  assumes "file_src s a"
  obtains s' where "(if flisset fl k then map_option (Pair (flset fl GWRL_ENABLED)) (gwrl_bkd_kevent (Some a) (EV_ADD OR EV_ENABLE) F s)
      else if flisset old k \<and> \<not> flisset fl k then map_option (Pair fl) (gwrl_bkd_kevent (Some a) (EV_ADD OR EV_DISABLE) F s)
      else Some (fl, s)) = Some (if flisset fl k then flset fl GWRL_ENABLED else fl, s')"
    "bkd_frame s s'" "srcs s' = srcs s"
    "noted s' = (if flisset fl k then (noted s)((src_fd s a, F) \<mapsto> (True, Some a))
      else if flisset old k then (noted s)((src_fd s a, F) \<mapsto> (False, Some a)) else noted s)"
proof -
  obtain s1 where s1: "gwrl_bkd_kevent (Some a) (EV_ADD OR EV_ENABLE) F s = Some s1" "bkd_frame s s1" "srcs s1 = srcs s"
    "noted s1 = (noted s)((src_fd s a, F) := note_after (EV_ADD OR EV_ENABLE) (Some a) (noted s (src_fd s a, F)))"
    using assms by (rule kevent_ok)
  obtain s2 where s2: "gwrl_bkd_kevent (Some a) (EV_ADD OR EV_DISABLE) F s = Some s2" "bkd_frame s s2" "srcs s2 = srcs s"
    "noted s2 = (noted s)((src_fd s a, F) := note_after (EV_ADD OR EV_DISABLE) (Some a) (noted s (src_fd s a, F)))"
    using assms by (rule kevent_ok)
  show thesis
  proof (cases "flisset fl k")
    case True
    with s1 show thesis by (intro that [of s1]) (simp_all add: note_after_def kev_flags)
  next
    case False
    show thesis
    proof (cases "flisset old k")
      case True
      with False s2 show thesis by (intro that [of s2]) (simp_all add: note_after_def kev_flags)
    next
      case no: False
      with False show thesis by (intro that [of s]) (simp_all add: bkd_frame_def)
    qed
  qed
qed

lemma kqueue_update_ok:
  assumes "a \<in> A" "kqueue_tracks s A"
  shows "\<exists>s'. gwrl_src_file_update_flags_kqueue (Some a) fl s = Some s' \<and> src_fl s' a = kqueue_flags fl \<and>
    bkd_frame (mod_src (\<lambda>o1. o1\<lparr>src_flags := kqueue_flags fl\<rparr>) a s) s' \<and> kqueue_tracks s' A"
proof -
  note d = kqueue_tracksD [OF assms(2)]
  have fa: "file_src s a" by (rule d(2) [OF assms(1)])
  obtain oa where oa: "srcs s a = Some oa" using fa by (auto simp: file_src_iff)
  then have old: "src_flags oa = src_fl s a" by (simp add: src_fl_def)
  let ?f1 = "if flisset fl GWRL_RD then flset fl GWRL_ENABLED else fl"
  obtain s1 where s1: "(if flisset fl GWRL_RD then map_option (Pair (flset fl GWRL_ENABLED)) (gwrl_bkd_kevent (Some a) (EV_ADD OR EV_ENABLE) EVFILT_READ s)
      else if flisset (src_fl s a) GWRL_RD \<and> \<not> flisset fl GWRL_RD then map_option (Pair fl) (gwrl_bkd_kevent (Some a) (EV_ADD OR EV_DISABLE) EVFILT_READ s)
      else Some (fl, s)) = Some (?f1, s1)"
    "bkd_frame s s1" "srcs s1 = srcs s"
    "noted s1 = (if flisset fl GWRL_RD then (noted s)((src_fd s a, EVFILT_READ) \<mapsto> (True, Some a))
      else if flisset (src_fl s a) GWRL_RD then (noted s)((src_fd s a, EVFILT_READ) \<mapsto> (False, Some a)) else noted s)"
    using fa by (rule kevent_update_ok)
  have f1: "file_src s1 a" "src_fd s1 = src_fd s" using fa epoll_views [OF s1(3)] by simp_all
  let ?f2 = "if flisset ?f1 GWRL_WR then flset ?f1 GWRL_ENABLED else ?f1"
  obtain s2 where s2: "(if flisset ?f1 GWRL_WR then map_option (Pair (flset ?f1 GWRL_ENABLED)) (gwrl_bkd_kevent (Some a) (EV_ADD OR EV_ENABLE) EVFILT_WRITE s1)
      else if flisset (src_fl s a) GWRL_WR \<and> \<not> flisset ?f1 GWRL_WR then map_option (Pair ?f1) (gwrl_bkd_kevent (Some a) (EV_ADD OR EV_DISABLE) EVFILT_WRITE s1)
      else Some (?f1, s1)) = Some (?f2, s2)"
    "bkd_frame s1 s2" "srcs s2 = srcs s1"
    "noted s2 = (if flisset ?f1 GWRL_WR then (noted s1)((src_fd s1 a, EVFILT_WRITE) \<mapsto> (True, Some a))
      else if flisset (src_fl s a) GWRL_WR then (noted s1)((src_fd s1 a, EVFILT_WRITE) \<mapsto> (False, Some a)) else noted s1)"
    using f1(1) by (rule kevent_update_ok)
  have wr: "flisset ?f1 GWRL_WR = flisset fl GWRL_WR" by (simp add: flag_simps)
  have f2: "?f2 = kqueue_flags fl"
    unfolding wr by (simp add: kqueue_flags_def flset_def or.assoc)
  let ?s' = "mod_src (\<lambda>o1. o1\<lparr>src_flags := kqueue_flags fl\<rparr>) a s2"
  have ss: "srcs s2 = srcs s" "bkd_frame s s2" using s1(2,3) s2(2,3) bkd_frame_trans by auto
  have "upd_src (\<lambda>o1. o1\<lparr>src_flags := ?f2\<rparr>) (Some a) s2 = Some ?s'"
    using ss(1) oa unfolding f2 by (simp add: mod_src_def fun_upd_def)
  then have up: "gwrl_src_file_update_flags_kqueue (Some a) fl s = Some ?s'"
    using oa s1(1) s2(1) by (simp only: gwrl_src_file_update_flags_kqueue_def get_src_Some bind.bind_lunit old prod.case)
  note v = flags_views [where g = "\<lambda>o1. o1\<lparr>src_flags := kqueue_flags fl\<rparr>" and a = a and s = s2, simplified] epoll_views [OF ss(1)]
  have fs: "src_fl ?s' a = kqueue_flags fl" using ss(1) oa by (simp add: mod_src_def src_fl_def)
  have n: "noted ?s' = noted s2" by (simp add: mod_src_def)
  have "kqueue_tracks ?s' (insert a A)"
  proof (rule kqueue_put_tracks [OF assms(2) fa])
    show "inj_on (src_fd s) (insert a A)" using d(1) assms(1) by (simp add: insert_absorb)
    show "src_fd ?s' = src_fd s" "file_src ?s' = file_src s" using v by (simp_all add: fun_eq_iff)
    show "src_fl ?s' b = src_fl s b" if "b \<noteq> a" for b using v(3) [of b] v(5) that by simp
    show "if flisset (src_fl ?s' a) (filter_flag F)
        then noted ?s' (src_fd s a, F) = Some (flisset (src_fl ?s' a) GWRL_ENABLED, Some a)
        else silent (noted ?s' (src_fd s a, F))" if "F \<in> filters" for F
      using that d(4) [OF assms(1) that] unfolding n fs s2(4) s1(4) wr f1(2)
      by (auto simp: kqueue_flags_def flag_simps silent_def)
    show "noted ?s' (fd, F) = noted s (fd, F)" if "F \<in> filters" "fd \<noteq> src_fd s a" for fd F
      using that unfolding n s2(4) s1(4) f1(2) by simp
  qed
  then have "kqueue_tracks ?s' A" using assms(1) by (simp add: insert_absorb)
  with up fs mod_src_bkd_frame [OF ss(2,1)] show ?thesis by blast
qed

subsection \<open>Gathering\<close>

text \<open>What an event without an error gives: the end of the file counts as readable, whatever the filter.\<close>

definition kq_flags :: "'z kworld \<Rightarrow> kevent \<Rightarrow> addr \<Rightarrow> flags8" where
  "kq_flags s ke a =
     (if flisset (src_fl s a) GWRL_RD \<and> (flisset (ke_flags ke) EV_EOF \<or> ke_filter ke = EVFILT_READ) then GWRL_RD
      else if flisset (src_fl s a) GWRL_WR \<and> ke_filter ke = EVFILT_WRITE then GWRL_WR else 0)"

definition kq_evt :: "'z kworld \<Rightarrow> kevent \<times> addr \<Rightarrow> gwrlevt option" where
  "kq_evt s x = (case x of (ke, a) \<Rightarrow>
     map_option (\<lambda>o1. new_evt (Some a) (src_callback o1) (src_userdata o1) (src_fd s a) (kq_flags s ke a) None) (srcs s a))"

text \<open>Events for enabled sources, without errors.\<close>

definition kq_plain :: "'z kworld \<Rightarrow> (kevent \<times> addr) list \<Rightarrow> bool" where
  "kq_plain s R \<longleftrightarrow> (\<forall>(ke, a) \<in> set R. ke_udata ke = Some a \<and> file_src s a \<and>
     flisset (src_fl s a) GWRL_ENABLED \<and> \<not> flisset (ke_flags ke) EV_ERROR)"

lemma kq_views:
  assumes "srcs s' = srcs s"
  shows "kq_flags s' = kq_flags s" "kq_evt s' = kq_evt s" "kq_plain s' = kq_plain s"
proof -
  note v = epoll_views [OF assms]
  show f: "kq_flags s' = kq_flags s" by (intro ext) (simp only: kq_flags_def v)
  show "kq_evt s' = kq_evt s" by (intro ext) (simp only: kq_evt_def f assms v)
  show "kq_plain s' = kq_plain s" by (intro ext) (simp only: kq_plain_def v)
qed

lemma flag_tests:
  "(x AND EV_ERROR = 0) = (\<not> flisset x EV_ERROR)" "(x AND EV_EOF = 0) = (\<not> flisset x EV_EOF)"
  "(fl AND GWRL_RD = 0) = (\<not> flisset fl GWRL_RD)" "(fl AND GWRL_WR = 0) = (\<not> flisset fl GWRL_WR)"
  by (simp_all add: flisset_def)

lemma kqueue_post_ok:
  assumes "evts_inv s E C" "file_src s a" "\<not> flisset (ke_flags ke) EV_ERROR"
  shows "\<exists>t N C'. kqueue_post ke (Some a) s = Some t \<and> evt_frame s t \<and> evts_inv t (rev N @ E) C' \<and>
    map (\<lambda>e. map_option evt_core (evts t e)) N = (if kq_flags s ke a \<noteq> 0 then [kq_evt s (ke, a)] else []) \<and>
    (\<forall>e \<in> set E. evts t e = evts s e)"
proof -
  obtain o1 f where o1: "srcs s a = Some o1" "as_file o1 = Some f" "file_fd f = src_fd s a"
    "src_flags o1 = src_fl s a" using assms(2) by (rule file_src_part)
  have post: "kqueue_post ke (Some a) s = (if kq_flags s ke a = 0 then Some s
      else gwrl_evt_createp (Some a) (src_callback o1) (src_userdata o1) (src_fd s a) (kq_flags s ke a) s \<bind>
        (\<lambda>(e, s). gwrl_post_evt e s))"
  proof -
    have nz: "GWRL_RD \<noteq> 0" "GWRL_WR \<noteq> 0" by (simp_all add: flag_defs)
    let ?r = "flisset (src_fl s a) GWRL_RD \<and> (flisset (ke_flags ke) EV_EOF \<or> ke_filter ke = EVFILT_READ)"
    let ?w = "flisset (src_fl s a) GWRL_WR \<and> ke_filter ke = EVFILT_WRITE"
    have "kqueue_post ke (Some a) s = (if ?r then
        gwrl_evt_createp (Some a) (src_callback o1) (src_userdata o1) (src_fd s a) GWRL_RD s \<bind> (\<lambda>(e, s). gwrl_post_evt e s)
      else if ?w then
        gwrl_evt_createp (Some a) (src_callback o1) (src_userdata o1) (src_fd s a) GWRL_WR s \<bind> (\<lambda>(e, s). gwrl_post_evt e s)
      else Some s)"
      using o1 assms(3) by (auto simp: kqueue_post_def flag_tests Let_def)
    then show ?thesis using nz by (auto simp: kq_flags_def)
  qed
  show ?thesis
  proof (cases "kq_flags s ke a = 0")
    case True
    with post assms(1) show ?thesis by (intro exI [of _ s] exI [of _ "[]"] exI [of _ C]) simp
  next
    case False
    obtain e t where t:
      "(gwrl_evt_createp (Some a) (src_callback o1) (src_userdata o1) (src_fd s a)
         (kq_flags s ke a) s \<bind> (\<lambda>(e, s). gwrl_post_evt e s)) = Some t"
      "evts t = (evts s)(e \<mapsto> new_evt (Some a) (src_callback o1) (src_userdata o1) (src_fd s a)
         (kq_flags s ke a) (events (rl s)))" "e \<notin> set E"
      "evts_inv t (e # E) (tl C)" "evt_frame s t"
      by (rule createp_post [OF assms(1)])
    have "map_option evt_core (evts t e) = kq_evt s (ke, a)"
      using t(2) o1(1) by (simp add: kq_evt_def evt_core_def)
    with False post t show ?thesis
      by (intro exI [of _ t] exI [of _ "[e]"] exI [of _ "tl C"]) auto
  qed
qed

text \<open>The loop passes over plain events and goes on with what follows them.\<close>

lemma kqueue_post_loop_plain:
  assumes "kq_plain s R" "evts_inv s E C"
  shows "\<exists>t N C'. kqueue_post_loop (length R + n) (map fst R @ es) s = kqueue_post_loop n es t \<and>
    evt_frame s t \<and> evts_inv t (rev N @ E) C' \<and>
    map (\<lambda>e. map_option evt_core (evts t e)) N = map (kq_evt s) (filter (\<lambda>(ke, a). kq_flags s ke a \<noteq> 0) R) \<and>
    (\<forall>e \<in> set E. evts t e = evts s e)"
  using assms
proof (induction R arbitrary: s E C)
  case Nil
  then show ?case by (intro exI [of _ s] exI [of _ "[]"] exI [of _ C]) simp
next
  case (Cons r R)
  obtain ke a where r: "r = (ke, a)" by (cases r)
  have a: "ke_udata ke = Some a" "file_src s a" "flisset (src_fl s a) GWRL_ENABLED" "\<not> flisset (ke_flags ke) EV_ERROR"
    and pl: "kq_plain s R" using Cons.prems(1) r by (simp_all add: kq_plain_def)
  obtain o1 where o1: "srcs s a = Some o1" "src_type o1 = 0" using a(2) by (auto simp: file_src_iff)
  then have fl: "src_flags o1 = src_fl s a" by (simp add: src_fl_def)
  obtain u M D where u: "kqueue_post ke (Some a) s = Some u" "evt_frame s u" "evts_inv u (rev M @ E) D"
    "map (\<lambda>e. map_option evt_core (evts u e)) M = (if kq_flags s ke a \<noteq> 0 then [kq_evt s (ke, a)] else [])"
    "\<forall>e \<in> set E. evts u e = evts s e"
    using kqueue_post_ok [OF Cons.prems(2) a(2,4)] by blast
  note v = kq_views [OF evt_frameD(1) [OF u(2)]]
  obtain t N C' where t: "kqueue_post_loop (length R + n) (map fst R @ es) u = kqueue_post_loop n es t"
    "evt_frame u t" "evts_inv t (rev N @ rev M @ E) C'"
    "map (\<lambda>e. map_option evt_core (evts t e)) N = map (kq_evt s) (filter (\<lambda>(ke, a). kq_flags s ke a \<noteq> 0) R)"
    "\<forall>e \<in> set (rev M @ E). evts t e = evts u e"
    using Cons.IH [OF _ u(3)] pl unfolding v by blast
  have "kqueue_post_loop (length (r # R) + n) (map fst (r # R) @ es) s = kqueue_post_loop n es t"
    using a(1,3) o1 fl u(1) t(1) r
    by (simp add: kqueue_post_loop.simps [of "Suc (length R + n)"] src_type_defs)
  moreover have "map (\<lambda>e. map_option evt_core (evts t e)) M = map (\<lambda>e. map_option evt_core (evts u e)) M"
    using t(5) by simp
  ultimately show ?case
    using t u evt_frame_trans [OF u(2) t(2)] r
    by (intro exI [of _ t] exI [of _ "M @ N"] exI [of _ C']) (auto split: if_splits)
qed

text \<open>An event whose source is disabled stops the loop for ever.\<close>

lemma kqueue_post_loop_disabled:
  assumes "0 < n" "ke_udata ke = Some a" "srcs s a = Some o1" "\<not> flisset (src_flags o1) GWRL_ENABLED"
  shows "kqueue_post_loop n (ke # es) s = None"
proof (rule ccontr)
  assume "kqueue_post_loop n (ke # es) s \<noteq> None"
  then obtain y where y: "kqueue_post_loop n (ke # es) s = Some y" by blast
  have "\<not> (n = m \<and> ke # es = xs \<and> s = t)" if "kqueue_post_loop m xs t = Some y" for m xs t
  proof (induction rule: kqueue_post_loop.raw_induct [OF _ that])
    case (1 f m xs t y)
    show ?case
    proof
      assume e: "n = m \<and> ke # es = xs \<and> s = t"
      with 1(2) assms have "f m xs t = Some y" by (auto split: if_splits)
      from 1(1) [OF this] e show False by simp
    qed
  qed
  with y show False by blast
qed

text \<open>The state in which \<^verbatim>\<open>kevent\<close> has returned.\<close>

definition kq_returned :: "timespec option \<Rightarrow> 'z kworld \<Rightarrow> 'z kworld" where
  "kq_returned t s =
     (let a = answer_at s 0 in
      s\<lparr>calls := Sys_kevent_wait (kq (backend (rl s))) (gwrl_kqueue_kevent_count (options (rl s))) t # calls s,
        errno := (if ans_ret a < 0 then ans_errno a else errno s),
        rl := (rl s)\<lparr>rl_flags := flclr (flset (rl_flags (rl s)) GWRL_SLEEPING) GWRL_SLEEPING\<rparr>\<rparr>)"

lemma kq_returned_sel [simp]:
  "srcs (kq_returned t s) = srcs s" "evts (kq_returned t s) = evts s" "brk (kq_returned t s) = brk s"
  "backend (rl (kq_returned t s)) = backend (rl s)" "sources (rl (kq_returned t s)) = sources (rl s)"
  "events (rl (kq_returned t s)) = events (rl s)" "cevents (rl (kq_returned t s)) = cevents (rl s)"
  "ncevents (rl (kq_returned t s)) = ncevents (rl s)" "noted (kq_returned t s) = noted s"
  by (simp_all add: kq_returned_def Let_def)

lemma kq_returned_inv:
  "srcs_inv s Fs Ts \<Longrightarrow> srcs_inv (kq_returned t s) Fs Ts" "evts_inv s E C \<Longrightarrow> evts_inv (kq_returned t s) E C"
  by (rule srcs_inv_cong [of "kq_returned t s" s]; simp add: srcs_inv_def fresh_ok_def)
     (rule evts_inv_cong [of "kq_returned t s" s]; simp add: evts_inv_def fresh_ok_def)

lemma gather_kqueue_cases:
  assumes "kqueue_timeout s = Some t"
  shows "ans_ret (answer_at s 0) = 0 \<or> ans_ret (answer_at s 0) < 0 \<and> ans_errno (answer_at s 0) \<in> {EINVAL, EINTR} \<Longrightarrow>
      gwrl_bkd_gather_kqueue s = Some (kq_returned t s)"
    and "0 < ans_ret (answer_at s 0) \<Longrightarrow> kevents (backend (rl s)) = Some n \<Longrightarrow> ans_ret (answer_at s 0) \<le> int n \<Longrightarrow>
      gwrl_bkd_gather_kqueue s = kqueue_post_loop (nat (ans_ret (answer_at s 0))) (ans_kevents (answer_at s 0)) (kq_returned t s)"
  using assms
  by (auto simp: gwrl_bkd_gather_kqueue_def syscall_def Let_def answer_at_def kq_returned_def errno_defs nat_le_iff)

lemma kq_tracks_calls:
  assumes "srcs s' = srcs s" "noted s' = noted s" "kqueue_tracks s A"
  shows "kqueue_tracks s' A"
  using assms(3) epoll_views [OF assms(1)] by (simp add: kqueue_tracks_def assms(2))

lemma bkd_frame_evts_inv:
  assumes "bkd_frame s s'" "evts_inv s E C"
  shows "evts_inv s' E C"
proof -
  have "fresh_ok s'" using bkd_frame_fresh [OF assms(1)] assms(2) by (simp add: evts_inv_def)
  from evts_inv_cong [OF bkd_frameD(1,3-5) [OF assms(1)] this assms(2)] show ?thesis .
qed

text \<open>An error event posts for reading, whatever its filter, after it has disabled the source.\<close>

lemma kqueue_post_error:
  assumes "flisset (ke_flags ke) EV_ERROR" "gwrl_src_disable kqueue_ops (Some a) t = Some u" "evts_inv u E C" "file_src u a"
  shows "\<exists>w. kqueue_post ke (Some a) t = Some w \<and> evt_frame u w"
proof -
  obtain o1 f where o1: "srcs u a = Some o1" "as_file o1 = Some f" using assms(4) by (rule file_src_part)
  obtain e w where w: "(gwrl_evt_createp (Some a) (src_callback o1) (src_userdata o1) (file_fd f) GWRL_RD u \<bind>
      (\<lambda>(e, s). gwrl_post_evt e s)) = Some w" "evt_frame u w"
    by (rule createp_post [OF assms(3)])
  have "kqueue_post ke (Some a) t = Some w"
    using assms(1,2) o1 w(1) by (simp add: kqueue_post_def flag_tests Let_def cong: if_cong)
  with w(2) show ?thesis by blast
qed

subsection \<open>Properties\<close>

text \<open>
  C27: with the kqueue backend, adding a file source on a descriptor that is not registered
  yet, removing one (with or without its predecessor given), enabling or disabling one
  always return, keep the lists consistent, and leave the kernel with a note for
  each interest of each registered source, active just when the source is enabled, and
  with no other active note. So does changing the flags, which also enables the source when
  there is an interest left.
\<close>
theorem kqueue_sources_tracked:
  assumes "srcs_inv s (xs @ a # ys) Ts" "kqueue_tracks s (set (xs @ a # ys))"
    and "file_src s b" "b \<notin> set (xs @ a # ys)" "src_nx s b = Some None"
    and "src_fd s b \<notin> src_fd s ` set (xs @ a # ys)"
    and "prev = None \<or> xs \<noteq> [] \<and> prev = Some (last xs)"
  shows "(\<exists>s'. gwrl_src_add kqueue_ops (Some b) s = Some s' \<and> srcs_inv s' (b # xs @ a # ys) Ts \<and>
      kqueue_tracks s' (set (b # xs @ a # ys))) \<and>
    (\<exists>s'. gwrl_src_del kqueue_ops (Some a) prev freesrc s = Some s' \<and> srcs_inv s' (xs @ ys) Ts \<and>
      kqueue_tracks s' (set (xs @ ys)) \<and> (srcs s' a = None \<longleftrightarrow> freesrc)) \<and>
    (\<exists>s'. gwrl_src_enable kqueue_ops (Some a) s = Some s' \<and> srcs_inv s' (xs @ a # ys) Ts \<and>
      kqueue_tracks s' (set (xs @ a # ys))) \<and>
    (\<exists>s'. gwrl_src_disable kqueue_ops (Some a) s = Some s' \<and> srcs_inv s' (xs @ a # ys) Ts \<and>
      kqueue_tracks s' (set (xs @ a # ys))) \<and>
    (\<exists>s'. gwrl_src_file_update_flags_kqueue (Some a) fl s = Some s' \<and> src_fl s' a = kqueue_flags fl \<and>
      srcs_inv s' (xs @ a # ys) Ts \<and> kqueue_tracks s' (set (xs @ a # ys)))"
proof -
  have a: "a \<in> set (xs @ a # ys)" by simp
  have b: "\<exists>ob. srcs s b = Some ob \<and> src_next ob = None" using assms(5) by (simp add: src_nx_iff)
  obtain s' where s': "gwrl_src_file_update_flags_kqueue (Some a) fl s = Some s'" "src_fl s' a = kqueue_flags fl"
    "bkd_frame (mod_src (\<lambda>o1. o1\<lparr>src_flags := kqueue_flags fl\<rparr>) a s) s'" "kqueue_tracks s' (set (xs @ a # ys))"
    using kqueue_update_ok [OF a assms(2)] by blast
  have "srcs_inv (mod_src (\<lambda>o1. o1\<lparr>src_flags := kqueue_flags fl\<rparr>) a s) (xs @ a # ys) Ts"
    by (rule mod_src_frame [OF _ _ _ assms(1)]) simp_all
  from bkd_frame_srcs_inv [OF s'(3) this] show ?thesis
    using kq.add_file [OF assms(1,2,3,4) b TrueI assms(6)] kq.del_file [OF assms(1,2,7), of freesrc]
      kq.enable_file [OF assms(1,2) a] kq.disable_file [OF assms(1,2) a] s'(1,2,4)
    by blast
qed

text \<open>
  C20: gathering waits once in \<^verbatim>\<open>kevent\<close>. When it reports events, all for enabled sources and
  without errors, one event is posted for each that meets the source's interest, in the
  order of the report; the end of the file counts as readable. On a timeout, \<^verbatim>\<open>EINTR\<close> or
  \<^verbatim>\<open>EINVAL\<close> nothing is posted.
\<close>
theorem kqueue_gather_posts:
  assumes "evts_inv s E C" "kqueue_timeout s = Some tm" "kq_plain s R"
    and "ans_kevents (answer_at s 0) = map fst R" "kevents (backend (rl s)) = Some n" "length R \<le> n"
  shows "(0 < ans_ret (answer_at s 0) \<and> ans_ret (answer_at s 0) = int (length R) \<longrightarrow>
      (\<exists>s' N C'. gwrl_bkd_gather_kqueue s = Some s' \<and> evt_frame (kq_returned tm s) s' \<and> evts_inv s' (rev N @ E) C' \<and>
        map (\<lambda>e. map_option evt_core (evts s' e)) N = map (kq_evt s) (filter (\<lambda>(ke, a). kq_flags s ke a \<noteq> 0) R) \<and>
        (\<forall>e \<in> set E. evts s' e = evts s e))) \<and>
    (ans_ret (answer_at s 0) = 0 \<or>
       ans_ret (answer_at s 0) < 0 \<and> ans_errno (answer_at s 0) \<in> {EINVAL, EINTR} \<longrightarrow>
      gwrl_bkd_gather_kqueue s = Some (kq_returned tm s))"
proof (intro conjI impI)
  assume r: "0 < ans_ret (answer_at s 0) \<and> ans_ret (answer_at s 0) = int (length R)"
  note v = kq_views [of "kq_returned tm s" s, OF kq_returned_sel(1)]
  have pl: "kq_plain (kq_returned tm s) R" using assms(3) v(3) by simp
  obtain s' N C' where s': "kqueue_post_loop (length R + 0) (map fst R @ []) (kq_returned tm s) = kqueue_post_loop 0 [] s'"
    "evt_frame (kq_returned tm s) s'" "evts_inv s' (rev N @ E) C'"
    "map (\<lambda>e. map_option evt_core (evts s' e)) N = map (kq_evt s) (filter (\<lambda>(ke, a). kq_flags s ke a \<noteq> 0) R)"
    "\<forall>e \<in> set E. evts s' e = evts (kq_returned tm s) e"
    using kqueue_post_loop_plain [OF pl kq_returned_inv(2) [OF assms(1)], of 0 "[]"] unfolding v by blast
  have "gwrl_bkd_gather_kqueue s = Some s'"
    using gather_kqueue_cases(2) [OF assms(2), of n] r assms(4-6) s'(1) by (auto simp: kqueue_post_loop.simps [of 0])
  with s' show "\<exists>s' N C'. gwrl_bkd_gather_kqueue s = Some s' \<and> evt_frame (kq_returned tm s) s' \<and> evts_inv s' (rev N @ E) C' \<and>
      map (\<lambda>e. map_option evt_core (evts s' e)) N = map (kq_evt s) (filter (\<lambda>(ke, a). kq_flags s ke a \<noteq> 0) R) \<and>
      (\<forall>e \<in> set E. evts s' e = evts s e)"
    by (intro exI [of _ s'] exI [of _ N] exI [of _ C']) simp
qed (rule gather_kqueue_cases(1) [OF assms(2)])

text \<open>
  an error event disables its source, and the loop over the report never gets past an
  event of a disabled source. When the report has two events of one source (reading and
  writing, say) and the first carries an error, gathering never returns, whatever stands
  before or after them.
\<close>
theorem kqueue_error_hangs:
  assumes "srcs_inv s Fs Ts" "kqueue_tracks s (set Fs)" "evts_inv s E C" "kqueue_timeout s = Some tm"
    and "kq_plain s R" "a \<in> set Fs" "flisset (src_fl s a) GWRL_ENABLED"
    and "ke_udata k1 = Some a" "flisset (ke_flags k1) EV_ERROR" "ke_udata k2 = Some a"
    and "ans_kevents (answer_at s 0) = map fst R @ k1 # k2 # ks"
    and "ans_ret (answer_at s 0) = int (length (ans_kevents (answer_at s 0)))"
  shows "gwrl_bkd_gather_kqueue s = None"
proof (cases "\<exists>n. kevents (backend (rl s)) = Some n \<and> ans_ret (answer_at s 0) \<le> int n")
  case False
  have "0 < ans_ret (answer_at s 0)" using assms(11,12) by simp
  with False assms(4) show ?thesis
    by (auto simp: gwrl_bkd_gather_kqueue_def syscall_def Let_def answer_at_def nat_le_iff split: Option.bind_splits)
next
  case True
  note v = kq_views [of "kq_returned tm s" s, OF kq_returned_sel(1)]
  let ?m = "length ks + 2"
  obtain t N C' where t: "kqueue_post_loop (length R + ?m) (map fst R @ k1 # k2 # ks) (kq_returned tm s) =
      kqueue_post_loop ?m (k1 # k2 # ks) t" "evt_frame (kq_returned tm s) t" "evts_inv t (rev N @ E) C'"
    using kqueue_post_loop_plain [of "kq_returned tm s" R E C ?m "k1 # k2 # ks"] kq_returned_inv(2) [OF assms(3)]
      assms(5) v(3) by auto
  have st: "srcs t = srcs s" using evt_frameD(1) [OF t(2)] by simp
  have "calls t = calls (kq_returned tm s)" by (subst t(2) [unfolded evt_frame_def]) simp
  then have "noted t = noted s" using evt_frameD(8) [OF t(2)] by (metis kq_returned_sel(4,9))
  from kq_tracks_calls [OF st this assms(2)] have tr: "kqueue_tracks t (set Fs)" .
  have inv: "srcs_inv t Fs Ts"
    by (rule srcs_inv_cong [OF _ _ _ assms(1)])
       (use st evt_frameD(6) [OF t(2)] t(3) in \<open>simp_all add: evts_inv_def\<close>)
  obtain u where u: "gwrl_src_disable kqueue_ops (Some a) t = Some u" "bkd_frame (mod_src (src_flclr GWRL_ENABLED) a t) u"
    using kq.disable_file [OF inv tr assms(6)] by blast
  obtain o1 where o1: "srcs t a = Some o1" "src_type o1 = 0" "flisset (src_flags o1) GWRL_ENABLED"
    using srcs_invD(5) [OF assms(1,6)] assms(7) st by (auto simp: file_src_iff src_fl_def)
  have dis: "\<not> flisset (src_fl u a) GWRL_ENABLED"
    using bkd_frame_flags(1) [OF u(2)] o1(1) by (simp add: mod_src_def src_fl_def src_flclr_def flag_simps)
  have fu: "file_src u a"
    using bkd_frame_kind(1) [OF u(2)] srcs_invD(5) [OF inv assms(6)] o1
    by (auto simp: file_src_iff mod_src_def src_flclr_def)
  obtain w where w: "kqueue_post k1 (Some a) t = Some w" "srcs w = srcs u"
    using kqueue_post_error [OF assms(9) u(1) bkd_frame_evts_inv [OF u(2) mod_src_evts_inv [OF t(3)]] fu]
      evt_frameD(1) by blast
  obtain ow where ow: "srcs w a = Some ow" "\<not> flisset (src_flags ow) GWRL_ENABLED"
    using dis fu w(2) by (auto simp: file_src_iff src_fl_def)
  have "kqueue_post_loop ?m (k1 # k2 # ks) t = kqueue_post_loop (Suc (length ks)) (k2 # ks) w"
    using assms(8) o1 w(1) by (simp add: kqueue_post_loop.simps [of "Suc (Suc (length ks))"] src_type_defs)
  also have "\<dots> = None" by (rule kqueue_post_loop_disabled [OF _ assms(10) ow]) simp
  finally have "kqueue_post_loop (nat (ans_ret (answer_at s 0))) (ans_kevents (answer_at s 0)) (kq_returned tm s) = None"
    using t(1) assms(11,12) by (simp add: nat_add_distrib)
  moreover have "0 < ans_ret (answer_at s 0)" using assms(11,12) by simp
  ultimately show ?thesis using True gather_kqueue_cases(2) [OF assms(4)] by auto
qed

text \<open>
  the number of kernel events asked for is compared as an unsigned size. A negative option
  is taken for a huge one, the array is never there, and the call never returns; a larger
  number than the current one resizes the array to it, a smaller one changes nothing.
\<close>
theorem kqueue_negative_count_hangs:
  assumes "gwrl_kqueue_kevent_count opts = n" "- (2 ^ 31) \<le> n" "n < 2 ^ 31"
    and "0 < uint (maxkevents (backend (rl s)))" "uint (maxkevents (backend (rl s))) < 2 ^ 31"
  shows "if n < 0 then gwrl_bkd_set_options_kqueue opts s = None
    else \<exists>s'. gwrl_bkd_set_options_kqueue opts s = Some s' \<and>
      uint (maxkevents (backend (rl s'))) = max n (uint (maxkevents (backend (rl s)))) \<and>
      kevents (backend (rl s')) = Some (unat (maxkevents (backend (rl s'))))"
proof -
  let ?old = "maxkevents (backend (rl s))" and ?w = "word_of_int n :: 64 word"
  let ?m = "if ?w > ?old then ?w else ?old"
  have un: "uint ?w = n mod 2 ^ 64" by (simp add: uint_word_of_int)
  have nz: "\<not> ?m < 1" using assms(4) by (auto simp: word_less_def)
  let ?s = "s\<lparr>rl := (rl s)\<lparr>backend := (backend (rl s))\<lparr>maxkevents := ?m\<rparr>\<rparr>\<rparr>"
  have e: "gwrl_bkd_set_options_kqueue opts s =
      (if uint (sizeof_kevent * ?m) \<ge> 2 ^ 63 \<or> sizeof_kevent * ?m = 0 then None
       else do {
         (_, s) \<leftarrow> calloc_msg ''54oKD0'' ?s;
         Some (s\<lparr>rl := (rl s)\<lparr>backend := (backend (rl s))\<lparr>kevents := Some (unat ?m)\<rparr>\<rparr>\<rparr>) })"
    unfolding gwrl_bkd_set_options_kqueue_def Let_def assms(1) if_not_P [OF nz] ..
  have sz: "uint (sizeof_kevent * m) = 32 * uint m mod 2 ^ 64" for m
    by (simp add: sizeof_kevent_def uint_word_ariths)
  show ?thesis
  proof (cases "n < 0")
    case True
    have "n mod 2 ^ 64 = (n + 2 ^ 64) mod 2 ^ 64" by (simp only: mod_add_self2)
    also have "\<dots> = n + 2 ^ 64" by (rule mod_pos_pos_trivial) (use True assms(2) in simp_all)
    finally have "n mod 2 ^ 64 = n + 2 ^ 64" .
    then have u: "uint ?w = n + 2 ^ 64" using un by simp
    then have "?m = ?w" using assms(2,5) by (simp add: word_less_def)
    moreover have "32 * uint ?w mod 2 ^ 64 = 32 * n + 2 ^ 64"
    proof -
      have "32 * uint ?w = (32 * n + 2 ^ 64) + 31 * 2 ^ 64" using u by simp
      then have "32 * uint ?w mod 2 ^ 64 = (32 * n + 2 ^ 64) mod 2 ^ 64" by presburger
      also have "\<dots> = 32 * n + 2 ^ 64" by (rule mod_pos_pos_trivial) (use True assms(2) in simp_all)
      finally show ?thesis .
    qed
    ultimately have "2 ^ 63 \<le> uint (sizeof_kevent * ?m)" using sz [of ?w] assms(2) by simp
    then show ?thesis using e True by simp
  next
    case False
    then have "n mod 2 ^ 64 = n" using assms(3) by (simp add: mod_pos_pos_trivial)
    then have u: "uint ?w = n" using un by simp
    define M where "M = ?m"
    have um: "uint M = max n (uint ?old)" using u by (auto simp: M_def word_less_def max_def)
    then have b: "0 < uint M" "uint M < 2 ^ 31" using assms(3-5) by simp_all
    have "32 * uint M mod 2 ^ 64 = 32 * uint M" by (rule mod_pos_pos_trivial) (use b in simp_all)
    then have "\<not> 2 ^ 63 \<le> uint (sizeof_kevent * M)" "sizeof_kevent * M \<noteq> 0"
      using sz [of M] b by (auto simp flip: uint_0_iff)
    moreover obtain x t where "calloc_msg ''54oKD0'' ?s = Some (x, t)" "rl t = rl ?s"
      by (rule calloc_msg_ok [of "''54oKD0''" ?s]) simp
    ultimately show ?thesis using e False um unfolding M_def [symmetric] by simp
  qed
qed

subsection \<open>Instances\<close>

text \<open>
  The sources of \<open>select_world\<close> on a kernel queue 9 that has the notes of the two registered ones;
  \<^verbatim>\<open>kevent\<close> reports both.
\<close>

definition read_note :: kevent where
  "read_note = \<lparr>ke_ident = 3, ke_filter = EVFILT_READ, ke_flags = EV_ADD, ke_udata = Some 11\<rparr>"

definition write_note :: kevent where
  "write_note = \<lparr>ke_ident = 5, ke_filter = EVFILT_WRITE, ke_flags = EV_ADD, ke_udata = Some 12\<rparr>"

definition kqueue_world :: "kevent list \<Rightarrow> gwrlbkd_kqueue world" where
  "kqueue_world ks = (blank_world undefined)\<lparr>
     srcs := srcs select_world,
     brk := 14,
     rl := (zero_gwrl \<lparr>kq = 9, maxkevents = 512, kevents = Some 512\<rparr>)\<lparr>sources := [Some 11, None]\<rparr>,
     calls := [Sys_kevent_change 9 write_note, Sys_kevent_change 9 read_note],
     answers := (\<lambda>n. (ok_answer (int (length ks)))\<lparr>ans_kevents := ks\<rparr>)\<rparr>"

lemma kqueue_world_srcs:
  "srcs (kqueue_world ks) = srcs select_world"
  "src_fd (kqueue_world ks) a = src_fd select_world a" "src_fl (kqueue_world ks) a = src_fl select_world a"
  "file_src (kqueue_world ks) a = file_src select_world a"
  by (simp_all add: kqueue_world_def src_fd_def src_fl_def file_src_iff)

lemma kqueue_world_noted:
  "noted (kqueue_world ks) = [(3, EVFILT_READ) \<mapsto> (True, Some 11), (5, EVFILT_WRITE) \<mapsto> (True, Some 12)]"
  by (simp add: kqueue_world_def note_effect_def zero_gwrl_def read_note_def write_note_def kev_flags Let_def)

lemma kqueue_world_ok:
  "srcs_inv (kqueue_world ks) [11, 12] []" "kqueue_tracks (kqueue_world ks) {11, 12}" "evts_inv (kqueue_world ks) [] []"
proof -
  show "srcs_inv (kqueue_world ks) [11, 12] []"
    using select_world_srcs kqueue_world_srcs [of ks]
    by (auto simp: srcs_inv_def src_type_defs src_nx_iff fresh_ok_def)
      (simp_all add: kqueue_world_def select_world_def file_src_on_def blank_world_def zero_gwrl_def)
  show "kqueue_tracks (kqueue_world ks) {11, 12}"
    by (rule kqueue_tracksI)
       (auto simp: kqueue_world_srcs select_world_srcs kqueue_world_noted silent_def flag_simps bit_or_iff)
  show "evts_inv (kqueue_world ks) [] []"
    by (simp add: evts_inv_def cache_ok_def fresh_ok_def kqueue_world_def select_world_def blank_world_def zero_gwrl_def)
qed

lemma kqueue_world_rest:
  "kqueue_timeout (kqueue_world ks) = Some (Some \<lparr>ts_sec = 0, ts_nsec = 0\<rparr>)"
  "kevents (backend (rl (kqueue_world ks))) = Some 512" "maxkevents (backend (rl (kqueue_world ks))) = 512"
  "answer_at (kqueue_world ks) 0 = (ok_answer (int (length ks)))\<lparr>ans_kevents := ks\<rparr>"
  by (simp_all add: kqueue_timeout_def kqueue_world_def zero_gwrl_def no_time_def answer_at_def)

theorem kqueue_sources_tracked_witness:
  "\<exists>s'. gwrl_src_del kqueue_ops (Some 11) None True (kqueue_world []) = Some s' \<and> srcs_inv s' [12] [] \<and>
    kqueue_tracks s' {12} \<and> srcs s' 11 = None"
proof -
  have "src_nx (kqueue_world []) 13 = Some None"
    by (simp add: src_nx_srcs kqueue_world_srcs) (simp add: select_world_def file_src_on_def)
  then show ?thesis
    using kqueue_sources_tracked [of "kqueue_world []" "[]" 11 "[12]" "[]" 13 None True] kqueue_world_ok [of "[]"]
    by (simp add: kqueue_world_srcs select_world_srcs)
qed

theorem kqueue_gather_posts_witness:
  "\<exists>s' N C'. gwrl_bkd_gather_kqueue (kqueue_world [read_note, write_note]) = Some s' \<and> evts_inv s' (rev N) C' \<and>
    map (\<lambda>e. map_option evt_core (evts s' e)) N =
      [Some (new_evt (Some 11) (Some (Fn_user 1)) None 3 GWRL_RD None),
       Some (new_evt (Some 12) (Some (Fn_user 1)) None 5 GWRL_WR None)]"
proof -
  let ?s = "kqueue_world [read_note, write_note]" and ?R = "[(read_note, 11), (write_note, 12)]"
  have ef: "\<not> flisset EV_ADD EV_ERROR" "\<not> flisset EV_ADD EV_EOF"
    by (simp_all add: flisset_def EV_ADD_def EV_ERROR_def EV_EOF_def)
  have pl: "kq_plain ?s ?R"
    by (simp add: kq_plain_def kqueue_world_srcs select_world_srcs read_note_def write_note_def ef flag_simps bit_or_iff)
  have fl: "kq_flags ?s read_note 11 = GWRL_RD" "kq_flags ?s write_note 12 = GWRL_WR"
    by (simp_all add: kq_flags_def kqueue_world_srcs select_world_srcs read_note_def write_note_def ef flag_simps bit_or_iff)
  have c: "map (kq_evt ?s) (filter (\<lambda>(ke, a). kq_flags ?s ke a \<noteq> 0) ?R) =
      [Some (new_evt (Some 11) (Some (Fn_user 1)) None 3 GWRL_RD None),
       Some (new_evt (Some 12) (Some (Fn_user 1)) None 5 GWRL_WR None)]"
    by (simp add: fl kq_evt_def kqueue_world_srcs select_world_srcs)
       (simp add: select_world_def file_src_on_def flag_defs)
  obtain s' N C' where "gwrl_bkd_gather_kqueue ?s = Some s'" "evts_inv s' (rev N @ []) C'"
    "map (\<lambda>e. map_option evt_core (evts s' e)) N = map (kq_evt ?s) (filter (\<lambda>(ke, a). kq_flags ?s ke a \<noteq> 0) ?R)"
    using kqueue_gather_posts [OF kqueue_world_ok(3) kqueue_world_rest(1) pl _ kqueue_world_rest(2), THEN conjunct1]
    by (auto simp: kqueue_world_rest ok_answer_def)
  then show ?thesis using c by (intro exI [of _ s'] exI [of _ N] exI [of _ C']) simp
qed

theorem kqueue_error_hangs_witness:
  "gwrl_bkd_gather_kqueue (kqueue_world [read_note\<lparr>ke_flags := EV_ERROR\<rparr>, read_note]) = None"
proof -
  let ?s = "kqueue_world [read_note\<lparr>ke_flags := EV_ERROR\<rparr>, read_note]"
  have t: "kqueue_tracks ?s (set [11, 12])" using kqueue_world_ok(2) by simp
  show ?thesis
    by (rule kqueue_error_hangs [OF kqueue_world_ok(1) t kqueue_world_ok(3) kqueue_world_rest(1), where R = "[]" and a = 11
        and ?k1.0 = "read_note\<lparr>ke_flags := EV_ERROR\<rparr>" and ?k2.0 = read_note and ks = "[]"])
       (simp_all add: kq_plain_def kqueue_world_rest ok_answer_def kqueue_world_srcs select_world_srcs flag_simps bit_or_iff
          read_note_def, simp add: flisset_def EV_ERROR_def)
qed

theorem kqueue_negative_count_hangs_witness:
  "gwrl_bkd_set_options_kqueue (GWRL_DEFAULT_OPTIONS\<lparr>gwrl_kqueue_kevent_count := -1\<rparr>) (kqueue_world []) = None \<and>
   (\<exists>s'. gwrl_bkd_set_options_kqueue (GWRL_DEFAULT_OPTIONS\<lparr>gwrl_kqueue_kevent_count := 600\<rparr>) (kqueue_world []) = Some s' \<and>
     uint (maxkevents (backend (rl s'))) = 600)"
  using kqueue_negative_count_hangs [of "GWRL_DEFAULT_OPTIONS\<lparr>gwrl_kqueue_kevent_count := -1\<rparr>" "-1" "kqueue_world []"]
    kqueue_negative_count_hangs [of "GWRL_DEFAULT_OPTIONS\<lparr>gwrl_kqueue_kevent_count := 600\<rparr>" 600 "kqueue_world []"]
  by (auto simp: kqueue_world_rest)

end
