(* ===== verification/Gw_Free.thy ===== *)
theory Gw_Free
  imports Gw_Poll Gw_Kqueue Gw_Loop
begin

section \<open>Releasing a reactor (\<^verbatim>\<open>src/gwrl/event.c\<close> and the backends)\<close>

text \<open>
  \<^verbatim>\<open>gwrl_free\<close> and the \<^verbatim>\<open>gwrl_bkd_free\<close> of each backend. The three uses of \<^verbatim>\<open>gwrl_free\<close> are told
  apart by its arguments: \<open>given\<close> says that the reactor is not null, \<open>out\<close> is \<open>None\<close> for a null
  \<^verbatim>\<open>sources\<close> and otherwise what \<^verbatim>\<open>*sources\<close> holds. The lemmas show that nothing the reactor
  still owned survives, and that the handed over sources are one chain.
\<close>

subsection \<open>The backends\<close>

text \<open>
  What was the backend becomes null (\<open>None\<close>). Its arrays live inside its structure in this
  model and go with it; the descriptors it holds are closed.
\<close>

definition gwrl_bkd_free_select :: "'z sworld \<Rightarrow> gwrlbkd_select option \<times> 'z sworld" where
  "gwrl_bkd_free_select s = (None, s)"

definition gwrl_bkd_free_epoll :: "'z eworld \<Rightarrow> gwrlbkd_epoll option \<times> 'z eworld" where
  "gwrl_bkd_free_epoll s = (None, snd (syscall (Sys_close (efd (backend (rl s)))) s))"

definition gwrl_bkd_free_poll :: "'z lworld \<Rightarrow> gwrlbkd_poll option \<times> 'z lworld" where
  "gwrl_bkd_free_poll s = (None, s)"

definition gwrl_bkd_free_kqueue :: "'z kworld \<Rightarrow> gwrlbkd_kqueue option \<times> 'z kworld" where
  "gwrl_bkd_free_kqueue s = (None, snd (syscall (Sys_close (kq (backend (rl s)))) s))"

subsection \<open>The loops\<close>

text \<open>The events: the list given first, and then what \<^verbatim>\<open>rl->cevents\<close> holds at its end.\<close>

partial_function (option) free_events ::
    "ptr \<Rightarrow> ('b, 'z) world_scheme \<Rightarrow> ('b, 'z) world_scheme option" where
  [code]: "free_events evt s =
     (if evt = None then Some s
      else do {
        e \<leftarrow> get_evt evt s;
        s \<leftarrow> free_evt evt s;
        if evt_next e = None
        then free_events (cevents (rl s)) (s\<lparr>rl := (rl s)\<lparr>cevents := None\<rparr>\<rparr>)
        else free_events (evt_next e) s })"

text \<open>The queued events.\<close>

partial_function (option) free_queued_events ::
    "ptr \<Rightarrow> ('b, 'z) world_scheme \<Rightarrow> ('b, 'z) world_scheme option" where
  [code]: "free_queued_events evt s =
     (if evt = None then Some s
      else do {
        e \<leftarrow> get_evt evt s;
        s \<leftarrow> free_evt evt s;
        free_queued_events (evt_next e) s })"

text \<open>
  One list of sources: freed, or (\<open>keep\<close>) appended to the list that runs from \<open>hd1\<close> to
  \<open>last1\<close>.
\<close>

partial_function (option) release_srcs ::
    "bool \<Rightarrow> ptr \<Rightarrow> ptr \<Rightarrow> ptr \<Rightarrow> ('b, 'z) world_scheme
     \<Rightarrow> (ptr \<times> ptr \<times> ('b, 'z) world_scheme) option" where
  [code]: "release_srcs keep src hd1 last1 s =
     (if src = None then Some (hd1, last1, s)
      else do {
        o1 \<leftarrow> get_src src s;
        if \<not> keep then do {
          s \<leftarrow> free_src src s;
          release_srcs keep (src_next o1) hd1 last1 s }
        else do {
          s \<leftarrow> upd_src (\<lambda>o1. o1\<lparr>src_next := None\<rparr>) src s;
          s \<leftarrow> (if last1 = None then Some s
               else upd_src (\<lambda>o1. o1\<lparr>src_next := src\<rparr>) last1 s);
          release_srcs keep (src_next o1) (if hd1 = None then src else hd1) src s } })"

fun release_types ::
    "bool \<Rightarrow> nat list \<Rightarrow> ptr \<Rightarrow> ptr \<Rightarrow> ('b, 'z) world_scheme
     \<Rightarrow> (ptr \<times> ptr \<times> ('b, 'z) world_scheme) option" where
  "release_types keep [] hd1 last1 s = Some (hd1, last1, s)"
| "release_types keep (i # is) hd1 last1 s = do {
     src \<leftarrow> nth_opt (sources (rl s)) i;
     s \<leftarrow> set_sources i None s;
     (hd1, last1, s) \<leftarrow> release_srcs keep src hd1 last1 s;
     release_types keep is hd1 last1 s }"

subsection \<open>\<^verbatim>\<open>gwrl_free\<close>\<close>

text \<open>
  The result: what \<^verbatim>\<open>*sources\<close> holds afterwards, whether the reactor itself was freed, and
  the state. \<open>bkd_free\<close> is the backend's \<^verbatim>\<open>gwrl_bkd_free\<close>. Without a reactor and without
  \<^verbatim>\<open>sources\<close> the call dereferences the null reactor.
\<close>

definition gwrl_free ::
    "('b, 'z) callbacks \<Rightarrow> (('b, 'z) world_scheme \<Rightarrow> 'b option \<times> ('b, 'z) world_scheme)
     \<Rightarrow> bool \<Rightarrow> ptr option \<Rightarrow> ('b, 'z) world_scheme
     \<Rightarrow> (ptr option \<times> bool \<times> ('b, 'z) world_scheme) option" where
  "gwrl_free cb bkd_free given out s =
     (if given \<and> rl_pr (rl s) \<noteq> None then Some (out, False, gwerr ''RF4L3'' s)
      else if \<not> given then
        (case out of
           Some head \<Rightarrow> do { s \<leftarrow> free_src_list head s; Some (out, False, s) }
         | None \<Rightarrow> None)
      else do {
        let keep = (out \<noteq> None);
        s \<leftarrow> gwrl_dispatch cb s;
        s \<leftarrow> (if events (rl s) = None
             then free_events (cevents (rl s)) (s\<lparr>rl := (rl s)\<lparr>cevents := None\<rparr>\<rparr>)
             else free_events (events (rl s)) s);
        (head, last1, s) \<leftarrow> release_types keep [0..<GWRL_SRC_TYPES_COUNT] None None s;
        (head, last1, s) \<leftarrow>
          (if qsrc (rl s) \<noteq> None
           then release_srcs keep (qsrc (rl s)) head last1 (s\<lparr>rl := (rl s)\<lparr>qsrc := None\<rparr>\<rparr>)
           else Some (head, last1, s));
        s \<leftarrow> (if qevt (rl s) \<noteq> None
             then free_queued_events (qevt (rl s)) (s\<lparr>rl := (rl s)\<lparr>qevt := None\<rparr>\<rparr>)
             else Some s);
        let s = snd (bkd_free s);
        Some (map_option (\<lambda>_. head) out, True, gwrl_wake_free s) })"

subsection \<open>Lemmas\<close>

text \<open>A memory without some of its objects.\<close>

definition without :: "addr set \<Rightarrow> (addr \<rightharpoonup> 'a) \<Rightarrow> (addr \<rightharpoonup> 'a)" where
  "without A m = (\<lambda>b. if b \<in> A then None else m b)"

lemma without_simps [simp]:
  "without {} m = m"
  "without A (m(a := None)) = without (insert a A) m"
  "without A (\<lambda>b. if b = a then None else m b) = without (insert a A) m"
  "without A (without B m) = without (A \<union> B) m"
  by (auto simp: without_def fun_eq_iff)

lemma seg_without:
  assumes "seg (map_option f \<circ> m) p xs q" "A \<inter> set xs = {}"
  shows "seg (map_option f \<circ> without A m) p xs q"
proof -
  have "(map_option f \<circ> without A m) x = (map_option f \<circ> m) x" if "x \<in> set xs" for x
    using assms(2) that by (auto simp: without_def)
  with assms(1) show ?thesis using seg_cong [of xs "map_option f \<circ> m"] by metis
qed

lemma nx_drop:
  "evt_nx (s\<lparr>evts := (evts s)(a := None)\<rparr>) = (evt_nx s)(a := None)"
  "src_nx (s\<lparr>srcs := (srcs s)(a := None)\<rparr>) = (src_nx s)(a := None)"
  by (auto simp: evt_nx_def src_nx_def fun_eq_iff)

lemma free_events_plain:
  assumes "chain (evt_nx s) p L" "cevents (rl s) = None"
  shows "free_events p s = Some (s\<lparr>evts := without (set L) (evts s)\<rparr>)"
  using assms
proof (induction L arbitrary: p s)
  case Nil
  then show ?case by (simp add: free_events.simps)
next
  case (Cons a L)
  from Cons.prems obtain e where e: "p = Some a" "evts s a = Some e" "chain (evt_nx s) (evt_next e) L"
    by (auto simp: evt_nx_iff)
  let ?t = "s\<lparr>evts := (evts s)(a := None)\<rparr>"
  have c: "?t\<lparr>rl := (rl s)\<lparr>cevents := None\<rparr>\<rparr> = ?t"
    using Cons.prems(2) by (intro world.equality gwrl.equality) simp_all
  have "a \<notin> set L" by (rule chain_tail_notin [OF Cons.prems(1)])
  with e(3) have "chain (evt_nx ?t) (evt_next e) L" by (simp add: evt_nx_evts)
  then show ?case
    using Cons.IH [of ?t "evt_next e"] Cons.prems(2) e(1,2) c
    by (cases "evt_next e") (auto simp: free_events.simps [of "Some a"] free_events.simps [of None])
qed

lemma free_events_all:
  assumes "chain (evt_nx s) p (a # L)" "chain (evt_nx s) (cevents (rl s)) C" "set (a # L) \<inter> set C = {}"
  shows "free_events p s = Some (s\<lparr>evts := without (set (a # L @ C)) (evts s), rl := (rl s)\<lparr>cevents := None\<rparr>\<rparr>)"
  using assms
proof (induction L arbitrary: p s a)
  case Nil
  then obtain e where e: "p = Some a" "evts s a = Some e" "evt_next e = None"
    by (auto simp: evt_nx_iff)
  let ?t = "s\<lparr>evts := (evts s)(a := None), rl := (rl s)\<lparr>cevents := None\<rparr>\<rparr>"
  have "evt_nx ?t = (evt_nx s)(a := None)" by (auto simp: evt_nx_def fun_eq_iff)
  with Nil(2,3) have "chain (evt_nx ?t) (cevents (rl s)) C" by simp
  from free_events_plain [OF this] e
  show ?case by (simp add: free_events.simps [of "Some a"])
next
  case (Cons b L)
  from Cons.prems obtain e where e: "p = Some a" "evts s a = Some e" "chain (evt_nx s) (evt_next e) (b # L)"
    by (auto simp: evt_nx_iff)
  let ?t = "s\<lparr>evts := (evts s)(a := None)\<rparr>"
  have n: "a \<notin> set (b # L)" by (rule chain_tail_notin [OF Cons.prems(1)])
  have "free_events (evt_next e) ?t =
      Some (?t\<lparr>evts := without (set (b # L @ C)) (evts ?t), rl := (rl ?t)\<lparr>cevents := None\<rparr>\<rparr>)"
  proof (rule Cons.IH)
    show "chain (evt_nx ?t) (evt_next e) (b # L)" using e(3) n by (simp add: evt_nx_evts)
    show "chain (evt_nx ?t) (cevents (rl ?t)) C" using Cons.prems(2,3) by (simp add: nx_drop)
    show "set (b # L) \<inter> set C = {}" using Cons.prems(3) by auto
  qed
  moreover have "evt_next e = Some b" using e(3) by simp
  ultimately show ?case
    using e(1,2) by (simp add: free_events.simps [of "Some a"])
qed

lemma free_queued_events_chain:
  assumes "chain (evt_nx s) p L"
  shows "free_queued_events p s = Some (s\<lparr>evts := without (set L) (evts s)\<rparr>)"
  using assms
proof (induction L arbitrary: p s)
  case Nil
  then show ?case by (simp add: free_queued_events.simps)
next
  case (Cons a L)
  from Cons.prems obtain e where e: "p = Some a" "evts s a = Some e" "chain (evt_nx s) (evt_next e) L"
    by (auto simp: evt_nx_iff)
  have "a \<notin> set L" by (rule chain_tail_notin [OF Cons.prems])
  with e(3) have "chain (evt_nx (s\<lparr>evts := (evts s)(a := None)\<rparr>)) (evt_next e) L" by (simp add: evt_nx_evts)
  then show ?case
    using Cons.IH [of "s\<lparr>evts := (evts s)(a := None)\<rparr>" "evt_next e"] e(1,2)
    by (simp add: free_queued_events.simps [of "Some a"])
qed

lemma release_free_chain:
  assumes "chain (src_nx s) p L"
  shows "release_srcs False p hd1 last1 s = Some (hd1, last1, s\<lparr>srcs := without (set L) (srcs s)\<rparr>)"
  using assms
proof (induction L arbitrary: p s)
  case Nil
  then show ?case by (simp add: release_srcs.simps)
next
  case (Cons a L)
  from Cons.prems obtain e where e: "p = Some a" "srcs s a = Some e" "chain (src_nx s) (src_next e) L"
    by (auto simp: src_nx_iff)
  have "a \<notin> set L" by (rule chain_tail_notin [OF Cons.prems])
  with e(3) have "chain (src_nx (s\<lparr>srcs := (srcs s)(a := None)\<rparr>)) (src_next e) L" by (simp add: src_nx_srcs)
  then show ?case
    using Cons.IH [of "s\<lparr>srcs := (srcs s)(a := None)\<rparr>" "src_next e"] e(1,2)
    by (simp add: release_srcs.simps [of _ "Some a"])
qed

text \<open>What handing sources over may change: their \<^verbatim>\<open>next\<close> fields.\<close>

definition relinked :: "('b, 'z) world_scheme \<Rightarrow> ('b, 'z) world_scheme \<Rightarrow> addr set \<Rightarrow> bool" where
  "relinked s s' A \<longleftrightarrow> s' = s\<lparr>srcs := srcs s'\<rparr> \<and>
     (\<forall>b. map_option src_core (srcs s' b) = map_option src_core (srcs s b)) \<and>
     (\<forall>b. b \<notin> A \<longrightarrow> srcs s' b = srcs s b)"

lemma relinked_refl [simp]: "relinked s s A"
  by (simp add: relinked_def)

lemma relinked_trans:
  assumes "relinked s t A" "relinked t u B" "A \<union> B \<subseteq> D"
  shows "relinked s u D"
proof -
  have "u = s\<lparr>srcs := srcs u\<rparr>"
    using assms(1,2) unfolding relinked_def by (metis (no_types, lifting) world.update_convs(3) world.surjective)
  with assms show ?thesis unfolding relinked_def by (metis Un_iff subsetD)
qed

lemma relinked_rl:
  assumes "relinked s s' A"
  shows "rl s' = rl s" "evts s' = evts s" "calls s' = calls s" "relinked (s\<lparr>rl := r\<rparr>) (s'\<lparr>rl := r\<rparr>) A"
proof -
  have e: "s' = s\<lparr>srcs := srcs s'\<rparr>" using assms by (simp add: relinked_def)
  show "rl s' = rl s" "evts s' = evts s" "calls s' = calls s" by (subst e, simp)+
  have "s'\<lparr>rl := r\<rparr> = s\<lparr>rl := r, srcs := srcs s'\<rparr>" by (subst e) simp
  with assms show "relinked (s\<lparr>rl := r\<rparr>) (s'\<lparr>rl := r\<rparr>) A" by (simp add: relinked_def)
qed

definition last_ptr :: "addr list \<Rightarrow> ptr" where
  "last_ptr xs = (if xs = [] then None else Some (last xs))"

lemma last_ptr_simps [simp]: "last_ptr [] = None" "last_ptr (xs @ [a]) = Some a"
  by (simp_all add: last_ptr_def)

text \<open>One source is appended to the chain built so far.\<close>

lemma append_src:
  assumes "chain (src_nx s) h H" "srcs s a = Some oa" "a \<notin> set H"
  defines "m \<equiv> set_next None a (srcs s)"
  defines "t \<equiv> s\<lparr>srcs := if H = [] then m else set_next (Some a) (last H) m\<rparr>"
  shows "chain (src_nx t) (if h = None then Some a else h) (H @ [a])" "relinked s t (set (H @ [a]))"
    "(case last_ptr H of None \<Rightarrow> Some (s\<lparr>srcs := m\<rparr>)
      | Some l \<Rightarrow> upd_src (\<lambda>o1. o1\<lparr>src_next := Some a\<rparr>) (Some l) (s\<lparr>srcs := m\<rparr>)) = Some t"
proof -
  have "b \<noteq> last H" if "b \<notin> set H" "H \<noteq> []" for b using that last_in_set by metis
  then show "relinked s t (set (H @ [a]))"
    by (auto simp: relinked_def t_def m_def set_next_core)
  have nx: "src_nx t = (if H = [] then (src_nx s)(a \<mapsto> None) else (src_nx s)(a \<mapsto> None, last H \<mapsto> Some a))"
  proof -
    have "H \<noteq> [] \<Longrightarrow> \<exists>r. src_nx s (last H) = Some r" using seg_alloc [OF assms(1)] by simp
    then show ?thesis using assms(2,3)
      by (auto simp: t_def m_def src_nx_srcs set_next_def fun_eq_iff)
  qed
  show "chain (src_nx t) (if h = None then Some a else h) (H @ [a])"
  proof (cases H rule: rev_cases)
    case Nil
    with assms(1) nx show ?thesis by simp
  next
    case (snoc K l)
    have d: "l \<notin> set K" using chain_distinct [OF assms(1)] snoc by simp
    have "seg (src_nx s) h (K @ [l]) None" using assms(1) snoc by simp
    then have "seg ((src_nx s)(a \<mapsto> None)) h (K @ [l]) None" using assms(3) snoc by simp
    from seg_set_last [OF this d, of "Some a"] snoc nx assms(3)
    have "seg (src_nx t) h (K @ [l]) (Some a)" by (simp add: fun_upd_twist)
    moreover have "h \<noteq> None" using assms(1) snoc by (cases K) auto
    moreover have "src_nx t a = Some None" using nx snoc assms(3) by auto
    ultimately show ?thesis using snoc by (auto simp: seg_append)
  qed
  show "(case last_ptr H of None \<Rightarrow> Some (s\<lparr>srcs := m\<rparr>)
      | Some l \<Rightarrow> upd_src (\<lambda>o1. o1\<lparr>src_next := Some a\<rparr>) (Some l) (s\<lparr>srcs := m\<rparr>)) = Some t"
  proof (cases "H = []")
    case False
    then have "\<exists>r. src_nx s (last H) = Some r" using seg_alloc [OF assms(1)] by simp
    then obtain ol where "srcs s (last H) = Some ol" by (auto simp: src_nx_iff)
    moreover have "last H \<noteq> a" using False assms(3) by auto
    ultimately have "m (last H) = Some ol" by (simp add: m_def)
    with False show ?thesis by (simp add: last_ptr_def t_def set_next_def)
  qed (simp add: t_def)
qed

lemma release_keep_chain:
  assumes "chain (src_nx s) p L" "chain (src_nx s) h H" "distinct (H @ L)"
  shows "\<exists>s' h'. release_srcs True p h (last_ptr H) s = Some (h', last_ptr (H @ L), s') \<and>
    chain (src_nx s') h' (H @ L) \<and> relinked s s' (set (H @ L))"
  using assms
proof (induction L arbitrary: p s h H)
  case Nil
  then show ?case by (simp add: release_srcs.simps [of _ None])
next
  case (Cons a L)
  from Cons.prems(1) obtain oa where oa: "p = Some a" "srcs s a = Some oa" "chain (src_nx s) (src_next oa) L"
    by (auto simp: src_nx_iff)
  have aH: "a \<notin> set H" using Cons.prems(3) by simp
  define m where "m = set_next None a (srcs s)"
  define t where "t = s\<lparr>srcs := if H = [] then m else set_next (Some a) (last H) m\<rparr>"
  note app = append_src [OF Cons.prems(2) oa(2) aH, folded m_def, folded t_def]
  have "src_nx t x = src_nx s x" if "x \<in> set L" for x
    using app(2) Cons.prems(3) that by (auto simp: relinked_def src_nx_def)
  from seg_cong [OF this] oa(3) have "chain (src_nx t) (src_next oa) L" by simp
  from Cons.IH [OF this app(1)] Cons.prems(3) obtain s' h' where
    s': "release_srcs True (src_next oa) (if h = None then Some a else h) (Some a) t = Some (h', last_ptr (H @ a # L), s')"
    "chain (src_nx s') h' (H @ a # L)" "relinked t s' (set (H @ a # L))"
    by auto
  have "release_srcs True p h (last_ptr H) s =
      release_srcs True (src_next oa) (if h = None then Some a else h) (Some a) t"
    using app(3) oa(1,2)
    by (cases "last_ptr H")
       (simp_all add: release_srcs.simps [of _ "Some a"] m_def set_next_def upd_src_def bind_eq_Some_conv split: if_splits,
        auto simp: bind_eq_Some_conv)
  moreover have "relinked s s' (set (H @ a # L))"
    by (rule relinked_trans [OF app(2) s'(3)]) auto
  ultimately show ?case using s'(1,2) by auto
qed

subsection \<open>What a backend's release does\<close>

text \<open>It closes the descriptors that the backend holds (\<open>bkd_fds\<close>), nothing else is called, and the backend is gone.\<close>

definition closings :: "int list \<Rightarrow> syscall list" where
  "closings fs = rev (map Sys_close fs)"

locale backend_release =
  fixes bkd_free :: "('b, 'z) world_scheme \<Rightarrow> 'b option \<times> ('b, 'z) world_scheme"
    and bkd_fds :: "'b \<Rightarrow> int list"
  assumes gone: "fst (bkd_free s) = None"
    and frame: "sys_frame s (snd (bkd_free s))"
    and closes: "calls (snd (bkd_free s)) = closings (bkd_fds (backend (rl s))) @ calls s"
begin

text \<open>The end of \<^verbatim>\<open>gwrl_free\<close>: the backend, then the two ends of the pipe.\<close>

lemma shutdown:
  shows "sys_frame s (gwrl_wake_free (snd (bkd_free s)))"
    "calls (gwrl_wake_free (snd (bkd_free s))) =
       Sys_close (snd (fds (rl s))) # Sys_close (fst (fds (rl s))) # closings (bkd_fds (backend (rl s))) @ calls s"
proof -
  let ?u = "snd (bkd_free s)"
  have u: "?u = s\<lparr>calls := calls ?u, errno := errno ?u\<rparr>" using frame by (simp add: sys_frame_def)
  have r: "rl ?u = rl s" by (subst u) simp
  have "sys_frame ?u (gwrl_wake_free ?u)"
    by (simp add: gwrl_wake_free_def syscall_def sys_frame_def Let_def)
  with frame show "sys_frame s (gwrl_wake_free ?u)" by (rule sys_frame_trans)
  show "calls (gwrl_wake_free ?u) =
       Sys_close (snd (fds (rl s))) # Sys_close (fst (fds (rl s))) # closings (bkd_fds (backend (rl s))) @ calls s"
    using closes [of s] r by (auto simp: gwrl_wake_free_def syscall_def Let_def)
qed

end

interpretation sel_free: backend_release gwrl_bkd_free_select "\<lambda>_. []"
  by unfold_locales (auto simp: gwrl_bkd_free_select_def closings_def)

interpretation ep_free: backend_release gwrl_bkd_free_epoll "\<lambda>b. [efd b]"
  by unfold_locales (auto simp: gwrl_bkd_free_epoll_def closings_def syscall_def sys_frame_def Let_def)

interpretation pol_free: backend_release gwrl_bkd_free_poll "\<lambda>_. []"
  by unfold_locales (auto simp: gwrl_bkd_free_poll_def closings_def)

interpretation kq_free: backend_release gwrl_bkd_free_kqueue "\<lambda>b. [kq b]"
  by unfold_locales (auto simp: gwrl_bkd_free_kqueue_def closings_def syscall_def sys_frame_def Let_def)

subsection \<open>All that a reactor owns\<close>

text \<open>Its events: posted, cached, queued. Its sources: of files, of times, queued.\<close>

definition owns_events :: "('b, 'z) world_scheme \<Rightarrow> addr list \<Rightarrow> bool" where
  "owns_events s D \<longleftrightarrow> (\<exists>E C Q. D = E @ C @ Q \<and> distinct D \<and> chain (evt_nx s) (events (rl s)) E \<and>
     chain (evt_nx s) (cevents (rl s)) C \<and> chain (evt_nx s) (qevt (rl s)) Q)"

definition owns_srcs :: "('b, 'z) world_scheme \<Rightarrow> addr list \<Rightarrow> bool" where
  "owns_srcs s S \<longleftrightarrow> (\<exists>Fs Ts Qs. S = Fs @ Ts @ Qs \<and> distinct S \<and>
     length (sources (rl s)) = GWRL_SRC_TYPES_COUNT \<and>
     chain (src_nx s) (sources (rl s) ! GWRL_SRC_TYPE_FILE) Fs \<and>
     chain (src_nx s) (sources (rl s) ! GWRL_SRC_TYPE_TIME) Ts \<and> chain (src_nx s) (qsrc (rl s)) Qs)"

lemma free_posted_cached:
  assumes "chain (evt_nx s) (events (rl s)) E" "chain (evt_nx s) (cevents (rl s)) C" "set E \<inter> set C = {}"
  shows "(if events (rl s) = None
      then free_events (cevents (rl s)) (s\<lparr>rl := (rl s)\<lparr>cevents := None\<rparr>\<rparr>)
      else free_events (events (rl s)) s) =
    Some (s\<lparr>evts := without (set (E @ C)) (evts s), rl := (rl s)\<lparr>cevents := None\<rparr>\<rparr>)"
proof (cases E)
  case Nil
  have "chain (evt_nx (s\<lparr>rl := (rl s)\<lparr>cevents := None\<rparr>\<rparr>)) (cevents (rl s)) C"
    using assms(2) by (simp add: evt_nx_evts)
  from free_events_plain [OF this] Nil assms(1) show ?thesis by simp
next
  case (Cons a L)
  with assms free_events_all [of s "events (rl s)" a L C] show ?thesis by auto
qed

lemma release_types_free:
  assumes "sources (rl s) = [p, q]" "chain (src_nx s) p Fs" "chain (src_nx s) q Ts" "distinct (Fs @ Ts)"
  shows "release_types False [0..<GWRL_SRC_TYPES_COUNT] None None s = Some (None, None,
    s\<lparr>srcs := without (set (Fs @ Ts)) (srcs s), rl := (rl s)\<lparr>sources := [None, None]\<rparr>\<rparr>)"
proof -
  let ?s0 = "s\<lparr>rl := (rl s)\<lparr>sources := [None, q]\<rparr>\<rparr>"
  let ?s1 = "?s0\<lparr>srcs := without (set Fs) (srcs s)\<rparr>"
  have a: "release_srcs False p None None ?s0 = Some (None, None, ?s1)"
    using release_free_chain [of ?s0 p Fs] assms(2) by (simp add: src_nx_srcs)
  have "chain (src_nx (?s1\<lparr>rl := (rl s)\<lparr>sources := [None, None]\<rparr>\<rparr>)) q Ts"
    using seg_without [of src_next "srcs s" q Ts None "set Fs"] assms(3,4) by (simp add: src_nx_srcs)
  from release_free_chain [OF this] a assms(1) show ?thesis
    by (simp add: src_type_defs nth_opt_def set_sources_def Un_commute upt_rec)
qed

lemma release_types_keep:
  assumes "sources (rl s) = [p, q]" "chain (src_nx s) p Fs" "chain (src_nx s) q Ts" "distinct (Fs @ Ts)"
  shows "\<exists>s' h. release_types True [0..<GWRL_SRC_TYPES_COUNT] None None s = Some (h, last_ptr (Fs @ Ts), s') \<and>
    chain (src_nx s') h (Fs @ Ts) \<and>
    relinked (s\<lparr>rl := (rl s)\<lparr>sources := [None, None]\<rparr>\<rparr>) s' (set (Fs @ Ts))"
proof -
  let ?s0 = "s\<lparr>rl := (rl s)\<lparr>sources := [None, q]\<rparr>\<rparr>"
  have "chain (src_nx ?s0) p Fs" using assms(2) by (simp add: src_nx_srcs)
  from release_keep_chain [OF this, of None "[]"] assms(4) obtain s1 h1 where
    s1: "release_srcs True p None None ?s0 = Some (h1, last_ptr Fs, s1)" "chain (src_nx s1) h1 Fs"
    "relinked ?s0 s1 (set Fs)" by auto
  note r1 = relinked_rl(1) [OF s1(3)]
  let ?t1 = "s1\<lparr>rl := (rl s1)\<lparr>sources := [None, None]\<rparr>\<rparr>"
  have "src_nx ?t1 x = src_nx s x" if "x \<in> set Ts" for x
    using s1(3) assms(4) that by (auto simp: relinked_def src_nx_def)
  from seg_cong [OF this] assms(3) have "chain (src_nx ?t1) q Ts" by simp
  moreover have "chain (src_nx ?t1) h1 Fs" using s1(2) by (simp add: src_nx_srcs)
  ultimately obtain s' h where s': "release_srcs True q h1 (last_ptr Fs) ?t1 = Some (h, last_ptr (Fs @ Ts), s')"
    "chain (src_nx s') h (Fs @ Ts)" "relinked ?t1 s' (set (Fs @ Ts))"
    using release_keep_chain assms(4) by blast
  have "relinked (s\<lparr>rl := (rl s)\<lparr>sources := [None, None]\<rparr>\<rparr>) ?t1 (set Fs)"
    using relinked_rl(4) [OF s1(3), of "(rl s)\<lparr>sources := [None, None]\<rparr>"] r1 by simp
  from relinked_trans [OF this s'(3)] have
    "relinked (s\<lparr>rl := (rl s)\<lparr>sources := [None, None]\<rparr>\<rparr>) s' (set (Fs @ Ts))" by simp
  with s1(1) s'(1,2) r1 assms(1) show ?thesis
    by (simp add: src_type_defs nth_opt_def set_sources_def upt_rec)
qed

text \<open>The steps of \<^verbatim>\<open>gwrl_free\<close> after the sources of the two types.\<close>

lemma free_queued_srcs:
  assumes "chain (src_nx s) (qsrc (rl s)) Qs"
  shows "(if qsrc (rl s) \<noteq> None
      then release_srcs False (qsrc (rl s)) h l (s\<lparr>rl := (rl s)\<lparr>qsrc := None\<rparr>\<rparr>)
      else Some (h, l, s)) =
    Some (h, l, s\<lparr>srcs := without (set Qs) (srcs s), rl := (rl s)\<lparr>qsrc := None\<rparr>\<rparr>)"
proof (cases "qsrc (rl s)")
  case None
  then have "s = s\<lparr>rl := (rl s)\<lparr>qsrc := None\<rparr>\<rparr>" by (intro world.equality gwrl.equality) simp_all
  with None assms show ?thesis by simp
next
  case (Some a)
  have "chain (src_nx (s\<lparr>rl := (rl s)\<lparr>qsrc := None\<rparr>\<rparr>)) (Some a) Qs"
    using assms Some by (simp add: src_nx_srcs)
  from release_free_chain [OF this] Some show ?thesis by simp
qed

lemma keep_queued_srcs:
  assumes "chain (src_nx s) (qsrc (rl s)) Qs" "chain (src_nx s) h H" "distinct (H @ Qs)"
  shows "\<exists>s' h' l'. (if qsrc (rl s) \<noteq> None
      then release_srcs True (qsrc (rl s)) h (last_ptr H) (s\<lparr>rl := (rl s)\<lparr>qsrc := None\<rparr>\<rparr>)
      else Some (h, last_ptr H, s)) = Some (h', l', s') \<and> chain (src_nx s') h' (H @ Qs) \<and>
    relinked (s\<lparr>rl := (rl s)\<lparr>qsrc := None\<rparr>\<rparr>) s' (set (H @ Qs))"
proof (cases "qsrc (rl s)")
  case None
  then have e: "s\<lparr>rl := (rl s)\<lparr>qsrc := None\<rparr>\<rparr> = s" by (intro world.equality gwrl.equality) simp_all
  show ?thesis unfolding e using None assms by simp
next
  case (Some a)
  let ?t = "s\<lparr>rl := (rl s)\<lparr>qsrc := None\<rparr>\<rparr>"
  have "chain (src_nx ?t) (Some a) Qs" "chain (src_nx ?t) h H"
    using assms(1,2) Some by (simp_all add: src_nx_srcs)
  from release_keep_chain [OF this assms(3)] Some show ?thesis by auto
qed

lemma free_queued_evts:
  assumes "chain (evt_nx s) (qevt (rl s)) Q"
  shows "(if qevt (rl s) \<noteq> None
      then free_queued_events (qevt (rl s)) (s\<lparr>rl := (rl s)\<lparr>qevt := None\<rparr>\<rparr>) else Some s) =
    Some (s\<lparr>evts := without (set Q) (evts s), rl := (rl s)\<lparr>qevt := None\<rparr>\<rparr>)"
proof (cases "qevt (rl s)")
  case None
  then have "s = s\<lparr>rl := (rl s)\<lparr>qevt := None\<rparr>\<rparr>" by (intro world.equality gwrl.equality) simp_all
  with None assms show ?thesis by simp
next
  case (Some a)
  have "chain (evt_nx (s\<lparr>rl := (rl s)\<lparr>qevt := None\<rparr>\<rparr>)) (Some a) Q"
    using assms Some by (simp add: evt_nx_evts)
  from free_queued_events_chain [OF this] Some show ?thesis by simp
qed

text \<open>The events, for a state whose sources were dealt with in between.\<close>

lemma queued_evts_kept:
  assumes "chain (evt_nx t) (qevt (rl t)) Q" "set D \<inter> set Q = {}"
    and "evts s = without (set D) (evts t)" "qevt (rl s) = qevt (rl t)"
  shows "chain (evt_nx s) (qevt (rl s)) Q"
proof -
  have "evt_nx s x = evt_nx t x" if "x \<in> set Q" for x
    using assms(2,3) that by (auto simp: evt_nx_def without_def)
  from seg_cong [OF this] assms(1,4) show ?thesis by simp
qed

lemma gwrl_free_null:
  assumes "gwrl_dispatch cb s = Some t" "rl_pr (rl s) = None" "owns_events t D" "owns_srcs t S"
    and "backend_release bkd_free bkd_fds"
  shows "\<exists>s'. gwrl_free cb bkd_free True None s = Some (None, True, s') \<and>
    evts s' = without (set D) (evts t) \<and> srcs s' = without (set S) (srcs t) \<and>
    calls s' = Sys_close (snd (fds (rl t))) # Sys_close (fst (fds (rl t))) # closings (bkd_fds (backend (rl t))) @ calls t"
proof -
  obtain E C Q where D: "D = E @ C @ Q" "distinct D" "chain (evt_nx t) (events (rl t)) E"
    "chain (evt_nx t) (cevents (rl t)) C" "chain (evt_nx t) (qevt (rl t)) Q"
    using assms(3) unfolding owns_events_def by blast
  obtain Fs Ts Qs where S: "S = Fs @ Ts @ Qs" "distinct S" "length (sources (rl t)) = GWRL_SRC_TYPES_COUNT"
    "chain (src_nx t) (sources (rl t) ! GWRL_SRC_TYPE_FILE) Fs"
    "chain (src_nx t) (sources (rl t) ! GWRL_SRC_TYPE_TIME) Ts" "chain (src_nx t) (qsrc (rl t)) Qs"
    using assms(4) unfolding owns_srcs_def by blast
  obtain p q where pq: "sources (rl t) = [p, q]" "chain (src_nx t) p Fs" "chain (src_nx t) q Ts"
    using S(3,4,5) by (auto simp: src_type_defs length_Suc_conv numeral_2_eq_2)
  define t1 where "t1 = t\<lparr>evts := without (set (E @ C)) (evts t), rl := (rl t)\<lparr>cevents := None\<rparr>\<rparr>"
  define t2 where "t2 = t1\<lparr>srcs := without (set (Fs @ Ts)) (srcs t1), rl := (rl t1)\<lparr>sources := [None, None]\<rparr>\<rparr>"
  define t3 where "t3 = t2\<lparr>srcs := without (set Qs) (srcs t2), rl := (rl t2)\<lparr>qsrc := None\<rparr>\<rparr>"
  define t4 where "t4 = t3\<lparr>evts := without (set Q) (evts t3), rl := (rl t3)\<lparr>qevt := None\<rparr>\<rparr>"
  have 1: "(if events (rl t) = None then free_events (cevents (rl t)) (t\<lparr>rl := (rl t)\<lparr>cevents := None\<rparr>\<rparr>)
      else free_events (events (rl t)) t) = Some t1"
    unfolding t1_def by (rule free_posted_cached) (use D in auto)
  have 2: "release_types False [0..<GWRL_SRC_TYPES_COUNT] None None t1 = Some (None, None, t2)"
    unfolding t2_def by (rule release_types_free) (use pq S(1,2) in \<open>auto simp: t1_def src_nx_srcs\<close>)
  have "chain (src_nx t2) (qsrc (rl t2)) Qs"
    using seg_without [of src_next "srcs t" "qsrc (rl t)" Qs None "set (Fs @ Ts)"] S(1,2,6)
    by (auto simp: t2_def t1_def src_nx_srcs)
  note 3 = free_queued_srcs [OF this, of None None, folded t3_def]
  have "chain (evt_nx t3) (qevt (rl t3)) Q"
    by (rule queued_evts_kept [OF D(5), of "E @ C"])
       (use D(1,2) in \<open>auto simp: t3_def t2_def t1_def\<close>)
  note 4 = free_queued_evts [OF this, folded t4_def]
  have "gwrl_free cb bkd_free True None s = Some (None, True, gwrl_wake_free (snd (bkd_free t4)))"
    using assms(1,2) 1 2 3 4 by (simp add: gwrl_free_def)
  moreover have "evts t4 = without (set D) (evts t)" "srcs t4 = without (set S) (srcs t)"
    "fds (rl t4) = fds (rl t)" "calls t4 = calls t" "backend (rl t4) = backend (rl t)"
    by (auto simp: t4_def t3_def t2_def t1_def D(1) S(1) Un_ac)
  ultimately show ?thesis
    using backend_release.shutdown [OF assms(5), of t4] sys_frameD [OF backend_release.shutdown(1) [OF assms(5), of t4]]
    by auto
qed

lemma gwrl_free_given:
  assumes "gwrl_dispatch cb s = Some t" "rl_pr (rl s) = None" "owns_events t D" "owns_srcs t S"
    and "backend_release bkd_free bkd_fds"
  shows "\<exists>s' h. gwrl_free cb bkd_free True (Some p0) s = Some (Some h, True, s') \<and>
    evts s' = without (set D) (evts t) \<and> chain (src_nx s') h S \<and>
    (\<forall>b. map_option src_core (srcs s' b) = map_option src_core (srcs t b)) \<and>
    (\<forall>b. b \<notin> set S \<longrightarrow> srcs s' b = srcs t b) \<and>
    calls s' = Sys_close (snd (fds (rl t))) # Sys_close (fst (fds (rl t))) # closings (bkd_fds (backend (rl t))) @ calls t"
proof -
  obtain E C Q where D: "D = E @ C @ Q" "distinct D" "chain (evt_nx t) (events (rl t)) E"
    "chain (evt_nx t) (cevents (rl t)) C" "chain (evt_nx t) (qevt (rl t)) Q"
    using assms(3) unfolding owns_events_def by blast
  obtain Fs Ts Qs where S: "S = Fs @ Ts @ Qs" "distinct S" "length (sources (rl t)) = GWRL_SRC_TYPES_COUNT"
    "chain (src_nx t) (sources (rl t) ! GWRL_SRC_TYPE_FILE) Fs"
    "chain (src_nx t) (sources (rl t) ! GWRL_SRC_TYPE_TIME) Ts" "chain (src_nx t) (qsrc (rl t)) Qs"
    using assms(4) unfolding owns_srcs_def by blast
  obtain p q where pq: "sources (rl t) = [p, q]" "chain (src_nx t) p Fs" "chain (src_nx t) q Ts"
    using S(3,4,5) by (auto simp: src_type_defs length_Suc_conv numeral_2_eq_2)
  define t1 where "t1 = t\<lparr>evts := without (set (E @ C)) (evts t), rl := (rl t)\<lparr>cevents := None\<rparr>\<rparr>"
  have 1: "(if events (rl t) = None then free_events (cevents (rl t)) (t\<lparr>rl := (rl t)\<lparr>cevents := None\<rparr>\<rparr>)
      else free_events (events (rl t)) t) = Some t1"
    unfolding t1_def by (rule free_posted_cached) (use D in auto)
  obtain t2 h2 where 2: "release_types True [0..<GWRL_SRC_TYPES_COUNT] None None t1 = Some (h2, last_ptr (Fs @ Ts), t2)"
    "chain (src_nx t2) h2 (Fs @ Ts)"
    "relinked (t1\<lparr>rl := (rl t1)\<lparr>sources := [None, None]\<rparr>\<rparr>) t2 (set (Fs @ Ts))"
    using release_types_keep [of t1 p q Fs Ts] pq S(1,2) by (auto simp: t1_def src_nx_srcs)
  note f2 = relinked_rl [OF 2(3)]
  have "src_nx t2 x = src_nx t x" if "x \<in> set Qs" for x
    using 2(3) S(1,2) that by (auto simp: relinked_def src_nx_def t1_def)
  from seg_cong [OF this] S(6) have "chain (src_nx t2) (qsrc (rl t2)) Qs" by (simp add: f2(1) t1_def)
  then obtain t3 h l where 3: "(if qsrc (rl t2) \<noteq> None
      then release_srcs True (qsrc (rl t2)) h2 (last_ptr (Fs @ Ts)) (t2\<lparr>rl := (rl t2)\<lparr>qsrc := None\<rparr>\<rparr>)
      else Some (h2, last_ptr (Fs @ Ts), t2)) = Some (h, l, t3)" "chain (src_nx t3) h S"
    "relinked (t2\<lparr>rl := (rl t2)\<lparr>qsrc := None\<rparr>\<rparr>) t3 (set S)"
    using keep_queued_srcs [OF _ 2(2)] S(1,2) by (metis append.assoc)
  note f3 = relinked_rl [OF 3(3)]
  define t4 where "t4 = t3\<lparr>evts := without (set Q) (evts t3), rl := (rl t3)\<lparr>qevt := None\<rparr>\<rparr>"
  have "chain (evt_nx t3) (qevt (rl t3)) Q"
    by (rule queued_evts_kept [OF D(5), of "E @ C"])
       (use D(1,2) f2 f3 in \<open>auto simp: t1_def\<close>)
  note 4 = free_queued_evts [OF this, folded t4_def]
  have "gwrl_free cb bkd_free True (Some p0) s = Some (Some h, True, gwrl_wake_free (snd (bkd_free t4)))"
    using assms(1,2) 1 2(1) 3(1) 4 by (simp add: gwrl_free_def)
  moreover have "evts t4 = without (set D) (evts t)" "fds (rl t4) = fds (rl t)" "calls t4 = calls t" "backend (rl t4) = backend (rl t)"
    "srcs t4 = srcs t3"
    using f2 f3 by (auto simp: t4_def t1_def D(1) Un_ac)
  moreover have "\<forall>b. map_option src_core (srcs t3 b) = map_option src_core (srcs t b)"
    "\<forall>b. b \<notin> set S \<longrightarrow> srcs t3 b = srcs t b"
    using 2(3) 3(3) S(1) by (simp_all add: relinked_def t1_def)
  ultimately show ?thesis
    using backend_release.shutdown [OF assms(5), of t4] 3(2)
      sys_frameD(1-3) [OF backend_release.shutdown(1) [OF assms(5), of t4]]
    by (auto simp: src_nx_srcs)
qed

subsection \<open>Properties\<close>

text \<open>
  C31: \<^verbatim>\<open>gwrl_free\<close>, for a reactor without a proactor, gives back the reactor's events, sources and descriptors. After its last
  dispatch, which left the state \<open>t\<close>, the reactor holds the events \<open>D\<close> (posted, cached and queued) and the sources \<open>S\<close> (of
  files, of times and queued). With a null \<^verbatim>\<open>sources\<close> the call frees all of them, each once, and
  no other event or source. Otherwise it frees the events only, and hands all the sources over, alive and
  unchanged but for their \<^verbatim>\<open>next\<close> fields, as one chain in this order; a second call, with a null
  reactor, then frees the chain. In both cases the last calls close each descriptor that the backend holds and
  the two ends of the wake pipe, and there are no others. What a backend holds: the descriptor of epoll, that of kqueue, and none for select and
  poll. (The table of gather functions is not among what the reactor gives back.)
\<close>
theorem free_releases_all:
  assumes "gwrl_dispatch cb s = Some t" "rl_pr (rl s) = None" "owns_events t D" "owns_srcs t S"
    and "backend_release bkd_free bkd_fds"
  defines "ends \<equiv> Sys_close (snd (fds (rl t))) # Sys_close (fst (fds (rl t))) # closings (bkd_fds (backend (rl t))) @ calls t"
  shows "(\<exists>s'. gwrl_free cb bkd_free True None s = Some (None, True, s') \<and>
      (\<forall>a. evts s' a = (if a \<in> set D then None else evts t a)) \<and>
      (\<forall>a. srcs s' a = (if a \<in> set S then None else srcs t a)) \<and> calls s' = ends) \<and>
    (\<exists>s' s'' h. gwrl_free cb bkd_free True (Some p0) s = Some (Some h, True, s') \<and>
      (\<forall>a. evts s' a = (if a \<in> set D then None else evts t a)) \<and> chain (src_nx s') h S \<and>
      (\<forall>a. map_option src_core (srcs s' a) = map_option src_core (srcs t a)) \<and> calls s' = ends \<and>
      gwrl_free cb bkd_free False (Some h) s' = Some (Some h, False, s'') \<and>
      (\<forall>a. srcs s'' a = (if a \<in> set S then None else srcs t a))) \<and>
    backend_release gwrl_bkd_free_select (\<lambda>_. []) \<and> backend_release gwrl_bkd_free_poll (\<lambda>_. []) \<and>
    backend_release gwrl_bkd_free_epoll (\<lambda>b. [efd b]) \<and> backend_release gwrl_bkd_free_kqueue (\<lambda>b. [kq b])"
proof -
  obtain s' h where s': "gwrl_free cb bkd_free True (Some p0) s = Some (Some h, True, s')"
    "evts s' = without (set D) (evts t)" "chain (src_nx s') h S"
    "\<forall>b. map_option src_core (srcs s' b) = map_option src_core (srcs t b)"
    "\<forall>b. b \<notin> set S \<longrightarrow> srcs s' b = srcs t b" "calls s' = ends"
    using gwrl_free_given [OF assms(1-5)] unfolding ends_def by blast
  obtain s'' where "free_src_list h s' = Some s''" "\<forall>b. srcs s'' b = (if b \<in> set S then None else srcs s' b)"
    using free_src_list_chain [OF s'(3)] by blast
  with s' have "gwrl_free cb bkd_free False (Some h) s' = Some (Some h, False, s'')"
    "\<forall>a. srcs s'' a = (if a \<in> set S then None else srcs t a)"
    by (simp_all add: gwrl_free_def)
  note s'' = this
  have null: "\<exists>s'. gwrl_free cb bkd_free True None s = Some (None, True, s') \<and>
      (\<forall>a. evts s' a = (if a \<in> set D then None else evts t a)) \<and>
      (\<forall>a. srcs s' a = (if a \<in> set S then None else srcs t a)) \<and> calls s' = ends"
    using gwrl_free_null [OF assms(1-5)] by (elim exE conjE, intro exI conjI) (auto simp: without_def ends_def)
  have "\<forall>a. evts s' a = (if a \<in> set D then None else evts t a)" by (simp add: s'(2) without_def)
  with s'(1,3,4,6) s'' have "\<exists>s' s'' h. gwrl_free cb bkd_free True (Some p0) s = Some (Some h, True, s') \<and>
      (\<forall>a. evts s' a = (if a \<in> set D then None else evts t a)) \<and> chain (src_nx s') h S \<and>
      (\<forall>a. map_option src_core (srcs s' a) = map_option src_core (srcs t a)) \<and> calls s' = ends \<and>
      gwrl_free cb bkd_free False (Some h) s' = Some (Some h, False, s'') \<and>
      (\<forall>a. srcs s'' a = (if a \<in> set S then None else srcs t a))" by blast
  with null show ?thesis
    using sel_free.backend_release_axioms pol_free.backend_release_axioms ep_free.backend_release_axioms
      kq_free.backend_release_axioms by blast
qed

text \<open>A reactor with the epoll backend, one cached and one queued event, and three sources.\<close>

definition owner :: "gwrlbkd_epoll world" where
  "owner = (blank_world undefined)\<lparr>
     evts := [1 \<mapsto> zero_evt, 2 \<mapsto> zero_evt],
     srcs := [1 \<mapsto> file_src_on 6 GWRL_RD None, 2 \<mapsto> zero_src (Time_part \<lparr>time_ms = 5, time_when = no_time\<rparr>),
       3 \<mapsto> file_src_on 8 GWRL_WR None],
     brk := 4,
     rl := (zero_gwrl \<lparr>efd = 5, maxnpevents = 64, pevents = Some 64\<rparr>)\<lparr>fds := (6, 7), sources := [Some 1, Some 2],
       cevents := Some 1, ncevents := 1, qsrc := Some 3, qevt := Some 2\<rparr>\<rparr>"

lemma owner_dispatch: "gwrl_dispatch cb owner = Some owner"
proof -
  have "events (rl owner) = None" by (simp add: owner_def zero_gwrl_def)
  moreover from this have "owner\<lparr>rl := (rl owner)\<lparr>events := None\<rparr>\<rparr> = owner"
    by (intro world.equality gwrl.equality) simp_all
  ultimately show ?thesis by (simp add: gwrl_dispatch_def dispatch_loop.simps)
qed

lemma owner_owns: "owns_events owner [1, 2]" "owns_srcs owner [1, 2, 3]"
proof -
  have "chain (evt_nx owner) (events (rl owner)) []" "chain (evt_nx owner) (cevents (rl owner)) [1]"
    "chain (evt_nx owner) (qevt (rl owner)) [2]"
    by (simp_all add: owner_def zero_gwrl_def evt_nx_def zero_evt_def)
  then show "owns_events owner [1, 2]" unfolding owns_events_def
    by (intro exI [of _ "[]"] exI [of _ "[1]"] exI [of _ "[2]"]) auto
  have "chain (src_nx owner) (sources (rl owner) ! 0) [1]" "chain (src_nx owner) (sources (rl owner) ! 1) [2]"
    "chain (src_nx owner) (qsrc (rl owner)) [3]" "length (sources (rl owner)) = 2"
    by (simp_all add: owner_def zero_gwrl_def src_nx_def file_src_on_def zero_src_def)
  then show "owns_srcs owner [1, 2, 3]" unfolding owns_srcs_def src_type_defs
    by (intro exI [of _ "[1]"] exI [of _ "[2]"] exI [of _ "[3]"]) auto
qed

theorem free_releases_all_witness:
  "\<exists>s' s''. gwrl_free (reactor_callbacks epoll_ops countdown) gwrl_bkd_free_epoll True (Some None) owner =
      Some (Some (Some 1), True, s') \<and> chain (src_nx s') (Some 1) [1, 2, 3] \<and> evts s' 1 = None \<and> evts s' 2 = None \<and>
    calls s' = [Sys_close 7, Sys_close 6, Sys_close 5] \<and>
    gwrl_free (reactor_callbacks epoll_ops countdown) gwrl_bkd_free_epoll False (Some (Some 1)) s' =
      Some (Some (Some 1), False, s'') \<and> srcs s'' 3 = None"
proof -
  let ?ends = "Sys_close (snd (fds (rl owner))) # Sys_close (fst (fds (rl owner))) #
    closings [efd (backend (rl owner))] @ calls owner"
  have o: "rl_pr (rl owner) = None" "?ends = [Sys_close 7, Sys_close 6, Sys_close 5]"
    by (simp_all add: owner_def zero_gwrl_def closings_def blank_world_def)
  obtain s' s'' h where s': "gwrl_free (reactor_callbacks epoll_ops countdown) gwrl_bkd_free_epoll True
      (Some None) owner = Some (Some h, True, s')" "chain (src_nx s') h [1, 2, 3]"
    "\<forall>a. evts s' a = (if a \<in> set [1, 2] then None else evts owner a)" "calls s' = ?ends"
    "gwrl_free (reactor_callbacks epoll_ops countdown) gwrl_bkd_free_epoll False (Some h) s' = Some (Some h, False, s'')"
    "\<forall>a. srcs s'' a = (if a \<in> set [1, 2, 3] then None else srcs owner a)"
    using free_releases_all [OF owner_dispatch o(1) owner_owns ep_free.backend_release_axioms,
      of "reactor_callbacks epoll_ops countdown" None] by blast
  moreover from s'(2) have "h = Some 1" by simp
  ultimately show ?thesis unfolding o(2) by auto
qed

end
