(* ===== verification/Gw_Round.thy ===== *)
theory Gw_Round
  imports Gw_Select
begin

section \<open>The reactor as a whole: rounds, threads and progress\<close>

text \<open>
  A state machine of the parts of \<^verbatim>\<open>src/gwrl/event.c\<close> together: a step is one round of the run
  loop, or what another thread does between two rounds. The invariant \<open>reactor_wf\<close> joins the
  invariants of the parts; the locale \<open>reactor_rounds\<close> states what the round needs of the
  backend, the callbacks and the user's gather functions, proves that every round returns and
  keeps the invariant, and is interpreted on the select backend.
\<close>

subsection \<open>The invariant\<close>

text \<open>The lists of sources, without what the events say about fresh addresses.\<close>

definition src_lists :: "('b, 'z) world_scheme \<Rightarrow> addr list \<Rightarrow> addr list \<Rightarrow> bool" where
  "src_lists s Fs Ts \<longleftrightarrow>
     length (sources (rl s)) = GWRL_SRC_TYPES_COUNT \<and>
     chain (src_nx s) (sources (rl s) ! GWRL_SRC_TYPE_FILE) Fs \<and> list_all (file_src s) Fs \<and>
     chain (src_nx s) (sources (rl s) ! GWRL_SRC_TYPE_TIME) Ts \<and> list_all (time_src s) Ts"

lemma srcs_inv_lists: "srcs_inv s Fs Ts \<longleftrightarrow> src_lists s Fs Ts \<and> fresh_ok s"
  by (auto simp: srcs_inv_def src_lists_def)

text \<open>The table of the user's gather functions has the length the options say.\<close>

definition gather_table_ok :: "('b, 'z) world_scheme \<Rightarrow> bool" where
  "gather_table_ok s \<longleftrightarrow> gwrl_gather_funcs_max (options (rl s)) \<le> 0 \<or>
     (\<exists>fs. gatherfncs (rl s) = Some fs \<and> gwrl_gather_funcs_max (options (rl s)) \<le> int (length fs))"

text \<open>
  Sources, clock and options, with what the backend tracks and what the kernel promises of its
  answers; while callbacks run the queues are empty as well, and the events are the business
  of \<open>flight_inv\<close>.
\<close>

definition reactor_core :: "(('b, 'z) world_scheme \<Rightarrow> addr set \<Rightarrow> bool) \<Rightarrow> ((nat \<Rightarrow> answer) \<Rightarrow> bool)
    \<Rightarrow> ('b, 'z) world_scheme \<Rightarrow> bool" where
  "reactor_core tracks promise s \<longleftrightarrow>
     (\<exists>Fs Ts. src_lists s Fs Ts \<and> timers_wf s Ts \<and> tracks s (set Fs)) \<and>
     clock_ok s \<and> promise (answers s) \<and> gather_table_ok s"

definition reactor_good :: "(('b, 'z) world_scheme \<Rightarrow> addr set \<Rightarrow> bool) \<Rightarrow> ((nat \<Rightarrow> answer) \<Rightarrow> bool)
    \<Rightarrow> ('b, 'z) world_scheme \<Rightarrow> bool" where
  "reactor_good tracks promise s \<longleftrightarrow>
     reactor_core tracks promise s \<and> qsrc (rl s) = None \<and> qevt (rl s) = None"

definition events_wf :: "('b, 'z) world_scheme \<Rightarrow> bool" where
  "events_wf s \<longleftrightarrow> (\<exists>E C. evts_inv s E C) \<and> gwrl_event_cache_max (options (rl s)) \<le> 65535"

text \<open>
  Between two rounds other threads may have queued events and timers, but no more than one
  when the list they go to is empty.
\<close>

definition evt_queue_wf :: "('b, 'z) world_scheme \<Rightarrow> bool" where
  "evt_queue_wf s \<longleftrightarrow> (\<exists>Q E C. queue_inv s Q E C \<and> (E \<noteq> [] \<or> length Q \<le> 1))"

definition src_queue_wf :: "('b, 'z) world_scheme \<Rightarrow> bool" where
  "src_queue_wf s \<longleftrightarrow> (\<exists>Q Fs Ts. src_queue s Q Fs Ts \<and> timers_wf s Q \<and> (Ts \<noteq> [] \<or> length Q \<le> 1))"

definition reactor_wf :: "(('b, 'z) world_scheme \<Rightarrow> addr set \<Rightarrow> bool) \<Rightarrow> ((nat \<Rightarrow> answer) \<Rightarrow> bool)
    \<Rightarrow> ('b, 'z) world_scheme \<Rightarrow> bool" where
  "reactor_wf tracks promise s \<longleftrightarrow>
     reactor_core tracks promise s \<and> events_wf s \<and> evt_queue_wf s \<and> src_queue_wf s"

lemma good_wf:
  assumes "reactor_good tracks promise s" "events_wf s"
  shows "reactor_wf tracks promise s"
proof -
  obtain Fs Ts where l: "src_lists s Fs Ts" using assms(1) by (auto simp: reactor_good_def reactor_core_def)
  obtain E C where e: "evts_inv s E C" using assms(2) by (auto simp: events_wf_def)
  then have "srcs_inv s Fs Ts" using l by (simp add: srcs_inv_lists evts_inv_def)
  then have "src_queue s [] Fs Ts" using assms(1) by (simp add: src_queue_def reactor_good_def)
  moreover have "queue_inv s [] E C" using assms(1) e by (simp add: queue_inv_def reactor_good_def)
  moreover have "timers_wf s []" "length [] \<le> (1 :: nat)" by (simp_all add: timers_wf_def)
  ultimately have "evt_queue_wf s" "src_queue_wf s"
    unfolding evt_queue_wf_def src_queue_wf_def by blast+
  with assms show ?thesis by (simp add: reactor_wf_def reactor_good_def)
qed

subsection \<open>What keeps the invariant\<close>

lemma core_kind:
  assumes "map_option src_core (srcs s' a) = map_option src_core (srcs s a)"
  shows "file_src s' a \<longleftrightarrow> file_src s a" "time_src s' a \<longleftrightarrow> time_src s a"
  using assms
  by (cases "srcs s a"; cases "srcs s' a"; auto simp: file_src_iff time_src_iff dest: src_core_fields)+

lemma src_lists_cong:
  assumes "srcs s' = srcs s" "sources (rl s') = sources (rl s)"
  shows "src_lists s' Fs Ts \<longleftrightarrow> src_lists s Fs Ts" "timers_wf s' Ts \<longleftrightarrow> timers_wf s Ts"
proof -
  have "file_src s' = file_src s" "time_src s' = time_src s"
    using core_kind [of s' _ s] by (simp_all add: fun_eq_iff assms(1))
  then show "src_lists s' Fs Ts \<longleftrightarrow> src_lists s Fs Ts" by (simp add: src_lists_def assms src_nx_srcs)
  show "timers_wf s' Ts \<longleftrightarrow> timers_wf s Ts" by (simp add: timers_wf_def assms(1))
qed

lemma src_lists_unique:
  assumes "src_lists s Fs Ts" "src_lists s Fs' Ts'"
  shows "Fs' = Fs" "Ts' = Ts"
  using assms unfolding src_lists_def by (metis chain_unique)+

subsection \<open>The contract of a reactor's parts\<close>

text \<open>What gathering may change.\<close>

definition gather_frame :: "('b, 'z) world_scheme \<Rightarrow> ('b, 'z) world_scheme \<Rightarrow> bool" where
  "gather_frame s s' \<longleftrightarrow> srcs s' = srcs s \<and> tod s' = tod s \<and> answers s' = answers s \<and>
     rl s' = (rl s)\<lparr>rl_flags := rl_flags (rl s'), events := events (rl s'), cevents := cevents (rl s'),
       ncevents := ncevents (rl s'), backend := backend (rl s')\<rparr>"

lemma gather_frameD:
  assumes "gather_frame s s'"
  shows "srcs s' = srcs s" "tod s' = tod s" "answers s' = answers s" "sources (rl s') = sources (rl s)"
    "options (rl s') = options (rl s)" "qsrc (rl s') = qsrc (rl s)" "qevt (rl s') = qevt (rl s)"
    "gatherfncs (rl s') = gatherfncs (rl s)"
proof -
  note e = assms [unfolded gather_frame_def]
  from e show "srcs s' = srcs s" "tod s' = tod s" "answers s' = answers s" by blast+
  have r: "rl s' = (rl s)\<lparr>rl_flags := rl_flags (rl s'), events := events (rl s'), cevents := cevents (rl s'),
       ncevents := ncevents (rl s'), backend := backend (rl s')\<rparr>" using e by blast
  show "sources (rl s') = sources (rl s)" "options (rl s') = options (rl s)" "qsrc (rl s') = qsrc (rl s)"
    "qevt (rl s') = qevt (rl s)" "gatherfncs (rl s') = gatherfncs (rl s)"
    by (subst r, simp)+
qed

text \<open>What the backend tracks is neither changed by the clock, the lists and the events nor by a wake.\<close>

locale tracked_sources =
  fixes tracks :: "('b, 'z) world_scheme \<Rightarrow> addr set \<Rightarrow> bool"
  assumes tracks_law: "backend (rl s') = backend (rl s) \<Longrightarrow> kernel_view s' = kernel_view s \<Longrightarrow>
      \<forall>a \<in> A. map_option src_core (srcs s' a) = map_option src_core (srcs s a) \<Longrightarrow>
      tracks s A \<Longrightarrow> tracks s' A"
    and write_law: "tracks s A \<Longrightarrow> sys_frame s s' \<Longrightarrow>
      calls s' = replicate k (Sys_write fd bytes) @ calls s \<Longrightarrow> tracks s' A"
begin

text \<open>The core does not depend on the queues, the events, the flags or the timeout.\<close>

lemma core_keep:
  assumes "reactor_core tracks promise s"
    and "srcs s' = srcs s" "sources (rl s') = sources (rl s)" "backend (rl s') = backend (rl s)"
    and "kernel_view s' = kernel_view s" "options (rl s') = options (rl s)" "gatherfncs (rl s') = gatherfncs (rl s)"
  shows "reactor_core tracks promise s'"
proof -
  obtain Fs Ts where l: "src_lists s Fs Ts" "timers_wf s Ts" "tracks s (set Fs)"
    using assms(1) by (auto simp: reactor_core_def)
  have "tracks s' (set Fs)" by (rule tracks_law [OF assms(4,5) _ l(3)]) (simp add: assms(2))
  with l have "\<exists>Fs Ts. src_lists s' Fs Ts \<and> timers_wf s' Ts \<and> tracks s' (set Fs)"
    using src_lists_cong [OF assms(2,3)] by blast
  with assms(1) kernel_viewD [OF assms(5)] assms(6,7) show ?thesis
    by (simp add: reactor_core_def clock_ok_def gather_table_ok_def)
qed

lemma core_evt_frame: "evt_frame s s' \<Longrightarrow> reactor_core tracks promise s \<Longrightarrow> reactor_core tracks promise s'"
  by (rule core_keep [where s = s]) (simp_all add: evt_frameD)

lemma good_evt_frame:
  "evt_frame s s' \<Longrightarrow> reactor_good tracks promise s \<Longrightarrow> reactor_good tracks promise s'"
  using core_evt_frame by (simp add: reactor_good_def evt_frameD)

end

text \<open>The user's gather functions keep the reactor as the library's callbacks do.\<close>

definition gather_functions_ok :: "(('b, 'z) world_scheme \<Rightarrow> addr set \<Rightarrow> bool) \<Rightarrow> ((nat \<Rightarrow> answer) \<Rightarrow> bool)
    \<Rightarrow> (fnptr \<Rightarrow> ('b, 'z) world_scheme \<Rightarrow> ('b, 'z) world_scheme option) \<Rightarrow> bool" where
  "gather_functions_ok tracks promise ug \<longleftrightarrow>
     (\<forall>g s. reactor_good tracks promise s \<and> events_wf s \<longrightarrow>
        (\<exists>s'. ug g s = Some s' \<and> reactor_good tracks promise s' \<and> events_wf s' \<and> options (rl s') = options (rl s)))"

locale reactor_rounds = tracked_sources tracks + event_callbacks "env_cb env" "reactor_good tracks promise"
  for env :: "('b, 'z) loop_env"
    and tracks :: "('b, 'z) world_scheme \<Rightarrow> addr set \<Rightarrow> bool"
    and promise :: "(nat \<Rightarrow> answer) \<Rightarrow> bool" +
  assumes gather_law: "srcs_inv s Fs Ts \<Longrightarrow> tracks s (set Fs) \<Longrightarrow> evts_inv s E C \<Longrightarrow> wait_ok s \<Longrightarrow>
      promise (answers s) \<Longrightarrow>
      \<exists>s' E' C'. env_gather env s = Some s' \<and> evts_inv s' E' C' \<and> tracks s' (set Fs) \<and> gather_frame s s'"
    and user_law: "gather_functions_ok tracks promise (env_user_gather env)"
begin

text \<open>Installing what other threads have queued.\<close>

lemma install_sources_core:
  assumes "reactor_core tracks promise s" "src_queue_wf s"
  shows "\<exists>s'. gwrl_install_queued_sources (env_ops env) s = Some s' \<and> reactor_core tracks promise s' \<and>
    qsrc (rl s') = None \<and> qevt (rl s') = qevt (rl s) \<and> evts s' = evts s \<and> fresh_ok s' \<and>
    events (rl s') = events (rl s) \<and> cevents (rl s') = cevents (rl s) \<and> ncevents (rl s') = ncevents (rl s) \<and>
    options (rl s') = options (rl s)"
proof -
  obtain Q Fs Ts where q: "src_queue s Q Fs Ts" "timers_wf s Q" "Ts \<noteq> [] \<or> length Q \<le> 1"
    using assms(2) by (auto simp: src_queue_wf_def)
  let ?t = "s\<lparr>rl := (rl s)\<lparr>qsrc := None\<rparr>\<rparr>"
  have i: "srcs_inv s Fs Ts" using q(1) by (simp add: src_queue_def)
  have it: "srcs_inv ?t Fs Ts"
    by (rule srcs_inv_cong [OF _ _ _ i]) (use i in \<open>simp_all add: srcs_inv_def fresh_ok_def\<close>)
  have "chain (src_nx ?t) (qsrc (rl s)) Q" using q(1) by (simp add: src_queue_def src_nx_srcs)
  moreover have "time_src ?t a" if "a \<in> set Q" for a
    using q(1) that core_kind(2) [of ?t a s] by (simp add: src_queue_def list_all_iff)
  ultimately obtain s' where s': "install_sources_loop (env_ops env) (qsrc (rl s)) ?t = Some s'"
    "srcs_inv s' Fs (rev Q @ Ts)" "links_only ?t s'"
    using install_timers_ok [of ?t "qsrc (rl s)" Q Fs Ts "env_ops env"] it q(1,3)
    by (auto simp: src_queue_def)
  have e: "s' = ?t\<lparr>srcs := srcs s', rl := (rl ?t)\<lparr>sources := sources (rl s')\<rparr>\<rparr>"
    and core: "\<And>a. map_option src_core (srcs s' a) = map_option src_core (srcs s a)"
    using s'(3) by (simp_all add: links_only_def)
  have r: "qsrc (rl s') = None" "qevt (rl s') = qevt (rl s)" "evts s' = evts s"
    "events (rl s') = events (rl s)" "cevents (rl s') = cevents (rl s)" "ncevents (rl s') = ncevents (rl s)"
    "options (rl s') = options (rl s)" "gatherfncs (rl s') = gatherfncs (rl s)" "backend (rl s') = backend (rl s)"
    "kernel_view s' = kernel_view s"
    by (subst e, simp)+
  obtain Ts' Fs' where l: "src_lists s Fs' Ts'" "timers_wf s Ts'" "tracks s (set Fs')"
    using assms(1) by (auto simp: reactor_core_def)
  have "src_lists s Fs Ts" using i by (simp add: srcs_inv_lists)
  note u = src_lists_unique [OF this l(1)]
  have "timers_wf s' (rev Q @ Ts)"
    using q(2) l(2) u timers_wf_core(1) [of "rev Q @ Ts" s' s] core
    by (auto simp: timers_wf_def list_all_iff)
  moreover have "tracks s' (set Fs)" by (rule tracks_law [OF r(9,10) _ l(3) [unfolded u]]) (simp add: core)
  moreover have "src_lists s' Fs (rev Q @ Ts)" "fresh_ok s'" using s'(2) by (simp_all add: srcs_inv_lists)
  ultimately have "reactor_core tracks promise s'"
    using assms(1) kernel_viewD [OF r(10)] r(7,8)
    by (auto simp: reactor_core_def clock_ok_def gather_table_ok_def)
  with s'(1) r \<open>fresh_ok s'\<close> show ?thesis
    by (simp add: gwrl_install_queued_sources_def install_sources_from_def)
qed

lemma install_events_core:
  assumes "reactor_core tracks promise s" "evt_queue_wf s" "events_wf s"
  shows "\<exists>s'. gwrl_install_queued_events s = Some s' \<and> reactor_core tracks promise s' \<and> events_wf s' \<and>
    qevt (rl s') = None \<and> qsrc (rl s') = qsrc (rl s)"
proof -
  obtain Q E C where q: "queue_inv s Q E C" "E \<noteq> [] \<or> length Q \<le> 1"
    using assms(2) by (auto simp: evt_queue_wf_def)
  let ?t = "s\<lparr>rl := (rl s)\<lparr>qevt := None\<rparr>\<rparr>"
  have i: "evts_inv s E C" using q(1) by (simp add: queue_inv_def)
  have it: "evts_inv ?t E C"
    by (rule evts_inv_cong [OF _ _ _ _ _ i]) (use i in \<open>simp_all add: evts_inv_def fresh_ok_def\<close>)
  have ch: "chain (evt_nx ?t) (qevt (rl s)) Q" "set Q \<inter> (set E \<union> set C) = {}"
    using q(1) by (simp_all add: queue_inv_def evt_nx_evts)
  obtain s' where s': "install_events_loop (qevt (rl s)) ?t = Some s'" "evts_inv s' (rev Q @ E) C"
    "evt_frame ?t s'"
    using install_events_loop_ok [OF ch(1) it ch(2) q(2)] by blast
  have "reactor_core tracks promise ?t" by (rule core_keep [OF assms(1)]) simp_all
  then have "reactor_core tracks promise s'" by (rule core_evt_frame [OF s'(3)])
  moreover have "events_wf s'"
    using s'(2) assms(3) evt_frameD(9) [OF s'(3)] by (auto simp: events_wf_def)
  ultimately show ?thesis
    using s'(1) evt_frameD(10,11) [OF s'(3)]
    by (simp add: gwrl_install_queued_events_def install_events_from_def)
qed

lemma install_core:
  assumes "reactor_wf tracks promise s"
  shows "\<exists>t s'. (if qsrc (rl s) \<noteq> None then gwrl_install_queued_sources (env_ops env) s else Some s) = Some t \<and>
    (if qevt (rl t) \<noteq> None then gwrl_install_queued_events t else Some t) = Some s' \<and>
    reactor_good tracks promise s' \<and> events_wf s'"
proof -
  note w = assms [unfolded reactor_wf_def]
  obtain Q E C where q: "queue_inv s Q E C" "E \<noteq> [] \<or> length Q \<le> 1"
    using w by (auto simp: evt_queue_wf_def)
  obtain t where t: "(if qsrc (rl s) \<noteq> None then gwrl_install_queued_sources (env_ops env) s else Some s) = Some t"
    "reactor_core tracks promise t" "qsrc (rl t) = None" "queue_inv t Q E C" "events_wf t"
  proof (cases "qsrc (rl s)")
    case None
    with w q that show ?thesis by auto
  next
    case (Some a)
    obtain t where t: "gwrl_install_queued_sources (env_ops env) s = Some t" "reactor_core tracks promise t"
      "qsrc (rl t) = None" "qevt (rl t) = qevt (rl s)" "evts t = evts s" "fresh_ok t"
      "events (rl t) = events (rl s)" "cevents (rl t) = cevents (rl s)" "ncevents (rl t) = ncevents (rl s)"
      "options (rl t) = options (rl s)"
      using install_sources_core w by blast
    have "evts_inv t E C"
      by (rule evts_inv_cong [OF t(5,7-9,6)]) (use q(1) in \<open>simp add: queue_inv_def\<close>)
    with q(1) t(4,5) have "queue_inv t Q E C" by (simp add: queue_inv_def evt_nx_evts)
    with that [of t] t Some w show ?thesis by (auto simp: events_wf_def queue_inv_def)
  qed
  then have eq: "evt_queue_wf t" using q(2) by (auto simp: evt_queue_wf_def)
  have "\<exists>s'. (if qevt (rl t) \<noteq> None then gwrl_install_queued_events t else Some t) = Some s' \<and>
      reactor_good tracks promise s' \<and> events_wf s'"
    using install_events_core [OF t(2) eq t(5)] t(2,3,5) by (cases "qevt (rl t)") (auto simp: reactor_good_def)
  with t(1) show ?thesis by blast
qed

text \<open>Gathering: timers, the backend, the user's functions.\<close>

lemma time_gather_core:
  assumes "reactor_good tracks promise s" "events_wf s" "timeout (rl s) = no_time"
  shows "\<exists>s'. gwrl_time_gather (env_ops env) s = Some s' \<and> reactor_good tracks promise s' \<and> events_wf s' \<and>
    wait_ok s'"
proof -
  obtain Fs Ts where l: "src_lists s Fs Ts" "timers_wf s Ts" "tracks s (set Fs)"
    using assms(1) by (auto simp: reactor_good_def reactor_core_def)
  obtain E C where e: "evts_inv s E C" using assms(2) by (auto simp: events_wf_def)
  then have i: "srcs_inv s Fs Ts" using l(1) by (simp add: srcs_inv_lists evts_inv_def)
  have ck: "clock_ok s" using assms(1) by (simp add: reactor_good_def reactor_core_def)
  obtain ks fs wait m where g: "gather_spec (ns_clock s) (nclk s) None (map (timer_at s) Ts) = (ks, fs, wait, m)"
    by (cases "gather_spec (ns_clock s) (nclk s) None (map (timer_at s) Ts)") auto
  obtain s1 where s1: "pass_post Fs [] Ts E ks fs wait m s s1"
    "gwrl_time_gather (env_ops env) s = Some (if fs = [] then s1 else
       s1\<lparr>rl := (rl s1)\<lparr>timeout := \<lparr>ts_sec = 0, ts_nsec = 0\<rparr>\<rparr>\<rparr>)"
    by (rule gather_ok [OF i e l(2) assms(3) ck g])
  note q = s1(1) [unfolded pass_post_def]
  have r: "rl s1 = (rl s)\<lparr>sources := sources (rl s1), events := events (rl s1), cevents := cevents (rl s1),
       ncevents := ncevents (rl s1), timeout := timeout (rl s1)\<rparr>" using q by blast
  have f: "backend (rl s1) = backend (rl s)" "options (rl s1) = options (rl s)" "qsrc (rl s1) = qsrc (rl s)"
    "qevt (rl s1) = qevt (rl s)" "gatherfncs (rl s1) = gatherfncs (rl s)"
    by (subst r, simp)+
  have kv: "kernel_view s1 = kernel_view s" using q by blast
  have "tracks s1 (set Fs)"
    using q srcs_inv_disjoint [OF i] by (intro tracks_law [OF f(1) kv _ l(3)]) blast
  moreover have "src_lists s1 Fs (map at_id ks)" "timers_wf s1 (map at_id ks)"
    using q by (simp_all add: srcs_inv_lists)
  ultimately have c1: "reactor_core tracks promise s1"
    using assms(1) kernel_viewD [OF kv] f(2,5)
    by (auto simp: reactor_good_def reactor_core_def clock_ok_def gather_table_ok_def)
  obtain E' C' where e1: "evts_inv s1 E' C'" using q by blast
  define s' where "s' = (if fs = [] then s1 else s1\<lparr>rl := (rl s1)\<lparr>timeout := \<lparr>ts_sec = 0, ts_nsec = 0\<rparr>\<rparr>\<rparr>)"
  have "reactor_core tracks promise s'" by (rule core_keep [OF c1]) (simp_all add: s'_def)
  moreover have "evts_inv s' E' C'"
    by (rule evts_inv_cong [OF _ _ _ _ _ e1]) (use e1 in \<open>simp_all add: s'_def evts_inv_def fresh_ok_def\<close>)
  moreover have "wait_ok s'" using q by (simp add: s'_def wait_ok_def ts_normal_def)
  ultimately show ?thesis
    using assms s1(2) f by (auto simp: reactor_good_def events_wf_def simp flip: s'_def) (auto simp: s'_def)
qed

lemma gather_core:
  assumes "reactor_good tracks promise s" "events_wf s" "wait_ok s"
  shows "\<exists>s'. env_gather env s = Some s' \<and> reactor_good tracks promise s' \<and> events_wf s'"
proof -
  obtain Fs Ts where l: "src_lists s Fs Ts" "timers_wf s Ts" "tracks s (set Fs)" "promise (answers s)"
    using assms(1) by (auto simp: reactor_good_def reactor_core_def)
  obtain E C where e: "evts_inv s E C" using assms(2) by (auto simp: events_wf_def)
  then have i: "srcs_inv s Fs Ts" using l(1) by (simp add: srcs_inv_lists evts_inv_def)
  obtain s' E' C' where s': "env_gather env s = Some s'" "evts_inv s' E' C'" "tracks s' (set Fs)" "gather_frame s s'"
    using gather_law [OF i l(3) e assms(3) l(4)] by blast
  note g = gather_frameD [OF s'(4)]
  have "\<exists>Fs Ts. src_lists s' Fs Ts \<and> timers_wf s' Ts \<and> tracks s' (set Fs)"
    using l(1,2) s'(3) src_lists_cong [OF g(1,4)] by blast
  with assms(1) g have "reactor_good tracks promise s'"
    by (simp add: reactor_good_def reactor_core_def clock_ok_def gather_table_ok_def)
  with s'(1,2) assms(2) g(5) show ?thesis by (auto simp: events_wf_def)
qed

lemma user_gather_core:
  assumes "reactor_good tracks promise s" "events_wf s"
  shows "\<exists>s'. user_gather_loop env i s = Some s' \<and> reactor_good tracks promise s' \<and> events_wf s'"
  using assms
proof (induction "nat (gwrl_gather_funcs_max (options (rl s)) - int i)" arbitrary: i s)
  case 0
  then show ?case by (simp add: user_gather_loop.simps [of env i])
next
  case (Suc n)
  then have lt: "int i < gwrl_gather_funcs_max (options (rl s))" by simp
  with Suc.prems(1) obtain fs where fs: "gatherfncs (rl s) = Some fs" "i < length fs"
    by (auto simp: reactor_good_def reactor_core_def gather_table_ok_def)
  show ?case
  proof (cases "fs ! i")
    case None
    with lt fs Suc.prems show ?thesis by (simp add: user_gather_loop.simps [of env i] nth_opt_def)
  next
    case (Some g)
    obtain t where t: "env_user_gather env g s = Some t" "reactor_good tracks promise t" "events_wf t"
      "options (rl t) = options (rl s)"
      using user_law Suc.prems unfolding gather_functions_ok_def by blast
    have "n = nat (gwrl_gather_funcs_max (options (rl t)) - int (Suc i))" using Suc.hyps(2) t(4) by simp
    from Suc.hyps(1) [OF this t(2,3)] t(1) lt fs Some show ?thesis
      by (simp add: user_gather_loop.simps [of env i] nth_opt_def)
  qed
qed

text \<open>A round returns and keeps the invariant; a round that ends the loop has cleared the stop flag.\<close>

lemma round_sound:
  assumes "reactor_wf tracks promise s"
  shows "\<exists>b s'. run_round env s = Some (b, s') \<and> reactor_wf tracks promise s' \<and>
    (b \<longrightarrow> \<not> flisset (rl_flags (rl s')) GWRL_STOP)"
proof -
  obtain r t where r: "(if qsrc (rl s) \<noteq> None then gwrl_install_queued_sources (env_ops env) s else Some s) = Some r"
    and t: "(if qevt (rl r) \<noteq> None then gwrl_install_queued_events r else Some r) = Some t"
    "reactor_good tracks promise t" "events_wf t"
    using install_core [OF assms] by blast
  obtain u where u: "gwrl_dispatch (env_cb env) t = Some u" "reactor_good tracks promise u" "events_wf u"
    using dispatch_ok t(2,3) unfolding events_wf_def by blast
  have run: "run_round env s =
      (if flisset (rl_flags (rl u)) GWRL_STOP then Some (True, clear_stop u)
       else do {
         let s = u\<lparr>rl := (rl u)\<lparr>timeout := no_time\<rparr>\<rparr>;
         tsrc \<leftarrow> nth_opt (sources (rl s)) GWRL_SRC_TYPE_TIME;
         s \<leftarrow> (if tsrc \<noteq> None then gwrl_time_gather (env_ops env) s else Some s);
         s \<leftarrow> env_gather env s;
         s \<leftarrow> user_gather_loop env 0 s;
         Some (False, s) })"
    by (simp only: run_round_def r t(1) u(1) bind.bind_lunit clear_stop_def Let_def)
  show ?thesis
  proof (cases "flisset (rl_flags (rl u)) GWRL_STOP")
    case True
    have "reactor_good tracks promise (clear_stop u)"
      using u(2) core_keep [where s = u and s' = "clear_stop u"] by (simp add: reactor_good_def clear_stop_def)
    moreover obtain E C where e: "evts_inv u E C" using u(3) by (auto simp: events_wf_def)
    have "evts_inv (clear_stop u) E C"
      by (rule evts_inv_cong [OF _ _ _ _ _ e]) (use e in \<open>simp_all add: clear_stop_def evts_inv_def fresh_ok_def\<close>)
    then have "events_wf (clear_stop u)" using u(3) by (auto simp: events_wf_def clear_stop_def)
    moreover have "\<not> flisset (rl_flags (rl (clear_stop u))) GWRL_STOP" by (simp add: clear_stop_def flag_simps)
    ultimately show ?thesis using run True good_wf by auto
  next
    case False
    let ?v = "u\<lparr>rl := (rl u)\<lparr>timeout := no_time\<rparr>\<rparr>"
    have v: "reactor_good tracks promise ?v"
      using u(2) core_keep [where s = u and s' = ?v] by (simp add: reactor_good_def)
    obtain E C where e: "evts_inv u E C" using u(3) by (auto simp: events_wf_def)
    have "evts_inv ?v E C"
      by (rule evts_inv_cong [OF _ _ _ _ _ e]) (use e in \<open>simp_all add: evts_inv_def fresh_ok_def\<close>)
    then have ve: "events_wf ?v" using u(3) by (auto simp: events_wf_def)
    have "length (sources (rl ?v)) = 2"
      using v by (auto simp: reactor_good_def reactor_core_def src_lists_def src_type_defs)
    then obtain p where p: "nth_opt (sources (rl ?v)) GWRL_SRC_TYPE_TIME = Some p"
      by (simp add: nth_opt_def src_type_defs)
    obtain w where w: "(if p \<noteq> None then gwrl_time_gather (env_ops env) ?v else Some ?v) = Some w"
      "reactor_good tracks promise w" "events_wf w" "wait_ok w"
    proof (cases p)
      case None
      with that v ve show ?thesis by (simp add: wait_ok_def)
    next
      case (Some a)
      with that time_gather_core [OF v ve] show ?thesis by auto
    qed
    obtain x where x: "env_gather env w = Some x" "reactor_good tracks promise x" "events_wf x"
      using gather_core [OF w(2-4)] by blast
    obtain y where y: "user_gather_loop env 0 x = Some y" "reactor_good tracks promise y" "events_wf y"
      using user_gather_core [OF x(2,3)] by blast
    have "run_round env s = Some (False, y)"
      unfolding run using False p w(1) x(1) y(1) by (simp del: split_paired_Ex)
    with good_wf [OF y(2,3)] show ?thesis by auto
  qed
qed

end

subsection \<open>Rounds and other threads as steps\<close>

text \<open>A timer that is in no list yet.\<close>

definition loose_timer :: "('b, 'z) world_scheme \<Rightarrow> addr \<Rightarrow> bool" where
  "loose_timer s a \<longleftrightarrow> time_src s a \<and> timers_wf s [a] \<and>
     (\<forall>L. chain (src_nx s) (sources (rl s) ! GWRL_SRC_TYPE_TIME) L \<or> chain (src_nx s) (qsrc (rl s)) L \<longrightarrow> a \<notin> set L)"

text \<open>
  One round of the run loop, or, between two rounds, another thread that posts a function, adds
  a timer or stops the reactor. A thread queues something for an empty list only if nothing
  else is queued.
\<close>

inductive reactor_step :: "('b, 'z) loop_env \<Rightarrow> ('b, 'z) world_scheme \<Rightarrow> ('b, 'z) world_scheme \<Rightarrow> bool"
  for env where
  step_round: "run_round env s = Some (b, s') \<Longrightarrow> reactor_step env s s'"
| step_post: "qevt (rl s) = None \<or> events (rl s) \<noteq> None \<Longrightarrow>
    gwrl_post_function_safely f ud s = Some s' \<Longrightarrow> reactor_step env s s'"
| step_timer: "qsrc (rl s) = None \<or> sources (rl s) ! GWRL_SRC_TYPE_TIME \<noteq> None \<Longrightarrow> loose_timer s a \<Longrightarrow>
    gwrl_src_add_safely (Some a) s = Some s' \<Longrightarrow> reactor_step env s s'"
| step_stop: "reactor_step env s (gwrl_stop s)"

inductive_cases reactor_stepE: "reactor_step env s s'"

context reactor_rounds
begin

lemma wake_core:
  assumes "reactor_core tracks promise s" "gwrl_wake s = Some s'"
  shows "reactor_core tracks promise s'" "sys_frame s s'"
proof -
  obtain k where k: "sys_frame s s'" "calls s' = replicate k (Sys_write (snd (fds (rl s))) wake_bytes) @ calls s"
    using wake_returned [OF assms(2)] by blast
  note g = sys_frameD [OF k(1)]
  obtain Fs Ts where l: "src_lists s Fs Ts" "timers_wf s Ts" "tracks s (set Fs)"
    using assms(1) by (auto simp: reactor_core_def)
  have "tracks s' (set Fs)" by (rule write_law [OF l(3) k])
  moreover have "src_lists s' Fs Ts" "timers_wf s' Ts"
    using l(1,2) src_lists_cong [of s' s] g(2,3) by simp_all
  ultimately show "reactor_core tracks promise s'"
    using assms(1) g by (auto simp: reactor_core_def clock_ok_def gather_table_ok_def)
  show "sys_frame s s'" by (rule k(1))
qed

text \<open>A change of flags, of \<^verbatim>\<open>errno\<close> or of the calls made does not matter to the lists.\<close>

lemma same_lists_wf:
  assumes "evts s' = evts s" "srcs s' = srcs s" "brk s' = brk s" "events (rl s') = events (rl s)"
    and "cevents (rl s') = cevents (rl s)" "ncevents (rl s') = ncevents (rl s)" "sources (rl s') = sources (rl s)"
    and "qevt (rl s') = qevt (rl s)" "qsrc (rl s') = qsrc (rl s)" "options (rl s') = options (rl s)"
    and "events_wf s" "evt_queue_wf s" "src_queue_wf s"
  shows "events_wf s' \<and> evt_queue_wf s' \<and> src_queue_wf s'"
proof -
  have ev: "evts_inv s' E C" if "evts_inv s E C" for E C
    by (rule evts_inv_cong [OF _ _ _ _ _ that]) (use that in \<open>simp_all add: assms(1-6) evts_inv_def fresh_ok_def\<close>)
  have "queue_inv s' Q E C" if "queue_inv s Q E C" for Q E C
    using that ev by (simp add: queue_inv_def assms(1,8) evt_nx_evts)
  then have "evt_queue_wf s'" using assms(12) unfolding evt_queue_wf_def by blast
  moreover have "src_queue s' Q Fs Ts" if "src_queue s Q Fs Ts" for Q Fs Ts
  proof -
    have "time_src s' = time_src s" using core_kind(2) [of s' _ s] by (simp add: fun_eq_iff assms(2))
    moreover have "srcs_inv s' Fs Ts"
      by (rule srcs_inv_cong [of _ s])
         (use that in \<open>simp_all add: assms(1-3,7) src_queue_def srcs_inv_def fresh_ok_def\<close>)
    ultimately show ?thesis using that by (simp add: src_queue_def assms(2,9) src_nx_srcs)
  qed
  moreover have "timers_wf s' = timers_wf s" by (simp add: timers_wf_def assms(2) fun_eq_iff)
  ultimately show ?thesis
    using assms(11,13) ev unfolding src_queue_wf_def events_wf_def assms(10) by metis
qed

lemma wake_wf:
  assumes "reactor_wf tracks promise s" "gwrl_wake s = Some s'"
  shows "reactor_wf tracks promise s'"
proof -
  note w = assms(1) [unfolded reactor_wf_def]
  have c: "reactor_core tracks promise s'" "sys_frame s s'" using wake_core [OF _ assms(2)] w by blast+
  with w same_lists_wf [of s' s] sys_frameD [OF c(2)] show ?thesis by (simp add: reactor_wf_def)
qed

lemma post_step:
  assumes "reactor_wf tracks promise s" "qevt (rl s) = None \<or> events (rl s) \<noteq> None"
    and "gwrl_post_function_safely f ud s = Some s'"
  shows "reactor_wf tracks promise s'"
proof -
  note w = assms(1) [unfolded reactor_wf_def]
  obtain Q E C where q: "queue_inv s Q E C" "E \<noteq> [] \<or> length Q \<le> 1"
    using w by (auto simp: evt_queue_wf_def)
  obtain a u where u: "gwrl_post_function_safely f ud s = gwrl_wake u" "queue_inv u (a # Q) E (tl C)"
    "evts u = (evts s)(a \<mapsto> new_evt None f ud 0 0 (qevt (rl s)))" "kernel_view u = kernel_view s"
    "evt_frame s (u\<lparr>rl := (rl u)\<lparr>qevt := qevt (rl s)\<rparr>\<rparr>)"
    by (rule post_safely_wakes [OF q(1)])
  let ?v = "u\<lparr>rl := (rl u)\<lparr>qevt := qevt (rl s)\<rparr>\<rparr>"
  note f = evt_frameD [OF u(5)]
  have "reactor_core tracks promise ?v" using core_evt_frame [OF u(5)] w by blast
  then have cu: "reactor_core tracks promise u" by (rule core_keep) simp_all
  have fr: "fresh_ok u" using u(2) by (simp add: queue_inv_def evts_inv_def)
  have "Q = [] \<or> E \<noteq> []"
    using assms(2) q(1) by (auto simp: queue_inv_def evts_inv_def)
  then have "evt_queue_wf u" using u(2) unfolding evt_queue_wf_def by force
  moreover have "events_wf u" using u(2) w f(9) by (auto simp: events_wf_def queue_inv_def)
  moreover have "src_queue_wf u"
  proof -
    obtain P Fs Ts where p: "src_queue s P Fs Ts" "timers_wf s P" "Ts \<noteq> [] \<or> length P \<le> 1"
      using w by (auto simp: src_queue_wf_def)
    have "srcs_inv u Fs Ts"
      by (rule srcs_inv_cong [of _ s]) (use p(1) f(1,6) fr in \<open>simp_all add: src_queue_def\<close>)
    moreover have "time_src u = time_src s" using core_kind(2) [of u _ s] f(1) by (simp add: fun_eq_iff)
    moreover have "chain (src_nx u) (qsrc (rl u)) P"
      using p(1) f(1,10) by (simp add: src_queue_def src_nx_srcs)
    ultimately have "src_queue u P Fs Ts" using p(1) by (simp add: src_queue_def)
    moreover have "timers_wf u P" using p(2) f(1) by (simp add: timers_wf_def)
    ultimately show ?thesis using p(3) by (auto simp: src_queue_wf_def)
  qed
  ultimately have "reactor_wf tracks promise u" using cu by (simp add: reactor_wf_def)
  then show ?thesis by (rule wake_wf) (use assms(3) u(1) in simp)
qed

lemma timer_step:
  assumes "reactor_wf tracks promise s" "qsrc (rl s) = None \<or> sources (rl s) ! GWRL_SRC_TYPE_TIME \<noteq> None"
    and "loose_timer s a" "gwrl_src_add_safely (Some a) s = Some s'"
  shows "reactor_wf tracks promise s'"
proof -
  note w = assms(1) [unfolded reactor_wf_def]
  obtain oa where oa: "srcs s a = Some oa" "time_src s a"
    using assms(3) by (auto simp: loose_timer_def time_src_iff)
  obtain Q Fs Ts where q: "src_queue s Q Fs Ts" "timers_wf s Q" "Ts \<noteq> [] \<or> length Q \<le> 1"
    using w by (auto simp: src_queue_wf_def)
  have i: "srcs_inv s Fs Ts" using q(1) by (simp add: src_queue_def)
  note ch = srcs_invD [OF i]
  have out: "a \<notin> set Ts" "a \<notin> set Q" "a \<notin> set Fs"
    using assms(3) ch(3) q(1) ch(5) [of a] oa(2) file_time_disjoint
    by (auto simp: loose_timer_def src_queue_def src_type_defs)
  define u where "u = s\<lparr>srcs := set_next (qsrc (rl s)) a (srcs s), rl := (rl s)\<lparr>qsrc := Some a\<rparr>\<rparr>"
  have add: "gwrl_src_add_safely (Some a) s = gwrl_wake u"
    using oa(1) by (cases "qsrc (rl s)") (simp_all add: gwrl_src_add_safely_def u_def set_next_def)
  have core: "map_option src_core (srcs u b) = map_option src_core (srcs s b)" for b
    by (simp add: u_def set_next_core)
  note kind = core_kind [OF core]
  have kv: "kernel_view u = kernel_view s" by (simp add: u_def kernel_view_def)
  have nx: "src_nx u = (src_nx s)(a \<mapsto> qsrc (rl s))"
    using oa(1) by (simp add: u_def src_nx_srcs)
  have fr: "fresh_ok u"
    using ch(4) fresh_okD(2) [OF ch(4) oa(1)] by (auto simp: u_def fresh_ok_def set_next_def)
  have wf: "timers_wf u L \<longleftrightarrow> timers_wf s L" for L by (rule timers_wf_core(1)) (rule core)
  have lists: "src_lists u Fs Ts"
    using i out by (simp add: srcs_inv_lists src_lists_def kind list_all_iff nx) (simp add: u_def)
  obtain Fs' Ts' where l: "src_lists s Fs' Ts'" "timers_wf s Ts'" "tracks s (set Fs')"
    using w by (auto simp: reactor_core_def)
  have "src_lists s Fs Ts" using i by (simp add: srcs_inv_lists)
  note same = src_lists_unique [OF this l(1)]
  have "tracks u (set Fs)"
    by (rule tracks_law [OF _ kv _ l(3) [unfolded same]]) (simp_all add: core, simp add: u_def)
  then have cu: "reactor_core tracks promise u"
    using w l(2) lists kernel_viewD [OF kv] same wf
    by (auto simp: reactor_core_def clock_ok_def gather_table_ok_def) (simp_all add: u_def)
  have ev: "evts_inv u E C" if "evts_inv s E C" for E C
    by (rule evts_inv_cong [OF _ _ _ _ fr that]) (simp_all add: u_def)
  then have "events_wf u" using w by (auto simp: events_wf_def u_def)
  moreover have "evt_queue_wf u"
    using w ev by (fastforce simp: evt_queue_wf_def queue_inv_def u_def evt_nx_evts)
  moreover have "src_queue_wf u"
  proof -
    have "chain (src_nx u) (qsrc (rl u)) (a # Q)"
      using q(1) out(2) by (simp add: nx src_queue_def) (simp add: u_def)
    moreover have "srcs_inv u Fs Ts" using lists fr by (simp add: srcs_inv_lists)
    ultimately have "src_queue u (a # Q) Fs Ts"
      using q(1) out(1) oa(2) by (simp add: src_queue_def kind list_all_iff)
    moreover have "timers_wf u (a # Q)"
      using assms(3) q(2) wf timers_wf_Cons [of u a Q] by (simp add: loose_timer_def)
    moreover have "Ts \<noteq> [] \<or> length (a # Q) \<le> 1"
      using assms(2) q(1) ch(3) by (cases Q; cases Ts) (auto simp: src_queue_def src_type_defs)
    ultimately show ?thesis unfolding src_queue_wf_def by blast
  qed
  ultimately have "reactor_wf tracks promise u" using cu by (simp add: reactor_wf_def)
  then show ?thesis by (rule wake_wf) (use assms(4) add in simp)
qed

lemma stop_step:
  assumes "reactor_wf tracks promise s"
  shows "reactor_wf tracks promise (gwrl_stop s)"
proof -
  note w = assms [unfolded reactor_wf_def]
  have "reactor_core tracks promise (gwrl_stop s)"
    by (rule core_keep [where s = s]) (use w in \<open>simp_all add: gwrl_stop_def\<close>)
  moreover have "events_wf (gwrl_stop s) \<and> evt_queue_wf (gwrl_stop s) \<and> src_queue_wf (gwrl_stop s)"
    by (rule same_lists_wf [of _ s]) (use w in \<open>simp_all add: gwrl_stop_def\<close>)
  ultimately show ?thesis by (simp add: reactor_wf_def)
qed

lemma step_sound:
  assumes "reactor_step env s s'" "reactor_wf tracks promise s"
  shows "reactor_wf tracks promise s'"
  using assms(1)
proof cases
  case (step_round b)
  with round_sound [OF assms(2)] show ?thesis by auto
next
  case (step_post f ud)
  with post_step [OF assms(2)] show ?thesis by blast
next
  case (step_timer a)
  with timer_step [OF assms(2)] show ?thesis by blast
next
  case step_stop
  with stop_step [OF assms(2)] show ?thesis by blast
qed

lemma reach_sound: "(reactor_step env)\<^sup>*\<^sup>* s s' \<Longrightarrow> reactor_wf tracks promise s \<Longrightarrow> reactor_wf tracks promise s'"
  by (induction rule: rtranclp_induct) (auto intro: step_sound)

end

subsection \<open>The select backend\<close>

interpretation sel_tracked: tracked_sources select_tracks
proof
  fix s s' :: "'z sworld" and A
  assume b: "backend (rl s') = backend (rl s)" and k: "kernel_view s' = kernel_view s"
    and c: "\<forall>a \<in> A. map_option src_core (srcs s' a) = map_option src_core (srcs s a)"
    and t: "select_tracks s A"
  show "select_tracks s' A" by (rule sel.tracks_cong [OF b kernel_viewD(3) [OF k] c t])
next
  fix s s' :: "'z sworld" and A
  assume t: "select_tracks s A" and f: "sys_frame s s'"
  note g = sys_frameD [OF f]
  show "select_tracks s' A" by (rule tracks_views [OF _ _ t]) (simp_all add: g srcs_views(1-3) [OF g(2)])
qed

text \<open>\<^verbatim>\<open>select\<close> fails only because of a signal or for the moment.\<close>

definition fails_softly :: "(nat \<Rightarrow> answer) \<Rightarrow> bool" where
  "fails_softly ans \<longleftrightarrow> (\<forall>n. ans_ret (ans n) < 0 \<longrightarrow> ans_errno (ans n) \<in> {EINTR, EAGAIN})"

lemma polled_frame: "gather_frame s (polled s)"
  by (simp add: gather_frame_def polled_def Let_def)

lemma evt_frame_gather:
  assumes "gather_frame s t" "evt_frame t s'"
  shows "gather_frame s s'"
proof -
  have r: "rl s' = (rl t)\<lparr>cevents := cevents (rl s'), ncevents := ncevents (rl s'), events := events (rl s')\<rparr>"
    by (subst assms(2) [unfolded evt_frame_def]) simp
  have "rl t = (rl s)\<lparr>rl_flags := rl_flags (rl t), events := events (rl t), cevents := cevents (rl t),
       ncevents := ncevents (rl t), backend := backend (rl t)\<rparr>"
    using assms(1) unfolding gather_frame_def by blast
  note t = arg_cong [where f = "\<lambda>r. r\<lparr>cevents := cevents (rl s'), ncevents := ncevents (rl s'), events := events (rl s')\<rparr>", OF this]
  have "rl s' = (rl s)\<lparr>rl_flags := rl_flags (rl s'), events := events (rl s'), cevents := cevents (rl s'),
       ncevents := ncevents (rl s'), backend := backend (rl s')\<rparr>"
    by (rule trans [OF r], rule trans [OF t]) (simp add: evt_frameD(4,8) [OF assms(2)])
  with gather_frameD(1-3) [OF assms(1)] evt_frameD(1) [OF assms(2)] kernel_viewD [OF evt_frameD(16) [OF assms(2)]]
  show ?thesis by (simp add: gather_frame_def)
qed

lemma select_gather_law:
  assumes "srcs_inv s Fs Ts" "select_tracks s (set Fs)" "evts_inv s E C" "fails_softly (answers s)"
  shows "\<exists>s' E' C'. gwrl_bkd_gather_select s = Some s' \<and> evts_inv s' E' C' \<and> select_tracks s' (set Fs) \<and>
    gather_frame s s'"
proof -
  note i = srcs_invD [OF assms(1)]
  have tp: "select_tracks (polled s) (set Fs)"
    by (rule tracks_views [OF _ _ assms(2)]) (simp_all add: srcs_views(1-3) [of "polled s" s])
  show ?thesis
  proof (cases "0 < ans_ret (answer_at s 0)")
    case False
    then have "ans_ret (answer_at s 0) = 0 \<or>
        ans_ret (answer_at s 0) < 0 \<and> ans_errno (answer_at s 0) \<in> {EINTR, EAGAIN}"
      using spec [OF assms(4) [unfolded fails_softly_def], of "length (calls s)"] by (auto simp: answer_at_def)
    then have "gwrl_bkd_gather_select s = Some (polled s)" by (rule gather_select_idle)
    with tp polled_inv(2) [OF assms(3)] polled_frame show ?thesis by blast
  next
    case True
    have "chain (src_nx (polled s)) (sources (rl s) ! 0) Fs" using i(2) by (simp add: src_nx_srcs)
    moreover have "\<forall>a \<in> set Fs. file_src (polled s) a \<and> select_fd_ok (src_fd (polled s) a)"
      using tp by (simp add: select_tracks_def)
    ultimately obtain s' N C' where
      s': "post_ready_loop (ans_ready (answer_at s 0)) (sources (rl s) ! 0) (polled s) = Some s'"
      "evt_frame (polled s) s'" "evts_inv s' (rev N @ E) C'"
      using post_ready_loop_ok [OF _ _ polled_inv(2) [OF assms(3)]] by blast
    have "select_tracks s' (set Fs)"
      by (rule tracks_views [OF evt_frameD(8) [OF s'(2)] _ tp])
         (simp add: srcs_views(1-3) [OF evt_frameD(1) [OF s'(2)]])
    moreover have "gwrl_bkd_gather_select s = Some s'"
      using gather_select_ready [OF True] i(1) s'(1) by simp
    ultimately show ?thesis using s'(3) evt_frame_gather [OF polled_frame s'(2)] by blast
  qed
qed

text \<open>The environment of a reactor on the select backend.\<close>

definition select_env :: "(gwrlbkd_select, 'z) callbacks \<Rightarrow> (fnptr \<Rightarrow> 'z sworld \<Rightarrow> 'z sworld option)
    \<Rightarrow> (gwrlbkd_select, 'z) loop_env" where
  "select_env cb ug = \<lparr>env_ops = select_ops, env_gather = gwrl_bkd_gather_select, env_cb = cb, env_user_gather = ug\<rparr>"

lemma select_rounds:
  assumes "event_callbacks cb (reactor_good select_tracks promise)"
    and "gather_functions_ok select_tracks promise ug" "\<forall>ans. promise ans \<longrightarrow> fails_softly ans"
  shows "reactor_rounds (select_env cb ug) select_tracks promise"
  unfolding reactor_rounds_def reactor_rounds_axioms_def
  using sel_tracked.tracked_sources_axioms assms select_gather_law by (fastforce simp: select_env_def)

text \<open>
  The library's callbacks with \<open>countdown\<close> as the user's functions, and user's gather functions
  that post themselves as events, keep the reactor when reads of the pipe end with \<^verbatim>\<open>EAGAIN\<close>.
\<close>

definition pipe_promise :: "(nat \<Rightarrow> answer) \<Rightarrow> bool" where
  "pipe_promise ans \<longleftrightarrow>
     (\<forall>n. 0 < ans_ret (ans n) \<or> ans_ret (ans n) < 0 \<and> ans_errno (ans n) = EAGAIN) \<and>
     (\<forall>n. \<exists>m \<ge> n. ans_ret (ans m) < 0)"

lemma pipe_promise_softly: "pipe_promise ans \<Longrightarrow> fails_softly ans"
  unfolding pipe_promise_def fails_softly_def by (metis insert_iff less_asym)

lemma select_good_sys:
  assumes "sys_frame s s'" "reactor_good select_tracks promise s"
  shows "reactor_good select_tracks promise s'"
proof -
  note g = sys_frameD [OF assms(1)]
  obtain Fs Ts where l: "src_lists s Fs Ts" "timers_wf s Ts" "select_tracks s (set Fs)"
    using assms(2) by (auto simp: reactor_good_def reactor_core_def)
  have "select_tracks s' (set Fs)"
    by (rule tracks_views [OF _ _ l(3)]) (simp_all add: g srcs_views(1-3) [OF g(2)])
  with l assms(2) src_lists_cong [of s' s] g show ?thesis
    by (auto simp: reactor_good_def reactor_core_def clock_ok_def gather_table_ok_def)
qed

interpretation select_countdown:
  event_callbacks "reactor_callbacks select_ops countdown" "reactor_good select_tracks pipe_promise"
proof
  fix s :: "'z sworld" and L E C a e f
  assume fl: "flight_inv s L E C" and g: "reactor_good select_tracks pipe_promise s"
    and a: "a \<in> set L" "evts s a = Some e"
  have "pipe_reads_ok s" using g by (simp add: reactor_good_def reactor_core_def pipe_promise_def pipe_reads_ok_def)
  then obtain s' E' C' where s': "reactor_callbacks select_ops countdown f (Some a) s = Some s'" "flight_inv s' L E' C'"
    "\<forall>x \<in> set L. evts s' x = evts s x" "sys_frame s s' \<or> evt_frame s s' \<or> s' = gwrl_stop s"
    using countdown_call [OF fl _ a] by blast
  have "reactor_good select_tracks pipe_promise (gwrl_stop s)"
    using g sel_tracked.core_keep [where s = s and s' = "gwrl_stop s"] by (simp add: reactor_good_def gwrl_stop_def)
  then have "reactor_good select_tracks pipe_promise s'"
    using s'(4) g select_good_sys sel_tracked.good_evt_frame by blast
  with s' show "\<exists>s' E' C'. reactor_callbacks select_ops countdown f (Some a) s = Some s' \<and> flight_inv s' L E' C' \<and>
      reactor_good select_tracks pipe_promise s' \<and> (\<forall>x \<in> set L. evts s' x = evts s x)"
    by blast
qed (rule sel_tracked.good_evt_frame)

definition post_itself :: "fnptr \<Rightarrow> ('b, 'z) world_scheme \<Rightarrow> ('b, 'z) world_scheme option" where
  "post_itself g s = gwrl_post_function (Some g) None s"

lemma post_itself_ok: "gather_functions_ok select_tracks promise post_itself"
  unfolding gather_functions_ok_def
proof (intro allI impI)
  fix g and s :: "'z sworld"
  assume s: "reactor_good select_tracks promise s \<and> events_wf s"
  then obtain E C where i: "evts_inv s E C" by (auto simp: events_wf_def)
  obtain a s' where s': "create_and_post None (Some g) None 0 0 s = Some s'" "evts_inv s' (a # E) (tl C)" "evt_frame s s'"
    by (rule create_and_post_ok [OF i, of None "Some g" None 0 0])
  have "events_wf s'" using s s'(2) evt_frameD(9) [OF s'(3)] by (auto simp: events_wf_def)
  with s s'(1,3) sel_tracked.good_evt_frame [OF s'(3)] evt_frameD(9) [OF s'(3)]
  show "\<exists>s'. post_itself g s = Some s' \<and> reactor_good select_tracks promise s' \<and> events_wf s' \<and>
      options (rl s') = options (rl s)"
    by (intro exI [of _ s']) (simp add: post_itself_def gwrl_post_function_def)
qed

interpretation select_reactor:
  reactor_rounds "select_env (reactor_callbacks select_ops countdown) post_itself" select_tracks pipe_promise
  by (rule select_rounds [OF select_countdown.event_callbacks_axioms post_itself_ok]) (simp add: pipe_promise_softly)

subsection \<open>Properties\<close>

text \<open>
  C2: a reactor on the select backend never gets stuck. Starting from consistent lists, timers,
  cache, descriptor sets and queues, after any number of rounds, safe posts, safe additions of
  timers and stops by other threads, the state is still consistent and the next round returns:
  it installs what is queued, dispatches, and either ends the loop with the stop flag clear or
  gathers timers, descriptors and the user's functions. This holds for all callbacks and gather
  functions that keep the contract and all clocks, when \<^verbatim>\<open>select\<close> fails only with \<^verbatim>\<open>EINTR\<close> or
  \<^verbatim>\<open>EAGAIN\<close> and a thread queues for an empty list only if nothing else is queued.
\<close>
theorem select_reactor_progress:
  assumes "event_callbacks cb (reactor_good select_tracks promise)"
    and "gather_functions_ok select_tracks promise ug" "\<forall>ans. promise ans \<longrightarrow> fails_softly ans"
    and "reactor_wf select_tracks promise s0" "(reactor_step (select_env cb ug))\<^sup>*\<^sup>* s0 s"
  shows "reactor_wf select_tracks promise s \<and>
    (\<exists>b s'. run_round (select_env cb ug) s = Some (b, s') \<and> reactor_wf select_tracks promise s' \<and>
       (b \<longrightarrow> \<not> flisset (rl_flags (rl s')) GWRL_STOP))"
proof -
  note rounds = select_rounds [OF assms(1-3)]
  have "reactor_wf select_tracks promise s" by (rule reactor_rounds.reach_sound [OF rounds assms(5,4)])
  with reactor_rounds.round_sound [OF rounds] show ?thesis by blast
qed

subsection \<open>Instances\<close>

text \<open>
  The two descriptors of \<open>select_world\<close>, one gather function, and a kernel that reports both
  descriptors at every other call and otherwise says \<^verbatim>\<open>EAGAIN\<close>; another thread posts a function.
\<close>

definition round_world :: "gwrlbkd_select world" where
  "round_world = select_world\<lparr>
     rl := (rl select_world)\<lparr>gatherfncs := Some [Some (Fn_user 3)],
       options := GWRL_DEFAULT_OPTIONS\<lparr>gwrl_gather_funcs_max := 1\<rparr>\<rparr>,
     answers := (\<lambda>n. if even n then (ok_answer 2)\<lparr>ans_ready := (\<lambda>fd. fd = 3, \<lambda>fd. fd = 5, \<lambda>_. False)\<rparr>
       else fail_answer EAGAIN)\<rparr>"

lemma round_world_wf: "reactor_wf select_tracks pipe_promise round_world" "queue_inv round_world [] [] []"
proof -
  have e: "evts_inv round_world [] []"
    by (rule evts_inv_cong [OF _ _ _ _ _ select_world_ok(3)])
       (use select_world_ok(3) in \<open>simp_all add: round_world_def evts_inv_def fresh_ok_def\<close>)
  have "min n 1000000 \<le> 2 ^ 60" for n :: nat by (simp add: min_def)
  then have ck: "clock_ok round_world"
    by (simp add: round_world_def select_world_def blank_world_def clock_ok_def tv_normal_def)
  have rest: "gather_table_ok round_world" "qsrc (rl round_world) = None" "qevt (rl round_world) = None"
    by (simp_all add: round_world_def select_world_def zero_gwrl_def gather_table_ok_def)
  have "src_lists round_world [11, 12] []"
    using select_world_ok(1) src_lists_cong(1) [of round_world select_world] by (simp add: srcs_inv_lists round_world_def)
  moreover have sw: "srcs round_world = srcs select_world" by (simp add: round_world_def)
  have "select_tracks round_world {11, 12}"
    by (rule tracks_views [OF _ _ select_world_ok(2)]) (simp_all add: srcs_views(1-3) [OF sw], simp add: round_world_def)
  moreover have "pipe_promise (answers round_world)"
  proof -
    have "\<exists>m \<ge> n. ans_ret (answers round_world m) < 0" for n
      by (rule exI [of _ "Suc (2 * n)"]) (simp add: round_world_def fail_answer_def)
    then show ?thesis by (auto simp: pipe_promise_def round_world_def ok_answer_def fail_answer_def)
  qed
  ultimately have "reactor_good select_tracks pipe_promise round_world"
    using ck rest unfolding reactor_good_def reactor_core_def
    by (intro conjI exI [of _ "[11, 12]"] exI [of _ "[]"]) (simp_all add: timers_wf_def)
  moreover have "events_wf round_world"
    using e by (auto simp: events_wf_def round_world_def GWRL_DEFAULT_OPTIONS_def)
  ultimately show "reactor_wf select_tracks pipe_promise round_world" by (rule good_wf)
  show "queue_inv round_world [] [] []"
    using e by (simp add: queue_inv_def round_world_def select_world_def blank_world_def zero_gwrl_def)
qed

theorem select_reactor_progress_witness:
  "\<exists>s b t. gwrl_post_function_safely (Some (Fn_user 2)) None round_world = Some s \<and>
    run_round (select_env (reactor_callbacks select_ops countdown) post_itself) s = Some (b, t) \<and>
    reactor_wf select_tracks pipe_promise t"
proof -
  let ?env = "select_env (reactor_callbacks select_ops countdown) post_itself :: (gwrlbkd_select, unit) loop_env"
  have "\<not> (ans_ret (answer_at round_world 0) < 0 \<and> ans_errno (answer_at round_world 0) = EINTR)"
    by (simp add: answer_at_def round_world_def select_world_def blank_world_def ok_answer_def)
  then obtain s where s: "gwrl_post_function_safely (Some (Fn_user 2)) None round_world = Some s"
    using post_function_safely_queues [OF round_world_wf(2), of 0 "Some (Fn_user 2)" None] by blast
  have "qevt (rl round_world) = None"
    by (simp add: round_world_def select_world_def blank_world_def zero_gwrl_def)
  then have "reactor_step ?env round_world s" using step_post s by blast
  then have "(reactor_step ?env)\<^sup>*\<^sup>* round_world s" by blast
  from select_reactor_progress [OF select_countdown.event_callbacks_axioms post_itself_ok _ round_world_wf(1) this] s
  show ?thesis using pipe_promise_softly by blast
qed

end
