(* ===== verification/Gw_Iocp.thy ===== *)
theory Gw_Iocp
  imports Gw_PrActivity Gw_Free
begin

section \<open>Completion ports (\<^verbatim>\<open>src/gwrl/event_iocp.c\<close>, \<^verbatim>\<open>proactor_imp_iocp.c\<close>)\<close>

text \<open>
  The backend for Windows and the proactor on top of it. A handle is a number. An operation is
  started with a structure \<^verbatim>\<open>gwpr_ovlp\<close>, whose address the system gives back when it has ended; the
  bytes it received are in the buffer by then. The state of the proactor of the other systems is
  extended by these structures and by the fields that \<^verbatim>\<open>proactor_imp_iocp.h\<close> has in \<^verbatim>\<open>gwpr\<close> and
  \<^verbatim>\<open>gwprdata\<close>; the write requests of the other implementation stay unused.
\<close>

subsection \<open>Structures\<close>

datatype gwpr_ovlp_op = gwpr_ovlp_op_wake | gwpr_ovlp_op_accept | gwpr_ovlp_op_connect
  | gwpr_ovlp_op_read | gwpr_ovlp_op_recv | gwpr_ovlp_op_recvfrom
  | gwpr_ovlp_op_write | gwpr_ovlp_op_send | gwpr_ovlp_op_sendto

text \<open>\<^verbatim>\<open>wsabuf\<close> is the buffer it points into and a length.\<close>

record gwpr_ovlp =
  ov_op :: gwpr_ovlp_op
  ov_pr :: ptr
  ov_src :: ptr
  ov_buf :: ptr
  ov_wsabuf :: "ptr \<times> 32 word"
  ov_peerlen :: nat
  ov_peer :: "byte list"
  ov_acceptsock :: int
  ov_next :: ptr

record gwprdata_iocp =
  accept_count :: int
  rdovlp :: ptr

record gwrlbkd_iocp =
  iocp :: int
  AcceptEx :: bool
  ConnectEx :: bool

record 'b iworld = "'b pworld" +
  ovlps :: "addr \<rightharpoonup> gwpr_ovlp"
  ovlpcache :: ptr
  novlpcache :: "64 word"
  idatas :: "addr \<Rightarrow> gwprdata_iocp"

type_synonym 'z xworld = "(gwrlbkd_iocp, 'z) iworld_scheme"

definition GWPR_IOCP_OVLP_CACHE_MAX :: "64 word" where "GWPR_IOCP_OVLP_CACHE_MAX = 256"

definition GWRL_IOCP :: flags8 where "GWRL_IOCP = 2 ^ 2"

definition INFINITE :: int where "INFINITE = 4294967295"
definition INVALID_SOCKET :: int where "INVALID_SOCKET = -1"
definition SOCKET_ERROR :: int where "SOCKET_ERROR = -1"
definition ERROR_IO_PENDING :: int where "ERROR_IO_PENDING = 997"
definition WSA_IO_PENDING :: int where "WSA_IO_PENDING = 997"
definition ERROR_NOT_FOUND :: int where "ERROR_NOT_FOUND = 1168"

lemmas win_defs = INVALID_SOCKET_def SOCKET_ERROR_def ERROR_IO_PENDING_def WSA_IO_PENDING_def ERROR_NOT_FOUND_def

lemmas flisset_iocp [flag_simps] = flisset_exp [OF GWRL_IOCP_def] bit_flag_of_exp [OF GWRL_IOCP_def]

definition zero_ovlp :: gwpr_ovlp where
  "zero_ovlp = \<lparr>ov_op = gwpr_ovlp_op_wake, ov_pr = None, ov_src = None, ov_buf = None, ov_wsabuf = (None, 0),
     ov_peerlen = 0, ov_peer = [], ov_acceptsock = 0, ov_next = None\<rparr>"

definition get_ovlp :: "ptr \<Rightarrow> ('b, 'z) iworld_scheme \<Rightarrow> gwpr_ovlp option" where
  "get_ovlp p s = Option.bind p (ovlps s)"

definition upd_ovlp :: "(gwpr_ovlp \<Rightarrow> gwpr_ovlp) \<Rightarrow> ptr \<Rightarrow> ('b, 'z) iworld_scheme
    \<Rightarrow> ('b, 'z) iworld_scheme option" where
  "upd_ovlp f p s = do { a \<leftarrow> p; e \<leftarrow> ovlps s a; Some (s\<lparr>ovlps := (ovlps s)(a \<mapsto> f e)\<rparr>) }"

definition free_ovlp :: "ptr \<Rightarrow> ('b, 'z) iworld_scheme \<Rightarrow> ('b, 'z) iworld_scheme option" where
  "free_ovlp p s = (case p of None \<Rightarrow> Some s
     | Some a \<Rightarrow> do { e \<leftarrow> ovlps s a; Some (s\<lparr>ovlps := (ovlps s)(a := None)\<rparr>) })"

text \<open>The fields of \<^verbatim>\<open>gwprdata\<close> in \<open>idatas\<close> exist where the structure does.\<close>

definition get_idata :: "ptr \<Rightarrow> ('b, 'z) iworld_scheme \<Rightarrow> gwprdata_iocp option" where
  "get_idata p s = do { a \<leftarrow> p; d \<leftarrow> pdatas s a; Some (idatas s a) }"

definition upd_idata :: "(gwprdata_iocp \<Rightarrow> gwprdata_iocp) \<Rightarrow> ptr \<Rightarrow> ('b, 'z) iworld_scheme
    \<Rightarrow> ('b, 'z) iworld_scheme option" where
  "upd_idata f p s = do { a \<leftarrow> p; d \<leftarrow> pdatas s a; Some (s\<lparr>idatas := (idatas s)(a := f (idatas s a))\<rparr>) }"

subsection \<open>The cache of overlapped structures\<close>

definition gwpr_ovlp_get :: "('b, 'z) iworld_scheme \<Rightarrow> (ptr \<times> ('b, 'z) iworld_scheme) option" where
  "gwpr_ovlp_get s =
     (if ovlpcache s = None then do {
        (a, s) \<leftarrow> calloc_msg ''3FGkd'' s;
        Some (Some a, s\<lparr>ovlps := (ovlps s)(a \<mapsto> zero_ovlp)\<rparr>) }
      else do {
        let ovlp = ovlpcache s;
        o1 \<leftarrow> get_ovlp ovlp s;
        Some (ovlp, s\<lparr>ovlpcache := (if ov_next o1 \<noteq> None then ov_next o1 else None),
                      novlpcache := novlpcache s - 1\<rparr>) })"

definition gwpr_ovlp_free :: "ptr \<Rightarrow> ('b, 'z) iworld_scheme \<Rightarrow> ('b, 'z) iworld_scheme option" where
  "gwpr_ovlp_free ovlp s =
     (if novlpcache s \<ge> GWPR_IOCP_OVLP_CACHE_MAX then free_ovlp ovlp s
      else do {
        s \<leftarrow> upd_ovlp (\<lambda>o1. o1\<lparr>ov_wsabuf := (None, 0)\<rparr>) ovlp s;
        let s = s\<lparr>novlpcache := novlpcache s + 1\<rparr>;
        if ovlpcache s = None then do {
          let s = s\<lparr>ovlpcache := ovlp\<rparr>;
          upd_ovlp (\<lambda>o1. o1\<lparr>ov_next := None\<rparr>) ovlp s }
        else do {
          s \<leftarrow> upd_ovlp (\<lambda>o1. o1\<lparr>ov_next := ovlpcache s\<rparr>) ovlp s;
          Some (s\<lparr>ovlpcache := ovlp\<rparr>) } })"

subsection \<open>The backend\<close>

text \<open>
  \<^verbatim>\<open>gwrl_bkd_init\<close>: after an error the structure is freed and the function returns, leaving the socket
  and the port open.
\<close>

definition gwrl_bkd_init_iocp :: "'z xworld \<Rightarrow> gwrlbkd_iocp option \<times> 'z xworld" where
  "gwrl_bkd_init_iocp s =
     (case calloc s of
        (None, s) \<Rightarrow> (None, gwerr ''5F8bB'' s)
      | (Some _, s) \<Rightarrow>
          let (_, s) = syscall (Sys_win Win_startup) s;
              (sock, s) = syscall (Sys_win Win_socket) s
          in if ans_ret sock = INVALID_SOCKET then (None, s)
             else let (port, s) = syscall (Sys_win Win_create_port) s
             in if ans_ret port = 0 then (None, s)
             else let (a, s) = syscall (Sys_win (Win_load_AcceptEx (ans_ret sock))) s
             in if ans_ret a = SOCKET_ERROR then (None, s)
             else let (a, s) = syscall (Sys_win (Win_load_ConnectEx (ans_ret sock))) s
             in if ans_ret a = SOCKET_ERROR then (None, s)
             else let (_, s) = syscall (Sys_win (Win_closesocket (ans_ret sock))) s
             in (Some \<lparr>iocp = ans_ret port, AcceptEx = True, ConnectEx = True\<rparr>, s))"

text \<open>\<^verbatim>\<open>gwrl_bkd_free\<close> does not close the port.\<close>

definition gwrl_bkd_free_iocp :: "'z xworld \<Rightarrow> gwrlbkd_iocp option \<times> 'z xworld" where
  "gwrl_bkd_free_iocp s = (None, s)"

definition gwrl_wake_iocp :: "'z xworld \<Rightarrow> 'z xworld option" where
  "gwrl_wake_iocp s =
     (if flisset (rl_flags (rl s)) GWRL_SLEEPING then do {
        (ovlp, s) \<leftarrow>
          (if rl_pr (rl s) \<noteq> None then gwpr_ovlp_get s
           else case calloc s of
               (None, s) \<Rightarrow> Some (None, s)
             | (Some a, s) \<Rightarrow> Some (Some a, s\<lparr>ovlps := (ovlps s)(a \<mapsto> zero_ovlp)\<rparr>));
        s \<leftarrow> upd_ovlp (\<lambda>o1. o1\<lparr>ov_op := gwpr_ovlp_op_wake\<rparr>) ovlp s;
        let (a, s) = syscall (Sys_win (Win_post_status (iocp (backend (rl s))) ovlp)) s;
        Some (if ans_ret a = 0 then gwerr ''0P4Xk'' s else s) }
      else Some s)"

definition gwrl_bkd_src_add_iocp :: "ptr \<Rightarrow> 'z xworld \<Rightarrow> 'z xworld option" where
  "gwrl_bkd_src_add_iocp src s = do {
     fd \<leftarrow> src_file_fd src s;
     let (a, s) = syscall (Sys_win (Win_associate fd (iocp (backend (rl s))))) s;
     Some (if ans_ret a = 0 then gwerr ''3FD4R'' (gwerr ''P03CF'' s) else s) }"

definition gwrl_bkd_del_src_iocp :: "ptr \<Rightarrow> 'z xworld \<Rightarrow> 'z xworld option" where
  "gwrl_bkd_del_src_iocp src s = Some s"

definition gwrl_bkd_enable_src_iocp :: "ptr \<Rightarrow> 'z xworld \<Rightarrow> 'z xworld option" where
  "gwrl_bkd_enable_src_iocp src s = Some s"

definition gwrl_bkd_disable_src_iocp :: "ptr \<Rightarrow> 'z xworld \<Rightarrow> 'z xworld option" where
  "gwrl_bkd_disable_src_iocp src s = Some s"

text \<open>The function has the name \<^verbatim>\<open>gwrlsrc_file_update_flags\<close> here; the flags are not stored.\<close>

definition gwrlsrc_file_update_flags_iocp :: "ptr \<Rightarrow> flags8 \<Rightarrow> 'z xworld \<Rightarrow> 'z xworld option" where
  "gwrlsrc_file_update_flags_iocp src flags s = Some s"

definition iocp_ops :: "'z xworld src_ops" where
  "iocp_ops = \<lparr>op_src_add = gwrl_bkd_src_add_iocp, op_del_src = gwrl_bkd_del_src_iocp,
     op_enable_src = gwrl_bkd_enable_src_iocp, op_disable_src = gwrl_bkd_disable_src_iocp,
     op_update_flags = gwrlsrc_file_update_flags_iocp\<rparr>"

subsection \<open>Gathering\<close>

definition iocp_timeout :: "'z xworld \<Rightarrow> int option" where
  "iocp_timeout s = do {
     ms \<leftarrow> (if timeout (rl s) = no_time then Some INFINITE else gwtm_timespec_to_ms (timeout (rl s)));
     Some (if ms = INFINITE \<and> flisset (rl_flags (rl s)) GWRL_NOSLEEP then 0 else ms) }"

text \<open>
  What the system has stored before it reports the end of an operation: the bytes received in the
  buffer, and for a datagram the address of the peer in the structure.
\<close>

definition completion_stored :: "answer \<Rightarrow> 'z xworld \<Rightarrow> 'z xworld option" where
  "completion_stored a s = do {
     o1 \<leftarrow> get_ovlp (ans_ovlp a) s;
     let data = take (ans_bytes a) (ans_data a);
     if ov_op o1 \<in> {gwpr_ovlp_op_read, gwpr_ovlp_op_recv, gwpr_ovlp_op_recvfrom} then do {
       b \<leftarrow> get_buf (ov_buf o1) s;
       let d = take (bufsize b) data;
       s \<leftarrow> upd_buf (\<lambda>b. b\<lparr>buf_data := d @ drop (length d) (buf_data b)\<rparr>) (ov_buf o1) s;
       if ov_op o1 = gwpr_ovlp_op_recvfrom
       then upd_ovlp (\<lambda>o1. o1\<lparr>ov_peer := copy_peer (min (ov_peerlen o1) (length (ans_peer a))) (ans_peer a) (ov_peer o1),
              ov_peerlen := length (ans_peer a)\<rparr>) (ans_ovlp a) s
       else Some s }
     else Some s }"

text \<open>What is done with an operation that has ended.\<close>

definition gather_completion :: "answer \<Rightarrow> 'z xworld \<Rightarrow> 'z xworld option" where
  "gather_completion a s = do {
     let ovlp = ans_ovlp a;
     o1 \<leftarrow> get_ovlp ovlp s;
     if ov_op o1 = gwpr_ovlp_op_wake
     then (if rl_pr (rl s) = None then free_ovlp ovlp s else gwpr_ovlp_free ovlp s)
     else do {
       let src = ov_src o1;
       s \<leftarrow> upd_buf (\<lambda>b. b\<lparr>buf_len := ans_bytes a\<rparr>) (ov_buf o1) s;
       o2 \<leftarrow> get_src src s;
       fd \<leftarrow> src_file_fd src s;
       (evt, s) \<leftarrow> gwrl_evt_createp src (src_callback o2) ovlp fd GWRL_IOCP s;
       gwrl_post_evt evt s } }"

definition gwrl_bkd_gather_iocp :: "'z xworld \<Rightarrow> 'z xworld option" where
  "gwrl_bkd_gather_iocp s = do {
     ms \<leftarrow> iocp_timeout s;
     let s = s\<lparr>rl := (rl s)\<lparr>rl_flags := flset (rl_flags (rl s)) GWRL_SLEEPING\<rparr>\<rparr>;
     let (a, s) = syscall (Sys_win (Win_get_status (iocp (backend (rl s))) (word_of_int ms))) s;
     let s = s\<lparr>rl := (rl s)\<lparr>rl_flags := flclr (rl_flags (rl s)) GWRL_SLEEPING\<rparr>\<rparr>;
     if ans_ret a = 0 then Some s
     else do { s \<leftarrow> completion_stored a s; gather_completion a s } }"

subsection \<open>Starting operations\<close>

text \<open>\<open>n\<close> bytes of a buffer; more than it has is undefined.\<close>

definition first_bytes :: "nat \<Rightarrow> ptr \<Rightarrow> ('b, 'z) pworld_scheme \<Rightarrow> byte list option" where
  "first_bytes n p s = do {
     b \<leftarrow> get_buf p s;
     if n \<le> length (buf_data b) then Some (take n (buf_data b)) else None }"

text \<open>
  The body of the loop of \<^verbatim>\<open>gwpr_accept\<close>, \<open>n\<close> times at most; the result is that of the last call.
\<close>

fun accept_ex_loop :: "nat \<Rightarrow> ptr \<Rightarrow> ptr \<Rightarrow> int \<Rightarrow> 'z xworld \<Rightarrow> (int \<times> 'z xworld) option" where
  "accept_ex_loop 0 src p res s = Some (res, s)"
| "accept_ex_loop (Suc n) src p res s = do {
     (a, s) \<leftarrow> Some (syscall (Sys_win Win_socket) s);
     if ans_ret a = INVALID_SOCKET then Some (ans_errno a, gwerr ''3DXlS'' s)
     else do {
       s \<leftarrow> upd_idata (\<lambda>d. d\<lparr>accept_count := accept_count d + 1\<rparr>) p s;
       (ovlp, s) \<leftarrow> gwpr_ovlp_get s;
       s \<leftarrow> upd_ovlp (\<lambda>o1. o1\<lparr>ov_op := gwpr_ovlp_op_accept, ov_pr := rl_pr (rl s), ov_src := src\<rparr>) ovlp s;
       (buf, s) \<leftarrow> gwpr_buf_getp 256 s;
       s \<leftarrow> upd_ovlp (\<lambda>o1. o1\<lparr>ov_buf := buf, ov_acceptsock := ans_ret a\<rparr>) ovlp s;
       fd \<leftarrow> src_file_fd src s;
       (b, s) \<leftarrow> Some (syscall (Sys_win (Win_AcceptEx fd (ans_ret a) ovlp)) s);
       if ans_ret b = 1 then accept_ex_loop n src p (ans_ret b) s
       else if ans_ret b = 0 \<and> ans_errno b \<noteq> WSA_IO_PENDING then Some (ans_errno b, gwerr ''3Qw2F'' s)
       else accept_ex_loop n src p (ans_ret b) s } }"

definition gwpr_accept_iocp :: "ptr \<Rightarrow> 'z xworld \<Rightarrow> (int \<times> 'z xworld) option" where
  "gwpr_accept_iocp src s = do {
     p \<leftarrow> src_pdata src s;
     d \<leftarrow> get_idata p s;
     accept_ex_loop (nat (gwpr_max_accept (pr_options (pr_obj s)) - accept_count d)) src p 0 s }"

definition gwpr_connect_iocp :: "ptr \<Rightarrow> byte list \<Rightarrow> 'z xworld \<Rightarrow> (int \<times> 'z xworld) option" where
  "gwpr_connect_iocp src addr s = do {
     (ovlp, s) \<leftarrow> gwpr_ovlp_get s;
     let n = gwsk_sockaddr_size addr;
     s \<leftarrow> upd_ovlp (\<lambda>o1. o1\<lparr>ov_op := gwpr_ovlp_op_connect, ov_pr := rl_pr (rl s), ov_src := src, ov_peerlen := n,
            ov_peer := copy_peer n addr (ov_peer o1)\<rparr>) ovlp s;
     fd \<leftarrow> src_file_fd src s;
     (a, s) \<leftarrow> Some (syscall (Sys_win (Win_ConnectEx fd (addr_arg addr) ovlp)) s);
     Some (if ans_ret a = 1 then (0, s)
       else if ans_ret a = 0 \<and> ans_errno a \<noteq> WSA_IO_PENDING then (ans_errno a, gwerr ''pR4FA'' s)
       else (ans_ret a, s)) }"

definition gwpr_stop_read_iocp :: "ptr \<Rightarrow> 'z xworld \<Rightarrow> 'z xworld option" where
  "gwpr_stop_read_iocp src s = do {
     p \<leftarrow> src_pdata src s;
     d \<leftarrow> get_idata p s;
     if rdovlp d \<noteq> None then do {
       fd \<leftarrow> src_file_fd src s;
       (a, s) \<leftarrow> Some (syscall (Sys_win (Win_CancelIoEx fd (rdovlp d))) s);
       Some (if ans_ret a = 0 \<and> ans_errno a \<noteq> ERROR_NOT_FOUND then gwerr ''RF8K3'' s else s) }
     else Some s }"

text \<open>
  The result of \<^verbatim>\<open>ReadFile\<close> and \<^verbatim>\<open>WriteFile\<close>, and that of the socket functions, with the code of the
  message.
\<close>

definition file_result :: "string \<Rightarrow> answer \<Rightarrow> 'z xworld \<Rightarrow> int \<times> 'z xworld" where
  "file_result code a s =
     (if ans_ret a = 1 then (0, s)
      else if ans_ret a = 0 \<and> ans_errno a \<noteq> ERROR_IO_PENDING then (ans_errno a, gwerr code s)
      else (ans_ret a, s))"

definition sock_result :: "string \<Rightarrow> answer \<Rightarrow> 'z xworld \<Rightarrow> int \<times> 'z xworld" where
  "sock_result code a s =
     (if ans_ret a = SOCKET_ERROR \<and> ans_errno a \<noteq> WSA_IO_PENDING then (ans_errno a, gwerr code s)
      else (ans_ret a, s))"

definition gwpr_asynchronous_read_iocp ::
    "ptr \<Rightarrow> ptr \<Rightarrow> gwpr_ovlp_op \<Rightarrow> 'z xworld \<Rightarrow> (int \<times> 'z xworld) option" where
  "gwpr_asynchronous_read_iocp src buf op s = do {
     p \<leftarrow> src_pdata src s;
     (ovlp, s) \<leftarrow> gwpr_ovlp_get s;
     s \<leftarrow> upd_ovlp (\<lambda>o1. o1\<lparr>ov_pr := rl_pr (rl s), ov_src := src, ov_op := op, ov_buf := buf\<rparr>) ovlp s;
     s \<leftarrow> upd_idata (\<lambda>d. d\<lparr>rdovlp := ovlp\<rparr>) p s;
     (case op of
        gwpr_ovlp_op_read \<Rightarrow> do {
          b \<leftarrow> get_buf buf s;
          fd \<leftarrow> src_file_fd src s;
          (a, s) \<leftarrow> Some (syscall (Sys_win (Win_ReadFile fd (of_nat (bufsize b)) ovlp)) s);
          Some (file_result ''3FVs8'' a s) }
      | gwpr_ovlp_op_recv \<Rightarrow> do {
          b \<leftarrow> get_buf buf s;
          s \<leftarrow> upd_ovlp (\<lambda>o1. o1\<lparr>ov_wsabuf := (buf, of_nat (bufsize b))\<rparr>) ovlp s;
          fd \<leftarrow> src_file_fd src s;
          (a, s) \<leftarrow> Some (syscall (Sys_win (Win_WSARecv fd (of_nat (bufsize b)) ovlp)) s);
          Some (sock_result ''L4FdS'' a s) }
      | gwpr_ovlp_op_recvfrom \<Rightarrow> do {
          b \<leftarrow> get_buf buf s;
          s \<leftarrow> upd_ovlp (\<lambda>o1. o1\<lparr>ov_wsabuf := (buf, of_nat (bufsize b)), ov_peerlen := SOCKADDR_STORAGE_SIZE\<rparr>) ovlp s;
          fd \<leftarrow> src_file_fd src s;
          (a, s) \<leftarrow> Some (syscall (Sys_win (Win_WSARecvFrom fd (of_nat (bufsize b)) ovlp)) s);
          Some (sock_result ''3FDsK'' a s) }
      | _ \<Rightarrow> Some (0, s)) }"

text \<open>The read and write filters, called when the first slot is taken.\<close>

definition try_filters ::
    "'z xworld pr_callbacks \<Rightarrow> (gwprdata \<Rightarrow> fnptr option list option) \<Rightarrow> ptr \<Rightarrow> gwpr_io_info
     \<Rightarrow> 'z xworld \<Rightarrow> 'z xworld option" where
  "try_filters cbs tab p info s = do {
     d \<leftarrow> get_pdata p s;
     (case tab d of
        None \<Rightarrow> Some s
      | Some fs \<Rightarrow> do {
          f \<leftarrow> nth_opt fs 0;
          if f \<noteq> None then filter_loop cbs tab p info (filters_max s) 0 s else Some s }) }"

text \<open>The length of \<^verbatim>\<open>wsabuf\<close> is taken before the filters see the buffer, that of \<^verbatim>\<open>WriteFile\<close> after.\<close>

definition gwpr_asynchronous_write_iocp ::
    "'z xworld pr_callbacks \<Rightarrow> ptr \<Rightarrow> ptr \<Rightarrow> byte list \<Rightarrow> nat \<Rightarrow> gwpr_ovlp_op
     \<Rightarrow> 'z xworld \<Rightarrow> (int \<times> 'z xworld) option" where
  "gwpr_asynchronous_write_iocp cbs src buf peer peerlen op s = do {
     p \<leftarrow> src_pdata src s;
     (ovlp, s) \<leftarrow> gwpr_ovlp_get s;
     b \<leftarrow> get_buf buf s;
     let wlen = (of_nat (buf_len b) :: 32 word);
     s \<leftarrow> upd_ovlp (\<lambda>o1. o1\<lparr>ov_pr := rl_pr (rl s), ov_src := src, ov_op := op, ov_buf := buf,
            ov_wsabuf := (buf, wlen)\<rparr>) ovlp s;
     let info = zero_io_info\<lparr>io_src := src, io_buf := buf\<rparr>;
     let info = (if op = gwpr_ovlp_op_sendto
       then info\<lparr>io_peerlen := peerlen, io_peer := copy_peer peerlen peer []\<rparr> else info);
     s \<leftarrow> try_filters cbs wrfilters p info s;
     (case op of
        gwpr_ovlp_op_write \<Rightarrow> do {
          b \<leftarrow> get_buf buf s;
          data \<leftarrow> first_bytes (unat (of_nat (buf_len b) :: 32 word)) buf s;
          fd \<leftarrow> src_file_fd src s;
          (a, s) \<leftarrow> Some (syscall (Sys_win (Win_WriteFile fd data ovlp)) s);
          Some (file_result ''3DJ5F'' a s) }
      | gwpr_ovlp_op_send \<Rightarrow> do {
          data \<leftarrow> first_bytes (unat wlen) buf s;
          fd \<leftarrow> src_file_fd src s;
          (a, s) \<leftarrow> Some (syscall (Sys_win (Win_WSASend fd data ovlp)) s);
          Some (sock_result ''F4eDS'' a s) }
      | gwpr_ovlp_op_sendto \<Rightarrow> do {
          data \<leftarrow> first_bytes (unat wlen) buf s;
          fd \<leftarrow> src_file_fd src s;
          (a, s) \<leftarrow> Some (syscall (Sys_win (Win_WSASendTo fd data (copy_peer peerlen peer []) ovlp)) s);
          Some (sock_result ''L94FD'' a s) }
      | _ \<Rightarrow> Some (0, s)) }"

definition gwpr_read_iocp :: "ptr \<Rightarrow> ptr \<Rightarrow> 'z xworld \<Rightarrow> (int \<times> 'z xworld) option" where
  "gwpr_read_iocp src buf s = gwpr_asynchronous_read_iocp src buf gwpr_ovlp_op_read s"

definition gwpr_recv_iocp :: "ptr \<Rightarrow> ptr \<Rightarrow> 'z xworld \<Rightarrow> (int \<times> 'z xworld) option" where
  "gwpr_recv_iocp src buf s = gwpr_asynchronous_read_iocp src buf gwpr_ovlp_op_recv s"

definition gwpr_recvfrom_iocp :: "ptr \<Rightarrow> ptr \<Rightarrow> 'z xworld \<Rightarrow> (int \<times> 'z xworld) option" where
  "gwpr_recvfrom_iocp src buf s = gwpr_asynchronous_read_iocp src buf gwpr_ovlp_op_recvfrom s"

definition gwpr_write_iocp :: "'z xworld pr_callbacks \<Rightarrow> ptr \<Rightarrow> ptr \<Rightarrow> 'z xworld \<Rightarrow> (int \<times> 'z xworld) option" where
  "gwpr_write_iocp cbs src buf s = gwpr_asynchronous_write_iocp cbs src buf [] 0 gwpr_ovlp_op_write s"

definition gwpr_send_iocp :: "'z xworld pr_callbacks \<Rightarrow> ptr \<Rightarrow> ptr \<Rightarrow> 'z xworld \<Rightarrow> (int \<times> 'z xworld) option" where
  "gwpr_send_iocp cbs src buf s = gwpr_asynchronous_write_iocp cbs src buf [] 0 gwpr_ovlp_op_send s"

definition gwpr_sendto_iocp ::
    "'z xworld pr_callbacks \<Rightarrow> ptr \<Rightarrow> ptr \<Rightarrow> byte list \<Rightarrow> nat \<Rightarrow> 'z xworld \<Rightarrow> (int \<times> 'z xworld) option" where
  "gwpr_sendto_iocp cbs src buf peer peerlen s =
     gwpr_asynchronous_write_iocp cbs src buf peer peerlen gwpr_ovlp_op_sendto s"

subsection \<open>The proactor's callback\<close>

definition iocp_op_id :: "gwpr_ovlp_op \<Rightarrow> gwpr_io_op_id" where
  "iocp_op_id op = (case op of
     gwpr_ovlp_op_read \<Rightarrow> gwpr_read_op_id
   | gwpr_ovlp_op_write \<Rightarrow> gwpr_write_op_id
   | gwpr_ovlp_op_recvfrom \<Rightarrow> gwpr_recvfrom_op_id
   | gwpr_ovlp_op_sendto \<Rightarrow> gwpr_sendto_op_id
   | gwpr_ovlp_op_recv \<Rightarrow> gwpr_recv_op_id
   | gwpr_ovlp_op_send \<Rightarrow> gwpr_send_op_id
   | _ \<Rightarrow> gwpr_read_op_id)"

definition iocp_error_name :: "gwpr_ovlp_op \<Rightarrow> string" where
  "iocp_error_name op = (case op of
     gwpr_ovlp_op_read \<Rightarrow> ''ReadFile''
   | gwpr_ovlp_op_recv \<Rightarrow> ''WSARecv''
   | gwpr_ovlp_op_recvfrom \<Rightarrow> ''WSARecvFrom''
   | gwpr_ovlp_op_write \<Rightarrow> ''WriteFile''
   | gwpr_ovlp_op_send \<Rightarrow> ''WSASend''
   | gwpr_ovlp_op_sendto \<Rightarrow> ''WSASendTo''
   | _ \<Rightarrow> [])"

text \<open>A callback that is called if it is set.\<close>

definition io_if :: "'z xworld pr_callbacks \<Rightarrow> (gwprdata \<Rightarrow> fnptr option) \<Rightarrow> ptr \<Rightarrow> gwpr_io_info
    \<Rightarrow> 'z xworld \<Rightarrow> 'z xworld option" where
  "io_if cbs f p info s = do {
     d \<leftarrow> get_pdata p s;
     if f d \<noteq> None then call_io cbs (f d) info s else Some s }"

definition error_if :: "'z xworld pr_callbacks \<Rightarrow> gwpr_ovlp_op \<Rightarrow> ptr \<Rightarrow> gwpr_error_info
    \<Rightarrow> 'z xworld \<Rightarrow> 'z xworld option" where
  "error_if cbs op p errinfo s = do {
     d \<leftarrow> get_pdata p s;
     if errorcb d \<noteq> None then call_error cbs (errorcb d) (errinfo\<lparr>err_fnc := iocp_error_name op\<rparr>) s else Some s }"

text \<open>The capacity \<^verbatim>\<open>getpeername\<close> is given is \<^verbatim>\<open>ovlp->peerlen\<close>, whatever it holds.\<close>

definition completed_accept ::
    "'z xworld pr_callbacks \<Rightarrow> ptr \<Rightarrow> ptr \<Rightarrow> ptr \<Rightarrow> gwpr_io_info \<Rightarrow> 'z xworld \<Rightarrow> 'z xworld option" where
  "completed_accept cbs src p ovlp info s = do {
     d \<leftarrow> get_pdata p s;
     s \<leftarrow> (if acceptcb d \<noteq> None then do {
         o1 \<leftarrow> get_ovlp ovlp s;
         (peersrc, s) \<leftarrow> gwrl_src_file_create (ov_acceptsock o1) 0 None None s;
         let info = info\<lparr>io_peersrc := peersrc, io_peerlen := SOCKADDR_STORAGE_SIZE\<rparr>;
         (a, s) \<leftarrow> Some (syscall (Sys_win (Win_getpeername (ov_acceptsock o1))) s);
         let info = (if ans_ret a = 0
           then info\<lparr>io_peer := copy_peer (min (ov_peerlen o1) (length (ans_peer a))) (ans_peer a) (io_peer info)\<rparr>
           else info);
         s \<leftarrow> (if ans_ret a = 0 then upd_ovlp (\<lambda>o1. o1\<lparr>ov_peerlen := length (ans_peer a)\<rparr>) ovlp s else Some s);
         call_io cbs (acceptcb d) info s }
       else Some s);
     s \<leftarrow> upd_idata (\<lambda>d. d\<lparr>accept_count := accept_count d - 1\<rparr>) p s;
     (_, s) \<leftarrow> gwpr_accept_iocp src s;
     Some s }"

text \<open>The address that came with an operation, \<open>n\<close> bytes of it.\<close>

definition with_peer :: "nat \<Rightarrow> ptr \<Rightarrow> gwpr_io_info \<Rightarrow> 'z xworld \<Rightarrow> gwpr_io_info option" where
  "with_peer n ovlp info s = do {
     o1 \<leftarrow> get_ovlp ovlp s;
     if n \<le> SOCKADDR_STORAGE_SIZE
     then Some (info\<lparr>io_peerlen := ov_peerlen o1, io_peer := copy_peer n (ov_peer o1) (io_peer info)\<rparr>) else None }"

definition completed_connect ::
    "'z xworld pr_callbacks \<Rightarrow> ptr \<Rightarrow> ptr \<Rightarrow> gwpr_io_info \<Rightarrow> 'z xworld \<Rightarrow> 'z xworld option" where
  "completed_connect cbs p ovlp info s = do {
     d \<leftarrow> get_pdata p s;
     if connectcb d \<noteq> None then do {
       o1 \<leftarrow> get_ovlp ovlp s;
       info \<leftarrow> with_peer (ov_peerlen o1) ovlp info s;
       call_io cbs (connectcb d) info s }
     else Some s }"

text \<open>Filters and callback for what was read; then the next read, into a buffer of its own.\<close>

definition deliver_and_restart ::
    "'z xworld pr_callbacks \<Rightarrow> ptr \<Rightarrow> ptr \<Rightarrow> ptr \<Rightarrow> gwpr_io_info \<Rightarrow> 'z xworld \<Rightarrow> 'z xworld option" where
  "deliver_and_restart cbs src p ovlp info s = do {
     s \<leftarrow> try_filters cbs rdfilters p info s;
     s \<leftarrow> io_if cbs didreadcb p info s;
     o1 \<leftarrow> get_src src s;
     if src_flags o1 AND GWRL_RD \<noteq> 0 then do {
       d \<leftarrow> get_pdata p s;
       (buf, s) \<leftarrow> gwpr_buf_getp (rdbufsize d) s;
       o3 \<leftarrow> get_ovlp ovlp s;
       (_, s) \<leftarrow> gwpr_asynchronous_read_iocp src buf (ov_op o3) s;
       Some s }
     else Some s }"

definition completed ::
    "'z xworld pr_callbacks \<Rightarrow> ptr \<Rightarrow> ptr \<Rightarrow> ptr \<Rightarrow> bool \<Rightarrow> nat \<Rightarrow> gwpr_io_info \<Rightarrow> gwpr_error_info
     \<Rightarrow> 'z xworld \<Rightarrow> 'z xworld option" where
  "completed cbs src p ovlp ok n info errinfo s = do {
     o1 \<leftarrow> get_ovlp ovlp s;
     let op = ov_op o1;
     (if op = gwpr_ovlp_op_accept then completed_accept cbs src p ovlp info s
      else if op = gwpr_ovlp_op_connect then completed_connect cbs p ovlp info s
      else if op = gwpr_ovlp_op_read \<or> op = gwpr_ovlp_op_recv then
        (if \<not> ok then error_if cbs op p errinfo s
         else if n = 0 then io_if cbs closedcb p info s
         else deliver_and_restart cbs src p ovlp info s)
      else if op = gwpr_ovlp_op_recvfrom then
        (if \<not> ok then error_if cbs op p errinfo s
         else do {
           info \<leftarrow> with_peer (ov_peerlen o1) ovlp info s;
           deliver_and_restart cbs src p ovlp info s })
      else if op = gwpr_ovlp_op_write \<or> op = gwpr_ovlp_op_send then
        (if \<not> ok then error_if cbs op p errinfo s else io_if cbs didwritecb p info s)
      else if op = gwpr_ovlp_op_sendto then
        (if \<not> ok then error_if cbs op p errinfo s
         else do {
           info \<leftarrow> with_peer SOCKADDR_STORAGE_SIZE ovlp info s;
           io_if cbs didwritecb p info s })
      else Some s) }"

definition gwpr_src_activity_iocp ::
    "'z xworld pr_callbacks \<Rightarrow> ptr \<Rightarrow> 'z xworld \<Rightarrow> 'z xworld option" where
  "gwpr_src_activity_iocp cbs evt s = do {
     e \<leftarrow> get_evt evt s;
     o2 \<leftarrow> get_src (evt_src e) s;
     if src_type o2 = GWRL_SRC_TYPE_FILE \<and> evt_flags e AND GWRL_IOCP \<noteq> 0 then do {
       let src = evt_src e;
       let ovlp = evt_userdata e;
       f \<leftarrow> as_file o2;
       let p = file_pdata f;
       o1 \<leftarrow> get_ovlp ovlp s;
       let op = iocp_op_id (ov_op o1);
       let info = zero_io_info\<lparr>io_buf := ov_buf o1, io_src := src, io_op := op\<rparr>;
       (a, s) \<leftarrow> Some (syscall (Sys_win
         (if op = gwpr_read_op_id \<or> op = gwpr_write_op_id then Win_overlapped_result (file_fd f) ovlp
          else Win_wsa_overlapped_result (file_fd f) ovlp)) s);
       let ok = (ans_ret a \<noteq> 0);
       let errinfo = (if ok then zero_error_info
         else zero_error_info\<lparr>err_errnm := ans_errno a, err_src := src, err_buf := ov_buf o1, err_op := op\<rparr>);
       s \<leftarrow> completed cbs src p ovlp ok (ans_bytes a) info errinfo s;
       s \<leftarrow> upd_ovlp (\<lambda>o1. o1\<lparr>ov_buf := None\<rparr>) ovlp s;
       gwpr_ovlp_free ovlp s }
     else Some s }"

subsection \<open>The invariant of the cache\<close>

definition ov_nx :: "('b, 'z) iworld_scheme \<Rightarrow> addr \<Rightarrow> ptr option" where
  "ov_nx s a = map_option ov_next (ovlps s a)"

lemma ov_nx_iff: "ov_nx s a = Some r \<longleftrightarrow> (\<exists>e. ovlps s a = Some e \<and> ov_next e = r)"
  by (auto simp: ov_nx_def)

lemma ov_nx_ovlps: "ov_nx s = map_option ov_next \<circ> ovlps s"
  by (auto simp: ov_nx_def fun_eq_iff)

lemma get_ovlp_Some [simp]: "get_ovlp (Some a) s = ovlps s a" by (simp add: get_ovlp_def)
lemma get_ovlp_None [simp]: "get_ovlp None s = None" by (simp add: get_ovlp_def)

lemma upd_ovlp_alloc [simp]:
  "ovlps s a = Some e \<Longrightarrow> upd_ovlp f (Some a) s = Some (s\<lparr>ovlps := (ovlps s)(a \<mapsto> f e)\<rparr>)"
  by (simp add: upd_ovlp_def)

lemma free_ovlp_alloc [simp]:
  "ovlps s a = Some e \<Longrightarrow> free_ovlp (Some a) s = Some (s\<lparr>ovlps := (ovlps s)(a := None)\<rparr>)"
  by (simp add: free_ovlp_def)

lemma upd_idata_alloc [simp]:
  "pdatas s p = Some d \<Longrightarrow> upd_idata f (Some p) s = Some (s\<lparr>idatas := (idatas s)(p := f (idatas s p))\<rparr>)"
  by (simp add: upd_idata_def)

lemma get_idata_alloc [simp]: "pdatas s p = Some d \<Longrightarrow> get_idata (Some p) s = Some (idatas s p)"
  by (simp add: get_idata_def)

text \<open>
  The structures \<open>C\<close> are cached, no more than the limit, and none of them holds a buffer; addresses
  at and above \<open>brk\<close> hold none.
\<close>

definition ovlp_cache :: "('b, 'z) iworld_scheme \<Rightarrow> addr list \<Rightarrow> bool" where
  "ovlp_cache s C \<longleftrightarrow> chain (ov_nx s) (ovlpcache s) C \<and> length C = unat (novlpcache s) \<and> length C \<le> 256 \<and>
     (\<forall>a \<in> set C. \<exists>e. ovlps s a = Some e \<and> ov_buf e = None) \<and> (\<forall>a. brk s \<le> a \<longrightarrow> ovlps s a = None)"

definition ovlp_frame :: "('b, 'z) iworld_scheme \<Rightarrow> ('b, 'z) iworld_scheme \<Rightarrow> bool" where
  "ovlp_frame s s' \<longleftrightarrow> s' = s\<lparr>ovlps := ovlps s', ovlpcache := ovlpcache s', novlpcache := novlpcache s',
     brk := brk s', oom := oom s', errs := errs s'\<rparr> \<and> brk s \<le> brk s'"

lemma ovlp_get_ok:
  assumes "ovlp_cache s C"
  obtains q e s' where "gwpr_ovlp_get s = Some (Some q, s')" "ovlps s' q = Some e" "ov_buf e = None"
    "q = (case C of [] \<Rightarrow> brk s | c # _ \<Rightarrow> c)" "q \<notin> set (tl C)" "ovlp_cache s' (tl C)"
    "\<forall>x. x \<noteq> q \<longrightarrow> ovlps s' x = ovlps s x" "ovlp_frame s s'" "q < brk s'"
proof (cases C)
  case Nil
  obtain om er where c: "calloc_msg ''3FGkd'' s = Some (brk s, s\<lparr>brk := Suc (brk s), oom := om, errs := er\<rparr>)"
    by (rule calloc_msg_ok)
  let ?s' = "s\<lparr>brk := Suc (brk s), oom := om, errs := er, ovlps := (ovlps s)(brk s \<mapsto> zero_ovlp)\<rparr>"
  have n: "ovlpcache s = None" using assms Nil by (simp add: ovlp_cache_def)
  have "gwpr_ovlp_get s = Some (Some (brk s), ?s')" using c n by (simp add: gwpr_ovlp_get_def)
  with assms Nil n show ?thesis
    by (intro that [of "brk s" ?s' zero_ovlp]) (auto simp: ovlp_cache_def ovlp_frame_def zero_ovlp_def)
next
  case (Cons c C')
  then obtain e where e: "ovlpcache s = Some c" "ovlps s c = Some e" "chain (ov_nx s) (ov_next e) C'"
    using assms by (auto simp: ovlp_cache_def ov_nx_iff)
  have b: "ov_buf e = None" using assms Cons e(2) by (auto simp: ovlp_cache_def)
  have n: "c \<notin> set C'" using assms Cons chain_tail_notin by (fastforce simp: ovlp_cache_def)
  have l: "Suc (length C') = unat (novlpcache s)" using assms Cons by (simp add: ovlp_cache_def)
  then have "novlpcache s \<noteq> 0" by auto
  then have d: "unat (novlpcache s - 1) = length C'" using l by (simp add: unat_minus_one)
  let ?s' = "s\<lparr>ovlpcache := ov_next e, novlpcache := novlpcache s - 1\<rparr>"
  have "gwpr_ovlp_get s = Some (Some c, ?s')" using e by (cases "ov_next e") (simp_all add: gwpr_ovlp_get_def)
  moreover have "ovlp_cache ?s' C'" using assms Cons e(3) d by (simp add: ovlp_cache_def ov_nx_ovlps)
  moreover have "c < brk s" using assms e(2) by (auto simp: ovlp_cache_def not_le [symmetric])
  ultimately show ?thesis
    using Cons e(2) n b by (intro that [of c ?s' e]) (auto simp: ovlp_frame_def)
qed

lemma ovlp_free_ok:
  assumes "ovlp_cache s C" "ovlps s q = Some e" "q \<notin> set C" "ov_buf e = None"
  shows "\<exists>s'. gwpr_ovlp_free (Some q) s = Some s' \<and> ovlp_frame s s' \<and>
    (\<forall>x. x \<noteq> q \<longrightarrow> ovlps s' x = ovlps s x) \<and>
    (if length C = 256 then ovlps s' q = None \<and> ovlp_cache s' C else ovlp_cache s' (q # C))"
proof (cases "length C = 256")
  case True
  then have "GWPR_IOCP_OVLP_CACHE_MAX \<le> novlpcache s"
    using assms(1) by (simp add: ovlp_cache_def GWPR_IOCP_OVLP_CACHE_MAX_def word_le_nat_alt)
  with True assms show ?thesis
    by (intro exI [of _ "s\<lparr>ovlps := (ovlps s)(q := None)\<rparr>"])
       (auto simp: gwpr_ovlp_free_def ovlp_cache_def ovlp_frame_def ov_nx_ovlps)
next
  case False
  then have lt: "unat (novlpcache s) < 256" using assms(1) by (simp add: ovlp_cache_def)
  then have full: "\<not> GWPR_IOCP_OVLP_CACHE_MAX \<le> novlpcache s"
    by (simp add: GWPR_IOCP_OVLP_CACHE_MAX_def word_le_nat_alt)
  have n: "unat (novlpcache s + 1) = Suc (unat (novlpcache s))"
    using lt by (subst unat_word_ariths(1)) simp
  let ?s' = "s\<lparr>ovlps := (ovlps s)(q \<mapsto> e\<lparr>ov_wsabuf := (None, 0), ov_next := ovlpcache s\<rparr>),
     ovlpcache := Some q, novlpcache := novlpcache s + 1\<rparr>"
  have "gwpr_ovlp_free (Some q) s = Some ?s'"
    using full assms(2)
    by (cases "ovlpcache s") (auto simp: gwpr_ovlp_free_def Let_def intro!: iworld.equality)
  with False assms n show ?thesis
    by (intro exI [of _ ?s']) (auto simp: ovlp_cache_def ovlp_frame_def ov_nx_ovlps)
qed

end
