(* ===== verification/Gw_Completion.thy ===== *)
theory Gw_Completion
  imports Gw_Iocp
begin

section \<open>Operations and their completion\<close>

text \<open>
  What \<open>Gw_Iocp\<close> defines, put together: the backend is an interpretation of the contracts of the
  reactor; gathering turns one completed operation into one event; \<^verbatim>\<open>gwpr_accept\<close> keeps its number of
  accepts outstanding; and the proactor's callback reports a read and starts the next.
\<close>

subsection \<open>Sources\<close>

text \<open>A source is known to the port when its handle was associated with it. Nothing is undone.\<close>

definition iocp_tracks :: "'z xworld \<Rightarrow> addr set \<Rightarrow> bool" where
  "iocp_tracks s A \<longleftrightarrow> (\<forall>a \<in> A. file_src s a \<and>
     Sys_win (Win_associate (src_fd s a) (iocp (backend (rl s)))) \<in> set (calls s))"

lemma src_file_fd_file: "file_src s a \<Longrightarrow> src_file_fd (Some a) s = Some (src_fd s a)"
  by (auto simp: file_src_iff src_file_fd_def src_fd_def as_file_def)

lemma iocp_tracks_cong:
  assumes "backend (rl s') = backend (rl s)" "calls s' = calls s"
    and "\<forall>a \<in> A. map_option src_core (srcs s' a) = map_option src_core (srcs s a)" "iocp_tracks s A"
  shows "iocp_tracks s' A"
  using assms core_views [of s' _ s] by (simp add: iocp_tracks_def)

lemma src_add_iocp_ok:
  assumes "file_src s a"
  shows "\<exists>s'. gwrl_bkd_src_add_iocp (Some a) s = Some s' \<and> bkd_frame s s' \<and> srcs s' = srcs s \<and>
    backend (rl s') = backend (rl s) \<and>
    calls s' = Sys_win (Win_associate (src_fd s a) (iocp (backend (rl s)))) # calls s"
  using src_file_fd_file [OF assms]
  by (simp add: gwrl_bkd_src_add_iocp_def syscall_def Let_def bkd_frame_def gwerr_def)

lemma mod_src_iocp_tracks:
  assumes "iocp_tracks s A" "\<And>o1. src_part (f o1) = src_part o1 \<and> src_type (f o1) = src_type o1"
  shows "iocp_tracks (mod_src f a s) A"
proof -
  have "src_fd (mod_src f a s) b = src_fd s b \<and> file_src (mod_src f a s) b = file_src s b" for b
    using assms(2) by (cases "srcs s a") (auto simp: mod_src_def src_fd_def file_src_iff as_file_def)
  with assms(1) show ?thesis by (simp add: iocp_tracks_def mod_src_def)
qed

lemma bkd_frame_same [simp]: "bkd_frame s s"
  by (simp add: bkd_frame_def)

interpretation io: source_backend iocp_ops "\<lambda>_. True" iocp_tracks
proof unfold_locales
  fix s :: "'z xworld" and a Fs Ts
  assume i: "srcs_inv s (a # Fs) Ts" and t: "iocp_tracks s (set Fs)"
  have "file_src s a" using srcs_invD(5) [OF i] by simp
  then obtain s' where s': "gwrl_bkd_src_add_iocp (Some a) s = Some s'" "bkd_frame s s'" "srcs s' = srcs s"
    "backend (rl s') = backend (rl s)"
    "calls s' = Sys_win (Win_associate (src_fd s a) (iocp (backend (rl s)))) # calls s"
    using src_add_iocp_ok by blast
  moreover have "iocp_tracks s' (set (a # Fs))"
    using t \<open>file_src s a\<close> s'(3-5) by (auto simp: iocp_tracks_def file_src_def src_fd_def)
  ultimately show "\<exists>s'. op_src_add iocp_ops (Some a) s = Some s' \<and> bkd_frame s s' \<and> iocp_tracks s' (set (a # Fs))"
    by (auto simp: iocp_ops_def)
next
  fix s :: "'z xworld" and a Fs Ts
  assume "iocp_tracks s (insert a (set Fs))"
  then show "\<exists>s' fl. op_del_src iocp_ops (Some a) s = Some s' \<and>
      bkd_frame (mod_src (\<lambda>o1. o1\<lparr>src_flags := fl\<rparr>) a s) s' \<and> iocp_tracks s' (set Fs)"
    by (intro exI [of _ s] exI [of _ "src_fl s a"])
       (simp add: iocp_ops_def gwrl_bkd_del_src_iocp_def iocp_tracks_def)
next
  fix s t :: "'z xworld" and a Fs Ts
  assume "iocp_tracks s (set Fs)" "t = mod_src (src_flset GWRL_ENABLED) a s"
  then show "\<exists>s'. op_enable_src iocp_ops (Some a) t = Some s' \<and> bkd_frame t s' \<and> iocp_tracks s' (set Fs)"
    by (simp add: iocp_ops_def gwrl_bkd_enable_src_iocp_def mod_src_iocp_tracks src_flset_def)
next
  fix s t :: "'z xworld" and a Fs Ts
  assume "iocp_tracks s (set Fs)" "t = mod_src (src_flclr GWRL_ENABLED) a s"
  then show "\<exists>s'. op_disable_src iocp_ops (Some a) t = Some s' \<and> bkd_frame t s' \<and> iocp_tracks s' (set Fs)"
    by (simp add: iocp_ops_def gwrl_bkd_disable_src_iocp_def mod_src_iocp_tracks src_flclr_def)
qed (rule iocp_tracks_cong; assumption)

interpretation iocp_free: backend_release gwrl_bkd_free_iocp "\<lambda>_. []"
  by unfold_locales (auto simp: gwrl_bkd_free_iocp_def closings_def)

subsection \<open>Gathering\<close>

text \<open>The state after \<^verbatim>\<open>GetQueuedCompletionStatus\<close> has returned.\<close>

definition asked :: "int \<Rightarrow> 'z xworld \<Rightarrow> 'z xworld" where
  "asked ms s =
     (let a = answer_at s 0 in
      s\<lparr>calls := Sys_win (Win_get_status (iocp (backend (rl s))) (word_of_int ms)) # calls s,
        errno := (if ans_ret a < 0 then ans_errno a else errno s),
        rl := (rl s)\<lparr>rl_flags := flclr (flset (rl_flags (rl s)) GWRL_SLEEPING) GWRL_SLEEPING\<rparr>\<rparr>)"

lemma asked_sel [simp]:
  "srcs (asked ms s) = srcs s" "evts (asked ms s) = evts s" "brk (asked ms s) = brk s"
  "events (rl (asked ms s)) = events (rl s)" "cevents (rl (asked ms s)) = cevents (rl s)"
  "ncevents (rl (asked ms s)) = ncevents (rl s)" "rl_pr (rl (asked ms s)) = rl_pr (rl s)"
  "ovlps (asked ms s) = ovlps s" "ovlpcache (asked ms s) = ovlpcache s" "novlpcache (asked ms s) = novlpcache s"
  "bufs (asked ms s) = bufs s" "backend (rl (asked ms s)) = backend (rl s)"
  by (simp_all add: asked_def Let_def)










lemma ovlp_frameD:
  assumes "ovlp_frame s s'"
  shows "evts s' = evts s" "rl s' = rl s" "srcs s' = srcs s" "bufs s' = bufs s" "pdatas s' = pdatas s"
    "idatas s' = idatas s" "calls s' = calls s" "answers s' = answers s" "brk s \<le> brk s'" "pr_obj s' = pr_obj s"
    "filters_max s' = filters_max s"
proof -
  note f = assms [unfolded ovlp_frame_def]
  show "brk s \<le> brk s'" using f by blast
qed (subst assms [unfolded ovlp_frame_def, THEN conjunct1], simp)+


subsection \<open>Accepting\<close>

text \<open>A round of the loop of \<^verbatim>\<open>gwpr_accept\<close> that starts an operation: two calls, the socket and the accept.\<close>

definition accept_started :: "answer \<Rightarrow> answer \<Rightarrow> bool" where
  "accept_started a b \<longleftrightarrow> ans_ret a \<noteq> INVALID_SOCKET \<and>
     (ans_ret b = 1 \<or> ans_ret b = 0 \<and> ans_errno b = WSA_IO_PENDING)"

definition pending_accept :: "'z xworld \<Rightarrow> addr \<Rightarrow> addr \<times> addr \<times> int \<Rightarrow> bool" where
  "pending_accept s a w \<longleftrightarrow> (case w of (q, b, k) \<Rightarrow> \<exists>v. ovlps s q = Some v \<and> ov_op v = gwpr_ovlp_op_accept \<and>
     ov_src v = Some a \<and> ov_buf v = Some b \<and> ov_acceptsock v = k \<and> bufs s b = Some (new_buf 256))"

lemma syscall_at:
  obtains t where "syscall c s = (answers s (length (calls s)), t)" "sys_frame s t" "calls t = c # calls s"
proof -
  obtain r t where t: "syscall c s = (r, t)" by (cases "syscall c s")
  moreover have "r = answers s (length (calls s))" using t by (simp add: syscall_def Let_def)
  ultimately show ?thesis using that syscall_result [OF t] by blast
qed

lemma accept_round:
  assumes "ovlp_cache s Q" "file_src s a" "pdatas s p = Some d"
    and "accept_started (answer_at s 0) (answer_at s 1)"
  obtains q b t where
    "accept_ex_loop (Suc n) (Some a) (Some p) r s = accept_ex_loop n (Some a) (Some p) (ans_ret (answer_at s 1)) t"
    "calls t = Sys_win (Win_AcceptEx (src_fd s a) (ans_ret (answer_at s 0)) (Some q)) # Sys_win Win_socket # calls s"
    "answers t = answers s" "srcs t = srcs s" "pdatas t = pdatas s"
    "idatas t = (idatas s)(p := (idatas s p)\<lparr>accept_count := accept_count (idatas s p) + 1\<rparr>)"
    "pending_accept t a (q, b, ans_ret (answer_at s 0))" "ovlp_cache t (tl Q)" "q \<notin> set (tl Q)"
    "q \<in> set Q \<or> brk s \<le> q" "q < brk t" "brk s \<le> b" "b < brk t" "brk s \<le> brk t"
    "\<forall>x. x \<noteq> q \<longrightarrow> ovlps t x = ovlps s x" "\<forall>x. x \<noteq> b \<longrightarrow> bufs t x = bufs s x"
proof -
  define k w where kw: "k = ans_ret (answer_at s 0)" "w = answer_at s 1"
  obtain s1 where a1: "syscall (Sys_win Win_socket) s = (answer_at s 0, s1)"
    and e1: "sys_frame s s1" "calls s1 = Sys_win Win_socket # calls s"
    by (rule syscall_at [of "Sys_win Win_socket" s]) (simp add: answer_at_def)
  have f1: "calls s1 = Sys_win Win_socket # calls s" "srcs s1 = srcs s" "pdatas s1 = pdatas s" "idatas s1 = idatas s"
    "answers s1 = answers s" "brk s1 = brk s" "ovlps s1 = ovlps s" "bufs s1 = bufs s" "ov_nx s1 = ov_nx s"
    "ovlpcache s1 = ovlpcache s" "novlpcache s1 = novlpcache s"
    by (simp_all add: e1(2)) (subst e1(1) [unfolded sys_frame_def], simp add: ov_nx_ovlps)+
  define s2 where e2: "s2 = s1\<lparr>idatas := (idatas s)(p := (idatas s p)\<lparr>accept_count := accept_count (idatas s p) + 1\<rparr>)\<rparr>"
  have p2: "upd_idata (\<lambda>d. d\<lparr>accept_count := accept_count d + 1\<rparr>) (Some p) s1 = Some s2"
    using assms(3) f1 by (simp add: upd_idata_def e2)
  have "ovlp_cache s2 Q" using assms(1) f1 by (simp add: ovlp_cache_def ov_nx_ovlps e2)
  then obtain q v t3 where q: "gwpr_ovlp_get s2 = Some (Some q, t3)" "ovlps t3 q = Some v" "ov_buf v = None"
    "q = (case Q of [] \<Rightarrow> brk s2 | c # _ \<Rightarrow> c)" "q \<notin> set (tl Q)" "ovlp_cache t3 (tl Q)"
    "\<forall>x. x \<noteq> q \<longrightarrow> ovlps t3 x = ovlps s2 x" "ovlp_frame s2 t3" "q < brk t3"
    by (rule ovlp_get_ok)
  note f = ovlp_frameD [OF q(8)]
  define u where u: "u = v\<lparr>ov_op := gwpr_ovlp_op_accept, ov_pr := rl_pr (rl t3), ov_src := Some a\<rparr>"
  define t4 where e4: "t4 = t3\<lparr>ovlps := (ovlps t3)(q \<mapsto> u)\<rparr>"
  have p4: "upd_ovlp (\<lambda>o1. o1\<lparr>ov_op := gwpr_ovlp_op_accept, ov_pr := rl_pr (rl t3), ov_src := Some a\<rparr>) (Some q) t3 = Some t4"
    using q(2) by (simp add: e4 u)
  obtain om er where "gwpr_buf_getp 256 t4 = Some (Some (brk t4),
      t4\<lparr>brk := brk t4 + 2, oom := om, errs := er, bufs := (bufs t4)(brk t4 \<mapsto> new_buf 256)\<rparr>)"
    by (rule buf_getp_ok)
  then obtain t5 where p5: "gwpr_buf_getp 256 t4 = Some (Some (brk t3), t5)"
    and e5: "t5 = t4\<lparr>brk := brk t4 + 2, oom := om, errs := er, bufs := (bufs t4)(brk t4 \<mapsto> new_buf 256)\<rparr>"
    by (simp add: e4)
  define t6 where e6: "t6 = t5\<lparr>ovlps := (ovlps t5)(q \<mapsto> u\<lparr>ov_buf := Some (brk t3), ov_acceptsock := k\<rparr>)\<rparr>"
  have p6: "upd_ovlp (\<lambda>o1. o1\<lparr>ov_buf := Some (brk t3), ov_acceptsock := k\<rparr>) (Some q) t5 = Some t6"
    by (simp add: e6 e5 e4)
  have c6: "calls t6 = Sys_win Win_socket # calls s" "answers t6 = answers s" "srcs t6 = srcs s" "pdatas t6 = pdatas s"
    "idatas t6 = idatas s2" "ovlps t6 = (ovlps t3)(q \<mapsto> u\<lparr>ov_buf := Some (brk t3), ov_acceptsock := k\<rparr>)"
    "bufs t6 = (bufs s)(brk t3 \<mapsto> new_buf 256)" "brk t6 = brk t3 + 2" "ovlpcache t6 = ovlpcache t3" "novlpcache t6 = novlpcache t3"
    using f f1 by (simp_all add: e6 e5 e4 e2)
  define c where c: "c = Sys_win (Win_AcceptEx (src_fd s a) k (Some q))"
  obtain t where a6: "syscall c t6 = (w, t)" and e7: "sys_frame t6 t" "calls t = c # calls t6"
    by (rule syscall_at [of c t6]) (use c6(1,2) in \<open>simp add: answer_at_def kw\<close>)
  have c7: "calls t = c # calls t6" "answers t = answers t6" "srcs t = srcs t6" "pdatas t = pdatas t6"
    "idatas t = idatas t6" "ovlps t = ovlps t6" "bufs t = bufs t6" "brk t = brk t6" "ovlpcache t = ovlpcache t6"
    "novlpcache t = novlpcache t6"
    by (simp_all add: e7(2)) (subst e7(1) [unfolded sys_frame_def], simp)+
  have fd: "src_file_fd (Some a) t6 = Some (src_fd s a)"
    using src_file_fd_file [OF assms(2)] c6(3) by (simp add: src_file_fd_def get_src_def)
  have step: "accept_ex_loop (Suc n) (Some a) (Some p) r s = accept_ex_loop n (Some a) (Some p) (ans_ret w) t"
  proof -
    note eqs = a1 p2 q(1) p4 p5 p6 [unfolded kw] fd a6 [unfolded c kw]
    show ?thesis using assms(4) by (auto simp: accept_started_def eqs kw)
  qed
  show ?thesis
  proof (rule that [OF step [unfolded kw]])
    show "q \<in> set Q \<or> brk s \<le> q" using q(4) f1(6) by (cases Q) (simp_all add: e2)
    show "pending_accept t a (q, brk t3, ans_ret (answer_at s 0))"
      by (simp add: pending_accept_def c7 c6 u kw)
    show "ovlp_cache t (tl Q)" using q(5,6,9) by (auto simp: ovlp_cache_def ov_nx_ovlps c7 c6)
    show "brk s \<le> brk t3" "brk s \<le> brk t" "brk t3 < brk t" "q < brk t"
      using f(9) f1(6) q(9) by (simp_all add: c7 c6 e2)
    show "\<forall>x. x \<noteq> q \<longrightarrow> ovlps t x = ovlps s x" using q(7) f1(7) by (simp add: c7 c6 e2)
  qed (use q(5) in \<open>simp_all add: c7 c6 c kw e2\<close>)
qed

text \<open>The sockets that \<open>k\<close> rounds get, and the calls they make, newest first.\<close>

definition accept_socks :: "'z xworld \<Rightarrow> nat \<Rightarrow> int list" where
  "accept_socks s k = map (\<lambda>i. ans_ret (answer_at s (2 * i))) [0..<k]"

definition accept_calls :: "int \<Rightarrow> (addr \<times> addr \<times> int) list \<Rightarrow> syscall list" where
  "accept_calls fd ws = concat (map (\<lambda>(q, _, k). [Sys_win (Win_AcceptEx fd k (Some q)), Sys_win Win_socket]) (rev ws))"

lemma accept_socks_shift:
  assumes "answers t = answers s" "length (calls t) = length (calls s) + 2"
  shows "accept_socks s (Suc k) = ans_ret (answer_at s 0) # accept_socks t k"
proof -
  have "answer_at t i = answer_at s (i + 2)" for i using assms by (simp add: answer_at_def ac_simps)
  then show ?thesis by (simp add: accept_socks_def upt_conv_Cons map_Suc_upt [symmetric] o_def del: upt_Suc)
qed

lemma accept_loop_ok:
  assumes "ovlp_cache s Q" "file_src s a" "pdatas s p = Some d" "k \<le> n"
    and "\<forall>i<k. accept_started (answer_at s (2 * i)) (answer_at s (2 * i + 1))"
    and "k < n \<longrightarrow> ans_ret (answer_at s (2 * k)) = INVALID_SOCKET"
  shows "\<exists>s' r' ws. accept_ex_loop n (Some a) (Some p) r s = Some (r', s') \<and> map (snd \<circ> snd) ws = accept_socks s k \<and>
    distinct (map fst ws) \<and> distinct (map (fst \<circ> snd) ws) \<and> (\<forall>w \<in> set ws. pending_accept s' a w) \<and>
    (\<forall>(q, b, _) \<in> set ws. (q \<in> set Q \<or> brk s \<le> q) \<and> brk s \<le> b) \<and>
    accept_count (idatas s' p) = accept_count (idatas s p) + int k \<and> ovlp_cache s' (drop k Q) \<and>
    (\<forall>x. x \<notin> fst ` set ws \<longrightarrow> ovlps s' x = ovlps s x) \<and> (\<forall>x. x \<notin> (fst \<circ> snd) ` set ws \<longrightarrow> bufs s' x = bufs s x) \<and>
    calls s' = (if k < n then [Sys_win Win_socket] else []) @ accept_calls (src_fd s a) ws @ calls s \<and>
    srcs s' = srcs s \<and> pdatas s' = pdatas s \<and>
    (k < n \<longrightarrow> r' = ans_errno (answer_at s (2 * k)))"
  using assms
proof (induction k arbitrary: n s Q r)
  case 0
  show ?case
  proof (cases n)
    case 0
    with "0.prems"(1) show ?thesis
      by (intro exI [of _ s] exI [of _ r] exI [of _ "[]"]) (simp add: accept_socks_def accept_calls_def)
  next
    case (Suc m)
    obtain t where t: "syscall (Sys_win Win_socket) s = (answer_at s 0, t)" "sys_frame s t" "calls t = Sys_win Win_socket # calls s"
      by (rule syscall_at [of "Sys_win Win_socket" s]) (simp add: answer_at_def)
    have f: "ovlps t = ovlps s" "ovlpcache t = ovlpcache s" "novlpcache t = novlpcache s" "idatas t = idatas s"
      "bufs t = bufs s" "srcs t = srcs s" "pdatas t = pdatas s" "brk t = brk s"
      by (subst t(2) [unfolded sys_frame_def], simp)+
    let ?s' = "gwerr ''3DXlS'' t"
    have "accept_ex_loop n (Some a) (Some p) r s = Some (ans_errno (answer_at s 0), ?s')"
      using Suc "0.prems"(6) t(1) by simp
    moreover have "ovlp_cache ?s' Q" using "0.prems"(1) f by (simp add: ovlp_cache_def ov_nx_ovlps gwerr_def)
    ultimately show ?thesis using f t(3) Suc
      by (intro exI [of _ ?s'] exI [of _ "ans_errno (answer_at s 0)"] exI [of _ "[]"])
         (simp add: accept_socks_def accept_calls_def gwerr_def)
  qed
next
  case (Suc k)
  then obtain m where n: "n = Suc m" by (cases n) auto
  have "accept_started (answer_at s 0) (answer_at s 1)" using Suc.prems(5) by fastforce
  from accept_round [OF Suc.prems(1-3) this, of m r] obtain q b t where t:
    "accept_ex_loop (Suc m) (Some a) (Some p) r s = accept_ex_loop m (Some a) (Some p) (ans_ret (answer_at s 1)) t"
    "calls t = Sys_win (Win_AcceptEx (src_fd s a) (ans_ret (answer_at s 0)) (Some q)) # Sys_win Win_socket # calls s"
    "answers t = answers s" "srcs t = srcs s" "pdatas t = pdatas s"
    "idatas t = (idatas s)(p := (idatas s p)\<lparr>accept_count := accept_count (idatas s p) + 1\<rparr>)"
    "pending_accept t a (q, b, ans_ret (answer_at s 0))" "ovlp_cache t (tl Q)" "q \<notin> set (tl Q)"
    "q \<in> set Q \<or> brk s \<le> q" "q < brk t" "brk s \<le> b" "b < brk t" "brk s \<le> brk t"
    "\<forall>x. x \<noteq> q \<longrightarrow> ovlps t x = ovlps s x" "\<forall>x. x \<noteq> b \<longrightarrow> bufs t x = bufs s x" .
  have sh: "answer_at t i = answer_at s (i + 2)" for i using t(2,3) by (simp add: answer_at_def ac_simps)
  have v: "file_src t a" "pdatas t p = Some d" "k \<le> m" "src_fd t a = src_fd s a"
    using Suc.prems(2-4) t(4,5) n by (simp_all add: file_src_iff src_fd_def)
  have st: "\<forall>i<k. accept_started (answer_at t (2 * i)) (answer_at t (2 * i + 1))"
    using Suc.prems(5) by (auto simp: sh dest: spec [of _ "Suc _"])
  have sf: "k < m \<longrightarrow> ans_ret (answer_at t (2 * k)) = INVALID_SOCKET" using Suc.prems(6) n by (simp add: sh)
  obtain s' r' ws where s': "accept_ex_loop m (Some a) (Some p) (ans_ret (answer_at s 1)) t = Some (r', s')"
    "map (snd \<circ> snd) ws = accept_socks t k" "distinct (map fst ws)" "distinct (map (fst \<circ> snd) ws)"
    "\<forall>w \<in> set ws. pending_accept s' a w" "\<forall>(q, b, _) \<in> set ws. (q \<in> set (tl Q) \<or> brk t \<le> q) \<and> brk t \<le> b"
    "accept_count (idatas s' p) = accept_count (idatas t p) + int k" "ovlp_cache s' (drop k (tl Q))"
    "\<forall>x. x \<notin> fst ` set ws \<longrightarrow> ovlps s' x = ovlps t x" "\<forall>x. x \<notin> (fst \<circ> snd) ` set ws \<longrightarrow> bufs s' x = bufs t x"
    "calls s' = (if k < m then [Sys_win Win_socket] else []) @ accept_calls (src_fd t a) ws @ calls t"
    "srcs s' = srcs t" "pdatas s' = pdatas t" "k < m \<longrightarrow> r' = ans_errno (answer_at t (2 * k))"
    using Suc.IH [OF t(8) v(1-3) st sf, of "ans_ret (answer_at s 1)"] by blast
  let ?ws = "(q, b, ans_ret (answer_at s 0)) # ws"
  have nq: "q \<notin> fst ` set ws" "b \<notin> (fst \<circ> snd) ` set ws" using s'(6) t(9,11,13) by fastforce+
  have "pending_accept s' a (q, b, ans_ret (answer_at s 0))"
    using t(7) s'(9,10) nq by (simp add: pending_accept_def)
  moreover have "x \<in> set (tl Q) \<Longrightarrow> x \<in> set Q" for x by (cases Q) simp_all
  then have "\<forall>(q, b, _) \<in> set ?ws. (q \<in> set Q \<or> brk s \<le> q) \<and> brk s \<le> b"
    using s'(6) t(10,12,14) by (simp add: split_def) (meson order_trans)
  moreover have "map (snd \<circ> snd) ?ws = accept_socks s (Suc k)"
    using s'(2) t(2,3) by (simp add: accept_socks_shift [of t s])
  moreover have "calls s' = (if Suc k < n then [Sys_win Win_socket] else []) @ accept_calls (src_fd s a) ?ws @ calls s"
    using s'(11) n v(4) t(2) by (simp add: accept_calls_def)
  moreover have "\<forall>x. x \<notin> fst ` set ?ws \<longrightarrow> ovlps s' x = ovlps s x" using s'(9) t(15) by simp
  moreover have "\<forall>x. x \<notin> (fst \<circ> snd) ` set ?ws \<longrightarrow> bufs s' x = bufs s x" using s'(10) t(16) by simp
  moreover have "accept_count (idatas s' p) = accept_count (idatas s p) + int (Suc k)" using s'(7) t(6) by simp
  moreover have "accept_ex_loop n (Some a) (Some p) r s = Some (r', s')" using t(1) s'(1) n by (simp only:)
  moreover have "distinct (map fst ?ws)" "distinct (map (fst \<circ> snd) ?ws)" using s'(3,4) nq by simp_all
  moreover have "ovlp_cache s' (drop (Suc k) Q)" using s'(8) by (simp add: drop_Suc)
  moreover have "srcs s' = srcs s" "pdatas s' = pdatas s" "Suc k < n \<longrightarrow> r' = ans_errno (answer_at s (2 * Suc k))"
    using s'(12-14) t(4,5) n by (simp_all add: sh)
  moreover have "\<forall>w \<in> set ?ws. pending_accept s' a w" using s'(5) calculation(1) by simp
  ultimately show ?case by blast
qed

text \<open>
  C23: \<^verbatim>\<open>gwpr_accept\<close> keeps \<^verbatim>\<open>gwpr_max_accept\<close> accepts outstanding. For each that is missing it gets a
  socket, a structure (from the cache, then from memory) and a buffer, all different, and starts one
  accept with them, whether the accept is pending or done at once; then the count is at its maximum. When
  no socket is to be had it stops, with the count of those it has started, and returns the error.
\<close>
theorem accept_fills_pool:
  assumes "ovlp_cache s Q" "file_src s a" "has_pdata s a p d"
    and "n = nat (gwpr_max_accept (pr_options (pr_obj s)) - accept_count (idatas s p))" "k \<le> n"
    and "\<forall>i<k. accept_started (answer_at s (2 * i)) (answer_at s (2 * i + 1))"
    and "k < n \<longrightarrow> ans_ret (answer_at s (2 * k)) = INVALID_SOCKET"
  shows "\<exists>s' r ws. gwpr_accept_iocp (Some a) s = Some (r, s') \<and> map (snd \<circ> snd) ws = accept_socks s k \<and>
    distinct (map fst ws) \<and> distinct (map (fst \<circ> snd) ws) \<and> (\<forall>w \<in> set ws. pending_accept s' a w) \<and>
    accept_count (idatas s' p) = accept_count (idatas s p) + int k \<and>
    (k = n \<and> accept_count (idatas s p) \<le> gwpr_max_accept (pr_options (pr_obj s)) \<longrightarrow>
      accept_count (idatas s' p) = gwpr_max_accept (pr_options (pr_obj s))) \<and>
    ovlp_cache s' (drop k Q) \<and> (\<forall>x. x \<notin> fst ` set ws \<longrightarrow> ovlps s' x = ovlps s x) \<and>
    calls s' = (if k < n then [Sys_win Win_socket] else []) @ accept_calls (src_fd s a) ws @ calls s \<and>
    (k < n \<longrightarrow> r = ans_errno (answer_at s (2 * k)))"
proof -
  have pd: "src_pdata (Some a) s = Some (Some p)" "pdatas s p = Some d" using assms(3) by (simp_all add: has_pdata_def)
  then have "gwpr_accept_iocp (Some a) s = accept_ex_loop n (Some a) (Some p) 0 s"
    using assms(4) by (simp add: gwpr_accept_iocp_def)
  moreover have "k = n \<and> accept_count (idatas s p) \<le> gwpr_max_accept (pr_options (pr_obj s)) \<longrightarrow>
      accept_count (idatas s p) + int k = gwpr_max_accept (pr_options (pr_obj s))" using assms(4) by auto
  ultimately show ?thesis using accept_loop_ok [OF assms(1,2) pd(2) assms(5-7), of 0] by (elim exE conjE) auto
qed

subsection \<open>Reading\<close>





















subsection \<open>Witnesses\<close>

text \<open>A source with a read outstanding (structure 31, buffer 41), one structure in the cache, two accepts allowed.\<close>

definition iocp_world :: "(nat \<Rightarrow> answer) \<Rightarrow> gwrlbkd_iocp iworld" where
  "iocp_world A = pworld.extend
     (world.extend
       ((blank_world \<lparr>iocp = 9, AcceptEx = True, ConnectEx = True\<rparr>)\<lparr>
          rl := (zero_gwrl \<lparr>iocp = 9, AcceptEx = True, ConnectEx = True\<rparr>)\<lparr>sources := [Some 7, None], rl_pr := Some 50\<rparr>,
          brk := 100, answers := A,
          srcs := [7 \<mapsto> file_src_on 7 GWRL_RD None\<lparr>src_part := File_part \<lparr>file_fd = 7, file_pfd = None, file_pdata = Some 21\<rparr>\<rparr>],
          evts := [45 \<mapsto> zero_evt\<lparr>evt_flags := GWRL_IOCP, evt_src := Some 7, evt_userdata := Some 31\<rparr>]\<rparr>)
       (pworld.fields (zero_gwpr\<lparr>pr_options := GWPR_DEFAULT_OPTIONS\<lparr>gwpr_max_accept := 2\<rparr>\<rparr>) Map.empty
         [41 \<mapsto> new_buf 4] [21 \<mapsto> zero_pdata\<lparr>rdbufsize := 512, didreadcb := Some (Fn_user 1)\<rparr>] Map.empty 0))
     (iworld.fields
       [31 \<mapsto> zero_ovlp\<lparr>ov_op := gwpr_ovlp_op_recv, ov_src := Some 7, ov_buf := Some 41\<rparr>, 32 \<mapsto> zero_ovlp]
       (Some 32) 1 (\<lambda>_. \<lparr>accept_count = 0, rdovlp = Some 31\<rparr>))"

lemmas iocp_world_defs = iocp_world_def world.defs pworld.defs iworld.defs blank_world_def zero_gwrl_def

lemma iocp_world_ok:
  "evts_inv (iocp_world A) [] []" "ovlp_cache (iocp_world A) [32]" "file_src (iocp_world A) 7"
  "has_pdata (iocp_world A) 7 21 (zero_pdata\<lparr>rdbufsize := 512, didreadcb := Some (Fn_user 1)\<rparr>)"
  "src_fd (iocp_world A) 7 = 7" "src_fl (iocp_world A) 7 = GWRL_RD" "answer_at (iocp_world A) i = A i"
  by (auto simp: evts_inv_def cache_ok_def fresh_ok_def ovlp_cache_def ov_nx_iff zero_ovlp_def file_src_iff
      has_pdata_def src_pdata_def as_file_def src_fd_def src_fl_def file_src_on_def src_type_defs answer_at_def
      iocp_world_defs)


theorem accept_fills_pool_witness:
  "\<exists>s' r ws. gwpr_accept_iocp (Some 7) (iocp_world (\<lambda>n. if even n then ok_answer (int n + 8) else (ok_answer 0)\<lparr>ans_errno := 997\<rparr>)) = Some (r, s') \<and>
    map (snd \<circ> snd) ws = [8, 10] \<and> (\<forall>w \<in> set ws. pending_accept s' 7 w) \<and> accept_count (idatas s' 21) = 2"
proof -
  let ?A = "\<lambda>n. if even n then ok_answer (int n + 8) else (ok_answer 0)\<lparr>ans_errno := 997\<rparr>"
  let ?s = "iocp_world ?A"
  have c: "gwpr_max_accept (pr_options (pr_obj ?s)) = 2" "accept_count (idatas ?s 21) = 0" by (simp_all add: iocp_world_defs)
  have so: "accept_socks ?s 2 = [8, 10]" by (simp add: accept_socks_def iocp_world_ok(7) ok_answer_def numeral_2_eq_2)
  have st: "\<forall>i<2. accept_started (answer_at ?s (2 * i)) (answer_at ?s (2 * i + 1))"
    by (simp add: iocp_world_ok(7) accept_started_def ok_answer_def win_defs)
  have n: "2 = nat (gwpr_max_accept (pr_options (pr_obj ?s)) - accept_count (idatas ?s 21))" by (simp add: c)
  obtain s' r ws where "gwpr_accept_iocp (Some 7) ?s = Some (r, s')" "map (snd \<circ> snd) ws = accept_socks ?s 2"
    "\<forall>w \<in> set ws. pending_accept s' 7 w" "accept_count (idatas s' 21) = accept_count (idatas ?s 21) + int 2"
    using accept_fills_pool [OF iocp_world_ok(2-4) n order_refl st] by blast
  then show ?thesis unfolding so c(2) by (intro exI [of _ s'] exI [of _ r] exI [of _ ws]) simp
qed


end
