(* ===== verification/Gw_Filetime.thy ===== *)
theory Gw_Filetime
  imports Gw_State
begin

section \<open>The clock on Windows (\<^verbatim>\<open>src/gwrl/gettimeofday.c\<close>)\<close>

text \<open>
  The replacement of \<^verbatim>\<open>gettimeofday\<close> for Windows. The system's time is a 64-bit count of 100 nanoseconds
  since 1601, given in two halves; \<^verbatim>\<open>long\<close> has 32 bits. What \<^verbatim>\<open>GetSystemTimeAsFileTime\<close>,
  \<^verbatim>\<open>_get_timezone\<close> and \<^verbatim>\<open>_get_daylight\<close> return are arguments.
\<close>

record tz_info =
  tz_minuteswest :: int
  tz_dsttime :: int

definition DELTA_EPOCH_IN_MICROSECS :: "64 word" where
  "DELTA_EPOCH_IN_MICROSECS = 11644473600000000"

text \<open>The conversion of an \<^verbatim>\<open>unsigned __int64\<close> to \<^verbatim>\<open>long\<close>.\<close>

definition as_long :: "64 word \<Rightarrow> int" where
  "as_long w = sint (ucast w :: 32 word)"

definition filetime_to_timeval :: "32 word \<Rightarrow> 32 word \<Rightarrow> timeval" where
  "filetime_to_timeval dwHighDateTime dwLowDateTime =
     (let tmpres = (0 :: 64 word);
          tmpres = tmpres OR ucast dwHighDateTime;
          tmpres = push_bit 32 tmpres;
          tmpres = tmpres OR ucast dwLowDateTime;
          tmpres = tmpres div 10;
          tmpres = tmpres - DELTA_EPOCH_IN_MICROSECS
      in \<lparr>tv_sec = as_long (tmpres div 1000000), tv_usec = as_long (tmpres mod 1000000)\<rparr>)"

text \<open>A null pointer is \<open>None\<close>; the result is 0 and what the pointers point to.\<close>

definition gettimeofday_win ::
    "timeval option \<Rightarrow> tz_info option \<Rightarrow> 32 word \<Rightarrow> 32 word \<Rightarrow> int \<Rightarrow> int
     \<Rightarrow> int \<times> timeval option \<times> tz_info option" where
  "gettimeofday_win tv tz dwHighDateTime dwLowDateTime tzdiff tzdaylight =
     (0, map_option (\<lambda>_. filetime_to_timeval dwHighDateTime dwLowDateTime) tv,
      map_option (\<lambda>_. \<lparr>tz_minuteswest = tzdiff sdiv 60, tz_dsttime = tzdaylight\<rparr>) tz)"

text \<open>The count in 100 nanoseconds.\<close>

definition filetime :: "32 word \<Rightarrow> 32 word \<Rightarrow> nat" where
  "filetime h l = unat h * 2 ^ 32 + unat l"

definition epoch_filetime :: nat where "epoch_filetime = 116444736000000000"

lemma filetime_word:
  "push_bit 32 ((0 :: 64 word) OR ucast (h :: 32 word)) OR ucast (l :: 32 word) = word_of_nat (filetime h l)"
proof -
  have "push_bit 32 (ucast h :: 64 word) OR ucast l = push_bit 32 (ucast h) + ucast l"
    by (rule disjunctive_add_eq_or [symmetric]) (auto simp: bit_eq_iff bit_simps dest: bit_imp_le_length)
  also have "\<dots> = word_of_nat (filetime h l)"
    by (simp add: filetime_def push_bit_eq_mult word_of_nat_eq_iff flip: ucast_eq)
  finally show ?thesis by simp
qed

lemma filetime_less: "filetime h l < 2 ^ 64"
  using unsigned_less [of h, where 'a = nat] unsigned_less [of l, where 'a = nat] by (simp add: filetime_def)

text \<open>The microseconds since 1970, and the value of both fields.\<close>

lemma wrap_mod:
  assumes "0 \<le> x" "x < (2 :: int) ^ 32"
  shows "(x + 2 ^ 31) mod 2 ^ 32 - 2 ^ 31 = (if x < 2 ^ 31 then x else x - 2 ^ 32)"
proof (cases "x < 2 ^ 31")
  case False
  then have "(x + 2 ^ 31) mod 2 ^ 32 = (x - 2 ^ 31) mod 2 ^ 32"
    using minus_mod_self2 [of "x + 2 ^ 31" "2 ^ 32"] by simp
  with False assms show ?thesis by simp
qed (use assms in simp)

lemma as_long_value:
  assumes "unat w < 2 ^ 32"
  shows "as_long w = (if unat w < 2 ^ 31 then int (unat w) else int (unat w) - 2 ^ 32)"
proof -
  define x where "x = int (unat w)"
  have "as_long w = (x + 2 ^ 31) mod 2 ^ 32 - 2 ^ 31"
    unfolding as_long_def ucast_eq x_def by (simp only: int_word_sint uint_nat) simp
  moreover have "0 \<le> x" "x < 2 ^ 32" "unat w < 2 ^ 31 \<longleftrightarrow> x < 2 ^ 31"
    using assms by (simp_all only: x_def of_nat_less_iff [where 'a = int, symmetric] of_nat_power of_nat_numeral of_nat_0_le_iff)
  ultimately show ?thesis using wrap_mod [of x] by (simp only: x_def)
qed

lemma filetime_micros:
  assumes "epoch_filetime \<le> filetime h l"
  shows "unat (word_of_nat (filetime h l) div 10 - DELTA_EPOCH_IN_MICROSECS) = (filetime h l - epoch_filetime) div 10"
proof -
  have u: "unat (word_of_nat (filetime h l) div 10 :: 64 word) = filetime h l div 10"
    using filetime_less [of h l] by (simp add: unat_div unat_of_nat)
  have d: "unat DELTA_EPOCH_IN_MICROSECS = 11644473600000000" by (simp add: DELTA_EPOCH_IN_MICROSECS_def)
  have "DELTA_EPOCH_IN_MICROSECS \<le> word_of_nat (filetime h l) div 10"
    using assms by (simp only: word_le_nat_alt u d) (simp add: epoch_filetime_def)
  then show ?thesis using assms by (simp add: unat_sub u d epoch_filetime_def)
qed

lemma filetime_fields:
  assumes "epoch_filetime \<le> filetime h l" "m = (filetime h l - epoch_filetime) div 10" "m div 1000000 < 2 ^ 32"
  shows "filetime_to_timeval h l =
    \<lparr>tv_sec = (if m div 1000000 < 2 ^ 31 then int (m div 1000000) else int (m div 1000000) - 2 ^ 32),
     tv_usec = int (m mod 1000000)\<rparr>"
proof -
  let ?w = "word_of_nat (filetime h l) div 10 - DELTA_EPOCH_IN_MICROSECS"
  have w: "unat ?w = m" using filetime_micros [OF assms(1)] assms(2) by simp
  have q: "unat (?w div 1000000) = m div 1000000" "unat (?w mod 1000000) = m mod 1000000"
    by (simp_all add: unat_div unat_mod w)
  have r: "m mod 1000000 < 2 ^ 31" using mod_less_divisor [of 1000000 m] by simp
  have "filetime_to_timeval h l = \<lparr>tv_sec = as_long (?w div 1000000), tv_usec = as_long (?w mod 1000000)\<rparr>"
    by (simp only: filetime_to_timeval_def Let_def filetime_word)
  with assms(3) r show ?thesis by (simp add: as_long_value q)
qed

text \<open>
  C36: the clock for Windows. For every system time from 1970 on and before \<open>2 ^ 31\<close> seconds later (in
  2038) the value is exact to the microsecond and in normal form, so that a reactor whose clock
  it is meets what the timers ask of a clock; in the \<open>2 ^ 31\<close> seconds after that the seconds are negative, off by
  \<open>2 ^ 32\<close>. The zone is filled in only when it is asked for.
\<close>
theorem gettimeofday_win_exact:
  assumes "epoch_filetime \<le> filetime h l" "filetime h l < epoch_filetime + 2 ^ 32 * 10 ^ 7"
  shows "\<exists>tv. gettimeofday_win (Some tv0) tz h l diff dl =
      (0, Some tv, map_option (\<lambda>_. \<lparr>tz_minuteswest = diff sdiv 60, tz_dsttime = dl\<rparr>) tz) \<and> tv_normal tv \<and>
    (if filetime h l < epoch_filetime + 2 ^ 31 * 10 ^ 7
     then 0 \<le> tv_sec tv \<and> tv_sec tv * 1000000 + tv_usec tv = int ((filetime h l - epoch_filetime) div 10) \<and>
       (\<forall>s :: ('b, 'z) world_scheme. clock_ok s \<longrightarrow> clock_ok (s\<lparr>tod := (tod s)(nclk s := tv)\<rparr>))
     else tv_sec tv < 0 \<and> (tv_sec tv + 2 ^ 32) * 1000000 + tv_usec tv = int ((filetime h l - epoch_filetime) div 10))"
proof -
  let ?m = "(filetime h l - epoch_filetime) div 10" and ?tv = "filetime_to_timeval h l"
  have b: "?m div 1000000 < 2 ^ 32" using assms by (simp add: div_mult2_eq [symmetric])
  have e: "int (?m div 1000000) * 1000000 + int (?m mod 1000000) = int ?m"
    by (metis div_mult_mod_eq of_nat_add of_nat_mult of_nat_numeral)
  have c: "?m div 1000000 < 2 ^ 31 \<longleftrightarrow> filetime h l < epoch_filetime + 2 ^ 31 * 10 ^ 7"
    using assms by (simp add: div_mult2_eq [symmetric]) linarith
  note f = filetime_fields [OF assms(1) refl b]
  have n: "tv_normal ?tv" by (simp add: f tv_normal_def)
  have "gettimeofday_win (Some tv0) tz h l diff dl =
      (0, Some ?tv, map_option (\<lambda>_. \<lparr>tz_minuteswest = diff sdiv 60, tz_dsttime = dl\<rparr>) tz)"
    by (simp add: gettimeofday_win_def)
  moreover have "0 \<le> tv_sec ?tv \<and> tv_sec ?tv * 1000000 + tv_usec ?tv = int ?m \<and>
      (\<forall>s :: ('b, 'z) world_scheme. clock_ok s \<longrightarrow> clock_ok (s\<lparr>tod := (tod s)(nclk s := ?tv)\<rparr>))"
    if "filetime h l < epoch_filetime + 2 ^ 31 * 10 ^ 7"
    using that e b n c by (auto simp: f clock_ok_def)
  moreover have "tv_sec ?tv < 0 \<and> (tv_sec ?tv + 2 ^ 32) * 1000000 + tv_usec ?tv = int ?m"
    if "\<not> filetime h l < epoch_filetime + 2 ^ 31 * 10 ^ 7"
    using that e b c by (auto simp: f)
  ultimately show ?thesis using n by (intro exI [of _ ?tv]) simp
qed

theorem gettimeofday_win_exact_witness:
  "\<exists>tv. gettimeofday_win (Some \<lparr>tv_sec = 0, tv_usec = 0\<rparr>) None 29998492 2577874944 0 0 = (0, Some tv, None) \<and> tv_normal tv \<and>
    tv_sec tv * 1000000 + tv_usec tv = int ((29998492 * 2 ^ 32 + 2577874944 - 116444736000000000) div 10)"
proof -
  have f: "filetime 29998492 2577874944 = 29998492 * 2 ^ 32 + 2577874944" by (simp add: filetime_def)
  show ?thesis
    using gettimeofday_win_exact [of 29998492 2577874944 "\<lparr>tv_sec = 0, tv_usec = 0\<rparr>" None 0 0]
    by (auto simp: f epoch_filetime_def)
qed

end
