(* ===== verification/Gw_Lock.thy ===== *)
theory Gw_Lock
  imports Gw_Queues
begin

section \<open>Locks and interleaving (\<^verbatim>\<open>src/gwrl/lock.c\<close>)\<close>

text \<open>
  The spin locks, and the critical sections of \<^verbatim>\<open>gwrl_post_evt_safely\<close> and \<^verbatim>\<open>gwrl_src_add_safely\<close>
  statement by statement. A state machine interleaves the statements of any number of threads; the
  locale \<open>locked_sections\<close> shows that what they do together is what they do one after the other,
  in the order in which they took the lock, that no state is stuck and that every run ends. Its
  interpretations on the two queues justify that elsewhere a critical section is one step.
\<close>

subsection \<open>The lock\<close>

text \<open>
  The thread that holds the lock. A thread that finds it taken waits: \<open>lockid_lock\<close> has no result, and
  its step is not possible. To release a lock one does not hold is undefined.
\<close>

type_synonym thread = nat

type_synonym lockid_t = "thread option"

definition lockid_init :: lockid_t where
  "lockid_init = None"

definition lockid_lock :: "thread \<Rightarrow> lockid_t \<Rightarrow> lockid_t option" where
  "lockid_lock t lk = (if lk = None then Some (Some t) else None)"

definition lockid_unlock :: "thread \<Rightarrow> lockid_t \<Rightarrow> lockid_t option" where
  "lockid_unlock t lk = (if lk = Some t then Some None else None)"

subsection \<open>Critical sections\<close>

text \<open>A statement works on the thread's variable and on the memory that all threads share.\<close>

type_synonym ('l, 's) stmt = "'l \<times> 's \<Rightarrow> ('l \<times> 's) option"

text \<open>\<open>lockid_free\<close> destroys the lock: no thread may hold it.\<close>

definition lockid_free :: "lockid_t \<Rightarrow> unit option" where
  "lockid_free lk = (if lk = None then Some () else None)"

definition post_section :: "addr \<Rightarrow> (ptr, ('b, 'z) world_scheme) stmt list" where
  "post_section evt =
     [\<lambda>(head, s). Some (qevt (rl s), s),
      \<lambda>(head, s). do { s \<leftarrow> upd_evt (\<lambda>e. e\<lparr>evt_next := (if head \<noteq> None then head else None)\<rparr>) (Some evt) s; Some (head, s) },
      \<lambda>(head, s). Some (head, s\<lparr>rl := (rl s)\<lparr>qevt := Some evt\<rparr>\<rparr>)]"

definition add_section :: "addr \<Rightarrow> (ptr, ('b, 'z) world_scheme) stmt list" where
  "add_section src =
     [\<lambda>(head, s). Some (qsrc (rl s), s),
      \<lambda>(head, s). do { s \<leftarrow> upd_src (\<lambda>o1. o1\<lparr>src_next := (if head \<noteq> None then head else None)\<rparr>) (Some src) s; Some (head, s) },
      \<lambda>(head, s). Some (head, s\<lparr>rl := (rl s)\<lparr>qsrc := Some src\<rparr>\<rparr>)]"

fun run_stmts :: "('l, 's) stmt list \<Rightarrow> ('l, 's) stmt" where
  "run_stmts [] x = Some x"
| "run_stmts (st # sts) x = do { y \<leftarrow> st x; run_stmts sts y }"

text \<open>The functions are their sections in one go, then the wake.\<close>

lemma post_safely_section:
  "gwrl_post_evt_safely (Some a) s = run_stmts (post_section a) (None, s) \<bind> (\<lambda>(_, s). gwrl_wake s)"
  by (simp add: gwrl_post_evt_safely_def post_section_def upd_evt_def split: Option.bind_splits)

lemma add_safely_section:
  "gwrl_src_add_safely (Some a) s = run_stmts (add_section a) (None, s) \<bind> (\<lambda>(_, s). gwrl_wake s)"
  by (simp add: gwrl_src_add_safely_def add_section_def upd_src_def split: Option.bind_splits)

subsection \<open>Interleaving\<close>

datatype 'l tpc = Before | Inside nat 'l | After

record ('l, 's) machine =
  lk :: lockid_t
  mem :: 's
  pc :: "thread \<Rightarrow> 'l tpc"

text \<open>
  A thread takes the lock, executes the statements of its section one by one, and releases the lock.
  What threads do outside of their sections is a free step.
\<close>

inductive lock_step ::
    "(thread \<Rightarrow> ('l, 's) stmt list) \<Rightarrow> 'l \<Rightarrow> ('s \<Rightarrow> 's \<Rightarrow> bool) \<Rightarrow> ('l, 's) machine \<Rightarrow> ('l, 's) machine \<Rightarrow> bool"
  for sec l0 free where
  step_lock: "pc c t = Before \<Longrightarrow> lockid_lock t (lk c) = Some k \<Longrightarrow>
     lock_step sec l0 free c (c\<lparr>lk := k, pc := (pc c)(t := Inside 0 l0)\<rparr>)"
| step_stmt: "pc c t = Inside i l \<Longrightarrow> i < length (sec t) \<Longrightarrow> (sec t ! i) (l, mem c) = Some (l', m) \<Longrightarrow>
     lock_step sec l0 free c (c\<lparr>mem := m, pc := (pc c)(t := Inside (Suc i) l')\<rparr>)"
| step_unlock: "pc c t = Inside (length (sec t)) l \<Longrightarrow> lockid_unlock t (lk c) = Some k \<Longrightarrow>
     lock_step sec l0 free c (c\<lparr>lk := k, pc := (pc c)(t := After)\<rparr>)"
| step_free: "free (mem c) m \<Longrightarrow> lock_step sec l0 free c (c\<lparr>mem := m\<rparr>)"

text \<open>The specification: whole sections, in some order.\<close>

inductive atom_step ::
    "(thread \<Rightarrow> ('l, 's) stmt list) \<Rightarrow> 'l \<Rightarrow> ('s \<Rightarrow> 's \<Rightarrow> bool) \<Rightarrow> 's \<times> thread list \<Rightarrow> 's \<times> thread list \<Rightarrow> bool"
  for sec l0 free where
  atom_section: "t \<notin> set ts \<Longrightarrow> run_stmts (sec t) (l0, m) = Some (l, m') \<Longrightarrow>
     atom_step sec l0 free (m, ts) (m', ts @ [t])"
| atom_free: "free m m' \<Longrightarrow> atom_step sec l0 free (m, ts) (m', ts)"

inductive_cases lock_stepE: "lock_step sec l0 free c c'"

text \<open>Conversely a whole section is a run, when the lock is free.\<close>

lemma stmts_run:
  assumes "pc c t = Inside i l" "i \<le> length (sec t)" "run_stmts (drop i (sec t)) (l, mem c) = Some (l', m)"
  shows "((lock_step sec l0 free) ^^ (length (sec t) - i)) c (c\<lparr>mem := m, pc := (pc c)(t := Inside (length (sec t)) l')\<rparr>)"
  using assms
proof (induction "length (sec t) - i" arbitrary: c i l)
  case 0
  then have "i = length (sec t)" "l' = l" "m = mem c" by auto
  moreover from this 0 have "(pc c)(t := Inside (length (sec t)) l') = pc c" by (metis fun_upd_triv)
  ultimately show ?case by simp
next
  case (Suc n)
  then have lt: "i < length (sec t)" by simp
  then have d: "drop i (sec t) = sec t ! i # drop (Suc i) (sec t)" by (rule Cons_nth_drop_Suc [symmetric])
  then obtain l1 m1 where 1: "(sec t ! i) (l, mem c) = Some (l1, m1)"
      "run_stmts (drop (Suc i) (sec t)) (l1, m1) = Some (l', m)"
    using Suc.prems(3) by (auto split: Option.bind_splits)
  let ?c1 = "c\<lparr>mem := m1, pc := (pc c)(t := Inside (Suc i) l1)\<rparr>"
  have "lock_step sec l0 free c ?c1" using Suc.prems(1) lt 1(1) by (rule step_stmt)
  moreover have "((lock_step sec l0 free) ^^ (length (sec t) - Suc i)) ?c1
      (c\<lparr>mem := m, pc := (pc c)(t := Inside (length (sec t)) l')\<rparr>)"
    using Suc.hyps(1) [of "Suc i" ?c1 l1] Suc.hyps(2) lt 1(2) by simp
  moreover have "length (sec t) - i = Suc (length (sec t) - Suc i)" using lt by simp
  ultimately show ?case by (simp only:) (rule relpowp_Suc_I2)
qed

lemma section_run:
  assumes "lk c = None" "pc c t = Before" "run_stmts (sec t) (l0, mem c) = Some (l, m)" "n = length (sec t) + 2"
  shows "((lock_step sec l0 free) ^^ n) c (c\<lparr>mem := m, pc := (pc c)(t := After)\<rparr>)"
proof -
  let ?c1 = "c\<lparr>lk := Some t, pc := (pc c)(t := Inside 0 l0)\<rparr>"
  let ?c2 = "?c1\<lparr>mem := m, pc := (pc ?c1)(t := Inside (length (sec t)) l)\<rparr>"
  let ?c3 = "c\<lparr>mem := m, pc := (pc c)(t := After)\<rparr>"
  have 1: "lock_step sec l0 free c ?c1" using assms(1,2) by (auto simp: lockid_lock_def intro: step_lock)
  have 2: "((lock_step sec l0 free) ^^ length (sec t)) ?c1 ?c2"
    using stmts_run [of ?c1 t 0 l0 sec l m] assms(3) by simp
  have "lock_step sec l0 free ?c2 (?c2\<lparr>lk := None, pc := (pc ?c2)(t := After)\<rparr>)"
    by (rule step_unlock) (simp_all add: lockid_unlock_def)
  moreover have "?c2\<lparr>lk := None, pc := (pc ?c2)(t := After)\<rparr> = ?c3" using assms(1) by (cases c) simp
  ultimately have 3: "lock_step sec l0 free ?c2 ?c3" by (simp only:)
  note run = relpowp_Suc_I [where P = "lock_step sec l0 free"] relpowp_Suc_I2 [where P = "lock_step sec l0 free"]
  show ?thesis using run(2) [OF 1 run(1) [OF 2 3]] assms(4) by simp
qed

text \<open>All threads of \<open>T\<close> are about to enter.\<close>

definition lock_start :: "thread set \<Rightarrow> 's \<Rightarrow> ('l, 's) machine" where
  "lock_start T s = \<lparr>lk = lockid_init, mem = s, pc = (\<lambda>t. if t \<in> T then Before else After)\<rparr>"

locale locked_sections =
  fixes T :: "thread set"
    and sec :: "thread \<Rightarrow> ('l, 's) stmt list"
    and l0 :: 'l
    and free :: "'s \<Rightarrow> 's \<Rightarrow> bool"
    and ok :: "'s \<Rightarrow> bool"
  assumes free_law: "t \<in> T \<Longrightarrow> st \<in> set (sec t) \<Longrightarrow> free s s' \<Longrightarrow> st (l, s) = Some (l', u) \<Longrightarrow>
      \<exists>u'. st (l, s') = Some (l', u') \<and> free u u'"
    and free_ok: "ok s \<Longrightarrow> free s s' \<Longrightarrow> ok s'"
    and sec_ok: "ok s \<Longrightarrow> t \<in> T \<Longrightarrow> \<exists>l s'. run_stmts (sec t) (l0, s) = Some (l, s') \<and> ok s'"
begin

lemma free_run:
  assumes "t \<in> T" "set sts \<subseteq> set (sec t)" "free s s'" "run_stmts sts (l, s) = Some (l', u)"
  shows "\<exists>u'. run_stmts sts (l, s') = Some (l', u') \<and> free u u'"
  using assms(2-4)
proof (induction sts arbitrary: l s s')
  case Nil
  then show ?case by simp
next
  case (Cons st sts)
  then obtain l1 s1 where 1: "st (l, s) = Some (l1, s1)" "run_stmts sts (l1, s1) = Some (l', u)"
    by (auto split: Option.bind_splits)
  have "st \<in> set (sec t)" using Cons.prems(1) by simp
  then obtain s1' where s1': "st (l, s') = Some (l1, s1')" "free s1 s1'"
    using free_law [OF assms(1)] Cons.prems(2) 1(1) by blast
  from Cons.IH [OF _ s1'(2) 1(2)] Cons.prems(1) s1'(1) show ?case by simp
qed

text \<open>
  The invariant. \<open>m\<close> is the memory as it is when the section of the holder, if there is one, has
  been completed; \<open>ts\<close> are the threads that have entered, in order.
\<close>

definition serial :: "'s \<Rightarrow> ('l, 's) machine \<Rightarrow> 's \<Rightarrow> thread list \<Rightarrow> bool" where
  "serial s c m ts \<longleftrightarrow> (atom_step sec l0 free)\<^sup>*\<^sup>* (s, []) (m, ts) \<and> distinct ts \<and> ok m \<and>
     set ts = {t \<in> T. pc c t \<noteq> Before} \<and> (\<forall>t. t \<notin> T \<longrightarrow> pc c t = After) \<and>
     (\<forall>t i l. pc c t = Inside i l \<longrightarrow> lk c = Some t) \<and>
     (case lk c of None \<Rightarrow> mem c = m
      | Some t \<Rightarrow> \<exists>i l l'. pc c t = Inside i l \<and> i \<le> length (sec t) \<and>
          run_stmts (drop i (sec t)) (l, mem c) = Some (l', m))"

lemma serial_start:
  assumes "ok s"
  shows "serial s (lock_start T s) s []"
  using assms by (auto simp: serial_def lock_start_def lockid_init_def)

lemma serial_holder: "serial s c m ts \<Longrightarrow> pc c t = Inside i l \<Longrightarrow> lk c = Some t"
  unfolding serial_def by blast

lemma serial_inside:
  assumes "serial s c m ts" "lk c = Some t"
  obtains i l l' where "pc c t = Inside i l" "i \<le> length (sec t)" "t \<in> T"
    "run_stmts (drop i (sec t)) (l, mem c) = Some (l', m)"
proof -
  obtain i l l' where i: "pc c t = Inside i l" "i \<le> length (sec t)" "run_stmts (drop i (sec t)) (l, mem c) = Some (l', m)"
    using assms by (auto simp: serial_def)
  have "t \<in> T" using assms(1) i(1) by (force simp: serial_def)
  with i that show ?thesis by blast
qed

lemma serial_step:
  assumes "serial s c m ts" "lock_step sec l0 free c c'"
  shows "\<exists>m' ts'. serial s c' m' ts'"
  using assms(2)
proof (cases rule: lock_step.cases)
  case (step_lock t k)
  note inv = assms(1) [unfolded serial_def]
  have tT: "t \<in> T" using inv step_lock(2) by (metis tpc.distinct(3))
  have free_lk: "lk c = None" "k = Some t" using step_lock(3) by (auto simp: lockid_lock_def split: if_splits)
  then have mem: "mem c = m" using inv by simp
  obtain l m' where r: "run_stmts (sec t) (l0, m) = Some (l, m')" "ok m'" using sec_ok inv tT by blast
  have nt: "t \<notin> set ts" using inv step_lock(2) by blast
  then have "atom_step sec l0 free (m, ts) (m', ts @ [t])" using r(1) by (rule atom_section)
  with inv have "(atom_step sec l0 free)\<^sup>*\<^sup>* (s, []) (m', ts @ [t])" by (blast intro: rtranclp.rtrancl_into_rtrancl)
  then have "serial s c' m' (ts @ [t])"
    using inv step_lock(1) free_lk nt tT r mem by (auto simp: serial_def)
  then show ?thesis by blast
next
  case (step_stmt t i l l' m1)
  note inv = assms(1) [unfolded serial_def]
  have lk: "lk c = Some t" using serial_holder [OF assms(1) step_stmt(2)] .
  then obtain l2 where r: "run_stmts (drop i (sec t)) (l, mem c) = Some (l2, m)"
    using serial_inside [OF assms(1)] step_stmt(2) by force
  have "drop i (sec t) = sec t ! i # drop (Suc i) (sec t)" using step_stmt(3) by (rule Cons_nth_drop_Suc [symmetric])
  then have "run_stmts (drop (Suc i) (sec t)) (l', m1) = Some (l2, m)" using r step_stmt(4) by simp
  then have "serial s c' m ts"
    using inv step_stmt lk by (auto simp: serial_def split: if_splits)
  then show ?thesis by blast
next
  case (step_unlock t l k)
  note inv = assms(1) [unfolded serial_def]
  have lk: "lk c = Some t" "k = None" using step_unlock(3) by (auto simp: lockid_unlock_def split: if_splits)
  then have "mem c = m" using serial_inside [OF assms(1)] step_unlock(2) by force
  moreover have "\<forall>t' i l. t' \<noteq> t \<longrightarrow> pc c t' \<noteq> Inside i l" using serial_holder [OF assms(1)] lk by auto
  ultimately have "serial s c' m ts" using inv step_unlock lk by (auto simp: serial_def split: if_splits)
  then show ?thesis by blast
next
  case (step_free m1)
  note inv = assms(1) [unfolded serial_def]
  show ?thesis
  proof (cases "lk c")
    case None
    then have m: "mem c = m" using inv by simp
    then have "atom_step sec l0 free (m, ts) (m1, ts)" using step_free(2) by (simp add: atom_free)
    with inv have "(atom_step sec l0 free)\<^sup>*\<^sup>* (s, []) (m1, ts)" by (blast intro: rtranclp.rtrancl_into_rtrancl)
    moreover have "ok m1" using inv step_free(2) m free_ok by blast
    ultimately have "serial s c' m1 ts" using inv step_free(1) None by (auto simp: serial_def)
    then show ?thesis by blast
  next
    case (Some t)
    then obtain i l l' where r: "pc c t = Inside i l" "i \<le> length (sec t)" "t \<in> T"
      "run_stmts (drop i (sec t)) (l, mem c) = Some (l', m)" by (rule serial_inside [OF assms(1)])
    obtain m' where m': "run_stmts (drop i (sec t)) (l, m1) = Some (l', m')" "free m m'"
      using free_run [OF r(3) set_drop_subset step_free(2) r(4)] by blast
    then have "(atom_step sec l0 free)\<^sup>*\<^sup>* (s, []) (m', ts)"
      using inv by (blast intro: rtranclp.rtrancl_into_rtrancl atom_free)
    moreover have "ok m'" using inv m'(2) free_ok by blast
    ultimately have "serial s c' m' ts" using inv step_free(1) Some r m'(1) by (auto simp: serial_def)
    then show ?thesis by blast
  qed
qed

lemma serial_reach:
  assumes "ok s" "(lock_step sec l0 free)\<^sup>*\<^sup>* (lock_start T s) c"
  shows "\<exists>m ts. serial s c m ts"
  using assms(2)
proof (induction rule: rtranclp_induct)
  case base
  then show ?case using serial_start [OF assms(1)] by blast
next
  case (step c c')
  then show ?case using serial_step by blast
qed

text \<open>Two threads are never inside at once; a step is possible as long as a thread has not left.\<close>

lemma serial_exclusive:
  assumes "serial s c m ts" "pc c t = Inside i l" "pc c t' = Inside i' l'"
  shows "t = t'"
  using serial_holder [OF assms(1,2)] serial_holder [OF assms(1,3)] by simp

lemma serial_progress:
  assumes "serial s c m ts" "pc c t \<noteq> After"
  shows "\<exists>c'. lock_step sec l0 any c c'"
proof (cases "lk c")
  case None
  then have "pc c t = Before" using assms(2) serial_holder [OF assms(1), of t] by (cases "pc c t") auto
  with None step_lock [of c t "Some t"] show ?thesis by (auto simp: lockid_lock_def)
next
  case (Some t')
  then obtain i l l' where r: "pc c t' = Inside i l" "i \<le> length (sec t')"
    "run_stmts (drop i (sec t')) (l, mem c) = Some (l', m)" by (rule serial_inside [OF assms(1)])
  show ?thesis
  proof (cases "i = length (sec t')")
    case True
    with r(1) Some step_unlock [of c t' sec l None] show ?thesis by (auto simp: lockid_unlock_def)
  next
    case False
    then have lt: "i < length (sec t')" using r(2) by simp
    then have "drop i (sec t') = sec t' ! i # drop (Suc i) (sec t')" by (rule Cons_nth_drop_Suc [symmetric])
    then obtain l1 m1 where "(sec t' ! i) (l, mem c) = Some (l1, m1)" using r(3) by (auto split: Option.bind_splits)
    with r(1) lt step_stmt [of c t' i l sec l1 m1] show ?thesis by blast
  qed
qed

text \<open>The steps a thread has left.\<close>

definition steps_left :: "('l, 's) machine \<Rightarrow> thread \<Rightarrow> nat" where
  "steps_left c t = (case pc c t of Before \<Rightarrow> length (sec t) + 2 | Inside i _ \<Rightarrow> Suc (length (sec t) - i) | After \<Rightarrow> 0)"

lemma serial_decreases:
  assumes "serial s c m ts" "lock_step sec l0 (\<lambda>_ _. False) c c'" "finite T"
  shows "(\<Sum>t \<in> T. steps_left c' t) < (\<Sum>t \<in> T. steps_left c t)"
proof -
  have T: "t \<in> T" if "pc c t \<noteq> After" for t using assms(1) that by (auto simp: serial_def)
  obtain t where t: "t \<in> T" "steps_left c' t < steps_left c t" "\<forall>t'. t' \<noteq> t \<longrightarrow> steps_left c' t' = steps_left c t'"
    using assms(2)
  proof (cases rule: lock_step.cases)
    case (step_lock t k)
    with T [of t] that [of t] show ?thesis by (auto simp: steps_left_def)
  next
    case (step_stmt t i l l' m1)
    with T [of t] that [of t] show ?thesis by (auto simp: steps_left_def)
  next
    case (step_unlock t l k)
    with T [of t] that [of t] show ?thesis by (auto simp: steps_left_def)
  qed simp
  show ?thesis by (rule sum_strict_mono_ex1 [OF assms(3)]) (use t in \<open>auto simp: le_less\<close>)
qed

text \<open>A run of the threads alone is not longer than all their statements, locks and unlocks together.\<close>

lemma run_bounded:
  assumes "ok s" "finite T" "((lock_step sec l0 (\<lambda>_ _. False)) ^^ n) (lock_start T s) c"
  shows "n + (\<Sum>t \<in> T. steps_left c t) \<le> (\<Sum>t \<in> T. length (sec t) + 2) \<and> (\<exists>m ts. serial s c m ts)"
  using assms(3)
proof (induction n arbitrary: c)
  case 0
  then have c: "c = lock_start T s" by simp
  have "(\<Sum>t \<in> T. steps_left c t) = (\<Sum>t \<in> T. length (sec t) + 2)"
    by (rule sum.cong) (simp_all add: c steps_left_def lock_start_def)
  then show ?case using serial_start [OF assms(1)] c by auto
next
  case (Suc n)
  then obtain d where d: "((lock_step sec l0 (\<lambda>_ _. False)) ^^ n) (lock_start T s) d" "lock_step sec l0 (\<lambda>_ _. False) d c"
    by auto
  then obtain m ts where i: "serial s d m ts" "n + (\<Sum>t \<in> T. steps_left d t) \<le> (\<Sum>t \<in> T. length (sec t) + 2)"
    using Suc.IH by blast
  have "lock_step sec l0 free d c"
    using d(2) by (cases rule: lock_step.cases) (auto intro: lock_step.intros)
  then have "\<exists>m ts. serial s c m ts" using serial_step [OF i(1)] by blast
  with serial_decreases [OF i(1) d(2) assms(2)] i(2) show ?case by simp
qed

text \<open>Where no thread can step, all have left and the lock is free.\<close>

lemma serial_final:
  assumes "serial s c m ts" "\<nexists>c'. lock_step sec l0 (\<lambda>_ _. False) c c'"
  shows "lk c = None" "mem c = m" "set ts = T"
proof -
  have a: "pc c t = After" for t using serial_progress [OF assms(1)] assms(2) by blast
  show l: "lk c = None"
  proof (rule ccontr)
    assume "lk c \<noteq> None"
    then obtain t where "lk c = Some t" by blast
    with serial_inside [OF assms(1) this] a [of t] show False by auto
  qed
  show "mem c = m" "set ts = T" using assms(1) l a by (auto simp: serial_def)
qed

end

subsection \<open>The two queues\<close>

text \<open>What other code does meanwhile: it leaves the head of the queue alone, and the objects \<open>A\<close> in it or about to be.\<close>

definition evt_private :: "addr set \<Rightarrow> ('b, 'z) world_scheme \<Rightarrow> ('b, 'z) world_scheme \<Rightarrow> bool" where
  "evt_private A s s' \<longleftrightarrow> qevt (rl s') = qevt (rl s) \<and> (\<forall>a \<in> A. evts s' a = evts s a)"

definition src_private :: "addr set \<Rightarrow> ('b, 'z) world_scheme \<Rightarrow> ('b, 'z) world_scheme \<Rightarrow> bool" where
  "src_private A s s' \<longleftrightarrow> qsrc (rl s') = qsrc (rl s) \<and> (\<forall>a \<in> A. srcs s' a = srcs s a)"

lemma run_post_section:
  assumes "evts s a = Some e"
  shows "run_stmts (post_section a) (None, s) =
    Some (qevt (rl s), s\<lparr>evts := (evts s)(a \<mapsto> e\<lparr>evt_next := qevt (rl s)\<rparr>), rl := (rl s)\<lparr>qevt := Some a\<rparr>\<rparr>)"
  using assms by (cases "qevt (rl s)") (simp_all add: post_section_def)

lemma run_add_section:
  assumes "srcs s a = Some o1"
  shows "run_stmts (add_section a) (None, s) =
    Some (qsrc (rl s), s\<lparr>srcs := (srcs s)(a \<mapsto> o1\<lparr>src_next := qsrc (rl s)\<rparr>), rl := (rl s)\<lparr>qsrc := Some a\<rparr>\<rparr>)"
  using assms by (cases "qsrc (rl s)") (simp_all add: add_section_def)

interpretation posts: locked_sections T "\<lambda>t. post_section (ev t)" None "evt_private (ev ` T \<union> B)"
    "\<lambda>s. \<forall>t \<in> T. evts s (ev t) \<noteq> None" for T ev B
proof unfold_locales
  fix t st l l' and s s' u :: "('a, 'b) world_scheme"
  assume "t \<in> T" "st \<in> set (post_section (ev t))" "evt_private (ev ` T \<union> B) s s'" "st (l, s) = Some (l', u)"
  then show "\<exists>u'. st (l, s') = Some (l', u') \<and> evt_private (ev ` T \<union> B) u u'"
    by (auto simp: post_section_def evt_private_def upd_evt_def split: Option.bind_splits)
next
  fix s s' :: "('a, 'b) world_scheme"
  assume "\<forall>t \<in> T. evts s (ev t) \<noteq> None" "evt_private (ev ` T \<union> B) s s'"
  then show "\<forall>t \<in> T. evts s' (ev t) \<noteq> None" by (simp add: evt_private_def)
next
  fix s :: "('a, 'b) world_scheme" and t
  assume "\<forall>t \<in> T. evts s (ev t) \<noteq> None" "t \<in> T"
  moreover from this obtain e where "evts s (ev t) = Some e" by auto
  ultimately show "\<exists>l s'. run_stmts (post_section (ev t)) (None, s) = Some (l, s') \<and> (\<forall>t \<in> T. evts s' (ev t) \<noteq> None)"
    by (simp add: run_post_section)
qed

interpretation adds: locked_sections T "\<lambda>t. add_section (sr t)" None "src_private (sr ` T \<union> B)"
    "\<lambda>s. \<forall>t \<in> T. srcs s (sr t) \<noteq> None" for T sr B
proof unfold_locales
  fix t st l l' and s s' u :: "('a, 'b) world_scheme"
  assume "t \<in> T" "st \<in> set (add_section (sr t))" "src_private (sr ` T \<union> B) s s'" "st (l, s) = Some (l', u)"
  then show "\<exists>u'. st (l, s') = Some (l', u') \<and> src_private (sr ` T \<union> B) u u'"
    by (auto simp: add_section_def src_private_def upd_src_def split: Option.bind_splits)
next
  fix s s' :: "('a, 'b) world_scheme"
  assume "\<forall>t \<in> T. srcs s (sr t) \<noteq> None" "src_private (sr ` T \<union> B) s s'"
  then show "\<forall>t \<in> T. srcs s' (sr t) \<noteq> None" by (simp add: src_private_def)
next
  fix s :: "('a, 'b) world_scheme" and t
  assume "\<forall>t \<in> T. srcs s (sr t) \<noteq> None" "t \<in> T"
  moreover from this obtain o1 where "srcs s (sr t) = Some o1" by auto
  ultimately show "\<exists>l s'. run_stmts (add_section (sr t)) (None, s) = Some (l, s') \<and> (\<forall>t \<in> T. srcs s' (sr t) \<noteq> None)"
    by (simp add: run_add_section)
qed

text \<open>The wake that follows the section is such a step.\<close>

lemma wake_private:
  assumes "gwrl_wake s = Some s'"
  shows "evt_private A s s'" "src_private A s s'"
proof -
  have "sys_frame s s'"
    using assms wake_write_loop_frame [of s s'] by (auto simp: gwrl_wake_def split: if_splits)
  then have s': "s' = s\<lparr>calls := calls s', errno := errno s'\<rparr>" by (simp add: sys_frame_def)
  show "evt_private A s s'" "src_private A s s'"
    by (subst s', simp add: evt_private_def) (subst s', simp add: src_private_def)
qed

text \<open>Whole sections push their objects, the last in front.\<close>

lemma atom_posts_chain:
  assumes "(atom_step (\<lambda>t. post_section (ev t)) None (evt_private (ev ` T \<union> set Q)))\<^sup>*\<^sup>* (s, []) (m, ts)"
    and "chain (evt_nx s) (qevt (rl s)) Q" "inj_on ev T" "\<forall>t \<in> T. ev t \<notin> set Q \<and> evts s (ev t) \<noteq> None"
    and "set ts \<subseteq> T" "distinct ts"
  shows "chain (evt_nx m) (qevt (rl m)) (map ev (rev ts) @ Q) \<and> (\<forall>t \<in> T. evts m (ev t) \<noteq> None)"
  using assms(1,5,6)
proof (induction "(m, ts)" arbitrary: m ts rule: rtranclp_induct)
  case base
  then show ?case using assms(2,4) by simp
next
  case (step y)
  from step.hyps(2) show ?case
  proof (cases rule: atom_step.cases)
    case (atom_section t ts1 m1 l)
    have IH: "chain (evt_nx m1) (qevt (rl m1)) (map ev (rev ts1) @ Q)" "\<forall>t \<in> T. evts m1 (ev t) \<noteq> None"
      using step.hyps(3) [OF atom_section(1)] step.prems atom_section(2) by auto
    have t: "t \<in> T" "set ts1 \<subseteq> T" using step.prems(1) atom_section(2) by auto
    then obtain e where e: "evts m1 (ev t) = Some e" using IH(2) by auto
    have m: "m = m1\<lparr>evts := (evts m1)(ev t \<mapsto> e\<lparr>evt_next := qevt (rl m1)\<rparr>), rl := (rl m1)\<lparr>qevt := Some (ev t)\<rparr>\<rparr>"
      using atom_section(4) unfolding run_post_section [OF e] by auto
    have "ev t \<notin> ev ` set ts1" using assms(3) t atom_section(3) by (auto simp: inj_on_def)
    then have "ev t \<notin> set (map ev (rev ts1) @ Q)" using assms(4) t(1) by auto
    then show ?thesis using IH t(1) atom_section(2) by (simp add: m evt_nx_evts)
  next
    case (atom_free m1)
    have IH: "chain (evt_nx m1) (qevt (rl m1)) (map ev (rev ts) @ Q)" "\<forall>t \<in> T. evts m1 (ev t) \<noteq> None"
      using step.hyps(3) [OF atom_free(1)] step.prems by auto
    have p: "qevt (rl m) = qevt (rl m1)" "\<forall>a \<in> ev ` T \<union> set Q. evts m a = evts m1 a"
      using atom_free(2) by (simp_all add: evt_private_def)
    have "\<forall>x \<in> set (map ev (rev ts) @ Q). evts m x = evts m1 x" using p(2) step.prems(1) by auto
    then have "chain (evt_nx m) (qevt (rl m1)) (map ev (rev ts) @ Q)"
      by (intro seg_cong [THEN iffD1, OF _ IH(1)]) (auto simp: evt_nx_def)
    with p IH(2) show ?thesis by simp
  qed
qed

text \<open>
  C5: threads that post events at the same time, statement by statement in any order and while other
  code runs that leaves the queue alone: two of them are never in their critical sections at once, and
  whenever the lock is free the queue holds the events of exactly the threads that have left, the last one in front,
  before what it held at first. Nothing is lost and nothing is queued twice.
\<close>
theorem safe_posts_serialize:
  assumes "chain (evt_nx s) (qevt (rl s)) Q" "inj_on ev T" "\<forall>t \<in> T. ev t \<notin> set Q \<and> evts s (ev t) \<noteq> None"
    and "(lock_step (\<lambda>t. post_section (ev t)) None (evt_private (ev ` T \<union> set Q)))\<^sup>*\<^sup>* (lock_start T s) c"
  shows "(\<forall>t t' i i' l l'. pc c t = Inside i l \<and> pc c t' = Inside i' l' \<longrightarrow> t = t') \<and>
    (lk c = None \<longrightarrow> (\<exists>order. distinct order \<and> set order = {t \<in> T. pc c t = After} \<and>
      chain (evt_nx (mem c)) (qevt (rl (mem c))) (map ev (rev order) @ Q)))"
proof -
  obtain m ts where i: "posts.serial T ev (set Q) s c m ts"
    using posts.serial_reach [OF _ assms(4)] assms(3) by blast
  note inv = i [unfolded posts.serial_def]
  have "\<exists>order. distinct order \<and> set order = {t \<in> T. pc c t = After} \<and>
      chain (evt_nx (mem c)) (qevt (rl (mem c))) (map ev (rev order) @ Q)" if l: "lk c = None"
  proof (intro exI conjI)
    have "pc c t \<noteq> Before \<longleftrightarrow> pc c t = After" for t
      using posts.serial_holder [OF i, of t] l by (cases "pc c t") auto
    then show "set ts = {t \<in> T. pc c t = After}" using inv by simp
    then show "chain (evt_nx (mem c)) (qevt (rl (mem c))) (map ev (rev ts) @ Q)"
      using atom_posts_chain [OF _ assms(1-3), of m ts] inv l by auto
  qed (use inv in simp)
  moreover have "\<forall>t t' i i' l l'. pc c t = Inside i l \<and> pc c t' = Inside i' l' \<longrightarrow> t = t'"
    using posts.serial_exclusive [OF i] by blast
  ultimately show ?thesis by blast
qed

text \<open>
  C6: posting finishes. When only the posting threads run, no run has more than five steps for each of
  them, as long as one has not left some thread can step, so none waits for ever and there is no
  deadlock, and when all have left the queue holds every one of their events.
\<close>
theorem safe_posts_finish:
  assumes "chain (evt_nx s) (qevt (rl s)) Q" "inj_on ev T" "\<forall>t \<in> T. ev t \<notin> set Q \<and> evts s (ev t) \<noteq> None" "finite T"
    and "((lock_step (\<lambda>t. post_section (ev t)) None (\<lambda>_ _. False)) ^^ n) (lock_start T s) c"
  shows "n \<le> 5 * card T \<and>
    ((\<exists>t \<in> T. pc c t \<noteq> After) \<longrightarrow> (\<exists>c'. lock_step (\<lambda>t. post_section (ev t)) None (\<lambda>_ _. False) c c')) \<and>
    ((\<forall>t \<in> T. pc c t = After) \<longrightarrow> (\<exists>order. distinct order \<and> set order = T \<and>
      chain (evt_nx (mem c)) (qevt (rl (mem c))) (map ev (rev order) @ Q)))"
proof -
  have ok: "\<forall>t \<in> T. evts s (ev t) \<noteq> None" using assms(3) by blast
  have "(\<Sum>t \<in> T. length (post_section (ev t) :: (ptr, ('a, 'b) world_scheme) stmt list) + 2) = 5 * card T"
    by (simp add: post_section_def)
  with posts.run_bounded [OF ok assms(4,5), where B = "set Q"] obtain m ts where
    i: "posts.serial T ev (set Q) s c m ts" and n: "n \<le> 5 * card T" by auto
  note inv = i [unfolded posts.serial_def]
  have "\<exists>order. distinct order \<and> set order = T \<and> chain (evt_nx (mem c)) (qevt (rl (mem c))) (map ev (rev order) @ Q)"
    if a: "\<forall>t \<in> T. pc c t = After"
  proof (intro exI conjI)
    have "\<nexists>t. lk c = Some t" using posts.serial_inside [OF i] a by (metis tpc.distinct(5))
    then have l: "lk c = None" by simp
    show "set ts = T" using inv a by auto
    then show "chain (evt_nx (mem c)) (qevt (rl (mem c))) (map ev (rev ts) @ Q)"
      using atom_posts_chain [OF _ assms(1-3), of m ts] inv l by auto
  qed (use inv in simp)
  with n posts.serial_progress [OF i] show ?thesis by blast
qed

subsection \<open>Instances\<close>

text \<open>Two threads, which post the events 3 and 4 of \<open>queued_world\<close>.\<close>

definition two_posts :: "nat \<Rightarrow> addr" where
  "two_posts t = t + 3"

lemma two_posts_hyps:
  "chain (evt_nx queued_world) (qevt (rl queued_world)) [2, 1]" "inj_on two_posts {0, 1}"
  "\<forall>t \<in> {0, 1}. two_posts t \<notin> set [2, 1] \<and> evts queued_world (two_posts t) \<noteq> None"
  using queued_world_inv(1) by (auto simp: two_posts_def queue_inv_def inj_on_def queued_world_def)

lemma two_posts_run:
  "\<exists>c. ((lock_step (\<lambda>t. post_section (two_posts t)) None free) ^^ 5) (lock_start {0, 1} queued_world) c \<and>
     pc c 0 = After \<and> pc c 1 = Before \<and> lk c = None"
proof -
  have e: "evts queued_world (two_posts 0) = Some zero_evt" by (simp add: two_posts_def queued_world_def)
  let ?c = "lock_start {0, 1} queued_world"
  have c: "lk ?c = None" "pc ?c 0 = Before" "pc ?c 1 = Before" "mem ?c = queued_world"
    by (simp_all add: lock_start_def lockid_init_def)
  have n: "5 = length (post_section (two_posts 0) :: (ptr, unit world) stmt list) + 2" by (simp add: post_section_def)
  from section_run [of ?c 0 "\<lambda>t. post_section (two_posts t)" None, OF c(1,2) _ n] run_post_section [OF e]
  obtain m where "((lock_step (\<lambda>t. post_section (two_posts t)) None free) ^^ 5) ?c (?c\<lparr>mem := m, pc := (pc ?c)(0 := After)\<rparr>)"
    unfolding c(4) by blast
  with c show ?thesis by (intro exI) auto
qed

theorem safe_posts_serialize_witness:
  "\<exists>c :: (ptr, unit world) machine. pc c 0 = After \<and> pc c 1 = Before \<and>
     (\<exists>order. distinct order \<and> set order = {0 :: nat} \<and>
       chain (evt_nx (mem c)) (qevt (rl (mem c))) (map two_posts (rev order) @ [2, 1]))"
proof -
  obtain c where c: "((lock_step (\<lambda>t. post_section (two_posts t)) None (evt_private (two_posts ` {0, 1} \<union> set [2, 1]))) ^^ 5)
      (lock_start {0, 1} queued_world) c" "pc c 0 = After" "pc c 1 = Before" "lk c = None"
    using two_posts_run by blast
  have "{t \<in> {0, 1}. pc c t = After} = {0}" using c(2,3) by auto
  then show ?thesis
    using safe_posts_serialize [OF two_posts_hyps relpowp_imp_rtranclp [OF c(1)]] c(2-4) by auto
qed

theorem safe_posts_finish_witness:
  "\<exists>c c' :: (ptr, unit world) machine.
     ((lock_step (\<lambda>t. post_section (two_posts t)) None (\<lambda>_ _. False)) ^^ 5) (lock_start {0, 1} queued_world) c \<and>
     lock_step (\<lambda>t. post_section (two_posts t)) None (\<lambda>_ _. False) c c'"
proof -
  obtain c where c: "((lock_step (\<lambda>t. post_section (two_posts t)) None (\<lambda>_ _. False)) ^^ 5)
      (lock_start {0, 1} queued_world) c" "pc c 1 = Before"
    using two_posts_run by blast
  have "\<exists>t \<in> {0, 1}. pc c t \<noteq> After" using c(2) by auto
  with c(1) safe_posts_finish [OF two_posts_hyps _ c(1)] show ?thesis by blast
qed

end
