(* ===== verification/Gw_ReactorEcho.thy ===== *)
theory Gw_ReactorEcho
  imports Gw_Select Gw_Socket
begin

section \<open>The reactor's example (\<^verbatim>\<open>src/examples/reactor_echo.c\<close>)\<close>

text \<open>
  A program of a user of the library: a server that sends back what it receives, and a timer that
  removes itself. Its callbacks, set-up and \<^verbatim>\<open>main\<close> over the reactor of the other theories. Its global variables
  are fields of the state, its functions are the user functions 0 to 3. What it prints has no effect.
  \<^verbatim>\<open>exit\<close> in a callback ends the program: there is no state after it, \<open>None\<close>.
\<close>

subsection \<open>Data\<close>

definition MAXLINE :: nat where "MAXLINE = 1024"

definition AF_UNSPEC :: int where "AF_UNSPEC = 0"

record 'b re_world = "'b skworld" +
  re_mode :: string
  re_node :: string
  re_service :: string
  re_istcp :: bool
  re_isserver :: bool
  re_sockcntl :: skctlinfo
  re_c :: int
  re_intsrc :: ptr

text \<open>The functions that are given to the reactor.\<close>

definition Fn_setup_socket :: fnptr where "Fn_setup_socket = Fn_user 0"
definition Fn_server_activity :: fnptr where "Fn_server_activity = Fn_user 1"
definition Fn_client_activity :: fnptr where "Fn_client_activity = Fn_user 2"
definition Fn_interval_test :: fnptr where "Fn_interval_test = Fn_user 3"

text \<open>
  What a call stored in an array of \<open>n\<close> bytes on the stack. The rest of the array is not initialised,
  and bytes that the system did not store have no value.
\<close>

definition stored :: "nat \<Rightarrow> answer \<Rightarrow> byte list option" where
  "stored n a = (let d = take (nat (ans_ret a)) (ans_data a)
     in if nat (ans_ret a) \<le> n \<and> length d = nat (ans_ret a) then Some d else None)"

subsection \<open>The callbacks\<close>

definition interval_test ::
    "('b, 'z) re_world_scheme src_ops \<Rightarrow> ptr \<Rightarrow> ('b, 'z) re_world_scheme \<Rightarrow> ('b, 'z) re_world_scheme option" where
  "interval_test ops evt s = do {
     s \<leftarrow> (if re_c s = 10 then gwrl_src_del ops (re_intsrc s) None True s else Some s);
     Some (s\<lparr>re_c := re_c s + 1\<rparr>) }"

definition client_socket_activity ::
    "('b, 'z) re_world_scheme src_ops \<Rightarrow> ptr \<Rightarrow> ('b, 'z) re_world_scheme \<Rightarrow> ('b, 'z) re_world_scheme option" where
  "client_socket_activity ops evt s = do {
     e \<leftarrow> get_evt evt s;
     if evt_flags e AND GWRL_RD \<noteq> 0
     then (case syscall (Sys_read (evt_fd e) (MAXLINE - 1)) s of (a, s) \<Rightarrow>
       if ans_ret a \<le> 0 then do {
         let s = snd (syscall (Sys_close (evt_fd e)) s);
         gwrl_src_del ops (evt_src e) None True s }
       else do {
         buf \<leftarrow> stored (MAXLINE - 1) a;
         Some (snd (syscall (Sys_write (evt_fd e) buf) s)) })
     else Some s }"

text \<open>An address of a peer fits into \<^verbatim>\<open>sockaddr_storage\<close>; its length is what the system says.\<close>

definition server_socket_activity ::
    "('b, 'z) re_world_scheme src_ops \<Rightarrow> ptr \<Rightarrow> ('b, 'z) re_world_scheme \<Rightarrow> ('b, 'z) re_world_scheme option" where
  "server_socket_activity ops evt s = do {
     e \<leftarrow> get_evt evt s;
     if evt_flags e AND GWRL_RD \<noteq> 0
     then if re_istcp s then do {
         (clientfd, s) \<leftarrow> gwsk_accept (evt_fd e) s;
         (_, s) \<leftarrow> gwrl_set_fd ops clientfd GWRL_RD (Some Fn_client_activity) None s;
         Some s }
       else (case syscall (Sys_recvfrom (evt_fd e) (MAXLINE - 1)) s of (a, s) \<Rightarrow>
         if ans_ret a > 0 then do {
           buf \<leftarrow> stored (MAXLINE - 1) a;
           s \<leftarrow> gwsk_sockaddr_print (ans_peer a) s;
           Some (snd (syscall (Sys_sendto (evt_fd e) buf (ans_peer a)) s)) }
         else Some s)
     else Some s }"

subsection \<open>Set-up and \<^verbatim>\<open>main\<close>\<close>

definition setup_server_info :: "bool \<Rightarrow> string \<Rightarrow> skctlinfo \<Rightarrow> skctlinfo" where
  "setup_server_info istcp service i =
     (let i = i\<lparr>sk_node := None, sk_service := Some service, sk_flags := sk_flags i OR SKCTL_NOBLOCK,
            sk_hints := (sk_hints i)\<lparr>ai_family := AF_UNSPEC, ai_flags := AI_PASSIVE\<rparr>\<rparr>
      in if istcp
         then i\<lparr>sk_hints := (sk_hints i)\<lparr>ai_protocol := IPPROTO_TCP, ai_socktype := SOCK_STREAM\<rparr>,
                sk_flags := sk_flags i OR (SKCTL_TCP_SERVER OR SKCTL_PRINTADDR)\<rparr>
         else i\<lparr>sk_hints := (sk_hints i)\<lparr>ai_protocol := IPPROTO_UDP, ai_socktype := SOCK_DGRAM\<rparr>,
                sk_flags := sk_flags i OR (SKCTL_UDP_SERVER OR SKCTL_PRINTADDR)\<rparr>)"

definition re_setup_server ::
    "('b, 'z) re_world_scheme src_ops \<Rightarrow> ('b, 'z) re_world_scheme \<Rightarrow> ('b, 'z) re_world_scheme option" where
  "re_setup_server ops s = do {
     (res, info, s) \<leftarrow> skctl (setup_server_info (re_istcp s) (re_service s) (re_sockcntl s)) s;
     let s = s\<lparr>re_sockcntl := info\<rparr>;
     if res < 0 then None
     else do {
       (_, s) \<leftarrow> gwrl_set_fd ops (sockfd info) GWRL_RD (Some Fn_server_activity) None s;
       Some s } }"

definition re_setup_socket ::
    "('b, 'z) re_world_scheme src_ops \<Rightarrow> ptr \<Rightarrow> ('b, 'z) re_world_scheme \<Rightarrow> ('b, 'z) re_world_scheme option" where
  "re_setup_socket ops evt s = do {
     s \<leftarrow> (if re_mode s = ''s'' then re_setup_server ops s else Some s);
     (src, s) \<leftarrow> gwrl_set_interval ops 1000 (Some Fn_interval_test) None s;
     Some (s\<lparr>re_intsrc := src\<rparr>) }"

text \<open>The meaning of the function pointers.\<close>

definition re_callbacks ::
    "('b, 'z) re_world_scheme src_ops \<Rightarrow> fnptr \<Rightarrow> ptr \<Rightarrow> ('b, 'z) re_world_scheme \<Rightarrow> ('b, 'z) re_world_scheme option" where
  "re_callbacks ops f evt s =
     (if f = Fn_gwrl_wake_activity then gwrl_wake_activity ops evt s
      else if f = Fn_setup_socket then re_setup_socket ops evt s
      else if f = Fn_server_activity then server_socket_activity ops evt s
      else if f = Fn_client_activity then client_socket_activity ops evt s
      else if f = Fn_interval_test then interval_test ops evt s
      else None)"

text \<open>The result is the exit status. A reactor that could not be created is a null pointer that is used.\<close>

definition re_main ::
    "(('b, 'z) re_world_scheme \<Rightarrow> 'b option \<times> ('b, 'z) re_world_scheme) \<Rightarrow> ('b, 'z) re_world_scheme src_ops \<Rightarrow> 'b
     \<Rightarrow> (('b, 'z) re_world_scheme \<Rightarrow> ('b, 'z) re_world_scheme option) \<Rightarrow> string list
     \<Rightarrow> ('b, 'z) re_world_scheme \<Rightarrow> (int \<times> ('b, 'z) re_world_scheme) option" where
  "re_main bkd_init ops b0 gather argv s =
     (if length argv < 5 then Some (0, s)
      else do {
        let s = s\<lparr>re_mode := argv ! 1, re_istcp := (argv ! 2 = ''tcp''), re_node := argv ! 3,
                  re_service := argv ! 4, re_isserver := (argv ! 1 = ''s'')\<rparr>;
        (ok, s) \<leftarrow> gwrl_create bkd_init ops b0 s;
        if \<not> ok then None
        else do {
          s \<leftarrow> gwrl_post_function (Some Fn_setup_socket) None s;
          s \<leftarrow> gwrl_run \<lparr>env_ops = ops, env_gather = gather, env_cb = re_callbacks ops, env_user_gather = (\<lambda>_ _. None)\<rparr> s;
          Some (0, s) } })"

subsection \<open>Lemmas\<close>

lemma accept_first_zero:
  assumes "\<forall>i<k. ans_ret (answer_at s i) \<noteq> 0" "ans_ret (answer_at s k) = 0"
  shows "gwsk_accept fd s = Some (0, s\<lparr>calls := replicate (Suc k) (Sys_accept fd) @ calls s, errno := 0\<rparr>)"
  using assms
proof (induction k arbitrary: s)
  case 0
  then show ?case by (simp add: gwsk_accept.simps [of fd s] syscall_def Let_def answer_at_def)
next
  case (Suc k)
  let ?u = "snd (syscall (Sys_accept fd) (s\<lparr>errno := 0\<rparr>))"
  have an: "answer_at ?u i = answer_at s (Suc i)" for i by (simp add: answer_at_def syscall_def Let_def)
  have "gwsk_accept fd s = gwsk_accept fd ?u"
    using Suc.prems(1) by (auto simp: gwsk_accept.simps [of fd s] syscall_def Let_def answer_at_def)
  also have "\<dots> = Some (0, ?u\<lparr>calls := replicate (Suc k) (Sys_accept fd) @ calls ?u, errno := 0\<rparr>)"
    by (rule Suc.IH) (use Suc.prems in \<open>auto simp: an\<close>)
  also have "\<dots> = Some (0, s\<lparr>calls := replicate (Suc (Suc k)) (Sys_accept fd) @ calls s, errno := 0\<rparr>)"
    by (simp add: syscall_def Let_def replicate_append_same flip: replicate_Suc)
  finally show ?case .
qed

lemma accept_never_zero:
  assumes "\<forall>i. ans_ret (answer_at s i) \<noteq> 0"
  shows "gwsk_accept fd s = None"
proof (rule ccontr)
  assume "gwsk_accept fd s \<noteq> None"
  then obtain y where "gwsk_accept fd s = Some y" by blast
  then have "\<exists>i. ans_ret (answer_at s i) = 0"
  proof (rule gwsk_accept.raw_induct [where P = "\<lambda>fd s y. \<exists>i. ans_ret (answer_at s i) = 0", rotated])
    fix rec :: "int \<Rightarrow> ('a, 'b) world_scheme \<Rightarrow> (int \<times> ('a, 'b) world_scheme) option" and fd s y
    assume 1: "\<And>fd s y. rec fd s = Some y \<Longrightarrow> \<exists>i. ans_ret (answer_at s i) = 0"
      "(case syscall (Sys_accept fd) (s\<lparr>errno := 0\<rparr>) of (a, s) \<Rightarrow>
        if ans_ret a = 0 then Some (ans_ret a, s) else rec fd s) = Some y"
    let ?u = "snd (syscall (Sys_accept fd) (s\<lparr>errno := 0\<rparr>))"
    have an: "answer_at ?u i = answer_at s (Suc i)" for i by (simp add: answer_at_def syscall_def Let_def)
    have "fst (syscall (Sys_accept fd) (s\<lparr>errno := 0\<rparr>)) = answer_at s 0" by (simp add: answer_at_def syscall_def Let_def)
    moreover have "\<exists>i. ans_ret (answer_at s i) = 0" if "rec fd ?u = Some y" using 1(1) [OF that] unfolding an by blast
    ultimately show "\<exists>i. ans_ret (answer_at s i) = 0"
      using 1(2) by (auto simp: split_beta split: if_splits)
  qed
  with assms show False by blast
qed

lemma timer_del_program:
  assumes "srcs_inv s Fs (xs @ a # ys)"
  obtains u where "gwrl_src_del ops (Some a) None True s = Some u" "srcs_inv u Fs (xs @ ys)" "srcs u a = None"
    "re_c u = re_c s"
proof -
  note i = srcs_invD [OF assms]
  obtain u where u: "gwrl_src_del ops (Some a) None True s = Some u" "srcs_inv u Fs (xs @ ys)" "srcs u a = None"
    using timer_del_ok [OF assms, of None ops True] by auto
  have "time_src s a" by (rule i(6)) simp
  then obtain oa where oa: "srcs s a = Some oa" "src_type oa = 1" by (auto simp: time_src_iff)
  let ?v = "unlinked 1 xs a (src_next oa) s"
  have v: "src_unlink (Some a) None s = Some ?v"
    by (rule src_unlink_cut) (use i(1,3) oa in simp_all)
  have d: "distinct (xs @ a # ys)" by (rule srcs_inv_distinct(2) [OF assms])
  then have ne: "xs = [] \<or> last xs \<noteq> a" using last_in_set [of xs] by auto
  have "srcs ?v a = Some (oa\<lparr>src_next := None\<rparr>)" by (rule unlinked_self [OF oa(1) ne])
  then have "u = ?v\<lparr>srcs := (srcs ?v)(a := None)\<rparr>"
    using u(1) v oa(2) by (simp add: gwrl_src_del_def src_type_defs)
  then have "re_c u = re_c s" by (simp add: unlinked_def)
  with u that show ?thesis by blast
qed

text \<open>The timer's event arriving \<open>n\<close> times.\<close>

fun ticks :: "('b, 'z) re_world_scheme src_ops \<Rightarrow> ptr \<Rightarrow> nat \<Rightarrow> ('b, 'z) re_world_scheme \<Rightarrow> ('b, 'z) re_world_scheme option" where
  "ticks ops evt 0 s = Some s"
| "ticks ops evt (Suc n) s = do { s \<leftarrow> ticks ops evt n s; interval_test ops evt s }"

lemma ticks_before:
  assumes "re_c s = 0" "n \<le> 10"
  shows "ticks ops evt n s = Some (s\<lparr>re_c := int n\<rparr>)"
  using assms(2)
proof (induction n)
  case 0
  then show ?case using assms(1) by simp
next
  case (Suc n)
  then show ?case by (simp add: interval_test_def)
qed

lemma ticks_after:
  assumes "ticks ops evt 11 s = Some t" "re_c t = 11" "11 \<le> n"
  shows "ticks ops evt n s = Some (t\<lparr>re_c := int n\<rparr>)"
  using assms(3)
proof (induction n rule: dec_induct)
  case base
  then show ?case using assms(1,2) by simp
next
  case (step n)
  then show ?case by (simp add: interval_test_def)
qed

subsection \<open>Properties\<close>

text \<open>
  C39: the TCP server of the example answers no client. When its socket is readable it goes on accepting until \<^verbatim>\<open>accept\<close>
  returns descriptor 0, and drops every other descriptor (and every error) it gets before that; with standard input open
  this never happens, and the callback, and with it the reactor, never returns. Only descriptor 0 is ever
  registered as a client.
\<close>
theorem tcp_server_drops_clients:
  assumes "evts s ev = Some e" "evt_flags e AND GWRL_RD \<noteq> 0" "re_istcp s"
  shows "((\<forall>i. ans_ret (answer_at s i) \<noteq> 0) \<longrightarrow> server_socket_activity ops (Some ev) s = None) \<and>
    ((\<forall>i<k. ans_ret (answer_at s i) \<noteq> 0) \<and> ans_ret (answer_at s k) = 0 \<longrightarrow>
      server_socket_activity ops (Some ev) s =
        map_option snd (gwrl_set_fd ops 0 GWRL_RD (Some Fn_client_activity) None
          (s\<lparr>calls := replicate (Suc k) (Sys_accept (evt_fd e)) @ calls s, errno := 0\<rparr>)))"
proof -
  have eq: "server_socket_activity ops (Some ev) s = do {
      (clientfd, s) \<leftarrow> gwsk_accept (evt_fd e) s;
      (_, s) \<leftarrow> gwrl_set_fd ops clientfd GWRL_RD (Some Fn_client_activity) None s;
      Some s }"
    using assms by (simp add: server_socket_activity_def get_evt_def)
  have m: "do { (x, s) \<leftarrow> y; Some s } = map_option snd y" for y :: "(ptr \<times> ('a, 'b) re_world_scheme) option"
    by (cases y) auto
  show ?thesis
    using accept_never_zero [of s "evt_fd e"] accept_first_zero [of k s "evt_fd e"] by (auto simp: eq m)
qed

text \<open>
  A client's descriptor that is readable, with the select backend: what was read is written back to it, in
  one call whose result nobody looks at; at the end of the stream and on every error, an interrupted call
  included, the descriptor is closed, its source leaves the list and the descriptor sets and is freed.
\<close>
theorem client_echoes_or_leaves:
  fixes s :: "(gwrlbkd_select, 'z) re_world_scheme"
  assumes "srcs_inv s (xs @ a # ys) Ts" "select_tracks s (set (xs @ a # ys))"
    and "evts s ev = Some e" "evt_src e = Some a" "evt_flags e AND GWRL_RD \<noteq> 0"
    and "r = ans_ret (answer_at s 0)" "r < 1024" "0 < r \<longrightarrow> int (length (ans_data (answer_at s 0))) = r"
  shows "\<exists>s'. client_socket_activity select_ops (Some ev) s = Some s' \<and>
    (if 0 < r
     then calls s' = Sys_write (evt_fd e) (ans_data (answer_at s 0)) # Sys_read (evt_fd e) 1023 # calls s \<and>
       srcs_inv s' (xs @ a # ys) Ts \<and> select_tracks s' (set (xs @ a # ys))
     else srcs_inv s' (xs @ ys) Ts \<and> select_tracks s' (set (xs @ ys)) \<and> srcs s' a = None)"
proof -
  let ?c = "Sys_read (evt_fd e) 1023"
  let ?t = "snd (syscall ?c s)"
  have rd: "syscall ?c s = (answer_at s 0, ?t)" by (simp add: syscall_def answer_at_def Let_def)
  have keep: "srcs_inv u (xs @ a # ys) Ts" "select_tracks u (set (xs @ a # ys))" if "sys_frame s u" for u
  proof -
    note g = sys_frameD [OF that]
    show "srcs_inv u (xs @ a # ys) Ts" 
      by (rule srcs_inv_cong [OF _ _ _ assms(1)]) (use assms(1) g in \<open>simp_all add: srcs_inv_def fresh_ok_def\<close>)
    show "select_tracks u (set (xs @ a # ys))"
      by (rule tracks_views [OF _ _ assms(2)]) (simp_all add: g srcs_views(1-3) [OF g(2)])
  qed
  have fr: "sys_frame s (snd (syscall c ?t))" for c
    by (rule sys_frame_trans [OF sys_frame_syscall sys_frame_syscall])
  have cl: "client_socket_activity select_ops (Some ev) s = (case syscall ?c s of (x, s) \<Rightarrow>
       if ans_ret x \<le> 0 then gwrl_src_del select_ops (Some a) None True (snd (syscall (Sys_close (evt_fd e)) s))
       else do { buf \<leftarrow> stored 1023 x; Some (snd (syscall (Sys_write (evt_fd e) buf) s)) })"
    using assms(3-5) by (simp add: client_socket_activity_def get_evt_def MAXLINE_def split_beta)
  have sel: "(case p of (x, u) \<Rightarrow> f x u) = f (fst p) (snd p)" for p and f :: "answer \<Rightarrow> (gwrlbkd_select, 'z) re_world_scheme \<Rightarrow> (gwrlbkd_select, 'z) re_world_scheme option"
    by (simp add: split_beta)
  note rd = rd [THEN arg_cong [where f = fst], simplified] sel
  show ?thesis
  proof (cases "0 < r")
    case True
    let ?w = "Sys_write (evt_fd e) (ans_data (answer_at s 0))"
    have "stored 1023 (answer_at s 0) = Some (ans_data (answer_at s 0))"
    proof -
      have "nat r \<le> 1023" "nat r = length (ans_data (answer_at s 0))" using True assms(7,8) by linarith+
      then show ?thesis using assms(6) by (simp add: stored_def Let_def)
    qed
    then have "client_socket_activity select_ops (Some ev) s = Some (snd (syscall ?w ?t))"
      using True assms(6) by (subst cl) (simp add: rd)
    with True keep [OF fr] show ?thesis by (simp add: syscall_def Let_def)
  next
    case False
    let ?u = "snd (syscall (Sys_close (evt_fd e)) ?t)"
    obtain s' where s': "gwrl_src_del select_ops (Some a) None True ?u = Some s'"
      "srcs_inv s' (xs @ ys) Ts" "select_tracks s' (set (xs @ ys))" "srcs s' a = None"
      using sel.del_file [OF keep [OF fr], of None True] by blast
    have "client_socket_activity select_ops (Some ev) s = Some s'"
      using False assms(6) by (subst cl) (simp add: rd s'(1))
    with s' False show ?thesis by auto
  qed
qed

text \<open>
  The interval removes itself. The first ten times its event arrives nothing changes but the counter, the eleventh
  time the timer is taken out of the list and freed, and events that arrive later touch it no more.
\<close>
theorem interval_removes_itself:
  assumes "srcs_inv s Fs (xs @ a # ys)" "re_intsrc s = Some a" "re_c s = 0"
  shows "\<exists>s'. ticks ops evt n s = Some s' \<and> re_c s' = int n \<and>
    (if n \<le> 10 then srcs_inv s' Fs (xs @ a # ys) \<and> srcs s' = srcs s
     else srcs_inv s' Fs (xs @ ys) \<and> srcs s' a = None)"
proof -
  have cong: "srcs_inv (u\<lparr>re_c := c\<rparr>) F T" if "srcs_inv u F T" for u :: "('a, 'b) re_world_scheme" and F T c
    by (rule srcs_inv_cong [OF _ _ _ that]) (use that in \<open>simp_all add: srcs_inv_def fresh_ok_def\<close>)
  show ?thesis
  proof (cases "n \<le> 10")
    case True
    with ticks_before [OF assms(3) True] cong [OF assms(1)] show ?thesis by simp
  next
    case False
    let ?t = "s\<lparr>re_c := 10\<rparr>"
    obtain u where u: "gwrl_src_del ops (Some a) None True ?t = Some u" "srcs_inv u Fs (xs @ ys)" "srcs u a = None"
      "re_c u = re_c ?t" by (rule timer_del_program [OF cong [OF assms(1)]])
    have t10: "ticks ops evt 10 s = Some ?t" using ticks_before [OF assms(3), of 10] by simp
    have "(11 :: nat) = Suc 10" by simp
    then have e: "ticks ops evt 11 s = Some (u\<lparr>re_c := re_c u + 1\<rparr>)"
      using u(1) assms(2) t10 by (simp only: ticks.simps) (simp add: interval_test_def)
    have "re_c u = 10" using u(4) by simp
    with ticks_after [OF e, of n] False u cong [OF u(2)] show ?thesis by simp
  qed
qed

subsection \<open>Instances\<close>

text \<open>A TCP server whose socket is readable; \<^verbatim>\<open>accept\<close> returns descriptor 5 again and again.\<close>

definition re_base :: "'b world \<Rightarrow> bool \<Rightarrow> 'b re_world" where
  "re_base w tcp = skworld.extend (world.extend w (skworld.fields Map.empty))
     (re_world.fields ''s'' ''localhost'' ''8080'' tcp True
       \<lparr>sk_flags = 0, sk_hints = \<lparr>ai_flags = 0, ai_family = 0, ai_socktype = 0, ai_protocol = 0, ai_addr = [], ai_next = None\<rparr>,
        sk_node = None, sk_service = None, sk_backlog = 0, sk_list = None, sk_used = None, sockfd = 0, serrno = 0, serrnoflag = 0\<rparr>
       0 None)"

definition server_world :: "gwrlbkd_select re_world" where
  "server_world = re_base (select_world\<lparr>
     evts := [21 \<mapsto> new_evt None (Some Fn_server_activity) None 4 GWRL_RD None],
     answers := (\<lambda>_. ok_answer 5)\<rparr>) True"

theorem tcp_server_drops_clients_witness:
  "server_socket_activity select_ops (Some 21) server_world = None"
proof -
  have e: "evts server_world 21 = Some (new_evt None (Some Fn_server_activity) None 4 GWRL_RD None)" "re_istcp server_world"
    by (simp_all add: server_world_def re_base_def world.defs skworld.defs re_world.defs)
  have "\<forall>i. ans_ret (answer_at server_world i) \<noteq> 0"
    by (simp add: answer_at_def server_world_def re_base_def world.defs skworld.defs ok_answer_def)
  moreover have "evt_flags (new_evt None (Some Fn_server_activity) None 4 GWRL_RD None) AND GWRL_RD \<noteq> 0"
    by (simp add: new_evt_def flag_defs)
  ultimately show ?thesis using tcp_server_drops_clients [OF e(1) _ e(2)] by blast
qed

end
