(* ===== verification/Gw_ProactorEcho.thy ===== *)
theory Gw_ProactorEcho
  imports Gw_PrActivity
begin

section \<open>The proactor's example (\<^verbatim>\<open>src/examples/proactor_echo.c\<close>)\<close>

text \<open>
  A program of a user of the proactor: as a server it writes back what it reads, as a client it sends its
  standard input to the server. Its callbacks, set-up and \<^verbatim>\<open>main\<close> over the proactor of the other
  theories, and what the two do together. Its global variables are fields of the state, its functions are the user
  functions 0 to 8. What it prints has no effect. \<^verbatim>\<open>exit\<close> in a callback ends the program: there is
  no state after it, \<open>None\<close>.
\<close>

subsection \<open>Data\<close>

record 'b pe_world = "'b pworld" +
  pe_ais :: "addr \<rightharpoonup> addrinfo"
  pe_mode :: string
  pe_node :: string
  pe_service :: string
  pe_protocol :: string
  pe_istcp :: bool
  pe_isserver :: bool
  pe_skinfo :: skctlinfo
  pe_client :: ptr
  pe_stdinid :: int
  pe_stdoutid :: int

text \<open>The functions that are given to the reactor and to the proactor.\<close>

definition Fn_pe_setup_socket :: fnptr where "Fn_pe_setup_socket = Fn_user 0"
definition Fn_pe_error :: fnptr where "Fn_pe_error = Fn_user 1"
definition Fn_did_read :: fnptr where "Fn_did_read = Fn_user 2"
definition Fn_did_read_stdin :: fnptr where "Fn_did_read_stdin = Fn_user 3"
definition Fn_did_write :: fnptr where "Fn_did_write = Fn_user 4"
definition Fn_did_disconnect :: fnptr where "Fn_did_disconnect = Fn_user 5"
definition Fn_did_connect :: fnptr where "Fn_did_connect = Fn_user 6"
definition Fn_did_accept :: fnptr where "Fn_did_accept = Fn_user 7"

lemmas pe_fn_defs = Fn_pe_setup_socket_def Fn_pe_error_def Fn_did_read_def Fn_did_read_stdin_def Fn_did_write_def
  Fn_did_disconnect_def Fn_did_connect_def Fn_did_accept_def

text \<open>
  The socket helpers work on the memory of the reactor and on that of the addresses. The state as they see it,
  and a result of theirs as a state of the program.
\<close>

definition sk_view :: "('b, 'z) pe_world_scheme \<Rightarrow> 'b skworld" where
  "sk_view s = world.extend (world.truncate s) (skworld.fields (pe_ais s))"

definition sk_back :: "('b, 'z) pe_world_scheme \<Rightarrow> 'b skworld \<Rightarrow> ('b, 'z) pe_world_scheme" where
  "sk_back s t = s\<lparr>rl := rl t, evts := evts t, srcs := srcs t, brk := brk t, oom := oom t, tod := tod t,
     nclk := nclk t, errs := errs t, answers := answers t, calls := calls t, errno := errno t, pe_ais := ais t\<rparr>"

definition on_sockets ::
    "('b skworld \<Rightarrow> (int \<times> skctlinfo \<times> 'b skworld) option) \<Rightarrow> ('b, 'z) pe_world_scheme
     \<Rightarrow> (int \<times> ('b, 'z) pe_world_scheme) option" where
  "on_sockets f s = do { (res, info, t) \<leftarrow> f (sk_view s); Some (res, (sk_back s t)\<lparr>pe_skinfo := info\<rparr>) }"

definition pe_skctlinfo_free :: "('b, 'z) pe_world_scheme \<Rightarrow> ('b, 'z) pe_world_scheme option" where
  "pe_skctlinfo_free s = do {
     (info, t) \<leftarrow> skctlinfo_free (pe_skinfo s) False (sk_view s);
     i \<leftarrow> info;
     Some ((sk_back s t)\<lparr>pe_skinfo := i\<rparr>) }"

subsection \<open>The callbacks\<close>

text \<open>The program has no filters: a call from within a callback of its own reaches no function of the program.\<close>

definition no_filters :: "'s pr_callbacks" where
  "no_filters = \<lparr>cb_io = (\<lambda>_ _ _. None), cb_error = (\<lambda>_ _ _. None)\<rparr>"

definition echo_error :: "gwpr_error_info \<Rightarrow> ('b, 'z) pe_world_scheme \<Rightarrow> ('b, 'z) pe_world_scheme option" where
  "echo_error info s = Some s"

text \<open>A client prints the buffer as a string: without a zero among its bytes this reads past its end.\<close>

definition did_read ::
    "('b, 'z) pe_world_scheme src_ops \<Rightarrow> gwpr_io_info \<Rightarrow> ('b, 'z) pe_world_scheme \<Rightarrow> ('b, 'z) pe_world_scheme option" where
  "did_read ops info s = do {
     b \<leftarrow> get_buf (io_buf info) s;
     if pe_isserver s \<and> pe_istcp s
     then map_option snd (gwpr_write no_filters ops (io_src info) (io_buf info) s)
     else if pe_isserver s \<and> \<not> pe_istcp s
     then map_option snd (gwpr_sendto no_filters ops (io_src info) (io_buf info) (Some (io_peer info)) (io_peerlen info) s)
     else if 0 \<in> set (buf_data b) then Some s else None }"

definition did_read_stdin ::
    "('b, 'z) pe_world_scheme src_ops \<Rightarrow> gwpr_io_info \<Rightarrow> ('b, 'z) pe_world_scheme \<Rightarrow> ('b, 'z) pe_world_scheme option" where
  "did_read_stdin ops info s = map_option snd (gwpr_write no_filters ops (pe_client s) (io_buf info) s)"

definition did_write :: "gwpr_io_info \<Rightarrow> ('b, 'z) pe_world_scheme \<Rightarrow> ('b, 'z) pe_world_scheme option" where
  "did_write info s = do { b \<leftarrow> get_buf (io_buf info) s; gwpr_buf_free (io_buf info) s }"

definition did_disconnect ::
    "('b, 'z) pe_world_scheme src_ops \<Rightarrow> gwpr_io_info \<Rightarrow> ('b, 'z) pe_world_scheme \<Rightarrow> ('b, 'z) pe_world_scheme option" where
  "did_disconnect ops info s = do {
     fd \<leftarrow> src_file_fd (io_src info) s;
     gwpr_src_del ops (io_src info) (gwsk_close fd s) }"

text \<open>Reading the standard input, for \<^verbatim>\<open>did_connect\<close> and for the set-up of a client.\<close>

definition read_stdin ::
    "('b, 'z) pe_world_scheme src_ops \<Rightarrow> ('b, 'z) pe_world_scheme \<Rightarrow> ('b, 'z) pe_world_scheme option" where
  "read_stdin ops s = do {
     (stdinfd, s) \<leftarrow> gwpr_set_fd ops (pe_stdinid s) None s;
     s \<leftarrow> gwpr_set_cb stdinfd gwpr_did_read_cb_id (Some Fn_did_read_stdin) s;
     map_option snd (gwpr_read ops stdinfd 128 s) }"

definition did_connect ::
    "('b, 'z) pe_world_scheme src_ops \<Rightarrow> gwpr_io_info \<Rightarrow> ('b, 'z) pe_world_scheme \<Rightarrow> ('b, 'z) pe_world_scheme option" where
  "did_connect ops info s = read_stdin ops s"

definition did_accept ::
    "('b, 'z) pe_world_scheme src_ops \<Rightarrow> gwpr_io_info \<Rightarrow> ('b, 'z) pe_world_scheme \<Rightarrow> ('b, 'z) pe_world_scheme option" where
  "did_accept ops info s = do {
     s \<leftarrow> gwpr_src_add ops (io_peersrc info) s;
     s \<leftarrow> gwpr_set_cb (io_peersrc info) gwpr_error_cb_id (Some Fn_pe_error) s;
     s \<leftarrow> gwpr_set_cb (io_peersrc info) gwpr_closed_cb_id (Some Fn_did_disconnect) s;
     s \<leftarrow> gwpr_set_cb (io_peersrc info) gwpr_did_read_cb_id (Some Fn_did_read) s;
     s \<leftarrow> gwpr_set_cb (io_peersrc info) gwpr_did_write_cb_id (Some Fn_did_write) s;
     map_option snd (gwpr_read ops (io_peersrc info) 128 s) }"

text \<open>The meaning of the function pointers that the proactor calls.\<close>

definition echo_callbacks :: "('b, 'z) pe_world_scheme src_ops \<Rightarrow> ('b, 'z) pe_world_scheme pr_callbacks" where
  "echo_callbacks ops =
     \<lparr>cb_io = (\<lambda>f info s.
        if f = Fn_did_read then did_read ops info s
        else if f = Fn_did_read_stdin then did_read_stdin ops info s
        else if f = Fn_did_write then did_write info s
        else if f = Fn_did_disconnect then did_disconnect ops info s
        else if f = Fn_did_connect then did_connect ops info s
        else if f = Fn_did_accept then did_accept ops info s
        else None),
      cb_error = (\<lambda>f info s. if f = Fn_pe_error then echo_error info s else None)\<rparr>"

subsection \<open>Set-up and \<^verbatim>\<open>main\<close>\<close>

definition pe_setup_server ::
    "('b, 'z) pe_world_scheme src_ops \<Rightarrow> ('b, 'z) pe_world_scheme \<Rightarrow> ('b, 'z) pe_world_scheme option" where
  "pe_setup_server ops s = do {
     s \<leftarrow> (if pe_istcp s then do {
         (res, s) \<leftarrow> on_sockets (skctl_tcp_server (pe_skinfo s) None (Some (pe_service s)) AF_INET True) s;
         if res < 0 then None
         else do {
           (fsrc, s) \<leftarrow> gwpr_set_fd ops (sockfd (pe_skinfo s)) None s;
           s \<leftarrow> gwpr_set_cb fsrc gwpr_accept_cb_id (Some Fn_did_accept) s;
           map_option snd (gwpr_accept ops fsrc s) } }
       else do {
         (res, s) \<leftarrow> on_sockets (skctl_udp_server (pe_skinfo s) None (Some (pe_service s)) AF_INET True) s;
         if res < 0 then None
         else do {
           (fsrc, s) \<leftarrow> gwpr_set_fd ops (sockfd (pe_skinfo s)) None s;
           s \<leftarrow> gwpr_set_cb fsrc gwpr_error_cb_id (Some Fn_pe_error) s;
           s \<leftarrow> gwpr_set_cb fsrc gwpr_did_read_cb_id (Some Fn_did_read) s;
           s \<leftarrow> gwpr_set_cb fsrc gwpr_did_write_cb_id (Some Fn_did_write) s;
           map_option snd (gwpr_recvfrom ops fsrc 512 s) } });
     pe_skctlinfo_free s }"

definition pe_setup_client ::
    "('b, 'z) pe_world_scheme src_ops \<Rightarrow> ('b, 'z) pe_world_scheme \<Rightarrow> ('b, 'z) pe_world_scheme option" where
  "pe_setup_client ops s = do {
     s \<leftarrow> (if pe_istcp s then do {
         (res, s) \<leftarrow> on_sockets (skctl_tcp_client (pe_skinfo s) (Some (pe_node s)) (Some (pe_service s)) AF_INET True) s;
         if res < 0 then None
         else do {
           s \<leftarrow> read_stdin ops s;
           (fsrc, s) \<leftarrow> gwpr_set_fd ops (sockfd (pe_skinfo s)) None s;
           let s = s\<lparr>pe_client := fsrc\<rparr>;
           s \<leftarrow> gwpr_set_cb fsrc gwpr_connect_cb_id (Some Fn_did_connect) s;
           s \<leftarrow> gwpr_set_cb fsrc gwpr_closed_cb_id (Some Fn_did_disconnect) s;
           s \<leftarrow> gwpr_set_cb fsrc gwpr_did_read_cb_id (Some Fn_did_read) s;
           s \<leftarrow> gwpr_set_cb fsrc gwpr_did_write_cb_id (Some Fn_did_write) s;
           a \<leftarrow> sk_used (pe_skinfo s);
           ai \<leftarrow> pe_ais s a;
           map_option snd (gwpr_connect ops fsrc (ai_addr ai) s) } }
       else do {
         (res, s) \<leftarrow> on_sockets (skctl_udp_connected_client (pe_skinfo s) (Some (pe_node s)) (Some (pe_service s)) AF_INET True) s;
         if res < 0 then None
         else do {
           s \<leftarrow> read_stdin ops s;
           (fsrc, s) \<leftarrow> gwpr_set_fd ops (sockfd (pe_skinfo s)) None s;
           let s = s\<lparr>pe_client := fsrc\<rparr>;
           s \<leftarrow> gwpr_set_cb fsrc gwpr_error_cb_id (Some Fn_pe_error) s;
           s \<leftarrow> gwpr_set_cb fsrc gwpr_did_read_cb_id (Some Fn_did_read) s;
           s \<leftarrow> gwpr_set_cb fsrc gwpr_did_write_cb_id (Some Fn_did_write) s;
           map_option snd (gwpr_recvfrom ops fsrc 128 s) } });
     pe_skctlinfo_free s }"

definition pe_setup_socket ::
    "('b, 'z) pe_world_scheme src_ops \<Rightarrow> ptr \<Rightarrow> ('b, 'z) pe_world_scheme \<Rightarrow> ('b, 'z) pe_world_scheme option" where
  "pe_setup_socket ops evt s = (if pe_isserver s then pe_setup_server ops s else pe_setup_client ops s)"

text \<open>The meaning of the function pointers that the reactor calls.\<close>

definition pe_callbacks ::
    "('b, 'z) pe_world_scheme src_ops \<Rightarrow> fnptr \<Rightarrow> ptr \<Rightarrow> ('b, 'z) pe_world_scheme \<Rightarrow> ('b, 'z) pe_world_scheme option" where
  "pe_callbacks ops f evt s =
     (if f = Fn_gwrl_wake_activity then gwrl_wake_activity ops evt s
      else if f = Fn_gwpr_src_activity then gwpr_src_activity (echo_callbacks ops) ops evt s
      else if f = Fn_pe_setup_socket then pe_setup_socket ops evt s
      else None)"

text \<open>
  The result is the exit status; \<^verbatim>\<open>gwsk_startup\<close> does nothing here. A reactor or proactor that could not
  be created is a null pointer that is used.
\<close>

definition pe_main ::
    "(('b, 'z) pe_world_scheme \<Rightarrow> 'b option \<times> ('b, 'z) pe_world_scheme) \<Rightarrow> ('b, 'z) pe_world_scheme src_ops \<Rightarrow> 'b
     \<Rightarrow> (('b, 'z) pe_world_scheme \<Rightarrow> ('b, 'z) pe_world_scheme option) \<Rightarrow> string list
     \<Rightarrow> ('b, 'z) pe_world_scheme \<Rightarrow> (int \<times> ('b, 'z) pe_world_scheme) option" where
  "pe_main bkd_init ops b0 gather argv s =
     (if length argv < 5 then Some (0, s)
      else do {
        let s = s\<lparr>pe_stdinid := 0, pe_stdoutid := 1, pe_mode := argv ! 1, pe_protocol := argv ! 2, pe_node := argv ! 3,
                  pe_service := argv ! 4, pe_istcp := (argv ! 2 = ''tcp''), pe_isserver := (argv ! 1 = ''s'')\<rparr>;
        (ok, s) \<leftarrow> gwrl_create bkd_init ops b0 s;
        if \<not> ok then None
        else (case gwpr_create s of
            (None, s) \<Rightarrow> None
          | (Some _, s) \<Rightarrow> do {
              s \<leftarrow> gwrl_post_function (Some Fn_pe_setup_socket) None s;
              s \<leftarrow> gwrl_run \<lparr>env_ops = ops, env_gather = gather, env_cb = pe_callbacks ops, env_user_gather = (\<lambda>_ _. None)\<rparr> s;
              Some (0, s) }) })"

subsection \<open>Lemmas\<close>

lemma echo_callbacks_io:
  "call_io (echo_callbacks ops) (Some Fn_did_read) info s = did_read ops info s"
  "call_io (echo_callbacks ops) (Some Fn_did_write) info s = did_write info s"
  "call_io (echo_callbacks ops) (Some Fn_did_disconnect) info s = did_disconnect ops info s"
  "call_io (echo_callbacks ops) (Some Fn_did_accept) info s = did_accept ops info s"
  by (simp_all add: call_io_def echo_callbacks_def pe_fn_defs)

text \<open>What extends the state of the reactor is the state of the proactor and of the program.\<close>

lemma more_fields:
  assumes "world.more t = world.more (s :: ('b, 'z) pworld_scheme)"
  shows "bufs t = bufs s" "pdatas t = pdatas s" "wrqs t = wrqs s" "pr_obj t = pr_obj s" "einfos t = einfos s"
  using assms by (cases s; cases t; simp)+

text \<open>An event that says that a source is readable, and nothing else.\<close>

lemma activity_rd:
  assumes "evts s ev = Some e" "evt_src e = Some a" "evt_flags e = GWRL_RD" "file_src s a" "has_pdata s a p d"
    and "didreadcb d = Some g" "activity_read cbs (Some a) (Some p) zero_io_info zero_error_info s = Some (i, x, t)"
    and "evts t ev = Some e"
  shows "gwpr_src_activity cbs ops (Some ev) s = Some t"
proof -
  have fl: "flisset GWRL_RD GWRL_RD" "\<not> flisset GWRL_RD GWRL_WR" "\<not> flisset GWRL_RD GWRL_SYNC_WRITE"
    "\<not> flisset GWRL_RD GWRL_SYNC_CLOSE" "\<not> flisset GWRL_RD GWRL_SYNC_ERROR"
    by (simp_all add: flag_simps)
  obtain o1 where "srcs s a = Some o1" "src_type o1 = GWRL_SRC_TYPE_FILE" using assms(4) by (auto simp: file_src_iff src_type_defs)
  with assms fl show ?thesis by (simp add: gwpr_src_activity_def has_pdata_def)
qed

text \<open>The report of a write whose buffer \<open>did_write\<close> frees.\<close>

lemma report_freed:
  assumes "reports s a fd e q (Some b) gwpr_write_op_id" "file_src s a" "pr_inv s a p d [] C" "q \<notin> set C"
    and "didwritecb d = Some Fn_did_write" "bufs s b = Some B"
  obtains u C' where "gwpr_src_activity (echo_callbacks ops) ops (Some e) s = Some u" "bufs u = (bufs s)(b := None)"
    "calls u = calls s" "pr_inv u a p d [] C'" "srcs u = srcs s" "evts u = evts s"
    "rl u = rl s" "brk u = brk s"
proof -
  obtain x r where x: "evts s e = Some x" "evt_src x = Some a" "evt_flags x = GWRL_SYNC_WRITE" "evt_userdata x = Some q"
    and r: "wrqs s q = Some r" "wrq_buf r = Some b" "wrop r = gwpr_write_op_id"
  proof -
    obtain x r where x: "evts s e = Some x" and r: "wrqs s q = Some r" "wrq_buf r = Some b" "wrop r = gwpr_write_op_id"
      and c: "evt_core x = new_evt (Some a) (Some Fn_gwpr_src_activity) (Some q) fd GWRL_SYNC_WRITE None"
      using assms(1) by (auto simp: reports_def)
    have "evt_src x = Some a" "evt_flags x = GWRL_SYNC_WRITE" "evt_userdata x = Some q"
      using c [THEN arg_cong [where f = evt_src]] c [THEN arg_cong [where f = evt_flags]] c [THEN arg_cong [where f = evt_userdata]]
      by (simp_all add: evt_core_def new_evt_def)
    with x r that show ?thesis by blast
  qed
  have pd: "src_pdata (Some a) s = Some (Some p)" "pdatas s p = Some d" "wrq_cache s C"
    using assms(3) by (simp_all add: pr_inv_def has_pdata_def)
  let ?u = "s\<lparr>bufs := (bufs s)(b := None)\<rparr>"
  have iu: "pr_inv ?u a p d [] C"
    by (rule pr_inv_bufs [OF assms(3)]) (use assms(3) in \<open>auto simp: pr_inv_def pr_fresh_def\<close>)
  have cu: "wrq_cache ?u C" "wrqs ?u q = Some r" using iu r(1) by (simp_all add: pr_inv_def)
  obtain v where v: "gwprwrq_free (Some q) ?u = Some v"
    "if int (length C) = gwpr_wrqueue_cache_max (pr_options (pr_obj ?u))
     then wrqs v = (wrqs ?u)(q := None) \<and> wrq_cache v C
     else wrqs v = (wrqs ?u)(q \<mapsto> r\<lparr>wrq_next := wrqcache (pr_obj ?u), wrq_buf := None\<rparr>) \<and> wrq_cache v (q # C)"
    "v = ?u\<lparr>wrqs := wrqs v, pr_obj := pr_obj v\<rparr>"
    using wrq_free_ok [OF cu assms(4)] by (elim exE conjE) (rule that)
  have ve: "bufs v = (bufs s)(b := None)" "pdatas v = pdatas s" "srcs v = srcs s" "evts v = evts s" "calls v = calls s"
    "brk v = brk s" "einfos v = einfos s" "rl v = rl s"
    by (subst v(3), simp)+
  have w: "did_write info s = Some ?u" if "io_buf info = Some b" for info
    using that assms(6) by (simp add: did_write_def gwpr_buf_free_def get_buf_def)
  have "Fn_did_write \<noteq> Fn_io_activity" by (simp add: pe_fn_defs)
  then obtain info where "activity_sync_write (echo_callbacks ops) (Some a) (Some p) (Some q) zero_io_info s = Some (info, v)"
    using pd assms(5) r v(1) by (simp add: activity_sync_write_def echo_callbacks_io w Let_def)
  moreover obtain o1 where "srcs s a = Some o1" "src_type o1 = GWRL_SRC_TYPE_FILE" using assms(2) by (auto simp: file_src_iff src_type_defs)
  moreover have "\<not> flisset GWRL_SYNC_WRITE GWRL_RD" "\<not> flisset GWRL_SYNC_WRITE GWRL_WR" "flisset GWRL_SYNC_WRITE GWRL_SYNC_WRITE"
    "\<not> flisset GWRL_SYNC_WRITE GWRL_SYNC_CLOSE" "\<not> flisset GWRL_SYNC_WRITE GWRL_SYNC_ERROR"
    by (simp_all add: flag_simps)
  ultimately have act: "gwpr_src_activity (echo_callbacks ops) ops (Some e) s = Some v"
    using x pd(1) ve(4) by (simp add: gwpr_src_activity_def)
  obtain C' where C': "wrq_cache v C'" using v(2) by (auto split: if_splits)
  have "pr_fresh v" using iu v(2) ve r(1) by (auto simp: pr_inv_def pr_fresh_def split: if_splits)
  moreover have "has_pdata v a p d" using has_pdata_cong [of v s p a d] ve(2,3) pd by (simp add: has_pdata_def)
  moreover have "wrq_queue v d []" using assms(3) by (simp add: pr_inv_def wrq_queue_def)
  ultimately have "pr_inv v a p d [] C'" using C' by (simp add: pr_inv_def)
  with that [OF act ve(1,5)] ve(3,4,6,8) show ?thesis by blast
qed

text \<open>Freeing the proactor's part of a source leaves the reactor's as it is.\<close>

lemma drop_pdata_ok:
  assumes "srcs_inv s Fs Ts" "select_tracks s A" "file_src s a" "has_pdata s a p d"
  obtains t where "drop_pdata (Some a) s = Some t" "srcs_inv t Fs Ts" "select_tracks t A" "file_src t a"
    "pdatas t = (pdatas s)(p := None)" "bufs t = bufs s" "wrqs t = wrqs s" "evts t = evts s"
proof -
  obtain o1 f where o1: "srcs s a = Some o1" "src_type o1 = 0" "src_part o1 = File_part f"
    using assms(3) by (auto simp: file_src_iff)
  have pd: "src_pdata (Some a) s = Some (Some p)" "pdatas s p = Some d" using assms(4) by (simp_all add: has_pdata_def)
  let ?o2 = "o1\<lparr>src_part := File_part (f\<lparr>file_pdata := None\<rparr>)\<rparr>"
  let ?t = "s\<lparr>pdatas := (pdatas s)(p := None), srcs := (srcs s)(a \<mapsto> ?o2)\<rparr>"
  have eq: "drop_pdata (Some a) s = Some ?t"
    using pd o1 by (simp add: drop_pdata_def free_pdata_def upd_src_def set_file_pdata_def)
  have k: "file_src ?t b \<longleftrightarrow> file_src s b" "time_src ?t b \<longleftrightarrow> time_src s b" for b
    using o1 by (auto simp: file_src_iff time_src_iff)
  have v: "src_fd ?t b = src_fd s b" "src_fl ?t b = src_fl s b" for b
    using o1 by (simp_all add: src_fd_def src_fl_def as_file_def)
  have nx: "src_nx ?t = src_nx s" using o1 by (simp add: src_nx_srcs fun_eq_iff)
  have fr: "fresh_ok ?t" using srcs_invD(4) [OF assms(1)] fresh_okD(2) [OF srcs_invD(4) [OF assms(1)] o1(1)]
    by (auto simp: fresh_ok_def)
  have "srcs_inv ?t Fs Ts"
    using srcs_invD [OF assms(1)] by (intro srcs_invI fr) (simp_all add: k nx)
  moreover have "select_tracks ?t A" by (rule tracks_views [OF _ _ assms(2)]) (simp_all add: k v)
  ultimately show ?thesis using that [OF eq] assms(3) k(1) by simp
qed

text \<open>Accepting: the new source is registered with the select backend and gets its part of the proactor.\<close>

lemma nopfd_pdata:
  assumes "map_option src_nopfd (srcs s' a) = map_option src_nopfd (srcs s a)"
  shows "src_pdata (Some a) s' = src_pdata (Some a) s"
proof (cases "srcs s a")
  case None
  with assms show ?thesis by (simp add: src_pdata_def get_src_def)
next
  case (Some o1)
  with assms obtain o2 where o2: "srcs s' a = Some o2" "src_nopfd o2 = src_nopfd o1" by auto
  let ?g = "\<lambda>o1. map_option file_pdata (as_file o1)"
  have g: "?g (src_nopfd x) = ?g x" for x by (simp add: src_nopfd_def as_file_def split: src_part.splits)
  have "?g o2 = ?g o1" using arg_cong [OF o2(2), of ?g] by (simp only: g)
  with Some o2(1) show ?thesis
    by (cases "as_file o1"; cases "as_file o2") (simp_all add: src_pdata_def get_src_def)
qed

text \<open>What \<^verbatim>\<open>gwprdata_create\<close> makes when there is memory.\<close>

definition new_pdata :: "nat \<Rightarrow> gwprdata" where
  "new_pdata n = (let t = if n = 0 then None else Some (replicate n None)
     in zero_pdata\<lparr>rdbufsize := 512, rdfilters := t, wrfilters := t\<rparr>)"

lemma pdata_created:
  assumes "oom s = []"
  obtains n where "create_retry gwprdata_create s = Some (Some (brk s),
    s\<lparr>brk := n, pdatas := (pdatas s)(brk s \<mapsto> new_pdata (filters_max s))\<rparr>)" "brk s < n"
proof (cases "filters_max s = 0")
  case True
  with assms that [of "Suc (brk s)"] show ?thesis
    by (simp add: create_retry_def gwprdata_create_def calloc_def retry_until.simps new_pdata_def Let_def)
next
  case False
  with assms that [of "Suc (Suc (Suc (brk s)))"] show ?thesis
    by (simp add: create_retry_def gwprdata_create_def calloc_def retry_until.simps new_pdata_def Let_def
        numeral_2_eq_2 numeral_3_eq_3)
qed

definition served_pdata :: "gwprdata \<Rightarrow> gwprdata" where
  "served_pdata d = d\<lparr>errorcb := Some Fn_pe_error, closedcb := Some Fn_did_disconnect, didreadcb := Some Fn_did_read,
     didwritecb := Some Fn_did_write, rdbufsize := 128, rdop := gwpr_read_op_id\<rparr>"

lemma did_accept_steps:
  assumes "gwpr_src_add ops (Some a) s = Some t" "src_pdata (Some a) t = Some (Some p)" "pdatas t p = Some d"
    and "io_peersrc info = Some a"
  shows "did_accept ops info s =
    add_interest ops (GWRL_ENABLED OR GWRL_RD) (Some a) (t\<lparr>pdatas := (pdatas t)(p \<mapsto> served_pdata d)\<rparr>)"
proof -
  have sp: "src_pdata (Some a) (t\<lparr>pdatas := m\<rparr>) = Some (Some p)" for m using assms(2) src_pdata_srcs [of "t\<lparr>pdatas := m\<rparr>" t] by simp
  have m: "map_option snd (do { s \<leftarrow> X; Some (0 :: int, s) }) = X" for X :: "('a, 'b) pe_world_scheme option"
    by (cases X) simp_all
  show ?thesis
    by (simp add: did_accept_def assms gwpr_set_cb_def gwpr_read_def gwpr_asynchronous_read_def sp m served_pdata_def)
qed

text \<open>
  Sources other than \<open>a\<close> are the same, but for the index into the table of the poll backend; and what a source
  calls, with the user's data.
\<close>

definition others_kept :: "addr \<Rightarrow> ('b, 'z) world_scheme \<Rightarrow> ('b, 'z) world_scheme \<Rightarrow> bool" where
  "others_kept a s t \<longleftrightarrow> (\<forall>b. b \<noteq> a \<longrightarrow> map_option src_nopfd (srcs t b) = map_option src_nopfd (srcs s b))"

definition src_calls :: "('b, 'z) world_scheme \<Rightarrow> addr \<Rightarrow> (fnptr option \<times> ptr) option" where
  "src_calls s a = map_option (\<lambda>o1. (src_callback o1, src_userdata o1)) (srcs s a)"

lemma nopfd_calls:
  assumes "map_option src_nopfd (srcs t a) = map_option src_nopfd (srcs s a)"
  shows "src_calls t a = src_calls s a"
  using assms by (cases "srcs s a"; cases "srcs t a") (auto simp: src_calls_def dest: src_nopfd_fields(4,5))

lemma pr_src_add_ok:
  fixes s :: "(gwrlbkd_select, 'z) pe_world_scheme"
  assumes "oom s = []" "srcs_inv s Fs Ts" "select_tracks s (set Fs)"
    and "srcs s a = Some o1" "src_type o1 = GWRL_SRC_TYPE_FILE" "src_part o1 = File_part f" "src_next o1 = None"
    and "a \<notin> set Fs" "0 \<le> file_fd f" "file_fd f < FD_SETSIZE" "file_fd f \<notin> src_fd s ` set Fs"
  obtains t where "gwpr_src_add select_ops (Some a) s = Some t" "srcs_inv t (a # Fs) Ts" "select_tracks t (set (a # Fs))"
    "src_pdata (Some a) t = Some (Some (brk s))" "src_fl t a = GWRL_RD" "src_fd t a = file_fd f"
    "src_fd t a \<le> maxfd (backend (rl t))" "evts t = evts s" "brk s < brk t"
    "pdatas t = (pdatas s)(brk s \<mapsto> new_pdata (filters_max s))" "bufs t = bufs s" "wrqs t = wrqs s"
    "pr_obj t = pr_obj s" "einfos t = einfos s" "others_kept a s t"
    "src_calls t a = Some (Some Fn_gwpr_src_activity, src_userdata o1)"
proof -
  let ?p = "brk s" and ?d0 = "new_pdata (filters_max s)"
  obtain k where k: "create_retry gwprdata_create s = Some (Some ?p,
      s\<lparr>brk := k, pdatas := (pdatas s)(?p \<mapsto> ?d0)\<rparr>)" "?p < k"
    by (rule pdata_created [OF assms(1)])
  let ?o2 = "o1\<lparr>src_flags := GWRL_RD, src_callback := Some Fn_gwpr_src_activity,
     src_part := File_part (f\<lparr>file_pdata := Some ?p\<rparr>)\<rparr>"
  let ?t1 = "s\<lparr>brk := k, pdatas := (pdatas s)(?p \<mapsto> ?d0), srcs := (srcs s)(a \<mapsto> ?o2)\<rparr>"
  have ini: "pr_src_init (Some a) s = Some ?t1"
    using k(1) assms(4-6) by (simp add: pr_src_init_def get_src_def as_file_def upd_src_def set_file_pdata_def)
  have ty: "src_type o1 = 0" using assms(5) by (simp add: src_type_defs)
  have kind: "file_src ?t1 b \<longleftrightarrow> file_src s b" "time_src ?t1 b \<longleftrightarrow> time_src s b" for b
    using assms(4,6) ty by (auto simp: file_src_iff time_src_iff)
  have nx: "src_nx ?t1 = src_nx s" using assms(4) by (simp add: src_nx_srcs fun_eq_iff)
  have fr: "fresh_ok ?t1" using srcs_invD(4) [OF assms(2)] fresh_okD(2) [OF srcs_invD(4) [OF assms(2)] assms(4)] k(2)
    by (auto simp: fresh_ok_def)
  have i1: "srcs_inv ?t1 Fs Ts"
    using srcs_invD [OF assms(2)] by (intro srcs_invI fr) (simp_all add: kind nx)
  have view: "src_fd ?t1 b = src_fd s b" "b \<noteq> a \<Longrightarrow> src_fl ?t1 b = src_fl s b" for b
    using assms(4,6) ty by (simp_all add: src_fd_def src_fl_def as_file_def)
  have fda: "src_fd s a = file_fd f" using assms(4,6) ty by (simp add: src_fd_def as_file_def src_type_defs)
  have tr1: "select_tracks ?t1 (set Fs)"
  proof (rule tracks_views [OF _ _ assms(3)])
    show "\<forall>b \<in> set Fs. src_fd ?t1 b = src_fd s b \<and> src_fl ?t1 b = src_fl s b \<and> file_src ?t1 b = file_src s b"
    proof
      fix b assume "b \<in> set Fs"
      then have "b \<noteq> a" using assms(8) by blast
      then show "src_fd ?t1 b = src_fd s b \<and> src_fl ?t1 b = src_fl s b \<and> file_src ?t1 b = file_src s b"
        by (simp only: kind view not_False_eq_True)
    qed
  qed simp
  have fs1: "file_src ?t1 a" using assms(6) ty by (simp add: file_src_iff)
  obtain t2 where t2: "gwrl_src_add select_ops (Some a) ?t1 = Some t2" "bkd_frame (pushed 0 a ?t1) t2"
    "srcs_inv t2 (a # Fs) Ts" "select_tracks t2 (set (a # Fs))"
    using sel.add_file [OF i1 tr1 fs1 assms(8)] assms(7,9-11) fda by (auto simp: view select_fd_ok_def)
  have "gwrl_src_add select_ops (Some a) ?t1 = op_src_add select_ops (Some a) (pushed 0 a ?t1)"
    by (rule trans [OF src_add_pushed [of _ a ?o2]])
      (use srcs_invD(1) [OF i1] assms(7) ty in \<open>simp_all add: src_type_defs\<close>)
  then have mx: "src_fd (pushed 0 a ?t1) a \<le> maxfd (backend (rl t2))" using add_maxfd t2(1) by metis
  note bf = t2(2) [unfolded bkd_frame_def, THEN conjunct1]
  have fr2: "world.more t2 = world.more ?t1" "evts t2 = evts s"
    by (subst bf, cases s, simp add: pushed_def) (subst bf, simp add: pushed_def)
  note m2 = more_fields [OF fr2(1)]
  have br: "brk s < brk t2" using t2(2) k(2) by (simp add: bkd_frame_def pushed_def)
  have "srcs (pushed 0 a ?t1) a = Some (?o2\<lparr>src_next := sources (rl s) ! 0\<rparr>)"
    by (simp add: pushed_def set_next_def)
  then have pu: "src_pdata (Some a) (pushed 0 a ?t1) = Some (Some ?p)" "src_fl (pushed 0 a ?t1) a = GWRL_RD"
      "src_fd (pushed 0 a ?t1) a = file_fd f"
    using ty by (simp_all add: src_pdata_def get_src_def as_file_def src_fl_def src_fd_def src_type_defs)
  have "map_option src_nopfd (srcs t2 a) = map_option src_nopfd (srcs (pushed 0 a ?t1) a)"
    using t2(2) unfolding bkd_frame_def by blast
  then have sp: "src_pdata (Some a) t2 = Some (Some ?p)" using nopfd_pdata pu(1) by metis
  have fl2: "src_fl t2 a = GWRL_RD" "src_fd t2 a = file_fd f" by (simp_all only: bkd_frame_flags [OF t2(2), of a] pu(2,3))
  have mx2: "src_fd t2 a \<le> maxfd (backend (rl t2))" using mx by (simp only: bkd_frame_flags [OF t2(2), of a])
  have add: "gwpr_src_add select_ops (Some a) s = Some t2" using ini t2(1) by (simp add: gwpr_src_add_def)
  have np: "map_option src_nopfd (srcs t2 b) = map_option src_nopfd (srcs (pushed 0 a ?t1) b)" for b
    using t2(2) unfolding bkd_frame_def by blast
  have "srcs (pushed 0 a ?t1) b = srcs s b" if "b \<noteq> a" for b using that by (simp add: pushed_def set_next_def)
  then have ok: "others_kept a s t2" unfolding others_kept_def using np by metis
  have "src_calls t2 a = src_calls (pushed 0 a ?t1) a" by (rule nopfd_calls [OF np])
  also have "\<dots> = Some (Some Fn_gwpr_src_activity, src_userdata o1)" by (simp add: src_calls_def pushed_def set_next_def)
  finally have sc: "src_calls t2 a = Some (Some Fn_gwpr_src_activity, src_userdata o1)" .
  show ?thesis by (rule that [OF add t2(3,4) sp fl2 mx2 fr2(2) br]) (simp_all add: m2 ok sc)
qed

text \<open>Asking for reads, of a source that \<^verbatim>\<open>maxfd\<close> covers.\<close>

lemma interest_ok:
  fixes s :: "(gwrlbkd_select, 'z) pe_world_scheme"
  assumes "srcs_inv s Fs Ts" "a \<in> set Fs" "select_tracks s (set Fs)" "src_fd s a \<le> maxfd (backend (rl s))"
  obtains t where "add_interest select_ops fl (Some a) s = Some t" "srcs_inv t Fs Ts" "select_tracks t (set Fs)"
    "src_fl t a = flset (src_fl s a) fl" "src_fd t a = src_fd s a" "src_pdata (Some a) t = src_pdata (Some a) s"
    "world.more t = world.more s" "evts t = evts s" "brk s \<le> brk t" "others_kept a s t" "src_calls t a = src_calls s a"
proof -
  obtain o3 where o3: "srcs s a = Some o3" using srcs_invD(5) [OF assms(1,2)] by (auto simp: file_src_iff)
  let ?fl = "flset (src_fl s a) fl"
  let ?m = "mod_src (\<lambda>x. x\<lparr>src_flags := ?fl\<rparr>) a s"
  obtain t where t: "op_update_flags select_ops (Some a) ?fl s = Some t" "bkd_frame ?m t" "select_tracks t (set Fs)"
    using select_update_any [OF assms(1-3) _ refl] assms(4) by blast
  have add: "add_interest select_ops fl (Some a) s = Some t"
    using t(1) o3 by (simp add: add_interest_def get_src_def src_fl_def)
  have inv: "srcs_inv t Fs Ts"
    by (rule bkd_frame_srcs_inv [OF t(2) mod_src_frame [OF _ _ _ assms(1)]]) simp_all
  note bf = t(2) [unfolded bkd_frame_def, THEN conjunct1]
  have fr: "world.more t = world.more s" "evts t = evts s"
    by (subst bf, cases s, simp add: mod_src_def) (subst bf, simp add: mod_src_def)
  have br: "brk s \<le> brk t" using t(2) by (simp add: bkd_frame_def mod_src_def)
  have np: "map_option src_nopfd (srcs t b) = map_option src_nopfd (srcs ?m b)" for b
    using t(2) unfolding bkd_frame_def by blast
  have "src_pdata (Some a) t = src_pdata (Some a) ?m" by (rule nopfd_pdata [OF np])
  moreover have "others_kept a s t" using np by (simp add: others_kept_def mod_src_def)
  moreover have "src_calls t a = src_calls s a" using nopfd_calls [OF np] o3 by (simp add: src_calls_def mod_src_def)
  moreover have "src_pdata (Some a) ?m = src_pdata (Some a) s"
    using o3 by (simp add: src_pdata_def get_src_def mod_src_def as_file_def)
  moreover have "src_fl t a = ?fl" "src_fd t a = src_fd s a"
    using bkd_frame_flags [OF t(2), of a] o3 by (simp_all add: src_fl_def src_fd_def mod_src_def as_file_def)
  ultimately show ?thesis using that [OF add inv t(3)] fr br by simp
qed

text \<open>One uninterrupted read for a source of the program.\<close>

lemma client_read_ok:
  fixes s :: "('b, 'z) pe_world_scheme"
  assumes "pr_inv s a p d Q C" "file_src s a" "rdop d = gwpr_read_op_id" "rdbufsize d < 2 ^ 64"
    and r: "r = ans_ret (answer_at s 0)" "\<not> (r < 0 \<and> ans_errno (answer_at s 0) = EINTR)" "r \<le> int (rdbufsize d)"
    and len: "0 < r \<longrightarrow> int (length (ans_data (answer_at s 0))) = r"
  obtains t info x R where "gwpr_src_activity_read (Some a) zero_io_info zero_error_info s =
      Some (r, info, if r < 0 then zero_error_info\<lparr>err_fnc := ''read''\<rparr> else zero_error_info, t)"
    "io_buf info = Some x" "io_src info = Some a" "bufs s x = None" "bufs t = (bufs s)(x \<mapsto> R)"
    "length (buf_data R) = rdbufsize d" "0 < r \<longrightarrow> int (buf_len R) = r \<and> buf_bytes R = ans_data (answer_at s 0)"
    "calls t = Sys_read (src_fd s a) (rdbufsize d) # calls s" "r < 0 \<longrightarrow> errno t = ans_errno (answer_at s 0)"
    "srcs t = srcs s" "evts t = evts s" "pdatas t = pdatas s" "wrqs t = wrqs s" "rl t = rl s" "pr_obj t = pr_obj s"
    "answers t = answers s" "pe_isserver t = pe_isserver s" "pe_istcp t = pe_istcp s" "brk s < brk t"
    "pr_inv t a p d Q C" "\<forall>E K. evts_inv s E K \<longrightarrow> evts_inv t E K"
proof -
  have pd: "has_pdata s a p d" "read_name (rdop d) = Some ''read''"
    using assms(1,3) by (simp_all add: pr_inv_def read_name_def)
  have none: "\<forall>i<0. ans_ret (answer_at s i) < 0 \<and> ans_errno (answer_at s i) = EINTR" by simp
  obtain t info x R where t: "gwpr_src_activity_read (Some a) zero_io_info zero_error_info s =
      Some (ans_ret (answer_at s 0), info,
        if ans_ret (answer_at s 0) < 0 then zero_error_info\<lparr>err_fnc := ''read''\<rparr> else zero_error_info, t)"
    "io_buf info = Some x" "io_src info = Some a" "io_op info = rdop d" "bufs t x = Some R"
    "0 < ans_ret (answer_at s 0) \<longrightarrow> buf_bytes R = ans_data (answer_at s 0)"
    "calls t = replicate (Suc 0) (the_read (src_fd s a) d) @ calls s"
    "ans_ret (answer_at s 0) < 0 \<longrightarrow> errno t = ans_errno (answer_at s 0)"
    "srcs t = srcs s" "pdatas t = pdatas s" "evts t = evts s"
    "t = s\<lparr>brk := brk t, oom := oom t, errs := errs t, calls := calls t, errno := errno t, bufs := (bufs s)(x \<mapsto> R)\<rparr>"
    "brk s \<le> x" "x < brk t" "length (buf_data R) = rdbufsize d"
    "0 < ans_ret (answer_at s 0) \<longrightarrow> int (buf_len R) = ans_ret (answer_at s 0)"
    by (rule activity_read_call_ok [OF pd assms(2) none r(2,3) [unfolded r(1)] assms(4) len [unfolded r(1)],
          where info = zero_io_info and errinfo = zero_error_info])
  let ?m = "s\<lparr>brk := brk t, oom := oom t, errs := errs t, bufs := (bufs s)(x \<mapsto> R)\<rparr>"
  have sf: "sys_frame ?m t" by (subst t(12)) (simp add: sys_frame_def)
  have "pr_inv ?m a p d Q C"
    by (rule pr_inv_bufs [OF assms(1)]) (use assms(1) t(13,14) in \<open>auto simp: pr_inv_def pr_fresh_def\<close>)
  then have inv: "pr_inv t a p d Q C" by (rule sys_frame_invs(1) [OF sf])
  have "evts_inv ?m E K" if "evts_inv s E K" for E K
    by (rule evts_inv_grow [OF _ _ _ _ that]) (use t(13,14) in simp_all)
  then have ev: "\<forall>E K. evts_inv s E K \<longrightarrow> evts_inv t E K" using sys_frame_invs(2) [OF sf] by blast
  have bn: "bufs s x = None" using assms(1) t(13) by (simp add: pr_inv_def pr_fresh_def)
  have pe: "pe_isserver t = pe_isserver s" "pe_istcp t = pe_istcp s" by (subst t(12), simp)+
  have f: "bufs t = (bufs s)(x \<mapsto> R)" "wrqs t = wrqs s" "rl t = rl s" "pr_obj t = pr_obj s" "answers t = answers s"
    by (subst t(12), simp)+
  have cs: "calls t = Sys_read (src_fd s a) (rdbufsize d) # calls s"
    using t(7) assms(3) by (simp add: the_read_def read_call_def)
  have R: "0 < r \<longrightarrow> int (buf_len R) = r \<and> buf_bytes R = ans_data (answer_at s 0)" using t(6,16) r(1) by blast
  have lt: "brk s < brk t" using t(13,14) by simp
  show ?thesis
    by (rule that [OF t(1) [folded r(1)] t(2,3) bn f(1) t(15) R cs t(8) [folded r(1)] t(9,11,10) f(2-5) pe lt inv ev])
qed

subsection \<open>Properties\<close>

text \<open>
  C11: accepting a client, on the select backend, while no allocation fails. \<^verbatim>\<open>did_accept\<close> on a new source whose descriptor is in range and not
  registered yet puts it in front of the file sources, enabled and watched for reading, and gives it its part of the proactor:
  an empty queue, no filters, the callbacks of the server and reads of at most 128 bytes; its events go to the proactor, with the data its user
  gave it. So the state is one from which
  the server echoes. Every other source keeps its flags, callback, data and link (all but the index that the poll backend, not this
  one, keeps in it), and the proactor's part of every other source, the buffers and the events stay as they are.
\<close>
theorem accepted_peer_served:
  fixes s :: "(gwrlbkd_select, 'z) pe_world_scheme"
  assumes "oom s = []" "srcs_inv s Fs Ts" "select_tracks s (set Fs)" "wrq_cache s C" "pr_fresh s"
    and "io_peersrc info = Some a" "srcs s a = Some o1" "src_type o1 = GWRL_SRC_TYPE_FILE" "src_part o1 = File_part f"
    and "src_next o1 = None" "a \<notin> set Fs" "0 \<le> file_fd f" "file_fd f < FD_SETSIZE" "file_fd f \<notin> src_fd s ` set Fs"
  shows "\<exists>t p d. did_accept select_ops info s = Some t \<and> srcs_inv t (a # Fs) Ts \<and> select_tracks t (set (a # Fs)) \<and>
    src_fd t a = file_fd f \<and> flisset (src_fl t a) GWRL_ENABLED \<and> flisset (src_fl t a) GWRL_RD \<and>
    pr_inv t a p d [] C \<and> no_rdfilters d \<and> no_wrfilters d \<and>
    didreadcb d = Some Fn_did_read \<and> didwritecb d = Some Fn_did_write \<and> closedcb d = Some Fn_did_disconnect \<and>
    errorcb d = Some Fn_pe_error \<and> rdop d = gwpr_read_op_id \<and> rdbufsize d = 128 \<and>
    src_calls t a = Some (Some Fn_gwpr_src_activity, src_userdata o1) \<and> others_kept a s t \<and>
    pdatas s p = None \<and> (\<forall>q. q \<noteq> p \<longrightarrow> pdatas t q = pdatas s q) \<and> bufs t = bufs s \<and> evts t = evts s"
proof -
  let ?p = "brk s" and ?d = "served_pdata (new_pdata (filters_max s))"
  obtain t where t: "gwpr_src_add select_ops (Some a) s = Some t" "srcs_inv t (a # Fs) Ts" "select_tracks t (set (a # Fs))"
    "src_pdata (Some a) t = Some (Some ?p)" "src_fl t a = GWRL_RD" "src_fd t a = file_fd f"
    "src_fd t a \<le> maxfd (backend (rl t))" "evts t = evts s" "brk s < brk t"
    "pdatas t = (pdatas s)(?p \<mapsto> new_pdata (filters_max s))" "bufs t = bufs s" "wrqs t = wrqs s"
    "pr_obj t = pr_obj s" "einfos t = einfos s"
    "others_kept a s t" "src_calls t a = Some (Some Fn_gwpr_src_activity, src_userdata o1)"
    by (rule pr_src_add_ok [OF assms(1-3,7-14)])
  let ?t = "t\<lparr>pdatas := (pdatas t)(?p \<mapsto> ?d)\<rparr>"
  note v = srcs_views(1-3) [of ?t t]
  have it: "srcs_inv ?t (a # Fs) Ts"
    by (rule srcs_inv_cong [OF _ _ _ t(2)]) (use srcs_invD(4) [OF t(2)] in \<open>simp_all add: fresh_ok_def\<close>)
  have tt: "select_tracks ?t (set (a # Fs))" by (rule tracks_views [OF _ _ t(3)]) (simp_all add: v)
  obtain u where u: "add_interest select_ops (GWRL_ENABLED OR GWRL_RD) (Some a) ?t = Some u" "srcs_inv u (a # Fs) Ts"
    "select_tracks u (set (a # Fs))" "src_fl u a = flset GWRL_RD (GWRL_ENABLED OR GWRL_RD)" "src_fd u a = file_fd f"
    "src_pdata (Some a) u = Some (Some ?p)" "world.more u = world.more ?t" "evts u = evts s" "brk s < brk u"
    "others_kept a ?t u" "src_calls u a = src_calls ?t a"
  proof (rule interest_ok [OF it _ tt, of a "GWRL_ENABLED OR GWRL_RD"])
    show "a \<in> set (a # Fs)" by simp
    show "src_fd ?t a \<le> maxfd (backend (rl ?t))" using t(7) by (simp add: v)
  qed (use that t(4-6,8,9) src_pdata_srcs [of ?t t "Some a"] in \<open>simp_all add: v\<close>)
  note m = more_fields [OF u(7)]
  have res: "did_accept select_ops info s = Some u"
    using did_accept_steps [OF t(1,4) _ assms(6), of "new_pdata (filters_max s)"] t(10) u(1) by simp
  have "has_pdata u a ?p ?d" using u(6) by (simp add: has_pdata_def m)
  moreover have "wrq_cache u C" by (rule wrq_cache_cong [OF assms(4)]) (simp_all add: m t(12,13) wrq_nx_def)
  moreover have "pr_fresh u" using assms(5) u(9) by (auto simp: pr_fresh_def m t(10-14))
  moreover have "wrq_queue u ?d []" by (simp add: wrq_queue_def served_pdata_def new_pdata_def zero_pdata_def Let_def)
  ultimately have pi: "pr_inv u a ?p ?d [] C" by (simp add: pr_inv_def)
  have nf: "no_rdfilters ?d" "no_wrfilters ?d"
    by (cases "filters_max s"; simp add: no_rdfilters_def no_wrfilters_def served_pdata_def new_pdata_def Let_def zero_pdata_def)+
  have "flisset (src_fl u a) GWRL_ENABLED" "flisset (src_fl u a) GWRL_RD"
    by (simp_all add: u(4) flag_simps bit_or_iff)
  moreover have "others_kept a s u" using t(15) u(10) by (simp add: others_kept_def)
  moreover have "src_calls u a = Some (Some Fn_gwpr_src_activity, src_userdata o1)" using u(11) t(16) by (simp add: src_calls_def)
  moreover have "pdatas s ?p = None" using assms(5) by (simp add: pr_fresh_def)
  ultimately show ?thesis using res u(2,3,5,8) pi nf m(1,2) t(10,11)
    by (intro exI [of _ u] exI [of _ ?p] exI [of _ ?d]) (simp add: served_pdata_def)
qed

text \<open>
  C9: the server of the example echoes. A client's descriptor is readable and the system has
  \<open>n\<close> bytes for it, at most as many as are asked for and as a synchronous write may have; it then takes
  them back within \<open>k\<close> calls (short counts and interrupted calls included). Handling the event reads once, and the calls that
  follow write to the same descriptor the bytes received, all of them, in order and once; then one event reports the write, and handling it
  frees the buffer: no buffer of the program has changed or is left, the queue of the source is empty and its structures are as
  they were, ready for the next event.
\<close>
theorem server_echoes:
  fixes s :: "('b, 'z) pe_world_scheme" and a :: addr and d :: gwprdata
  defines "data \<equiv> ans_data (answer_at s 0)" and "s1 \<equiv> s\<lparr>calls := Sys_read (src_fd s a) (rdbufsize d) # calls s\<rparr>"
  assumes "pe_isserver s" "pe_istcp s"
    and "pr_inv s a p d [] C" "evts_inv s E K" "file_src s a" "no_rdfilters d" "no_wrfilters d"
    and "didreadcb d = Some Fn_did_read" "didwritecb d = Some Fn_did_write" "rdop d = gwpr_read_op_id"
    and "evts s ev = Some e" "evt_src e = Some a" "evt_flags e = GWRL_RD" "ev \<notin> set E \<union> set K"
    and "rdbufsize d < 2 ^ 64" "int (rdbufsize d) \<le> gwpr_synchronous_write_max_bytes (pr_options (pr_obj s))"
    and "ans_ret (answer_at s 0) = int n" "0 < n" "n \<le> rdbufsize d" "length data = n"
    and "\<forall>i<k. ans_ret (answer_at s1 i) < 0 \<longrightarrow> ans_errno (answer_at s1 i) = EINTR"
    and "\<forall>i<k. sofar s1 i < n" "sofar s1 k = n"
  shows "\<exists>t u w C'. gwpr_src_activity (echo_callbacks ops) ops (Some ev) s = Some t \<and>
    calls t = sent (src_fd s a) gwpr_write_op_id None data s1 k @ Sys_read (src_fd s a) (rdbufsize d) # calls s \<and>
    concat (map (\<lambda>i. take (got s1 i) (drop (sofar s1 i) data)) [0..<k]) = data \<and>
    evts_inv t (w # E) (tl K) \<and>
    gwpr_src_activity (echo_callbacks ops) ops (Some w) t = Some u \<and>
    calls u = calls t \<and> bufs u = bufs s \<and> pr_inv u a p d [] C' \<and> evts_inv u (w # E) (tl K)"
proof -
  obtain t0 info x R where t0: "gwpr_src_activity_read (Some a) zero_io_info zero_error_info s =
      Some (int n, info, if int n < 0 then zero_error_info\<lparr>err_fnc := ''read''\<rparr> else zero_error_info, t0)"
    "io_buf info = Some x" "io_src info = Some a" "bufs s x = None" "bufs t0 = (bufs s)(x \<mapsto> R)"
    "length (buf_data R) = rdbufsize d" "0 < int n \<longrightarrow> int (buf_len R) = int n \<and> buf_bytes R = ans_data (answer_at s 0)"
    "calls t0 = Sys_read (src_fd s a) (rdbufsize d) # calls s" "int n < 0 \<longrightarrow> errno t0 = ans_errno (answer_at s 0)"
    "srcs t0 = srcs s" "evts t0 = evts s" "pdatas t0 = pdatas s" "wrqs t0 = wrqs s" "rl t0 = rl s" "pr_obj t0 = pr_obj s"
    "answers t0 = answers s" "pe_isserver t0 = pe_isserver s" "pe_istcp t0 = pe_istcp s" "brk s < brk t0"
    "pr_inv t0 a p d [] C" "\<forall>E K. evts_inv s E K \<longrightarrow> evts_inv t0 E K"
    by (rule client_read_ok [OF assms(5,7,12,17) assms(19) [symmetric]]) (use assms(21,22) in \<open>simp_all add: data_def\<close>)
  have R: "buf_len R = n" "buf_bytes R = data" using t0(7) assms(20) by (simp_all add: data_def)
  have ev: "evts_inv t0 E K" using t0(21) assms(6) by blast
  have rdy: "sync_ready t0 a d x R"
    using assms(7,9,18,20,21) t0(5,6,10,15) R(1) by (simp add: sync_ready_def file_src_iff)
  have an: "answer_at t0 i = answer_at s1 i" for i using t0(8,16) by (simp add: answer_at_def s1_def)
  have so: "got t0 i = got s1 i" "sofar t0 i = sofar s1 i" for i
    by (simp_all add: got_def sofar_def an cong: if_cong)
  have se: "sent fd op peer data t0 j = sent fd op peer data s1 j" for fd data j op peer by (simp add: sent_def so)
  obtain t w q where t: "gwpr_write no_filters ops (Some a) (Some x) t0 = Some (0, t)"
    "calls t = sent (src_fd t0 a) gwpr_write_op_id None (buf_bytes R) t0 k @ calls t0"
    "evts_inv t (w # E) (tl K)" "reports t a (src_fd t0 a) w q (Some x) gwpr_write_op_id"
    "pr_inv t a p (with_didwrite d) [] (tl C)" "bufs t = bufs t0" "q \<notin> set (tl C)" "srcs t = srcs t0"
    "\<forall>y. y < brk t0 \<and> y \<notin> set K \<longrightarrow> evts t y = evts t0 y"
    by (rule write_full_ok [OF t0(20) ev rdy, where k = k]) (use assms(23-25) in \<open>simp_all add: an so R\<close>)
  have fd: "src_fd t0 a = src_fd s a" using t0(10) by (simp add: src_fd_def)
  have wd: "with_didwrite d = d" using assms(11) by (simp add: with_didwrite_def)
  have dr: "did_read ops info t0 = Some t"
    using assms(3,4) t0(2,3,5,17,18) t(1) by (simp add: did_read_def get_buf_def)
  have pd0: "src_pdata (Some a) t0 = Some (Some p)" "pdatas t0 p = Some d" "pdatas s p = Some d"
    using t0(20) assms(5) by (simp_all add: pr_inv_def has_pdata_def)
  have fc: "gwpr_filter_call (echo_callbacks ops) (Some a) info gwpr_rdfilter_id t0 = Some t0"
    by (rule filter_call_none [OF pd0(1) _ assms(8)]) (simp add: pd0(2))
  have act: "activity_read (echo_callbacks ops) (Some a) (Some p) zero_io_info zero_error_info s = Some (info, zero_error_info, t)"
    using pd0 assms(10,20) t0(1) fc dr
    by (simp add: activity_read_def gwpr_src_activity_read_result_def echo_callbacks_io)
  have "ev < brk s" using assms(6,13) by (auto simp: evts_inv_def intro: fresh_okD)
  then have "evts t ev = Some e" using t(9) t0(11,19) assms(13,16) by auto
  note last = this
  have "has_pdata s a p d" using assms(5) by (simp add: pr_inv_def)
  then have r1: "gwpr_src_activity (echo_callbacks ops) ops (Some ev) s = Some t"
    using activity_rd [OF assms(13-15,7) _ assms(10) act last] by simp
  obtain u C' where u: "gwpr_src_activity (echo_callbacks ops) ops (Some w) t = Some u" "bufs u = (bufs t)(x := None)"
    "calls u = calls t" "pr_inv u a p d [] C'" "srcs u = srcs t" "evts u = evts t" "rl u = rl t" "brk u = brk t"
    by (rule report_freed [OF t(4) _ t(5) [unfolded wd] t(7) assms(11)])
      (use t(6,8) t0(5,10) assms(7) in \<open>simp_all add: file_src_iff\<close>)
  have b: "bufs u = bufs s" using u(2) t(6) t0(4,5) by (simp add: fun_upd_idem)
  have eu: "evts_inv u (w # E) (tl K)" by (rule evts_inv_grow [OF u(6) _ u(7) _ t(3)]) (simp_all add: u(5,8))
  have "concat (map (\<lambda>i. take (got s1 i) (drop (sofar s1 i) data)) [0..<k]) = data"
    using sofar_taken [of s1 k data] assms(22,25) by simp
  moreover have "calls t = sent (src_fd s a) gwpr_write_op_id None data s1 k @ Sys_read (src_fd s a) (rdbufsize d) # calls s"
    using t(2) t0(8) by (simp add: fd se R)
  ultimately show ?thesis using r1 t(3) u(1,3,4) b eu by blast
qed

text \<open>
  C10: when the peer of the server has gone (the end of the stream, a reset, a broken pipe), on the select backend: handling the event
  closes the descriptor and then deletes the source: it leaves the list and the descriptor sets, it and the
  proactor's data are freed, and the event can still be given back. But the buffer of the read and the writes that were still
  queued for the source, with their buffers, are never freed.
\<close>
theorem gone_peer_removed:
  fixes s :: "(gwrlbkd_select, 'z) pe_world_scheme"
  assumes "srcs_inv s (xs @ a # ys) Ts" "select_tracks s (set (xs @ a # ys))" "pr_inv s a p d Q C"
    and "didreadcb d = Some Fn_did_read" "closedcb d = Some Fn_did_disconnect" "rdop d = gwpr_read_op_id" "rdbufsize d < 2 ^ 64"
    and "evts s ev = Some e" "evt_src e = Some a" "evt_flags e = GWRL_RD"
    and "r = ans_ret (answer_at s 0)" "r = 0 \<or> r < 0 \<and> ans_errno (answer_at s 0) \<in> {ECONNRESET, EPIPE}"
  shows "\<exists>v t x. gwpr_src_activity (echo_callbacks select_ops) select_ops (Some ev) s = Some t \<and>
    gwpr_src_del select_ops (Some a) v = Some t \<and>
    calls v = Sys_close (src_fd s a) # Sys_read (src_fd s a) (rdbufsize d) # calls s \<and>
    srcs_inv t (xs @ ys) Ts \<and> select_tracks t (set (xs @ ys)) \<and> srcs t a = None \<and> pdatas t p = None \<and>
    evts t = evts s \<and> bufs s x = None \<and> bufs t x \<noteq> None \<and> (\<forall>b. bufs s b \<noteq> None \<longrightarrow> bufs t b = bufs s b) \<and>
    wrqs t = wrqs s"
proof -
  have fs: "file_src s a" using srcs_invD(5) [OF assms(1), of a] by simp
  have pd: "has_pdata s a p d" using assms(3) by (simp add: pr_inv_def)
  obtain t0 info x R where t0: "gwpr_src_activity_read (Some a) zero_io_info zero_error_info s =
      Some (r, info, if r < 0 then zero_error_info\<lparr>err_fnc := ''read''\<rparr> else zero_error_info, t0)"
    "io_buf info = Some x" "io_src info = Some a" "bufs s x = None" "bufs t0 = (bufs s)(x \<mapsto> R)"
    "length (buf_data R) = rdbufsize d" "0 < r \<longrightarrow> int (buf_len R) = r \<and> buf_bytes R = ans_data (answer_at s 0)"
    "calls t0 = Sys_read (src_fd s a) (rdbufsize d) # calls s" "r < 0 \<longrightarrow> errno t0 = ans_errno (answer_at s 0)"
    "srcs t0 = srcs s" "evts t0 = evts s" "pdatas t0 = pdatas s" "wrqs t0 = wrqs s" "rl t0 = rl s" "pr_obj t0 = pr_obj s"
    "answers t0 = answers s" "pe_isserver t0 = pe_isserver s" "pe_istcp t0 = pe_istcp s" "brk s < brk t0"
    "pr_inv t0 a p d Q C" "\<forall>E K. evts_inv s E K \<longrightarrow> evts_inv t0 E K"
    by (rule client_read_ok [OF assms(3) fs assms(6,7,11)]) (use assms(12) in \<open>auto simp: errno_defs\<close>)
  let ?v = "gwsk_close (src_fd s a) t0"
  have vf: "sys_frame t0 ?v" by (simp add: gwsk_close_def)
  note v = sys_frame_fields [OF vf]
  have "srcs_inv ?v (xs @ a # ys) Ts"
    by (rule srcs_inv_cong [OF _ _ _ assms(1)])
      (use srcs_invD(4) [OF assms(1)] t0(19) in \<open>auto simp: v t0(10,11,14) fresh_ok_def\<close>)
  moreover have "select_tracks ?v (set (xs @ a # ys))"
    by (rule tracks_views [OF _ _ assms(2)]) (simp_all add: v(1,3) t0(10,14) srcs_views(1-3) [of ?v s])
  moreover have "file_src ?v a" "has_pdata ?v a p d"
    using fs pd has_pdata_cong [of ?v s p a d] by (simp_all add: file_src_iff v(1,6) t0(10,12))
  ultimately obtain w where w: "drop_pdata (Some a) ?v = Some w" "srcs_inv w (xs @ a # ys) Ts" "select_tracks w (set (xs @ a # ys))"
    "pdatas w = (pdatas ?v)(p := None)" "bufs w = bufs ?v" "wrqs w = wrqs ?v" "evts w = evts ?v"
    using drop_pdata_ok by metis
  obtain t where t: "gwrl_src_del select_ops (Some a) None True w = Some t" "srcs_inv t (xs @ ys) Ts"
    "select_tracks t (set (xs @ ys))" "srcs t a = None" "evts t = evts w" "world.more t = world.more w"
    using sel.del_file [OF w(2,3), of None True] by blast
  note tm = more_fields [OF t(6)]
  have del: "gwpr_src_del select_ops (Some a) ?v = Some t" using w(1) t(1) by (simp add: gwpr_src_del_def)
  have fd: "src_file_fd (Some a) t0 = Some (src_fd s a)" using file_src_fd [OF fs] src_file_fd_srcs [OF t0(10)] by simp
  have dd: "did_disconnect select_ops info t0 = Some t" using t0(3) fd del by (simp add: did_disconnect_def)
  have pd0: "src_pdata (Some a) t0 = Some (Some p)" "pdatas t0 p = Some d" "pdatas s p = Some d"
    using pd t0(12) src_pdata_srcs [OF t0(10), of "Some a"] by (simp_all add: has_pdata_def)
  have act: "\<exists>er. activity_read (echo_callbacks select_ops) (Some a) (Some p) zero_io_info zero_error_info s = Some (info, er, t)"
    using pd0 assms(4,5,12) t0(1,9) dd
    by (auto simp: activity_read_def gwpr_src_activity_read_result_def echo_callbacks_io)
  have "evts t ev = Some e" using t(5) w(7) v(2) t0(11) assms(8) by simp
  then have "gwpr_src_activity (echo_callbacks select_ops) select_ops (Some ev) s = Some t"
    using activity_rd [OF assms(8-10) fs pd assms(4)] act by blast
  moreover have "calls ?v = Sys_close (src_fd s a) # Sys_read (src_fd s a) (rdbufsize d) # calls s"
    using t0(8) by (simp add: gwsk_close_def syscall_def Let_def)
  moreover note t0(4)
  moreover have "bufs t = (bufs s)(x \<mapsto> R)" using tm(1) w(5) v(5) t0(5) by simp
  moreover have "wrqs t = wrqs s" using tm(3) w(6) v(4) t0(13) by simp
  moreover have "pdatas t p = None" using tm(2) w(4) by simp
  moreover have "evts t = evts s" using t(5) w(7) v(2) t0(11) by simp
  ultimately show ?thesis using del t(2-4) by (intro exI [of _ ?v] exI [of _ t] exI [of _ x]) auto
qed

subsection \<open>Instances\<close>

text \<open>
  The source 7 of \<open>idle_world\<close> as a client of the TCP server, with an event (45) that says it is readable. In
  \<open>echo_world\<close> three bytes have come; the first call that writes them back is interrupted, the next takes two, the last one.
  In \<open>gone_world\<close> the peer has closed the connection.
\<close>

definition echo_pdata :: gwprdata where
  "echo_pdata = zero_pdata\<lparr>rdbufsize := 128, rdop := gwpr_read_op_id, didreadcb := Some Fn_did_read,
     didwritecb := Some Fn_did_write, closedcb := Some Fn_did_disconnect, errorcb := Some Fn_pe_error\<rparr>"

definition rd_evt :: gwrlevt where
  "rd_evt = new_evt (Some 7) (Some Fn_gwpr_src_activity) None 7 GWRL_RD None"

definition tcp_server :: "(nat \<Rightarrow> answer) \<Rightarrow> gwrlbkd_select pe_world" where
  "tcp_server A = pworld.extend ((idle_world A)\<lparr>pdatas := [21 \<mapsto> echo_pdata], evts := [45 \<mapsto> rd_evt],
       rl := (rl (idle_world A))\<lparr>backend := \<lparr>maxfd = 7, src_sets = (\<lambda>fd. fd = 7, \<lambda>_. False, \<lambda>fd. fd = 7)\<rparr>\<rparr>\<rparr>)
     (pe_world.fields Map.empty ''s'' ''localhost'' ''7'' ''tcp'' True True no_info None 0 1)"

lemmas tcp_server_defs = tcp_server_def pe_world.defs idle_defs

lemma tcp_server_fields:
  "pe_isserver (tcp_server A)" "pe_istcp (tcp_server A)" "evts (tcp_server A) 45 = Some rd_evt"
  "answer_at (tcp_server A) = A" "calls (tcp_server A) = []" "file_src (tcp_server A) 7" "src_fd (tcp_server A) 7 = 7"
  "src_fl (tcp_server A) 7 = GWRL_RD" "gwpr_synchronous_write_max_bytes (pr_options (pr_obj (tcp_server A))) = 512"
  by (simp_all add: tcp_server_defs file_src_iff src_fd_def src_fl_def as_file_def file_src_on_def src_type_defs
      answer_at_def fun_eq_iff GWPR_DEFAULT_OPTIONS_def)

lemma tcp_server_inv:
  "pr_inv (tcp_server A) 7 21 echo_pdata [] [35]" "evts_inv (tcp_server A) [] []" "srcs_inv (tcp_server A) [7] []"
  "select_tracks (tcp_server A) {7}"
proof -
  show "pr_inv (tcp_server A) 7 21 echo_pdata [] [35]"
    by (auto simp: pr_inv_def has_pdata_def src_pdata_def as_file_def file_src_on_def wrq_queue_def wrq_cache_def
      wrq_nx_def pr_fresh_def tcp_server_defs echo_pdata_def zero_pdata_def zero_wrq_def GWPR_DEFAULT_OPTIONS_def)
  show "evts_inv (tcp_server A) [] []"
    by (auto simp: evts_inv_def cache_ok_def fresh_ok_def tcp_server_defs zero_gwrl_def)
  show "srcs_inv (tcp_server A) [7] []"
    using tcp_server_fields(6) by (auto simp: srcs_inv_def src_type_defs src_nx_iff fresh_ok_def)
      (simp_all add: tcp_server_defs file_src_on_def zero_gwrl_def split: if_splits)
  have b: "backend (rl (tcp_server A)) = \<lparr>maxfd = 7, src_sets = (\<lambda>fd. fd = 7, \<lambda>_. False, \<lambda>fd. fd = 7)\<rparr>"
    by (simp add: tcp_server_defs zero_gwrl_def)
  show "select_tracks (tcp_server A) {7}"
    by (simp add: select_tracks_def b wanted_def fun_eq_iff tcp_server_fields select_fd_ok_def FD_SETSIZE_def flag_simps)
qed

definition echo_world :: "gwrlbkd_select pe_world" where
  "echo_world = tcp_server (\<lambda>n. if n = 0 then (ok_answer 3)\<lparr>ans_data := [1, 2, 3]\<rparr> else if n = 1 then fail_answer EINTR
     else if n = 2 then ok_answer 2 else ok_answer 1)"

theorem server_echoes_witness:
  "\<exists>t u w. gwpr_src_activity (echo_callbacks select_ops) select_ops (Some 45) echo_world = Some t \<and>
    gwpr_src_activity (echo_callbacks select_ops) select_ops (Some w) t = Some u \<and>
    calls u = [Sys_write 7 [3], Sys_write 7 [1, 2, 3], Sys_write 7 [1, 2, 3], Sys_read 7 128] \<and> bufs u = bufs echo_world"
proof -
  let ?A = "\<lambda>n. if n = 0 then (ok_answer 3)\<lparr>ans_data := [1, 2, 3]\<rparr> else if n = 1 then fail_answer EINTR
     else if n = 2 then ok_answer 2 else ok_answer 1"
  note w = echo_world_def tcp_server_fields
  let ?s1 = "echo_world\<lparr>calls := Sys_read (src_fd echo_world 7) (rdbufsize echo_pdata) # calls echo_world\<rparr>"
  have an: "answer_at ?s1 i = ?A (Suc i)" for i
    using tcp_server_fields(4,5) [of ?A] by (simp add: answer_at_def fun_eq_iff w(1))
  have so: "sofar ?s1 0 = 0" "sofar ?s1 1 = 0" "sofar ?s1 2 = 2" "sofar ?s1 3 = 3"
    by (simp_all add: sofar_def got_def an fail_answer_def ok_answer_def numeral_3_eq_3 numeral_2_eq_2)
  have inv: "pr_inv echo_world 7 21 echo_pdata [] [35]" "evts_inv echo_world [] []" "file_src echo_world 7"
    using tcp_server_inv tcp_server_fields by (simp_all add: w(1))
  have e: "evts echo_world 45 = Some rd_evt" "evt_src rd_evt = Some 7" "evt_flags rd_evt = GWRL_RD"
    by (simp_all add: w rd_evt_def new_evt_def)
  have d: "no_rdfilters echo_pdata" "no_wrfilters echo_pdata" "didreadcb echo_pdata = Some Fn_did_read"
    "didwritecb echo_pdata = Some Fn_did_write" "rdop echo_pdata = gwpr_read_op_id" "rdbufsize echo_pdata = 128"
    by (simp_all add: echo_pdata_def no_rdfilters_def no_wrfilters_def zero_pdata_def)
  obtain t u w where "gwpr_src_activity (echo_callbacks select_ops) select_ops (Some 45) echo_world = Some t"
    "gwpr_src_activity (echo_callbacks select_ops) select_ops (Some w) t = Some u" "calls u = calls t" "bufs u = bufs echo_world"
    "calls t = sent (src_fd echo_world 7) gwpr_write_op_id None (ans_data (answer_at echo_world 0)) ?s1 3 @
       Sys_read (src_fd echo_world 7) (rdbufsize echo_pdata) # calls echo_world"
    using server_echoes [of echo_world 7 21 echo_pdata "[35]" "[]" "[]" 45 rd_evt 3 3 select_ops] inv e d so an
    by (auto simp: w less_3 ok_answer_def fail_answer_def)
  moreover have "sent 7 gwpr_write_op_id None [1, 2, 3] ?s1 3 = [Sys_write 7 [3], Sys_write 7 [1, 2, 3], Sys_write 7 [1, 2, 3]]"
    using so by (simp add: sent_def write_call_def numeral_3_eq_3 numeral_2_eq_2)
  ultimately show ?thesis by (auto simp: w d ok_answer_def)
qed

theorem gone_peer_removed_witness:
  "\<exists>t. gwpr_src_activity (echo_callbacks select_ops) select_ops (Some 45) (tcp_server (\<lambda>_. ok_answer 0)) = Some t \<and>
    srcs_inv t [] [] \<and> select_tracks t {} \<and> srcs t 7 = None \<and> pdatas t 21 = None"
proof -
  let ?s = "tcp_server (\<lambda>_. ok_answer 0)"
  have e: "evts ?s 45 = Some rd_evt" "evt_src rd_evt = Some 7" "evt_flags rd_evt = GWRL_RD"
    by (simp_all add: tcp_server_fields rd_evt_def new_evt_def)
  have d: "didreadcb echo_pdata = Some Fn_did_read" "closedcb echo_pdata = Some Fn_did_disconnect"
    "rdop echo_pdata = gwpr_read_op_id" "rdbufsize echo_pdata < 2 ^ 64"
    by (simp_all add: echo_pdata_def)
  have a: "ans_ret (answer_at ?s 0) = 0" by (simp add: tcp_server_fields ok_answer_def)
  from gone_peer_removed [of ?s "[]" 7 "[]" "[]" 21 echo_pdata "[]" "[35]", OF _ _ tcp_server_inv(1) d e refl] tcp_server_inv(3,4) a
  show ?thesis by auto
qed

text \<open>A new client on descriptor 8, accepted next to the one on descriptor 7.\<close>

definition accepted_world :: "gwrlbkd_select pe_world" where
  "accepted_world = (tcp_server (\<lambda>_. ok_answer 0))\<lparr>srcs := (srcs (tcp_server (\<lambda>_. ok_answer 0)))(8 \<mapsto> file_src_on 8 0 None)\<rparr>"

theorem accepted_peer_served_witness:
  "\<exists>t p d. did_accept select_ops (zero_io_info\<lparr>io_peersrc := Some 8\<rparr>) accepted_world = Some t \<and>
    srcs_inv t [8, 7] [] \<and> select_tracks t {8, 7} \<and> pr_inv t 8 p d [] [35] \<and> didreadcb d = Some Fn_did_read"
proof -
  let ?s = "tcp_server (\<lambda>_. ok_answer 0)"
  have k: "file_src accepted_world b \<longleftrightarrow> b = 8 \<or> file_src ?s b" "time_src accepted_world b \<longleftrightarrow> b \<noteq> 8 \<and> time_src ?s b"
    "b \<noteq> 8 \<Longrightarrow> src_fd accepted_world b = src_fd ?s b" "b \<noteq> 8 \<Longrightarrow> src_fl accepted_world b = src_fl ?s b" for b
    by (auto simp: accepted_world_def file_src_iff time_src_iff src_fd_def src_fl_def file_src_on_def src_type_defs)
  have rl: "rl accepted_world = rl ?s" "brk accepted_world = 50" "oom accepted_world = []"
    by (simp_all add: accepted_world_def tcp_server_defs)
  have "srcs ?s 8 = None" by (simp add: tcp_server_defs)
  then have nx: "src_nx accepted_world = (src_nx ?s)(8 \<mapsto> None)"
    by (auto simp: accepted_world_def src_nx_srcs file_src_on_def)
  have fr: "fresh_ok accepted_world" by (auto simp: fresh_ok_def rl(2)) (auto simp: accepted_world_def tcp_server_defs)
  have inv: "srcs_inv accepted_world [7] []"
    using srcs_invD [OF tcp_server_inv(3) [of "\<lambda>_. ok_answer 0"]] by (intro srcs_invI fr) (auto simp: rl nx k)
  have tr: "select_tracks accepted_world (set [7])"
    by (rule tracks_views [of _ ?s]) (use tcp_server_inv(4) in \<open>simp_all add: rl k\<close>)
  have pr: "wrq_cache accepted_world [35]" "pr_fresh accepted_world"
  proof -
    show "wrq_cache accepted_world [35]"
      by (rule wrq_cache_cong [of ?s]) (use tcp_server_inv(1) in \<open>auto simp: pr_inv_def accepted_world_def wrq_nx_wrqs\<close>)
    show "pr_fresh accepted_world"
      using tcp_server_inv(1) [of "\<lambda>_. ok_answer 0"] by (simp add: pr_inv_def accepted_world_def pr_fresh_def)
  qed
  have s8: "srcs accepted_world 8 = Some (file_src_on 8 0 None)" by (simp add: accepted_world_def)
  have fd7: "src_fd accepted_world 7 = 7" by (simp add: k tcp_server_fields)
  have "io_peersrc (zero_io_info\<lparr>io_peersrc := Some 8\<rparr>) = Some 8" by simp
  from accepted_peer_served [OF rl(3) inv tr pr this s8] show ?thesis
    by (auto simp: file_src_on_def src_type_defs FD_SETSIZE_def fd7)
qed

end
