(* ===== verification/Spec2Isabelle.thy ===== *)
theory Spec2Isabelle
  imports Gw_PrActivity Gw_Free Gw_Round Gw_Completion Gw_Filetime Gw_Lock
    Gw_ReactorEcho Gw_ProactorEcho
begin

text \<open>
  A verification of libgwrl, a C library for event driven programs: a reactor
  (\<^verbatim>\<open>src/src/gwrl/event.c\<close>) with interchangeable backends (\<^verbatim>\<open>event_select.c\<close>, \<^verbatim>\<open>event_poll.c\<close>,
  \<^verbatim>\<open>event_epoll.c\<close>, \<^verbatim>\<open>event_kqueue.c\<close>, and for Windows \<^verbatim>\<open>event_iocp.c\<close>), a wake pipe (\<^verbatim>\<open>event_wake_pipe.c\<close>), a proactor on top of it
  (\<^verbatim>\<open>proactor.c\<close>, \<^verbatim>\<open>proactor_imp.c\<close>, and for Windows \<^verbatim>\<open>proactor_imp_iocp.c\<close>), time arithmetic (\<^verbatim>\<open>time.c\<close>) and socket helpers (\<^verbatim>\<open>socket.c\<close>).
  Two example programs use them (\<^verbatim>\<open>src/examples/reactor_echo.c\<close>, \<^verbatim>\<open>src/examples/proactor_echo.c\<close>).

  \<^bold>\<open>The program.\<close> A reactor (\<^verbatim>\<open>struct gwrl\<close>) owns linked lists of sources (descriptors and timers), a
  list of posted events and a cache of free ones, a backend, and two queues that other threads fill
  under a lock. One round of \<^verbatim>\<open>gwrl_run\<close> installs what is queued, dispatches the posted events by
  calling their callbacks, posts the timers that are due, and lets the backend wait for descriptors
  and post an event for each that is ready. The proactor installs its own callback in file sources;
  on an event it reads, accepts, or writes what the source has queued, and reports to the user's
  callbacks. On Windows every operation is started in advance with an overlapped structure, and the
  backend posts an event when one has ended. A synchronous write that is cut short leaves the rest in the queue of the source and
  tells the reactor by a posted event.

  \<^bold>\<open>How code and model correspond.\<close> A function of the program is a function of the same name into
  \<open>'a option\<close>; the backends define the same names, which carry the suffix of the backend
  here. \<open>None\<close> means that the call has no defined result: a null, dangling or freed pointer is used,
  an object is freed twice, an array is indexed out of its range, a signed addition overflows, an
  uninitialised value decides something, or a loop never ends; or that a callback of an example ends the program. Loops over pointers and retry loops
  are \<^theory_text>\<open>partial_function (option)\<close>, so that a theorem that says \<open>Some\<close> says that the loop ends; there
  is no fuel anywhere. A struct is a record, an enum a datatype, flags and counters are words of
  their width (\<^verbatim>\<open>ncevents\<close>, \<^verbatim>\<open>nfds\<close>, \<^verbatim>\<open>maxnpevents\<close>: 16 bits, source and event flags: 8 bits), 64-bit times
  are checked for overflow, other \<^verbatim>\<open>int\<close>s are integers. The memory is one partial map from addresses
  to objects per type of structure; \<^verbatim>\<open>calloc\<close> takes a fresh address, and fails when the list \<open>oom\<close>
  says so. System calls are recorded in \<open>calls\<close>, newest first, and the \<open>n\<close>-th call of a run is
  answered by \<open>answers n\<close>, which is arbitrary; the clock is \<open>tod\<close>. What a theorem needs of them is a
  hypothesis. The user's callbacks and gather functions are arguments, and so are the operations of
  the backend wherever the code is linked against one.

  \<^bold>\<open>The theories.\<close>
  \<^item> \<open>Gw_Prelude\<close>: pointers, flag macros, checked arithmetic, segments and chains of linked objects.
  \<^item> \<open>Gw_Time\<close>: \<^verbatim>\<open>time.c\<close>; conversions are exact and round trips, deadlines are normalised.
  \<^item> \<open>Gw_State\<close>: the structures of \<^verbatim>\<open>event.h\<close> and \<^verbatim>\<open>event_private.h\<close>, memory, system calls, the clock.
  \<^item> \<open>Gw_Events\<close>: events and their cache; the invariant \<open>evts_inv\<close> and what each operation does to it.
  \<^item> \<open>Gw_Sources\<close>: creation, registration, removal and enabling of sources; the invariant \<open>srcs_inv\<close>.
    The locale \<open>source_backend\<close> is the contract of a backend towards the reactor: from its laws on
    single calls follow those on \<^verbatim>\<open>gwrl_src_add\<close>, \<^verbatim>\<open>gwrl_src_del\<close> and the rest; \<open>reactor_backend\<close> adds the
    law on changing the flags of a source.
  \<^item> \<open>Gw_Timers\<close>: \<^verbatim>\<open>gwrl_time_gather\<close>, refined by a specification over the list of timers.
  \<^item> \<open>Gw_Wake\<close>, \<open>Gw_Queues\<close>: the self pipe, and the queues of other threads. A critical section is one
    step; reading the head of the queue before taking the lock is a step of its own.
  \<^item> \<open>Gw_Lock\<close>: \<^verbatim>\<open>lock.c\<close>, and the statements of the critical sections of any number of threads in any
    order. The locale \<open>locked_sections\<close>, interpreted on both queues, shows that the result is that of
    whole sections one after the other, which justifies the single step, and that every run ends.
  \<^item> \<open>Gw_Loop\<close>: dispatch with its limit on redispatching, refined by \<open>dispatch_spec\<close>, in the locale
    \<open>event_callbacks\<close>, which is the contract of callbacks; the run loop and its termination. Where dispatch never ends,
    the relation \<open>dispatch_step\<close> of single passes through its loop shows that it is the passes that never end, and that none is undefined.
  \<^item> \<open>Gw_Options\<close>: creation, options and the table of gather functions.
  \<^item> \<open>Gw_Select\<close>, \<open>Gw_Epoll\<close>, \<open>Gw_Poll\<close>, \<open>Gw_Kqueue\<close>: the backends. For each a predicate says that what it,
    or the kernel on its behalf, watches is exactly a set of enabled sources; with it the backend is an
    interpretation of the contract (select and epoll of \<open>reactor_backend\<close>; poll and kqueue of
    \<open>source_backend\<close> only, since their operation on flags breaks the further law). The interest that the
    kernel holds for epoll and kqueue is read off the recorded calls. Gathering posts exactly the
    events that the answer of the system calls for; select and epoll agree on what they post.
  \<^item> \<open>Gw_Free\<close>: \<^verbatim>\<open>gwrl_free\<close> and the release of the backends (locale \<open>backend_release\<close>, interpreted
    by all of them, each with the descriptors it holds and closes).
  \<^item> \<open>Gw_Round\<close>: the reactor as a whole. A step relation has the rounds of the run loop and what other
    threads do between them; \<open>reactor_wf\<close> joins the invariants of the parts, and the locale
    \<open>reactor_rounds\<close>, interpreted on select, shows that no reachable state is stuck.
  \<^item> \<open>Gw_Socket\<close>: \<^verbatim>\<open>socket.c\<close>; \<^verbatim>\<open>skctl\<close> as a loop over the addresses whose steps jump or go on.
  \<^item> \<open>Gw_Proactor\<close>, \<open>Gw_Wrq\<close>: the proactor's structures, buffers, filters and callbacks, and the cache and
    queues of write requests.
  \<^item> \<open>Gw_PrWrite\<close>, \<open>Gw_Writes\<close>: requests of the user: synchronous and queued writes, reads, connects.
  \<^item> \<open>Gw_PrActivity\<close>: the proactor's callback, which reads, accepts and drains the queue, and \<^verbatim>\<open>gwpr_free\<close>.
  \<^item> \<open>Gw_Iocp\<close>, \<open>Gw_Completion\<close>: the backend and the proactor of Windows. The first has the definitions and the
    cache of overlapped structures; the second interprets the contracts of a backend, and shows what
    gathering, accepting and the end of a read do.
  \<^item> \<open>Gw_Filetime\<close>: \<^verbatim>\<open>gettimeofday.c\<close>, the clock of Windows.
  \<^item> \<open>Gw_ReactorEcho\<close>, \<open>Gw_ProactorEcho\<close>: the example programs. Their callbacks instantiate the ones that are
    arguments elsewhere, their global variables extend the state, and their theorems follow a client
    through the library: accepted, read, echoed, its structures recycled, and removed when it has gone.

  \<^bold>\<open>What is shown.\<close> Type and shape invariants of all lists, kept by every operation; functional
  behaviour on every branch of the timers, dispatch, gathering, reading and writing; refinement of
  specifications by the timer pass, dispatch and the queue of requests; termination of the run loop
  once a stop is asked for, and of the retry loops; that the events, sources and descriptors of a reactor are released once;
  that bytes reach the descriptor in order and once; that threads that post at the same time lose
  nothing and wait for each other only for a bounded time; that the parts fit together: a reactor
  whose callbacks keep their contract returns from every round, and the server of the proactor's
  example echoes what a client sends, over several events. Where the code does not do what it
  means to, the theorem states what it does: for example that one more persistent timer may be
  freed, that two events posted by other threads make a cycle, that after a partial synchronous
  write what was sent
  already is queued again, and that loops hang on errors they do not expect.

  \<^bold>\<open>Assumptions.\<close> 64-bit Unix with the constants of Linux (of the BSDs for kqueue), little endian.
  \<^verbatim>\<open>realloc\<close> always moves. A registration call of epoll or kqueue does what its manual says when the
  recorded call is not answered by an error that the theorem names. \<^verbatim>\<open>printf\<close> and the text of messages
  have no effect; \<^verbatim>\<open>gwerr\<close> records the code of the message.

  For Windows \<^verbatim>\<open>long\<close> has 32 bits, handles and sockets are numbers, and \<^verbatim>\<open>GetQueuedCompletionStatus\<close> has
  stored the received bytes in the buffer of the operation it reports.

  \<^bold>\<open>Not modelled.\<close> The branches for Windows in \<^verbatim>\<open>event.c\<close> and \<^verbatim>\<open>socket.c\<close>, and the mismatch between
  \<^verbatim>\<open>proactor.h\<close> and the signatures of \<^verbatim>\<open>proactor_imp_iocp.c\<close>; the inside of a lock (spinning, the
  system's critical sections), which is not in the repository; the memory model of the hardware; the tests, which call
  the library and print what they see.
\<close>

end
